(* ===== verification/Prelude.thy ===== *)
theory Prelude
  imports
    Main
    "HOL-Library.Word"
    "HOL-Library.AList"
    "HOL-Library.List_Lexorder"
    "HOL-Library.Product_Lexorder"
    "HOL-Library.Multiset"
begin

text \<open>
  Shared foundation of the development.
  \<^item> Bytes are \<open>8 word\<close>s, Python's \<open>bytes\<close> are lists of them, Python's \<open>int\<close> is \<open>int\<close>
    and Python's \<open>str\<close> is the list of its Unicode code points.
  \<^item> Every exception class of the program (and those of the standard library the program meets)
    is a constructor of \<open>exn_class\<close>; a raised exception is its class with its message. A fallible
    function returns \<open>'a res\<close>, the error on the left. A method that changes its object returns the
    result together with the new object, also when it raises, so that "nothing changed on error"
    is a statement about the model and not a convention of it.
  \<^item> A Python \<open>dict\<close> is an association list in insertion order with distinct keys, updated by
    \<open>AList.update\<close> (in place for a known key, at the end for a new one) and \<open>AList.delete\<close>.
  The lemmas about these three are the automation the component theories rest on.
\<close>

subsection \<open>Types\<close>

type_synonym byte = "8 word"
type_synonym bytes = "byte list"
type_synonym pystr = "nat list"
type_synonym ('k, 'v) dict = "('k \<times> 'v) list"

definition str :: "string \<Rightarrow> pystr" where
  "str s = map (\<lambda>c. of_char c) s"

definition byte_literal :: "string \<Rightarrow> bytes" where
  "byte_literal s = map (\<lambda>c. of_char c) s"

definition byte_of :: "nat \<Rightarrow> byte" where
  "byte_of n = of_nat n"

lemma unat_byte_of [simp]: "n < 256 \<Longrightarrow> unat (byte_of n) = n"
  by (simp add: byte_of_def unat_of_nat)

lemma byte_of_unat [simp]: "byte_of (unat b) = b"
  by (simp add: byte_of_def)

lemma unat_byte_lt [simp]: "unat (b :: byte) < 256"
  using unsigned_less [of b, where ?'a = nat] by simp

definition isascii :: "pystr \<Rightarrow> bool" where
  "isascii s = list_all (\<lambda>c. c < 128) s"

definition ascii_lower :: "pystr \<Rightarrow> pystr" where
  "ascii_lower s = map (\<lambda>c. if 65 \<le> c \<and> c \<le> 90 then c + 32 else c) s"

definition ascii_upper :: "pystr \<Rightarrow> pystr" where
  "ascii_upper s = map (\<lambda>c. if 97 \<le> c \<and> c \<le> 122 then c - 32 else c) s"

text \<open>\<open>str(n)\<close> for a non-negative \<open>n\<close>, and the sign for a negative one.\<close>

definition digit_char :: "nat \<Rightarrow> char" where
  "digit_char d = char_of (48 + d)"

fun nat_digits :: "nat \<Rightarrow> string" where
  "nat_digits n = (if n < 10 then [digit_char n] else nat_digits (n div 10) @ [digit_char (n mod 10)])"

declare nat_digits.simps [simp del]

definition int_str :: "int \<Rightarrow> string" where
  "int_str n = (if n < 0 then ''-'' @ nat_digits (nat (- n)) else nat_digits (nat n))"

subsection \<open>Exceptions\<close>

datatype exn_class =
    ValueError | TypeError | KeyError | IndexError | OverflowError
  | UnicodeEncodeError | UnicodeDecodeError | Base64Error
  | EncodingError | CryptoError | AddressError | TransactionError | AccountError | StateError
  | MerkleError | BlockEncodingError | BlockError | MiningError | ChainError | MempoolError
  | NodeError | WalletError | CliError
  | ProtocolError | UnsupportedProtocolVersionError | PeerDisconnectedError | PeerFrameTimeoutError
  | P2PError | LocalTestnetOnlyError | PeerLimitError | HandshakeError
  | StorageError | StorageNotFoundError | StorageClosedError | StorageIntegrityError
  | UnsupportedSchemaVersionError | NetworkMismatchError | UnsupportedNetworkError
  | BlockNotFoundError | SqliteError | ConnectionError | FileNotFoundError | CancelledError
  | Diverges

text \<open>\<open>CancelledError\<close> is how asyncio interrupts a task that waits. \<open>Diverges\<close> is no Python exception: it stands
  for a loop that has not ended within the fuel the model gives it, or for a wait that never ends, and no handler
  of the program catches it.\<close>

datatype py_error = Exn (exn_kind: exn_class) (exn_message: string)

type_synonym 'a res = "py_error + 'a"

abbreviation raise :: "exn_class \<Rightarrow> string \<Rightarrow> 'a res" where
  "raise c m \<equiv> Inl (Exn c m)"

text \<open>Which classes an \<open>except ValueError\<close> catches: the subclasses of Python's \<open>ValueError\<close>.\<close>

fun is_value_error :: "exn_class \<Rightarrow> bool" where
  "is_value_error c = (c \<in> {ValueError, UnicodeEncodeError, UnicodeDecodeError, Base64Error,
     EncodingError, CryptoError, AddressError, TransactionError, AccountError, StateError,
     MerkleError, BlockEncodingError, BlockError, ChainError, MempoolError, NodeError, WalletError,
     CliError, ProtocolError, UnsupportedProtocolVersionError, PeerDisconnectedError,
     PeerFrameTimeoutError})"

fun is_storage_error :: "exn_class \<Rightarrow> bool" where
  "is_storage_error c = (c \<in> {StorageError, StorageNotFoundError, StorageClosedError,
     StorageIntegrityError, UnsupportedSchemaVersionError, NetworkMismatchError,
     UnsupportedNetworkError, BlockNotFoundError})"

fun is_protocol_error :: "exn_class \<Rightarrow> bool" where
  "is_protocol_error c = (c \<in> {ProtocolError, UnsupportedProtocolVersionError,
     PeerDisconnectedError, PeerFrameTimeoutError})"

definition bindE :: "'a res \<Rightarrow> ('a \<Rightarrow> 'b res) \<Rightarrow> 'b res" where
  "bindE m f = (case m of Inl e \<Rightarrow> Inl e | Inr x \<Rightarrow> f x)"

text \<open>\<open>try: m; except C as error: raise D(h(error))\<close>, for the classes \<open>C\<close> that satisfy \<open>p\<close>.\<close>

definition rethrow :: "(exn_class \<Rightarrow> bool) \<Rightarrow> (string \<Rightarrow> py_error) \<Rightarrow> 'a res \<Rightarrow> 'a res" where
  "rethrow p h m = (case m of
     Inl e \<Rightarrow> if p (exn_kind e) then Inl (h (exn_message e)) else Inl e
   | Inr x \<Rightarrow> Inr x)"

text \<open>The comprehension \<open>[f(x) for x in xs]\<close> where \<open>f\<close> may raise.\<close>

fun mapE :: "('a \<Rightarrow> 'b res) \<Rightarrow> 'a list \<Rightarrow> 'b list res" where
  "mapE f [] = Inr []"
| "mapE f (x # xs) = bindE (f x) (\<lambda>y. bindE (mapE f xs) (\<lambda>ys. Inr (y # ys)))"

text \<open>\<open>d[k]\<close>, which raises \<open>KeyError\<close> on a missing key.\<close>

definition dict_index :: "('k, 'v) dict \<Rightarrow> 'k \<Rightarrow> 'v res" where
  "dict_index d k = (case map_of d k of None \<Rightarrow> raise KeyError ''key'' | Some v \<Rightarrow> Inr v)"

named_theorems res_simps \<open>equations for the error monad\<close>
named_theorems inv_intros \<open>preservation of the components' invariants\<close>

lemma bindE_Inr [simp, res_simps]: "bindE (Inr x) f = f x"
  by (simp add: bindE_def)

lemma bindE_Inl [simp, res_simps]: "bindE (Inl e) f = Inl e"
  by (simp add: bindE_def)

lemma bindE_eq_Inr [res_simps]: "bindE m f = Inr y \<longleftrightarrow> (\<exists>x. m = Inr x \<and> f x = Inr y)"
  by (cases m) auto

lemma bindE_eq_Inl [res_simps]:
  "bindE m f = Inl e \<longleftrightarrow> m = Inl e \<or> (\<exists>x. m = Inr x \<and> f x = Inl e)"
  by (cases m) auto

lemma bindE_assoc: "bindE (bindE m f) g = bindE m (\<lambda>x. bindE (f x) g)"
  by (cases m) auto

lemma bindE_cong [fundef_cong]:
  "m = m' \<Longrightarrow> (\<And>x. m' = Inr x \<Longrightarrow> f x = f' x) \<Longrightarrow> bindE m f = bindE m' f'"
  by (cases m') auto

lemma rethrow_Inr [simp, res_simps]: "rethrow p h (Inr x) = Inr x"
  by (simp add: rethrow_def)

lemma rethrow_eq_Inr [simp, res_simps]: "rethrow p h m = Inr x \<longleftrightarrow> m = Inr x"
  by (cases m) (auto simp: rethrow_def)

lemma rethrow_eq_Inl [res_simps]:
  "rethrow p h m = Inl e \<longleftrightarrow>
     (\<exists>e'. m = Inl e' \<and> e = (if p (exn_kind e') then h (exn_message e') else e'))"
  by (cases m) (auto simp: rethrow_def)

lemma raise_if_eq_Inr [simp, res_simps]:
  "(if b then Inl e else m) = Inr x \<longleftrightarrow> \<not> b \<and> m = Inr x"
  "(if b then m else Inl e) = Inr x \<longleftrightarrow> b \<and> m = Inr x"
  by auto

text \<open>Going on after a method call: its result and the object it left.\<close>

lemma method_eq_Inr [res_simps]:
  "(case p of (Inl e, s) \<Rightarrow> Inl e | (Inr x, s) \<Rightarrow> f x s) = Inr y \<longleftrightarrow>
     (\<exists>x s. p = (Inr x, s) \<and> f x s = Inr y)"
  by (auto split: prod.splits sum.splits)

lemma mapE_eq_Inr: "mapE f xs = Inr ys \<longleftrightarrow> list_all2 (\<lambda>x y. f x = Inr y) xs ys"
proof (induction xs arbitrary: ys)
  case (Cons x xs)
  then show ?case by (cases ys) (auto simp: res_simps)
qed auto

lemma mapE_length: "mapE f xs = Inr ys \<Longrightarrow> length ys = length xs"
  by (auto simp: mapE_eq_Inr dest: list_all2_lengthD)

lemma mapE_append:
  "mapE f (xs @ ys) = bindE (mapE f xs) (\<lambda>as. bindE (mapE f ys) (\<lambda>bs. Inr (as @ bs)))"
  by (induction xs) (auto simp: bindE_def split: sum.splits)

lemma mapE_total: "(\<And>x. x \<in> set xs \<Longrightarrow> f x = Inr (g x)) \<Longrightarrow> mapE f xs = Inr (map g xs)"
  by (induction xs) auto

lemma mapE_cong [fundef_cong]:
  "xs = ys \<Longrightarrow> (\<And>x. x \<in> set ys \<Longrightarrow> f x = g x) \<Longrightarrow> mapE f xs = mapE g ys"
  by (induction ys arbitrary: xs) auto

lemma dict_index_eq_Inr [simp, res_simps]: "dict_index d k = Inr v \<longleftrightarrow> map_of d k = Some v"
  by (simp add: dict_index_def split: option.splits)

subsection \<open>Which exceptions a computation can raise\<close>

definition raises_only :: "exn_class set \<Rightarrow> 'a res \<Rightarrow> bool" where
  "raises_only A m \<longleftrightarrow> (\<forall>e. m = Inl e \<longrightarrow> exn_kind e \<in> A)"

named_theorems raises_intros \<open>exception classes of computations\<close>

lemma raises_onlyD: "raises_only A m \<Longrightarrow> m = Inl e \<Longrightarrow> exn_kind e \<in> A"
  by (simp add: raises_only_def)

lemma raises_Inr [raises_intros]: "raises_only A (Inr x)"
  by (simp add: raises_only_def)

lemma raises_raise [raises_intros]: "c \<in> A \<Longrightarrow> raises_only A (raise c m)"
  by (simp add: raises_only_def)

lemma raises_bind [raises_intros]:
  "raises_only A m \<Longrightarrow> (\<And>x. m = Inr x \<Longrightarrow> raises_only A (f x)) \<Longrightarrow> raises_only A (bindE m f)"
  by (cases m) (auto simp: raises_only_def)

lemma raises_if [raises_intros]:
  "(b \<Longrightarrow> raises_only A m) \<Longrightarrow> (\<not> b \<Longrightarrow> raises_only A n) \<Longrightarrow> raises_only A (if b then m else n)"
  by simp

lemma raises_option [raises_intros]:
  "(v = None \<Longrightarrow> raises_only A m) \<Longrightarrow> (\<And>x. v = Some x \<Longrightarrow> raises_only A (f x)) \<Longrightarrow>
     raises_only A (case v of None \<Rightarrow> m | Some x \<Rightarrow> f x)"
  by (cases v) auto

lemma raises_prod [raises_intros]:
  "(\<And>a b. v = (a, b) \<Longrightarrow> raises_only A (f a b)) \<Longrightarrow> raises_only A (case v of (a, b) \<Rightarrow> f a b)"
  by (cases v) auto

lemma raises_let [raises_intros]: "raises_only A (f v) \<Longrightarrow> raises_only A (let x = v in f x)"
  by simp

lemma raises_mapE [raises_intros]:
  "(\<And>x. x \<in> set xs \<Longrightarrow> raises_only A (f x)) \<Longrightarrow> raises_only A (mapE f xs)"
  by (induction xs) (auto intro!: raises_intros)

lemma raises_rethrow:
  "raises_only B m \<Longrightarrow> (\<And>k t. k \<in> B \<Longrightarrow> p k \<Longrightarrow> exn_kind (h t) \<in> A) \<Longrightarrow>
     (\<And>k. k \<in> B \<Longrightarrow> \<not> p k \<Longrightarrow> k \<in> A) \<Longrightarrow> raises_only A (rethrow p h m)"
  by (cases m) (auto simp: raises_only_def rethrow_def)

lemma raises_total: "\<exists>x. m = Inr x \<Longrightarrow> raises_only A m"
  by (auto simp: raises_only_def)

lemma raises_method [raises_intros]:
  "raises_only A (fst p) \<Longrightarrow> (\<And>x s. p = (Inr x, s) \<Longrightarrow> raises_only A (f x s)) \<Longrightarrow>
     raises_only A (case p of (Inl e, s) \<Rightarrow> Inl e | (Inr x, s) \<Rightarrow> f x s)"
  by (auto simp: raises_only_def split: prod.splits sum.splits)

lemma raises_mono: "raises_only B m \<Longrightarrow> B \<subseteq> A \<Longrightarrow> raises_only A m"
  by (auto simp: raises_only_def)

text \<open>The classes an \<open>except ValueError\<close> catches, as a set.\<close>

definition value_errors :: "exn_class set" where
  "value_errors = {c. is_value_error c}"

lemma raises_rethrow_value:
  "raises_only value_errors m \<Longrightarrow> (\<And>t. exn_kind (h t) \<in> A) \<Longrightarrow>
     raises_only A (rethrow is_value_error h m)"
  by (erule raises_rethrow) (simp_all add: value_errors_def del: is_value_error.simps)

subsection \<open>Loops whose body may raise\<close>

text \<open>\<open>for x in xs: body\<close> over a local value: the first error ends the loop.\<close>

fun foldE :: "('x \<Rightarrow> 's \<Rightarrow> 's res) \<Rightarrow> 'x list \<Rightarrow> 's \<Rightarrow> 's res" where
  "foldE f [] s = Inr s"
| "foldE f (x # xs) s = bindE (f x s) (foldE f xs)"

lemma bindE_return [simp]: "bindE m Inr = m"
  by (cases m) auto

lemma foldE_Nil [simp]: "foldE f [] = Inr"
  by (simp add: fun_eq_iff)

lemma foldE_append: "foldE f (xs @ ys) s = bindE (foldE f xs s) (foldE f ys)"
  by (induction xs arbitrary: s) (simp_all add: bindE_assoc [symmetric] fun_eq_iff bindE_def split: sum.splits)

lemma foldE_total:
  assumes "\<And>x s. x \<in> set xs \<Longrightarrow> Q s \<Longrightarrow> \<exists>s'. f x s = Inr s' \<and> Q s'" and "Q s"
  shows "\<exists>s'. foldE f xs s = Inr s' \<and> Q s'"
  using assms
proof (induction xs arbitrary: s)
  case (Cons x xs)
  obtain s1 where "f x s = Inr s1" "Q s1" using Cons.prems by (meson list.set_intros(1))
  then show ?case using Cons.IH [of s1] Cons.prems(1) by (simp add: res_simps)
qed auto

lemma raises_foldE:
  assumes "\<And>x s. Q s \<Longrightarrow> raises_only A (f x s)" and "\<And>x s s'. Q s \<Longrightarrow> f x s = Inr s' \<Longrightarrow> Q s'"
    and "Q s"
  shows "raises_only A (foldE f xs s)"
  using assms(3)
proof (induction xs arbitrary: s)
  case (Cons x xs)
  then show ?case using assms(1,2) by (auto intro!: raises_bind)
qed (simp add: raises_only_def)

text \<open>The contract of every batch loop of the program: one step keeps \<open>inv\<close>, so the loop does. The
  components interpret it on their own loop bodies.\<close>

locale batch_loop =
  fixes step :: "'x \<Rightarrow> 's \<Rightarrow> 's res" and inv :: "'s \<Rightarrow> bool" and okay :: "'x \<Rightarrow> bool"
  assumes step_inv: "okay x \<Longrightarrow> inv s \<Longrightarrow> step x s = Inr s' \<Longrightarrow> inv s'"
begin

lemma loop_inv: "list_all okay xs \<Longrightarrow> inv s \<Longrightarrow> foldE step xs s = Inr s' \<Longrightarrow> inv s'"
  by (induction xs arbitrary: s) (auto simp: res_simps dest: step_inv)

lemma prefix_runs:
  "list_all okay (xs @ ys) \<Longrightarrow> inv s \<Longrightarrow> foldE step (xs @ ys) s = Inr s' \<Longrightarrow>
     \<exists>m. foldE step xs s = Inr m \<and> inv m \<and> foldE step ys m = Inr s'"
  using loop_inv [of xs s] by (auto simp: foldE_append res_simps)

end

text \<open>The same with an abstraction: each step is matched by a step of a specification.\<close>

locale simulating_loop = batch_loop step inv okay
  for step :: "'x \<Rightarrow> 's \<Rightarrow> 's res" and inv okay +
  fixes abs :: "'s \<Rightarrow> 'a" and astep :: "'x \<Rightarrow> 'a \<Rightarrow> 'a"
  assumes step_sim: "okay x \<Longrightarrow> inv s \<Longrightarrow> step x s = Inr s' \<Longrightarrow> abs s' = astep x (abs s)"
begin

lemma loop_sim:
  "list_all okay xs \<Longrightarrow> inv s \<Longrightarrow> foldE step xs s = Inr s' \<Longrightarrow> abs s' = fold astep xs (abs s)"
proof (induction xs arbitrary: s)
  case (Cons x xs)
  then obtain s1 where 1: "step x s = Inr s1" "foldE step xs s1 = Inr s'" by (auto simp: res_simps)
  then have "inv s1" "abs s1 = astep x (abs s)" using Cons.prems step_inv step_sim by auto
  then show ?case using Cons.IH [of s1] Cons.prems(1) 1 by simp
qed simp

end

subsection \<open>Dictionaries\<close>

definition dict_ok :: "('k, 'v) dict \<Rightarrow> bool" where
  "dict_ok d \<longleftrightarrow> distinct (map fst d)"

text \<open>\<open>dict(pairs)\<close>: a later pair replaces an earlier one with its key.\<close>

definition dict_of_pairs :: "('k \<times> 'v) list \<Rightarrow> ('k, 'v) dict" where
  "dict_of_pairs ps = fold (\<lambda>(k, v). AList.update k v) ps []"

lemma dict_ok_Nil [simp, inv_intros]: "dict_ok []"
  by (simp add: dict_ok_def)

lemma dict_ok_update [simp, inv_intros]: "dict_ok d \<Longrightarrow> dict_ok (AList.update k v d)"
  by (simp add: dict_ok_def distinct_update)

lemma dict_ok_delete [simp, inv_intros]: "dict_ok d \<Longrightarrow> dict_ok (AList.delete k d)"
  by (simp add: dict_ok_def distinct_delete)

lemma map_of_update [simp]: "map_of (AList.update k v d) = (map_of d)(k \<mapsto> v)"
  by (rule update_conv')

lemma map_of_delete [simp]: "map_of (AList.delete k d) = (map_of d)(k := None)"
  by (rule delete_conv')

lemma dict_map_of_iff: "dict_ok d \<Longrightarrow> map_of d k = Some v \<longleftrightarrow> (k, v) \<in> set d"
  by (simp add: dict_ok_def)

lemma set_dict_update: "dict_ok d \<Longrightarrow> set (AList.update k v d) = insert (k, v) {e \<in> set d. fst e \<noteq> k}"
proof -
  assume d: "dict_ok d"
  then have "dict_ok (AList.update k v d)" by simp
  then have "(a, b) \<in> set (AList.update k v d) \<longleftrightarrow> ((map_of d)(k \<mapsto> v)) a = Some b" for a b
    using dict_map_of_iff [of "AList.update k v d"] by simp
  then show ?thesis using dict_map_of_iff [OF d] by (auto split: if_splits)
qed

lemma update_fresh: "map_of d k = None \<Longrightarrow> AList.update k v d = d @ [(k, v)]"
  by (induction d) auto

lemma dict_of_pairs_distinct: "distinct (map fst ps) \<Longrightarrow> dict_of_pairs ps = ps"
proof -
  have "distinct (map fst (acc @ ps)) \<Longrightarrow> fold (\<lambda>(k, v). AList.update k v) ps acc = acc @ ps" for acc
  proof (induction ps arbitrary: acc)
    case (Cons p ps)
    obtain k v where p: "p = (k, v)" by fastforce
    then have "AList.update k v acc = acc @ [(k, v)]"
      using Cons.prems by (intro update_fresh) (auto simp: map_of_eq_None_iff)
    then show ?case using Cons p by simp
  qed simp
  then show "distinct (map fst ps) \<Longrightarrow> dict_of_pairs ps = ps" by (simp add: dict_of_pairs_def)
qed

text \<open>A sum over the values of a dictionary and what an assignment does to it.\<close>

definition dict_sum :: "('v \<Rightarrow> int) \<Rightarrow> ('k, 'v) dict \<Rightarrow> int" where
  "dict_sum f d = sum_list (map (\<lambda>e. f (snd e)) d)"

lemma dict_sum_Nil [simp]: "dict_sum f [] = 0"
  by (simp add: dict_sum_def)

lemma dict_sum_update:
  "dict_ok d \<Longrightarrow> dict_sum f (AList.update k v d) =
     dict_sum f d + f v - (case map_of d k of None \<Rightarrow> 0 | Some w \<Rightarrow> f w)"
proof (induction d)
  case (Cons e d)
  obtain a b where e: "e = (a, b)" by fastforce
  have "dict_ok d" "map_of d a = None"
    using Cons.prems e by (auto simp: dict_ok_def map_of_eq_None_iff)
  then show ?case using Cons.IH e by (auto simp: dict_sum_def split: option.splits)
qed (simp add: dict_sum_def)

lemma dict_sum_member:
  assumes "dict_ok d" and "map_of d k = Some v" and "\<forall>e \<in> set d. 0 \<le> f (snd e)"
  shows "f v \<le> dict_sum f d"
proof -
  have "(k, v) \<in> set d" using assms by (simp add: dict_map_of_iff)
  then have "f v \<in> set (map (\<lambda>e. f (snd e)) d)" by force
  then show ?thesis unfolding dict_sum_def by (rule member_le_sum_list) (use assms(3) in auto)
qed

subsection \<open>Machines\<close>

text \<open>The states a component can reach: from a start state by any sequence of operations.\<close>

inductive reach :: "('s \<Rightarrow> bool) \<Rightarrow> ('s \<Rightarrow> 's \<Rightarrow> bool) \<Rightarrow> 's \<Rightarrow> bool"
  for start :: "'s \<Rightarrow> bool" and step :: "'s \<Rightarrow> 's \<Rightarrow> bool" where
  reach_start: "start s \<Longrightarrow> reach start step s"
| reach_step: "reach start step s \<Longrightarrow> step s s' \<Longrightarrow> reach start step s'"

locale machine =
  fixes start :: "'s \<Rightarrow> bool" and step :: "'s \<Rightarrow> 's \<Rightarrow> bool" and inv :: "'s \<Rightarrow> bool"
  assumes start_inv: "start s \<Longrightarrow> inv s" and step_inv: "inv s \<Longrightarrow> step s s' \<Longrightarrow> inv s'"
begin

lemma reach_inv: "reach start step s \<Longrightarrow> inv s"
  by (induction rule: reach.induct) (auto intro: start_inv step_inv)

text \<open>What holds of every single step between good states holds along every run.\<close>

lemma reach_next: "reach start step s \<Longrightarrow> step s s' \<Longrightarrow> inv s \<and> inv s' \<and> reach start step s'"
  using reach_inv reach_step step_inv by metis

end

end
