(* ===== verification/Platform.thy ===== *)
theory Platform
  imports Prelude
begin

text \<open>
  What the program calls and does not contain. \<open>platform\<close> holds the primitives of the packages
  \<open>cryptography\<close> (Ed25519, scrypt, AES-GCM), of \<open>hashlib\<close> and of \<open>unicodedata\<close>; every definition
  that needs one takes the platform as its first argument. \<open>platform_ok\<close> is their documented
  behaviour, as far as the program relies on it: output lengths, signatures made with a private
  seed verify under its public key, NFC is idempotent and leaves ASCII alone, AES-GCM decrypts what
  it encrypted. Nothing says that hashes do not collide.
\<close>

record platform =
  sha256 :: "bytes \<Rightarrow> bytes"
  nfc :: "pystr \<Rightarrow> pystr"
  ed25519_public_key :: "bytes \<Rightarrow> bytes"
  ed25519_sign :: "bytes \<Rightarrow> bytes \<Rightarrow> bytes"
  ed25519_verify :: "bytes \<Rightarrow> bytes \<Rightarrow> bytes \<Rightarrow> bool"
  scrypt_kdf :: "bytes \<Rightarrow> int \<Rightarrow> int \<Rightarrow> int \<Rightarrow> int \<Rightarrow> bytes \<Rightarrow> bytes"
  aesgcm_encrypt :: "bytes \<Rightarrow> bytes \<Rightarrow> bytes \<Rightarrow> bytes \<Rightarrow> bytes"
  aesgcm_decrypt :: "bytes \<Rightarrow> bytes \<Rightarrow> bytes \<Rightarrow> bytes \<Rightarrow> bytes option"

definition hash_ok :: "platform \<Rightarrow> bool" where
  "hash_ok P \<longleftrightarrow> (\<forall>x. length (sha256 P x) = 32)"

definition nfc_ok :: "platform \<Rightarrow> bool" where
  "nfc_ok P \<longleftrightarrow> (\<forall>s. nfc P (nfc P s) = nfc P s) \<and> (\<forall>s. isascii s \<longrightarrow> nfc P s = s)"

definition ed25519_ok :: "platform \<Rightarrow> bool" where
  "ed25519_ok P \<longleftrightarrow>
     (\<forall>k. length (ed25519_public_key P k) = 32) \<and>
     (\<forall>k m. length (ed25519_sign P k m) = 64) \<and>
     (\<forall>k m. length k = 32 \<longrightarrow> ed25519_verify P (ed25519_public_key P k) m (ed25519_sign P k m))"

definition aesgcm_ok :: "platform \<Rightarrow> bool" where
  "aesgcm_ok P \<longleftrightarrow>
     (\<forall>k n m a. aesgcm_decrypt P k n (aesgcm_encrypt P k n m a) a = Some m)"

definition platform_ok :: "platform \<Rightarrow> bool" where
  "platform_ok P \<longleftrightarrow> hash_ok P \<and> nfc_ok P \<and> ed25519_ok P \<and> aesgcm_ok P"

lemma platform_okD [simp]:
  assumes "platform_ok P"
  shows "hash_ok P" and "nfc_ok P" and "ed25519_ok P" and "aesgcm_ok P"
  using assms by (auto simp: platform_ok_def)

lemma length_sha256 [simp]: "hash_ok P \<Longrightarrow> length (sha256 P x) = 32"
  by (simp add: hash_ok_def)

lemma nfc_idem [simp]: "nfc_ok P \<Longrightarrow> nfc P (nfc P s) = nfc P s"
  by (simp add: nfc_ok_def)

lemma nfc_ascii: "nfc_ok P \<Longrightarrow> isascii s \<Longrightarrow> nfc P s = s"
  by (simp add: nfc_ok_def)

lemma ed25519_okD:
  assumes "ed25519_ok P"
  shows "length (ed25519_public_key P k) = 32" and "length (ed25519_sign P k m) = 64"
    and "length k = 32 \<Longrightarrow> ed25519_verify P (ed25519_public_key P k) m (ed25519_sign P k m)"
  using assms by (auto simp: ed25519_ok_def)

end
