(* ===== verification/Python_Codecs.thy ===== *)
theory Python_Codecs
  imports Platform
begin

text \<open>
  The parts of Python's standard library that decide what the program's bytes look like, written
  out: \<open>int.to_bytes\<close> and \<open>int.from_bytes\<close> in big-endian order, and strict UTF-8. Both come with
  the fact the canonical encodings rest on: decoding succeeds exactly on the encoder's output.
\<close>

subsection \<open>Big-endian integers\<close>

fun to_bytes_be :: "nat \<Rightarrow> int \<Rightarrow> bytes" where
  "to_bytes_be 0 v = []"
| "to_bytes_be (Suc n) v = to_bytes_be n (v div 256) @ [word_of_int v]"

definition from_bytes_be :: "bytes \<Rightarrow> int" where
  "from_bytes_be bs = foldl (\<lambda>a b. a * 256 + uint b) 0 bs"

lemma length_to_bytes_be [simp]: "length (to_bytes_be n v) = n"
  by (induction n arbitrary: v) auto

lemma from_bytes_be_Nil [simp]: "from_bytes_be [] = 0"
  by (simp add: from_bytes_be_def)

lemma from_bytes_be_snoc [simp]: "from_bytes_be (bs @ [b]) = from_bytes_be bs * 256 + uint b"
  by (simp add: from_bytes_be_def)

lemma uint_byte_bounds: "0 \<le> uint (b :: byte)" "uint (b :: byte) < 256"
  using uint_lt2p [of b] by auto

lemma from_bytes_be_bounds: "0 \<le> from_bytes_be bs \<and> from_bytes_be bs < 256 ^ length bs"
proof (induction bs rule: rev_induct)
  case (snoc b bs)
  moreover have "from_bytes_be bs * 256 + uint b < 256 ^ length bs * 256"
    using snoc uint_byte_bounds [of b] by linarith
  ultimately show ?case
    using uint_byte_bounds [of b] by (simp add: ac_simps)
qed simp

lemma from_to_bytes_be: "from_bytes_be (to_bytes_be n v) = v mod 256 ^ n"
proof (induction n arbitrary: v)
  case (Suc n)
  have "v mod (256 * 256 ^ n) = 256 * (v div 256 mod 256 ^ n) + v mod 256"
    by (rule zmod_zmult2_eq) simp
  with Suc show ?case
    by (simp add: uint_word_of_int)
qed simp

lemma from_to_bytes_be_id:
  "0 \<le> v \<Longrightarrow> v < 256 ^ n \<Longrightarrow> from_bytes_be (to_bytes_be n v) = v"
  by (simp add: from_to_bytes_be)

lemma to_from_bytes_be: "to_bytes_be (length bs) (from_bytes_be bs) = bs"
proof (induction bs rule: rev_induct)
  case (snoc b bs)
  have "(from_bytes_be bs * 256 + uint b) div 256 = from_bytes_be bs"
    using uint_byte_bounds [of b] by simp
  moreover have "(word_of_int (from_bytes_be bs * 256 + uint b) :: byte) = b"
  proof (rule word_uint_eqI)
    have "uint (word_of_int (from_bytes_be bs * 256 + uint b) :: byte)
        = (from_bytes_be bs * 256 + uint b) mod 256"
      by (simp only: uint_word_of_int) simp
    then show "uint (word_of_int (from_bytes_be bs * 256 + uint b) :: byte) = uint b"
      using uint_byte_bounds [of b] by simp
  qed
  ultimately show ?case using snoc by simp
qed simp

lemma from_bytes_be_inj:
  "length xs = length ys \<Longrightarrow> from_bytes_be xs = from_bytes_be ys \<Longrightarrow> xs = ys"
  by (metis to_from_bytes_be)

subsection \<open>UTF-8\<close>

definition utf8_encode_char :: "nat \<Rightarrow> bytes res" where
  "utf8_encode_char c =
     (if c < 0x80 then Inr [byte_of c]
      else if c < 0x800 then Inr [byte_of (0xC0 + c div 64), byte_of (0x80 + c mod 64)]
      else if 0xD800 \<le> c \<and> c < 0xE000 then
        raise UnicodeEncodeError ''surrogates not allowed''
      else if c < 0x10000 then
        Inr [byte_of (0xE0 + c div 4096), byte_of (0x80 + c div 64 mod 64), byte_of (0x80 + c mod 64)]
      else if c < 0x110000 then
        Inr [byte_of (0xF0 + c div 262144), byte_of (0x80 + c div 4096 mod 64),
             byte_of (0x80 + c div 64 mod 64), byte_of (0x80 + c mod 64)]
      else raise UnicodeEncodeError ''code point out of range'')"

definition utf8_encode :: "pystr \<Rightarrow> bytes res" where
  "utf8_encode s = bindE (mapE utf8_encode_char s) (\<lambda>bss. Inr (concat bss))"

definition cont_bits :: "byte \<Rightarrow> nat option" where
  "cont_bits b = (if 0x80 \<le> unat b \<and> unat b < 0xC0 then Some (unat b - 0x80) else None)"

definition utf8_decode_char :: "bytes \<Rightarrow> (nat \<times> bytes) option" where
  "utf8_decode_char bs = (case bs of [] \<Rightarrow> None | b # r1 \<Rightarrow>
     let n = unat b in
     if n < 0x80 then Some (n, r1)
     else if n < 0xC2 then None
     else (case r1 of [] \<Rightarrow> None | b1 # r2 \<Rightarrow> (case cont_bits b1 of None \<Rightarrow> None | Some c1 \<Rightarrow>
       if n < 0xE0 then Some ((n - 0xC0) * 64 + c1, r2)
       else (case r2 of [] \<Rightarrow> None | b2 # r3 \<Rightarrow> (case cont_bits b2 of None \<Rightarrow> None | Some c2 \<Rightarrow>
         if n < 0xF0 then
           (let v = (n - 0xE0) * 4096 + c1 * 64 + c2 in
            if v < 0x800 \<or> 0xD800 \<le> v \<and> v < 0xE000 then None else Some (v, r3))
         else if n < 0xF5 then
           (case r3 of [] \<Rightarrow> None | b3 # r4 \<Rightarrow> (case cont_bits b3 of None \<Rightarrow> None | Some c3 \<Rightarrow>
             (let v = (n - 0xF0) * 262144 + c1 * 4096 + c2 * 64 + c3 in
              if v < 0x10000 \<or> 0x110000 \<le> v then None else Some (v, r4))))
         else None)))))"

lemma utf8_decode_char_shorter:
  "utf8_decode_char bs = Some (c, r) \<Longrightarrow> length r < length bs"
  by (auto simp: utf8_decode_char_def Let_def split: list.splits option.splits if_splits)

function utf8_decode :: "bytes \<Rightarrow> pystr res" where
  "utf8_decode bs =
     (if bs = [] then Inr []
      else case utf8_decode_char bs of
        None \<Rightarrow> raise UnicodeDecodeError ''invalid UTF-8''
      | Some (c, r) \<Rightarrow> bindE (utf8_decode r) (\<lambda>s. Inr (c # s)))"
  by pat_completeness auto
termination
  by (relation "measure length") (auto simp: utf8_decode_char_shorter)

declare utf8_decode.simps [simp del]

lemma cont_bits_byte_of [simp]: "k < 64 \<Longrightarrow> cont_bits (byte_of (0x80 + k)) = Some k"
  by (simp add: cont_bits_def)

lemma cont_bits_Some: "cont_bits b = Some k \<Longrightarrow> k < 64 \<and> b = byte_of (0x80 + k)"
  by (auto simp: cont_bits_def split: if_splits)

lemma utf8_char_1: "c < 0x80 \<Longrightarrow> utf8_decode_char (byte_of c # r) = Some (c, r)"
  by (simp add: utf8_decode_char_def)

lemma utf8_char_2:
  assumes "2 \<le> a" "a < 32" "k < 64"
  shows "utf8_decode_char (byte_of (0xC0 + a) # byte_of (0x80 + k) # r) = Some (a * 64 + k, r)"
  using assms by (simp add: utf8_decode_char_def)

lemma utf8_char_3:
  assumes "a < 16" "b < 64" "k < 64" "0x800 \<le> a * 4096 + b * 64 + k"
    and "a * 4096 + b * 64 + k < 0xD800 \<or> 0xE000 \<le> a * 4096 + b * 64 + k"
  shows "utf8_decode_char (byte_of (0xE0 + a) # byte_of (0x80 + b) # byte_of (0x80 + k) # r)
     = Some (a * 4096 + b * 64 + k, r)"
  using assms by (auto simp add: utf8_decode_char_def Let_def)

lemma utf8_char_4:
  assumes "a < 5" "b < 64" "d < 64" "k < 64"
    and "0x10000 \<le> a * 262144 + b * 4096 + d * 64 + k"
    and "a * 262144 + b * 4096 + d * 64 + k < 0x110000"
  shows "utf8_decode_char (byte_of (0xF0 + a) # byte_of (0x80 + b) # byte_of (0x80 + d) #
       byte_of (0x80 + k) # r) = Some (a * 262144 + b * 4096 + d * 64 + k, r)"
  using assms by (simp add: utf8_decode_char_def Let_def)

lemma base64_step: "(k :: nat) < 64 \<Longrightarrow> (x * 64 + k) div 64 = x \<and> (x * 64 + k) mod 64 = k"
  by simp

lemma div_4096: "(c :: nat) div 4096 = c div 64 div 64"
  using div_mult2_eq [of c 64 64] by simp

lemma div_262144: "(c :: nat) div 262144 = c div 64 div 64 div 64"
  using div_mult2_eq [of c 4096 64] div_4096 [of c] by simp

lemma base64_digit: "\<exists>x k. (c :: nat) = x * 64 + k \<and> k < 64"
  by (metis div_mult_mod_eq mod_less_divisor zero_less_numeral)

lemma utf8_encode_2:
  assumes "2 \<le> a" "a < 32" "k < 64"
  shows "utf8_encode_char (a * 64 + k) = Inr [byte_of (0xC0 + a), byte_of (0x80 + k)]"
proof -
  have "(a * 64 + k) div 64 = a" "(a * 64 + k) mod 64 = k" using assms by auto
  with assms show ?thesis by (simp add: utf8_encode_char_def)
qed

lemma utf8_encode_3:
  assumes "a < 16" "b < 64" "k < 64" "0x800 \<le> a * 4096 + b * 64 + k"
    and "a * 4096 + b * 64 + k < 0xD800 \<or> 0xE000 \<le> a * 4096 + b * 64 + k"
  shows "utf8_encode_char (a * 4096 + b * 64 + k)
     = Inr [byte_of (0xE0 + a), byte_of (0x80 + b), byte_of (0x80 + k)]"
proof -
  let ?c = "a * 4096 + b * 64 + k"
  have c: "?c = (a * 64 + b) * 64 + k" by simp
  have "?c mod 64 = k" "?c div 64 = a * 64 + b"
    unfolding c using base64_step [OF assms(3)] by blast+
  moreover from this have "?c div 4096 = a" "?c div 64 mod 64 = b"
    using base64_step [OF assms(2), of a] div_4096 [of ?c] by simp_all
  moreover have "?c < 0x10000" "\<not> ?c < 0x800" "\<not> ?c < 0x80" using assms by linarith+
  ultimately show ?thesis using assms(5) unfolding utf8_encode_char_def by auto
qed

lemma utf8_encode_4:
  assumes "a < 5" "b < 64" "d < 64" "k < 64"
    and "0x10000 \<le> a * 262144 + b * 4096 + d * 64 + k"
    and "a * 262144 + b * 4096 + d * 64 + k < 0x110000"
  shows "utf8_encode_char (a * 262144 + b * 4096 + d * 64 + k)
     = Inr [byte_of (0xF0 + a), byte_of (0x80 + b), byte_of (0x80 + d), byte_of (0x80 + k)]"
proof -
  let ?c = "a * 262144 + b * 4096 + d * 64 + k"
  have c: "?c = ((a * 64 + b) * 64 + d) * 64 + k" by simp
  have k: "?c mod 64 = k" "?c div 64 = (a * 64 + b) * 64 + d"
    unfolding c using base64_step [OF assms(4)] by blast+
  moreover from this have d: "?c div 64 div 64 = a * 64 + b" "?c div 64 mod 64 = d"
    unfolding k(2) using base64_step [OF assms(3), of "a * 64 + b"] by blast+
  moreover from this have "?c div 262144 = a" "?c div 4096 mod 64 = b"
    using base64_step [OF assms(2), of a] div_262144 [of ?c] div_4096 [of ?c] by simp_all
  moreover have "\<not> ?c < 0x10000" "\<not> (0xD800 \<le> ?c \<and> ?c < 0xE000)" "\<not> ?c < 0x800" "\<not> ?c < 0x80"
    using assms by linarith+
  ultimately show ?thesis using assms(6) unfolding utf8_encode_char_def by auto
qed

lemma utf8_char_digits:
  assumes "utf8_encode_char c = Inr p"
  obtains "c < 0x80"
  | a k where "2 \<le> a" "a < 32" "k < 64" "c = a * 64 + k"
  | a b k where "a < 16" "b < 64" "k < 64" "c = a * 4096 + b * 64 + k"
      "0x800 \<le> c" "c < 0xD800 \<or> 0xE000 \<le> c"
  | a b d k where "a < 5" "b < 64" "d < 64" "k < 64" "c = a * 262144 + b * 4096 + d * 64 + k"
      "0x10000 \<le> c" "c < 0x110000"
proof -
  consider "c < 0x80" | "0x80 \<le> c" "c < 0x800"
    | "0x800 \<le> c" "c < 0x10000" "c < 0xD800 \<or> 0xE000 \<le> c"
    | "0x10000 \<le> c" "c < 0x110000"
    using assms by (fastforce simp: utf8_encode_char_def split: if_splits)
  then show thesis
  proof cases
    case 1
    then show ?thesis by (rule that(1))
  next
    case 2
    obtain a k where "c = a * 64 + k" "k < 64" using base64_digit by blast
    with 2 show ?thesis by (intro that(2) [of a k]) linarith+
  next
    case 3
    obtain x k where k: "c = x * 64 + k" "k < 64" using base64_digit by blast
    obtain a b where "x = a * 64 + b" "b < 64" using base64_digit by blast
    with 3 k show ?thesis by (intro that(3) [of a b k]) linarith+
  next
    case 4
    obtain y k where k: "c = y * 64 + k" "k < 64" using base64_digit by blast
    obtain x d where d: "y = x * 64 + d" "d < 64" using base64_digit by blast
    obtain a b where "x = a * 64 + b" "b < 64" using base64_digit by blast
    with 4 k d show ?thesis by (intro that(4) [of a b d k]) linarith+
  qed
qed

lemma utf8_decode_encode_char:
  assumes "utf8_encode_char c = Inr p"
  shows "utf8_decode_char (p @ r) = Some (c, r)"
  using assms
proof (cases rule: utf8_char_digits)
  case 1
  with assms have "p = [byte_of c]" by (simp add: utf8_encode_char_def)
  with 1 show ?thesis by (simp add: utf8_char_1)
next
  case (2 a k)
  with assms have "p = [byte_of (0xC0 + a), byte_of (0x80 + k)]" using utf8_encode_2 [of a k] by simp
  with 2 show ?thesis using utf8_char_2 [of a k r] by simp
next
  case (3 a b k)
  with assms have "p = [byte_of (0xE0 + a), byte_of (0x80 + b), byte_of (0x80 + k)]"
    using utf8_encode_3 [of a b k] by simp
  with 3 show ?thesis using utf8_char_3 [of a b k r] by simp
next
  case (4 a b d k)
  with assms have "p = [byte_of (0xF0 + a), byte_of (0x80 + b), byte_of (0x80 + d), byte_of (0x80 + k)]"
    using utf8_encode_4 [of a b d k] by simp
  with 4 show ?thesis using utf8_char_4 [of a b d k r] by simp
qed

lemma lead_byte: "m \<le> unat b \<Longrightarrow> \<exists>a. unat b = m + a \<and> b = byte_of (m + a)" for m :: nat
  by (metis byte_of_unat le_iff_add)

lemma utf8_encode_decode_char:
  assumes "utf8_decode_char bs = Some (c, r)"
  shows "\<exists>p. utf8_encode_char c = Inr p \<and> bs = p @ r"
proof -
  obtain b r1 where bs: "bs = b # r1"
    using assms by (cases bs) (auto simp: utf8_decode_char_def)
  let ?n = "unat b"
  consider "?n < 0x80" | "0xC2 \<le> ?n" "?n < 0xE0" | "0xE0 \<le> ?n" "?n < 0xF0" | "0xF0 \<le> ?n" "?n < 0xF5"
    using assms bs
    by (fastforce simp: utf8_decode_char_def Let_def split: if_splits list.splits option.splits)
  then show ?thesis
  proof cases
    case 1
    with assms bs show ?thesis
      by (auto simp: utf8_decode_char_def utf8_encode_char_def)
  next
    case 2
    have "0xC0 \<le> ?n" using 2 by linarith
    then obtain a where a: "?n = 0xC0 + a" "b = byte_of (0xC0 + a)" using lead_byte by blast
    with 2 assms bs obtain b1 k where k: "r1 = b1 # r" "cont_bits b1 = Some k" "c = a * 64 + k"
      by (auto simp: utf8_decode_char_def Let_def split: list.splits option.splits if_splits)
    with a 2 bs cont_bits_Some [OF k(2)] show ?thesis
      using utf8_encode_2 [of a k] by simp
  next
    case 3
    have "0xE0 \<le> ?n" using 3 by linarith
    then obtain a where a: "?n = 0xE0 + a" "b = byte_of (0xE0 + a)" using lead_byte by blast
    with 3 assms bs obtain b1 j b2 k where k: "r1 = b1 # b2 # r" "cont_bits b1 = Some j"
      "cont_bits b2 = Some k" "c = a * 4096 + j * 64 + k" "0x800 \<le> c" "c < 0xD800 \<or> 0xE000 \<le> c"
      by (fastforce simp: utf8_decode_char_def Let_def split: list.splits option.splits if_splits)
    with a 3 bs cont_bits_Some [OF k(2)] cont_bits_Some [OF k(3)] show ?thesis
      using utf8_encode_3 [of a j k] by simp
  next
    case 4
    have "0xF0 \<le> ?n" using 4 by linarith
    then obtain a where a: "?n = 0xF0 + a" "b = byte_of (0xF0 + a)" using lead_byte by blast
    with 4 assms bs obtain b1 i b2 j b3 k where k: "r1 = b1 # b2 # b3 # r" "cont_bits b1 = Some i"
      "cont_bits b2 = Some j" "cont_bits b3 = Some k" "c = a * 262144 + i * 4096 + j * 64 + k"
      "0x10000 \<le> c" "c < 0x110000"
      by (fastforce simp: utf8_decode_char_def Let_def split: list.splits option.splits if_splits)
    with a 4 bs cont_bits_Some [OF k(2)] cont_bits_Some [OF k(3)] cont_bits_Some [OF k(4)]
    show ?thesis using utf8_encode_4 [of a i j k] by simp
  qed
qed

lemma utf8_encode_Cons:
  "utf8_encode (c # s) = bindE (utf8_encode_char c) (\<lambda>p. bindE (utf8_encode s) (\<lambda>q. Inr (p @ q)))"
  by (simp add: utf8_encode_def bindE_assoc)

lemma utf8_encode_Nil [simp]: "utf8_encode [] = Inr []"
  by (simp add: utf8_encode_def)

lemma utf8_encode_char_nonempty: "utf8_encode_char c = Inr p \<Longrightarrow> p \<noteq> []"
  by (auto simp: utf8_encode_char_def split: if_splits)

lemma utf8_decode_encode: "utf8_encode s = Inr bs \<Longrightarrow> utf8_decode bs = Inr s"
proof (induction s arbitrary: bs)
  case Nil
  then show ?case by (simp add: utf8_decode.simps)
next
  case (Cons c s)
  then obtain p q where pq: "utf8_encode_char c = Inr p" "utf8_encode s = Inr q" "bs = p @ q"
    by (auto simp: utf8_encode_Cons res_simps)
  with utf8_encode_char_nonempty Cons.IH show ?case
    by (subst utf8_decode.simps) (auto simp: utf8_decode_encode_char)
qed

lemma utf8_encode_decode: "utf8_decode bs = Inr s \<Longrightarrow> utf8_encode s = Inr bs"
proof (induction bs arbitrary: s rule: utf8_decode.induct)
  case (1 bs)
  show ?case
  proof (cases "bs = []")
    case True
    with 1 show ?thesis by (simp add: utf8_decode.simps)
  next
    case False
    with "1.prems" obtain c r t where ct: "utf8_decode_char bs = Some (c, r)" "utf8_decode r = Inr t"
      "s = c # t"
      by (subst (asm) utf8_decode.simps) (auto simp: res_simps split: option.splits)
    with "1.IH" False have "utf8_encode t = Inr r" by simp
    with utf8_encode_decode_char [OF ct(1)] ct(3) show ?thesis
      by (auto simp: utf8_encode_Cons)
  qed
qed

lemma utf8_decode_iff: "utf8_decode bs = Inr s \<longleftrightarrow> utf8_encode s = Inr bs"
  using utf8_decode_encode utf8_encode_decode by blast

lemma utf8_encode_ascii: "isascii s \<Longrightarrow> utf8_encode s = Inr (map byte_of s)"
  by (induction s) (auto simp: utf8_encode_Cons isascii_def utf8_encode_char_def)

subsection \<open>Hexadecimal text\<close>

text \<open>\<open>bytes.hex\<close> and \<open>bytes.fromhex\<close>, which skips ASCII white space between the pairs of digits.\<close>

definition hex_char :: "nat \<Rightarrow> nat" where
  "hex_char d = (if d < 10 then 48 + d else 87 + d)"

definition bytes_hex :: "bytes \<Rightarrow> pystr" where
  "bytes_hex bs = concat (map (\<lambda>b. [hex_char (unat b div 16), hex_char (unat b mod 16)]) bs)"

definition hex_value :: "nat \<Rightarrow> nat option" where
  "hex_value c = (if 48 \<le> c \<and> c \<le> 57 then Some (c - 48) else if 97 \<le> c \<and> c \<le> 102 then Some (c - 87)
     else if 65 \<le> c \<and> c \<le> 70 then Some (c - 55) else None)"

definition ascii_space :: "nat \<Rightarrow> bool" where
  "ascii_space c \<longleftrightarrow> 9 \<le> c \<and> c \<le> 13 \<or> c = 32"

fun bytes_fromhex :: "pystr \<Rightarrow> bytes res" where
  "bytes_fromhex [] = Inr []"
| "bytes_fromhex [c] = (if ascii_space c then Inr [] else raise ValueError ''non-hexadecimal number found'')"
| "bytes_fromhex (c # d # s) =
     (if ascii_space c then bytes_fromhex (d # s)
      else case (hex_value c, hex_value d) of
        (Some x, Some y) \<Rightarrow> bindE (bytes_fromhex s) (\<lambda>bs. Inr (byte_of (16 * x + y) # bs))
      | _ \<Rightarrow> raise ValueError ''non-hexadecimal number found'')"

lemma hex_value_char [simp]: "d < 16 \<Longrightarrow> hex_value (hex_char d) = Some d"
  by (auto simp: hex_value_def hex_char_def)

lemma hex_char_space [simp]: "d < 16 \<Longrightarrow> \<not> ascii_space (hex_char d)"
  by (auto simp: ascii_space_def hex_char_def)

lemma bytes_fromhex_hex [simp]: "bytes_fromhex (bytes_hex bs) = Inr bs"
proof (induction bs)
  case (Cons b bs)
  have "unat b div 16 < 16" "unat b mod 16 < 16" "16 * (unat b div 16) + unat b mod 16 = unat b"
    using unat_byte_lt [of b] by (simp_all add: less_mult_imp_div_less)
  then show ?case using Cons by (simp add: bytes_hex_def)
qed (simp add: bytes_hex_def)

end
