(* ===== verification/Encoding.thy ===== *)
theory Encoding
  imports Python_Codecs
begin

text \<open>
  \<open>encoding.py\<close>: the canonical binary primitives and the strict forward-only \<open>CanonicalReader\<close>.
  \<^item> An encoder is a function into \<open>bytes res\<close>; a reader operation takes the reader and returns the
    value with the advanced reader.
  \<^item> The locale \<open>field_codec\<close> is the contract between the primitives and every structure built
    from them: a read succeeds with \<open>x\<close> exactly when the input starts with the one encoding of
    \<open>x\<close>. It is interpreted for every primitive of the file; the structures of the other theories get
    round trip and canonicity from it.
\<close>

subsection \<open>Encoders\<close>

definition U8_MAX :: int where
  "U8_MAX = 2 ^ 8 - 1"

definition U16_MAX :: int where
  "U16_MAX = 2 ^ 16 - 1"

definition U32_MAX :: int where
  "U32_MAX = 2 ^ 32 - 1"

definition U64_MAX :: int where
  "U64_MAX = 2 ^ 64 - 1"

lemmas width_maxima = U8_MAX_def U16_MAX_def U32_MAX_def U64_MAX_def

definition encode_unsigned :: "int \<Rightarrow> nat \<Rightarrow> int \<Rightarrow> bytes res" where
  "encode_unsigned v width maximum =
     (if \<not> (0 \<le> v \<and> v \<le> maximum) then
        raise EncodingError (''unsigned integer does not fit in '' @ int_str (int width) @ '' bytes'')
      else Inr (to_bytes_be width v))"

definition encode_u8 :: "int \<Rightarrow> bytes res" where
  "encode_u8 v = encode_unsigned v 1 U8_MAX"

definition encode_u16 :: "int \<Rightarrow> bytes res" where
  "encode_u16 v = encode_unsigned v 2 U16_MAX"

definition encode_u32 :: "int \<Rightarrow> bytes res" where
  "encode_u32 v = encode_unsigned v 4 U32_MAX"

definition encode_u64 :: "int \<Rightarrow> bytes res" where
  "encode_u64 v = encode_unsigned v 8 U64_MAX"

definition encode_bytes :: "bytes \<Rightarrow> bytes res" where
  "encode_bytes v =
     (if int (length v) > U32_MAX then raise EncodingError ''byte field is too long''
      else bindE (encode_u32 (int (length v))) (\<lambda>n. Inr (n @ v)))"

definition encode_text :: "platform \<Rightarrow> pystr \<Rightarrow> bytes res" where
  "encode_text P v = bindE (utf8_encode (nfc P v)) encode_bytes"

definition encode_sequence :: "bytes list \<Rightarrow> bytes res" where
  "encode_sequence vs =
     (if int (length vs) > U32_MAX then raise EncodingError ''sequence contains too many items''
      else bindE (encode_u32 (int (length vs))) (\<lambda>n.
           bindE (mapE encode_bytes vs) (\<lambda>items. Inr (n @ concat items))))"

text \<open>\<open>b"".join((f1, ..., fn))\<close> over fields that may raise, evaluated left to right.\<close>

fun join_fields :: "bytes res list \<Rightarrow> bytes res" where
  "join_fields [] = Inr []"
| "join_fields (f # fs) = bindE f (\<lambda>p. bindE (join_fields fs) (\<lambda>q. Inr (p @ q)))"

subsection \<open>The reader\<close>

record canonical_reader =
  rd_data :: bytes
  rd_offset :: nat

definition canonical_reader_of :: "bytes \<Rightarrow> canonical_reader" where
  "canonical_reader_of bs = \<lparr>rd_data = bs, rd_offset = 0\<rparr>"

definition remaining :: "canonical_reader \<Rightarrow> int" where
  "remaining r = int (length (rd_data r)) - int (rd_offset r)"

definition take_bytes :: "int \<Rightarrow> canonical_reader \<Rightarrow> (bytes \<times> canonical_reader) res" where
  "take_bytes n r =
     (if n < 0 \<or> n > remaining r then raise EncodingError ''truncated canonical data''
      else Inr (take (nat n) (drop (rd_offset r) (rd_data r)),
                r\<lparr>rd_offset := rd_offset r + nat n\<rparr>))"

definition read_unsigned :: "nat \<Rightarrow> canonical_reader \<Rightarrow> (int \<times> canonical_reader) res" where
  "read_unsigned width r =
     bindE (take_bytes (int width) r) (\<lambda>(bs, r). Inr (from_bytes_be bs, r))"

definition read_u8 :: "canonical_reader \<Rightarrow> (int \<times> canonical_reader) res" where
  "read_u8 = read_unsigned 1"

definition read_u16 :: "canonical_reader \<Rightarrow> (int \<times> canonical_reader) res" where
  "read_u16 = read_unsigned 2"

definition read_u32 :: "canonical_reader \<Rightarrow> (int \<times> canonical_reader) res" where
  "read_u32 = read_unsigned 4"

definition read_u64 :: "canonical_reader \<Rightarrow> (int \<times> canonical_reader) res" where
  "read_u64 = read_unsigned 8"

definition validate_optional_limit :: "int option \<Rightarrow> string \<Rightarrow> unit res" where
  "validate_optional_limit v name = (case v of
     None \<Rightarrow> Inr ()
   | Some n \<Rightarrow> if n < 0 then raise EncodingError (name @ '' must be a non-negative int or None'')
       else Inr ())"

definition exceeds :: "int \<Rightarrow> int option \<Rightarrow> bool" where
  "exceeds n limit = (case limit of None \<Rightarrow> False | Some m \<Rightarrow> n > m)"

definition read_bytes :: "int option \<Rightarrow> canonical_reader \<Rightarrow> (bytes \<times> canonical_reader) res" where
  "read_bytes max_length r =
     bindE (validate_optional_limit max_length ''max_length'') (\<lambda>_.
     bindE (read_u32 r) (\<lambda>(n, r).
       if exceeds n max_length then raise EncodingError ''byte field exceeds its allowed length''
       else take_bytes n r))"

definition read_text ::
  "platform \<Rightarrow> int option \<Rightarrow> canonical_reader \<Rightarrow> (pystr \<times> canonical_reader) res" where
  "read_text P max_length r =
     bindE (read_bytes max_length r) (\<lambda>(encoded, r).
     bindE (rethrow (\<lambda>c. c = UnicodeDecodeError)
              (\<lambda>_. Exn EncodingError ''text field is not valid UTF-8'') (utf8_decode encoded)) (\<lambda>v.
       if nfc P v \<noteq> v then raise EncodingError ''text field is not in canonical NFC form''
       else Inr (v, r)))"

fun read_items ::
  "int option \<Rightarrow> nat \<Rightarrow> canonical_reader \<Rightarrow> (bytes list \<times> canonical_reader) res" where
  "read_items max_item_length n r =
     (if n = 0 then Inr ([], r)
      else bindE (read_bytes max_item_length r) (\<lambda>(x, r).
           bindE (read_items max_item_length (n - 1) r) (\<lambda>(xs, r). Inr (x # xs, r))))"

declare read_items.simps [simp del]

definition read_sequence ::
  "int option \<Rightarrow> int option \<Rightarrow> canonical_reader \<Rightarrow> (bytes list \<times> canonical_reader) res" where
  "read_sequence max_items max_item_length r =
     bindE (validate_optional_limit max_items ''max_items'') (\<lambda>_.
     bindE (validate_optional_limit max_item_length ''max_item_length'') (\<lambda>_.
     bindE (read_u32 r) (\<lambda>(count, r).
       if exceeds count max_items then raise EncodingError ''sequence exceeds its allowed item count''
       else read_items max_item_length (nat count) r)))"

definition ensure_finished :: "canonical_reader \<Rightarrow> unit res" where
  "ensure_finished r =
     (if remaining r \<noteq> 0 then raise EncodingError ''trailing bytes after canonical value''
      else Inr ())"

subsection \<open>What a reader has left\<close>

definition unread :: "canonical_reader \<Rightarrow> bytes" where
  "unread r = drop (rd_offset r) (rd_data r)"

definition advances :: "bytes \<Rightarrow> canonical_reader \<Rightarrow> canonical_reader \<Rightarrow> bool" where
  "advances p r r' \<longleftrightarrow> r' = r\<lparr>rd_offset := rd_offset r + length p\<rparr>
     \<and> rd_offset r' \<le> length (rd_data r) \<and> unread r = p @ unread r'"

lemma unread_start [simp]: "unread (canonical_reader_of bs) = bs"
  by (simp add: unread_def canonical_reader_of_def)

lemma advances_unread: "advances p r r' \<Longrightarrow> unread r = p @ unread r'"
  by (simp add: advances_def)

lemma advances_fun: "advances p r r' \<Longrightarrow> advances p r r'' \<Longrightarrow> r' = r''"
  by (simp add: advances_def)

lemma advances_append:
  "advances (p @ q) r r'' \<longleftrightarrow> (\<exists>r'. advances p r r' \<and> advances q r' r'')"
proof
  assume a: "advances (p @ q) r r''"
  let ?r = "r\<lparr>rd_offset := rd_offset r + length p\<rparr>"
  have "unread ?r = drop (length p) (unread r)"
    by (simp add: unread_def add.commute)
  with a have "unread ?r = q @ unread r''" by (simp add: advances_def)
  with a have "advances p r ?r \<and> advances q ?r r''"
    by (auto simp: advances_def add.assoc)
  then show "\<exists>r'. advances p r r' \<and> advances q r' r''" by blast
qed (auto simp: advances_def add.assoc)

lemma advances_ex:
  assumes "unread r = p @ q" and "rd_offset r \<le> length (rd_data r)"
  obtains r' where "advances p r r'" and "unread r' = q"
proof -
  let ?r = "r\<lparr>rd_offset := rd_offset r + length p\<rparr>"
  have u: "unread ?r = drop (length p) (unread r)"
    by (simp add: unread_def add.commute)
  moreover have "rd_offset r + length p \<le> length (rd_data r)"
  proof -
    have "length (rd_data r) - rd_offset r = length p + length q"
      using arg_cong [OF assms(1), of length] by (simp add: unread_def)
    with assms(2) show ?thesis by linarith
  qed
  ultimately show thesis
    using that [of ?r] assms(1) by (simp add: advances_def)
qed

lemma take_bytes_iff:
  "take_bytes n r = Inr (p, r') \<longleftrightarrow> n = int (length p) \<and> advances p r r'"
proof
  assume t: "take_bytes n r = Inr (p, r')"
  then have p: "p = take (nat n) (unread r)" "length p = nat n" "0 \<le> n"
    and r': "r' = r\<lparr>rd_offset := rd_offset r + nat n\<rparr>" "rd_offset r' \<le> length (rd_data r)"
    by (auto simp: take_bytes_def remaining_def unread_def split: if_splits)
  moreover have "unread r' = drop (nat n) (unread r)"
    using r' by (simp add: unread_def add.commute)
  ultimately show "n = int (length p) \<and> advances p r r'"
    by (simp add: advances_def)
next
  assume a: "n = int (length p) \<and> advances p r r'"
  then have "length (unread r) = length (p @ unread r')" and "take (length p) (unread r) = p"
    by (simp_all add: advances_def)
  with a show "take_bytes n r = Inr (p, r')"
    by (auto simp: take_bytes_def remaining_def advances_def unread_def)
qed

lemma ensure_finished_iff: "ensure_finished r = Inr u \<longleftrightarrow> remaining r = 0"
  by (simp add: ensure_finished_def)

text \<open>A decoder that reads its fields off a fresh reader and ends with \<open>ensure_finished\<close> has read
  all of its input, and nothing else.\<close>

lemma advances_whole:
  "(\<exists>r'. advances p (canonical_reader_of bs) r' \<and> remaining r' = 0) \<longleftrightarrow> p = bs"
  by (auto simp: advances_def canonical_reader_of_def unread_def remaining_def)

text \<open>The input left to the reader is exactly the encodings of these fields, in this order.\<close>

definition parses :: "bytes res list \<Rightarrow> canonical_reader \<Rightarrow> bool" where
  "parses fs r \<longleftrightarrow> (\<exists>w r'. join_fields fs = Inr w \<and> advances w r r' \<and> remaining r' = 0)"

definition reads :: "bytes res \<Rightarrow> canonical_reader \<Rightarrow> canonical_reader \<Rightarrow> bool" where
  "reads f r r' \<longleftrightarrow> (\<exists>p. f = Inr p \<and> advances p r r')"

lemma reads_fun: "reads f r r' \<Longrightarrow> reads f r r'' \<Longrightarrow> r' = r''"
  by (auto simp: reads_def dest: advances_fun)

lemma parses_Nil: "parses [] r \<longleftrightarrow> remaining r = 0"
  by (auto simp: parses_def advances_def remaining_def)

lemma parses_Cons:
  "parses (f # fs) r \<longleftrightarrow> (\<exists>r'. reads f r r' \<and> parses fs r')"
  by (auto simp: parses_def reads_def res_simps advances_append) blast+

lemma parses_whole: "parses fs (canonical_reader_of bs) \<longleftrightarrow> join_fields fs = Inr bs"
  using advances_whole [of _ bs] by (fastforce simp: parses_def)

subsection \<open>The contract of a field\<close>

locale field_codec =
  fixes enc :: "'a \<Rightarrow> bytes res"
    and dec :: "canonical_reader \<Rightarrow> ('a \<times> canonical_reader) res"
    and ok :: "'a \<Rightarrow> bool"
  assumes dec_iff: "dec r = Inr (x, r') \<longleftrightarrow> ok x \<and> (\<exists>p. enc x = Inr p \<and> advances p r r')"
begin

lemma dec_reads: "dec r = Inr (x, r') \<longleftrightarrow> ok x \<and> reads (enc x) r r'"
  by (simp add: dec_iff reads_def)

text \<open>One step of a decoder that reads a record field by field, in the order of its bytes: \<open>v\<close> is
  the field of the record that is read next, \<open>Q\<close> says the earlier fields are right, \<open>A\<close> collects
  the conditions on the later ones.\<close>

lemma bind_parses:
  assumes "\<And>x r'. K x r' = Inr t \<longleftrightarrow> (x = v \<and> Q) \<and> A \<and> parses fs r'"
  shows "bindE (dec r) (\<lambda>(x, r'). K x r') = Inr t \<longleftrightarrow> Q \<and> (ok v \<and> A) \<and> parses (enc v # fs) r"
  using assms by (auto simp: bindE_eq_Inr dec_reads parses_Cons split: prod.splits)

lemma bind_parses_total:
  assumes "\<And>x. ok x" and "\<And>x r'. K x r' = Inr t \<longleftrightarrow> (x = v \<and> Q) \<and> A \<and> parses fs r'"
  shows "bindE (dec r) (\<lambda>(x, r'). K x r') = Inr t \<longleftrightarrow> Q \<and> A \<and> parses (enc v # fs) r"
  using bind_parses [OF assms(2)] assms(1) by simp

lemma dec_encoded:
  assumes "ok x" and "enc x = Inr p" and "unread r = p @ q" and "rd_offset r \<le> length (rd_data r)"
  shows "\<exists>r'. dec r = Inr (x, r') \<and> unread r' = q"
  using assms(1,2) advances_ex [OF assms(3,4)] dec_iff by metis

lemma dec_canonical: "dec r = Inr (x, r') \<Longrightarrow> \<exists>p. enc x = Inr p \<and> unread r = p @ unread r'"
  by (auto simp: dec_iff advances_def)

text \<open>No encoding is a proper prefix of another one: a field needs no terminator.\<close>

lemma prefix_free:
  assumes "ok x" and "ok y" and "enc x = Inr p" and "enc y = Inr q" and "p @ s = q @ t"
  shows "x = y \<and> s = t"
proof -
  let ?r = "canonical_reader_of (p @ s)"
  have o: "rd_offset ?r \<le> length (rd_data ?r)" by (simp add: canonical_reader_of_def)
  obtain r1 where "dec ?r = Inr (x, r1)" and "unread r1 = s"
    using dec_encoded [OF assms(1,3) _ o, of s] by auto
  moreover obtain r2 where "dec ?r = Inr (y, r2)" and "unread r2 = t"
    using dec_encoded [OF assms(2,4) _ o, of t] assms(5) by auto
  ultimately show ?thesis by simp
qed

lemma enc_inj: "ok x \<Longrightarrow> ok y \<Longrightarrow> enc x = Inr p \<Longrightarrow> enc y = Inr p \<Longrightarrow> x = y"
  using prefix_free [of x y p p "[]" "[]"] by simp

end

text \<open>The contract of a whole message, read to its last byte.\<close>

locale message_codec =
  fixes encode :: "'a \<Rightarrow> 'b res" and decode :: "'b \<Rightarrow> 'a res" and valid :: "'a \<Rightarrow> bool"
  assumes decode_iff: "decode bs = Inr x \<longleftrightarrow> valid x \<and> encode x = Inr bs"
begin

lemma round_trip: "valid x \<Longrightarrow> encode x = Inr bs \<Longrightarrow> decode bs = Inr x"
  by (simp add: decode_iff)

lemma canonical: "decode bs = Inr x \<Longrightarrow> encode x = Inr bs"
  by (simp add: decode_iff)

lemma decode_valid: "decode bs = Inr x \<Longrightarrow> valid x"
  by (simp add: decode_iff)

lemma not_malleable: "decode bs = Inr x \<Longrightarrow> decode bs' = Inr x \<Longrightarrow> bs = bs'"
  by (auto simp: decode_iff)

lemma encode_inj: "valid x \<Longrightarrow> valid y \<Longrightarrow> encode x = Inr bs \<Longrightarrow> encode y = Inr bs \<Longrightarrow> x = y"
  using decode_iff [of bs x] decode_iff [of bs y] by simp

text \<open>A message inside another one: \<open>v\<close> is the field of the outer record it is stored in.\<close>

definition encodable :: "'a \<Rightarrow> bool" where
  "encodable x \<longleftrightarrow> valid x \<and> (\<exists>bs. encode x = Inr bs)"

lemma bind_decode:
  assumes "\<And>x. K x = Inr t \<longleftrightarrow> (x = v \<and> Q) \<and> A \<and> B"
  shows "bindE (decode bs) K = Inr t \<longleftrightarrow> (bs = projr (encode v) \<and> Q) \<and> (encodable v \<and> A) \<and> B"
  using assms by (auto simp: bindE_eq_Inr decode_iff encodable_def)

lemma mapE_decode: "mapE decode bss = Inr xs \<longleftrightarrow> bss = map (\<lambda>x. projr (encode x)) xs \<and> list_all encodable xs"
proof (induction bss arbitrary: xs)
  case (Cons bs bss)
  then show ?case by (cases xs) (auto simp: bindE_eq_Inr decode_iff encodable_def)
qed auto

lemma mapE_encode: "list_all encodable xs \<Longrightarrow> mapE encode xs = Inr (map (\<lambda>x. projr (encode x)) xs)"
  by (induction xs) (auto simp: encodable_def)

lemma mapE_valid:
  "list_all valid xs \<and> mapE encode xs = Inr bss \<longleftrightarrow> list_all encodable xs \<and> bss = map (\<lambda>x. projr (encode x)) xs"
proof
  assume "list_all valid xs \<and> mapE encode xs = Inr bss"
  then show "list_all encodable xs \<and> bss = map (\<lambda>x. projr (encode x)) xs"
    by (induction xs arbitrary: bss) (auto simp: encodable_def bindE_eq_Inr)
next
  assume a: "list_all encodable xs \<and> bss = map (\<lambda>x. projr (encode x)) xs"
  then have "list_all valid xs" by (auto simp: list_all_iff encodable_def)
  then show "list_all valid xs \<and> mapE encode xs = Inr bss" using a mapE_encode by blast
qed

end

subsection \<open>Every primitive satisfies it\<close>

lemma read_unsigned_iff:
  assumes "maximum = 256 ^ width - 1"
  shows "read_unsigned width r = Inr (v, r') \<longleftrightarrow>
     (\<exists>p. encode_unsigned v width maximum = Inr p \<and> advances p r r')"
proof
  assume "read_unsigned width r = Inr (v, r')"
  then obtain p where p: "advances p r r'" "length p = width" "v = from_bytes_be p"
    by (auto simp: read_unsigned_def res_simps take_bytes_iff split: prod.splits)
  then have "0 \<le> v" "v \<le> maximum" "to_bytes_be width v = p"
    using from_bytes_be_bounds [of p] to_from_bytes_be [of p] assms by auto
  with p(1) show "\<exists>p. encode_unsigned v width maximum = Inr p \<and> advances p r r'"
    by (auto simp: encode_unsigned_def)
next
  assume "\<exists>p. encode_unsigned v width maximum = Inr p \<and> advances p r r'"
  then obtain p where p: "p = to_bytes_be width v" "0 \<le> v" "v \<le> maximum" "advances p r r'"
    by (auto simp: encode_unsigned_def split: if_splits)
  then have "take_bytes (int width) r = Inr (p, r')" by (simp add: take_bytes_iff)
  moreover have "from_bytes_be p = v" using p assms by (simp add: from_to_bytes_be)
  ultimately show "read_unsigned width r = Inr (v, r')" by (simp add: read_unsigned_def)
qed

interpretation u8: field_codec encode_u8 read_u8 "\<lambda>_. True"
  by unfold_locales (simp add: encode_u8_def read_u8_def read_unsigned_iff width_maxima)

interpretation u16: field_codec encode_u16 read_u16 "\<lambda>_. True"
  by unfold_locales (simp add: encode_u16_def read_u16_def read_unsigned_iff width_maxima)

interpretation u32: field_codec encode_u32 read_u32 "\<lambda>_. True"
  by unfold_locales (simp add: encode_u32_def read_u32_def read_unsigned_iff width_maxima)

interpretation u64: field_codec encode_u64 read_u64 "\<lambda>_. True"
  by unfold_locales (simp add: encode_u64_def read_u64_def read_unsigned_iff width_maxima)

lemma exceeds_Some [simp]: "exceeds n (Some m) \<longleftrightarrow> n > m"
  by (simp add: exceeds_def)

lemma validate_optional_limit_iff:
  "validate_optional_limit m name = Inr u \<longleftrightarrow> (case m of None \<Rightarrow> True | Some k \<Rightarrow> 0 \<le> k)"
  by (auto simp: validate_optional_limit_def split: option.splits)

lemma limit_valid:
  "0 \<le> n \<Longrightarrow> \<not> exceeds n m \<Longrightarrow> (case m of None \<Rightarrow> True | Some k \<Rightarrow> 0 \<le> k)"
  by (auto simp: exceeds_def split: option.splits)

lemma read_bytes_iff:
  "read_bytes m r = Inr (v, r') \<longleftrightarrow>
     \<not> exceeds (int (length v)) m \<and> (\<exists>p. encode_bytes v = Inr p \<and> advances p r r')"
proof
  assume "read_bytes m r = Inr (v, r')"
  then obtain n r1 where n: "read_u32 r = Inr (n, r1)" "\<not> exceeds n m" "take_bytes n r1 = Inr (v, r')"
    by (auto simp: read_bytes_def res_simps split: prod.splits)
  then obtain p where p: "encode_u32 (int (length v)) = Inr p" "advances p r r1" "advances v r1 r'"
    by (auto simp: u32.dec_iff take_bytes_iff)
  moreover have "\<not> int (length v) > U32_MAX"
    using p(1) by (auto simp: encode_u32_def encode_unsigned_def split: if_splits)
  ultimately have "encode_bytes v = Inr (p @ v) \<and> advances (p @ v) r r'"
    by (auto simp: encode_bytes_def advances_append)
  with n show "\<not> exceeds (int (length v)) m \<and> (\<exists>p. encode_bytes v = Inr p \<and> advances p r r')"
    by (auto simp: take_bytes_iff)
next
  assume v: "\<not> exceeds (int (length v)) m \<and> (\<exists>p. encode_bytes v = Inr p \<and> advances p r r')"
  then obtain p r1 where "encode_u32 (int (length v)) = Inr p" "advances p r r1" "advances v r1 r'"
    by (auto simp: encode_bytes_def res_simps advances_append split: if_splits)
  then have "read_u32 r = Inr (int (length v), r1)" "take_bytes (int (length v)) r1 = Inr (v, r')"
    by (auto simp: u32.dec_iff take_bytes_iff)
  moreover have "validate_optional_limit m ''max_length'' = Inr ()"
    using limit_valid [of "int (length v)" m] v
    by (auto simp: validate_optional_limit_iff split: option.splits)
  ultimately show "read_bytes m r = Inr (v, r')" using v by (simp add: read_bytes_def)
qed

interpretation bytes_field: field_codec encode_bytes "read_bytes m" "\<lambda>v. \<not> exceeds (int (length v)) m"
  for m
  by unfold_locales (rule read_bytes_iff)

text \<open>A text the reader accepts: in NFC, encodable, and within the limit in bytes.\<close>

definition canonical_text :: "platform \<Rightarrow> int option \<Rightarrow> pystr \<Rightarrow> bool" where
  "canonical_text P m s \<longleftrightarrow> nfc P s = s \<and>
     (case utf8_encode s of Inl _ \<Rightarrow> False | Inr bs \<Rightarrow> \<not> exceeds (int (length bs)) m)"

lemma canonical_textE:
  assumes "canonical_text P m s"
  obtains bs where "nfc P s = s" "utf8_encode s = Inr bs" "\<not> exceeds (int (length bs)) m"
  using assms by (auto simp: canonical_text_def split: sum.splits)

lemma canonical_text_ascii:
  "nfc_ok P \<Longrightarrow> isascii s \<Longrightarrow> \<not> exceeds (int (length s)) m \<Longrightarrow> canonical_text P m s"
  by (simp add: canonical_text_def utf8_encode_ascii nfc_ascii)

lemma read_text_iff:
  "read_text P m r = Inr (s, r') \<longleftrightarrow>
     canonical_text P m s \<and> (\<exists>p. encode_text P s = Inr p \<and> advances p r r')"
proof
  assume "read_text P m r = Inr (s, r')"
  then obtain bs where bs: "read_bytes m r = Inr (bs, r')" "utf8_decode bs = Inr s" "nfc P s = s"
    by (auto simp: read_text_def res_simps split: prod.splits)
  then show "canonical_text P m s \<and> (\<exists>p. encode_text P s = Inr p \<and> advances p r r')"
    by (auto simp: utf8_decode_iff read_bytes_iff canonical_text_def encode_text_def)
next
  assume a: "canonical_text P m s \<and> (\<exists>p. encode_text P s = Inr p \<and> advances p r r')"
  then obtain bs where bs: "nfc P s = s" "utf8_encode s = Inr bs" "\<not> exceeds (int (length bs)) m"
    by (auto elim: canonical_textE)
  with a have "read_bytes m r = Inr (bs, r')" by (auto simp: encode_text_def read_bytes_iff)
  moreover have "utf8_decode bs = Inr s" using bs by (simp add: utf8_decode_iff)
  ultimately show "read_text P m r = Inr (s, r')" using bs by (simp add: read_text_def)
qed

interpretation text_field: field_codec "encode_text P" "read_text P m" "canonical_text P m" for P m
  by unfold_locales (rule read_text_iff)

lemma advances_within: "advances p r r' \<Longrightarrow> rd_offset r' \<le> length (rd_data r')"
  by (auto simp: advances_def)

lemma read_items_iff:
  "rd_offset r \<le> length (rd_data r) \<Longrightarrow> read_items k n r = Inr (vs, r') \<longleftrightarrow>
     length vs = n \<and> (\<forall>v \<in> set vs. \<not> exceeds (int (length v)) k) \<and>
     (\<exists>items. mapE encode_bytes vs = Inr items \<and> advances (concat items) r r')"
proof (induction n arbitrary: r vs)
  case 0
  then show ?case
    by (subst read_items.simps) (auto simp: advances_def)
next
  case (Suc n)
  show ?case
  proof (cases vs)
    case Nil
    then show ?thesis by (subst read_items.simps) (auto simp: res_simps split: prod.splits)
  next
    case (Cons x xs)
    have IH: "read_items k n r1 = Inr (xs, r') \<longleftrightarrow>
        length xs = n \<and> (\<forall>v \<in> set xs. \<not> exceeds (int (length v)) k) \<and>
        (\<exists>items. mapE encode_bytes xs = Inr items \<and> advances (concat items) r1 r')"
      if "read_bytes k r = Inr (x, r1)" for r1
      using Suc.IH [of r1 xs] that by (auto simp: read_bytes_iff dest: advances_within)
    have "read_items k (Suc n) r = Inr (vs, r') \<longleftrightarrow>
        (\<exists>r1. read_bytes k r = Inr (x, r1) \<and> read_items k n r1 = Inr (xs, r'))"
      by (subst read_items.simps) (auto simp: res_simps Cons split: prod.splits)
    also have "\<dots> \<longleftrightarrow> (\<exists>r1. read_bytes k r = Inr (x, r1) \<and>
        length xs = n \<and> (\<forall>v \<in> set xs. \<not> exceeds (int (length v)) k) \<and>
        (\<exists>items. mapE encode_bytes xs = Inr items \<and> advances (concat items) r1 r'))"
      using IH by blast
    also have "\<dots> \<longleftrightarrow> length vs = Suc n \<and> (\<forall>v \<in> set vs. \<not> exceeds (int (length v)) k)
        \<and> (\<exists>items. mapE encode_bytes vs = Inr items \<and> advances (concat items) r r')"
      by (fastforce simp: Cons res_simps advances_append read_bytes_iff)
    finally show ?thesis .
  qed
qed

definition sequence_ok :: "int option \<Rightarrow> int option \<Rightarrow> bytes list \<Rightarrow> bool" where
  "sequence_ok m k vs \<longleftrightarrow> \<not> exceeds (int (length vs)) m
     \<and> (case k of None \<Rightarrow> True | Some n \<Rightarrow> 0 \<le> n) \<and> (\<forall>v \<in> set vs. \<not> exceeds (int (length v)) k)"

lemma read_sequence_iff:
  "read_sequence m k r = Inr (vs, r') \<longleftrightarrow>
     sequence_ok m k vs \<and> (\<exists>p. encode_sequence vs = Inr p \<and> advances p r r')"
proof
  assume "read_sequence m k r = Inr (vs, r')"
  then obtain n r1 where n: "read_u32 r = Inr (n, r1)" "\<not> exceeds n m"
    "read_items k (nat n) r1 = Inr (vs, r')" "case k of None \<Rightarrow> True | Some n \<Rightarrow> 0 \<le> n"
    by (auto simp: read_sequence_def res_simps validate_optional_limit_iff split: prod.splits)
  then obtain p where p: "encode_u32 n = Inr p" "advances p r r1" by (auto simp: u32.dec_iff)
  then have r1: "rd_offset r1 \<le> length (rd_data r1)" and "0 \<le> n" "n \<le> U32_MAX"
    by (auto simp: advances_def encode_u32_def encode_unsigned_def split: if_splits)
  moreover obtain items where "length vs = nat n" "\<forall>v \<in> set vs. \<not> exceeds (int (length v)) k"
    "mapE encode_bytes vs = Inr items" "advances (concat items) r1 r'"
    using n(3) read_items_iff [OF r1] by auto
  moreover from this p(2) have "advances (p @ concat items) r r'" by (auto simp: advances_append)
  ultimately show "sequence_ok m k vs \<and> (\<exists>p. encode_sequence vs = Inr p \<and> advances p r r')"
    using n p by (auto simp: sequence_ok_def encode_sequence_def)
next
  assume a: "sequence_ok m k vs \<and> (\<exists>p. encode_sequence vs = Inr p \<and> advances p r r')"
  then obtain p items r1 where p: "encode_u32 (int (length vs)) = Inr p" "advances p r r1"
    "mapE encode_bytes vs = Inr items" "advances (concat items) r1 r'"
    by (auto simp: encode_sequence_def res_simps advances_append split: if_splits)
  then have "read_u32 r = Inr (int (length vs), r1)" by (auto simp: u32.dec_iff)
  moreover have "read_items k (length vs) r1 = Inr (vs, r')"
    using a p(3,4) read_items_iff [OF advances_within [OF p(2)]] by (simp add: sequence_ok_def)
  moreover have "validate_optional_limit m ''max_items'' = Inr ()"
    "validate_optional_limit k ''max_item_length'' = Inr ()"
    using a limit_valid [of "int (length vs)" m]
    by (auto simp: validate_optional_limit_iff sequence_ok_def split: option.splits)
  ultimately show "read_sequence m k r = Inr (vs, r')"
    using a by (simp add: read_sequence_def sequence_ok_def)
qed

interpretation sequence_field: field_codec encode_sequence "read_sequence m k" "sequence_ok m k" for m k
  by unfold_locales (rule read_sequence_iff)

lemma ensure_finished_parses: "ensure_finished r = Inr u \<longleftrightarrow> parses [] r"
  by (simp add: ensure_finished_def parses_Nil)

lemmas field_dec_iffs =
  u8.dec_iff u16.dec_iff u32.dec_iff u64.dec_iff bytes_field.dec_iff text_field.dec_iff
  sequence_field.dec_iff

lemmas bind_parses =
  u8.bind_parses_total [OF TrueI] u16.bind_parses_total [OF TrueI] u32.bind_parses_total [OF TrueI]
  u64.bind_parses_total [OF TrueI] bytes_field.bind_parses text_field.bind_parses
  sequence_field.bind_parses

text \<open>The domain tag every structure starts with.\<close>

lemma bind_domain:
  assumes "\<And>r'. K r' = Inr t \<longleftrightarrow> Q \<and> A \<and> parses fs r'"
  shows "bindE (read_bytes (Some (int (length D))) r) (\<lambda>(d, r'). if d \<noteq> D then Inl e else K r') = Inr t
     \<longleftrightarrow> Q \<and> A \<and> parses (encode_bytes D # fs) r"
  using assms by (auto simp: bindE_eq_Inr bytes_field.dec_reads parses_Cons split: prod.splits)

lemma bind_finished:
  "(m = Inr t \<longleftrightarrow> Q \<and> A) \<Longrightarrow> bindE (ensure_finished r) (\<lambda>_. m) = Inr t \<longleftrightarrow> Q \<and> A \<and> parses [] r"
  by (auto simp: bindE_eq_Inr ensure_finished_parses)

lemmas field_dec_reads =
  u8.dec_reads u16.dec_reads u32.dec_reads u64.dec_reads bytes_field.dec_reads text_field.dec_reads
  sequence_field.dec_reads

lemma encode_unsigned_range:
  "encode_u8 v = Inr p \<longleftrightarrow> 0 \<le> v \<and> v \<le> U8_MAX \<and> p = to_bytes_be 1 v"
  "encode_u16 v = Inr p \<longleftrightarrow> 0 \<le> v \<and> v \<le> U16_MAX \<and> p = to_bytes_be 2 v"
  "encode_u32 v = Inr p \<longleftrightarrow> 0 \<le> v \<and> v \<le> U32_MAX \<and> p = to_bytes_be 4 v"
  "encode_u64 v = Inr p \<longleftrightarrow> 0 \<le> v \<and> v \<le> U64_MAX \<and> p = to_bytes_be 8 v"
  by (auto simp: encode_u8_def encode_u16_def encode_u32_def encode_u64_def encode_unsigned_def)

lemma join_fields_append:
  "join_fields (fs @ gs) = bindE (join_fields fs) (\<lambda>p. bindE (join_fields gs) (\<lambda>q. Inr (p @ q)))"
  by (induction fs) (auto simp: bindE_def split: sum.splits)

subsection \<open>Exceptions\<close>

lemma value_errors_members [simp]:
  "EncodingError \<in> value_errors" "UnicodeEncodeError \<in> value_errors" "MerkleError \<in> value_errors"
  "BlockEncodingError \<in> value_errors" "TransactionError \<in> value_errors" "AddressError \<in> value_errors"
  "ChainError \<in> value_errors" "BlockError \<in> value_errors" "StateError \<in> value_errors"
  by (simp_all add: value_errors_def)

lemma encode_raises [raises_intros]:
  "raises_only value_errors (encode_u16 v)" "raises_only value_errors (encode_u32 v)"
  "raises_only value_errors (encode_u64 v)" "raises_only value_errors (encode_bytes bs)"
  by (auto simp: encode_u16_def encode_u32_def encode_u64_def encode_bytes_def encode_unsigned_def
      intro!: raises_intros)

lemma utf8_encode_raises [raises_intros]: "raises_only value_errors (utf8_encode s)"
  by (auto simp: utf8_encode_def utf8_encode_char_def intro!: raises_intros)

lemma encode_text_raises [raises_intros]: "raises_only value_errors (encode_text P s)"
  unfolding encode_text_def by (intro raises_intros)

lemma join_fields_raises:
  "list_all (raises_only A) fs \<Longrightarrow> raises_only A (join_fields fs)"
  by (induction fs) (auto intro!: raises_intros)

subsection \<open>Properties\<close>

text \<open>\<open>text_field_wire_format\<close>: \<open>read_text\<close> accepts exactly the encodings of the texts that are in
  NFC, encodable as strict UTF-8 and within the length limit; it consumes the field and nothing more.\<close>

theorem text_field_wire_format:
  "read_text P m r = Inr (s, r') \<longleftrightarrow>
     canonical_text P m s \<and> (\<exists>p. encode_text P s = Inr p \<and> advances p r r')"
  by (rule text_field.dec_iff)

text \<open>\<open>sequence_field_wire_format\<close>: \<open>read_sequence\<close> accepts exactly the encodings of the sequences
  within the item and length limits, and consumes the field and nothing more.\<close>

theorem sequence_field_wire_format:
  "read_sequence m k r = Inr (xs, r') \<longleftrightarrow>
     sequence_ok m k xs \<and> (\<exists>p. encode_sequence xs = Inr p \<and> advances p r r')"
  by (rule sequence_field.dec_iff)

end
