(* ===== verification/Crypto.thy ===== *)
theory Crypto
  imports Encoding
begin

text \<open>
  \<open>crypto.py\<close> and \<open>config.py\<close>: the wrapper around SHA-256 and Ed25519 with its length checks, and
  the network identifiers. The primitives themselves are the platform's. \<open>generate_private_key\<close>
  draws from the operating system and has no model: a seed is an argument wherever one is used.
\<close>

subsection \<open>Hashing and signatures\<close>

definition PRIVATE_KEY_LENGTH :: nat where "PRIVATE_KEY_LENGTH = 32"
definition PUBLIC_KEY_LENGTH :: nat where "PUBLIC_KEY_LENGTH = 32"
definition SIGNATURE_LENGTH :: nat where "SIGNATURE_LENGTH = 64"
definition PUBLIC_KEY_HASH_LENGTH :: nat where "PUBLIC_KEY_HASH_LENGTH = 20"

lemmas crypto_lengths [simp] =
  PRIVATE_KEY_LENGTH_def PUBLIC_KEY_LENGTH_def SIGNATURE_LENGTH_def PUBLIC_KEY_HASH_LENGTH_def

definition require_bytes :: "bytes \<Rightarrow> nat \<Rightarrow> string \<Rightarrow> unit res" where
  "require_bytes v expected_length name =
     (if length v \<noteq> expected_length then
        raise CryptoError (name @ '' must be exactly '' @ int_str (int expected_length) @ '' bytes'')
      else Inr ())"

definition sha256_digest :: "platform \<Rightarrow> bytes \<Rightarrow> bytes" where
  "sha256_digest P data = sha256 P data"

definition double_sha256 :: "platform \<Rightarrow> bytes \<Rightarrow> bytes" where
  "double_sha256 P data = sha256_digest P (sha256_digest P data)"

definition public_key_from_private :: "platform \<Rightarrow> bytes \<Rightarrow> bytes res" where
  "public_key_from_private P k =
     bindE (require_bytes k PRIVATE_KEY_LENGTH ''private key'') (\<lambda>_. Inr (ed25519_public_key P k))"

definition sign :: "platform \<Rightarrow> bytes \<Rightarrow> bytes \<Rightarrow> bytes res" where
  "sign P k message =
     bindE (require_bytes k PRIVATE_KEY_LENGTH ''private key'') (\<lambda>_. Inr (ed25519_sign P k message))"

definition verify_signature :: "platform \<Rightarrow> bytes \<Rightarrow> bytes \<Rightarrow> bytes \<Rightarrow> bool" where
  "verify_signature P public_key message signature =
     (if length public_key \<noteq> PUBLIC_KEY_LENGTH \<or> length signature \<noteq> SIGNATURE_LENGTH then False
      else ed25519_verify P public_key message signature)"

definition public_key_hash :: "platform \<Rightarrow> bytes \<Rightarrow> bytes res" where
  "public_key_hash P public_key =
     bindE (require_bytes public_key PUBLIC_KEY_LENGTH ''public key'') (\<lambda>_.
       Inr (take PUBLIC_KEY_HASH_LENGTH (sha256_digest P public_key)))"

lemma length_sha256_digest [simp]: "hash_ok P \<Longrightarrow> length (sha256_digest P x) = 32"
  by (simp add: sha256_digest_def)

lemma length_double_sha256 [simp]: "hash_ok P \<Longrightarrow> length (double_sha256 P x) = 32"
  by (simp add: double_sha256_def)

lemma require_bytes_iff [simp]: "require_bytes v n name = Inr u \<longleftrightarrow> length v = n"
  by (simp add: require_bytes_def)

lemma public_key_hash_iff:
  "public_key_hash P k = Inr h \<longleftrightarrow> length k = 32 \<and> h = take 20 (sha256_digest P k)"
  by (auto simp: public_key_hash_def require_bytes_def)

lemma sign_verifies:
  assumes "ed25519_ok P" and "length k = 32"
  shows "\<exists>pk s. public_key_from_private P k = Inr pk \<and> sign P k m = Inr s
     \<and> length pk = 32 \<and> length s = 64 \<and> verify_signature P pk m s"
  using assms ed25519_okD [OF assms(1)]
  by (simp add: public_key_from_private_def sign_def verify_signature_def require_bytes_def)

subsection \<open>Network identifiers\<close>

record network_config =
  net_name :: pystr
  net_chain_id :: pystr
  net_address_hrp :: pystr
  net_address_version :: int

definition is_ascii_alpha :: "nat \<Rightarrow> bool" where
  "is_ascii_alpha c \<longleftrightarrow> (65 \<le> c \<and> c \<le> 90) \<or> (97 \<le> c \<and> c \<le> 122)"

definition is_ascii_digit :: "nat \<Rightarrow> bool" where
  "is_ascii_digit c \<longleftrightarrow> 48 \<le> c \<and> c \<le> 57"

text \<open>The constructor with its \<open>__post_init__\<close>; \<open>isalnum\<close>, \<open>lower\<close> and \<open>isalpha\<close> are reached for
  ASCII text only.\<close>

definition new_network_config :: "pystr \<Rightarrow> pystr \<Rightarrow> pystr \<Rightarrow> int \<Rightarrow> network_config res" where
  "new_network_config name chain_id hrp version =
     (if name = [] then raise ValueError ''network name must not be empty''
      else if chain_id = [] \<or> \<not> isascii chain_id then
        raise ValueError ''chain_id must be non-empty ASCII''
      else if hrp = [] \<or> \<not> isascii hrp
        \<or> \<not> list_all (\<lambda>c. is_ascii_alpha c \<or> is_ascii_digit c) hrp
        \<or> hrp \<noteq> ascii_lower hrp \<or> \<not> is_ascii_alpha (hd hrp) then
        raise ValueError ''address_hrp must be lowercase ASCII letters and digits''
      else if \<not> (0 \<le> version \<and> version \<le> 0xFF) then
        raise ValueError ''address_version must be an unsigned byte''
      else Inr \<lparr>net_name = name, net_chain_id = chain_id, net_address_hrp = hrp,
                net_address_version = version\<rparr>)"

definition TESTNET :: network_config where
  "TESTNET = \<lparr>net_name = str ''testnet'', net_chain_id = str ''ourcoin-testnet-v1'',
     net_address_hrp = str ''tour'', net_address_version = 0x6F\<rparr>"

definition network_ok :: "network_config \<Rightarrow> bool" where
  "network_ok n \<longleftrightarrow> new_network_config (net_name n) (net_chain_id n) (net_address_hrp n)
     (net_address_version n) = Inr n"

lemma network_okD:
  assumes "network_ok n"
  shows "isascii (net_chain_id n)" and "isascii (net_address_hrp n)"
    and "ascii_lower (net_address_hrp n) = net_address_hrp n"
    and "0 \<le> net_address_version n" and "net_address_version n \<le> 255"
  using assms by (auto simp: network_ok_def new_network_config_def split: if_splits)

lemma network_ok_TESTNET [simp]: "network_ok TESTNET"
  by (simp add: network_ok_def TESTNET_def new_network_config_def str_def isascii_def
      ascii_lower_def is_ascii_alpha_def is_ascii_digit_def)

end
