(* ===== verification/Sample_Platform.thy ===== *)
theory Sample_Platform
  imports Crypto
begin

text \<open>
  A concrete platform, for evaluating the model and for showing that \<open>platform_ok\<close> can hold. Its
  hash is a polynomial checksum followed by the last byte of the input (so that blocks of different
  miners get different hashes), with leading zero bytes (so every block hash meets an easy target),
  a signature is the hash of the public key and the message, text is already normalised, and the
  ciphertext is the plaintext. No theorem about the program depends on these choices.
\<close>

definition sample_hash :: "bytes \<Rightarrow> bytes" where
  "sample_hash bs = replicate 24 0 @ to_bytes_be 7 (fold (\<lambda>b a. a * 257 + uint b + 1) bs 7)
     @ [if bs = [] then 0 else last bs]"

definition sample_platform :: platform where
  "sample_platform = \<lparr>
     sha256 = sample_hash,
     nfc = (\<lambda>s. s),
     ed25519_public_key = sample_hash,
     ed25519_sign = (\<lambda>k m. sample_hash (sample_hash k @ m) @ replicate 32 0),
     ed25519_verify = (\<lambda>pk m s. s = sample_hash (pk @ m) @ replicate 32 0),
     scrypt_kdf = (\<lambda>password n r p len salt. take (nat len) (sample_hash (password @ salt))),
     aesgcm_encrypt = (\<lambda>key nonce m a. m),
     aesgcm_decrypt = (\<lambda>key nonce c a. Some c)\<rparr>"

lemma length_sample_hash [simp]: "length (sample_hash bs) = 32"
  by (simp add: sample_hash_def)

lemma sample_platform_ok [simp]: "platform_ok sample_platform"
  by (simp add: platform_ok_def hash_ok_def nfc_ok_def ed25519_ok_def aesgcm_ok_def
      sample_platform_def)

end
