(* ===== verification/Base32.thy ===== *)
theory Base32
  imports Encoding
begin

text \<open>
  \<open>base64.b32encode\<close> and \<open>base64.b32decode\<close> of Python's standard library, with their padding rules,
  and the fact the address format rests on: on inputs of whole quanta (a multiple of five bytes,
  eight characters each) decoding accepts exactly the encoder's output.
\<close>

subsection \<open>Digits\<close>

fun to_digits32 :: "nat \<Rightarrow> int \<Rightarrow> nat list" where
  "to_digits32 0 v = []"
| "to_digits32 (Suc n) v = to_digits32 n (v div 32) @ [nat (v mod 32)]"

definition from_digits32 :: "nat list \<Rightarrow> int" where
  "from_digits32 ds = foldl (\<lambda>a d. a * 32 + int d) 0 ds"

lemma length_to_digits32 [simp]: "length (to_digits32 n v) = n"
  by (induction n arbitrary: v) auto

lemma to_digits32_small: "\<forall>d \<in> set (to_digits32 n v). d < 32"
  by (induction n arbitrary: v) (auto simp: nat_less_iff)

lemma from_digits32_Nil [simp]: "from_digits32 [] = 0"
  by (simp add: from_digits32_def)

lemma from_digits32_snoc [simp]: "from_digits32 (ds @ [d]) = from_digits32 ds * 32 + int d"
  by (simp add: from_digits32_def)

lemma from_digits32_bounds:
  "\<forall>d \<in> set ds. d < 32 \<Longrightarrow> 0 \<le> from_digits32 ds \<and> from_digits32 ds < 32 ^ length ds"
proof (induction ds rule: rev_induct)
  case (snoc d ds)
  then have "from_digits32 ds * 32 + int d < 32 ^ length ds * 32" by auto
  with snoc show ?case by (auto simp: ac_simps)
qed simp

lemma from_to_digits32: "from_digits32 (to_digits32 n v) = v mod 32 ^ n"
proof (induction n arbitrary: v)
  case (Suc n)
  have "v mod (32 * 32 ^ n) = 32 * (v div 32 mod 32 ^ n) + v mod 32"
    by (rule zmod_zmult2_eq) simp
  with Suc show ?case by simp
qed simp

lemma to_from_digits32: "\<forall>d \<in> set ds. d < 32 \<Longrightarrow> to_digits32 (length ds) (from_digits32 ds) = ds"
proof (induction ds rule: rev_induct)
  case (snoc d ds)
  moreover have "(from_digits32 ds * 32 + int d) div 32 = from_digits32 ds"
    and "nat ((from_digits32 ds * 32 + int d) mod 32) = d"
    using snoc.prems by auto
  ultimately show ?case by simp
qed simp

subsection \<open>The alphabet\<close>

definition b32_char :: "nat \<Rightarrow> nat" where
  "b32_char d = (if d < 26 then 65 + d else 24 + d)"

definition b32_value :: "nat \<Rightarrow> nat option" where
  "b32_value c = (if 65 \<le> c \<and> c \<le> 90 then Some (c - 65)
     else if 50 \<le> c \<and> c \<le> 55 then Some (c - 24) else None)"

lemma b32_value_char [simp]: "d < 32 \<Longrightarrow> b32_value (b32_char d) = Some d"
  by (auto simp: b32_value_def b32_char_def)

lemma b32_value_Some: "b32_value c = Some d \<Longrightarrow> d < 32 \<and> c = b32_char d"
  by (auto simp: b32_value_def b32_char_def split: if_splits)

subsection \<open>Encoding\<close>

fun b32_groups :: "bytes \<Rightarrow> pystr" where
  "b32_groups bs =
     (if bs = [] then []
      else map b32_char (to_digits32 8 (from_bytes_be (take 5 bs))) @ b32_groups (drop 5 bs))"

declare b32_groups.simps [simp del]

definition b32encode :: "bytes \<Rightarrow> pystr" where
  "b32encode s =
     (let leftover = length s mod 5;
          padded = (if leftover \<noteq> 0 then s @ replicate (5 - leftover) 0 else s);
          encoded = b32_groups padded;
          pad = (if leftover = 1 then 6 else if leftover = 2 then 4 else if leftover = 3 then 3
                 else if leftover = 4 then 1 else 0)
      in take (length encoded - pad) encoded @ replicate pad 61)"

subsection \<open>Decoding\<close>

definition b32_quantum :: "pystr \<Rightarrow> int res" where
  "b32_quantum quanta =
     bindE (mapE (\<lambda>c. case b32_value c of None \<Rightarrow> raise Base64Error ''Non-base32 digit found''
                     | Some d \<Rightarrow> Inr d) quanta) (\<lambda>ds. Inr (from_digits32 ds))"

text \<open>The loop over the quanta: the bytes decoded so far and the accumulator of the last quantum.\<close>

fun b32_quanta :: "pystr \<Rightarrow> bytes \<Rightarrow> int \<Rightarrow> (bytes \<times> int) res" where
  "b32_quanta s decoded acc =
     (if s = [] then Inr (decoded, acc)
      else bindE (b32_quantum (take 8 s)) (\<lambda>acc.
           b32_quanta (drop 8 s) (decoded @ to_bytes_be 5 acc) acc))"

declare b32_quanta.simps [simp del]

definition rstrip_pad :: "pystr \<Rightarrow> pystr" where
  "rstrip_pad s = rev (dropWhile (\<lambda>c. c = 61) (rev s))"

definition b32decode :: "pystr \<Rightarrow> bytes res" where
  "b32decode s =
     (if length s mod 8 \<noteq> 0 then raise Base64Error ''Incorrect padding''
      else let stripped = rstrip_pad s; padchars = length s - length stripped in
        bindE (b32_quanta stripped [] 0) (\<lambda>(decoded, acc).
          if padchars \<notin> {0, 1, 3, 4, 6} then raise Base64Error ''Incorrect padding''
          else if padchars \<noteq> 0 \<and> decoded \<noteq> [] then
            (let last = to_bytes_be 5 (acc * 32 ^ padchars); leftover = (43 - 5 * padchars) div 8
             in Inr (take (length decoded - 5) decoded @ take leftover last))
          else Inr decoded))"

subsection \<open>Round trip on whole quanta\<close>

lemma b32_quantum_iff:
  "b32_quantum q = Inr v \<longleftrightarrow>
     (\<exists>ds. q = map b32_char ds \<and> (\<forall>d \<in> set ds. d < 32) \<and> v = from_digits32 ds)"
proof -
  have "list_all2 (\<lambda>c d. (case b32_value c of None \<Rightarrow> raise Base64Error ''Non-base32 digit found''
        | Some d \<Rightarrow> Inr d) = Inr d) q ds \<longleftrightarrow> q = map b32_char ds \<and> (\<forall>d \<in> set ds. d < 32)" for ds
  proof (induction q arbitrary: ds)
    case (Cons c q)
    then show ?case
      by (cases ds) (auto split: option.splits dest: b32_value_Some)
  qed auto
  then show ?thesis by (auto simp: b32_quantum_def res_simps mapE_eq_Inr)
qed

lemma b32_quantum_groups:
  assumes "length q = 8"
  shows "b32_quantum q = Inr v \<longleftrightarrow>
     q = map b32_char (to_digits32 8 v) \<and> 0 \<le> v \<and> v < 256 ^ 5"
proof
  assume "b32_quantum q = Inr v"
  then obtain ds where ds: "q = map b32_char ds" "\<forall>d \<in> set ds. d < 32" "v = from_digits32 ds"
    by (auto simp: b32_quantum_iff)
  then have "length ds = 8" using assms by simp
  with ds to_from_digits32 [OF ds(2)] from_digits32_bounds [OF ds(2)]
  show "q = map b32_char (to_digits32 8 v) \<and> 0 \<le> v \<and> v < 256 ^ 5" by simp
next
  assume "q = map b32_char (to_digits32 8 v) \<and> 0 \<le> v \<and> v < 256 ^ 5"
  then show "b32_quantum q = Inr v"
    using to_digits32_small [of 8 v] from_to_digits32 [of 8 v] by (auto simp: b32_quantum_iff)
qed

lemma whole_quantum:
  assumes "length s mod n = 0" and "s \<noteq> []" and "0 < n"
  shows "length (take n s) = n" and "length (drop n s) mod n = 0"
proof -
  have "n \<le> length s" using assms by (auto intro: dvd_imp_le)
  with assms show "length (take n s) = n" and "length (drop n s) mod n = 0"
    by (simp_all add: dvd_diff_nat mod_eq_0_iff_dvd)
qed

lemma b32_groups_Nil [simp]: "b32_groups [] = []"
  by (simp add: b32_groups.simps)

lemma b32_groups_eq_Nil [simp]: "b32_groups bs = [] \<longleftrightarrow> bs = []"
  by (subst b32_groups.simps) (auto dest: arg_cong [of _ _ length] simp del: to_digits32.simps)

lemma b32_quanta_iff:
  "length s mod 8 = 0 \<Longrightarrow> (\<exists>a. b32_quanta s decoded acc = Inr (bs, a)) \<longleftrightarrow>
     (\<exists>cs. bs = decoded @ cs \<and> length cs mod 5 = 0 \<and> s = b32_groups cs)"
proof (induction s decoded acc rule: b32_quanta.induct)
  case (1 s decoded acc)
  show ?case
  proof (cases "s = []")
    case True
    then show ?thesis
      by (subst b32_quanta.simps) (auto simp: eq_commute [of "[]"])
  next
    case False
    have len: "length (take 8 s) = 8" "length (drop 8 s) mod 8 = 0"
      using whole_quantum [OF "1.prems" False] by simp_all
    have "(\<exists>a. b32_quanta s decoded acc = Inr (bs, a)) \<longleftrightarrow>
        (\<exists>v cs. b32_quantum (take 8 s) = Inr v \<and> bs = (decoded @ to_bytes_be 5 v) @ cs
          \<and> length cs mod 5 = 0 \<and> drop 8 s = b32_groups cs)"
    proof -
      have "(\<exists>a. b32_quanta s decoded acc = Inr (bs, a)) \<longleftrightarrow>
          (\<exists>v. b32_quantum (take 8 s) = Inr v \<and>
            (\<exists>a. b32_quanta (drop 8 s) (decoded @ to_bytes_be 5 v) v = Inr (bs, a)))"
        by (simp only: b32_quanta.simps [of s decoded acc] False if_False bindE_eq_Inr) iprover
      also have "\<dots> \<longleftrightarrow> (\<exists>v. b32_quantum (take 8 s) = Inr v \<and>
          (\<exists>cs. bs = (decoded @ to_bytes_be 5 v) @ cs \<and> length cs mod 5 = 0 \<and> drop 8 s = b32_groups cs))"
        by (rule arg_cong [of _ _ Ex], rule ext, rule conj_cong [OF refl])
          (rule "1.IH" [OF False _ len(2)])
      finally show ?thesis by iprover
    qed
    also have "\<dots> \<longleftrightarrow> (\<exists>cs. bs = decoded @ cs \<and> length cs mod 5 = 0 \<and> s = b32_groups cs)"
    proof
      assume "\<exists>v cs. b32_quantum (take 8 s) = Inr v \<and> bs = (decoded @ to_bytes_be 5 v) @ cs
          \<and> length cs mod 5 = 0 \<and> drop 8 s = b32_groups cs"
      then obtain v cs where v: "b32_quantum (take 8 s) = Inr v" "bs = (decoded @ to_bytes_be 5 v) @ cs"
        "length cs mod 5 = 0" "drop 8 s = b32_groups cs" by (elim exE conjE)
      from v(1) have tk: "take 8 s = map b32_char (to_digits32 8 v)" and vb: "0 \<le> v" "v < 256 ^ 5"
        by (simp_all only: b32_quantum_groups [OF len(1)])
      have "b32_groups (to_bytes_be 5 v @ cs)
          = map b32_char (to_digits32 8 (from_bytes_be (take 5 (to_bytes_be 5 v @ cs))))
            @ b32_groups (drop 5 (to_bytes_be 5 v @ cs))"
      proof -
        have "to_bytes_be 5 v @ cs \<noteq> []"
          using length_to_bytes_be [of 5 v] by (metis append_is_Nil_conv list.size(3) zero_neq_numeral)
        then show ?thesis by (simp only: b32_groups.simps [of "to_bytes_be 5 v @ cs"] if_False)
      qed
      also have "\<dots> = take 8 s @ drop 8 s"
        unfolding tk v(4) by (simp only: take_append drop_append length_to_bytes_be
          from_to_bytes_be_id [OF vb] take_all drop_all order.refl diff_self_eq_0 take_0 drop_0
          append_Nil append_Nil2)
      finally have "s = b32_groups (to_bytes_be 5 v @ cs)" by (simp only: append_take_drop_id)
      moreover have "length (to_bytes_be 5 v @ cs) mod 5 = 0"
        using v(3) by (simp only: length_append length_to_bytes_be mod_add_self1)
      ultimately show "\<exists>cs. bs = decoded @ cs \<and> length cs mod 5 = 0 \<and> s = b32_groups cs"
        using v(2) by (metis append_assoc)
    next
      assume "\<exists>cs. bs = decoded @ cs \<and> length cs mod 5 = 0 \<and> s = b32_groups cs"
      then obtain cs where cs: "bs = decoded @ cs" "length cs mod 5 = 0" "s = b32_groups cs" by (elim exE conjE)
      with False have ne: "cs \<noteq> []" by (auto simp: b32_groups.simps)
      then have l5: "length (take 5 cs) = 5" "length (drop 5 cs) mod 5 = 0"
        using whole_quantum [OF cs(2) ne] by simp_all
      let ?v = "from_bytes_be (take 5 cs)"
      have "s = map b32_char (to_digits32 8 ?v) @ b32_groups (drop 5 cs)"
        using cs(3) ne by (subst (asm) b32_groups.simps) simp
      then have "take 8 s = map b32_char (to_digits32 8 ?v)" "drop 8 s = b32_groups (drop 5 cs)"
        by simp_all
      moreover have "to_bytes_be 5 ?v = take 5 cs" using to_from_bytes_be [of "take 5 cs"] l5 by simp
      moreover have "0 \<le> ?v" "?v < 256 ^ 5" using from_bytes_be_bounds [of "take 5 cs"] l5 by simp_all
      ultimately show "\<exists>v cs. b32_quantum (take 8 s) = Inr v \<and> bs = (decoded @ to_bytes_be 5 v) @ cs
          \<and> length cs mod 5 = 0 \<and> drop 8 s = b32_groups cs"
        using cs(1) l5 b32_quantum_groups [OF len(1)]
        by (intro exI [of _ ?v] exI [of _ "drop 5 cs"]) simp
    qed
    finally show ?thesis .
  qed
qed

lemma length_b32_groups: "length (b32_groups bs) = 8 * ((length bs + 4) div 5)"
proof (induction bs rule: b32_groups.induct)
  case (1 bs)
  show ?case
  proof (cases "bs = []")
    case False
    then have "(length bs + 4) div 5 = Suc ((length (drop 5 bs) + 4) div 5)"
      by (cases "length bs \<ge> 5") (auto simp: div_add_self1 le_div_geq Suc_le_eq length_greater_0_conv [symmetric] simp del: length_greater_0_conv)
    with 1 False show ?thesis by (subst b32_groups.simps) (simp del: to_digits32.simps)
  qed simp
qed

lemma length_b32_quanta:
  "b32_quanta s decoded acc = Inr (bs, a) \<Longrightarrow> length bs = length decoded + 5 * ((length s + 7) div 8)"
proof (induction s decoded acc rule: b32_quanta.induct)
  case (1 s decoded acc)
  show ?case
  proof (cases "s = []")
    case True
    with "1.prems" show ?thesis by (simp add: b32_quanta.simps)
  next
    case False
    then have "(length s + 7) div 8 = Suc ((length (drop 8 s) + 7) div 8)"
      by (cases "length s \<ge> 8") (auto simp: le_div_geq Suc_le_eq length_greater_0_conv [symmetric] simp del: length_greater_0_conv)
    with 1 False show ?thesis
      by (subst (asm) b32_quanta.simps) (auto simp: res_simps simp del: to_bytes_be.simps)
  qed
qed

lemma rstrip_pad_id: "61 \<notin> set s \<Longrightarrow> rstrip_pad s = s"
  by (cases s rule: rev_cases) (auto simp: rstrip_pad_def)

lemma rstrip_pad_append: "\<exists>k. s = rstrip_pad s @ replicate k 61"
proof -
  have "\<exists>k. takeWhile (\<lambda>c. c = 61) (rev s) = replicate k 61"
    using takeWhile_eq_all_conv set_takeWhileD
    by (metis (mono_tags, lifting) replicate_length_same)
  then show ?thesis
    unfolding rstrip_pad_def
    by (metis rev_append rev_replicate rev_rev_ident takeWhile_dropWhile_id)
qed

lemma b32encode_whole: "length bs mod 5 = 0 \<Longrightarrow> b32encode bs = b32_groups bs"
  by (simp add: b32encode_def Let_def)

lemma b32encode_chars:
  assumes "length bs mod 5 = 0"
  shows "set (b32encode bs) \<subseteq> b32_char ` {..<32}"
proof -
  have "set (b32_groups bs) \<subseteq> b32_char ` {..<32}"
  proof (induction bs rule: b32_groups.induct)
    case (1 bs)
    then show ?case
      using to_digits32_small [of 8 "from_bytes_be (take 5 bs)"]
      by (subst b32_groups.simps) (auto simp del: to_digits32.simps)
  qed
  with assms show ?thesis by (simp add: b32encode_whole)
qed

lemma b32decode_iff:
  assumes "5 * length s = 8 * length bs"
  shows "b32decode s = Inr bs \<longleftrightarrow> s = b32encode bs"
proof -
  have l8: "length s mod 8 = 0" and l5: "length bs mod 5 = 0" using assms by presburger+
  show ?thesis
  proof
    assume s: "s = b32encode bs"
    then have g: "s = b32_groups bs" using l5 by (simp add: b32encode_whole)
    have "61 \<notin> set s"
      using b32encode_chars [OF l5] s by (auto simp: b32_char_def)
    then have "rstrip_pad s = s" by (rule rstrip_pad_id)
    moreover obtain a where "b32_quanta s [] 0 = Inr (bs, a)"
      using b32_quanta_iff [OF l8, of "[]" 0 bs] g l5 by auto
    ultimately show "b32decode s = Inr bs" using l8 by (simp add: b32decode_def Let_def)
  next
    assume d: "b32decode s = Inr bs"
    let ?t = "rstrip_pad s"
    obtain k where k: "s = ?t @ replicate k 61" using rstrip_pad_append by blast
    then have lk: "length s = length ?t + k" by (metis length_append length_replicate)
    obtain dec a where q: "b32_quanta ?t [] 0 = Inr (dec, a)"
      using d by (auto simp: b32decode_def Let_def res_simps split: if_splits prod.splits)
    have lq: "length dec = 5 * ((length ?t + 7) div 8)"
      using length_b32_quanta [OF q] by simp
    have "k = 0"
    proof (rule ccontr)
      assume "k \<noteq> 0"
      with d q lk l8 have k4: "k \<in> {1, 3, 4, 6}"
        and bs: "dec \<noteq> [] \<Longrightarrow> length bs = length dec - 5 + (43 - 5 * k) div 8"
        by (auto simp: b32decode_def Let_def split: if_splits simp del: to_bytes_be.simps)
      then have "(length ?t + 7) div 8 = length s div 8" and "?t \<noteq> []"
        using lk l8 by auto
      then have "length dec = length bs" and "dec \<noteq> []"
        using lq assms l8 \<open>?t \<noteq> []\<close> by (auto simp flip: length_greater_0_conv)
      moreover have "5 \<le> length dec"
        using \<open>dec \<noteq> []\<close> lq by (cases "(length ?t + 7) div 8") auto
      ultimately show False using bs k4 by auto
    qed
    with k have "?t = s" by simp
    with d q l8 have "dec = bs" by (auto simp: b32decode_def Let_def)
    with q \<open>?t = s\<close> b32_quanta_iff [OF l8, of "[]" 0 bs] have "s = b32_groups bs" by auto
    with l5 show "s = b32encode bs" by (simp add: b32encode_whole)
  qed
qed

lemma length_b32encode: "length bs mod 5 = 0 \<Longrightarrow> 5 * length (b32encode bs) = 8 * length bs"
  by (auto simp: b32encode_whole length_b32_groups)

end
