(* ===== verification/Address.thy ===== *)
theory Address
  imports Sample_Platform Base32
begin

text \<open>
  \<open>address.py\<close>: checksummed addresses bound to one network. \<open>address_of_hash\<close> is the text the
  encoder builds once the public-key hash is known. The file's contract is that the decoder accepts
  exactly these texts: an interpretation of \<open>message_codec\<close>, from which addresses and public-key
  hashes of a network correspond one to one.
\<close>

definition ADDRESS_CHECKSUM_LENGTH :: nat where "ADDRESS_CHECKSUM_LENGTH = 4"
definition ADDRESS_SEPARATOR :: pystr where "ADDRESS_SEPARATOR = str ''1''"
definition ADDRESS_DATA_LENGTH :: nat where
  "ADDRESS_DATA_LENGTH = 1 + PUBLIC_KEY_HASH_LENGTH + ADDRESS_CHECKSUM_LENGTH"
definition ADDRESS_TOKEN_LENGTH :: nat where "ADDRESS_TOKEN_LENGTH = 40"

lemmas address_lengths [simp] =
  ADDRESS_CHECKSUM_LENGTH_def ADDRESS_DATA_LENGTH_def ADDRESS_TOKEN_LENGTH_def

definition address_checksum :: "platform \<Rightarrow> bytes \<Rightarrow> bytes" where
  "address_checksum P payload = take ADDRESS_CHECKSUM_LENGTH (double_sha256 P payload)"

definition address_of_hash :: "platform \<Rightarrow> network_config \<Rightarrow> bytes \<Rightarrow> pystr" where
  "address_of_hash P network h =
     (let payload = word_of_int (net_address_version network) # h;
          token = ascii_lower (b32encode (payload @ address_checksum P payload))
      in net_address_hrp network @ ADDRESS_SEPARATOR @ token)"

definition address_from_public_key :: "platform \<Rightarrow> bytes \<Rightarrow> network_config \<Rightarrow> pystr res" where
  "address_from_public_key P public_key network =
     (if \<not> (0 \<le> net_address_version network \<and> net_address_version network \<le> 255) then
        raise ValueError ''bytes must be in range(0, 256)''
      else bindE (public_key_hash P public_key) (\<lambda>h. Inr (address_of_hash P network h)))"

definition startswith :: "pystr \<Rightarrow> pystr \<Rightarrow> bool" where
  "startswith s prefix \<longleftrightarrow> take (length prefix) s = prefix"

definition decode_address :: "platform \<Rightarrow> pystr \<Rightarrow> network_config \<Rightarrow> bytes res" where
  "decode_address P address network =
     (if \<not> isascii address \<or> address \<noteq> ascii_lower address then
        raise AddressError ''address must be lowercase ASCII text''
      else
       let prefix = net_address_hrp network @ ADDRESS_SEPARATOR in
       if \<not> startswith address prefix then
         raise AddressError ''address belongs to another network or has an invalid prefix''
       else
        let token = drop (length prefix) address in
        if length token \<noteq> ADDRESS_TOKEN_LENGTH then
          raise AddressError ''address payload has an invalid length''
        else
         bindE (rethrow (\<lambda>c. c = Base64Error)
                  (\<lambda>_. Exn AddressError ''address payload is not valid Base32'')
                  (b32decode (ascii_upper token))) (\<lambda>decoded.
         if length decoded \<noteq> ADDRESS_DATA_LENGTH then
           raise AddressError ''address payload has an invalid decoded length''
         else
          let payload = take (length decoded - ADDRESS_CHECKSUM_LENGTH) decoded;
              checksum = drop (length decoded - ADDRESS_CHECKSUM_LENGTH) decoded in
          if uint (hd payload) \<noteq> net_address_version network then
            raise AddressError ''address version does not match the selected network''
          else if checksum \<noteq> address_checksum P payload then
            raise AddressError ''address checksum does not match''
          else Inr (tl payload)))"

definition is_valid_address :: "platform \<Rightarrow> pystr \<Rightarrow> network_config \<Rightarrow> bool" where
  "is_valid_address P address network = (case decode_address P address network of
     Inl e \<Rightarrow> False | Inr _ \<Rightarrow> True)"

subsection \<open>Addresses are the encodings of public-key hashes\<close>

lemma ascii_upper_lower_token:
  assumes "length bs mod 5 = 0"
  shows "ascii_upper (ascii_lower (b32encode bs)) = b32encode bs"
proof -
  have "\<forall>c \<in> set (b32encode bs). \<exists>d < 32. c = b32_char d"
    using b32encode_chars [OF assms] by auto
  then show ?thesis
    unfolding ascii_upper_def ascii_lower_def
    by (induction "b32encode bs" rule: list.induct) (force simp: b32_char_def intro: map_idI)+
qed

lemma ascii_lower_idem [simp]: "ascii_lower (ascii_lower s) = ascii_lower s"
  by (simp add: ascii_lower_def)

lemma ascii_lower_append: "ascii_lower (s @ t) = ascii_lower s @ ascii_lower t"
  by (simp add: ascii_lower_def)

lemma isascii_append [simp]: "isascii (s @ t) \<longleftrightarrow> isascii s \<and> isascii t"
  by (simp add: isascii_def)

lemma isascii_token:
  assumes "length bs mod 5 = 0"
  shows "isascii (ascii_lower (b32encode bs))"
  using b32encode_chars [OF assms]
  by (fastforce simp: isascii_def ascii_lower_def b32_char_def list_all_iff split: if_splits)

lemma ascii_lower_upper: "isascii s \<Longrightarrow> ascii_lower s = s \<Longrightarrow> ascii_lower (ascii_upper s) = s"
  by (induction s) (auto simp: isascii_def ascii_lower_def ascii_upper_def split: if_splits)

lemma separator_ascii [simp]: "isascii ADDRESS_SEPARATOR" "ascii_lower ADDRESS_SEPARATOR = ADDRESS_SEPARATOR"
  by (simp_all add: ADDRESS_SEPARATOR_def str_def isascii_def ascii_lower_def)

definition address_hash_ok :: "platform \<Rightarrow> network_config \<Rightarrow> bytes \<Rightarrow> bool" where
  "address_hash_ok P network h \<longleftrightarrow> length h = 20
     \<and> isascii (net_address_hrp network) \<and> ascii_lower (net_address_hrp network) = net_address_hrp network
     \<and> 0 \<le> net_address_version network \<and> net_address_version network \<le> 255
     \<and> length (address_checksum P (word_of_int (net_address_version network) # h)) = 4"

lemma address_hash_okI:
  "hash_ok P \<Longrightarrow> network_ok network \<Longrightarrow> length h = 20 \<Longrightarrow> address_hash_ok P network h"
  by (auto simp: address_hash_ok_def address_checksum_def dest: network_okD)

lemma uint_of_byte_int: "0 \<le> v \<Longrightarrow> v \<le> 255 \<Longrightarrow> uint (word_of_int v :: byte) = v"
  by (simp add: uint_word_of_int)

lemma decode_address_of_hash:
  assumes "address_hash_ok P network h"
  shows "decode_address P (address_of_hash P network h) network = Inr h"
proof -
  let ?v = "word_of_int (net_address_version network) :: byte"
  let ?data = "(?v # h) @ address_checksum P (?v # h)"
  let ?token = "ascii_lower (b32encode ?data)"
  have len: "length ?data = 25" using assms by (simp add: address_hash_ok_def)
  then have "length ?token = 40"
    using length_b32encode [of ?data] by (simp add: ascii_lower_def)
  moreover have "b32decode (ascii_upper ?token) = Inr ?data"
    using len length_b32encode [of ?data] by (simp add: ascii_upper_lower_token b32decode_iff)
  moreover have "isascii ?token" using len by (intro isascii_token) simp
  moreover have "uint ?v = net_address_version network"
    using assms by (simp add: address_hash_ok_def uint_of_byte_int)
  moreover have "take (length ?data - 4) ?data = ?v # h" "drop (length ?data - 4) ?data = address_checksum P (?v # h)"
    using assms by (simp_all add: address_hash_ok_def)
  ultimately show ?thesis
    using assms len
    by (simp add: decode_address_def address_of_hash_def address_hash_ok_def startswith_def
        ascii_lower_append Let_def del: append_Cons)
qed

lemma decode_address_unique:
  assumes "decode_address P a network = Inr h"
  shows "address_hash_ok P network h \<and> a = address_of_hash P network h"
proof -
  let ?prefix = "net_address_hrp network @ ADDRESS_SEPARATOR"
  let ?token = "drop (length ?prefix) a"
  obtain d where ascii: "isascii a" "ascii_lower a = a" and pre: "take (length ?prefix) a = ?prefix"
    and tok: "length ?token = 40" and d: "b32decode (ascii_upper ?token) = Inr d" "length d = 25"
    and v: "uint (hd (take 21 d)) = net_address_version network"
    and c: "drop 21 d = address_checksum P (take 21 d)" and h: "h = tl (take 21 d)"
    using assms by (auto simp: decode_address_def Let_def startswith_def res_simps split: if_splits)
  have split: "a = ?prefix @ ?token" using pre by (metis append_take_drop_id)
  then have tok_ascii: "isascii ?token" "ascii_lower ?token = ?token"
    and hrp: "isascii (net_address_hrp network)" "ascii_lower (net_address_hrp network) = net_address_hrp network"
  proof -
    have i: "isascii (?prefix @ ?token)" and l: "ascii_lower (?prefix @ ?token) = ?prefix @ ?token"
      using ascii split by metis+
    then show "isascii ?token" "isascii (net_address_hrp network)"
      by (simp_all del: append_take_drop_id append_assoc)
    have "length (ascii_lower s) = length s" for s by (simp add: ascii_lower_def)
    with l show "ascii_lower ?token = ?token" "ascii_lower (net_address_hrp network) = net_address_hrp network"
      by (simp_all add: ascii_lower_append append_eq_append_conv del: append_take_drop_id)
  qed
  have "ascii_upper ?token = b32encode d"
    using d tok by (subst b32decode_iff [symmetric]) (simp_all add: ascii_upper_def)
  then have token: "?token = ascii_lower (b32encode d)"
    using ascii_lower_upper [OF tok_ascii] by simp
  have bv: "0 \<le> net_address_version network" "net_address_version network \<le> 255"
    using v uint_byte_bounds [of "hd (take 21 d)"] by linarith+
  have "take 21 d \<noteq> []" using d(2) by auto
  then have payload: "take 21 d = word_of_int (net_address_version network) # h"
    unfolding h v [symmetric] by (metis list.collapse word_of_int_uint)
  then have data: "d = (word_of_int (net_address_version network) # h) @ address_checksum P (word_of_int (net_address_version network) # h)"
    using c by (metis append_take_drop_id)
  have "length h = 20" using h d(2) by simp
  moreover have "length (address_checksum P (word_of_int (net_address_version network) # h)) = 4"
    using c d(2) payload by (metis (no_types) add_diff_cancel_left' length_drop numeral_plus_numeral add_num_simps)
  ultimately have "address_hash_ok P network h" using hrp bv by (simp add: address_hash_ok_def)
  moreover have "a = address_of_hash P network h"
    using split token data by (simp add: address_of_hash_def Let_def)
  ultimately show ?thesis by simp
qed

interpretation address: message_codec "\<lambda>h. Inr (address_of_hash P network h)"
  "\<lambda>a. decode_address P a network" "address_hash_ok P network" for P network
  by unfold_locales (auto simp: decode_address_of_hash dest: decode_address_unique)

lemma is_valid_address_iff:
  "is_valid_address P a network \<longleftrightarrow> (\<exists>h. decode_address P a network = Inr h)"
  by (auto simp: is_valid_address_def split: sum.splits)

text \<open>What the other components use: a decoded address is ASCII, short, and encodable.\<close>

lemma decoded_address_ascii:
  "decode_address P a network = Inr h \<Longrightarrow> isascii a \<and> length a = length (net_address_hrp network) + 41"
  by (auto simp: decode_address_def Let_def startswith_def ADDRESS_SEPARATOR_def str_def split: if_splits)

lemma address_from_public_key_valid:
  assumes "hash_ok P" and "network_ok network" and "length pk = 32"
  shows "\<exists>a. address_from_public_key P pk network = Inr a
     \<and> decode_address P a network = public_key_hash P pk"
proof -
  obtain h where h: "public_key_hash P pk = Inr h" "length h = 20"
    using assms by (auto simp: public_key_hash_def require_bytes_def)
  then show ?thesis
    using assms network_okD [OF assms(2)] address_hash_okI [of P network h]
    by (simp add: address_from_public_key_def decode_address_of_hash)
qed

text \<open>The errors of the decoder and of the encoder.\<close>

lemma b32_quantum_raises [raises_intros]: "raises_only {Base64Error} (b32_quantum q)"
  unfolding b32_quantum_def by (intro raises_intros) auto

lemma b32_quanta_raises [raises_intros]: "raises_only {Base64Error} (b32_quanta s d a)"
  by (induction s d a rule: b32_quanta.induct, subst b32_quanta.simps) (auto intro!: raises_intros)

lemma b32decode_raises: "raises_only {Base64Error} (b32decode s)"
  unfolding b32decode_def Let_def by (intro raises_intros) auto

lemma decode_address_raises: "raises_only {AddressError} (decode_address P a network)"
  unfolding decode_address_def Let_def
  by (intro raises_intros raises_rethrow [OF b32decode_raises]) auto

lemma address_from_public_key_raises:
  "network_ok network \<Longrightarrow> raises_only {CryptoError} (address_from_public_key P pk network)"
  unfolding address_from_public_key_def public_key_hash_def require_bytes_def
  by (intro raises_intros) (auto dest: network_okD)

text \<open>Addresses of the sample platform, for the witnesses.\<close>

definition sample_address :: "byte \<Rightarrow> pystr" where
  "sample_address b = address_of_hash sample_platform TESTNET (replicate 20 b)"

lemma sample_address_decodes [simp]:
  "decode_address sample_platform (sample_address b) TESTNET = Inr (replicate 20 b)"
  unfolding sample_address_def by (intro decode_address_of_hash address_hash_okI) simp_all

lemma sample_address_valid [simp]: "is_valid_address sample_platform (sample_address b) TESTNET"
  by (simp add: is_valid_address_iff)

subsection \<open>Properties\<close>

text \<open>\<open>address_wire_format\<close>: the decoder accepts a text exactly when it is the encoding of a
  20-byte public-key hash for this network, and then returns that hash: no second spelling of an
  address (case, padding, other trailing bits) is ever accepted.\<close>

theorem address_wire_format:
  "decode_address P a network = Inr h \<longleftrightarrow>
     address_hash_ok P network h \<and> a = address_of_hash P network h"
  using decode_address_unique decode_address_of_hash by blast

text \<open>\<open>address_of_key_decodes\<close>: the address made from a 32-byte public key is accepted by the
  decoder of the same network and names the hash of that key.\<close>

theorem address_of_key_decodes:
  assumes "platform_ok P" and "network_ok network" and "length pk = 32"
  shows "\<exists>a. address_from_public_key P pk network = Inr a \<and> is_valid_address P a network
     \<and> decode_address P a network = public_key_hash P pk"
  using address_from_public_key_valid [of P network pk] assms
  by (auto simp: is_valid_address_iff public_key_hash_def require_bytes_def)

lemma address_of_key_decodes_witness:
  "\<exists>a. address_from_public_key sample_platform (replicate 32 7) TESTNET = Inr a
     \<and> is_valid_address sample_platform a TESTNET
     \<and> decode_address sample_platform a TESTNET = public_key_hash sample_platform (replicate 32 7)"
  by (rule address_of_key_decodes) simp_all

end
