(* ===== verification/Transaction.thy ===== *)
theory Transaction
  imports Address
begin

text \<open>
  \<open>transaction.py\<close>: the signed transfer, its canonical bytes, its parser, its stateless validation
  and its construction. Lemmas: the parser is the inverse of the serialiser on exactly the
  transactions whose fields fit (\<open>transaction_canonical\<close>); what a validated transaction satisfies,
  read off the guards once (\<open>validate_transactionD\<close>); and a transaction made from a private key
  for valid arguments passes validation.
\<close>

definition TRANSACTION_DOMAIN :: bytes where
  "TRANSACTION_DOMAIN = byte_literal ''OURCOIN:TRANSACTION:V1''"
definition TRANSACTION_VERSION :: int where "TRANSACTION_VERSION = 1"
definition MAX_CHAIN_ID_BYTES :: int where "MAX_CHAIN_ID_BYTES = 64"
definition MAX_ADDRESS_BYTES :: int where "MAX_ADDRESS_BYTES = 128"

record transaction =
  tx_version :: int
  tx_chain_id :: pystr
  tx_sender_public_key :: bytes
  tx_sender_address :: pystr
  tx_recipient_address :: pystr
  tx_amount_atoms :: int
  tx_fee_atoms :: int
  tx_nonce :: int
  tx_valid_until_height :: int
  tx_signature :: bytes

definition signing_bytes :: "platform \<Rightarrow> transaction \<Rightarrow> bytes res" where
  "signing_bytes P t = join_fields
     [encode_bytes TRANSACTION_DOMAIN,
      encode_u16 (tx_version t),
      encode_text P (tx_chain_id t),
      encode_bytes (tx_sender_public_key t),
      encode_text P (tx_sender_address t),
      encode_text P (tx_recipient_address t),
      encode_u64 (tx_amount_atoms t),
      encode_u64 (tx_fee_atoms t),
      encode_u64 (tx_nonce t),
      encode_u64 (tx_valid_until_height t)]"

definition transaction_to_bytes :: "platform \<Rightarrow> transaction \<Rightarrow> bytes res" where
  "transaction_to_bytes P t =
     bindE (signing_bytes P t) (\<lambda>s. bindE (encode_bytes (tx_signature t)) (\<lambda>g. Inr (s @ g)))"

definition txid :: "platform \<Rightarrow> transaction \<Rightarrow> bytes res" where
  "txid P t = bindE (transaction_to_bytes P t) (\<lambda>bs. Inr (sha256_digest P bs))"

definition transaction_from_bytes :: "platform \<Rightarrow> bytes \<Rightarrow> transaction res" where
  "transaction_from_bytes P encoded =
     rethrow (\<lambda>c. c = EncodingError)
       (\<lambda>_. Exn TransactionError ''invalid canonical transaction encoding'')
       (bindE (read_bytes (Some (int (length TRANSACTION_DOMAIN))) (canonical_reader_of encoded)) (\<lambda>(domain, r).
        if domain \<noteq> TRANSACTION_DOMAIN then raise TransactionError ''unknown transaction domain''
        else
        bindE (read_u16 r) (\<lambda>(version, r).
        bindE (read_text P (Some MAX_CHAIN_ID_BYTES) r) (\<lambda>(chain_id, r).
        bindE (read_bytes (Some (int PUBLIC_KEY_LENGTH)) r) (\<lambda>(sender_public_key, r).
        bindE (read_text P (Some MAX_ADDRESS_BYTES) r) (\<lambda>(sender_address, r).
        bindE (read_text P (Some MAX_ADDRESS_BYTES) r) (\<lambda>(recipient_address, r).
        bindE (read_u64 r) (\<lambda>(amount_atoms, r).
        bindE (read_u64 r) (\<lambda>(fee_atoms, r).
        bindE (read_u64 r) (\<lambda>(nonce, r).
        bindE (read_u64 r) (\<lambda>(valid_until_height, r).
        bindE (read_bytes (Some (int SIGNATURE_LENGTH)) r) (\<lambda>(signature, r).
        bindE (ensure_finished r) (\<lambda>_.
          Inr \<lparr>tx_version = version, tx_chain_id = chain_id,
               tx_sender_public_key = sender_public_key, tx_sender_address = sender_address,
               tx_recipient_address = recipient_address, tx_amount_atoms = amount_atoms,
               tx_fee_atoms = fee_atoms, tx_nonce = nonce,
               tx_valid_until_height = valid_until_height, tx_signature = signature\<rparr>)))))))))))))"

definition validate_u64 :: "int \<Rightarrow> string \<Rightarrow> unit res" where
  "validate_u64 v field_name =
     (if \<not> (0 \<le> v \<and> v \<le> U64_MAX) then
        raise TransactionError (field_name @ '' must be an unsigned 64-bit integer'')
      else Inr ())"

definition validate_transaction ::
  "platform \<Rightarrow> transaction \<Rightarrow> int \<Rightarrow> network_config \<Rightarrow> unit res" where
  "validate_transaction P t current_height network =
     bindE (validate_u64 current_height ''current height'') (\<lambda>_.
     if tx_version t \<noteq> TRANSACTION_VERSION then
       raise TransactionError ''unsupported transaction version''
     else if tx_chain_id t \<noteq> net_chain_id network then
       raise TransactionError ''transaction belongs to another network''
     else if length (tx_sender_public_key t) \<noteq> PUBLIC_KEY_LENGTH then
       raise TransactionError ''sender public key must be exactly 32 bytes''
     else if length (tx_signature t) \<noteq> SIGNATURE_LENGTH then
       raise TransactionError ''transaction signature must be exactly 64 bytes''
     else
     bindE (validate_u64 (tx_amount_atoms t) ''amount'') (\<lambda>_.
     bindE (validate_u64 (tx_fee_atoms t) ''fee'') (\<lambda>_.
     bindE (validate_u64 (tx_nonce t) ''nonce'') (\<lambda>_.
     bindE (validate_u64 (tx_valid_until_height t) ''valid-until height'') (\<lambda>_.
     if tx_amount_atoms t = 0 then
       raise TransactionError ''transaction amount must be positive''
     else if tx_amount_atoms t + tx_fee_atoms t > U64_MAX then
       raise TransactionError ''transaction amount plus fee exceeds uint64''
     else if current_height > tx_valid_until_height t then
       raise TransactionError ''transaction has expired''
     else
     bindE (rethrow (\<lambda>c. c \<in> {AddressError, CryptoError})
              (\<lambda>_. Exn TransactionError ''transaction contains an invalid network address'')
              (bindE (decode_address P (tx_sender_address t) network) (\<lambda>_.
               bindE (decode_address P (tx_recipient_address t) network) (\<lambda>_.
               address_from_public_key P (tx_sender_public_key t) network)))) (\<lambda>expected_sender.
     if tx_sender_address t \<noteq> expected_sender then
       raise TransactionError ''sender address does not match the public key''
     else
     bindE (rethrow (\<lambda>c. c = EncodingError)
              (\<lambda>_. Exn TransactionError ''transaction fields are not canonically encodable'')
              (bindE (signing_bytes P t) (\<lambda>s. bindE (transaction_to_bytes P t) (\<lambda>_. Inr s)))) (\<lambda>signed.
     if \<not> verify_signature P (tx_sender_public_key t) signed (tx_signature t) then
       raise TransactionError ''transaction signature is invalid''
     else Inr ())))))))"

definition create_signed_transaction ::
  "platform \<Rightarrow> bytes \<Rightarrow> pystr \<Rightarrow> int \<Rightarrow> int \<Rightarrow> int \<Rightarrow> int \<Rightarrow> network_config \<Rightarrow> transaction res" where
  "create_signed_transaction P private_key recipient_address amount_atoms fee_atoms nonce
       valid_until_height network =
     bindE (rethrow (\<lambda>c. c \<in> {CryptoError, EncodingError})
        (\<lambda>_. Exn TransactionError ''could not create a canonical signed transaction'')
        (bindE (public_key_from_private P private_key) (\<lambda>sender_public_key.
         bindE (address_from_public_key P sender_public_key network) (\<lambda>sender_address.
         let unsigned = \<lparr>tx_version = TRANSACTION_VERSION, tx_chain_id = net_chain_id network,
               tx_sender_public_key = sender_public_key, tx_sender_address = sender_address,
               tx_recipient_address = recipient_address, tx_amount_atoms = amount_atoms,
               tx_fee_atoms = fee_atoms, tx_nonce = nonce,
               tx_valid_until_height = valid_until_height, tx_signature = []\<rparr>
         in bindE (signing_bytes P unsigned) (\<lambda>message.
            bindE (sign P private_key message) (\<lambda>s. Inr (unsigned\<lparr>tx_signature := s\<rparr>))))))) (\<lambda>t.
     bindE (validate_transaction P t 0 network) (\<lambda>_. Inr t))"

subsection \<open>Canonical bytes\<close>

definition transaction_canonical :: "platform \<Rightarrow> transaction \<Rightarrow> bool" where
  "transaction_canonical P t \<longleftrightarrow>
     canonical_text P (Some MAX_CHAIN_ID_BYTES) (tx_chain_id t)
   \<and> length (tx_sender_public_key t) \<le> 32
   \<and> canonical_text P (Some MAX_ADDRESS_BYTES) (tx_sender_address t)
   \<and> canonical_text P (Some MAX_ADDRESS_BYTES) (tx_recipient_address t)
   \<and> length (tx_signature t) \<le> 64"

definition transaction_fields :: "platform \<Rightarrow> transaction \<Rightarrow> bytes res list" where
  "transaction_fields P t =
     [encode_bytes TRANSACTION_DOMAIN, encode_u16 (tx_version t), encode_text P (tx_chain_id t),
      encode_bytes (tx_sender_public_key t), encode_text P (tx_sender_address t),
      encode_text P (tx_recipient_address t), encode_u64 (tx_amount_atoms t),
      encode_u64 (tx_fee_atoms t), encode_u64 (tx_nonce t), encode_u64 (tx_valid_until_height t),
      encode_bytes (tx_signature t)]"

lemma transaction_to_bytes_fields: "transaction_to_bytes P t = join_fields (transaction_fields P t)"
  by (simp add: transaction_to_bytes_def signing_bytes_def transaction_fields_def bindE_assoc)

lemma transaction_from_bytes_iff:
  "transaction_from_bytes P bs = Inr t \<longleftrightarrow>
     transaction_canonical P t \<and> transaction_to_bytes P t = Inr bs"
proof -
  have "transaction_from_bytes P bs = Inr t \<longleftrightarrow> True \<and>
      (canonical_text P (Some MAX_CHAIN_ID_BYTES) (tx_chain_id t) \<and>
       \<not> exceeds (int (length (tx_sender_public_key t))) (Some (int PUBLIC_KEY_LENGTH)) \<and>
       canonical_text P (Some MAX_ADDRESS_BYTES) (tx_sender_address t) \<and>
       canonical_text P (Some MAX_ADDRESS_BYTES) (tx_recipient_address t) \<and>
       \<not> exceeds (int (length (tx_signature t))) (Some (int SIGNATURE_LENGTH)) \<and> True) \<and>
      parses (transaction_fields P t) (canonical_reader_of bs)"
    unfolding transaction_from_bytes_def rethrow_eq_Inr transaction_fields_def
    by (rule bind_domain, (rule bind_parses)+, rule bind_finished, cases t) auto
  then show ?thesis 
    by (auto simp: parses_whole transaction_to_bytes_fields transaction_canonical_def)
qed

interpretation transaction_bytes: message_codec "transaction_to_bytes P" "transaction_from_bytes P"
  "transaction_canonical P" for P
  by unfold_locales (rule transaction_from_bytes_iff)

subsection \<open>Validation\<close>

lemma validate_u64_iff [simp]: "validate_u64 v name = Inr u \<longleftrightarrow> 0 \<le> v \<and> v \<le> U64_MAX"
  by (simp add: validate_u64_def)

lemma validate_u64_raises [raises_intros]: "raises_only {TransactionError} (validate_u64 v name)"
  unfolding validate_u64_def by (intro raises_intros) auto

text \<open>The guards of \<open>validate_transaction\<close>, once: everything below reads facts off this record of them.\<close>

definition transaction_fields_ok :: "transaction \<Rightarrow> int \<Rightarrow> network_config \<Rightarrow> bool" where
  "transaction_fields_ok t h network \<longleftrightarrow>
     0 \<le> h \<and> h \<le> tx_valid_until_height t \<and> tx_valid_until_height t \<le> U64_MAX
   \<and> tx_version t = TRANSACTION_VERSION \<and> tx_chain_id t = net_chain_id network
   \<and> length (tx_sender_public_key t) = 32 \<and> length (tx_signature t) = 64
   \<and> 0 < tx_amount_atoms t \<and> 0 \<le> tx_fee_atoms t
   \<and> tx_amount_atoms t + tx_fee_atoms t \<le> U64_MAX
   \<and> 0 \<le> tx_nonce t \<and> tx_nonce t \<le> U64_MAX"

definition transaction_addresses_ok :: "platform \<Rightarrow> transaction \<Rightarrow> network_config \<Rightarrow> bool" where
  "transaction_addresses_ok P t network \<longleftrightarrow>
     is_valid_address P (tx_sender_address t) network
   \<and> is_valid_address P (tx_recipient_address t) network
   \<and> address_from_public_key P (tx_sender_public_key t) network = Inr (tx_sender_address t)"

lemma validate_transaction_iff:
  "validate_transaction P t h network = Inr u \<longleftrightarrow>
     transaction_fields_ok t h network \<and> transaction_addresses_ok P t network
   \<and> (\<exists>s bs. signing_bytes P t = Inr s \<and> transaction_to_bytes P t = Inr bs
        \<and> verify_signature P (tx_sender_public_key t) s (tx_signature t))"
  by (auto simp: validate_transaction_def transaction_fields_ok_def transaction_addresses_ok_def
      is_valid_address_iff res_simps width_maxima)

text \<open>A network whose identifiers fit the limits the parsers impose; the program's does.\<close>

definition network_fits :: "network_config \<Rightarrow> bool" where
  "network_fits n \<longleftrightarrow> network_ok n \<and> length (net_chain_id n) \<le> 64 \<and> length (net_address_hrp n) \<le> 87"

lemma network_fits_TESTNET [simp]: "network_fits TESTNET"
  unfolding network_fits_def by (rule conjI, rule network_ok_TESTNET) (simp add: TESTNET_def str_def)

lemma network_fits_ok [simp]: "network_fits n \<Longrightarrow> network_ok n"
  by (simp add: network_fits_def)

lemma chain_id_canonical:
  "nfc_ok P \<Longrightarrow> network_fits n \<Longrightarrow> canonical_text P (Some MAX_CHAIN_ID_BYTES) (net_chain_id n)"
  by (intro canonical_text_ascii)
     (auto simp: network_fits_def MAX_CHAIN_ID_BYTES_def dest: network_okD)

lemma address_canonical:
  assumes "nfc_ok P" and "network_fits n" and "is_valid_address P a n"
  shows "canonical_text P (Some MAX_ADDRESS_BYTES) a"
proof -
  obtain h where "decode_address P a n = Inr h" using assms(3) by (auto simp: is_valid_address_iff)
  then have "isascii a" "length a \<le> 128"
    using assms(2) by (auto simp: network_fits_def dest: decoded_address_ascii)
  then show ?thesis using assms(1) by (intro canonical_text_ascii) (auto simp: MAX_ADDRESS_BYTES_def)
qed

lemma canonical_text_encodes:
  assumes "canonical_text P (Some m) s" and "m \<le> U32_MAX"
  shows "\<exists>p. encode_text P s = Inr p"
  using assms by (auto elim!: canonical_textE simp: encode_text_def encode_bytes_def encode_unsigned_range res_simps)

lemma encode_bytes_total: "int (length v) \<le> U32_MAX \<Longrightarrow> \<exists>p. encode_bytes v = Inr p"
  by (simp add: encode_bytes_def encode_unsigned_range res_simps)

lemma encode_u64_total: "0 \<le> v \<Longrightarrow> v \<le> U64_MAX \<Longrightarrow> \<exists>p. encode_u64 v = Inr p"
  by (simp add: encode_unsigned_range)

lemma join_fields_total: "list_all (\<lambda>f. \<exists>p. f = Inr p) fs \<Longrightarrow> \<exists>p. join_fields fs = Inr p"
  by (induction fs) auto

lemma transaction_canonicalI:
  assumes "nfc_ok P" and "network_fits network"
    and "transaction_fields_ok t h network" and "transaction_addresses_ok P t network"
  shows "transaction_canonical P t"
  using assms
  by (auto simp: transaction_canonical_def transaction_fields_ok_def transaction_addresses_ok_def
      chain_id_canonical address_canonical)

lemma domain_short: "int (length TRANSACTION_DOMAIN) \<le> U32_MAX"
  by (simp add: TRANSACTION_DOMAIN_def byte_literal_def U32_MAX_def)

text \<open>Canonical fields in range have bytes, so the last \<open>try\<close> block of the validation never raises.\<close>

lemma signing_bytes_total:
  assumes "nfc_ok P" and "network_fits network"
    and "transaction_fields_ok (t\<lparr>tx_signature := g\<rparr>) h network"
    and "transaction_addresses_ok P t network"
  shows "\<exists>s. signing_bytes P t = Inr s"
proof -
  have "transaction_canonical P (t\<lparr>tx_signature := g\<rparr>)"
    using assms by (intro transaction_canonicalI) (auto simp: transaction_addresses_ok_def)
  then have "canonical_text P (Some MAX_CHAIN_ID_BYTES) (tx_chain_id t)"
      "canonical_text P (Some MAX_ADDRESS_BYTES) (tx_sender_address t)"
      "canonical_text P (Some MAX_ADDRESS_BYTES) (tx_recipient_address t)"
    by (auto simp: transaction_canonical_def)
  then show ?thesis
    using assms(3) unfolding signing_bytes_def
    by (intro join_fields_total)
       (auto simp: transaction_fields_ok_def TRANSACTION_VERSION_def domain_short
         encode_unsigned_range width_maxima MAX_CHAIN_ID_BYTES_def MAX_ADDRESS_BYTES_def
         intro!: encode_bytes_total domain_short elim!: canonical_text_encodes)
qed

lemma transaction_to_bytes_total:
  assumes "nfc_ok P" and "network_fits network"
    and "transaction_fields_ok t h network" and "transaction_addresses_ok P t network"
  shows "\<exists>s bs. signing_bytes P t = Inr s \<and> transaction_to_bytes P t = Inr bs"
proof -
  obtain s where "signing_bytes P t = Inr s"
    using signing_bytes_total [of P network "tx_signature t" t] assms by auto
  moreover obtain g where "encode_bytes (tx_signature t) = Inr g"
    using encode_bytes_total [of "tx_signature t"] assms(3)
    by (auto simp: transaction_fields_ok_def U32_MAX_def)
  ultimately show ?thesis by (simp add: transaction_to_bytes_def)
qed

lemma validated_txid:
  assumes "hash_ok P" and "validate_transaction P t h network = Inr u"
  shows "\<exists>i. txid P t = Inr i \<and> length i = 32"
  using assms by (auto simp: validate_transaction_iff txid_def)

lemma validate_transaction_raises:
  assumes "platform_ok P" and "network_fits network"
  shows "raises_only {TransactionError} (validate_transaction P t h network)"
proof -
  have tot: "\<exists>s bs. signing_bytes P t = Inr s \<and> transaction_to_bytes P t = Inr bs"
    if "transaction_fields_ok t h network" "transaction_addresses_ok P t network"
    using that assms transaction_to_bytes_total [of P network t h] by simp
  have addresses: "raises_only {AddressError, CryptoError}
      (bindE (decode_address P (tx_sender_address t) network) (\<lambda>_.
       bindE (decode_address P (tx_recipient_address t) network) (\<lambda>_.
       address_from_public_key P (tx_sender_public_key t) network)))"
    using assms network_fits_ok
    by (intro raises_bind raises_mono [OF decode_address_raises] 
        raises_mono [OF address_from_public_key_raises]) auto
  show ?thesis
    unfolding validate_transaction_def
    by (intro raises_intros raises_rethrow [OF addresses])
       (use tot in \<open>auto simp: transaction_fields_ok_def transaction_addresses_ok_def
          is_valid_address_iff res_simps intro: raises_intros\<close>)
qed

text \<open>The construction signs what the validation verifies.\<close>

lemma create_signed_transaction_ok:
  assumes P: "platform_ok P" and n: "network_fits network" and k: "length k = 32"
    and r: "is_valid_address P recipient network"
    and f: "0 < amount" "0 \<le> fee" "amount + fee \<le> U64_MAX" "0 \<le> nonce" "nonce \<le> U64_MAX"
      "0 \<le> until" "until \<le> U64_MAX"
  shows "\<exists>t. create_signed_transaction P k recipient amount fee nonce until network = Inr t
     \<and> tx_recipient_address t = recipient \<and> tx_amount_atoms t = amount \<and> tx_fee_atoms t = fee
     \<and> tx_nonce t = nonce \<and> tx_valid_until_height t = until
     \<and> tx_sender_public_key t = ed25519_public_key P k
     \<and> (\<forall>h. 0 \<le> h \<and> h \<le> until \<longrightarrow> validate_transaction P t h network = Inr ())"
proof -
  let ?pk = "ed25519_public_key P k"
  have pk: "public_key_from_private P k = Inr ?pk" "length ?pk = 32"
    using k P ed25519_okD by (auto simp: public_key_from_private_def require_bytes_def)
  obtain a where a: "address_from_public_key P ?pk network = Inr a"
      "decode_address P a network = public_key_hash P ?pk"
    using address_from_public_key_valid [of P network ?pk] P n pk by auto
  have va: "is_valid_address P a network"
    using a pk by (auto simp: is_valid_address_iff public_key_hash_def require_bytes_def)
  define u where "u = \<lparr>tx_version = TRANSACTION_VERSION, tx_chain_id = net_chain_id network,
               tx_sender_public_key = ?pk, tx_sender_address = a,
               tx_recipient_address = recipient, tx_amount_atoms = amount,
               tx_fee_atoms = fee, tx_nonce = nonce, tx_valid_until_height = until,
               tx_signature = []\<rparr>"
  have fields: "transaction_fields_ok (u\<lparr>tx_signature := g\<rparr>) h network"
    if "length g = 64" "0 \<le> h" "h \<le> until" for g h
    using that f pk by (simp add: u_def transaction_fields_ok_def)
  have addr: "transaction_addresses_ok P (u\<lparr>tx_signature := g\<rparr>) network" for g
    using va r a by (simp add: u_def transaction_addresses_ok_def)
  obtain s where s: "signing_bytes P u = Inr s"
    using signing_bytes_total [of P network "replicate 64 0" u 0] fields [of "replicate 64 0" 0]
      addr [of "[]"] P n f by (auto simp: u_def)
  obtain g where g: "sign P k s = Inr g" "length g = 64" "verify_signature P ?pk s g"
    using sign_verifies [of P k s] P k pk by auto
  let ?t = "u\<lparr>tx_signature := g\<rparr>"
  have "signing_bytes P ?t = Inr s" using s by (simp add: signing_bytes_def)
  then have valid: "validate_transaction P ?t h network = Inr ()" if "0 \<le> h" "h \<le> until" for h
    using transaction_to_bytes_total [of P network ?t h] fields [OF g(2) that] addr [of g] P n g
    by (auto simp: validate_transaction_iff u_def)
  have "create_signed_transaction P k recipient amount fee nonce until network = Inr ?t"
    using valid [of 0] f pk a s g by (simp add: create_signed_transaction_def u_def)
  then show ?thesis using valid by (intro exI [of _ ?t]) (auto simp: u_def)
qed

text \<open>Transactions of the sample platform, for the witnesses: seed \<open>k\<close> pays the address \<open>sample_address b\<close>.\<close>

definition sample_transaction :: "byte \<Rightarrow> byte \<Rightarrow> int \<Rightarrow> int \<Rightarrow> int \<Rightarrow> transaction" where
  "sample_transaction k b amount fee nonce = projr (create_signed_transaction sample_platform
     (replicate 32 k) (sample_address b) amount fee nonce 1000 TESTNET)"

lemma sample_transaction_props:
  assumes "0 < amount" "0 \<le> fee" "amount + fee \<le> U64_MAX" "0 \<le> nonce" "nonce \<le> U64_MAX"
  shows "tx_recipient_address (sample_transaction k b amount fee nonce) = sample_address b"
    and "tx_amount_atoms (sample_transaction k b amount fee nonce) = amount"
    and "tx_fee_atoms (sample_transaction k b amount fee nonce) = fee"
    and "tx_nonce (sample_transaction k b amount fee nonce) = nonce"
    and "tx_valid_until_height (sample_transaction k b amount fee nonce) = 1000"
    and "tx_sender_public_key (sample_transaction k b amount fee nonce)
           = ed25519_public_key sample_platform (replicate 32 k)"
    and "0 \<le> h \<Longrightarrow> h \<le> 1000 \<Longrightarrow>
           validate_transaction sample_platform (sample_transaction k b amount fee nonce) h TESTNET = Inr ()"
  using create_signed_transaction_ok [of sample_platform TESTNET "replicate 32 k" "sample_address b"
      amount fee nonce 1000] assms
  by (auto simp: sample_transaction_def U64_MAX_def)

subsection \<open>Properties\<close>

text \<open>\<open>transaction_wire_format\<close>: the parser accepts a byte string exactly when it is the
  serialisation of a transaction whose texts are in canonical form and within their limits, and
  then returns that transaction, so one transaction has one encoding.\<close>

theorem transaction_wire_format:
  "transaction_from_bytes P bs = Inr t \<longleftrightarrow>
     transaction_canonical P t \<and> transaction_to_bytes P t = Inr bs"
  by (rule transaction_from_bytes_iff)

text \<open>\<open>validated_transaction_reparses\<close>: a transaction that passes validation has canonical bytes
  from which the parser restores it, and a 32-byte identifier.\<close>

theorem validated_transaction_reparses:
  assumes "platform_ok P" and "network_fits network" and "validate_transaction P t h network = Inr ()"
  shows "\<exists>bs. transaction_to_bytes P t = Inr bs \<and> transaction_from_bytes P bs = Inr t
     \<and> txid P t = Inr (sha256_digest P bs) \<and> length (sha256_digest P bs) = 32"
proof -
  have "transaction_canonical P t"
    using assms transaction_canonicalI [of P network t h] by (simp add: validate_transaction_iff)
  then show ?thesis
    using assms transaction_bytes.round_trip by (auto simp: validate_transaction_iff txid_def)
qed

lemma validated_transaction_reparses_witness:
  "\<exists>bs. transaction_to_bytes sample_platform (sample_transaction 1 5 7 1 0) = Inr bs
     \<and> transaction_from_bytes sample_platform bs = Inr (sample_transaction 1 5 7 1 0)
     \<and> txid sample_platform (sample_transaction 1 5 7 1 0) = Inr (sha256_digest sample_platform bs)
     \<and> length (sha256_digest sample_platform bs) = 32"
  by (rule validated_transaction_reparses [where h = 10 and network = TESTNET])
     (simp_all add: sample_transaction_props U64_MAX_def)

text \<open>\<open>validate_transaction_errors\<close>: validation ends normally or with a \<open>TransactionError\<close>; no other
  exception of the codecs, the address decoder or the key functions escapes it.\<close>

theorem validate_transaction_errors:
  assumes "platform_ok P" and "network_fits network" and "validate_transaction P t h network = Inl e"
  shows "exn_kind e = TransactionError"
  using validate_transaction_raises [of P network t h] assms by (auto dest: raises_onlyD)

lemma validate_transaction_errors_witness:
  "exn_kind (projl (validate_transaction sample_platform (sample_transaction 1 5 7 1 0) (- 1) TESTNET))
     = TransactionError"
  by (rule validate_transaction_errors [where P = sample_platform and network = TESTNET and h = "- 1"
        and t = "sample_transaction 1 5 7 1 0"])
     (simp_all add: validate_transaction_def validate_u64_def)

text \<open>\<open>created_transaction_is_valid\<close>: for a 32-byte seed, an address of the network and amounts in
  range, the construction returns a signed transaction with the requested fields that passes
  validation at every height up to its expiry.\<close>

theorem created_transaction_is_valid:
  assumes "platform_ok P" and "network_fits network" and "length k = 32"
    and "is_valid_address P recipient network"
    and "0 < amount" and "0 \<le> fee" and "amount + fee \<le> U64_MAX" and "0 \<le> nonce" and "nonce \<le> U64_MAX"
    and "0 \<le> until" and "until \<le> U64_MAX"
  shows "\<exists>t. create_signed_transaction P k recipient amount fee nonce until network = Inr t
     \<and> tx_recipient_address t = recipient \<and> tx_amount_atoms t = amount \<and> tx_fee_atoms t = fee
     \<and> tx_nonce t = nonce \<and> tx_valid_until_height t = until
     \<and> tx_sender_public_key t = ed25519_public_key P k
     \<and> (\<forall>h. 0 \<le> h \<and> h \<le> until \<longrightarrow> validate_transaction P t h network = Inr ())"
  by (rule create_signed_transaction_ok) (use assms in auto)

lemma created_transaction_is_valid_witness:
  "\<exists>t. create_signed_transaction sample_platform (replicate 32 1) (sample_address 5) 7 1 0 100 TESTNET
       = Inr t
     \<and> tx_amount_atoms t = 7 \<and> validate_transaction sample_platform t 50 TESTNET = Inr ()"
proof -
  have "\<exists>t. create_signed_transaction sample_platform (replicate 32 1) (sample_address 5) 7 1 0 100 TESTNET
       = Inr t
     \<and> tx_recipient_address t = sample_address 5 \<and> tx_amount_atoms t = 7 \<and> tx_fee_atoms t = 1
     \<and> tx_nonce t = 0 \<and> tx_valid_until_height t = 100
     \<and> tx_sender_public_key t = ed25519_public_key sample_platform (replicate 32 1)
     \<and> (\<forall>h. 0 \<le> h \<and> h \<le> 100 \<longrightarrow> validate_transaction sample_platform t h TESTNET = Inr ())"
    by (rule created_transaction_is_valid) (simp_all add: U64_MAX_def)
  then obtain t where "create_signed_transaction sample_platform (replicate 32 1) (sample_address 5)
      7 1 0 100 TESTNET = Inr t" "tx_amount_atoms t = 7"
      "validate_transaction sample_platform t 50 TESTNET = Inr ()" by auto
  then show ?thesis by blast
qed

end
