(* ===== verification/Merkle.thy ===== *)
theory Merkle
  imports Sample_Platform
begin

text \<open>
  \<open>merkle.py\<close>: the domain-separated Merkle root. The \<open>while\<close> loop is \<open>merkle_loop\<close>, one round of it
  \<open>merkle_level\<close>. The lemmas: the loop ends with one 32-byte node; the root binds the list of leaves
  among lists of one length, as long as the hash has no collision among the nodes the two
  computations hash; and the duplication of an odd last node is visible in the root.
\<close>

definition EMPTY_MERKLE_DOMAIN :: bytes where "EMPTY_MERKLE_DOMAIN = [0]"
definition MERKLE_NODE_DOMAIN :: bytes where "MERKLE_NODE_DOMAIN = [1]"
definition HASH_LENGTH :: nat where "HASH_LENGTH = 32"

lemma HASH_LENGTH_32 [simp]: "HASH_LENGTH = 32"
  by (simp add: HASH_LENGTH_def)

definition pad_odd :: "'a list \<Rightarrow> 'a list" where
  "pad_odd level = (if length level mod 2 \<noteq> 0 then level @ [last level] else level)"

definition merkle_node :: "platform \<Rightarrow> bytes \<Rightarrow> bytes \<Rightarrow> bytes" where
  "merkle_node P l r = sha256_digest P (MERKLE_NODE_DOMAIN @ l @ r)"

fun pair_nodes :: "platform \<Rightarrow> bytes list \<Rightarrow> bytes list" where
  "pair_nodes P (l # r # level) = merkle_node P l r # pair_nodes P level"
| "pair_nodes P _ = []"

definition merkle_level :: "platform \<Rightarrow> bytes list \<Rightarrow> bytes list" where
  "merkle_level P level = pair_nodes P (pad_odd level)"

lemma length_pair_nodes: "length (pair_nodes P level) = length level div 2"
  by (induction P level rule: pair_nodes.induct) auto

lemma length_merkle_level: "length (merkle_level P level) = (length level + 1) div 2"
  by (simp add: merkle_level_def pad_odd_def length_pair_nodes) presburger

function merkle_loop :: "platform \<Rightarrow> bytes list \<Rightarrow> bytes list" where
  "merkle_loop P level = (if length level > 1 then merkle_loop P (merkle_level P level) else level)"
  by pat_completeness auto
termination
  by (relation "measure (\<lambda>(P, level). length level)") (auto simp: length_merkle_level)

declare merkle_loop.simps [simp del]

definition merkle_root :: "platform \<Rightarrow> bytes list \<Rightarrow> bytes res" where
  "merkle_root P leaves =
     (if leaves = [] then Inr (sha256_digest P EMPTY_MERKLE_DOMAIN)
      else if list_ex (\<lambda>leaf. length leaf \<noteq> HASH_LENGTH) leaves then
        raise MerkleError ''every Merkle leaf must be exactly 32 bytes''
      else Inr (hd (merkle_loop P leaves)))"

lemma merkle_loop_single [simp]: "merkle_loop P [x] = [x]"
  by (simp add: merkle_loop.simps)

lemma merkle_level_lengths: "hash_ok P \<Longrightarrow> \<forall>x \<in> set (pair_nodes P level). length x = 32"
  by (induction P level rule: pair_nodes.induct) (auto simp: merkle_node_def)

lemma merkle_loop_result:
  assumes "hash_ok P" and "level \<noteq> []" and "\<forall>x \<in> set level. length x = 32"
  shows "\<exists>r. merkle_loop P level = [r] \<and> length r = 32"
  using assms
proof (induction P level rule: merkle_loop.induct)
  case (1 P level)
  show ?case
  proof (cases "length level > 1")
    case True
    moreover have "merkle_level P level \<noteq> []"
      using True length_merkle_level [of P level] by fastforce
    moreover have "\<forall>x \<in> set (merkle_level P level). length x = 32"
      unfolding merkle_level_def by (rule merkle_level_lengths [OF "1.prems"(1)])
    ultimately show ?thesis
      using 1 by (subst merkle_loop.simps) simp
  next
    case False
    with "1.prems" obtain r where "level = [r]" by (cases level) auto
    with "1.prems" show ?thesis by simp
  qed
qed

lemma merkle_root_total:
  assumes "hash_ok P" and "\<forall>x \<in> set leaves. length x = 32"
  obtains r where "merkle_root P leaves = Inr r" and "length r = 32"
proof (cases "leaves = []")
  case True
  with assms that show thesis by (simp add: merkle_root_def)
next
  case False
  then obtain r where "merkle_loop P leaves = [r]" "length r = 32"
    using merkle_loop_result assms by blast
  with assms False that show thesis by (auto simp: merkle_root_def list_ex_iff)
qed

subsection \<open>Binding\<close>

text \<open>Everything a root computation feeds to the hash.\<close>

fun pair_inputs :: "bytes list \<Rightarrow> bytes list" where
  "pair_inputs (l # r # level) = (MERKLE_NODE_DOMAIN @ l @ r) # pair_inputs level"
| "pair_inputs _ = []"

function merkle_inputs :: "platform \<Rightarrow> bytes list \<Rightarrow> bytes list" where
  "merkle_inputs P level =
     (if length level > 1 then pair_inputs (pad_odd level) @ merkle_inputs P (merkle_level P level)
      else [])"
  by pat_completeness auto
termination
  by (relation "measure (\<lambda>(P, level). length level)") (auto simp: length_merkle_level)

declare merkle_inputs.simps [simp del]

lemma pair_nodes_inputs: "pair_nodes P level = map (sha256_digest P) (pair_inputs level)"
  by (induction level rule: pair_inputs.induct) (auto simp: merkle_node_def)

lemma pair_inputs_inj:
  assumes "length xs = length ys" and "even (length xs)"
    and "\<forall>x \<in> set xs. length x = 32" and "\<forall>y \<in> set ys. length y = 32"
    and "pair_inputs xs = pair_inputs ys"
  shows "xs = ys"
  using assms
proof (induction xs arbitrary: ys rule: pair_inputs.induct)
  case (1 l r xs)
  then obtain l' r' ys' where ys: "ys = l' # r' # ys'"
    by (metis length_Suc_conv)
  with 1 show ?case by (auto simp: MERKLE_NODE_DOMAIN_def)
qed auto

lemma pad_odd_inj: "length xs = length ys \<Longrightarrow> pad_odd xs = pad_odd ys \<Longrightarrow> xs = ys"
  by (auto simp: pad_odd_def split: if_splits)

lemma pad_odd_props:
  "even (length (pad_odd xs))" "xs \<noteq> [] \<Longrightarrow> set (pad_odd xs) = set xs"
  "length xs = length ys \<Longrightarrow> length (pad_odd xs) = length (pad_odd ys)"
  by (auto simp: pad_odd_def)

lemma merkle_loop_binding:
  assumes "hash_ok P" and "length xs = length ys" and "xs \<noteq> []"
    and "\<forall>x \<in> set xs. length x = 32" and "\<forall>y \<in> set ys. length y = 32"
    and "inj_on (sha256_digest P) (set (merkle_inputs P xs) \<union> set (merkle_inputs P ys))"
    and "merkle_loop P xs = merkle_loop P ys"
  shows "xs = ys"
  using assms
proof (induction P xs arbitrary: ys rule: merkle_loop.induct)
  case (1 P xs)
  show ?case
  proof (cases "length xs > 1")
    case False
    with "1.prems" show ?thesis by (simp add: merkle_loop.simps [of P])
  next
    case True
    then have y1: "length ys > 1" "ys \<noteq> []" "xs \<noteq> []" using "1.prems"(2) by auto
    have inp: "set (pair_inputs (pad_odd xs)) \<subseteq> set (merkle_inputs P xs)"
      "set (merkle_inputs P (merkle_level P xs)) \<subseteq> set (merkle_inputs P xs)"
      "set (pair_inputs (pad_odd ys)) \<subseteq> set (merkle_inputs P ys)"
      "set (merkle_inputs P (merkle_level P ys)) \<subseteq> set (merkle_inputs P ys)"
      using merkle_inputs.simps [of P xs] merkle_inputs.simps [of P ys] True y1(1) by simp_all
    have "merkle_level P xs = merkle_level P ys"
    proof (rule "1.IH" [OF True "1.prems"(1)])
      show "length (merkle_level P xs) = length (merkle_level P ys)"
        using "1.prems"(2) by (simp add: length_merkle_level)
      show "merkle_level P xs \<noteq> []" using True length_merkle_level [of P xs] by fastforce
      show "\<forall>x \<in> set (merkle_level P xs). length x = 32" "\<forall>x \<in> set (merkle_level P ys). length x = 32"
        unfolding merkle_level_def using merkle_level_lengths [OF "1.prems"(1)] by blast+
      show "inj_on (sha256_digest P)
          (set (merkle_inputs P (merkle_level P xs)) \<union> set (merkle_inputs P (merkle_level P ys)))"
        using "1.prems"(6) inp by (auto intro: inj_on_subset)
      show "merkle_loop P (merkle_level P xs) = merkle_loop P (merkle_level P ys)"
        using "1.prems"(7) True y1(1)
        by (subst (asm) (1 2) merkle_loop.simps) simp
    qed
    then have "map (sha256_digest P) (pair_inputs (pad_odd xs)) = map (sha256_digest P) (pair_inputs (pad_odd ys))"
      by (simp add: merkle_level_def pair_nodes_inputs)
    moreover have "inj_on (sha256_digest P)
        (set (pair_inputs (pad_odd xs)) \<union> set (pair_inputs (pad_odd ys)))"
      using "1.prems"(6) inp by (auto intro: inj_on_subset)
    ultimately have eq: "pair_inputs (pad_odd xs) = pair_inputs (pad_odd ys)"
      by (simp add: inj_on_map_eq_map)
    have "pad_odd xs = pad_odd ys"
      by (rule pair_inputs_inj [OF pad_odd_props(3) [OF "1.prems"(2)] _ _ _ eq])
        (use "1.prems"(4,5) y1(2,3) in \<open>simp_all add: pad_odd_props(1,2)\<close>)
    then show ?thesis by (rule pad_odd_inj [OF "1.prems"(2)])
  qed
qed

lemma merkle_root_loop:
  "xs \<noteq> [] \<Longrightarrow> \<forall>x \<in> set xs. length x = 32 \<Longrightarrow> merkle_root P xs = Inr (hd (merkle_loop P xs))"
  by (auto simp: merkle_root_def list_ex_iff)

text \<open>Appending a copy of an odd last leaf gives the padded first level itself.\<close>

lemma merkle_loop_pad_odd: "length xs > 1 \<Longrightarrow> merkle_loop P (pad_odd xs) = merkle_loop P xs"
proof -
  assume l: "length xs > 1"
  have "pad_odd (pad_odd xs) = pad_odd xs"
    using pad_odd_props(1) [of xs] unfolding pad_odd_def [of "pad_odd xs"] by (simp add: even_iff_mod_2_eq_zero)
  moreover have "length (pad_odd xs) > 1" using l by (auto simp: pad_odd_def)
  ultimately show ?thesis using l
    by (subst (1 2) merkle_loop.simps) (simp add: merkle_level_def)
qed

subsection \<open>Properties\<close>

text \<open>C40. \<open>merkle_root_binds_leaves\<close>: two lists of 32-byte leaves of the same length with the same
  root are equal, unless the hash has a collision among the node preimages of the two computations.\<close>

theorem merkle_root_binds_leaves:
  assumes "hash_ok P" and "length xs = length ys"
    and "\<forall>x \<in> set xs. length x = 32" and "\<forall>y \<in> set ys. length y = 32"
    and "inj_on (sha256_digest P) (set (merkle_inputs P xs) \<union> set (merkle_inputs P ys))"
    and "merkle_root P xs = merkle_root P ys"
  shows "xs = ys"
proof (cases "xs = []")
  case False
  then have "ys \<noteq> []" using assms(2) by auto
  obtain r q where "merkle_loop P xs = [r]" "merkle_loop P ys = [q]"
    using merkle_loop_result [OF assms(1)] False \<open>ys \<noteq> []\<close> assms(3,4) by meson
  then have "merkle_loop P xs = merkle_loop P ys"
    using assms(6) merkle_root_loop False \<open>ys \<noteq> []\<close> assms(3,4) by simp
  then show ?thesis using merkle_loop_binding [OF assms(1,2) False] assms(3-5) by blast
qed (use assms(2) in simp)

lemma sample_inputs_distinct:
  "distinct (map (sha256_digest sample_platform)
     (merkle_inputs sample_platform [replicate 32 1, replicate 32 2, replicate 32 3]))"
  by code_simp

lemma merkle_root_binds_leaves_witness:
  "map (replicate 32) [1, 2, 3] = [replicate 32 1, replicate 32 2, replicate 32 (3 :: byte)]"
  by (rule merkle_root_binds_leaves [where P = sample_platform])
     (use sample_inputs_distinct in \<open>simp_all add: distinct_map\<close>)

text \<open>\<open>merkle_root_odd_duplicate\<close>: the duplication of an odd last node is not bound: for an odd
  number of leaves, at least three, the list with its last leaf repeated has the same root. (The
  chain excludes such blocks elsewhere: a transaction cannot be confirmed twice.)\<close>

theorem merkle_root_odd_duplicate:
  assumes "odd (length xs)" and "length xs > 1" and "\<forall>x \<in> set xs. length x = 32"
  shows "merkle_root P (xs @ [last xs]) = merkle_root P xs"
proof -
  have "pad_odd xs = xs @ [last xs]" using assms(1) by (simp add: pad_odd_def odd_iff_mod_2_eq_one)
  then have "merkle_loop P (xs @ [last xs]) = merkle_loop P xs"
    using merkle_loop_pad_odd [OF assms(2), of P] by simp
  moreover have "\<forall>x \<in> set (xs @ [last xs]). length x = 32" using assms(2,3) by (cases xs) auto
  ultimately show ?thesis using merkle_root_loop [of xs P] merkle_root_loop [of "xs @ [last xs]" P] assms(2,3)
    by fastforce
qed

lemma merkle_root_odd_duplicate_witness:
  "merkle_root sample_platform ([replicate 32 1, replicate 32 2, replicate 32 3] @ [last [replicate 32 1, replicate 32 2, replicate 32 3]])
     = merkle_root sample_platform [replicate 32 1, replicate 32 2, replicate 32 3]"
  by (rule merkle_root_odd_duplicate) simp_all

end
