(* ===== verification/Account_State.thy ===== *)
theory Account_State
  imports Transaction Merkle
begin

text \<open>
  \<open>account.py\<close> and \<open>state.py\<close>: accounts and the state container with its atomic transitions. A
  method that changes the state returns its result with the new state. Lemmas: the invariant
  \<open>state_ok\<close>; what one step of the batch loop does (\<open>apply_step_spec\<close>), stated against the abstract
  ledger of balances and nonces; the batch by the loop contracts of the prelude; and when a
  transaction is accepted.
\<close>

subsection \<open>Accounts\<close>

record account =
  acc_balance :: int
  acc_nonce :: int

definition new_account :: "int \<Rightarrow> int \<Rightarrow> account res" where
  "new_account balance nonce =
     (if \<not> (0 \<le> balance \<and> balance \<le> U64_MAX) then
        raise AccountError ''account balance must be an unsigned 64-bit integer''
      else if \<not> (0 \<le> nonce \<and> nonce \<le> U64_MAX) then
        raise AccountError ''account nonce must be an unsigned 64-bit integer''
      else Inr \<lparr>acc_balance = balance, acc_nonce = nonce\<rparr>)"

definition empty_account :: account where
  "empty_account = \<lparr>acc_balance = 0, acc_nonce = 0\<rparr>"

definition account_ok :: "account \<Rightarrow> bool" where
  "account_ok x \<longleftrightarrow> 0 \<le> acc_balance x \<and> acc_balance x \<le> U64_MAX \<and> 0 \<le> acc_nonce x \<and> acc_nonce x \<le> U64_MAX"

lemma new_account_iff:
  "new_account b n = Inr x \<longleftrightarrow> x = \<lparr>acc_balance = b, acc_nonce = n\<rparr> \<and> account_ok x"
  by (auto simp: new_account_def account_ok_def)

lemma empty_account_ok [simp]: "account_ok empty_account"
  by (simp add: account_ok_def empty_account_def U64_MAX_def)

subsection \<open>The state container\<close>

definition TXID_LENGTH :: nat where "TXID_LENGTH = 32"
definition STATE_LEAF_DOMAIN :: bytes where
  "STATE_LEAF_DOMAIN = byte_literal ''OURCOIN:STATE:ACCOUNT:V1''"

lemma TXID_LENGTH_32 [simp]: "TXID_LENGTH = 32"
  by (simp add: TXID_LENGTH_def)

record account_state =
  st_network :: network_config
  st_accounts :: "(pystr, account) dict"
  st_txids :: "bytes set"

record state_snapshot =
  snap_accounts :: "(pystr \<times> account) list"
  snap_txids :: "bytes set"

definition validate_initial_state :: "platform \<Rightarrow> account_state \<Rightarrow> unit res" where
  "validate_initial_state P s =
     bindE (mapE (\<lambda>(a, x). rethrow (\<lambda>c. c = AddressError)
              (\<lambda>_. Exn StateError ''state contains an invalid network address'')
              (decode_address P a (st_network s))) (st_accounts s)) (\<lambda>_.
     if \<exists>i \<in> st_txids s. length i \<noteq> TXID_LENGTH then
       raise StateError ''confirmed transaction IDs must be 32 bytes''
     else Inr ())"

definition new_account_state ::
  "platform \<Rightarrow> (pystr, account) dict \<Rightarrow> bytes set \<Rightarrow> network_config \<Rightarrow> account_state res" where
  "new_account_state P accounts txids network =
     (let s = \<lparr>st_network = network, st_accounts = accounts, st_txids = txids\<rparr>
      in bindE (validate_initial_state P s) (\<lambda>_. Inr s))"

definition snapshot :: "account_state \<Rightarrow> state_snapshot" where
  "snapshot s = \<lparr>snap_accounts = sort_key fst (st_accounts s), snap_txids = st_txids s\<rparr>"

definition copy_state :: "platform \<Rightarrow> account_state \<Rightarrow> account_state res" where
  "copy_state P s = new_account_state P (st_accounts s) (st_txids s) (st_network s)"

definition state_from_snapshot :: "platform \<Rightarrow> state_snapshot \<Rightarrow> network_config \<Rightarrow> account_state res" where
  "state_from_snapshot P snap network =
     new_account_state P (dict_of_pairs (snap_accounts snap)) (snap_txids snap) network"

definition state_leaf :: "platform \<Rightarrow> pystr \<times> account \<Rightarrow> bytes res" where
  "state_leaf P = (\<lambda>(address, x).
     bindE (join_fields [encode_bytes STATE_LEAF_DOMAIN, encode_text P address,
       encode_u64 (acc_balance x), encode_u64 (acc_nonce x)]) (\<lambda>encoded.
     Inr (sha256_digest P encoded)))"

definition state_root :: "platform \<Rightarrow> account_state \<Rightarrow> bytes res" where
  "state_root P s = bindE (mapE (state_leaf P) (sort_key fst (st_accounts s))) (merkle_root P)"

definition account_of :: "account_state \<Rightarrow> pystr \<Rightarrow> account" where
  "account_of s a = (case map_of (st_accounts s) a of None \<Rightarrow> empty_account | Some x \<Rightarrow> x)"

definition get_account :: "platform \<Rightarrow> pystr \<Rightarrow> account_state \<Rightarrow> account res" where
  "get_account P a s =
     bindE (rethrow (\<lambda>c. c = AddressError)
              (\<lambda>_. Exn StateError ''account lookup uses an invalid network address'')
              (decode_address P a (st_network s))) (\<lambda>_. Inr (account_of s a))"

definition contains_transaction :: "bytes \<Rightarrow> account_state \<Rightarrow> bool" where
  "contains_transaction i s \<longleftrightarrow> i \<in> st_txids s"

definition set_account :: "pystr \<Rightarrow> account \<Rightarrow> account_state \<Rightarrow> account_state" where
  "set_account a x s = s\<lparr>st_accounts := AList.update a x (st_accounts s)\<rparr>"

definition credit_reward :: "platform \<Rightarrow> pystr \<Rightarrow> int \<Rightarrow> account_state \<Rightarrow> unit res \<times> account_state" where
  "credit_reward P a amount s =
     (case rethrow (\<lambda>c. c = AddressError) (\<lambda>_. Exn StateError ''reward uses an invalid network address'')
             (decode_address P a (st_network s)) of
        Inl e \<Rightarrow> (Inl e, s)
      | Inr _ \<Rightarrow>
        if \<not> (0 \<le> amount \<and> amount \<le> U64_MAX) then
          (raise StateError ''reward amount must be an unsigned 64-bit integer'', s)
        else if amount = 0 then (Inr (), s)
        else
          let account = account_of s a; balance = acc_balance account + amount in
          if balance > U64_MAX then (raise StateError ''reward would overflow the account balance'', s)
          else (case new_account balance (acc_nonce account) of
                  Inl e \<Rightarrow> (Inl e, s)
                | Inr x \<Rightarrow> (Inr (), set_account a x s)))"

definition validate :: "platform \<Rightarrow> transaction \<Rightarrow> int \<Rightarrow> account_state \<Rightarrow> unit res" where
  "validate P t current_height s =
     bindE (rethrow (\<lambda>c. c = TransactionError) (Exn StateError)
              (validate_transaction P t current_height (st_network s))) (\<lambda>_.
     bindE (txid P t) (\<lambda>i.
     if i \<in> st_txids s then raise StateError ''transaction has already been confirmed''
     else
       let sender = account_of s (tx_sender_address t) in
       if tx_nonce t \<noteq> acc_nonce sender then
         raise StateError ''transaction nonce is not the account's exact next nonce''
       else if acc_nonce sender = U64_MAX then raise StateError ''account nonce is exhausted''
       else if acc_balance sender < tx_amount_atoms t + tx_fee_atoms t then
         raise StateError ''account balance does not cover amount plus fee''
       else Inr ()))"

definition confirm :: "platform \<Rightarrow> transaction \<Rightarrow> account_state \<Rightarrow> int res \<times> account_state" where
  "confirm P t s = (case txid P t of
     Inl e \<Rightarrow> (Inl e, s)
   | Inr i \<Rightarrow> (Inr (tx_fee_atoms t), s\<lparr>st_txids := insert i (st_txids s)\<rparr>))"

definition apply_validated :: "platform \<Rightarrow> transaction \<Rightarrow> account_state \<Rightarrow> int res \<times> account_state" where
  "apply_validated P t s =
     (let sender = account_of s (tx_sender_address t);
          recipient = account_of s (tx_recipient_address t)
      in
      if tx_sender_address t = tx_recipient_address t then
        (case new_account (acc_balance sender - tx_fee_atoms t) (acc_nonce sender + 1) of
           Inl e \<Rightarrow> (Inl e, s)
         | Inr x \<Rightarrow> confirm P t (set_account (tx_sender_address t) x s))
      else
        (case new_account (acc_balance sender - tx_amount_atoms t - tx_fee_atoms t)
                (acc_nonce sender + 1) of
           Inl e \<Rightarrow> (Inl e, s)
         | Inr x \<Rightarrow>
           let s = set_account (tx_sender_address t) x s;
               recipient_balance = acc_balance recipient + tx_amount_atoms t
           in
           if recipient_balance > U64_MAX then
             (raise StateError ''recipient balance exceeds uint64'', s)
           else (case new_account recipient_balance (acc_nonce recipient) of
                   Inl e \<Rightarrow> (Inl e, s)
                 | Inr y \<Rightarrow> confirm P t (set_account (tx_recipient_address t) y s))))"

text \<open>The body of the loop over the batch; its state is the fee total and the working copy, which is
  local: an error drops it.\<close>

definition apply_step ::
  "platform \<Rightarrow> int \<Rightarrow> transaction \<Rightarrow> int \<times> account_state \<Rightarrow> (int \<times> account_state) res" where
  "apply_step P current_height t = (\<lambda>(total_fees, working).
     bindE (validate P t current_height working) (\<lambda>_.
     case apply_validated P t working of
       (Inl e, _) \<Rightarrow> Inl e
     | (Inr fee, working) \<Rightarrow>
         if total_fees + fee > U64_MAX then raise StateError ''total transaction fees exceed uint64''
         else Inr (total_fees + fee, working)))"

definition apply_transactions ::
  "platform \<Rightarrow> transaction list \<Rightarrow> int \<Rightarrow> account_state \<Rightarrow> int res \<times> account_state" where
  "apply_transactions P transactions current_height s =
     (if \<not> (0 \<le> current_height \<and> current_height \<le> U64_MAX) then
        (raise StateError ''current height must be an unsigned 64-bit integer'', s)
      else case bindE (new_account_state P (st_accounts s) (st_txids s) (st_network s)) (\<lambda>working.
                  foldE (apply_step P current_height) transactions (0, working)) of
             Inl e \<Rightarrow> (Inl e, s)
           | Inr (total_fees, working) \<Rightarrow>
               (Inr total_fees,
                s\<lparr>st_accounts := st_accounts working, st_txids := st_txids working\<rparr>))"

definition apply_transaction ::
  "platform \<Rightarrow> transaction \<Rightarrow> int \<Rightarrow> account_state \<Rightarrow> int res \<times> account_state" where
  "apply_transaction P t current_height s = apply_transactions P [t] current_height s"

subsection \<open>The invariant and the abstract ledger\<close>

definition state_ok :: "platform \<Rightarrow> account_state \<Rightarrow> bool" where
  "state_ok P s \<longleftrightarrow> dict_ok (st_accounts s)
     \<and> (\<forall>(a, x) \<in> set (st_accounts s). is_valid_address P a (st_network s) \<and> account_ok x)
     \<and> (\<forall>i \<in> st_txids s. length i = 32)"

definition total_balance :: "account_state \<Rightarrow> int" where
  "total_balance s = dict_sum acc_balance (st_accounts s)"

definition keys :: "account_state \<Rightarrow> pystr set" where
  "keys s = fst ` set (st_accounts s)"

text \<open>The ledger a state stands for: the balance and the next nonce of every address.\<close>

type_synonym ledger = "pystr \<Rightarrow> int \<times> int"

definition ledger_of :: "account_state \<Rightarrow> ledger" where
  "ledger_of s a = (acc_balance (account_of s a), acc_nonce (account_of s a))"

definition ledger_transfer :: "transaction \<Rightarrow> ledger \<Rightarrow> ledger" where
  "ledger_transfer t L a =
     (fst (L a) - (if a = tx_sender_address t then tx_amount_atoms t + tx_fee_atoms t else 0)
                + (if a = tx_recipient_address t then tx_amount_atoms t else 0),
      snd (L a) + (if a = tx_sender_address t then 1 else 0))"

text \<open>When the ledger accepts a transaction.\<close>

definition transfer_allowed :: "transaction \<Rightarrow> ledger \<Rightarrow> bool" where
  "transfer_allowed t L \<longleftrightarrow>
     tx_nonce t = snd (L (tx_sender_address t)) \<and> snd (L (tx_sender_address t)) < U64_MAX
   \<and> tx_amount_atoms t + tx_fee_atoms t \<le> fst (L (tx_sender_address t))
   \<and> fst (ledger_transfer t L (tx_recipient_address t)) \<le> U64_MAX"

lemma state_okD:
  assumes "state_ok P s"
  shows "dict_ok (st_accounts s)" and "account_ok (account_of s a)"
    and "map_of (st_accounts s) a = Some x \<Longrightarrow> is_valid_address P a (st_network s) \<and> account_ok x"
    and "i \<in> st_txids s \<Longrightarrow> length i = 32"
proof -
  show 1: "dict_ok (st_accounts s)" using assms by (simp add: state_ok_def)
  show 2: "map_of (st_accounts s) a = Some x \<Longrightarrow> is_valid_address P a (st_network s) \<and> account_ok x" for x
    using assms 1 by (auto simp: state_ok_def dict_map_of_iff)
  show "account_ok (account_of s a)"
    using 2 by (auto simp: account_of_def split: option.splits)
  show "i \<in> st_txids s \<Longrightarrow> length i = 32" using assms by (simp add: state_ok_def)
qed

lemma state_ok_set_account:
  assumes "state_ok P s" and "is_valid_address P a (st_network s)" and "account_ok x"
  shows "state_ok P (set_account a x s)"
  using assms by (auto simp: state_ok_def set_account_def set_dict_update)

lemma set_account_simps [simp]:
  "st_network (set_account a x s) = st_network s" "st_txids (set_account a x s) = st_txids s"
  "account_of (set_account a x s) b = (if b = a then x else account_of s b)"
  by (auto simp: set_account_def account_of_def)

lemma keys_set_account [simp]: "keys (set_account a x s) = insert a (keys s)"
  by (simp add: keys_def set_account_def dom_update flip: dom_map_of_conv_image_fst)

lemma keys_txids [simp]: "keys (s\<lparr>st_txids := X\<rparr>) = keys s"
  by (simp add: keys_def)

lemma total_balance_set_account:
  "state_ok P s \<Longrightarrow>
     total_balance (set_account a x s) = total_balance s + acc_balance x - acc_balance (account_of s a)"
  by (auto simp: total_balance_def set_account_def account_of_def empty_account_def dict_sum_update
      state_ok_def split: option.splits)

subsection \<open>Construction and copies\<close>

lemma new_account_state_iff:
  "new_account_state P accounts txids network = Inr s \<longleftrightarrow>
     s = \<lparr>st_network = network, st_accounts = accounts, st_txids = txids\<rparr>
   \<and> (\<forall>(a, x) \<in> set accounts. is_valid_address P a network) \<and> (\<forall>i \<in> txids. length i = 32)"
proof -
  have "(\<exists>hs. mapE (\<lambda>(a, x). rethrow p h (decode_address P a network)) accounts = Inr hs) \<longleftrightarrow>
      (\<forall>(a, x) \<in> set accounts. is_valid_address P a network)" for p h
    by (induction accounts) (auto simp: res_simps is_valid_address_iff)
  then show ?thesis
    by (auto simp: new_account_state_def validate_initial_state_def Let_def bindE_eq_Inr)
qed

lemma copy_state_ok: "state_ok P s \<Longrightarrow> copy_state P s = Inr s"
  by (cases s) (auto simp: copy_state_def new_account_state_iff state_ok_def)

lemma empty_state: "new_account_state P [] {} network =
   Inr \<lparr>st_network = network, st_accounts = [], st_txids = {}\<rparr>"
  by (simp add: new_account_state_iff)

lemma empty_state_ok [simp]: "state_ok P \<lparr>st_network = network, st_accounts = [], st_txids = {}\<rparr>"
  by (simp add: state_ok_def)

lemma snapshot_round_trip:
  assumes "state_ok P s"
  shows "state_from_snapshot P (snapshot s) (st_network s) =
     Inr (s\<lparr>st_accounts := sort_key fst (st_accounts s)\<rparr>)"
proof -
  have "mset (map fst (sort_key fst (st_accounts s))) = mset (map fst (st_accounts s))"
    by (metis mset_map mset_sort)
  then have "distinct (map fst (sort_key fst (st_accounts s)))"
    using assms mset_eq_imp_distinct_iff unfolding state_ok_def dict_ok_def by blast
  then show ?thesis
    using assms by (cases s)
      (auto simp: state_from_snapshot_def snapshot_def dict_of_pairs_distinct new_account_state_iff
        state_ok_def)
qed

subsection \<open>One transaction\<close>

lemma validate_iff:
  "validate P t h s = Inr u \<longleftrightarrow>
     validate_transaction P t h (st_network s) = Inr ()
   \<and> (\<exists>i. txid P t = Inr i \<and> i \<notin> st_txids s)
   \<and> tx_nonce t = acc_nonce (account_of s (tx_sender_address t))
   \<and> acc_nonce (account_of s (tx_sender_address t)) \<noteq> U64_MAX
   \<and> tx_amount_atoms t + tx_fee_atoms t \<le> acc_balance (account_of s (tx_sender_address t))"
  by (auto simp: validate_def res_simps Let_def)

lemma credit_reward_iff:
  assumes "state_ok P s"
  shows "credit_reward P a amount s = (Inr u, s') \<longleftrightarrow>
     is_valid_address P a (st_network s) \<and> 0 \<le> amount
   \<and> acc_balance (account_of s a) + amount \<le> U64_MAX
   \<and> s' = (if amount = 0 then s else set_account a
        \<lparr>acc_balance = acc_balance (account_of s a) + amount, acc_nonce = acc_nonce (account_of s a)\<rparr> s)"
  using state_okD(2) [OF assms, of a]
  by (auto simp: credit_reward_def is_valid_address_iff Let_def new_account_def account_ok_def
      rethrow_def split: sum.splits if_splits)

lemma credit_reward_spec:
  assumes "state_ok P s" and "credit_reward P a amount s = (Inr u, s')"
  shows "state_ok P s'" and "total_balance s' = total_balance s + amount"
    and "st_network s' = st_network s" and "st_txids s' = st_txids s"
    and "ledger_of s' = (ledger_of s)(a := (fst (ledger_of s a) + amount, snd (ledger_of s a)))"
proof -
  have c: "is_valid_address P a (st_network s)" "0 \<le> amount"
      "acc_balance (account_of s a) + amount \<le> U64_MAX"
    and s': "s' = (if amount = 0 then s else set_account a
        \<lparr>acc_balance = acc_balance (account_of s a) + amount, acc_nonce = acc_nonce (account_of s a)\<rparr> s)"
    using assms credit_reward_iff by blast+
  show "state_ok P s'"
    using assms(1) c state_okD(2) [OF assms(1), of a]
    by (auto simp: s' account_ok_def intro!: state_ok_set_account)
  show "total_balance s' = total_balance s + amount"
    using total_balance_set_account [OF assms(1)] by (simp add: s')
  show "st_network s' = st_network s" "st_txids s' = st_txids s"
    "ledger_of s' = (ledger_of s)(a := (fst (ledger_of s a) + amount, snd (ledger_of s a)))"
    by (auto simp: s' ledger_of_def fun_eq_iff)
qed

text \<open>What \<open>apply_validated\<close> does after \<open>validate\<close>: it fails exactly when the recipient would overflow.\<close>

definition transferred :: "platform \<Rightarrow> transaction \<Rightarrow> bytes \<Rightarrow> account_state \<Rightarrow> account_state \<Rightarrow> bool" where
  "transferred P t i s s' \<longleftrightarrow> state_ok P s' \<and> st_network s' = st_network s
     \<and> ledger_of s' = ledger_transfer t (ledger_of s) \<and> st_txids s' = insert i (st_txids s)
     \<and> total_balance s' = total_balance s - tx_fee_atoms t
     \<and> keys s' = insert (tx_sender_address t) (insert (tx_recipient_address t) (keys s))"

lemma confirm_ok:
  "txid P t = Inr i \<Longrightarrow> confirm P t s = (Inr (tx_fee_atoms t), s\<lparr>st_txids := insert i (st_txids s)\<rparr>)"
  by (simp add: confirm_def)

lemma state_ok_confirmed:
  "state_ok P s \<Longrightarrow> length i = 32 \<Longrightarrow> state_ok P (s\<lparr>st_txids := insert i (st_txids s)\<rparr>)"
  by (auto simp: state_ok_def)

lemma total_balance_txids [simp]: "total_balance (s\<lparr>st_txids := X\<rparr>) = total_balance s"
  by (simp add: total_balance_def)

lemma account_of_txids [simp]: "account_of (s\<lparr>st_txids := X\<rparr>) a = account_of s a"
  by (simp add: account_of_def)

lemma apply_validated_self:
  assumes ok: "state_ok P s" and v: "validate P t h s = Inr u" and i: "txid P t = Inr i" "length i = 32"
    and self: "tx_sender_address t = tx_recipient_address t"
  shows "\<exists>s'. apply_validated P t s = (Inr (tx_fee_atoms t), s') \<and> transferred P t i s s'"
proof -
  let ?a = "tx_sender_address t"
  let ?x = "\<lparr>acc_balance = acc_balance (account_of s ?a) - tx_fee_atoms t,
     acc_nonce = acc_nonce (account_of s ?a) + 1\<rparr>"
  have x: "account_ok ?x" and a: "is_valid_address P ?a (st_network s)"
    using v state_okD(2) [OF ok, of ?a]
    by (auto simp: validate_iff validate_transaction_iff transaction_fields_ok_def
        transaction_addresses_ok_def account_ok_def)
  then have "apply_validated P t s = (Inr (tx_fee_atoms t), set_account ?a ?x s\<lparr>st_txids := insert i (st_txids s)\<rparr>)"
    using self i new_account_iff [of "acc_balance ?x" "acc_nonce ?x" ?x]
    by (simp add: apply_validated_def confirm_ok Let_def)
  moreover have "transferred P t i s (set_account ?a ?x s\<lparr>st_txids := insert i (st_txids s)\<rparr>)"
    using state_ok_confirmed [OF state_ok_set_account [OF ok a x] i(2)] self
      total_balance_set_account [OF ok, of ?a ?x]
    by (auto simp: transferred_def fun_eq_iff ledger_of_def ledger_transfer_def)
  ultimately show ?thesis by blast
qed

lemma apply_validated_other:
  assumes ok: "state_ok P s" and v: "validate P t h s = Inr u" and i: "txid P t = Inr i" "length i = 32"
    and other: "tx_sender_address t \<noteq> tx_recipient_address t"
    and fits: "acc_balance (account_of s (tx_recipient_address t)) + tx_amount_atoms t \<le> U64_MAX"
  shows "\<exists>s'. apply_validated P t s = (Inr (tx_fee_atoms t), s') \<and> transferred P t i s s'"
proof -
  let ?a = "tx_sender_address t" and ?r = "tx_recipient_address t"
  let ?x = "\<lparr>acc_balance = acc_balance (account_of s ?a) - tx_amount_atoms t - tx_fee_atoms t,
     acc_nonce = acc_nonce (account_of s ?a) + 1\<rparr>"
  let ?y = "\<lparr>acc_balance = acc_balance (account_of s ?r) + tx_amount_atoms t,
     acc_nonce = acc_nonce (account_of s ?r)\<rparr>"
  have x: "account_ok ?x" "account_ok ?y" and a: "is_valid_address P ?a (st_network s)"
      "is_valid_address P ?r (st_network s)"
    using v fits state_okD(2) [OF ok, of ?a] state_okD(2) [OF ok, of ?r]
    by (auto simp: validate_iff validate_transaction_iff transaction_fields_ok_def
        transaction_addresses_ok_def account_ok_def)
  let ?s1 = "set_account ?a ?x s"
  let ?s2 = "set_account ?r ?y ?s1"
  have ok1: "state_ok P ?s1" using a x by (intro state_ok_set_account [OF ok]) auto
  have ok2: "state_ok P ?s2" using a x by (intro state_ok_set_account [OF ok1]) auto
  have "apply_validated P t s = (Inr (tx_fee_atoms t), ?s2\<lparr>st_txids := insert i (st_txids s)\<rparr>)"
    using other i fits x new_account_iff [of "acc_balance ?x" "acc_nonce ?x" ?x]
      new_account_iff [of "acc_balance ?y" "acc_nonce ?y" ?y]
    by (simp add: apply_validated_def confirm_ok Let_def)
  moreover have "transferred P t i s (?s2\<lparr>st_txids := insert i (st_txids s)\<rparr>)"
    using state_ok_confirmed [OF ok2 i(2)] other
      total_balance_set_account [OF ok, of ?a ?x] total_balance_set_account [OF ok1, of ?r ?y]
    by (auto simp: transferred_def fun_eq_iff ledger_of_def ledger_transfer_def)
  ultimately show ?thesis by blast
qed

lemma apply_validated_overflow:
  assumes ok: "state_ok P s" and v: "validate P t h s = Inr u"
    and other: "tx_sender_address t \<noteq> tx_recipient_address t"
    and "\<not> acc_balance (account_of s (tx_recipient_address t)) + tx_amount_atoms t \<le> U64_MAX"
  shows "\<exists>s'. apply_validated P t s = (raise StateError ''recipient balance exceeds uint64'', s')"
proof -
  let ?a = "tx_sender_address t"
  let ?x = "\<lparr>acc_balance = acc_balance (account_of s ?a) - tx_amount_atoms t - tx_fee_atoms t,
     acc_nonce = acc_nonce (account_of s ?a) + 1\<rparr>"
  have "account_ok ?x"
    using v state_okD(2) [OF ok, of ?a]
    by (auto simp: validate_iff validate_transaction_iff transaction_fields_ok_def account_ok_def)
  then show ?thesis
    using other assms(4) new_account_iff [of "acc_balance ?x" "acc_nonce ?x" ?x]
    by (simp add: apply_validated_def Let_def)
qed

text \<open>The specification of the loop body: it succeeds exactly on a valid, unconfirmed transaction that
  the ledger allows and whose fee still fits the total, and then transfers.\<close>

definition step_allowed :: "platform \<Rightarrow> int \<Rightarrow> transaction \<Rightarrow> int \<times> account_state \<Rightarrow> bool" where
  "step_allowed P h t fw \<longleftrightarrow> validate_transaction P t h (st_network (snd fw)) = Inr ()
     \<and> (\<exists>i. txid P t = Inr i \<and> i \<notin> st_txids (snd fw))
     \<and> transfer_allowed t (ledger_of (snd fw))
     \<and> fst fw + tx_fee_atoms t \<le> U64_MAX"

lemma transfer_allowed_iff:
  assumes "state_ok P s"
  shows "transfer_allowed t (ledger_of s) \<longleftrightarrow>
     tx_nonce t = acc_nonce (account_of s (tx_sender_address t))
   \<and> acc_nonce (account_of s (tx_sender_address t)) \<noteq> U64_MAX
   \<and> tx_amount_atoms t + tx_fee_atoms t \<le> acc_balance (account_of s (tx_sender_address t))
   \<and> (tx_sender_address t = tx_recipient_address t
      \<and> acc_balance (account_of s (tx_sender_address t)) - tx_fee_atoms t \<le> U64_MAX
    \<or> tx_sender_address t \<noteq> tx_recipient_address t
      \<and> acc_balance (account_of s (tx_recipient_address t)) + tx_amount_atoms t \<le> U64_MAX)"
  using state_okD(2) [OF assms, of "tx_sender_address t"]
  by (auto simp: transfer_allowed_def ledger_of_def ledger_transfer_def account_ok_def)

lemma apply_step_allowed:
  assumes P: "hash_ok P" and ok: "state_ok P s" and a: "step_allowed P h t (f, s)"
  shows "\<exists>i s'. apply_step P h t (f, s) = Inr (f + tx_fee_atoms t, s') \<and> transferred P t i s s'
     \<and> txid P t = Inr i \<and> i \<notin> st_txids s"
proof -
  obtain i where i: "txid P t = Inr i" "i \<notin> st_txids s" and v: "validate P t h s = Inr ()"
    using a ok by (auto simp: step_allowed_def validate_iff transfer_allowed_iff)
  have "length i = 32" using validated_txid [OF P] a i by (fastforce simp: step_allowed_def)
  then obtain s' where "apply_validated P t s = (Inr (tx_fee_atoms t), s')" "transferred P t i s s'"
    using a ok apply_validated_self [OF ok v i(1)] apply_validated_other [OF ok v i(1)]
    by (auto simp: step_allowed_def transfer_allowed_iff)
  then show ?thesis using v i a by (auto simp: apply_step_def step_allowed_def)
qed

lemma apply_step_refused:
  assumes P: "hash_ok P" and ok: "state_ok P s" and a: "\<not> step_allowed P h t (f, s)"
  shows "\<exists>e. apply_step P h t (f, s) = Inl e"
proof (cases "validate P t h s")
  case (Inr u)
  then obtain i where i: "txid P t = Inr i" "i \<notin> st_txids s" "length i = 32"
    and vt: "validate_transaction P t h (st_network s) = Inr ()"
    using validated_txid [OF P] by (fastforce simp: validate_iff)
  let ?fits = "tx_sender_address t = tx_recipient_address t
      \<or> acc_balance (account_of s (tx_recipient_address t)) + tx_amount_atoms t \<le> U64_MAX"
  show ?thesis
  proof (cases ?fits)
    case True
    then have "transfer_allowed t (ledger_of s)"
      using Inr vt state_okD(2) [OF ok, of "tx_sender_address t"]
      by (auto simp: transfer_allowed_iff [OF ok] validate_iff validate_transaction_iff
          transaction_fields_ok_def account_ok_def)
    then have "f + tx_fee_atoms t > U64_MAX" using a vt i by (auto simp: step_allowed_def)
    moreover obtain s' where "apply_validated P t s = (Inr (tx_fee_atoms t), s')"
      using True apply_validated_self [OF ok Inr i(1,3)] apply_validated_other [OF ok Inr i(1,3)] by auto
    ultimately show ?thesis using Inr by (simp add: apply_step_def)
  next
    case False
    then obtain s' where "apply_validated P t s = (raise StateError ''recipient balance exceeds uint64'', s')"
      using apply_validated_overflow [OF ok Inr] by auto
    then show ?thesis using Inr by (simp add: apply_step_def)
  qed
qed (simp add: apply_step_def)

lemma apply_step_iff:
  assumes "hash_ok P" and "state_ok P s"
  shows "apply_step P h t (f, s) = Inr fw \<longleftrightarrow> step_allowed P h t (f, s) \<and> fst fw = f + tx_fee_atoms t
     \<and> (\<exists>i. transferred P t i s (snd fw) \<and> txid P t = Inr i \<and> i \<notin> st_txids s)
     \<and> apply_step P h t (f, s) = Inr fw"
  using apply_step_allowed [OF assms, of h t f] apply_step_refused [OF assms, of h t f]
  by (cases "step_allowed P h t (f, s)") auto

text \<open>The batch, by the loop contract: the invariant is kept and every step is a step of the ledger
  with its fee total and its set of confirmed identifiers.\<close>

definition batch_inv :: "platform \<Rightarrow> network_config \<Rightarrow> int \<times> account_state \<Rightarrow> bool" where
  "batch_inv P network fw \<longleftrightarrow> hash_ok P \<and> state_ok P (snd fw) \<and> st_network (snd fw) = network"

type_synonym batch_view = "int \<times> ledger \<times> int \<times> bytes res set"

definition batch_view :: "int \<times> account_state \<Rightarrow> batch_view" where
  "batch_view fw = (fst fw, ledger_of (snd fw), total_balance (snd fw), Inr ` st_txids (snd fw))"

definition view_step :: "platform \<Rightarrow> transaction \<Rightarrow> batch_view \<Rightarrow> batch_view" where
  "view_step P t = (\<lambda>(f, L, b, X). (f + tx_fee_atoms t, ledger_transfer t L, b - tx_fee_atoms t,
     insert (txid P t) X))"

interpretation batch: simulating_loop "apply_step P h" "batch_inv P network" "\<lambda>_. True"
  batch_view "view_step P" for P h network
proof unfold_locales
  fix t fw fw'
  assume i: "batch_inv P network fw" and s: "apply_step P h t fw = Inr fw'"
  obtain f w where fw: "fw = (f, w)" by fastforce
  then obtain j where "transferred P t j w (snd fw')" "txid P t = Inr j" "fst fw' = f + tx_fee_atoms t"
    using i s apply_step_iff [of P w h t f fw'] by (auto simp: batch_inv_def)
  then show "batch_inv P network fw'" "batch_view fw' = view_step P t (batch_view fw)"
    using i fw by (auto simp: batch_inv_def transferred_def batch_view_def view_step_def)
qed

subsection \<open>Batches\<close>

lemma foldE_apply_step:
  assumes "hash_ok P" and "state_ok P s" and "foldE (apply_step P h) ts (0, s) = Inr (f, s')"
  shows "state_ok P s'" and "st_network s' = st_network s"
    and "batch_view (f, s') = fold (view_step P) ts (batch_view (0, s))"
proof -
  have i: "batch_inv P (st_network s) (0, s)" using assms by (simp add: batch_inv_def)
  then have "batch_inv P (st_network s) (f, s')"
    using batch.loop_inv [OF _ i assms(3)] by (simp add: list_all_iff)
  then show "state_ok P s'" "st_network s' = st_network s" by (simp_all add: batch_inv_def)
  show "batch_view (f, s') = fold (view_step P) ts (batch_view (0, s))"
    using batch.loop_sim [OF _ i assms(3)] by (simp add: list_all_iff)
qed

lemma apply_transactions_iff:
  assumes "hash_ok P" and "state_ok P s"
  shows "apply_transactions P ts h s = (Inr f, s') \<longleftrightarrow>
     0 \<le> h \<and> h \<le> U64_MAX \<and> foldE (apply_step P h) ts (0, s) = Inr (f, s')"
proof -
  have w: "new_account_state P (st_accounts s) (st_txids s) (st_network s) = Inr s"
    using copy_state_ok [OF assms(2)] by (simp add: copy_state_def)
  have "s\<lparr>st_accounts := st_accounts w, st_txids := st_txids w\<rparr> = w"
    if "foldE (apply_step P h) ts (0, s) = Inr (g, w)" for g w
    using foldE_apply_step(2) [OF assms that] by simp
  then show ?thesis
    by (auto simp: apply_transactions_def w split: sum.splits)
qed

lemma apply_transactions_error: "apply_transactions P ts h s = (Inl e, s') \<Longrightarrow> s' = s"
  by (auto simp: apply_transactions_def split: if_splits sum.splits)

lemma apply_transactions_ok:
  assumes "hash_ok P" and "state_ok P s" and "apply_transactions P ts h s = (r, s')"
  shows "state_ok P s'" and "st_network s' = st_network s"
  using assms apply_transactions_error [of P ts h s _ s'] foldE_apply_step [OF assms(1,2)]
  by (cases r; auto simp: apply_transactions_iff)+

lemma fold_view_step:
  "fold (view_step P) ts (f, L, b, X) =
     (f + sum_list (map tx_fee_atoms ts), fold ledger_transfer ts L,
      b - sum_list (map tx_fee_atoms ts), txid P ` set ts \<union> X)"
  by (induction ts arbitrary: f L b X) (auto simp: view_step_def)

lemma apply_transactions_spec:
  assumes "hash_ok P" and "state_ok P s" and "apply_transactions P ts h s = (Inr f, s')"
  shows "f = sum_list (map tx_fee_atoms ts)" and "ledger_of s' = fold ledger_transfer ts (ledger_of s)"
    and "total_balance s' = total_balance s - f"
    and "Inr ` st_txids s' = txid P ` set ts \<union> Inr ` st_txids s"
proof -
  have "foldE (apply_step P h) ts (0, s) = Inr (f, s')"
    using assms by (simp add: apply_transactions_iff)
  from foldE_apply_step(3) [OF assms(1,2) this]
  show "f = sum_list (map tx_fee_atoms ts)" "ledger_of s' = fold ledger_transfer ts (ledger_of s)"
    "total_balance s' = total_balance s - f" "Inr ` st_txids s' = txid P ` set ts \<union> Inr ` st_txids s"
    by (simp_all add: batch_view_def fold_view_step)
qed

text \<open>Every transaction of a batch met the guards of \<open>validate\<close> in the state it found.\<close>

lemma batch_member_valid:
  assumes "hash_ok P" and "state_ok P s" and "foldE (apply_step P h) ts (g, s) = Inr fw" and "t \<in> set ts"
  shows "validate_transaction P t h (st_network s) = Inr () \<and> (\<exists>i. txid P t = Inr i \<and> i \<notin> st_txids s)"
  using assms
proof (induction ts arbitrary: g s)
  case (Cons u ts)
  then obtain m where m: "apply_step P h u (g, s) = Inr m" "foldE (apply_step P h) ts m = Inr fw"
    by (auto simp: res_simps)
  then obtain i where i: "transferred P u i s (snd m)" "step_allowed P h u (g, s)" 
    using apply_step_iff [OF Cons.prems(1,2), of h u g m] by auto
  show ?case
  proof (cases "t = u")
    case True then show ?thesis using i by (auto simp: step_allowed_def)
  next
    case False
    then show ?thesis
      using Cons.IH [of "snd m" "fst m"] Cons.prems m i by (auto simp: transferred_def)
  qed
qed simp

lemma batch_nonces:
  "snd (fold ledger_transfer ts L a) = snd (L a) + int (length (filter (\<lambda>t. tx_sender_address t = a) ts))"
  by (induction ts arbitrary: L) (auto simp: ledger_transfer_def)

text \<open>The root of a state depends on its entries only, not on the order they were made in.\<close>

lemma state_leaf_total:
  assumes "nfc_ok P" and "network_fits (st_network s)" and "state_ok P s" and "(a, x) \<in> set (st_accounts s)"
  shows "\<exists>l. state_leaf P (a, x) = Inr l"
proof -
  have "is_valid_address P a (st_network s)" "account_ok x"
    using assms by (auto simp: state_ok_def)
  moreover have "\<exists>p. encode_text P a = Inr p"
    using calculation(1) canonical_text_encodes [OF address_canonical [OF assms(1,2)]]
    by (simp add: MAX_ADDRESS_BYTES_def U32_MAX_def)
  ultimately have "\<exists>p. join_fields [encode_bytes STATE_LEAF_DOMAIN, encode_text P a,
       encode_u64 (acc_balance x), encode_u64 (acc_nonce x)] = Inr p"
    by (intro join_fields_total)
       (auto simp: account_ok_def U32_MAX_def STATE_LEAF_DOMAIN_def byte_literal_def encode_u64_total
         intro!: encode_bytes_total)
  then show ?thesis by (auto simp: state_leaf_def)
qed

lemma state_root_total:
  assumes "platform_ok P" and "network_fits (st_network s)" and "state_ok P s"
  obtains r where "state_root P s = Inr r" and "length r = 32"
proof -
  have "\<exists>ls. mapE (state_leaf P) xs = Inr ls \<and> (\<forall>l \<in> set ls. length l = 32)"
    if "set xs \<subseteq> set (st_accounts s)" for xs
    using that
  proof (induction xs)
    case (Cons e xs)
    then obtain l where "state_leaf P e = Inr l"
      using state_leaf_total [of P s "fst e" "snd e"] assms by auto
    moreover have "length l = 32"
      using calculation assms(1) by (auto simp: state_leaf_def res_simps split: prod.splits)
    ultimately show ?case using Cons by auto
  qed simp
  from this [of "sort_key fst (st_accounts s)"] obtain ls
    where ls: "mapE (state_leaf P) (sort_key fst (st_accounts s)) = Inr ls" "\<forall>l \<in> set ls. length l = 32" by auto
  obtain r where "merkle_root P ls = Inr r" "length r = 32"
    using merkle_root_total [OF _ ls(2)] assms(1) platform_okD(1) by blast
  then show thesis using that ls by (simp add: state_root_def)
qed

lemma dict_ok_sort: "dict_ok d \<Longrightarrow> dict_ok (sort_key fst d)"
  using mset_eq_imp_distinct_iff [of "map fst (sort_key fst d)" "map fst d"]
  by (simp add: dict_ok_def)

lemma dict_by_keys: "dict_ok d \<Longrightarrow> map (\<lambda>k. (k, the (map_of d k))) (map fst d) = d"
  by (auto simp: dict_ok_def intro!: map_idI)

lemma sort_dict_unique:
  assumes "dict_ok d" and "dict_ok e" and "map_of d = map_of e"
  shows "sort_key fst d = sort_key fst (e :: ('k :: linorder, 'v) dict)"
proof -
  have s: "set d = set e" using assms by (metis dict_map_of_iff subset_antisym subrelI)
  have "map fst (sort_key fst d) = map fst (sort_key fst e)"
    using dict_ok_sort [OF assms(1)] dict_ok_sort [OF assms(2)] s
    by (intro sorted_distinct_set_unique) (simp_all add: dict_ok_def)
  moreover have "map_of (sort_key fst d) = map_of (sort_key fst e)"
    using dict_map_of_iff [OF dict_ok_sort [OF assms(1)]] dict_map_of_iff [OF dict_ok_sort [OF assms(2)]] s
    by (intro ext) (metis not_Some_eq set_sort)
  ultimately show ?thesis
    using dict_by_keys [OF dict_ok_sort [OF assms(1)]] dict_by_keys [OF dict_ok_sort [OF assms(2)]] by metis
qed

text \<open>No operation leaves an account with balance and nonce zero behind, so the entries of a state, and
  with them its root, are a function of its ledger.\<close>

definition state_normal :: "account_state \<Rightarrow> bool" where
  "state_normal s \<longleftrightarrow> (\<forall>a \<in> keys s. ledger_of s a \<noteq> (0, 0))"

lemma state_normal_transferred:
  assumes "state_ok P s" and "state_normal s" and "step_allowed P h t (f, s)" and "transferred P t i s s'"
  shows "state_normal s'"
  unfolding state_normal_def
proof
  fix a assume a: "a \<in> keys s'"
  have amount: "0 < tx_amount_atoms t" "0 \<le> tx_fee_atoms t"
    using assms(3) by (auto simp: step_allowed_def validate_transaction_iff transaction_fields_ok_def)
  have acc: "0 \<le> fst (ledger_of s b)" "0 \<le> snd (ledger_of s b)" for b
    using state_okD(2) [OF assms(1), of b] by (auto simp: account_ok_def ledger_of_def)
  show "ledger_of s' a \<noteq> (0, 0)"
    using a assms(2,4) amount acc [of a] unfolding transferred_def state_normal_def
    by (auto simp: ledger_transfer_def prod_eq_iff)
qed

lemma state_normal_credit:
  assumes "state_ok P s" and "state_normal s" and "credit_reward P a amount s = (Inr u, s')"
  shows "state_normal s'"
  using assms(2) credit_reward_iff [OF assms(1), of a amount u s'] assms(3) state_okD(2) [OF assms(1), of a]
  by (auto simp: state_normal_def ledger_of_def account_ok_def)

interpretation normal_batch: batch_loop "apply_step P h"
  "\<lambda>fw. batch_inv P network fw \<and> state_normal (snd fw)" "\<lambda>_. True" for P h network
proof unfold_locales
  fix t fw fw'
  assume i: "batch_inv P network fw \<and> state_normal (snd fw)" and s: "apply_step P h t fw = Inr fw'"
  have "batch_inv P network fw'" using i s batch.step_inv by blast
  moreover have "state_normal (snd fw')"
    using i s apply_step_iff [of P "snd fw" h t "fst fw" fw']
      state_normal_transferred [of P "snd fw" h t "fst fw" _ "snd fw'"]
    by (auto simp: batch_inv_def)
  ultimately show "batch_inv P network fw' \<and> state_normal (snd fw')" by simp
qed

lemma apply_transactions_normal:
  assumes "hash_ok P" and "state_ok P s" and "state_normal s" and "apply_transactions P ts h s = (r, s')"
  shows "state_normal s'"
proof (cases r)
  case (Inr f)
  then have "foldE (apply_step P h) ts (0, s) = Inr (f, s')"
    using assms by (simp add: apply_transactions_iff)
  from normal_batch.loop_inv [OF _ _ this, of "st_network s"] show ?thesis
    using assms by (simp add: batch_inv_def list_all_iff)
qed (use assms apply_transactions_error in fastforce)

lemma ledger_determines_accounts:
  assumes "state_normal s" and "state_normal s'" and "ledger_of s = ledger_of s'"
  shows "map_of (st_accounts s) = map_of (st_accounts s')"
proof (intro ext)
  fix a
  have map: "map_of (st_accounts u) a = (if a \<in> keys u
      then Some \<lparr>acc_balance = fst (ledger_of u a), acc_nonce = snd (ledger_of u a)\<rparr> else None)" for u
    by (cases "map_of (st_accounts u) a")
       (auto simp: keys_def ledger_of_def account_of_def map_of_eq_None_iff
         dest: map_of_SomeD intro: rev_image_eqI)
  have absent: "a \<notin> keys u \<Longrightarrow> ledger_of u a = (0, 0)" for u
    unfolding ledger_of_def account_of_def by (simp add: map empty_account_def)
  have in_keys: "a \<in> keys u \<longleftrightarrow> ledger_of u a \<noteq> (0, 0)" if "state_normal u" for u
    using that absent [of u] unfolding state_normal_def by blast
  show "map_of (st_accounts s) a = map_of (st_accounts s') a"
    using in_keys [OF assms(1)] in_keys [OF assms(2)] assms(3) by (simp add: map)
qed

lemma state_root_by_ledger:
  assumes "state_ok P s" and "state_ok P s'" and "state_normal s" and "state_normal s'"
    and "ledger_of s = ledger_of s'"
  shows "state_root P s = state_root P s'"
  using sort_dict_unique [OF _ _ ledger_determines_accounts [OF assms(3-5)]] assms(1,2)
  by (simp add: state_root_def state_ok_def)

subsection \<open>Nonces and replays\<close>

text \<open>The nonces of a batch: each transaction carries the nonce its sender has reached by then.\<close>

lemma batch_exact_nonce:
  assumes P: "hash_ok P" and ok: "state_ok P s"
    and run: "foldE (apply_step P h) (us @ t # vs) (0, s) = Inr fw"
  shows "tx_nonce t = snd (ledger_of s (tx_sender_address t))
     + int (length (filter (\<lambda>u. tx_sender_address u = tx_sender_address t) us))"
proof -
  have i: "batch_inv P (st_network s) (0, s)" using assms by (simp add: batch_inv_def)
  obtain m where m: "foldE (apply_step P h) us (0, s) = Inr m" "batch_inv P (st_network s) m"
      "foldE (apply_step P h) (t # vs) m = Inr fw"
    using batch.prefix_runs [OF _ i run] by (auto simp: list_all_iff)
  have sm: "state_ok P (snd m)" using m(2) by (simp add: batch_inv_def)
  obtain fw1 where "apply_step P h t m = Inr fw1" using m(3) by (auto simp: res_simps)
  then have "step_allowed P h t m"
    using apply_step_iff [OF P sm, of h t "fst m" fw1] by simp
  moreover have "ledger_of (snd m) = fold ledger_transfer us (ledger_of s)"
    using foldE_apply_step(3) [OF P ok, of h us "fst m" "snd m"] m(1)
    by (simp add: batch_view_def fold_view_step)
  ultimately show ?thesis
    by (simp add: step_allowed_def transfer_allowed_def batch_nonces)
qed

text \<open>No identifier is confirmed twice, within a batch or across two.\<close>

lemma batch_fresh:
  assumes P: "hash_ok P" and ok: "state_ok P s" and run: "foldE (apply_step P h) ts (g, s) = Inr fw"
  shows "distinct (map (txid P) ts) \<and> (\<forall>t \<in> set ts. txid P t \<notin> Inr ` st_txids s)"
  using ok run
proof (induction ts arbitrary: g s)
  case (Cons t ts)
  obtain m where m: "apply_step P h t (g, s) = Inr m" "foldE (apply_step P h) ts m = Inr fw"
    using Cons.prems by (auto simp: res_simps)
  obtain i where i: "transferred P t i s (snd m)" "txid P t = Inr i" "i \<notin> st_txids s"
    using apply_step_iff [OF P Cons.prems(1), of h t g m] m(1) by auto
  have "distinct (map (txid P) ts) \<and> (\<forall>u \<in> set ts. txid P u \<notin> Inr ` st_txids (snd m))"
    using Cons.IH [of "snd m" "fst m"] i(1) m(2) by (simp add: transferred_def)
  then show ?case using i by (auto simp: transferred_def)
qed simp

lemma step_allowed_fee: "step_allowed P h t fw \<Longrightarrow> 0 \<le> tx_fee_atoms t"
  by (auto simp: step_allowed_def validate_transaction_iff transaction_fields_ok_def)

lemma foldE_apply_step_mono:
  assumes "hash_ok P" and "state_ok P s" and "foldE (apply_step P h) ts (g, s) = Inr (f, s')"
  shows "g \<le> f"
  using assms(2,3)
proof (induction ts arbitrary: g s)
  case (Cons t ts)
  then obtain n w where n: "apply_step P h t (g, s) = Inr (n, w)"
    "foldE (apply_step P h) ts (n, w) = Inr (f, s')" by (auto simp: res_simps)
  then have "n = g + tx_fee_atoms t" "0 \<le> tx_fee_atoms t" "state_ok P w"
    using apply_step_iff [OF assms(1) Cons.prems(1), of h t g "(n, w)"] step_allowed_fee
    by (auto simp: transferred_def)
  then show ?case using Cons.IH n(2) by fastforce
qed simp

text \<open>A fee total in front of a batch is only added.\<close>

lemma foldE_apply_step_shift:
  assumes P: "hash_ok P" and "state_ok P s" and "0 \<le> g" and "0 \<le> k" and "k + g \<le> U64_MAX"
  shows "foldE (apply_step P h) ts (k + g, s) = Inr (f, s') \<longleftrightarrow>
     foldE (apply_step P h) ts (g, s) = Inr (f - k, s') \<and> f \<le> U64_MAX"
  using assms(2-)
proof (induction ts arbitrary: g s)
  case (Cons t ts)
  have shift: "step_allowed P h t (k + g, s) \<longleftrightarrow>
      step_allowed P h t (g, s) \<and> k + (g + tx_fee_atoms t) \<le> U64_MAX"
    using Cons.prems by (auto simp: step_allowed_def)
  show ?case
  proof (cases "step_allowed P h t (g, s)")
    case False
    then show ?thesis
      using shift apply_step_refused [OF P Cons.prems(1), of h t g]
        apply_step_refused [OF P Cons.prems(1), of h t "k + g"] by auto
  next
    case True
    then obtain i m where m: "apply_step P h t (g, s) = Inr (g + tx_fee_atoms t, m)"
      "transferred P t i s m" using apply_step_allowed [OF P Cons.prems(1)] by blast
    have fee: "0 \<le> tx_fee_atoms t" using True by (rule step_allowed_fee)
    show ?thesis
    proof (cases "k + (g + tx_fee_atoms t) \<le> U64_MAX")
      case True
      have "apply_validated P t s = (Inr (tx_fee_atoms t), m)"
        using m(1) by (auto simp: apply_step_def res_simps split: sum.splits prod.splits if_splits)
      then have "apply_step P h t (k + g, s) = Inr (k + (g + tx_fee_atoms t), m)"
        using m(1) True by (auto simp: apply_step_def res_simps split: if_splits)
      then show ?thesis
        using m Cons.IH [of m "g + tx_fee_atoms t"] Cons.prems fee True by (simp add: transferred_def)
    next
      case over: False
      have "\<not> step_allowed P h t (k + g, s)" using shift over by simp
      then obtain e where "apply_step P h t (k + g, s) = Inl e"
        using apply_step_refused [OF P Cons.prems(1)] by blast
      moreover have "f - k \<ge> g + tx_fee_atoms t"
        if "foldE (apply_step P h) ts (g + tx_fee_atoms t, m) = Inr (f - k, s')"
        using foldE_apply_step_mono [OF P _ that] m(2) by (simp add: transferred_def)
      ultimately show ?thesis using m over by auto
    qed
  qed
qed (use assms in auto)

subsection \<open>Exceptions\<close>

lemma validate_raises:
  assumes "platform_ok P" and "network_fits (st_network s)"
  shows "raises_only {StateError} (validate P t h s)"
proof -
  have "raises_only {StateError} (txid P t)" if "validate_transaction P t h (st_network s) = Inr u" for u
    using validated_txid [OF _ that] assms(1) by (intro raises_total) auto
  then show ?thesis
    unfolding validate_def Let_def
    by (intro raises_intros raises_rethrow [OF validate_transaction_raises [OF assms]]) auto
qed

lemma apply_step_raises:
  assumes "platform_ok P" and "network_fits (st_network s)" and ok: "state_ok P s"
  shows "raises_only {StateError} (apply_step P h t (f, s))"
proof -
  have "raises_only {StateError} (fst (apply_validated P t s))" if v: "validate P t h s = Inr u" for u
  proof -
    obtain i where i: "txid P t = Inr i" "length i = 32"
      using v validated_txid [of P t h] assms(1) by (fastforce simp: validate_iff)
    have "(\<exists>s'. apply_validated P t s = (Inr (tx_fee_atoms t), s'))
        \<or> (\<exists>s'. apply_validated P t s = (raise StateError ''recipient balance exceeds uint64'', s'))"
      using apply_validated_self [OF ok v i] apply_validated_other [OF ok v i] apply_validated_overflow [OF ok v]
      by blast
    then show ?thesis by (auto simp: raises_only_def)
  qed
  then show ?thesis
    unfolding apply_step_def prod.case
    using validate_raises [OF assms(1,2)] by (intro raises_intros) auto
qed

lemma apply_transactions_raises:
  assumes P: "platform_ok P" and n: "network_fits (st_network s)" and ok: "state_ok P s"
  shows "raises_only {StateError} (fst (apply_transactions P ts h s))"
proof -
  have w: "new_account_state P (st_accounts s) (st_txids s) (st_network s) = Inr s"
    using copy_state_ok [OF ok] by (simp add: copy_state_def)
  have "raises_only {StateError} (foldE (apply_step P h) ts (0, s))"
  proof (rule raises_foldE [where Q = "batch_inv P (st_network s)"])
    show "batch_inv P (st_network s) (0, s)" using P ok by (simp add: batch_inv_def)
    show "raises_only {StateError} (apply_step P h t fw)" if "batch_inv P (st_network s) fw" for t fw
      using that apply_step_raises [OF P, of "snd fw" h t "fst fw"] n by (simp add: batch_inv_def)
    show "batch_inv P (st_network s) fw'" if "batch_inv P (st_network s) fw" "apply_step P h t fw = Inr fw'" for t fw fw'
      using that batch.step_inv by blast
  qed
  then show ?thesis
    by (auto simp: apply_transactions_def w raises_only_def split: sum.splits)
qed

lemma credit_reward_raises:
  assumes "state_ok P s"
  shows "raises_only {StateError} (fst (credit_reward P a amount s))"
proof -
  have "raises_only {StateError} (rethrow (\<lambda>c. c = AddressError) 
      (\<lambda>_. Exn StateError ''reward uses an invalid network address'') (decode_address P a (st_network s)))"
    by (rule raises_rethrow [OF decode_address_raises]) auto
  then show ?thesis
    using state_okD(2) [OF assms, of a]
    by (auto simp: credit_reward_def raises_only_def Let_def new_account_def account_ok_def
        split: sum.splits if_splits)
qed

subsection \<open>A sample state\<close>

text \<open>All keys of the sample platform hash to the same address, which here holds \<open>b\<close> atoms.\<close>

definition sample_state :: "int \<Rightarrow> account_state" where
  "sample_state b = \<lparr>st_network = TESTNET,
     st_accounts = [(sample_address 0, \<lparr>acc_balance = b, acc_nonce = 0\<rparr>)], st_txids = {}\<rparr>"

lemma sample_sender:
  assumes "0 < amount" "0 \<le> fee" "amount + fee \<le> U64_MAX" "0 \<le> nonce" "nonce \<le> U64_MAX"
  shows "tx_sender_address (sample_transaction k b amount fee nonce) = sample_address 0"
proof -
  have h: "public_key_hash sample_platform (sample_hash (replicate 32 k)) = Inr (replicate 20 0)"
    by (simp add: public_key_hash_def require_bytes_def sha256_digest_def sample_platform_def sample_hash_def)
  have "address_from_public_key sample_platform (sample_hash (replicate 32 k)) TESTNET
      = Inr (tx_sender_address (sample_transaction k b amount fee nonce))"
    using sample_transaction_props(6) [OF assms] sample_transaction_props(7) [OF assms, of 0]
    by (auto simp: validate_transaction_iff transaction_addresses_ok_def sample_platform_def)
  then show ?thesis using h
    by (simp add: address_from_public_key_def sample_address_def TESTNET_def)
qed

lemma sample_state_ok: "0 \<le> b \<Longrightarrow> b \<le> U64_MAX \<Longrightarrow> state_ok sample_platform (sample_state b)"
  by (simp add: sample_state_def state_ok_def dict_ok_def account_ok_def U64_MAX_def)

lemma sample_address_inj: "sample_address a = sample_address b \<longleftrightarrow> a = b"
  by (metis Inr_inject replicate_eq_replicate sample_address_decodes zero_neq_numeral)

lemma sample_batch:
  assumes "2 \<le> b" "b \<le> U64_MAX"
  shows "\<exists>s'. apply_transactions sample_platform [sample_transaction 1 5 1 1 0] 1 (sample_state b) = (Inr 1, s')"
proof -
  let ?t = "sample_transaction 1 5 1 1 0"
  have v: "validate_transaction sample_platform ?t 1 TESTNET = Inr ()"
    by (rule sample_transaction_props(7)) (simp_all add: U64_MAX_def)
  have f: "tx_amount_atoms ?t = 1" "tx_fee_atoms ?t = 1" "tx_nonce ?t = 0"
    "tx_recipient_address ?t = sample_address 5" "tx_sender_address ?t = sample_address 0"
    by (rule sample_transaction_props sample_sender; simp add: U64_MAX_def)+
  have ok: "state_ok sample_platform (sample_state b)" using assms by (intro sample_state_ok) auto
  have "step_allowed sample_platform 1 ?t (0, sample_state b)"
    using v validated_txid [OF _ v] assms
    by (auto simp: step_allowed_def transfer_allowed_def ledger_of_def ledger_transfer_def f
        sample_state_def account_of_def empty_account_def sample_address_inj U64_MAX_def)
  then show ?thesis
    using apply_step_allowed [OF _ ok, of 1 ?t 0] by (auto simp: apply_transactions_iff [OF _ ok] f U64_MAX_def)
qed

subsection \<open>Properties\<close>

text \<open>C39. \<open>transaction_acceptance\<close>: a state applies a transaction exactly when it passes stateless
  validation, is not confirmed yet, carries its sender's exact next nonce, is covered by the sender's
  balance and does not overflow the recipient's.\<close>

theorem transaction_acceptance:
  assumes "platform_ok P" and "state_ok P s"
  shows "(\<exists>s'. apply_transaction P t h s = (Inr (tx_fee_atoms t), s')) \<longleftrightarrow>
     validate_transaction P t h (st_network s) = Inr ()
   \<and> (\<exists>i. txid P t = Inr i \<and> \<not> contains_transaction i s) \<and> transfer_allowed t (ledger_of s)"
proof -
  have P: "hash_ok P" using assms by simp
  have "apply_transaction P t h s = (Inr (tx_fee_atoms t), s') \<longleftrightarrow>
      0 \<le> h \<and> h \<le> U64_MAX \<and> apply_step P h t (0, s) = Inr (tx_fee_atoms t, s')" for s'
    by (auto simp: apply_transaction_def apply_transactions_iff [OF P assms(2)] res_simps)
  moreover have "(\<exists>s'. apply_step P h t (0, s) = Inr (tx_fee_atoms t, s')) \<longleftrightarrow> step_allowed P h t (0, s)"
    using apply_step_allowed [OF P assms(2), of h t 0] apply_step_refused [OF P assms(2), of h t 0] by fastforce
  ultimately show ?thesis
    by (auto simp: step_allowed_def contains_transaction_def validate_transaction_iff transaction_fields_ok_def)
qed

lemma transaction_acceptance_witness:
  "\<not> (\<exists>s'. apply_transaction sample_platform (sample_transaction 1 5 1 1 3) 1 (sample_state 9)
        = (Inr (tx_fee_atoms (sample_transaction 1 5 1 1 3)), s'))"
  unfolding transaction_acceptance [OF sample_platform_ok sample_state_ok [of 9, simplified U64_MAX_def, simplified]]
  by (simp add: transfer_allowed_def ledger_of_def account_of_def sample_state_def sample_sender
      sample_transaction_props U64_MAX_def)

text \<open>C23. \<open>batch_refines_ledger\<close>: a batch that succeeds does to the abstract ledger what its transfers
  do one after the other (also a transfer of an account to itself), returns the sum of the fees,
  adds exactly the batch's identifiers, and keeps the state well formed.\<close>

theorem batch_refines_ledger:
  assumes "platform_ok P" and "state_ok P s" and "apply_transactions P ts h s = (Inr fees, s')"
  shows "state_ok P s' \<and> ledger_of s' = fold ledger_transfer ts (ledger_of s)
     \<and> fees = sum_list (map tx_fee_atoms ts)
     \<and> Inr ` st_txids s' = txid P ` set ts \<union> Inr ` st_txids s"
  using apply_transactions_ok [OF _ assms(2,3)] apply_transactions_spec [OF _ assms(2,3)] assms(1) by simp

lemma batch_refines_ledger_witness:
  "ledger_of (snd (apply_transactions sample_platform [sample_transaction 1 5 1 1 0] 1 (sample_state 9)))
     = fold ledger_transfer [sample_transaction 1 5 1 1 0] (ledger_of (sample_state 9))"
proof -
  obtain s' where s': "apply_transactions sample_platform [sample_transaction 1 5 1 1 0] 1 (sample_state 9) = (Inr 1, s')"
    using sample_batch [of 9] by (auto simp: U64_MAX_def)
  have "state_ok sample_platform (sample_state 9)" by (rule sample_state_ok) (simp_all add: U64_MAX_def)
  from batch_refines_ledger [OF sample_platform_ok this s'] show ?thesis by (simp add: s')
qed

text \<open>\<open>batch_conserves_balances\<close>: a batch moves atoms between accounts; what the accounts lose in
  sum is exactly the fees it returns.\<close>

theorem batch_conserves_balances:
  assumes "platform_ok P" and "state_ok P s" and "apply_transactions P ts h s = (Inr fees, s')"
  shows "total_balance s' + fees = total_balance s"
  using apply_transactions_spec(3) [OF _ assms(2,3)] assms(1) by simp

lemma batch_conserves_balances_witness:
  "total_balance (snd (apply_transactions sample_platform [sample_transaction 1 5 1 1 0] 1 (sample_state 9))) + 1 = 9"
proof -
  obtain s' where s': "apply_transactions sample_platform [sample_transaction 1 5 1 1 0] 1 (sample_state 9) = (Inr 1, s')"
    using sample_batch [of 9] by (auto simp: U64_MAX_def)
  have "state_ok sample_platform (sample_state 9)" by (rule sample_state_ok) (simp_all add: U64_MAX_def)
  from batch_conserves_balances [OF sample_platform_ok this s'] 
  have "total_balance s' + 1 = total_balance (sample_state 9)" .
  then show ?thesis unfolding s' by (simp add: sample_state_def total_balance_def dict_sum_def)
qed

text \<open>\<open>batch_atomic\<close>: a batch that fails, at whatever transaction and for whatever reason, leaves
  the state exactly as it was.\<close>

theorem batch_atomic:
  assumes "apply_transactions P ts h s = (Inl e, s')"
  shows "s' = s"
  using assms by (rule apply_transactions_error)

lemma batch_atomic_witness:
  "snd (apply_transactions sample_platform [sample_transaction 1 5 1 1 0] (- 1) (sample_state 9)) = sample_state 9"
  by (rule batch_atomic [of sample_platform "[sample_transaction 1 5 1 1 0]" "- 1" _
        "Exn StateError ''current height must be an unsigned 64-bit integer''"])
     (simp add: apply_transactions_def)

text \<open>\<open>batch_exact_nonces\<close>: in a batch that succeeds every transaction carries the nonce of its
  sender before the batch plus the number of the sender's earlier transactions in it.\<close>

theorem batch_exact_nonces:
  assumes "platform_ok P" and "state_ok P s"
    and "apply_transactions P (us @ t # vs) h s = (Inr fees, s')"
  shows "tx_nonce t = snd (ledger_of s (tx_sender_address t))
     + int (length (filter (\<lambda>u. tx_sender_address u = tx_sender_address t) us))"
proof (rule batch_exact_nonce)
  show "hash_ok P" "state_ok P s" using assms by simp_all
  show "foldE (apply_step P h) (us @ t # vs) (0, s) = Inr (fees, s')"
    using assms(1,3) apply_transactions_iff [OF _ assms(2)] by simp
qed

lemma batch_exact_nonces_witness:
  "tx_nonce (sample_transaction 1 5 1 1 0) = snd (ledger_of (sample_state 9) (sample_address 0)) + int (length [])"
proof -
  obtain s' where s': "apply_transactions sample_platform ([] @ sample_transaction 1 5 1 1 0 # []) 1 (sample_state 9) = (Inr 1, s')"
    using sample_batch [of 9] by (auto simp: U64_MAX_def)
  have "state_ok sample_platform (sample_state 9)" by (rule sample_state_ok) (simp_all add: U64_MAX_def)
  from batch_exact_nonces [OF sample_platform_ok this s'] show ?thesis
    by (simp add: sample_sender U64_MAX_def)
qed

text \<open>C38. \<open>no_replay\<close>: the transactions of a batch that succeeds have pairwise different identifiers,
  none of them confirmed before; afterwards no batch that contains one of them succeeds.\<close>

theorem no_replay:
  assumes "platform_ok P" and "state_ok P s" and "apply_transactions P ts h s = (Inr fees, s')"
  shows "distinct (map (txid P) ts)
     \<and> (\<forall>t \<in> set ts. txid P t \<notin> Inr ` st_txids s
         \<and> (\<forall>us h' f s''. t \<in> set us \<longrightarrow> apply_transactions P us h' s' \<noteq> (Inr f, s'')))"
proof -
  have P: "hash_ok P" using assms by simp
  have run: "foldE (apply_step P h) ts (0, s) = Inr (fees, s')"
    using assms by (simp add: apply_transactions_iff)
  have ok: "state_ok P s'" using apply_transactions_ok [OF P assms(2,3)] by simp
  have "apply_transactions P us h' s' \<noteq> (Inr f, s'')" if "t \<in> set ts" "t \<in> set us" for t us h' f s''
  proof
    assume "apply_transactions P us h' s' = (Inr f, s'')"
    then have "txid P t \<notin> Inr ` st_txids s'"
      using batch_fresh [OF P ok, of h' us 0] that(2) by (simp add: apply_transactions_iff [OF P ok])
    then show False using apply_transactions_spec(4) [OF P assms(2,3)] that(1) by blast
  qed
  then show ?thesis using batch_fresh [OF P assms(2) run] by blast
qed

lemma no_replay_witness:
  "txid sample_platform (sample_transaction 1 5 1 1 0) \<notin> Inr ` st_txids (sample_state 9)"
proof -
  obtain s' where s': "apply_transactions sample_platform [sample_transaction 1 5 1 1 0] 1 (sample_state 9) = (Inr 1, s')"
    using sample_batch [of 9] by (auto simp: U64_MAX_def)
  have "state_ok sample_platform (sample_state 9)" by (rule sample_state_ok) (simp_all add: U64_MAX_def)
  from no_replay [OF sample_platform_ok this s'] show ?thesis by simp
qed

text \<open>\<open>batch_composes\<close>: applying two batches one after the other is applying their concatenation,
  as long as the sum of the fees fits 64 bits.\<close>

theorem batch_composes:
  assumes "platform_ok P" and "state_ok P s"
  shows "apply_transactions P (ts @ us) h s = (Inr f, s'') \<longleftrightarrow>
     (\<exists>f1 f2 s'. apply_transactions P ts h s = (Inr f1, s') \<and> apply_transactions P us h s' = (Inr f2, s'')
        \<and> f = f1 + f2 \<and> f \<le> U64_MAX)"
proof -
  have P: "hash_ok P" using assms by simp
  have "foldE (apply_step P h) us (f1, s') = Inr (f, s'') \<longleftrightarrow>
      (\<exists>f2. foldE (apply_step P h) us (0, s') = Inr (f2, s'') \<and> f = f1 + f2 \<and> f \<le> U64_MAX)"
    if "foldE (apply_step P h) ts (0, s) = Inr (f1, s')" for f1 s'
  proof -
    have ok: "state_ok P s'" and f1: "0 \<le> f1" "f1 \<le> U64_MAX"
      using foldE_apply_step(1) [OF P assms(2) that] foldE_apply_step_mono [OF P assms(2) that] that
        foldE_apply_step_shift [OF P assms(2), of 0 0 h ts f1 s'] by (auto simp: U64_MAX_def)
    show ?thesis using foldE_apply_step_shift [OF P ok, of 0 f1 h us f s''] f1 by auto
  qed
  then show ?thesis
    using foldE_apply_step(1) [OF P assms(2)]
    by (fastforce simp: apply_transactions_iff [OF P] assms(2) foldE_append res_simps)
qed

lemma batch_composes_witness:
  "\<exists>s'. apply_transactions sample_platform ([] @ [sample_transaction 1 5 1 1 0]) 1 (sample_state 9) = (Inr 1, s')"
proof -
  obtain s' where s': "apply_transactions sample_platform [sample_transaction 1 5 1 1 0] 1 (sample_state 9) = (Inr 1, s')"
    using sample_batch [of 9] by (auto simp: U64_MAX_def)
  have ok: "state_ok sample_platform (sample_state 9)" by (rule sample_state_ok) (simp_all add: U64_MAX_def)
  have "apply_transactions sample_platform [] 1 (sample_state 9) = (Inr 0, sample_state 9)"
    using ok by (simp add: apply_transactions_iff U64_MAX_def)
  then show ?thesis using s' unfolding batch_composes [OF sample_platform_ok ok] by (auto simp: U64_MAX_def)
qed

text \<open>\<open>state_root_commits_ledger\<close>: a well-formed state has a 32-byte root, and two states without
  empty accounts and with the same ledger have the same root, whatever the order of their operations.\<close>

theorem state_root_commits_ledger:
  assumes "platform_ok P" and "network_fits (st_network s)" and "state_ok P s"
  shows "\<exists>r. state_root P s = Inr r \<and> length r = 32
     \<and> (\<forall>s'. state_ok P s' \<and> state_normal s \<and> state_normal s' \<and> ledger_of s' = ledger_of s
          \<longrightarrow> state_root P s' = Inr r)"
proof -
  obtain r where "state_root P s = Inr r" "length r = 32" using state_root_total [OF assms] .
  then show ?thesis using state_root_by_ledger [OF assms(3)] by metis
qed

lemma state_root_commits_ledger_witness:
  "\<exists>r. state_root sample_platform (sample_state 9) = Inr r \<and> length r = 32"
proof -
  have "state_ok sample_platform (sample_state 9)" by (rule sample_state_ok) (simp_all add: U64_MAX_def)
  moreover have "network_fits (st_network (sample_state 9))" by (simp add: sample_state_def)
  ultimately show ?thesis using state_root_commits_ledger [OF sample_platform_ok] by blast
qed

end
