(* ===== verification/Block.thy ===== *)
theory Block
  imports Account_State
begin

text \<open>
  \<open>block.py\<close>: reward transactions, block headers and blocks, their canonical bytes and parsers, the
  transactions root and the proof-of-work test. Both byte formats are interpretations of
  \<open>message_codec\<close>; a header also needs its three roots and its target to be exactly 32 bytes.
\<close>

definition BLOCK_HEADER_DOMAIN :: bytes where
  "BLOCK_HEADER_DOMAIN = byte_literal ''OURCOIN:BLOCK:HEADER:V1''"
definition REWARD_TRANSACTION_DOMAIN :: bytes where
  "REWARD_TRANSACTION_DOMAIN = byte_literal ''OURCOIN:REWARD:V1''"
definition BLOCK_VERSION :: int where "BLOCK_VERSION = 1"
definition REWARD_TRANSACTION_VERSION :: int where "REWARD_TRANSACTION_VERSION = 1"
definition TARGET_LENGTH :: nat where "TARGET_LENGTH = 32"
definition MAX_TARGET :: int where "MAX_TARGET = 2 ^ 256 - 1"

lemma TARGET_LENGTH_32 [simp]: "TARGET_LENGTH = 32"
  by (simp add: TARGET_LENGTH_def)

definition exact_hash :: "bytes \<Rightarrow> string \<Rightarrow> bytes res" where
  "exact_hash v name =
     (if length v \<noteq> HASH_LENGTH then raise BlockEncodingError (name @ '' must be exactly 32 bytes'')
      else Inr v)"

definition encode_target :: "int \<Rightarrow> bytes res" where
  "encode_target target =
     (if \<not> (0 < target \<and> target \<le> MAX_TARGET) then
        raise BlockEncodingError ''difficulty target must be between 1 and 2^256 - 1''
      else Inr (to_bytes_be TARGET_LENGTH target))"

subsection \<open>Reward transactions\<close>

record reward_transaction =
  rt_version :: int
  rt_chain_id :: pystr
  rt_height :: int
  rt_miner_address :: pystr
  rt_amount_atoms :: int

definition reward_to_bytes :: "platform \<Rightarrow> reward_transaction \<Rightarrow> bytes res" where
  "reward_to_bytes P r = join_fields
     [encode_bytes REWARD_TRANSACTION_DOMAIN,
      encode_u16 (rt_version r),
      encode_text P (rt_chain_id r),
      encode_u64 (rt_height r),
      encode_text P (rt_miner_address r),
      encode_u64 (rt_amount_atoms r)]"

definition reward_from_bytes :: "platform \<Rightarrow> bytes \<Rightarrow> reward_transaction res" where
  "reward_from_bytes P encoded =
     rethrow (\<lambda>c. c = EncodingError)
       (\<lambda>_. Exn BlockEncodingError ''invalid canonical reward transaction encoding'')
       (bindE (read_bytes (Some (int (length REWARD_TRANSACTION_DOMAIN))) (canonical_reader_of encoded)) (\<lambda>(domain, r).
        if domain \<noteq> REWARD_TRANSACTION_DOMAIN then
          raise BlockEncodingError ''unknown reward transaction domain''
        else
        bindE (read_u16 r) (\<lambda>(version, r).
        bindE (read_text P (Some MAX_CHAIN_ID_BYTES) r) (\<lambda>(chain_id, r).
        bindE (read_u64 r) (\<lambda>(height, r).
        bindE (read_text P (Some MAX_ADDRESS_BYTES) r) (\<lambda>(miner_address, r).
        bindE (read_u64 r) (\<lambda>(amount_atoms, r).
        bindE (ensure_finished r) (\<lambda>_.
          Inr \<lparr>rt_version = version, rt_chain_id = chain_id, rt_height = height,
               rt_miner_address = miner_address, rt_amount_atoms = amount_atoms\<rparr>))))))))"

definition reward_txid :: "platform \<Rightarrow> reward_transaction \<Rightarrow> bytes res" where
  "reward_txid P r = bindE (reward_to_bytes P r) (\<lambda>bs. Inr (sha256_digest P bs))"

definition reward_canonical :: "platform \<Rightarrow> reward_transaction \<Rightarrow> bool" where
  "reward_canonical P r \<longleftrightarrow> canonical_text P (Some MAX_CHAIN_ID_BYTES) (rt_chain_id r)
     \<and> canonical_text P (Some MAX_ADDRESS_BYTES) (rt_miner_address r)"

lemma reward_from_bytes_iff:
  "reward_from_bytes P bs = Inr t \<longleftrightarrow> reward_canonical P t \<and> reward_to_bytes P t = Inr bs"
proof -
  have "reward_from_bytes P bs = Inr t \<longleftrightarrow> True \<and>
      (canonical_text P (Some MAX_CHAIN_ID_BYTES) (rt_chain_id t) \<and>
       canonical_text P (Some MAX_ADDRESS_BYTES) (rt_miner_address t) \<and> True) \<and>
      parses [encode_bytes REWARD_TRANSACTION_DOMAIN, encode_u16 (rt_version t),
        encode_text P (rt_chain_id t), encode_u64 (rt_height t), encode_text P (rt_miner_address t),
        encode_u64 (rt_amount_atoms t)] (canonical_reader_of bs)"
    unfolding reward_from_bytes_def rethrow_eq_Inr
    by (rule bind_domain, (rule bind_parses)+, rule bind_finished, cases t) auto
  then show ?thesis
    by (auto simp: parses_whole reward_to_bytes_def reward_canonical_def)
qed

interpretation reward_bytes: message_codec "reward_to_bytes P" "reward_from_bytes P"
  "reward_canonical P" for P
  by unfold_locales (rule reward_from_bytes_iff)

subsection \<open>Block headers\<close>

record block_header =
  bh_version :: int
  bh_chain_id :: pystr
  bh_height :: int
  bh_previous_block_hash :: bytes
  bh_transactions_root :: bytes
  bh_state_root :: bytes
  bh_timestamp :: int
  bh_difficulty_target :: int
  bh_nonce :: int
  bh_miner_address :: pystr

definition header_to_bytes :: "platform \<Rightarrow> block_header \<Rightarrow> bytes res" where
  "header_to_bytes P h = join_fields
     [encode_bytes BLOCK_HEADER_DOMAIN,
      encode_u16 (bh_version h),
      encode_text P (bh_chain_id h),
      encode_u64 (bh_height h),
      bindE (exact_hash (bh_previous_block_hash h) ''previous block hash'') encode_bytes,
      bindE (exact_hash (bh_transactions_root h) ''transactions root'') encode_bytes,
      bindE (exact_hash (bh_state_root h) ''state root'') encode_bytes,
      encode_u64 (bh_timestamp h),
      bindE (encode_target (bh_difficulty_target h)) encode_bytes,
      encode_u64 (bh_nonce h),
      encode_text P (bh_miner_address h)]"

definition header_from_bytes :: "platform \<Rightarrow> bytes \<Rightarrow> block_header res" where
  "header_from_bytes P encoded =
     rethrow (\<lambda>c. c = EncodingError)
       (\<lambda>_. Exn BlockEncodingError ''invalid canonical block header encoding'')
       (bindE (read_bytes (Some (int (length BLOCK_HEADER_DOMAIN))) (canonical_reader_of encoded)) (\<lambda>(domain, r).
        if domain \<noteq> BLOCK_HEADER_DOMAIN then raise BlockEncodingError ''unknown block header domain''
        else
        bindE (read_u16 r) (\<lambda>(version, r).
        bindE (read_text P (Some MAX_CHAIN_ID_BYTES) r) (\<lambda>(chain_id, r).
        bindE (read_u64 r) (\<lambda>(height, r).
        bindE (read_bytes (Some (int HASH_LENGTH)) r) (\<lambda>(previous_block_hash, r).
        bindE (read_bytes (Some (int HASH_LENGTH)) r) (\<lambda>(transactions_root_value, r).
        bindE (read_bytes (Some (int HASH_LENGTH)) r) (\<lambda>(state_root, r).
        bindE (read_u64 r) (\<lambda>(timestamp, r).
        bindE (read_bytes (Some (int TARGET_LENGTH)) r) (\<lambda>(target_bytes, r).
        bindE (read_u64 r) (\<lambda>(nonce, r).
        bindE (read_text P (Some MAX_ADDRESS_BYTES) r) (\<lambda>(miner_address, r).
        bindE (ensure_finished r) (\<lambda>_.
          let header = \<lparr>bh_version = version, bh_chain_id = chain_id, bh_height = height,
                bh_previous_block_hash = previous_block_hash,
                bh_transactions_root = transactions_root_value, bh_state_root = state_root,
                bh_timestamp = timestamp, bh_difficulty_target = from_bytes_be target_bytes,
                bh_nonce = nonce, bh_miner_address = miner_address\<rparr>
          in
          bindE (exact_hash (bh_previous_block_hash header) ''previous block hash'') (\<lambda>_.
          bindE (exact_hash (bh_transactions_root header) ''transactions root'') (\<lambda>_.
          bindE (exact_hash (bh_state_root header) ''state root'') (\<lambda>_.
          if length target_bytes \<noteq> TARGET_LENGTH then
            raise BlockEncodingError ''difficulty target must be exactly 32 bytes''
          else bindE (encode_target (bh_difficulty_target header)) (\<lambda>_. Inr header)))))))))))))))))"

definition header_hash :: "platform \<Rightarrow> block_header \<Rightarrow> bytes res" where
  "header_hash P h = bindE (header_to_bytes P h) (\<lambda>bs. Inr (sha256_digest P bs))"

definition header_canonical :: "platform \<Rightarrow> block_header \<Rightarrow> bool" where
  "header_canonical P h \<longleftrightarrow> canonical_text P (Some MAX_CHAIN_ID_BYTES) (bh_chain_id h)
     \<and> canonical_text P (Some MAX_ADDRESS_BYTES) (bh_miner_address h)"

text \<open>The fields whose width is fixed.\<close>

definition header_exact :: "block_header \<Rightarrow> bool" where
  "header_exact h \<longleftrightarrow> length (bh_previous_block_hash h) = 32 \<and> length (bh_transactions_root h) = 32
     \<and> length (bh_state_root h) = 32 \<and> 0 < bh_difficulty_target h \<and> bh_difficulty_target h \<le> MAX_TARGET"

definition header_fields :: "platform \<Rightarrow> block_header \<Rightarrow> bytes res list" where
  "header_fields P h =
     [encode_bytes BLOCK_HEADER_DOMAIN, encode_u16 (bh_version h), encode_text P (bh_chain_id h),
      encode_u64 (bh_height h), encode_bytes (bh_previous_block_hash h),
      encode_bytes (bh_transactions_root h), encode_bytes (bh_state_root h),
      encode_u64 (bh_timestamp h), encode_bytes (to_bytes_be 32 (bh_difficulty_target h)),
      encode_u64 (bh_nonce h), encode_text P (bh_miner_address h)]"

lemma exact_hash_iff [simp]: "exact_hash v name = Inr w \<longleftrightarrow> length v = 32 \<and> w = v"
  by (auto simp: exact_hash_def)

lemma encode_target_iff [simp]:
  "encode_target t = Inr w \<longleftrightarrow> 0 < t \<and> t \<le> MAX_TARGET \<and> w = to_bytes_be 32 t"
  by (auto simp: encode_target_def)

lemma header_to_bytes_iff:
  "header_to_bytes P h = Inr bs \<longleftrightarrow> header_exact h \<and> join_fields (header_fields P h) = Inr bs"
  by (auto simp: header_to_bytes_def header_fields_def header_exact_def bindE_eq_Inr)

lemma target_bytes_iff:
  "length b = 32 \<and> 0 < from_bytes_be b \<and> from_bytes_be b \<le> MAX_TARGET \<and> from_bytes_be b = d \<longleftrightarrow>
     b = to_bytes_be 32 d \<and> 0 < d \<and> d \<le> MAX_TARGET"
  using to_from_bytes_be [of b] from_to_bytes_be_id [of d 32]
  by (auto simp: MAX_TARGET_def)

lemma header_from_bytes_iff:
  "header_from_bytes P bs = Inr t \<longleftrightarrow> header_canonical P t \<and> header_to_bytes P t = Inr bs"
proof -
  have "header_from_bytes P bs = Inr t \<longleftrightarrow> True \<and>
      (canonical_text P (Some MAX_CHAIN_ID_BYTES) (bh_chain_id t) \<and>
       \<not> exceeds (int (length (bh_previous_block_hash t))) (Some (int HASH_LENGTH)) \<and>
       \<not> exceeds (int (length (bh_transactions_root t))) (Some (int HASH_LENGTH)) \<and>
       \<not> exceeds (int (length (bh_state_root t))) (Some (int HASH_LENGTH)) \<and>
       \<not> exceeds (int (length (to_bytes_be 32 (bh_difficulty_target t)))) (Some (int TARGET_LENGTH)) \<and>
       canonical_text P (Some MAX_ADDRESS_BYTES) (bh_miner_address t) \<and> header_exact t) \<and>
      parses (header_fields P t) (canonical_reader_of bs)"
    unfolding header_from_bytes_def rethrow_eq_Inr header_fields_def
    by (rule bind_domain, (rule bind_parses)+, rule bind_finished, cases t)
       (use target_bytes_iff in \<open>auto simp: Let_def bindE_eq_Inr header_exact_def\<close>)
  then show ?thesis
    by (auto simp: parses_whole header_to_bytes_iff header_canonical_def header_exact_def)
qed

interpretation header_bytes: message_codec "header_to_bytes P" "header_from_bytes P"
  "header_canonical P" for P
  by unfold_locales (rule header_from_bytes_iff)

subsection \<open>Blocks\<close>

record block =
  bl_header :: block_header
  bl_reward :: reward_transaction
  bl_transactions :: "transaction list"

definition block_hash :: "platform \<Rightarrow> block \<Rightarrow> bytes res" where
  "block_hash P b = header_hash P (bl_header b)"

definition with_nonce :: "int \<Rightarrow> block \<Rightarrow> block" where
  "with_nonce nonce b = b\<lparr>bl_header := (bl_header b)\<lparr>bh_nonce := nonce\<rparr>\<rparr>"

definition transactions_root :: "platform \<Rightarrow> reward_transaction \<Rightarrow> transaction list \<Rightarrow> bytes res" where
  "transactions_root P reward transactions =
     bindE (reward_txid P reward) (\<lambda>r.
     bindE (mapE (txid P) transactions) (\<lambda>ids. merkle_root P (r # ids)))"

definition hash_meets_target :: "bytes \<Rightarrow> int \<Rightarrow> bool" where
  "hash_meets_target h target =
     (if length h \<noteq> HASH_LENGTH then False
      else case encode_target target of Inl e \<Rightarrow> False | Inr _ \<Rightarrow> from_bytes_be h \<le> target)"

lemma hash_meets_target_iff:
  "hash_meets_target h target \<longleftrightarrow>
     length h = 32 \<and> 0 < target \<and> target \<le> MAX_TARGET \<and> from_bytes_be h \<le> target"
  by (auto simp: hash_meets_target_def encode_target_def)

text \<open>A block whose header hash is at most its target: the program's proof of work.\<close>

definition proof_of_work :: "platform \<Rightarrow> block \<Rightarrow> bool" where
  "proof_of_work P b \<longleftrightarrow>
     (\<exists>h. block_hash P b = Inr h \<and> hash_meets_target h (bh_difficulty_target (bl_header b)))"

lemma with_nonce_simps [simp]:
  "bl_header (with_nonce n b) = (bl_header b)\<lparr>bh_nonce := n\<rparr>"
  "bl_reward (with_nonce n b) = bl_reward b" "bl_transactions (with_nonce n b) = bl_transactions b"
  by (simp_all add: with_nonce_def)

lemma block_hash_length: "hash_ok P \<Longrightarrow> block_hash P b = Inr h \<Longrightarrow> length h = 32"
  by (auto simp: block_hash_def header_hash_def res_simps)

lemma transactions_root_total:
  assumes "hash_ok P" and "reward_txid P r = Inr i" and "mapE (txid P) ts = Inr ids"
  obtains root where "transactions_root P r ts = Inr root" and "length root = 32"
proof -
  have "length i = 32" using assms by (auto simp: reward_txid_def res_simps)
  moreover have "\<forall>x \<in> set ids. length x = 32"
    using assms(1,3) by (induction ts arbitrary: ids) (auto simp: txid_def res_simps)
  ultimately have "\<forall>x \<in> set (i # ids). length x = 32" by simp
  from merkle_root_total [OF assms(1) this] show thesis
    using assms(2,3) that by (auto simp: transactions_root_def)
qed

lemma transactions_root_length:
  assumes "hash_ok P" and "transactions_root P r ts = Inr root"
  shows "length root = 32"
proof -
  obtain i ids where "reward_txid P r = Inr i" "mapE (txid P) ts = Inr ids"
    using assms(2) by (auto simp: transactions_root_def bindE_eq_Inr)
  from transactions_root_total [OF assms(1) this] assms(2) show ?thesis by auto
qed

subsection \<open>Exceptions\<close>

lemma block_hash_raises: "raises_only value_errors (block_hash P b)"
  unfolding block_hash_def header_hash_def header_to_bytes_def exact_hash_def encode_target_def
  by (auto intro!: raises_intros join_fields_raises)

lemma txid_raises: "raises_only value_errors (txid P t)"
  unfolding txid_def transaction_to_bytes_def signing_bytes_def
  by (auto intro!: raises_intros join_fields_raises)

lemma transactions_root_raises: "raises_only value_errors (transactions_root P r ts)"
  unfolding transactions_root_def reward_txid_def reward_to_bytes_def merkle_root_def
  by (auto intro!: raises_intros join_fields_raises txid_raises)

subsection \<open>Properties\<close>

text \<open>\<open>header_wire_format\<close>: the header parser accepts a byte string exactly when it is the
  serialisation of a header with canonical texts, and returns that header: the hash of a header is
  the hash of its only encoding.\<close>

theorem header_wire_format:
  "header_from_bytes P bs = Inr h \<longleftrightarrow> header_canonical P h \<and> header_to_bytes P h = Inr bs"
  by (rule header_bytes.decode_iff)

text \<open>\<open>reward_wire_format\<close>: the same for the reward transaction.\<close>

theorem reward_wire_format:
  "reward_from_bytes P bs = Inr r \<longleftrightarrow> reward_canonical P r \<and> reward_to_bytes P r = Inr bs"
  by (rule reward_bytes.decode_iff)

text \<open>\<open>hash_meets_target_spec\<close>: the proof-of-work test holds exactly for a 32-byte hash whose
  big-endian value is at most a target between 1 and \<open>2^256 - 1\<close>; no other input raises.\<close>

theorem hash_meets_target_spec:
  "hash_meets_target h target \<longleftrightarrow>
     length h = 32 \<and> 0 < target \<and> target \<le> 2 ^ 256 - 1 \<and> from_bytes_be h \<le> target"
  by (auto simp: hash_meets_target_def encode_target_def MAX_TARGET_def)

end
