(* ===== verification/Miner.thy ===== *)
theory Miner
  imports Block
begin

text \<open>
  \<open>miner.py\<close>: the bounded search for a nonce. The loop runs over the attempts that are left, as the
  program's \<open>for _ in range(max_attempts)\<close> does, so it needs no fuel of its own.
\<close>

fun mine_loop :: "platform \<Rightarrow> block \<Rightarrow> nat \<Rightarrow> int \<Rightarrow> block res" where
  "mine_loop P b 0 nonce = raise MiningError ''no valid nonce found within max_attempts''"
| "mine_loop P b (Suc attempts) nonce =
     (if nonce > U64_MAX then raise MiningError ''no valid nonce found within max_attempts''
      else let candidate = with_nonce nonce b in
        bindE (block_hash P candidate) (\<lambda>h.
        if hash_meets_target h (bh_difficulty_target (bl_header candidate)) then Inr candidate
        else mine_loop P b attempts (nonce + 1)))"

definition mine_block :: "platform \<Rightarrow> block \<Rightarrow> int \<Rightarrow> block res" where
  "mine_block P b max_attempts =
     (if max_attempts \<le> 0 then raise MiningError ''max_attempts must be a positive integer''
      else mine_loop P b (nat max_attempts) (bh_nonce (bl_header b)))"

text \<open>A nonce that was tried without success.\<close>

definition missed :: "platform \<Rightarrow> block \<Rightarrow> int \<Rightarrow> bool" where
  "missed P b n \<longleftrightarrow> (\<exists>h. block_hash P (with_nonce n b) = Inr h
     \<and> \<not> hash_meets_target h (bh_difficulty_target (bl_header b)))"

definition finds :: "platform \<Rightarrow> block \<Rightarrow> block \<Rightarrow> int \<Rightarrow> nat \<Rightarrow> int \<Rightarrow> bool" where
  "finds P b c start k n \<longleftrightarrow> start \<le> n \<and> n < start + int k \<and> n \<le> U64_MAX \<and> c = with_nonce n b
     \<and> proof_of_work P c \<and> (\<forall>m. start \<le> m \<and> m < n \<longrightarrow> missed P b m)"

lemma finds_list:
  "finds P b c start k n \<longleftrightarrow> start \<le> n \<and> n < start + int k \<and> n \<le> U64_MAX \<and> c = with_nonce n b
     \<and> proof_of_work P c \<and> list_all (missed P b) [start..n - 1]"
  unfolding finds_def list_all_iff set_upto by (simp add: Ball_def)

lemma finds_first:
  "finds P b c start (Suc k) start \<longleftrightarrow> start \<le> U64_MAX \<and> c = with_nonce start b \<and> proof_of_work P c"
  by (auto simp: finds_def)

lemma finds_later:
  assumes "start < n"
  shows "finds P b c start (Suc k) n \<longleftrightarrow> missed P b start \<and> finds P b c (start + 1) k n"
proof -
  have "(\<forall>m. start \<le> m \<and> m < n \<longrightarrow> missed P b m) \<longleftrightarrow>
      missed P b start \<and> (\<forall>m. start + 1 \<le> m \<and> m < n \<longrightarrow> missed P b m)"
    using assms by (metis add1_zle_eq order_le_less order_refl)
  then show ?thesis using assms by (auto simp: finds_def)
qed

lemma finds_cases:
  "(\<exists>n. finds P b c start (Suc k) n) \<longleftrightarrow> start \<le> U64_MAX \<and>
     (c = with_nonce start b \<and> proof_of_work P c \<or> missed P b start \<and> (\<exists>n. finds P b c (start + 1) k n))"
proof -
  have "finds P b c start (Suc k) n \<Longrightarrow> n = start \<or> start < n" for n by (auto simp: finds_def)
  moreover have "finds P b c (start + 1) k n \<Longrightarrow> start < n \<and> start \<le> U64_MAX" for n
    by (auto simp: finds_def)
  ultimately show ?thesis using finds_first finds_later by metis
qed

lemma mine_loop_iff: "mine_loop P b k start = Inr c \<longleftrightarrow> (\<exists>n. finds P b c start k n)"
proof (induction k arbitrary: start)
  case (Suc k)
  show ?case
    unfolding finds_cases Suc.IH [symmetric]
    by (auto simp: Let_def res_simps missed_def proof_of_work_def)
qed (simp add: finds_def)

text \<open>\<open>mine_block_finds_first\<close>: mining returns exactly the candidate with the first nonce, from the
  block's own one on, within the attempts and 64 bits, whose hash meets the target; nothing but the
  nonce differs from the input.\<close>

theorem mine_block_finds_first:
  "mine_block P b attempts = Inr c \<longleftrightarrow>
     (\<exists>n. bh_nonce (bl_header b) \<le> n \<and> n < bh_nonce (bl_header b) + attempts \<and> n \<le> U64_MAX
        \<and> c = with_nonce n b \<and> proof_of_work P c
        \<and> list_all (missed P b) [bh_nonce (bl_header b)..n - 1])"
proof (cases "attempts \<le> 0")
  case False
  then show ?thesis by (simp add: mine_block_def mine_loop_iff finds_list)
qed (auto simp: mine_block_def)

end
