(* ===== verification/Consensus.thy ===== *)
theory Consensus
  imports Miner
begin

text \<open>
  \<open>consensus.py\<close>: the emission schedule, the genesis block, the construction of candidates and the
  validation and execution of a block. Lemmas: the closed form and the bounds of the subsidy, what
  an accepted block did to the ledger and to the supply, and that a mined candidate is accepted.
\<close>

definition ATOMS_PER_OUR :: int where "ATOMS_PER_OUR = 100000000"
definition MAX_SUPPLY_ATOMS :: int where "MAX_SUPPLY_ATOMS = 100000000 * ATOMS_PER_OUR"
definition INITIAL_REWARD_ATOMS :: int where "INITIAL_REWARD_ATOMS = 40 * ATOMS_PER_OUR"
definition REWARD_INTERVAL :: int where "REWARD_INTERVAL = 500000"
definition REWARD_NUMERATOR :: int where "REWARD_NUMERATOR = 4"
definition REWARD_DENOMINATOR :: int where "REWARD_DENOMINATOR = 5"
definition MAX_BLOCK_TRANSACTIONS :: int where "MAX_BLOCK_TRANSACTIONS = 10000"
definition TESTNET_INITIAL_TARGET :: int where "TESTNET_INITIAL_TARGET = 2 ^ 252 - 1"
definition TESTNET_GENESIS_TIMESTAMP :: int where "TESTNET_GENESIS_TIMESTAMP = 1786060800"
definition TESTNET_GENESIS_NONCE :: int where "TESTNET_GENESIS_NONCE = 10"
definition TESTNET_GENESIS_MINER_ADDRESS :: pystr where
  "TESTNET_GENESIS_MINER_ADDRESS = str ''tour1n4q74mo7ufkkeylcnp4fibdp2itrw67njmkxszhk''"

lemmas supply_constants = ATOMS_PER_OUR_def MAX_SUPPLY_ATOMS_def INITIAL_REWARD_ATOMS_def
  REWARD_INTERVAL_def REWARD_NUMERATOR_def REWARD_DENOMINATOR_def

record block_execution =
  ex_state :: account_state
  ex_total_supply :: int
  ex_subsidy :: int
  ex_fees :: int

definition validate_supply :: "int \<Rightarrow> unit res" where
  "validate_supply total_supply =
     (if \<not> (0 \<le> total_supply \<and> total_supply \<le> MAX_SUPPLY_ATOMS) then
        raise BlockError ''total supply is outside the consensus range''
      else Inr ())"

text \<open>The \<open>while\<close> loop of \<open>block_subsidy\<close>; the reward shrinks in every round.\<close>

function subsidy_loop :: "int \<Rightarrow> int \<Rightarrow> int \<Rightarrow> int" where
  "subsidy_loop era elapsed reward =
     (if elapsed < era \<and> reward > 0
      then subsidy_loop era (elapsed + 1) (reward * REWARD_NUMERATOR div REWARD_DENOMINATOR)
      else reward)"
  by pat_completeness auto
termination
  by (relation "measure (\<lambda>(era, elapsed, reward). nat reward)")
     (auto simp: REWARD_NUMERATOR_def REWARD_DENOMINATOR_def)

declare subsidy_loop.simps [simp del]

definition block_subsidy :: "int \<Rightarrow> int \<Rightarrow> int res" where
  "block_subsidy height total_supply =
     (if \<not> (0 \<le> height \<and> height \<le> U64_MAX) then
        raise BlockError ''block height must be an unsigned 64-bit integer''
      else bindE (validate_supply total_supply) (\<lambda>_.
        if height = 0 \<or> total_supply = MAX_SUPPLY_ATOMS then Inr 0
        else Inr (min (subsidy_loop (height div REWARD_INTERVAL) 0 INITIAL_REWARD_ATOMS)
                      (MAX_SUPPLY_ATOMS - total_supply))))"

definition genesis_block :: "platform \<Rightarrow> network_config \<Rightarrow> block res" where
  "genesis_block P network =
     (if network \<noteq> TESTNET then raise BlockError ''M3 defines only the testnet genesis block''
      else
      bindE (new_account_state P [] {} network) (\<lambda>empty_state.
      let reward = \<lparr>rt_version = REWARD_TRANSACTION_VERSION, rt_chain_id = net_chain_id network,
            rt_height = 0, rt_miner_address = TESTNET_GENESIS_MINER_ADDRESS, rt_amount_atoms = 0\<rparr>
      in
      bindE (transactions_root P reward []) (\<lambda>root.
      bindE (state_root P empty_state) (\<lambda>sroot.
      Inr \<lparr>bl_header = \<lparr>bh_version = BLOCK_VERSION, bh_chain_id = net_chain_id network, bh_height = 0,
              bh_previous_block_hash = replicate 32 0, bh_transactions_root = root,
              bh_state_root = sroot, bh_timestamp = TESTNET_GENESIS_TIMESTAMP,
              bh_difficulty_target = TESTNET_INITIAL_TARGET, bh_nonce = TESTNET_GENESIS_NONCE,
              bh_miner_address = TESTNET_GENESIS_MINER_ADDRESS\<rparr>,
           bl_reward = reward, bl_transactions = []\<rparr>))))"

definition build_block_candidate ::
  "platform \<Rightarrow> block \<Rightarrow> account_state \<Rightarrow> int \<Rightarrow> pystr \<Rightarrow> transaction list \<Rightarrow> int \<Rightarrow> int option \<Rightarrow> block res" where
  "build_block_candidate P parent s total_supply miner_address transactions timestamp difficulty_target =
     bindE (validate_supply total_supply) (\<lambda>_.
     if bh_height (bl_header parent) = U64_MAX then raise BlockError ''parent height is exhausted''
     else
     let height = bh_height (bl_header parent) + 1 in
     if \<not> (0 \<le> timestamp \<and> timestamp \<le> U64_MAX) then
       raise BlockError ''block timestamp must be an unsigned 64-bit integer''
     else if timestamp \<le> bh_timestamp (bl_header parent) then
       raise BlockError ''block timestamp must be greater than its parent's timestamp''
     else if int (length transactions) > MAX_BLOCK_TRANSACTIONS then
       raise BlockError ''block contains too many transactions''
     else
     let target = (case difficulty_target of None \<Rightarrow> bh_difficulty_target (bl_header parent)
                   | Some d \<Rightarrow> d) in
     if \<not> (0 < target \<and> target \<le> MAX_TARGET) then
       raise BlockError ''candidate difficulty target is outside the allowed range''
     else
     bindE (rethrow (\<lambda>c. c = AddressError)
              (\<lambda>_. Exn BlockError ''miner address is invalid for this network'')
              (decode_address P miner_address (st_network s))) (\<lambda>_.
     bindE (copy_state P s) (\<lambda>working.
     bindE (rethrow (\<lambda>c. c = StateError) (Exn BlockError)
       (case apply_transactions P transactions height working of
          (Inl e, _) \<Rightarrow> Inl e
        | (Inr fees, working) \<Rightarrow>
          bindE (block_subsidy height total_supply) (\<lambda>subsidy.
          let reward_amount = subsidy + fees in
          if reward_amount > U64_MAX then raise BlockError ''block reward plus fees exceed uint64''
          else
          let reward = \<lparr>rt_version = REWARD_TRANSACTION_VERSION, rt_chain_id = net_chain_id (st_network s),
                rt_height = height, rt_miner_address = miner_address, rt_amount_atoms = reward_amount\<rparr>
          in case credit_reward P miner_address reward_amount working of
               (Inl e, _) \<Rightarrow> Inl e
             | (Inr _, working) \<Rightarrow> Inr (reward, working)))) (\<lambda>(reward, working).
     bindE (block_hash P parent) (\<lambda>parent_hash.
     bindE (transactions_root P reward transactions) (\<lambda>root.
     bindE (state_root P working) (\<lambda>sroot.
     Inr \<lparr>bl_header = \<lparr>bh_version = BLOCK_VERSION, bh_chain_id = net_chain_id (st_network s),
             bh_height = height, bh_previous_block_hash = parent_hash, bh_transactions_root = root,
             bh_state_root = sroot, bh_timestamp = timestamp, bh_difficulty_target = target,
             bh_nonce = 0, bh_miner_address = miner_address\<rparr>,
          bl_reward = reward, bl_transactions = transactions\<rparr>)))))))"

definition validate_genesis ::
  "platform \<Rightarrow> block \<Rightarrow> account_state \<Rightarrow> int \<Rightarrow> network_config \<Rightarrow> block_execution res" where
  "validate_genesis P b s total_supply network =
     (if snap_accounts (snapshot s) \<noteq> [] \<or> snap_txids (snapshot s) \<noteq> {} then
        raise BlockError ''genesis requires an empty account state''
      else if total_supply \<noteq> 0 then raise BlockError ''genesis requires zero existing supply''
      else
      bindE (genesis_block P network) (\<lambda>g.
      if b \<noteq> g then raise BlockError ''genesis block does not match the testnet definition''
      else
      bindE (block_hash P b) (\<lambda>h.
      if \<not> hash_meets_target h (bh_difficulty_target (bl_header b)) then
        raise BlockError ''genesis Proof of Work is insufficient''
      else
      bindE (copy_state P s) (\<lambda>c.
      Inr \<lparr>ex_state = c, ex_total_supply = 0, ex_subsidy = 0, ex_fees = 0\<rparr>))))"

definition validate_and_execute_block ::
  "platform \<Rightarrow> block \<Rightarrow> block option \<Rightarrow> account_state \<Rightarrow> int \<Rightarrow> network_config \<Rightarrow> int option \<Rightarrow>
     block_execution res" where
  "validate_and_execute_block P b parent_opt s total_supply network expected_target =
     bindE (validate_supply total_supply) (\<lambda>_.
     case parent_opt of
       None \<Rightarrow> validate_genesis P b s total_supply network
     | Some parent \<Rightarrow>
     let header = bl_header b; reward = bl_reward b in
     if bh_version header \<noteq> BLOCK_VERSION then raise BlockError ''unsupported block version''
     else if bh_chain_id header \<noteq> net_chain_id network \<or> st_network s \<noteq> network then
       raise BlockError ''block or state belongs to another network''
     else if bh_height header \<noteq> bh_height (bl_header parent) + 1 then
       raise BlockError ''block height does not follow its parent''
     else
     bindE (block_hash P parent) (\<lambda>parent_hash.
     if bh_previous_block_hash header \<noteq> parent_hash then
       raise BlockError ''previous block hash does not match the parent''
     else if bh_timestamp header \<le> bh_timestamp (bl_header parent) then
       raise BlockError ''block timestamp does not increase''
     else
     let required_target = (case expected_target of None \<Rightarrow> bh_difficulty_target (bl_header parent)
                            | Some d \<Rightarrow> d) in
     if \<not> (0 < required_target \<and> required_target \<le> MAX_TARGET) then
       raise BlockError ''expected difficulty target is outside the allowed range''
     else if bh_difficulty_target header \<noteq> required_target then
       raise BlockError ''block difficulty target does not match the expected target''
     else if \<not> (0 < bh_difficulty_target header \<and> bh_difficulty_target header \<le> MAX_TARGET) then
       raise BlockError ''block difficulty target is outside the allowed range''
     else if int (length (bl_transactions b)) > MAX_BLOCK_TRANSACTIONS then
       raise BlockError ''block contains too many transactions''
     else
     bindE (rethrow (\<lambda>c. c = AddressError) (\<lambda>_. Exn BlockError ''block miner address is invalid'')
              (decode_address P (bh_miner_address header) network)) (\<lambda>_.
     bindE (rethrow is_value_error
              (\<lambda>_. Exn BlockError ''block transactions are not canonically encodable'')
              (transactions_root P reward (bl_transactions b))) (\<lambda>expected_root.
     if bh_transactions_root header \<noteq> expected_root then
       raise BlockError ''block transactions root does not match its body''
     else
     bindE (rethrow is_value_error (\<lambda>_. Exn BlockError ''block header is not canonically encodable'')
              (bindE (block_hash P b) (\<lambda>h. Inr (hash_meets_target h (bh_difficulty_target header))))) (\<lambda>proof_is_valid.
     if \<not> proof_is_valid then raise BlockError ''block Proof of Work is insufficient''
     else if rt_version reward \<noteq> REWARD_TRANSACTION_VERSION then
       raise BlockError ''unsupported reward transaction version''
     else if rt_chain_id reward \<noteq> net_chain_id network then
       raise BlockError ''reward transaction belongs to another network''
     else if rt_height reward \<noteq> bh_height header then
       raise BlockError ''reward transaction height does not match the block''
     else if rt_miner_address reward \<noteq> bh_miner_address header then
       raise BlockError ''reward recipient does not match the block miner''
     else
     bindE (copy_state P s) (\<lambda>working.
     bindE (rethrow (\<lambda>c. c = StateError) (Exn BlockError)
       (case apply_transactions P (bl_transactions b) (bh_height header) working of
          (Inl e, _) \<Rightarrow> Inl e
        | (Inr fees, working) \<Rightarrow>
          bindE (block_subsidy (bh_height header) total_supply) (\<lambda>subsidy.
          let expected_reward = subsidy + fees in
          if expected_reward > U64_MAX then raise BlockError ''block reward plus fees exceed uint64''
          else if rt_amount_atoms reward \<noteq> expected_reward then
            raise BlockError ''reward amount is not the subsidy plus fees''
          else case credit_reward P (rt_miner_address reward) (rt_amount_atoms reward) working of
               (Inl e, _) \<Rightarrow> Inl e
             | (Inr _, working) \<Rightarrow> Inr (fees, subsidy, working)))) (\<lambda>(fees, subsidy, working).
     bindE (state_root P working) (\<lambda>sroot.
     if bh_state_root header \<noteq> sroot then
       raise BlockError ''block state root does not match the executed state''
     else Inr \<lparr>ex_state = working, ex_total_supply = total_supply + subsidy, ex_subsidy = subsidy,
               ex_fees = fees\<rparr>))))))))"

subsection \<open>The subsidy\<close>

definition decay :: "int \<Rightarrow> int" where
  "decay r = r * REWARD_NUMERATOR div REWARD_DENOMINATOR"

definition scheduled_reward :: "nat \<Rightarrow> int" where
  "scheduled_reward era = (decay ^^ era) INITIAL_REWARD_ATOMS"

lemma validate_supply_iff [simp]: "validate_supply x = Inr u \<longleftrightarrow> 0 \<le> x \<and> x \<le> MAX_SUPPLY_ATOMS"
  by (simp add: validate_supply_def)

lemma decay_bounds: "0 \<le> r \<Longrightarrow> 0 \<le> decay r \<and> 5 * decay r \<le> 4 * r"
  unfolding decay_def supply_constants by auto

lemma scheduled_reward_bounds: "0 \<le> scheduled_reward n" "5 * scheduled_reward (Suc n) \<le> 4 * scheduled_reward n"
proof -
  show 0: "0 \<le> scheduled_reward n" for n
    by (induction n) (auto simp: scheduled_reward_def supply_constants decay_bounds)
  show "5 * scheduled_reward (Suc n) \<le> 4 * scheduled_reward n"
    using decay_bounds [OF 0 [of n]] by (simp add: scheduled_reward_def)
qed

lemma decay_zero: "(decay ^^ n) 0 = 0"
  by (induction n) (auto simp: decay_def)

lemma subsidy_loop_decay: "0 \<le> r \<Longrightarrow> subsidy_loop (e + int n) e r = (decay ^^ n) r"
proof (induction n arbitrary: e r)
  case 0
  then show ?case by (simp add: subsidy_loop.simps)
next
  case (Suc n)
  show ?case
  proof (cases "r = 0")
    case True
    then show ?thesis using decay_zero [of "Suc n"] by (simp add: subsidy_loop.simps)
  next
    case False
    then have "subsidy_loop (e + int (Suc n)) e r = subsidy_loop ((e + 1) + int n) (e + 1) (decay r)"
      using Suc.prems by (subst subsidy_loop.simps) (simp add: decay_def algebra_simps)
    also have "\<dots> = (decay ^^ n) (decay r)" using Suc decay_bounds by simp
    finally show ?thesis by (simp add: funpow_swap1)
  qed
qed

lemma block_subsidy_closed:
  "block_subsidy h supply = Inr v \<longleftrightarrow> 0 \<le> h \<and> h \<le> U64_MAX \<and> 0 \<le> supply \<and> supply \<le> MAX_SUPPLY_ATOMS
     \<and> v = (if h = 0 then 0
            else min (scheduled_reward (nat (h div REWARD_INTERVAL))) (MAX_SUPPLY_ATOMS - supply))"
proof -
  have "subsidy_loop (h div REWARD_INTERVAL) 0 INITIAL_REWARD_ATOMS
      = scheduled_reward (nat (h div REWARD_INTERVAL))" if "0 \<le> h"
    using subsidy_loop_decay [of INITIAL_REWARD_ATOMS 0 "nat (h div REWARD_INTERVAL)"] that
    by (simp add: scheduled_reward_def INITIAL_REWARD_ATOMS_def ATOMS_PER_OUR_def pos_imp_zdiv_nonneg_iff
        REWARD_INTERVAL_def)
  then show ?thesis
    using scheduled_reward_bounds(1) [of "nat (h div REWARD_INTERVAL)"]
    by (auto simp: block_subsidy_def res_simps)
qed

lemma block_subsidy_bounds:
  "block_subsidy h supply = Inr v \<Longrightarrow> 0 \<le> v \<and> 0 \<le> supply \<and> supply + v \<le> MAX_SUPPLY_ATOMS
     \<and> v \<le> MAX_SUPPLY_ATOMS"
  using scheduled_reward_bounds(1) by (auto simp: block_subsidy_closed)

subsection \<open>Execution\<close>

text \<open>What the construction and the validation of a block both do to the working copy.\<close>

definition settles ::
  "platform \<Rightarrow> account_state \<Rightarrow> int \<Rightarrow> int \<Rightarrow> pystr \<Rightarrow> transaction list \<Rightarrow> int \<Rightarrow> int \<Rightarrow> account_state \<Rightarrow> bool"
where
  "settles P s height supply miner ts fees subsidy w \<longleftrightarrow>
     (\<exists>w1. apply_transactions P ts height s = (Inr fees, w1) \<and> block_subsidy height supply = Inr subsidy
        \<and> subsidy + fees \<le> U64_MAX \<and> credit_reward P miner (subsidy + fees) w1 = (Inr (), w))"

lemma settlesD:
  assumes P: "hash_ok P" and ok: "state_ok P s" and st: "settles P s h supply miner ts fees subsidy w"
  shows "state_ok P w" and "st_network w = st_network s"
    and "total_balance w = total_balance s + subsidy"
    and "state_normal s \<Longrightarrow> state_normal w"
    and "fees = sum_list (map tx_fee_atoms ts)"
    and "ledger_of w = (let L = fold ledger_transfer ts (ledger_of s)
           in L(miner := (fst (L miner) + subsidy + fees, snd (L miner))))"
    and "Inr ` st_txids w = txid P ` set ts \<union> Inr ` st_txids s"
    and "0 \<le> subsidy" "0 \<le> supply" "supply + subsidy \<le> MAX_SUPPLY_ATOMS"
proof -
  obtain w1 where w1: "apply_transactions P ts h s = (Inr fees, w1)" "block_subsidy h supply = Inr subsidy"
      "credit_reward P miner (subsidy + fees) w1 = (Inr (), w)"
    using st by (auto simp: settles_def)
  note ok1 = apply_transactions_ok [OF P ok w1(1)]
  note sp = apply_transactions_spec [OF P ok w1(1)]
  note cr = credit_reward_spec [OF ok1(1) w1(3)]
  show "state_ok P w" "st_network w = st_network s" using cr ok1 by simp_all
  show "total_balance w = total_balance s + subsidy" using cr(2) sp(3) by simp
  show "state_normal w" if "state_normal s"
    using state_normal_credit [OF ok1(1) _ w1(3)] apply_transactions_normal [OF P ok that w1(1)] by simp
  show "fees = sum_list (map tx_fee_atoms ts)" by (rule sp(1))
  show "ledger_of w = (let L = fold ledger_transfer ts (ledger_of s)
           in L(miner := (fst (L miner) + subsidy + fees, snd (L miner))))"
    using cr(5) sp(2) by (simp add: Let_def add.assoc)
  show "Inr ` st_txids w = txid P ` set ts \<union> Inr ` st_txids s" using cr(4) sp(4) by simp
  show "0 \<le> subsidy" "0 \<le> supply" "supply + subsidy \<le> MAX_SUPPLY_ATOMS"
    using block_subsidy_bounds [OF w1(2)] by auto
qed

text \<open>The guards of the validation that do not look at the state.\<close>

definition block_guards ::
  "platform \<Rightarrow> block \<Rightarrow> block \<Rightarrow> int \<Rightarrow> network_config \<Rightarrow> int \<Rightarrow> bool" where
  "block_guards P b parent supply network target \<longleftrightarrow>
     0 \<le> supply \<and> supply \<le> MAX_SUPPLY_ATOMS
   \<and> bh_version (bl_header b) = BLOCK_VERSION \<and> bh_chain_id (bl_header b) = net_chain_id network
   \<and> bh_height (bl_header b) = bh_height (bl_header parent) + 1
   \<and> block_hash P parent = Inr (bh_previous_block_hash (bl_header b))
   \<and> bh_timestamp (bl_header parent) < bh_timestamp (bl_header b)
   \<and> bh_difficulty_target (bl_header b) = target \<and> 0 < target \<and> target \<le> MAX_TARGET
   \<and> int (length (bl_transactions b)) \<le> MAX_BLOCK_TRANSACTIONS
   \<and> is_valid_address P (bh_miner_address (bl_header b)) network
   \<and> transactions_root P (bl_reward b) (bl_transactions b) = Inr (bh_transactions_root (bl_header b))
   \<and> proof_of_work P b
   \<and> rt_version (bl_reward b) = REWARD_TRANSACTION_VERSION
   \<and> rt_chain_id (bl_reward b) = net_chain_id network
   \<and> rt_height (bl_reward b) = bh_height (bl_header b)
   \<and> rt_miner_address (bl_reward b) = bh_miner_address (bl_header b)"

definition required_target :: "int option \<Rightarrow> block \<Rightarrow> int" where
  "required_target d parent = (case d of None \<Rightarrow> bh_difficulty_target (bl_header parent) | Some t \<Rightarrow> t)"

lemma validate_block_iff:
  assumes ok: "state_ok P s"
  shows "validate_and_execute_block P b (Some parent) s supply network d = Inr ex \<longleftrightarrow>
     block_guards P b parent supply network (required_target d parent) \<and> st_network s = network
   \<and> (\<exists>fees subsidy w. settles P s (bh_height (bl_header b)) supply (bh_miner_address (bl_header b))
          (bl_transactions b) fees subsidy w
        \<and> rt_amount_atoms (bl_reward b) = subsidy + fees
        \<and> state_root P w = Inr (bh_state_root (bl_header b))
        \<and> ex = \<lparr>ex_state = w, ex_total_supply = supply + subsidy, ex_subsidy = subsidy, ex_fees = fees\<rparr>)"
  by (auto simp: validate_and_execute_block_def copy_state_ok [OF ok] block_guards_def required_target_def
      Let_def res_simps proof_of_work_def settles_def is_valid_address_iff)

definition candidate_reward ::
  "network_config \<Rightarrow> int \<Rightarrow> pystr \<Rightarrow> int \<Rightarrow> reward_transaction" where
  "candidate_reward network height miner amount =
     \<lparr>rt_version = REWARD_TRANSACTION_VERSION, rt_chain_id = net_chain_id network, rt_height = height,
      rt_miner_address = miner, rt_amount_atoms = amount\<rparr>"

definition candidate_guards ::
  "platform \<Rightarrow> block \<Rightarrow> account_state \<Rightarrow> int \<Rightarrow> pystr \<Rightarrow> transaction list \<Rightarrow> int \<Rightarrow> int \<Rightarrow> bool" where
  "candidate_guards P parent s supply miner ts timestamp target \<longleftrightarrow>
     0 \<le> supply \<and> supply \<le> MAX_SUPPLY_ATOMS \<and> bh_height (bl_header parent) \<noteq> U64_MAX
   \<and> 0 \<le> timestamp \<and> timestamp \<le> U64_MAX \<and> bh_timestamp (bl_header parent) < timestamp
   \<and> int (length ts) \<le> MAX_BLOCK_TRANSACTIONS \<and> 0 < target \<and> target \<le> MAX_TARGET
   \<and> is_valid_address P miner (st_network s)"

lemma build_block_candidate_iff:
  assumes ok: "state_ok P s"
  shows "build_block_candidate P parent s supply miner ts timestamp d = Inr b \<longleftrightarrow>
     candidate_guards P parent s supply miner ts timestamp (required_target d parent)
   \<and> (\<exists>fees subsidy w ph root sroot.
        settles P s (bh_height (bl_header parent) + 1) supply miner ts fees subsidy w
      \<and> block_hash P parent = Inr ph
      \<and> transactions_root P (candidate_reward (st_network s) (bh_height (bl_header parent) + 1) miner
            (subsidy + fees)) ts = Inr root
      \<and> state_root P w = Inr sroot
      \<and> b = \<lparr>bl_header = \<lparr>bh_version = BLOCK_VERSION, bh_chain_id = net_chain_id (st_network s),
               bh_height = bh_height (bl_header parent) + 1, bh_previous_block_hash = ph,
               bh_transactions_root = root, bh_state_root = sroot, bh_timestamp = timestamp,
               bh_difficulty_target = required_target d parent, bh_nonce = 0, bh_miner_address = miner\<rparr>,
             bl_reward = candidate_reward (st_network s) (bh_height (bl_header parent) + 1) miner (subsidy + fees),
             bl_transactions = ts\<rparr>)"
  by (auto simp: build_block_candidate_def copy_state_ok [OF ok] candidate_guards_def required_target_def
      candidate_reward_def Let_def res_simps settles_def is_valid_address_iff)

lemma candidate_fields:
  assumes "state_ok P s" and "build_block_candidate P parent s supply miner ts timestamp d = Inr b"
  shows "bh_nonce (bl_header b) = 0" and "bh_difficulty_target (bl_header b) = required_target d parent"
    and "bh_height (bl_header b) = bh_height (bl_header parent) + 1" and "bl_transactions b = ts"
    and "block_hash P parent = Inr (bh_previous_block_hash (bl_header b))"
    and "bh_timestamp (bl_header b) = timestamp" and "bh_miner_address (bl_header b) = miner"
    and "rt_miner_address (bl_reward b) = miner"
  using assms(2) unfolding build_block_candidate_iff [OF assms(1)] by (auto simp: candidate_reward_def)

lemma mined_fields:
  assumes "mine_block P b attempts = Inr c"
  shows "\<exists>n. c = with_nonce n b \<and> proof_of_work P c"
  using assms by (auto simp: mine_block_def mine_loop_iff finds_def split: if_splits)

lemma mined_same:
  assumes "mine_block P b attempts = Inr c"
  shows "bl_transactions c = bl_transactions b" and "bl_reward c = bl_reward b"
    and "bh_height (bl_header c) = bh_height (bl_header b)"
    and "bh_previous_block_hash (bl_header c) = bh_previous_block_hash (bl_header b)"
    and "bh_timestamp (bl_header c) = bh_timestamp (bl_header b)"
    and "bh_difficulty_target (bl_header c) = bh_difficulty_target (bl_header b)"
  using mined_fields [OF assms] by auto

lemma candidate_nonce_valid:
  assumes P: "hash_ok P" and ok: "state_ok P s"
    and b: "build_block_candidate P parent s supply miner ts timestamp d = Inr b"
    and w: "proof_of_work P (with_nonce n b)"
  shows "\<exists>ex. validate_and_execute_block P (with_nonce n b) (Some parent) s supply (st_network s) d = Inr ex
     \<and> ex_subsidy ex + ex_fees ex = rt_amount_atoms (bl_reward b)"
  using w b unfolding build_block_candidate_iff [OF ok] validate_block_iff [OF ok]
  by (elim conjE exE, intro exI conjI)
     (auto simp: block_guards_def candidate_guards_def candidate_reward_def)

lemma mined_candidate_valid:
  assumes P: "hash_ok P" and ok: "state_ok P s"
    and b: "build_block_candidate P parent s supply miner ts timestamp d = Inr b"
    and c: "mine_block P b attempts = Inr c"
  shows "\<exists>ex. validate_and_execute_block P c (Some parent) s supply (st_network s) d = Inr ex
     \<and> ex_subsidy ex + ex_fees ex = rt_amount_atoms (bl_reward c)"
  using candidate_nonce_valid [OF P ok b] mined_fields [OF c] by auto

text \<open>With balances that sum up to at most the supply nothing overflows: a batch that applies gives a
  candidate.\<close>

lemma balance_le_total: "state_ok P s \<Longrightarrow> acc_balance (account_of s a) \<le> total_balance s"
proof -
  assume ok: "state_ok P s"
  have nn: "\<forall>e \<in> set (st_accounts s). 0 \<le> acc_balance (snd e)"
    using ok by (auto simp: state_ok_def account_ok_def)
  have "0 \<le> total_balance s"
    using nn by (auto simp: total_balance_def dict_sum_def intro!: sum_list_nonneg)
  then show ?thesis
    using dict_sum_member [OF state_okD(1) [OF ok] _ nn, of a] 
    by (auto simp: account_of_def total_balance_def empty_account_def split: option.splits)
qed

lemma settles_total:
  assumes P: "hash_ok P" and ok: "state_ok P s" and tb: "total_balance s \<le> supply"
    and sup: "0 \<le> supply" "supply \<le> MAX_SUPPLY_ATOMS"
    and a: "apply_transactions P ts h s = (Inr fees, w1)" and m: "is_valid_address P miner (st_network s)"
  shows "\<exists>subsidy w. settles P s h supply miner ts fees subsidy w"
proof -
  have h: "0 \<le> h" "h \<le> U64_MAX" using a by (auto simp: apply_transactions_def split: if_splits)
  then obtain subsidy where sub: "block_subsidy h supply = Inr subsidy"
    using sup by (simp add: block_subsidy_closed)
  note b = block_subsidy_bounds [OF sub]
  have fees: "0 \<le> fees"
    using foldE_apply_step_mono [OF P ok] a by (auto simp: apply_transactions_iff [OF P ok])
  note ok1 = apply_transactions_ok [OF P ok a]
  have tot: "total_balance w1 + fees = total_balance s" using apply_transactions_spec(3) [OF P ok a] by simp
  have "0 \<le> acc_balance (account_of w1 miner)"
    using state_okD(2) [OF ok1(1)] by (simp add: account_ok_def)
  moreover have "acc_balance (account_of w1 miner) \<le> total_balance w1" by (rule balance_le_total [OF ok1(1)])
  ultimately have bound: "acc_balance (account_of w1 miner) + (subsidy + fees) \<le> MAX_SUPPLY_ATOMS"
      "subsidy + fees \<le> MAX_SUPPLY_ATOMS"
    using tot tb b fees by linarith+
  have "MAX_SUPPLY_ATOMS \<le> U64_MAX" by (simp add: MAX_SUPPLY_ATOMS_def ATOMS_PER_OUR_def U64_MAX_def)
  with bound have "\<exists>w. credit_reward P miner (subsidy + fees) w1 = (Inr (), w)"
    using m ok1(2) b fees unfolding credit_reward_iff [OF ok1(1)] by auto
  then show ?thesis
    using a sub bound \<open>MAX_SUPPLY_ATOMS \<le> U64_MAX\<close> unfolding settles_def by fastforce
qed

lemma reward_txid_total:
  assumes P: "platform_ok P" and n: "network_fits network" and m: "is_valid_address P miner network"
    and "0 \<le> height" "height \<le> U64_MAX" "0 \<le> amount" "amount \<le> U64_MAX"
  shows "\<exists>i. reward_txid P (candidate_reward network height miner amount) = Inr i"
proof -
  have "\<exists>bs. reward_to_bytes P (candidate_reward network height miner amount) = Inr bs"
    unfolding reward_to_bytes_def candidate_reward_def
    using assms canonical_text_encodes [OF chain_id_canonical [OF _ n]] 
      canonical_text_encodes [OF address_canonical [OF _ n m]]
    by (intro join_fields_total)
       (auto simp: encode_u64_total MAX_CHAIN_ID_BYTES_def MAX_ADDRESS_BYTES_def U32_MAX_def
         REWARD_TRANSACTION_DOMAIN_def byte_literal_def encode_unsigned_range U16_MAX_def
         REWARD_TRANSACTION_VERSION_def intro!: encode_bytes_total)
  then show ?thesis by (auto simp: reward_txid_def)
qed

lemma candidate_total:
  assumes P: "platform_ok P" and n: "network_fits (st_network s)" and ok: "state_ok P s"
    and tb: "total_balance s \<le> supply"
    and g: "candidate_guards P parent s supply miner ts timestamp (required_target d parent)"
    and ph: "block_hash P parent = Inr ph"
    and a: "apply_transactions P ts (bh_height (bl_header parent) + 1) s = (Inr fees, w1)"
  shows "\<exists>b. build_block_candidate P parent s supply miner ts timestamp d = Inr b"
proof -
  let ?h = "bh_height (bl_header parent) + 1"
  have hP: "hash_ok P" using P by simp
  obtain subsidy w where st: "settles P s ?h supply miner ts fees subsidy w"
    using settles_total [OF hP ok tb _ _ a, of miner] g by (auto simp: candidate_guards_def)
  have run: "foldE (apply_step P ?h) ts (0, s) = Inr (fees, w1)" and h: "0 \<le> ?h" "?h \<le> U64_MAX"
    using a by (auto simp: apply_transactions_iff [OF hP ok])
  have "0 \<le> subsidy + fees" "subsidy + fees \<le> U64_MAX"
    using st settlesD(8) [OF hP ok st] foldE_apply_step_mono [OF hP ok run] by (auto simp: settles_def)
  then obtain i where i: "reward_txid P (candidate_reward (st_network s) ?h miner (subsidy + fees)) = Inr i"
    using reward_txid_total [OF P n _ h] g by (auto simp: candidate_guards_def)
  have "\<exists>ids. mapE (txid P) ts = Inr ids"
    using batch_member_valid [OF hP ok run] mapE_total [of ts "txid P" "\<lambda>t. projr (txid P t)"] by fastforce
  then obtain root where "transactions_root P (candidate_reward (st_network s) ?h miner (subsidy + fees)) ts
      = Inr root" using transactions_root_total [OF hP i] by metis
  moreover obtain sroot where "state_root P w = Inr sroot"
    using state_root_total [OF P _ settlesD(1) [OF hP ok st]] settlesD(2) [OF hP ok st] n by metis
  ultimately show ?thesis
    using st g ph unfolding build_block_candidate_iff [OF ok] by blast
qed

subsection \<open>Exceptions\<close>

lemma block_subsidy_raises: "raises_only {BlockError} (block_subsidy h x)"
  unfolding block_subsidy_def validate_supply_def by (intro raises_intros) auto

lemma validate_block_raises:
  assumes P: "platform_ok P" and n: "network_fits network" and ok: "state_ok P s"
    and ph: "block_hash P parent = Inr ph"
  shows "raises_only {BlockError} (validate_and_execute_block P b (Some parent) s supply network d)"
proof -
  have addr: "raises_only {BlockError} (rethrow (\<lambda>c. c = AddressError)
      (\<lambda>_. Exn BlockError ''block miner address is invalid'') (decode_address P a network))" for a
    by (rule raises_rethrow [OF decode_address_raises]) auto
  have root: "raises_only {BlockError} (rethrow is_value_error
      (\<lambda>_. Exn BlockError ''block transactions are not canonically encodable'') (transactions_root P r ts))" for r ts
    by (rule raises_rethrow_value [OF transactions_root_raises]) simp
  have pow: "raises_only {BlockError} (rethrow is_value_error
      (\<lambda>_. Exn BlockError ''block header is not canonically encodable'')
      (bindE (block_hash P b) (\<lambda>h. Inr (hash_meets_target h t))))" for t
    by (rule raises_rethrow_value) (auto intro!: raises_intros block_hash_raises)
  show ?thesis
  proof (cases "st_network s = network")
    case False
    then show ?thesis
      unfolding validate_and_execute_block_def validate_supply_def Let_def option.case
      by (intro raises_intros) (auto intro!: raises_intros)
  next
    case True
    have exec: "raises_only {BlockError} (rethrow (\<lambda>c. c = StateError) (Exn BlockError)
       (case apply_transactions P ts h s of
          (Inl e, _) \<Rightarrow> Inl e
        | (Inr fees, working) \<Rightarrow>
          bindE (block_subsidy h' supply) (\<lambda>subsidy.
          if subsidy + fees > U64_MAX then raise BlockError ''block reward plus fees exceed uint64''
          else if rt_amount_atoms reward \<noteq> subsidy + fees then
            raise BlockError ''reward amount is not the subsidy plus fees''
          else case credit_reward P (rt_miner_address reward) (rt_amount_atoms reward) working of
               (Inl e, _) \<Rightarrow> Inl e
             | (Inr _, working) \<Rightarrow> Inr (fees, subsidy, working))))" for ts h h' reward
      using apply_transactions_raises [OF P _ ok, of ts h] apply_transactions_ok(1) [OF _ ok] P n True
      by (intro raises_rethrow [of "{StateError, BlockError}"] raises_intros
          raises_mono [OF apply_transactions_raises [OF P _ ok]] raises_mono [OF block_subsidy_raises]
          raises_mono [OF credit_reward_raises]) auto
    have sroot: "raises_only {BlockError} (state_root P w)"
      if "credit_reward P m a w1 = (Inr u, w)" "apply_transactions P ts h s = (Inr fees, w1)" for m a u w w1 ts h fees
    proof -
      have "hash_ok P" using P by simp
      note w1 = apply_transactions_ok [OF this ok that(2)]
      note w = credit_reward_spec [OF w1(1) that(1)]
      show ?thesis using state_root_total [OF P _ w(1)] w(3) w1(2) n True by (metis raises_Inr)
    qed
    show ?thesis
      unfolding validate_and_execute_block_def validate_supply_def Let_def option.case copy_state_ok [OF ok] ph bindE_Inr
      by (intro raises_intros addr root pow exec) (auto simp: res_simps elim: sroot)
  qed
qed

subsection \<open>The schedule\<close>

definition emission :: "nat \<Rightarrow> int" where
  "emission n = (\<Sum>h = 1..n. scheduled_reward (h div 500000))"

lemma scheduled_sum: "(\<Sum>k < m. scheduled_reward k) \<le> 5 * (INITIAL_REWARD_ATOMS - scheduled_reward m)"
proof (induction m)
  case (Suc m)
  then show ?case using scheduled_reward_bounds(2) [of m] by simp
qed (simp add: scheduled_reward_def)

lemma emission_bound: "emission n \<le> MAX_SUPPLY_ATOMS"
proof -
  let ?m = "n div 500000 + 1"
  have sub: "{1..n} \<subseteq> {..< ?m * 500000}"
    using div_mult_mod_eq [of n 500000] mod_less_divisor [of 500000 n] by (auto simp: algebra_simps)
  have "emission n \<le> (\<Sum>h < ?m * 500000. scheduled_reward (h div 500000))"
    unfolding emission_def using sub scheduled_reward_bounds(1) by (intro sum_mono2) auto
  also have "\<dots> = (\<Sum>k < ?m. \<Sum>h = k * 500000..< k * 500000 + 500000. scheduled_reward (h div 500000))"
    by (rule sum.nat_group [symmetric])
  also have "\<dots> = (\<Sum>k < ?m. 500000 * scheduled_reward k)"
  proof (rule sum.cong)
    fix k :: nat
    have "h div 500000 = k" if "h \<in> {k * 500000..< k * 500000 + 500000}" for h
      using that by (intro div_nat_eqI) (auto simp: algebra_simps)
    then show "(\<Sum>h = k * 500000..< k * 500000 + 500000. scheduled_reward (h div 500000)) = 500000 * scheduled_reward k"
      by simp
  qed simp
  also have "\<dots> = 500000 * (\<Sum>k < ?m. scheduled_reward k)" by (simp add: sum_distrib_left)
  also have "\<dots> \<le> 500000 * (5 * INITIAL_REWARD_ATOMS)"
  proof (rule mult_left_mono)
    show "(\<Sum>k < ?m. scheduled_reward k) \<le> 5 * INITIAL_REWARD_ATOMS"
      using scheduled_sum [of ?m] scheduled_reward_bounds(1) [of ?m] by simp
  qed simp
  finally show ?thesis by (simp add: supply_constants)
qed

lemma emission_Suc: "emission (Suc n) = emission n + scheduled_reward (Suc n div 500000)"
  by (simp add: emission_def)

lemma emission_nonneg: "0 \<le> emission n"
  unfolding emission_def using scheduled_reward_bounds(1) by (intro sum_nonneg) auto

lemma scheduled_subsidy:
  assumes "h = int (Suc n)" and "h \<le> U64_MAX"
  shows "block_subsidy h (emission n) = Inr (scheduled_reward (Suc n div 500000))"
proof -
  have "nat (h div REWARD_INTERVAL) = Suc n div 500000"
    using assms(1) by (simp add: REWARD_INTERVAL_def nat_div_distrib del: of_nat_Suc)
  then show ?thesis
    using assms emission_bound [of n] emission_bound [of "Suc n"] emission_nonneg [of n]
    by (simp add: block_subsidy_closed emission_Suc)
qed

subsection \<open>Candidates have a hash\<close>

lemma header_to_bytes_total:
  assumes P: "platform_ok P" and n: "network_fits network" and m: "is_valid_address P (bh_miner_address h) network"
    and c: "bh_chain_id h = net_chain_id network" and x: "header_exact h"
    and r: "0 \<le> bh_version h" "bh_version h \<le> U16_MAX" "0 \<le> bh_height h" "bh_height h \<le> U64_MAX"
      "0 \<le> bh_timestamp h" "bh_timestamp h \<le> U64_MAX" "0 \<le> bh_nonce h" "bh_nonce h \<le> U64_MAX"
  shows "\<exists>bs. header_to_bytes P h = Inr bs"
proof -
  have "\<exists>bs. join_fields (header_fields P h) = Inr bs"
    unfolding header_fields_def
    using assms canonical_text_encodes [OF chain_id_canonical [OF _ n]]
      canonical_text_encodes [OF address_canonical [OF _ n m]]
    by (intro join_fields_total)
       (auto simp: encode_u64_total MAX_CHAIN_ID_BYTES_def MAX_ADDRESS_BYTES_def U32_MAX_def
         BLOCK_HEADER_DOMAIN_def byte_literal_def encode_unsigned_range header_exact_def
         intro!: encode_bytes_total)
  then show ?thesis using x by (auto simp: header_to_bytes_iff)
qed

lemma candidate_hash:
  assumes P: "platform_ok P" and n: "network_fits (st_network s)" and ok: "state_ok P s"
    and b: "build_block_candidate P parent s supply miner ts timestamp d = Inr b"
    and h: "0 \<le> bh_height (bl_header parent)" and nonce: "0 \<le> nonce" "nonce \<le> U64_MAX"
  shows "\<exists>i. block_hash P (with_nonce nonce b) = Inr i"
proof -
  have hP: "hash_ok P" using P by simp
  from b obtain fees subsidy w ph root sroot where
    g: "candidate_guards P parent s supply miner ts timestamp (required_target d parent)" and
    st: "settles P s (bh_height (bl_header parent) + 1) supply miner ts fees subsidy w" and
    ph: "block_hash P parent = Inr ph" and
    root: "transactions_root P (candidate_reward (st_network s) (bh_height (bl_header parent) + 1) miner
            (subsidy + fees)) ts = Inr root" and
    sroot: "state_root P w = Inr sroot" and
    b': "bl_header b = \<lparr>bh_version = BLOCK_VERSION, bh_chain_id = net_chain_id (st_network s),
               bh_height = bh_height (bl_header parent) + 1, bh_previous_block_hash = ph,
               bh_transactions_root = root, bh_state_root = sroot, bh_timestamp = timestamp,
               bh_difficulty_target = required_target d parent, bh_nonce = 0, bh_miner_address = miner\<rparr>"
    unfolding build_block_candidate_iff [OF ok] by auto
  have "length ph = 32" by (rule block_hash_length [OF hP ph])
  moreover have "length root = 32"
    by (rule transactions_root_length [OF hP root])
  moreover have "length sroot = 32"
    using state_root_total [OF P _ settlesD(1) [OF hP ok st]] settlesD(2) [OF hP ok st] n sroot by auto
  moreover have "bh_height (bl_header parent) + 1 \<le> U64_MAX"
    using st by (auto simp: settles_def block_subsidy_closed)
  ultimately have "\<exists>bs. header_to_bytes P (bl_header (with_nonce nonce b)) = Inr bs"
    using g h nonce by (intro header_to_bytes_total [OF P n])
      (auto simp: b' candidate_guards_def header_exact_def BLOCK_VERSION_def U16_MAX_def)
  then show ?thesis by (auto simp: block_hash_def header_hash_def)
qed

subsection \<open>The genesis block\<close>

lemma genesis_address_canonical:
  "nfc_ok P \<Longrightarrow> canonical_text P (Some MAX_ADDRESS_BYTES) TESTNET_GENESIS_MINER_ADDRESS"
  by (rule canonical_text_ascii)
     (simp_all add: TESTNET_GENESIS_MINER_ADDRESS_def str_def isascii_def MAX_ADDRESS_BYTES_def)

definition is_genesis :: "platform \<Rightarrow> block \<Rightarrow> bool" where
  "is_genesis P g \<longleftrightarrow> bh_height (bl_header g) = 0 \<and> bl_transactions g = []
     \<and> bh_timestamp (bl_header g) = TESTNET_GENESIS_TIMESTAMP
     \<and> bh_difficulty_target (bl_header g) = TESTNET_INITIAL_TARGET
     \<and> rt_amount_atoms (bl_reward g) = 0 \<and> (\<exists>h. block_hash P g = Inr h)"

lemma genesis_total:
  assumes P: "platform_ok P"
  shows "\<exists>g. genesis_block P TESTNET = Inr g \<and> is_genesis P g"
proof -
  let ?r = "\<lparr>rt_version = REWARD_TRANSACTION_VERSION, rt_chain_id = net_chain_id TESTNET,
            rt_height = 0, rt_miner_address = TESTNET_GENESIS_MINER_ADDRESS, rt_amount_atoms = 0\<rparr>"
  let ?s = "\<lparr>st_network = TESTNET, st_accounts = [], st_txids = {}\<rparr>"
  have nP: "nfc_ok P" and hP: "hash_ok P" using P by simp_all
  note enc = canonical_text_encodes [OF genesis_address_canonical [OF nP]]
    canonical_text_encodes [OF chain_id_canonical [OF nP network_fits_TESTNET]]
  have "\<exists>bs. reward_to_bytes P ?r = Inr bs"
    unfolding reward_to_bytes_def using enc
    by (intro join_fields_total)
       (auto simp: encode_u64_total MAX_CHAIN_ID_BYTES_def MAX_ADDRESS_BYTES_def U32_MAX_def U64_MAX_def
         REWARD_TRANSACTION_DOMAIN_def byte_literal_def encode_unsigned_range U16_MAX_def
         REWARD_TRANSACTION_VERSION_def intro!: encode_bytes_total)
  then obtain i where "reward_txid P ?r = Inr i" by (auto simp: reward_txid_def)
  from transactions_root_total [OF hP this, of "[]"] obtain root
    where root: "transactions_root P ?r [] = Inr root" "length root = 32" by auto
  obtain sr where sr: "state_root P ?s = Inr sr" "length sr = 32"
    using state_root_total [OF P, of ?s] by auto
  define g where "g = \<lparr>bl_header = \<lparr>bh_version = BLOCK_VERSION, bh_chain_id = net_chain_id TESTNET,
              bh_height = 0, bh_previous_block_hash = replicate 32 0, bh_transactions_root = root,
              bh_state_root = sr, bh_timestamp = TESTNET_GENESIS_TIMESTAMP,
              bh_difficulty_target = TESTNET_INITIAL_TARGET, bh_nonce = TESTNET_GENESIS_NONCE,
              bh_miner_address = TESTNET_GENESIS_MINER_ADDRESS\<rparr>,
           bl_reward = ?r, bl_transactions = []\<rparr>"
  have "genesis_block P TESTNET = Inr g"
    using root sr by (simp add: genesis_block_def empty_state Let_def g_def)
  moreover have "\<exists>bs. header_to_bytes P (bl_header g) = Inr bs"
  proof -
    have "\<exists>bs. join_fields (header_fields P (bl_header g)) = Inr bs"
      unfolding header_fields_def g_def using enc root sr
      by (intro join_fields_total)
         (auto simp: encode_u64_total MAX_CHAIN_ID_BYTES_def MAX_ADDRESS_BYTES_def U32_MAX_def
           BLOCK_HEADER_DOMAIN_def byte_literal_def encode_unsigned_range U16_MAX_def U64_MAX_def
           BLOCK_VERSION_def TESTNET_GENESIS_TIMESTAMP_def TESTNET_GENESIS_NONCE_def
           intro!: encode_bytes_total)
    moreover have "header_exact (bl_header g)"
      using root sr by (simp add: header_exact_def g_def TESTNET_INITIAL_TARGET_def MAX_TARGET_def)
    ultimately show ?thesis by (auto simp: header_to_bytes_iff)
  qed
  ultimately show ?thesis
    by (auto simp: is_genesis_def g_def block_hash_def header_hash_def)
qed

subsection \<open>The genesis block of the sample platform\<close>

lemma sample_hash_small: "from_bytes_be (sample_hash bs) < 2 ^ 64"
proof -
  have "from_bytes_be (replicate n 0 @ xs) = from_bytes_be xs" for n xs
  proof (induction xs rule: rev_induct)
    case Nil
    have "from_bytes_be (replicate n 0) = 0"
    proof (induction n)
      case (Suc n)
      then show ?case unfolding replicate_Suc replicate_append_same [symmetric] from_bytes_be_snoc by simp
    qed simp
    then show ?case by simp
  next
    case (snoc x xs)
    then show ?case by (simp flip: append_assoc)
  qed
  then have "from_bytes_be (sample_hash bs) = from_bytes_be
      (to_bytes_be 7 (fold (\<lambda>b a. a * 257 + uint b + 1) bs 7) @ [if bs = [] then 0 else last bs])"
    by (simp add: sample_hash_def)
  also have "\<dots> < 256 ^ 8"
    using from_bytes_be_bounds [of "to_bytes_be 7 _ @ [_]"] by simp
  finally show ?thesis by simp
qed

lemma sample_proof_of_work:
  assumes "block_hash sample_platform b = Inr h" and "2 ^ 64 \<le> bh_difficulty_target (bl_header b)"
    and "bh_difficulty_target (bl_header b) \<le> MAX_TARGET"
  shows "proof_of_work sample_platform b"
proof -
  obtain bs where "h = sample_hash bs"
    using assms(1) by (auto simp: block_hash_def header_hash_def sha256_digest_def sample_platform_def res_simps)
  then have "hash_meets_target h (bh_difficulty_target (bl_header b))"
    using sample_hash_small [of bs] assms(2,3) by (simp add: hash_meets_target_iff)
  then show ?thesis using assms(1) by (auto simp: proof_of_work_def)
qed

definition sample_genesis :: block where
  "sample_genesis = projr (genesis_block sample_platform TESTNET)"

definition sample_time :: int where "sample_time = TESTNET_GENESIS_TIMESTAMP + 60"

text \<open>A candidate on the sample genesis block that pays one transaction and a miner, and the block
  mined from it.\<close>

definition sample_candidate :: block where
  "sample_candidate = projr (build_block_candidate sample_platform sample_genesis (sample_state 9) 9
     (sample_address 6) [sample_transaction 1 5 1 1 0] sample_time None)"

definition sample_block :: block where
  "sample_block = projr (mine_block sample_platform sample_candidate 1)"

lemma sample_genesis_ok:
  "genesis_block sample_platform TESTNET = Inr sample_genesis" "is_genesis sample_platform sample_genesis"
  using genesis_total [OF sample_platform_ok] by (auto simp: sample_genesis_def)

lemma sample_state_facts:
  "state_ok sample_platform (sample_state 9)" "st_network (sample_state 9) = TESTNET"
  "total_balance (sample_state 9) = 9"
  by (rule sample_state_ok; simp add: U64_MAX_def)
     (simp_all add: sample_state_def total_balance_def dict_sum_def)

lemma sample_candidate_guards:
  "candidate_guards sample_platform sample_genesis (sample_state 9) 9 (sample_address 6)
     [sample_transaction 1 5 1 1 0] sample_time (required_target None sample_genesis)"
  using sample_genesis_ok(2)
  by (simp add: candidate_guards_def is_genesis_def supply_constants sample_time_def sample_state_facts
      required_target_def MAX_BLOCK_TRANSACTIONS_def TESTNET_GENESIS_TIMESTAMP_def U64_MAX_def
      TESTNET_INITIAL_TARGET_def MAX_TARGET_def)

lemma sample_candidate_built:
  "build_block_candidate sample_platform sample_genesis (sample_state 9) 9 (sample_address 6)
     [sample_transaction 1 5 1 1 0] sample_time None = Inr sample_candidate"
proof -
  obtain h s' where "block_hash sample_platform sample_genesis = Inr h" "bh_height (bl_header sample_genesis) = 0"
      "apply_transactions sample_platform [sample_transaction 1 5 1 1 0] 1 (sample_state 9) = (Inr 1, s')"
    using sample_genesis_ok(2) sample_batch [of 9] by (auto simp: is_genesis_def U64_MAX_def)
  then have "\<exists>b. build_block_candidate sample_platform sample_genesis (sample_state 9) 9 (sample_address 6)
     [sample_transaction 1 5 1 1 0] sample_time None = Inr b"
    using candidate_total [OF sample_platform_ok _ sample_state_facts(1) _ sample_candidate_guards]
    by (simp add: sample_state_facts)
  then show ?thesis by (auto simp: sample_candidate_def)
qed

lemma sample_block_mined: "mine_block sample_platform sample_candidate 1 = Inr sample_block"
proof -
  have c: "bh_nonce (bl_header sample_candidate) = 0"
    "bh_difficulty_target (bl_header sample_candidate) = TESTNET_INITIAL_TARGET"
    using candidate_fields [OF sample_state_facts(1) sample_candidate_built] sample_genesis_ok(2)
    by (simp_all add: required_target_def is_genesis_def)
  have "\<exists>i. block_hash sample_platform (with_nonce 0 sample_candidate) = Inr i"
    using sample_genesis_ok(2)
    by (intro candidate_hash [OF sample_platform_ok _ sample_state_facts(1) sample_candidate_built])
       (auto simp: sample_state_facts is_genesis_def U64_MAX_def)
  then have "proof_of_work sample_platform (with_nonce 0 sample_candidate)"
    using sample_proof_of_work c by (fastforce simp: TESTNET_INITIAL_TARGET_def MAX_TARGET_def)
  then have "mine_block sample_platform sample_candidate 1 = Inr (with_nonce 0 sample_candidate)"
    using c(1) by (auto simp: mine_block_def proof_of_work_def Let_def U64_MAX_def)
  then show ?thesis by (simp add: sample_block_def)
qed

lemma sample_block_valid:
  "\<exists>ex. validate_and_execute_block sample_platform sample_block (Some sample_genesis) (sample_state 9) 9
     TESTNET None = Inr ex"
  using mined_candidate_valid [OF _ sample_state_facts(1) sample_candidate_built sample_block_mined]
  by (auto simp: sample_state_facts)

subsection \<open>Properties\<close>

text \<open>C21. \<open>accepted_block_effect\<close>: executing an accepted block gives a well-formed state in which the
  transfers and then the reward have been done to the ledger; the sum of all balances and the
  supply grow by the same subsidy, fees only move, and the supply stays within its maximum.\<close>

theorem accepted_block_effect:
  assumes "platform_ok P" and "state_ok P s"
    and "validate_and_execute_block P b (Some parent) s total_supply network d = Inr ex"
  shows "state_ok P (ex_state ex)
     \<and> total_balance (ex_state ex) - total_balance s = ex_total_supply ex - total_supply
     \<and> 0 \<le> ex_subsidy ex \<and> ex_total_supply ex = total_supply + ex_subsidy ex
     \<and> ex_total_supply ex \<le> MAX_SUPPLY_ATOMS
     \<and> ex_fees ex = sum_list (map tx_fee_atoms (bl_transactions b))
     \<and> rt_amount_atoms (bl_reward b) = ex_subsidy ex + ex_fees ex
     \<and> ledger_of (ex_state ex) = (let L = fold ledger_transfer (bl_transactions b) (ledger_of s);
            m = bh_miner_address (bl_header b)
          in L(m := (fst (L m) + ex_subsidy ex + ex_fees ex, snd (L m))))"
proof -
  obtain fees subsidy w where st: "settles P s (bh_height (bl_header b)) total_supply
        (bh_miner_address (bl_header b)) (bl_transactions b) fees subsidy w"
      "rt_amount_atoms (bl_reward b) = subsidy + fees"
      "ex = \<lparr>ex_state = w, ex_total_supply = total_supply + subsidy, ex_subsidy = subsidy, ex_fees = fees\<rparr>"
    using assms(3) unfolding validate_block_iff [OF assms(2)] by auto
  have "hash_ok P" using assms(1) by simp
  note e = settlesD [OF this assms(2) st(1)]
  show ?thesis using e(1,3,5,6,8-10) st(2,3) by (simp add: Let_def)
qed

lemma accepted_block_effect_witness:
  "rt_amount_atoms (bl_reward sample_block) = 4000000000 + 1"
proof -
  obtain ex where ex: "validate_and_execute_block sample_platform sample_block (Some sample_genesis)
      (sample_state 9) 9 TESTNET None = Inr ex" using sample_block_valid by auto
  from accepted_block_effect [OF sample_platform_ok sample_state_facts(1) ex]
  have r: "rt_amount_atoms (bl_reward sample_block) = ex_subsidy ex + ex_fees ex"
    "ex_fees ex = sum_list (map tx_fee_atoms (bl_transactions sample_block))" by auto
  have t: "bl_transactions sample_block = [sample_transaction 1 5 1 1 0]" "bh_height (bl_header sample_block) = 1"
    using candidate_fields [OF sample_state_facts(1) sample_candidate_built] sample_genesis_ok(2)
      mined_same [OF sample_block_mined]
    by (simp_all add: is_genesis_def)
  have "ex_subsidy ex = 4000000000"
    using ex t unfolding validate_block_iff [OF sample_state_facts(1)]
    by (auto simp: settles_def block_subsidy_closed supply_constants scheduled_reward_def)
  then show ?thesis using r t by (simp add: sample_transaction_props U64_MAX_def)
qed

text \<open>\<open>mined_candidate_accepted\<close>: a block built on a parent and then mined passes the full
  validation against the same parent, state, supply and target, and the reward it pays is the
  subsidy plus the fees that validation finds.\<close>

theorem mined_candidate_accepted:
  assumes "platform_ok P" and "state_ok P s"
    and "build_block_candidate P parent s total_supply miner ts timestamp d = Inr b"
    and "mine_block P b attempts = Inr c"
  shows "\<exists>ex. validate_and_execute_block P c (Some parent) s total_supply (st_network s) d = Inr ex
     \<and> ex_subsidy ex + ex_fees ex = rt_amount_atoms (bl_reward c)"
  by (rule mined_candidate_valid) (use assms in auto)

lemma mined_candidate_accepted_witness:
  "\<exists>ex. validate_and_execute_block sample_platform sample_block (Some sample_genesis) (sample_state 9) 9
       TESTNET None = Inr ex
     \<and> ex_subsidy ex + ex_fees ex = rt_amount_atoms (bl_reward sample_block)"
  using mined_candidate_accepted [OF sample_platform_ok sample_state_facts(1) sample_candidate_built
      sample_block_mined] by (simp add: sample_state_facts)

text \<open>\<open>candidate_always_buildable\<close>: when the balances sum up to at most the supply, nothing can
  overflow: for a parent with a hash, a later timestamp, a target in range, a valid miner address and
  a batch the state accepts, a candidate is built, and with every 64-bit nonce it has a hash.\<close>

theorem candidate_always_buildable:
  assumes "platform_ok P" and "network_fits (st_network s)" and "state_ok P s"
    and "total_balance s \<le> total_supply"
    and "candidate_guards P parent s total_supply miner ts timestamp (required_target d parent)"
    and "0 \<le> bh_height (bl_header parent)" and "block_hash P parent = Inr ph"
    and "apply_transactions P ts (bh_height (bl_header parent) + 1) s = (Inr fees, w)"
  shows "\<exists>b. build_block_candidate P parent s total_supply miner ts timestamp d = Inr b
     \<and> (\<forall>n. 0 \<le> n \<and> n \<le> U64_MAX \<longrightarrow> (\<exists>i. block_hash P (with_nonce n b) = Inr i))"
  using candidate_total [OF assms(1-5,7,8)] candidate_hash [OF assms(1-3) _ assms(6)] by blast

lemma candidate_always_buildable_witness:
  "\<exists>b. build_block_candidate sample_platform sample_genesis (sample_state 9) 9 (sample_address 6)
     [sample_transaction 1 5 1 1 0] sample_time None = Inr b"
proof -
  obtain h s' where "block_hash sample_platform sample_genesis = Inr h" "bh_height (bl_header sample_genesis) = 0"
      "apply_transactions sample_platform [sample_transaction 1 5 1 1 0] 1 (sample_state 9) = (Inr 1, s')"
    using sample_genesis_ok(2) sample_batch [of 9] by (auto simp: is_genesis_def U64_MAX_def)
  then show ?thesis
    using candidate_always_buildable [OF sample_platform_ok _ sample_state_facts(1) _ sample_candidate_guards, of h 1 s']
    by (auto simp: sample_state_facts)
qed

text \<open>\<open>accepted_block_commitments\<close>: the header of an accepted block commits to everything: its
  parent's hash and height, a later timestamp, the required target, met by its hash, the root of the
  reward and the transactions, and the root of the state after them.\<close>

theorem accepted_block_commitments:
  assumes "platform_ok P" and "state_ok P s"
    and "validate_and_execute_block P b (Some parent) s total_supply network d = Inr ex"
  shows "block_hash P parent = Inr (bh_previous_block_hash (bl_header b))
     \<and> bh_height (bl_header b) = bh_height (bl_header parent) + 1
     \<and> bh_timestamp (bl_header parent) < bh_timestamp (bl_header b)
     \<and> bh_difficulty_target (bl_header b) = required_target d parent
     \<and> (\<exists>h. block_hash P b = Inr h \<and> from_bytes_be h \<le> required_target d parent)
     \<and> transactions_root P (bl_reward b) (bl_transactions b) = Inr (bh_transactions_root (bl_header b))
     \<and> state_root P (ex_state ex) = Inr (bh_state_root (bl_header b))"
  using assms(3) unfolding validate_block_iff [OF assms(2)]
  by (auto simp: block_guards_def proof_of_work_def hash_meets_target_iff)

lemma accepted_block_commitments_witness:
  "bh_height (bl_header sample_block) = bh_height (bl_header sample_genesis) + 1"
  using sample_block_valid accepted_block_commitments [OF sample_platform_ok sample_state_facts(1)] by blast

text \<open>C37. \<open>block_subsidy_schedule\<close>: the loop computes the schedule, 40 OUR times \<open>4/5\<close> (rounded down) per
  era of 500,000 blocks, capped by what is left of the maximum supply; outside the ranges it raises.\<close>

theorem block_subsidy_schedule:
  "block_subsidy h total_supply = Inr v \<longleftrightarrow>
     0 \<le> h \<and> h \<le> U64_MAX \<and> 0 \<le> total_supply \<and> total_supply \<le> MAX_SUPPLY_ATOMS
   \<and> v = (if h = 0 then 0
          else min ((decay ^^ nat (h div 500000)) (40 * 100000000)) (10 ^ 16 - total_supply))"
  by (simp add: block_subsidy_closed scheduled_reward_def supply_constants)

text \<open>\<open>supply_cap_never_binds\<close>: on a chain that issued every subsidy of the schedule so far, the next
  subsidy is the scheduled one in full, and the supply stays at most \<open>MAX_SUPPLY_ATOMS\<close> forever.\<close>

theorem supply_cap_never_binds:
  assumes "int (Suc n) \<le> U64_MAX"
  shows "block_subsidy (int (Suc n)) (emission n) = Inr (scheduled_reward (Suc n div 500000))
     \<and> emission (Suc n) = emission n + scheduled_reward (Suc n div 500000)
     \<and> emission (Suc n) \<le> MAX_SUPPLY_ATOMS"
  using scheduled_subsidy [OF refl assms] emission_Suc [of n] emission_bound [of "Suc n"] by simp

lemma supply_cap_never_binds_witness: "emission (Suc 3) = emission 3 + scheduled_reward (Suc 3 div 500000)"
  using supply_cap_never_binds [of 3] by (simp add: U64_MAX_def)

end
