(* ===== verification/Chain.thy ===== *)
theory Chain
  imports Consensus
begin

text \<open>
  \<open>chain.py\<close>: the tree of validated blocks with its tip of most cumulative work. The three \<open>while\<close>
  loops over parent links carry fuel, the height of the entry they start from; running out of it is
  the error \<open>Diverges\<close>, and the lemmas show that on the chains the program can reach no loop runs out
  and no dictionary access fails.
\<close>

definition TARGET_BLOCK_SECONDS :: int where "TARGET_BLOCK_SECONDS = 60"
definition DIFFICULTY_ADJUSTMENT_INTERVAL :: int where "DIFFICULTY_ADJUSTMENT_INTERVAL = 120"
definition DIFFICULTY_MAX_ADJUSTMENT_FACTOR :: int where "DIFFICULTY_MAX_ADJUSTMENT_FACTOR = 4"
definition EXPECTED_ADJUSTMENT_TIMESPAN :: int where
  "EXPECTED_ADJUSTMENT_TIMESPAN = (DIFFICULTY_ADJUSTMENT_INTERVAL - 1) * TARGET_BLOCK_SECONDS"

lemmas difficulty_constants = TARGET_BLOCK_SECONDS_def DIFFICULTY_ADJUSTMENT_INTERVAL_def
  DIFFICULTY_MAX_ADJUSTMENT_FACTOR_def EXPECTED_ADJUSTMENT_TIMESPAN_def

record block_record =
  br_block_hash :: bytes
  br_parent_hash :: "bytes option"
  br_height :: int
  br_cumulative_work :: int
  br_total_supply :: int

record chain_update =
  cu_added :: bytes
  cu_active_tip :: bytes
  cu_became_active :: bool
  cu_reorganized :: bool
  cu_common_ancestor :: "bytes option"
  cu_disconnected :: "bytes list"
  cu_connected :: "bytes list"

record chain_entry =
  en_block :: block
  en_record :: block_record
  en_snapshot :: state_snapshot

record chain =
  ch_network :: network_config
  ch_entries :: "(bytes, chain_entry) dict"
  ch_tip :: bytes

definition work_for_target :: "int \<Rightarrow> int res" where
  "work_for_target target =
     (if \<not> (0 < target \<and> target \<le> MAX_TARGET) then
        raise ChainError ''work target must be between 1 and 2^256 - 1''
      else Inr (2 ^ 256 div (target + 1)))"

definition new_chain :: "platform \<Rightarrow> network_config \<Rightarrow> chain res" where
  "new_chain P network =
     (if network \<noteq> TESTNET then raise ChainError ''M4 currently defines only the testnet chain''
      else
      bindE (genesis_block P network) (\<lambda>genesis.
      bindE (new_account_state P [] {} network) (\<lambda>empty.
      bindE (validate_and_execute_block P genesis None empty 0 network None) (\<lambda>execution.
      bindE (block_hash P genesis) (\<lambda>h.
      bindE (work_for_target (bh_difficulty_target (bl_header genesis))) (\<lambda>work.
      let record = \<lparr>br_block_hash = h, br_parent_hash = None, br_height = 0, br_cumulative_work = work,
            br_total_supply = ex_total_supply execution\<rparr>
      in Inr \<lparr>ch_network = network,
              ch_entries = [(h, \<lparr>en_block = genesis, en_record = record,
                                en_snapshot = snapshot (ex_state execution)\<rparr>)],
              ch_tip = h\<rparr>))))))"

abbreviation entry :: "chain \<Rightarrow> bytes \<Rightarrow> chain_entry res" where
  "entry c h \<equiv> dict_index (ch_entries c) h"

definition chain_tip :: "chain \<Rightarrow> block res" where
  "chain_tip c = bindE (entry c (ch_tip c)) (\<lambda>e. Inr (en_block e))"

definition chain_height :: "chain \<Rightarrow> int res" where
  "chain_height c = bindE (entry c (ch_tip c)) (\<lambda>e. Inr (br_height (en_record e)))"

definition chain_cumulative_work :: "chain \<Rightarrow> int res" where
  "chain_cumulative_work c = bindE (entry c (ch_tip c)) (\<lambda>e. Inr (br_cumulative_work (en_record e)))"

definition chain_total_supply :: "chain \<Rightarrow> int res" where
  "chain_total_supply c = bindE (entry c (ch_tip c)) (\<lambda>e. Inr (br_total_supply (en_record e)))"

definition chain_state :: "platform \<Rightarrow> chain \<Rightarrow> account_state res" where
  "chain_state P c = bindE (entry c (ch_tip c)) (\<lambda>e.
     state_from_snapshot P (en_snapshot e) (ch_network c))"

definition copy_chain :: "platform \<Rightarrow> chain \<Rightarrow> chain res" where
  "copy_chain P c = bindE (new_chain P (ch_network c)) (\<lambda>copied.
     Inr (copied\<lparr>ch_entries := ch_entries c, ch_tip := ch_tip c\<rparr>))"

definition chain_contains :: "bytes \<Rightarrow> chain \<Rightarrow> bool" where
  "chain_contains h c \<longleftrightarrow> map_of (ch_entries c) h \<noteq> None"

definition known_entry :: "string \<Rightarrow> chain \<Rightarrow> bytes \<Rightarrow> chain_entry res" where
  "known_entry message c h = rethrow (\<lambda>k. k = KeyError) (\<lambda>_. Exn ChainError message) (entry c h)"

definition get_block :: "bytes \<Rightarrow> chain \<Rightarrow> block res" where
  "get_block h c = bindE (known_entry ''unknown block hash'' c h) (\<lambda>e. Inr (en_block e))"

definition get_record :: "bytes \<Rightarrow> chain \<Rightarrow> block_record res" where
  "get_record h c = bindE (known_entry ''unknown block hash'' c h) (\<lambda>e. Inr (en_record e))"

definition get_state :: "platform \<Rightarrow> bytes \<Rightarrow> chain \<Rightarrow> account_state res" where
  "get_state P h c = bindE (known_entry ''unknown block hash'' c h) (\<lambda>e.
     state_from_snapshot P (en_snapshot e) (ch_network c))"

text \<open>The loop of \<open>_ancestor_at_height\<close>.\<close>

fun ancestor_loop :: "nat \<Rightarrow> chain \<Rightarrow> int \<Rightarrow> chain_entry \<Rightarrow> chain_entry res" where
  "ancestor_loop fuel c height e =
     (if br_height (en_record e) > height then
        (case br_parent_hash (en_record e) of
           None \<Rightarrow> raise ChainError ''branch ended before the requested ancestor''
         | Some p \<Rightarrow> bindE (entry c p) (\<lambda>e.
             case fuel of 0 \<Rightarrow> raise Diverges ''fuel'' | Suc n \<Rightarrow> ancestor_loop n c height e))
      else Inr e)"

declare ancestor_loop.simps [simp del]

definition ancestor_at_height :: "chain \<Rightarrow> bytes \<Rightarrow> int \<Rightarrow> chain_entry res" where
  "ancestor_at_height c h height =
     bindE (entry c h) (\<lambda>e.
     if \<not> (0 \<le> height \<and> height \<le> br_height (en_record e)) then
       raise ChainError ''ancestor height is outside the branch''
     else ancestor_loop (nat (br_height (en_record e))) c height e)"

text \<open>The end of \<open>expected_target_for_child\<close>, on the parent's target and the time the window took.\<close>

definition adjusted_target :: "int \<Rightarrow> int \<Rightarrow> int" where
  "adjusted_target parent_target actual_timespan =
     (let minimum_timespan = EXPECTED_ADJUSTMENT_TIMESPAN div DIFFICULTY_MAX_ADJUSTMENT_FACTOR;
          maximum_timespan = EXPECTED_ADJUSTMENT_TIMESPAN * DIFFICULTY_MAX_ADJUSTMENT_FACTOR;
          bounded_timespan = min (max actual_timespan minimum_timespan) maximum_timespan;
          adjusted = parent_target * bounded_timespan div EXPECTED_ADJUSTMENT_TIMESPAN
      in min (max adjusted 1) MAX_TARGET)"

definition expected_target_for_child :: "chain \<Rightarrow> bytes \<Rightarrow> int res" where
  "expected_target_for_child c parent_hash =
     bindE (known_entry ''unknown difficulty parent'' c parent_hash) (\<lambda>parent.
     if br_height (en_record parent) = U64_MAX then raise ChainError ''parent height is exhausted''
     else
     let next_height = br_height (en_record parent) + 1 in
     if next_height mod DIFFICULTY_ADJUSTMENT_INTERVAL \<noteq> 0 then
       Inr (bh_difficulty_target (bl_header (en_block parent)))
     else
     let window_start_height = next_height - DIFFICULTY_ADJUSTMENT_INTERVAL in
     bindE (ancestor_at_height c parent_hash window_start_height) (\<lambda>window_start.
     let actual_timespan = bh_timestamp (bl_header (en_block parent))
             - bh_timestamp (bl_header (en_block window_start))
     in Inr (adjusted_target (bh_difficulty_target (bl_header (en_block parent))) actual_timespan)))"

definition build_candidate ::
  "platform \<Rightarrow> pystr \<Rightarrow> transaction list \<Rightarrow> int \<Rightarrow> bytes option \<Rightarrow> chain \<Rightarrow> block res" where
  "build_candidate P miner_address transactions timestamp parent_hash c =
     (let selected_parent_hash = (case parent_hash of None \<Rightarrow> ch_tip c | Some h \<Rightarrow> h) in
      bindE (known_entry ''cannot build on an unknown parent'' c selected_parent_hash) (\<lambda>parent.
      bindE (state_from_snapshot P (en_snapshot parent) (ch_network c)) (\<lambda>s.
      rethrow (\<lambda>k. k = BlockError) (Exn ChainError)
        (bindE (expected_target_for_child c selected_parent_hash) (\<lambda>target.
         build_block_candidate P (en_block parent) s (br_total_supply (en_record parent)) miner_address
           transactions timestamp (Some target))))))"

text \<open>The first two loops of \<open>_reorganization_paths\<close>, which differ in their message only: from
  \<open>(h, e)\<close> down to the height given, the hashes passed are appended to \<open>acc\<close>.\<close>

fun climb :: "nat \<Rightarrow> string \<Rightarrow> chain \<Rightarrow> int \<Rightarrow> bytes \<Rightarrow> chain_entry \<Rightarrow> bytes list \<Rightarrow>
    (bytes \<times> chain_entry \<times> bytes list) res" where
  "climb fuel message c height h e acc =
     (if br_height (en_record e) > height then
        (case br_parent_hash (en_record e) of
           None \<Rightarrow> raise ChainError message
         | Some p \<Rightarrow> bindE (entry c p) (\<lambda>pe.
             case fuel of 0 \<Rightarrow> raise Diverges ''fuel''
             | Suc n \<Rightarrow> climb n message c height p pe (acc @ [h])))
      else Inr (h, e, acc))"

declare climb.simps [simp del]

fun climb_both :: "nat \<Rightarrow> chain \<Rightarrow> bytes \<Rightarrow> chain_entry \<Rightarrow> bytes list \<Rightarrow> bytes \<Rightarrow> chain_entry \<Rightarrow>
    bytes list \<Rightarrow> (bytes \<times> bytes list \<times> bytes list) res" where
  "climb_both fuel c old_hash old_entry disconnected new_hash new_entry connected_reverse =
     (if old_hash \<noteq> new_hash then
        (case (br_parent_hash (en_record old_entry), br_parent_hash (en_record new_entry)) of
           (Some old_parent, Some new_parent) \<Rightarrow>
             bindE (entry c old_parent) (\<lambda>oe. bindE (entry c new_parent) (\<lambda>ne.
             case fuel of 0 \<Rightarrow> raise Diverges ''fuel''
             | Suc n \<Rightarrow> climb_both n c old_parent oe (disconnected @ [old_hash])
                 new_parent ne (connected_reverse @ [new_hash])))
         | _ \<Rightarrow> raise ChainError ''branches have no common ancestor'')
      else Inr (old_hash, disconnected, connected_reverse))"

declare climb_both.simps [simp del]

definition reorganization_paths ::
  "chain \<Rightarrow> bytes \<Rightarrow> bytes \<Rightarrow> (bytes \<times> bytes list \<times> bytes list) res" where
  "reorganization_paths c old_tip_hash new_tip_hash =
     bindE (entry c old_tip_hash) (\<lambda>old_entry.
     bindE (entry c new_tip_hash) (\<lambda>new_entry.
     bindE (climb (nat (br_height (en_record old_entry))) ''old branch has no common ancestor'' c
              (br_height (en_record new_entry)) old_tip_hash old_entry []) (\<lambda>(old_hash, old_entry, disconnected).
     bindE (climb (nat (br_height (en_record new_entry))) ''new branch has no common ancestor'' c
              (br_height (en_record old_entry)) new_tip_hash new_entry []) (\<lambda>(new_hash, new_entry, connected_reverse).
     bindE (climb_both (nat (br_height (en_record old_entry))) c old_hash old_entry disconnected
              new_hash new_entry connected_reverse) (\<lambda>(common, disconnected, connected_reverse).
     Inr (common, disconnected, rev connected_reverse))))))"

text \<open>\<open>add_block\<close>: everything up to the new entry raises before the tree changes; the switch comes after.\<close>

definition make_entry :: "platform \<Rightarrow> block \<Rightarrow> chain \<Rightarrow> (bytes \<times> chain_entry) res" where
  "make_entry P b c =
     bindE (rethrow is_value_error (\<lambda>_. Exn ChainError ''block header is not canonically encodable'')
              (block_hash P b)) (\<lambda>h.
     if map_of (ch_entries c) h \<noteq> None then raise ChainError ''block is already known''
     else
     let parent_hash = bh_previous_block_hash (bl_header b) in
     bindE (known_entry ''block parent is unknown'' c parent_hash) (\<lambda>parent.
     bindE (state_from_snapshot P (en_snapshot parent) (ch_network c)) (\<lambda>parent_state.
     bindE (expected_target_for_child c parent_hash) (\<lambda>expected_target.
     bindE (rethrow (\<lambda>k. k = BlockError) (Exn ChainError)
              (validate_and_execute_block P b (Some (en_block parent)) parent_state
                 (br_total_supply (en_record parent)) (ch_network c) (Some expected_target))) (\<lambda>execution.
     bindE (work_for_target (bh_difficulty_target (bl_header b))) (\<lambda>work.
     let record = \<lparr>br_block_hash = h, br_parent_hash = Some parent_hash,
           br_height = bh_height (bl_header b),
           br_cumulative_work = br_cumulative_work (en_record parent) + work,
           br_total_supply = ex_total_supply execution\<rparr>
     in Inr (h, \<lparr>en_block = b, en_record = record, en_snapshot = snapshot (ex_state execution)\<rparr>)))))))"

definition select_tip :: "bytes \<Rightarrow> chain_entry \<Rightarrow> chain \<Rightarrow> chain_update res \<times> chain" where
  "select_tip h e c =
     (let old_tip_hash = ch_tip c in
      case entry c old_tip_hash of
        Inl x \<Rightarrow> (Inl x, c)
      | Inr old_tip \<Rightarrow>
        if br_cumulative_work (en_record e) > br_cumulative_work (en_record old_tip) then
          (case reorganization_paths c old_tip_hash h of
             Inl x \<Rightarrow> (Inl x, c)
           | Inr (common, disconnected, connected) \<Rightarrow>
               (Inr \<lparr>cu_added = h, cu_active_tip = h, cu_became_active = True,
                     cu_reorganized = (disconnected \<noteq> []), cu_common_ancestor = Some common,
                     cu_disconnected = disconnected, cu_connected = connected\<rparr>,
                c\<lparr>ch_tip := h\<rparr>))
        else
          (Inr \<lparr>cu_added = h, cu_active_tip = ch_tip c, cu_became_active = False,
                cu_reorganized = False, cu_common_ancestor = None, cu_disconnected = [],
                cu_connected = []\<rparr>, c))"

definition add_block :: "platform \<Rightarrow> block \<Rightarrow> chain \<Rightarrow> chain_update res \<times> chain" where
  "add_block P b c =
     (case make_entry P b c of
        Inl x \<Rightarrow> (Inl x, c)
      | Inr (h, e) \<Rightarrow> select_tip h e (c\<lparr>ch_entries := AList.update h e (ch_entries c)\<rparr>))"

fun collect_branch :: "nat \<Rightarrow> chain \<Rightarrow> chain_entry \<Rightarrow> block list \<Rightarrow> block list res" where
  "collect_branch fuel c e blocks =
     (let blocks = blocks @ [en_block e] in
      case br_parent_hash (en_record e) of
        None \<Rightarrow> Inr blocks
      | Some p \<Rightarrow> bindE (entry c p) (\<lambda>e.
          case fuel of 0 \<Rightarrow> raise Diverges ''fuel'' | Suc n \<Rightarrow> collect_branch n c e blocks))"

declare collect_branch.simps [simp del]

definition active_chain :: "chain \<Rightarrow> block list res" where
  "active_chain c =
     bindE (entry c (ch_tip c)) (\<lambda>e.
     bindE (collect_branch (nat (br_height (en_record e))) c e []) (\<lambda>blocks. Inr (rev blocks)))"

subsection \<open>The state an entry stands for\<close>

definition state_of_snapshot :: "network_config \<Rightarrow> state_snapshot \<Rightarrow> account_state" where
  "state_of_snapshot network snap =
     \<lparr>st_network = network, st_accounts = snap_accounts snap, st_txids = snap_txids snap\<rparr>"

definition entry_state :: "chain_entry \<Rightarrow> account_state" where
  "entry_state e = state_of_snapshot TESTNET (en_snapshot e)"

lemma state_from_snapshot_ok:
  "state_ok P (state_of_snapshot n snap) \<Longrightarrow> state_from_snapshot P snap n = Inr (state_of_snapshot n snap)"
  by (auto simp: state_from_snapshot_def state_of_snapshot_def new_account_state_iff state_ok_def dict_ok_def
      dict_of_pairs_distinct)

lemma st_network_snapshot [simp]: "st_network (state_of_snapshot n snap) = n"
  by (simp add: state_of_snapshot_def)

text \<open>A snapshot only sorts the accounts.\<close>

lemma snapshot_same:
  assumes ok: "state_ok P s" and n: "st_network s = n"
  shows "state_ok P (state_of_snapshot n (snapshot s))"
    and "ledger_of (state_of_snapshot n (snapshot s)) = ledger_of s"
    and "total_balance (state_of_snapshot n (snapshot s)) = total_balance s"
    and "state_normal s \<Longrightarrow> state_normal (state_of_snapshot n (snapshot s))"
    and "st_txids (state_of_snapshot n (snapshot s)) = st_txids s"
proof -
  let ?t = "state_of_snapshot n (snapshot s)"
  have d: "dict_ok (st_accounts s)" using ok by (simp add: state_ok_def)
  note ds = dict_ok_sort [OF d]
  have m: "map_of (sort_key fst (st_accounts s)) = map_of (st_accounts s)"
    using dict_map_of_iff [OF d] dict_map_of_iff [OF ds] by (intro ext) (metis not_Some_eq set_sort)
  show "state_ok P ?t"
    using ok ds n by (auto simp: state_of_snapshot_def snapshot_def state_ok_def)
  show l: "ledger_of ?t = ledger_of s"
    by (simp add: fun_eq_iff ledger_of_def account_of_def state_of_snapshot_def snapshot_def m)
  have "mset (map (\<lambda>e. acc_balance (snd e)) (sort_key fst (st_accounts s)))
      = mset (map (\<lambda>e. acc_balance (snd e)) (st_accounts s))" by simp
  then show "total_balance ?t = total_balance s"
    unfolding total_balance_def dict_sum_def state_of_snapshot_def snapshot_def
    by (simp flip: sum_mset_sum_list)
  have "keys ?t = keys s" by (simp add: keys_def state_of_snapshot_def snapshot_def)
  then show "state_normal s \<Longrightarrow> state_normal ?t" using l by (simp add: state_normal_def)
  show "st_txids ?t = st_txids s" by (simp add: state_of_snapshot_def snapshot_def)
qed

subsection \<open>The invariant of the tree\<close>

definition block_work :: "int \<Rightarrow> int" where
  "block_work target = 2 ^ 256 div (target + 1)"

definition child_ok :: "platform \<Rightarrow> chain \<Rightarrow> chain_entry \<Rightarrow> chain_entry \<Rightarrow> bool" where
  "child_ok P c e pe \<longleftrightarrow>
     br_height (en_record e) = br_height (en_record pe) + 1
   \<and> br_cumulative_work (en_record e) = br_cumulative_work (en_record pe)
        + block_work (bh_difficulty_target (bl_header (en_block e)))
   \<and> expected_target_for_child c (bh_previous_block_hash (bl_header (en_block e)))
        = Inr (bh_difficulty_target (bl_header (en_block e)))
   \<and> (\<exists>ex. validate_and_execute_block P (en_block e) (Some (en_block pe)) (entry_state pe)
              (br_total_supply (en_record pe)) TESTNET (Some (bh_difficulty_target (bl_header (en_block e)))) = Inr ex
         \<and> ex_total_supply ex = br_total_supply (en_record e) \<and> snapshot (ex_state ex) = en_snapshot e)"

definition entry_ok :: "platform \<Rightarrow> chain \<Rightarrow> bytes \<Rightarrow> chain_entry \<Rightarrow> bool" where
  "entry_ok P c h e \<longleftrightarrow>
     br_block_hash (en_record e) = h \<and> block_hash P (en_block e) = Inr h
   \<and> br_height (en_record e) = bh_height (bl_header (en_block e)) \<and> 0 \<le> br_height (en_record e)
   \<and> 0 < bh_difficulty_target (bl_header (en_block e)) \<and> bh_difficulty_target (bl_header (en_block e)) \<le> MAX_TARGET
   \<and> state_ok P (entry_state e) \<and> state_normal (entry_state e)
   \<and> total_balance (entry_state e) = br_total_supply (en_record e)
   \<and> br_total_supply (en_record e) = emission (nat (br_height (en_record e)))
   \<and> (case br_parent_hash (en_record e) of
        None \<Rightarrow> genesis_block P TESTNET = Inr (en_block e) \<and> br_height (en_record e) = 0
          \<and> en_snapshot e = \<lparr>snap_accounts = [], snap_txids = {}\<rparr>
          \<and> br_cumulative_work (en_record e) = block_work (bh_difficulty_target (bl_header (en_block e)))
      | Some p \<Rightarrow> bh_previous_block_hash (bl_header (en_block e)) = p
          \<and> (\<exists>pe. map_of (ch_entries c) p = Some pe \<and> child_ok P c e pe))"

definition tree_ok :: "platform \<Rightarrow> chain \<Rightarrow> bool" where
  "tree_ok P c \<longleftrightarrow> platform_ok P \<and> ch_network c = TESTNET \<and> dict_ok (ch_entries c)
     \<and> (\<forall>h e. map_of (ch_entries c) h = Some e \<longrightarrow> entry_ok P c h e)"

definition tip_heaviest :: "chain \<Rightarrow> bool" where
  "tip_heaviest c \<longleftrightarrow> (\<exists>t. map_of (ch_entries c) (ch_tip c) = Some t
     \<and> (\<forall>h e. map_of (ch_entries c) h = Some e \<longrightarrow>
          br_cumulative_work (en_record e) \<le> br_cumulative_work (en_record t)))"

definition chain_ok :: "platform \<Rightarrow> chain \<Rightarrow> bool" where
  "chain_ok P c \<longleftrightarrow> tree_ok P c \<and> tip_heaviest c"

lemma tree_entry: "tree_ok P c \<Longrightarrow> map_of (ch_entries c) h = Some e \<Longrightarrow> entry_ok P c h e"
  by (simp add: tree_ok_def)

lemma entry_okD:
  assumes "entry_ok P c h e"
  shows "block_hash P (en_block e) = Inr h" "0 \<le> br_height (en_record e)"
    "br_height (en_record e) = bh_height (bl_header (en_block e))"
    "state_ok P (entry_state e)" "state_normal (entry_state e)"
    "total_balance (entry_state e) = br_total_supply (en_record e)"
    "br_total_supply (en_record e) = emission (nat (br_height (en_record e)))"
    "0 < bh_difficulty_target (bl_header (en_block e))" "bh_difficulty_target (bl_header (en_block e)) \<le> MAX_TARGET"
  using assms by (simp_all add: entry_ok_def)

text \<open>An entry with a parent is one above it; one without is the genesis block.\<close>

lemma entry_parent:
  assumes "tree_ok P c" and "map_of (ch_entries c) h = Some e" and "br_parent_hash (en_record e) = Some p"
  obtains pe where "map_of (ch_entries c) p = Some pe" "br_height (en_record e) = br_height (en_record pe) + 1"
    "0 \<le> br_height (en_record pe)"
proof -
  obtain pe where pe: "map_of (ch_entries c) p = Some pe" "br_height (en_record e) = br_height (en_record pe) + 1"
    using tree_entry [OF assms(1,2)] assms(3) by (auto simp: entry_ok_def child_ok_def)
  with entry_okD(2) [OF tree_entry [OF assms(1) pe(1)]] that show thesis by blast
qed

lemma entry_root:
  assumes "tree_ok P c" and "map_of (ch_entries c) h = Some e"
  shows "br_parent_hash (en_record e) = None \<longleftrightarrow> br_height (en_record e) = 0"
proof (cases "br_parent_hash (en_record e)")
  case None
  then show ?thesis using tree_entry [OF assms] by (simp add: entry_ok_def)
next
  case (Some p)
  obtain pe where "map_of (ch_entries c) p = Some pe" "br_height (en_record e) = br_height (en_record pe) + 1"
    "0 \<le> br_height (en_record pe)" by (rule entry_parent [OF assms Some])
  then show ?thesis using Some by simp
qed

lemma root_unique:
  assumes "tree_ok P c" and "map_of (ch_entries c) h = Some e" and "map_of (ch_entries c) h' = Some e'"
    and "br_parent_hash (en_record e) = None" and "br_parent_hash (en_record e') = None"
  shows "h = h'"
  using tree_entry [OF assms(1,2)] tree_entry [OF assms(1,3)] assms(4,5) by (auto simp: entry_ok_def)

subsection \<open>Branches and the loops over them\<close>

text \<open>The branch of a hash: the hashes from it down to the genesis block.\<close>

inductive branch :: "chain \<Rightarrow> bytes \<Rightarrow> bytes list \<Rightarrow> bool" for c where
  branch_root: "map_of (ch_entries c) h = Some e \<Longrightarrow> br_parent_hash (en_record e) = None \<Longrightarrow> branch c h [h]"
| branch_child: "map_of (ch_entries c) h = Some e \<Longrightarrow> br_parent_hash (en_record e) = Some p \<Longrightarrow> branch c p bs
    \<Longrightarrow> branch c h (h # bs)"

inductive_cases branchE: "branch c h bs"

definition height_of :: "chain \<Rightarrow> bytes \<Rightarrow> int" where
  "height_of c h = (case map_of (ch_entries c) h of None \<Rightarrow> - 1 | Some e \<Rightarrow> br_height (en_record e))"

lemma branch_exists:
  assumes t: "tree_ok P c" and "map_of (ch_entries c) h = Some e"
  shows "\<exists>bs. branch c h bs \<and> length bs = nat (br_height (en_record e)) + 1"
  using assms(2)
proof (induction "nat (br_height (en_record e))" arbitrary: h e)
  case 0
  then have "br_parent_hash (en_record e) = None"
    using entry_root [OF t 0(2)] entry_okD(2) [OF tree_entry [OF t 0(2)]] by simp
  then show ?case using 0 branch_root by fastforce
next
  case (Suc n)
  have "br_parent_hash (en_record e) \<noteq> None" using entry_root [OF t Suc(3)] Suc(2) by auto
  then obtain p where p: "br_parent_hash (en_record e) = Some p" by auto
  then obtain pe where pe: "map_of (ch_entries c) p = Some pe" "br_height (en_record e) = br_height (en_record pe) + 1"
    "0 \<le> br_height (en_record pe)" by (rule entry_parent [OF t Suc(3)])
  then have "n = nat (br_height (en_record pe))" using Suc(2) by simp
  then obtain bs where "branch c p bs" "length bs = n + 1" using Suc(1) pe(1) by metis
  then show ?case using branch_child [OF Suc(3) p] Suc(2) by (intro exI [of _ "h # bs"]) simp
qed

lemma branch_fun: "branch c h bs \<Longrightarrow> branch c h bs' \<Longrightarrow> bs = bs'"
proof (induction arbitrary: bs' rule: branch.induct)
  case (branch_root h e)
  from branch_root(3) show ?case by cases (use branch_root(1,2) in auto)
next
  case (branch_child h e p bs)
  note hyps = branch_child.hyps(1,2) and ih = branch_child.IH
  from branch_child.prems show ?case
  proof cases
    case (branch_root e')
    then show ?thesis using hyps by simp
  next
    case (branch_child e' p' bs'')
    then have "branch c p bs''" using hyps by simp
    then have "bs = bs''" by (rule ih)
    with branch_child(1) show ?thesis by simp
  qed
qed

lemma branch_heights:
  assumes t: "tree_ok P c"
  shows "branch c h bs \<Longrightarrow> (\<forall>z \<in> set bs. 0 \<le> height_of c z \<and> height_of c z \<le> height_of c h)
     \<and> distinct (map (height_of c) bs)"
proof (induction rule: branch.induct)
  case (branch_root h e)
  then show ?case using entry_okD(2) [OF tree_entry [OF t branch_root(1)]] by (auto simp: height_of_def)
next
  case (branch_child h e p bs)
  obtain pe where pe: "map_of (ch_entries c) p = Some pe" "br_height (en_record e) = br_height (en_record pe) + 1"
    "0 \<le> br_height (en_record pe)" using entry_parent [OF t branch_child(1,2)] .
  then have h: "height_of c h = height_of c p + 1" "0 \<le> height_of c p"
    using branch_child(1) by (simp_all add: height_of_def)
  then have "height_of c h \<notin> height_of c ` set bs" using branch_child.IH by auto
  then show ?case using branch_child.IH h by auto
qed

text \<open>One way down a branch: the loop \<open>climb\<close> ends at the ancestor of the height asked for.\<close>

lemma climb_spec:
  assumes t: "tree_ok P c" and ht: "0 \<le> ht"
  shows "map_of (ch_entries c) h = Some e \<Longrightarrow> br_height (en_record e) - ht \<le> int fuel \<Longrightarrow>
    \<exists>h' e' xs. climb fuel m c ht h e acc = Inr (h', e', acc @ xs) \<and> map_of (ch_entries c) h' = Some e'
      \<and> br_height (en_record e') = min (br_height (en_record e)) ht
      \<and> (\<forall>bs. branch c h' bs \<longrightarrow> branch c h (xs @ bs)) \<and> (\<forall>z \<in> set xs. ht < height_of c z)"
proof (induction fuel arbitrary: h e acc)
  case 0
  then show ?case by (subst climb.simps) auto
next
  case (Suc fuel)
  show ?case
  proof (cases "br_height (en_record e) > ht")
    case False
    then show ?thesis using Suc.prems by (subst climb.simps) auto
  next
    case True
    then have "br_parent_hash (en_record e) \<noteq> None" using entry_root [OF t Suc.prems(1)] ht by auto
    then obtain p where p: "br_parent_hash (en_record e) = Some p" by auto
    then obtain pe where pe: "map_of (ch_entries c) p = Some pe" "br_height (en_record e) = br_height (en_record pe) + 1"
      using entry_parent [OF t Suc.prems(1)] by metis
    have "br_height (en_record pe) - ht \<le> int fuel" using pe(2) Suc.prems(2) by simp
    then obtain h' e' xs where ih: "climb fuel m c ht p pe (acc @ [h]) = Inr (h', e', (acc @ [h]) @ xs)"
      "map_of (ch_entries c) h' = Some e'" "br_height (en_record e') = min (br_height (en_record pe)) ht"
      "\<forall>bs. branch c h' bs \<longrightarrow> branch c p (xs @ bs)" "\<forall>z \<in> set xs. ht < height_of c z"
      using Suc.IH [OF pe(1)] by blast
    have "climb (Suc fuel) m c ht h e acc = Inr (h', e', acc @ (h # xs))"
      using True p ih(1) pe(1) by (subst climb.simps) (simp add: dict_index_def)
    moreover have "\<forall>bs. branch c h' bs \<longrightarrow> branch c h ((h # xs) @ bs)"
      using ih(4) branch_child [OF Suc.prems(1) p] by auto
    moreover have "\<forall>z \<in> set (h # xs). ht < height_of c z"
      using ih(5) True Suc.prems(1) by (simp add: height_of_def)
    moreover have "br_height (en_record e') = min (br_height (en_record e)) ht"
      using ih(3) pe(2) True by simp
    ultimately show ?thesis using ih(2) by blast
  qed
qed

lemma above_below: "\<forall>z \<in> A. (k :: int) < f z \<Longrightarrow> \<forall>z \<in> B. f z \<le> k \<Longrightarrow> A \<inter> B = {}"
  by (auto simp: disjoint_iff) (metis less_le_not_le)

lemma climb_start:
  assumes "tree_ok P c" and "0 \<le> ht" and "map_of (ch_entries c) h = Some e"
  obtains h' e' xs where "climb (nat (br_height (en_record e))) m c ht h e [] = Inr (h', e', xs)"
    and "map_of (ch_entries c) h' = Some e'" and "br_height (en_record e') = min (br_height (en_record e)) ht"
    and "\<forall>bs. branch c h' bs \<longrightarrow> branch c h (xs @ bs)" and "\<forall>z \<in> set xs. ht < height_of c z"
proof -
  have "br_height (en_record e) - ht \<le> int (nat (br_height (en_record e)))" using assms(2) by simp
  from climb_spec [OF assms this, of m "[]"] show thesis using that by auto
qed

text \<open>Two ways down in step: the loop \<open>climb_both\<close> ends at the last common ancestor.\<close>

lemma climb_both_spec:
  assumes t: "tree_ok P c"
  shows "map_of (ch_entries c) oh = Some oe \<Longrightarrow> map_of (ch_entries c) nh = Some ne \<Longrightarrow>
    br_height (en_record oe) = br_height (en_record ne) \<Longrightarrow> br_height (en_record oe) \<le> int fuel \<Longrightarrow>
    \<exists>a xs ys. climb_both fuel c oh oe dis nh ne con = Inr (a, dis @ xs, con @ ys)
      \<and> map_of (ch_entries c) a \<noteq> None
      \<and> (\<forall>bs. branch c a bs \<longrightarrow> branch c oh (xs @ bs) \<and> branch c nh (ys @ bs))
      \<and> set xs \<inter> set ys = {} \<and> (\<forall>z \<in> set xs \<union> set ys. height_of c z \<le> br_height (en_record oe))"
proof (induction fuel arbitrary: oh oe nh ne dis con)
  case 0
  then have "br_parent_hash (en_record oe) = None" "br_parent_hash (en_record ne) = None"
    using entry_root [OF t 0(1)] entry_root [OF t 0(2)] entry_okD(2) [OF tree_entry [OF t 0(1)]] by auto
  then have "oh = nh" using root_unique [OF t 0(1,2)] by simp
  then show ?case using 0(1) by (subst climb_both.simps) auto
next
  case (Suc fuel)
  show ?case
  proof (cases "oh = nh")
    case True
    then show ?thesis using Suc.prems by (subst climb_both.simps) auto
  next
    case False
    have "br_height (en_record oe) \<noteq> 0"
      using False root_unique [OF t Suc.prems(1,2)] entry_root [OF t Suc.prems(1)] entry_root [OF t Suc.prems(2)]
        Suc.prems(3) by auto
    then obtain p q where p: "br_parent_hash (en_record oe) = Some p" and q: "br_parent_hash (en_record ne) = Some q"
      using entry_root [OF t Suc.prems(1)] entry_root [OF t Suc.prems(2)] Suc.prems(3) by auto
    obtain pe where pe: "map_of (ch_entries c) p = Some pe" "br_height (en_record oe) = br_height (en_record pe) + 1"
      "0 \<le> br_height (en_record pe)" by (rule entry_parent [OF t Suc.prems(1) p])
    obtain qe where qe: "map_of (ch_entries c) q = Some qe" "br_height (en_record ne) = br_height (en_record qe) + 1"
      "0 \<le> br_height (en_record qe)" by (rule entry_parent [OF t Suc.prems(2) q])
    obtain a xs ys where ih: "climb_both fuel c p pe (dis @ [oh]) q qe (con @ [nh])
        = Inr (a, (dis @ [oh]) @ xs, (con @ [nh]) @ ys)" "map_of (ch_entries c) a \<noteq> None"
        "\<forall>bs. branch c a bs \<longrightarrow> branch c p (xs @ bs) \<and> branch c q (ys @ bs)" "set xs \<inter> set ys = {}"
        "\<forall>z \<in> set xs \<union> set ys. height_of c z \<le> br_height (en_record pe)"
      using Suc.IH [OF pe(1) qe(1), of "dis @ [oh]" "con @ [nh]"] Suc.prems(3,4) pe(2) qe(2) by auto
    have h: "height_of c oh = br_height (en_record pe) + 1" "height_of c nh = br_height (en_record pe) + 1"
      using Suc.prems pe(2) by (simp_all add: height_of_def)
    have low: "height_of c z \<le> br_height (en_record pe)" if "z \<in> set xs \<union> set ys" for z using ih(5) that by blast
    then have "oh \<notin> set ys \<and> nh \<notin> set xs" using h by fastforce
    then have disj: "set (oh # xs) \<inter> set (nh # ys) = {}" using ih(4) False by auto
    have "climb_both (Suc fuel) c oh oe dis nh ne con = Inr (a, dis @ (oh # xs), con @ (nh # ys))"
      using False p q ih(1) pe(1) qe(1) by (subst climb_both.simps) (simp add: dict_index_def)
    moreover have "\<forall>bs. branch c a bs \<longrightarrow> branch c oh ((oh # xs) @ bs) \<and> branch c nh ((nh # ys) @ bs)"
      using ih(3) branch_child [OF Suc.prems(1) p] branch_child [OF Suc.prems(2) q] by simp
    moreover have "\<forall>z \<in> set (oh # xs) \<union> set (nh # ys). height_of c z \<le> br_height (en_record oe)"
    proof
      fix z assume "z \<in> set (oh # xs) \<union> set (nh # ys)"
      then have "height_of c z = br_height (en_record pe) + 1 \<or> height_of c z \<le> br_height (en_record pe)"
        using h low by auto
      then show "height_of c z \<le> br_height (en_record oe)" using pe(2) by linarith
    qed
    ultimately show ?thesis using ih(2) disj by blast
  qed
qed

text \<open>The contract of a reorganisation: \<open>a\<close> is the last common block of two branches, \<open>dis\<close> what is
  left of the old branch from its tip down, \<open>con\<close> what is new on the other from \<open>a\<close> up.\<close>

definition fork :: "chain \<Rightarrow> bytes \<Rightarrow> bytes \<Rightarrow> bytes \<Rightarrow> bytes list \<Rightarrow> bytes list \<Rightarrow> bool" where
  "fork c old new a dis con \<longleftrightarrow> (\<exists>bs. branch c a bs \<and> branch c old (dis @ bs) \<and> branch c new (rev con @ bs))
     \<and> set dis \<inter> set con = {}"

lemma reorganization_paths_spec:
  assumes t: "tree_ok P c" and o: "map_of (ch_entries c) old = Some oe" and n: "map_of (ch_entries c) new = Some ne"
  shows "\<exists>a dis con. reorganization_paths c old new = Inr (a, dis, con) \<and> fork c old new a dis con"
proof -
  note oh = entry_okD(2) [OF tree_entry [OF t o]] and nh = entry_okD(2) [OF tree_entry [OF t n]]
  obtain h1 e1 xs1 where c1: "climb (nat (br_height (en_record oe))) ''old branch has no common ancestor'' c
        (br_height (en_record ne)) old oe [] = Inr (h1, e1, xs1)" "map_of (ch_entries c) h1 = Some e1"
      "br_height (en_record e1) = min (br_height (en_record oe)) (br_height (en_record ne))"
      "\<forall>bs. branch c h1 bs \<longrightarrow> branch c old (xs1 @ bs)" "\<forall>z \<in> set xs1. br_height (en_record ne) < height_of c z"
    by (rule climb_start [OF t nh o])
  have h1: "0 \<le> br_height (en_record e1)" using c1(3) oh nh by simp
  obtain h2 e2 ys1 where c2: "climb (nat (br_height (en_record ne))) ''new branch has no common ancestor'' c
        (br_height (en_record e1)) new ne [] = Inr (h2, e2, ys1)" "map_of (ch_entries c) h2 = Some e2"
      "br_height (en_record e2) = min (br_height (en_record ne)) (br_height (en_record e1))"
      "\<forall>bs. branch c h2 bs \<longrightarrow> branch c new (ys1 @ bs)" "\<forall>z \<in> set ys1. br_height (en_record e1) < height_of c z"
    by (rule climb_start [OF t h1 n])
  have eq: "br_height (en_record e1) = br_height (en_record e2)" using c1(3) c2(3) by simp
  have f: "br_height (en_record e1) \<le> int (nat (br_height (en_record e1)))" by simp
  obtain a xs2 ys2 where c3: "climb_both (nat (br_height (en_record e1))) c h1 e1 xs1 h2 e2 ys1
        = Inr (a, xs1 @ xs2, ys1 @ ys2)" "map_of (ch_entries c) a \<noteq> None"
      "\<forall>bs. branch c a bs \<longrightarrow> branch c h1 (xs2 @ bs) \<and> branch c h2 (ys2 @ bs)" "set xs2 \<inter> set ys2 = {}"
      "\<forall>z \<in> set xs2 \<union> set ys2. height_of c z \<le> br_height (en_record e1)"
    using climb_both_spec [OF t c1(2) c2(2) eq f, of xs1 ys1] by auto
  obtain bs where "branch c a bs" using branch_exists [OF t, of a] c3(2) by auto
  then have br: "branch c a bs" "branch c old ((xs1 @ xs2) @ bs)" "branch c new ((ys1 @ ys2) @ bs)"
    using c1(4) c2(4) c3(3) by auto
  have "set xs1 \<inter> set ys1 = {}"
  proof (cases "br_height (en_record oe) \<le> br_height (en_record ne)")
    case True
    have "z \<notin> set xs1" for z
    proof
      assume z: "z \<in> set xs1"
      then have "br_height (en_record ne) < height_of c z" using c1(5) by blast
      moreover have "height_of c z \<le> height_of c old"
        using branch_heights [OF t br(2)] z by auto
      ultimately show False using True o by (simp add: height_of_def)
    qed
    then show ?thesis by blast
  next
    case False
    have "z \<notin> set ys1" for z
    proof
      assume z: "z \<in> set ys1"
      then have "br_height (en_record e1) < height_of c z" using c2(5) by blast
      moreover have "height_of c z \<le> height_of c new"
        using branch_heights [OF t br(3)] z by auto
      ultimately show False using False c1(3) n by (simp add: height_of_def)
    qed
    then show ?thesis by blast
  qed
  moreover have "\<forall>z \<in> set ys2. height_of c z \<le> br_height (en_record ne)"
    using c3(5) c1(3) by (metis UnCI min.boundedE)
  then have "set xs1 \<inter> set ys2 = {}" by (rule above_below [OF c1(5)])
  moreover have "\<forall>z \<in> set xs2. height_of c z \<le> br_height (en_record e1)" using c3(5) by blast
  then have "set ys1 \<inter> set xs2 = {}" by (rule above_below [OF c2(5)])
  ultimately have "set (xs1 @ xs2) \<inter> set (ys1 @ ys2) = {}" using c3(4) by auto
  then have "fork c old new a (xs1 @ xs2) (rev (ys1 @ ys2))"
    using br unfolding fork_def by auto
  moreover have "reorganization_paths c old new = Inr (a, xs1 @ xs2, rev (ys1 @ ys2))"
    using o n c1(1) c2(1) c3(1) by (simp add: reorganization_paths_def dict_index_def)
  ultimately show ?thesis by blast
qed

subsection \<open>Targets\<close>

text \<open>A chain that knows more blocks.\<close>

definition extends :: "chain \<Rightarrow> chain \<Rightarrow> bool" where
  "extends c c' \<longleftrightarrow> ch_network c' = ch_network c \<and> map_of (ch_entries c) \<subseteq>\<^sub>m map_of (ch_entries c')"

lemma extends_lookup: "extends c c' \<Longrightarrow> map_of (ch_entries c) h = Some e \<Longrightarrow> map_of (ch_entries c') h = Some e"
  by (auto simp: extends_def map_le_def dom_def)

lemma ancestor_loop_extends:
  assumes t: "tree_ok P c" and x: "extends c c'"
  shows "map_of (ch_entries c) h = Some e \<Longrightarrow> ancestor_loop n c' ht e = ancestor_loop n c ht e"
proof (induction n arbitrary: h e)
  case 0
  show ?case
  proof (cases "br_parent_hash (en_record e)")
    case (Some p)
    obtain pe where "map_of (ch_entries c) p = Some pe" by (rule entry_parent [OF t 0 Some])
    then show ?thesis using Some extends_lookup [OF x]
      by (subst (1 2) ancestor_loop.simps) (simp add: dict_index_def)
  qed (subst (1 2) ancestor_loop.simps, simp)
next
  case (Suc n)
  show ?case
  proof (cases "br_parent_hash (en_record e)")
    case (Some p)
    obtain pe where pe: "map_of (ch_entries c) p = Some pe" by (rule entry_parent [OF t Suc.prems Some])
    then show ?thesis using Some extends_lookup [OF x pe] Suc.IH [OF pe]
      by (subst (1 2) ancestor_loop.simps) (simp add: dict_index_def)
  qed (subst (1 2) ancestor_loop.simps, simp)
qed

lemma expected_target_extends:
  assumes t: "tree_ok P c" and x: "extends c c'" and p: "map_of (ch_entries c) p = Some e"
  shows "expected_target_for_child c' p = expected_target_for_child c p"
proof -
  have "ancestor_at_height c' p ht = ancestor_at_height c p ht" for ht
    using p extends_lookup [OF x p] ancestor_loop_extends [OF t x p]
    by (simp add: ancestor_at_height_def dict_index_def)
  then show ?thesis using p extends_lookup [OF x p]
    by (simp add: expected_target_for_child_def known_entry_def dict_index_def Let_def)
qed

lemma ancestor_loop_spec:
  assumes t: "tree_ok P c" and ht: "0 \<le> ht"
  shows "map_of (ch_entries c) h = Some e \<Longrightarrow> ht \<le> br_height (en_record e) \<Longrightarrow>
    br_height (en_record e) - ht \<le> int n \<Longrightarrow>
    \<exists>a ha. ancestor_loop n c ht e = Inr a \<and> map_of (ch_entries c) ha = Some a \<and> br_height (en_record a) = ht
      \<and> (\<forall>bs. branch c h bs \<longrightarrow> ha \<in> set bs)"
proof (induction n arbitrary: h e)
  case 0
  then show ?case by (subst ancestor_loop.simps) (auto elim: branch.cases intro!: exI [of _ h])
next
  case (Suc n)
  show ?case
  proof (cases "br_height (en_record e) > ht")
    case False
    then show ?thesis using Suc.prems
      by (subst ancestor_loop.simps) (auto elim: branch.cases intro!: exI [of _ h])
  next
    case True
    then have "br_parent_hash (en_record e) \<noteq> None" using entry_root [OF t Suc.prems(1)] ht by auto
    then obtain p where p: "br_parent_hash (en_record e) = Some p" by auto
    obtain pe where pe: "map_of (ch_entries c) p = Some pe" "br_height (en_record e) = br_height (en_record pe) + 1"
      by (rule entry_parent [OF t Suc.prems(1) p])
    obtain a ha where a: "ancestor_loop n c ht pe = Inr a" "map_of (ch_entries c) ha = Some a"
        "br_height (en_record a) = ht" "\<forall>bs. branch c p bs \<longrightarrow> ha \<in> set bs"
      using Suc.IH [OF pe(1)] True pe(2) Suc.prems(3) by auto
    have "ha \<in> set bs" if "branch c h bs" for bs
      using that a(4) p Suc.prems(1) by (auto elim: branch.cases)
    moreover have "ancestor_loop (Suc n) c ht e = Inr a"
      using True p pe(1) a(1) by (subst ancestor_loop.simps) (simp add: dict_index_def)
    ultimately show ?thesis using a by blast
  qed
qed

text \<open>The difficulty rule with its constants: a window of \<open>7140\<close> seconds keeps the target.\<close>

definition retarget :: "int \<Rightarrow> int \<Rightarrow> int" where
  "retarget target timespan = min (max (target * min (max timespan 1785) 28560 div 7140) 1) MAX_TARGET"

lemma adjusted_target_retarget: "adjusted_target t d = retarget t d"
  by (simp add: adjusted_target_def retarget_def difficulty_constants)

lemma expected_target_spec:
  assumes t: "tree_ok P c" and p: "map_of (ch_entries c) p = Some e"
  shows "br_height (en_record e) = U64_MAX \<Longrightarrow>
      expected_target_for_child c p = raise ChainError ''parent height is exhausted''"
    and "br_height (en_record e) \<noteq> U64_MAX \<Longrightarrow> (br_height (en_record e) + 1) mod 120 \<noteq> 0 \<Longrightarrow>
      expected_target_for_child c p = Inr (bh_difficulty_target (bl_header (en_block e)))"
    and "br_height (en_record e) \<noteq> U64_MAX \<Longrightarrow> (br_height (en_record e) + 1) mod 120 = 0 \<Longrightarrow>
      \<exists>a ha. map_of (ch_entries c) ha = Some a \<and> br_height (en_record a) = br_height (en_record e) - 119
        \<and> (\<forall>bs. branch c p bs \<longrightarrow> ha \<in> set bs)
        \<and> expected_target_for_child c p = Inr (retarget (bh_difficulty_target (bl_header (en_block e)))
             (bh_timestamp (bl_header (en_block e)) - bh_timestamp (bl_header (en_block a))))"
proof -
  show "br_height (en_record e) = U64_MAX \<Longrightarrow>
      expected_target_for_child c p = raise ChainError ''parent height is exhausted''"
    using p by (simp add: expected_target_for_child_def known_entry_def dict_index_def)
  show "br_height (en_record e) \<noteq> U64_MAX \<Longrightarrow> (br_height (en_record e) + 1) mod 120 \<noteq> 0 \<Longrightarrow>
      expected_target_for_child c p = Inr (bh_difficulty_target (bl_header (en_block e)))"
    using p by (simp add: expected_target_for_child_def known_entry_def dict_index_def difficulty_constants Let_def)
  assume n: "br_height (en_record e) \<noteq> U64_MAX" and m: "(br_height (en_record e) + 1) mod 120 = 0"
  have "0 \<le> br_height (en_record e)" using entry_okD(2) [OF tree_entry [OF t p]] .
  moreover have "br_height (en_record e) + 1 \<noteq> 0" using calculation by simp
  ultimately have h: "0 \<le> br_height (en_record e) - 119"
    using m zmod_trivial_iff [of "br_height (en_record e) + 1" 120] by linarith
  obtain a ha where a: "ancestor_loop (nat (br_height (en_record e))) c (br_height (en_record e) - 119) e = Inr a"
      "map_of (ch_entries c) ha = Some a" "br_height (en_record a) = br_height (en_record e) - 119"
      "\<forall>bs. branch c p bs \<longrightarrow> ha \<in> set bs"
    using ancestor_loop_spec [OF t h p, of "nat (br_height (en_record e))"] h by auto
  have "expected_target_for_child c p = Inr (retarget (bh_difficulty_target (bl_header (en_block e)))
             (bh_timestamp (bl_header (en_block e)) - bh_timestamp (bl_header (en_block a))))"
    using p n m a(1) h
    by (simp add: expected_target_for_child_def known_entry_def dict_index_def Let_def
        DIFFICULTY_ADJUSTMENT_INTERVAL_def ancestor_at_height_def adjusted_target_retarget)
  then show "\<exists>a ha. map_of (ch_entries c) ha = Some a \<and> br_height (en_record a) = br_height (en_record e) - 119
        \<and> (\<forall>bs. branch c p bs \<longrightarrow> ha \<in> set bs)
        \<and> expected_target_for_child c p = Inr (retarget (bh_difficulty_target (bl_header (en_block e)))
             (bh_timestamp (bl_header (en_block e)) - bh_timestamp (bl_header (en_block a))))"
    using a(2-4) by blast
qed

lemma expected_target_raises:
  assumes t: "tree_ok P c"
  shows "raises_only {ChainError} (expected_target_for_child c p)"
proof (cases "map_of (ch_entries c) p")
  case None
  then show ?thesis by (simp add: expected_target_for_child_def known_entry_def dict_index_def raises_only_def rethrow_def)
next
  case (Some e)
  then show ?thesis
    using expected_target_spec [OF t Some] by (cases "br_height (en_record e) = U64_MAX"; 
      cases "(br_height (en_record e) + 1) mod 120 = 0") (auto simp: raises_only_def)
qed

lemma retarget_bounds:
  assumes "0 < target" and "target \<le> MAX_TARGET"
  shows "0 < retarget target d" and "retarget target d \<le> MAX_TARGET" and "retarget target d \<le> 4 * target"
    and "target div 4 \<le> retarget target d"
proof -
  let ?s = "min (max d 1785) 28560"
  have s: "1785 \<le> ?s" "?s \<le> 28560" by auto
  show "0 < retarget target d" "retarget target d \<le> MAX_TARGET"
    using assms by (auto simp: retarget_def)
  have "target * ?s \<le> target * 28560" using assms(1) s(2) by (intro mult_left_mono) auto
  then have "target * ?s div 7140 \<le> target * 28560 div 7140" by (rule zdiv_mono1) simp
  then have "target * ?s div 7140 \<le> 4 * target" by simp
  then have "max (target * ?s div 7140) 1 \<le> 4 * target" using assms(1) by simp
  then show "retarget target d \<le> 4 * target" unfolding retarget_def by (rule min.coboundedI1)
  have "target * 1785 \<le> target * ?s" using assms(1) s(1) by (intro mult_left_mono) auto
  then have "target * 1785 div 7140 \<le> target * ?s div 7140" by (rule zdiv_mono1) simp
  moreover have "target * 1785 div 7140 = target div 4" by (simp add: div_mult2_eq [symmetric])
  moreover have "target div 4 \<le> MAX_TARGET" using assms by linarith
  ultimately have "target div 4 \<le> max (target * ?s div 7140) 1" "target div 4 \<le> MAX_TARGET"
    by (auto intro: max.coboundedI1)
  then show "target div 4 \<le> retarget target d" unfolding retarget_def by (rule min.boundedI)
qed

subsection \<open>Adding a block\<close>

lemma entry_ok_extends:
  assumes t: "tree_ok P c" and x: "extends c c'" and e: "entry_ok P c h e"
  shows "entry_ok P c' h e"
proof (cases "br_parent_hash (en_record e)")
  case (Some p)
  then obtain pe where pe: "map_of (ch_entries c) p = Some pe" "child_ok P c e pe"
    "bh_previous_block_hash (bl_header (en_block e)) = p" using e by (auto simp: entry_ok_def)
  then have "child_ok P c' e pe"
    using expected_target_extends [OF t x pe(1)] by (simp add: child_ok_def)
  then show ?thesis using e Some pe extends_lookup [OF x pe(1)] by (auto simp: entry_ok_def)
qed (use e in \<open>simp add: entry_ok_def\<close>)

lemma extends_fresh:
  assumes "map_of (ch_entries c) h = None"
  shows "extends c (c\<lparr>ch_entries := AList.update h e (ch_entries c)\<rparr>)"
  using assms by (auto simp: extends_def map_le_def)

lemma tree_ok_insert:
  assumes t: "tree_ok P c" and f: "map_of (ch_entries c) h = None" and e: "entry_ok P c h e"
  shows "tree_ok P (c\<lparr>ch_entries := AList.update h e (ch_entries c)\<rparr>)"
proof -
  let ?c = "c\<lparr>ch_entries := AList.update h e (ch_entries c)\<rparr>"
  note x = extends_fresh [OF f, of e]
  have "entry_ok P ?c k ke" if "map_of (ch_entries ?c) k = Some ke" for k ke
    using that entry_ok_extends [OF t x] e tree_entry [OF t] by (auto split: if_splits)
  then show ?thesis using t by (auto simp: tree_ok_def)
qed

lemma entry_state_lookup:
  assumes "tree_ok P c" and "map_of (ch_entries c) h = Some e"
  shows "state_from_snapshot P (en_snapshot e) (ch_network c) = Inr (entry_state e)"
  using state_from_snapshot_ok [of P TESTNET "en_snapshot e"] entry_okD(4) [OF tree_entry [OF assms]] assms(1)
  by (simp add: entry_state_def tree_ok_def)

lemma work_for_target_iff [simp]:
  "work_for_target t = Inr w \<longleftrightarrow> 0 < t \<and> t \<le> MAX_TARGET \<and> w = block_work t"
  by (auto simp: work_for_target_def block_work_def)

text \<open>When \<open>make_entry\<close> succeeds the new entry fits the tree.\<close>

lemma make_entry_spec:
  assumes t: "tree_ok P c" and m: "make_entry P b c = Inr (h, e)"
  shows "map_of (ch_entries c) h = None" and "entry_ok P c h e" and "en_block e = b"
    and "br_parent_hash (en_record e) = Some (bh_previous_block_hash (bl_header b))"
proof -
  have P: "platform_ok P" and n: "ch_network c = TESTNET" using t by (auto simp: tree_ok_def)
  then have hP: "hash_ok P" by simp
  let ?p = "bh_previous_block_hash (bl_header b)"
  obtain pe ps tg ex w where h: "block_hash P b = Inr h" and f: "map_of (ch_entries c) h = None"
    and pe: "map_of (ch_entries c) ?p = Some pe"
    and ps: "state_from_snapshot P (en_snapshot pe) (ch_network c) = Inr ps"
    and tg: "expected_target_for_child c ?p = Inr tg"
    and ex: "validate_and_execute_block P b (Some (en_block pe)) ps (br_total_supply (en_record pe)) (ch_network c) (Some tg) = Inr ex"
    and w: "work_for_target (bh_difficulty_target (bl_header b)) = Inr w"
    and e: "e = \<lparr>en_block = b, en_record = \<lparr>br_block_hash = h, br_parent_hash = Some ?p,
           br_height = bh_height (bl_header b),
           br_cumulative_work = br_cumulative_work (en_record pe) + w,
           br_total_supply = ex_total_supply ex\<rparr>, en_snapshot = snapshot (ex_state ex)\<rparr>"
    using m by (auto simp: make_entry_def bindE_eq_Inr known_entry_def Let_def)
  show "map_of (ch_entries c) h = None" "en_block e = b" "br_parent_hash (en_record e) = Some ?p"
    using f e by simp_all
  note pok = entry_okD [OF tree_entry [OF t pe]]
  have ps': "ps = entry_state pe" using ps entry_state_lookup [OF t pe] by simp
  obtain fees subsidy w' where g: "block_guards P b (en_block pe) (br_total_supply (en_record pe)) TESTNET tg"
    and st: "settles P (entry_state pe) (bh_height (bl_header b)) (br_total_supply (en_record pe))
        (bh_miner_address (bl_header b)) (bl_transactions b) fees subsidy w'"
    and ex': "ex = \<lparr>ex_state = w', ex_total_supply = br_total_supply (en_record pe) + subsidy,
        ex_subsidy = subsidy, ex_fees = fees\<rparr>"
    using ex unfolding ps' n validate_block_iff [OF pok(4)] by (auto simp: required_target_def)
  note sd = settlesD [OF hP pok(4) st]
  have wn: "st_network w' = TESTNET" using sd(2) by (simp add: entry_state_def)
  note ss = snapshot_same [OF sd(1) wn]
  have ht: "bh_height (bl_header b) = br_height (en_record pe) + 1"
    using g pok(3) by (simp add: block_guards_def)
  have em: "br_total_supply (en_record pe) + subsidy = emission (nat (bh_height (bl_header b)))"
  proof -
    let ?n = "nat (br_height (en_record pe))"
    have hh: "bh_height (bl_header b) = int (Suc ?n)" using ht pok(2) by simp
    have "block_subsidy (int (Suc ?n)) (emission ?n) = Inr subsidy"
      using st unfolding hh by (auto simp: settles_def pok(7))
    moreover have "int (Suc ?n) \<le> U64_MAX" using st unfolding hh by (auto simp: settles_def block_subsidy_closed)
    ultimately have "subsidy = scheduled_reward (Suc ?n div 500000)" 
      using scheduled_subsidy [OF refl, of ?n] by (metis sum.inject(2))
    then show ?thesis using emission_Suc [of ?n] by (simp add: pok(7) hh del: of_nat_Suc)
  qed
  have "child_ok P c e pe"
    using ex tg g w ps' n ht by (simp add: child_ok_def e block_guards_def)
  moreover have "entry_state e = state_of_snapshot TESTNET (snapshot w')"
    by (simp add: entry_state_def e ex')
  ultimately show "entry_ok P c h e"
    using h g pok(2,6) ht ss(1,3) ss(4) sd(3,4) pok(5) em pe by (simp add: entry_ok_def e ex' block_guards_def)
qed

text \<open>The two outcomes of a successful \<open>add_block\<close>, and no third.\<close>

definition update_ok :: "chain \<Rightarrow> bytes \<Rightarrow> chain_entry \<Rightarrow> chain \<Rightarrow> chain_update \<Rightarrow> bool" where
  "update_ok c h e c' u \<longleftrightarrow>
     ch_entries c' = AList.update h e (ch_entries c) \<and> ch_network c' = ch_network c
   \<and> cu_added u = h \<and> cu_active_tip u = ch_tip c'
   \<and> (\<exists>t. map_of (ch_entries c) (ch_tip c) = Some t
        \<and> cu_became_active u = (br_cumulative_work (en_record e) > br_cumulative_work (en_record t)))
   \<and> (if cu_became_active u
      then ch_tip c' = h \<and> cu_reorganized u = (cu_disconnected u \<noteq> [])
        \<and> (\<exists>a. cu_common_ancestor u = Some a
             \<and> fork c' (ch_tip c) h a (cu_disconnected u) (cu_connected u))
      else ch_tip c' = ch_tip c \<and> \<not> cu_reorganized u \<and> cu_common_ancestor u = None
        \<and> cu_disconnected u = [] \<and> cu_connected u = [])"

lemma branch_entries: "ch_entries c' = ch_entries c \<Longrightarrow> branch c h bs \<Longrightarrow> branch c' h bs"
  by (rotate_tac 1, induction rule: branch.induct) (auto intro: branch.intros)

lemma select_tip_spec:
  assumes t: "tree_ok P c'" and c': "c' = c\<lparr>ch_entries := AList.update h e (ch_entries c)\<rparr>"
    and f: "map_of (ch_entries c) h = None" and tip: "map_of (ch_entries c) (ch_tip c) = Some te"
  shows "\<exists>u c''. select_tip h e c' = (Inr u, c'') \<and> update_ok c h e c'' u"
proof -
  have tip': "map_of (ch_entries c') (ch_tip c') = Some te" and h': "map_of (ch_entries c') h = Some e"
    using tip f by (auto simp: c')
  show ?thesis
  proof (cases "br_cumulative_work (en_record e) > br_cumulative_work (en_record te)")
    case True
    obtain a dis con where r: "reorganization_paths c' (ch_tip c') h = Inr (a, dis, con)"
      "fork c' (ch_tip c') h a dis con" using reorganization_paths_spec [OF t tip' h'] by auto
    have "fork (c'\<lparr>ch_tip := h\<rparr>) (ch_tip c') h a dis con"
      using r(2) branch_entries [of "c'\<lparr>ch_tip := h\<rparr>" c'] by (auto simp: fork_def)
    then show ?thesis using True r(1) tip tip'
      by (simp add: select_tip_def dict_index_def update_ok_def c')
  next
    case False
    then show ?thesis using tip tip' by (simp add: select_tip_def dict_index_def update_ok_def c')
  qed
qed

lemma add_block_spec:
  assumes c: "chain_ok P c"
  shows "(\<exists>x. make_entry P b c = Inl x \<and> add_block P b c = (Inl x, c))
     \<or> (\<exists>h e u c'. make_entry P b c = Inr (h, e) \<and> add_block P b c = (Inr u, c') \<and> update_ok c h e c' u)"
proof (cases "make_entry P b c")
  case (Inr he)
  obtain h e where he: "he = (h, e)" by fastforce
  have t: "tree_ok P c" and tip: "\<exists>te. map_of (ch_entries c) (ch_tip c) = Some te"
    using c by (auto simp: chain_ok_def tip_heaviest_def)
  note m = make_entry_spec [OF t Inr [unfolded he]]
  show ?thesis
    using select_tip_spec [OF tree_ok_insert [OF t m(1,2)] refl m(1)] tip Inr he
    by (fastforce simp: add_block_def)
qed (simp add: add_block_def)

lemma add_block_ok:
  assumes c: "chain_ok P c" and a: "add_block P b c = (r, c')"
  shows "chain_ok P c'"
  using add_block_spec [OF c, of b]
proof (elim disjE exE conjE)
  fix h e u c'' assume m: "make_entry P b c = Inr (h, e)" and a': "add_block P b c = (Inr u, c'')"
    and u: "update_ok c h e c'' u"
  have cc: "c' = c''" using a a' by simp
  have t: "tree_ok P c" using c by (simp add: chain_ok_def)
  note ms = make_entry_spec [OF t m]
  let ?d = "c\<lparr>ch_entries := AList.update h e (ch_entries c)\<rparr>"
  have td: "tree_ok P ?d" by (rule tree_ok_insert [OF t ms(1,2)])
  have "extends ?d c'" "extends c' ?d" using u cc by (auto simp: extends_def update_ok_def)
  then have "tree_ok P c'"
    using td entry_ok_extends [OF td] u cc by (auto simp: tree_ok_def update_ok_def)
  moreover have "tip_heaviest c'"
    using c u cc ms(1) unfolding chain_ok_def tip_heaviest_def update_ok_def
    by (fastforce split: if_splits)
  ultimately show ?thesis by (simp add: chain_ok_def)
qed (use a c in simp)

subsection \<open>Reachable chains\<close>

lemma new_chain_ok:
  assumes P: "platform_ok P" and c: "new_chain P TESTNET = Inr c"
  shows "chain_ok P c"
proof -
  obtain g where g: "genesis_block P TESTNET = Inr g" "is_genesis P g" using genesis_total [OF P] by auto
  let ?s = "\<lparr>st_network = TESTNET, st_accounts = [], st_txids = {}\<rparr>"
  obtain h ex where h: "block_hash P g = Inr h" and ex: "validate_and_execute_block P g None ?s 0 TESTNET None = Inr ex"
    and c': "c = \<lparr>ch_network = TESTNET, ch_entries = [(h, \<lparr>en_block = g,
        en_record = \<lparr>br_block_hash = h, br_parent_hash = None, br_height = 0,
          br_cumulative_work = block_work (bh_difficulty_target (bl_header g)), br_total_supply = ex_total_supply ex\<rparr>,
        en_snapshot = snapshot (ex_state ex)\<rparr>)], ch_tip = h\<rparr>"
    using c g(1) by (auto simp: new_chain_def bindE_eq_Inr empty_state Let_def)
  have ex': "ex_state ex = ?s" "ex_total_supply ex = 0"
    using ex copy_state_ok [of P ?s]
    by (auto simp: validate_and_execute_block_def validate_genesis_def res_simps)
  have st: "state_of_snapshot TESTNET (snapshot ?s) = ?s"
    by (simp add: state_of_snapshot_def snapshot_def)
  have "0 < TESTNET_INITIAL_TARGET" "TESTNET_INITIAL_TARGET \<le> MAX_TARGET"
    by (simp_all add: TESTNET_INITIAL_TARGET_def MAX_TARGET_def)
  then show ?thesis
    using P g h
    by (auto simp: chain_ok_def tree_ok_def tip_heaviest_def entry_ok_def entry_state_def c' ex' st dict_ok_def
        is_genesis_def snapshot_def state_of_snapshot_def state_normal_def keys_def total_balance_def emission_def)
qed

definition chain_step :: "platform \<Rightarrow> chain \<Rightarrow> chain \<Rightarrow> bool" where
  "chain_step P c c' \<longleftrightarrow> (\<exists>b. c' = snd (add_block P b c))"

definition chain_reachable :: "platform \<Rightarrow> chain \<Rightarrow> bool" where
  "chain_reachable P = reach (\<lambda>c. new_chain P TESTNET = Inr c) (chain_step P)"

interpretation chain_machine: machine "\<lambda>c. new_chain P TESTNET = Inr c" "chain_step P"
  "\<lambda>c. platform_ok P \<longrightarrow> chain_ok P c" for P
proof unfold_locales
  fix c c' assume c: "platform_ok P \<longrightarrow> chain_ok P c" and s: "chain_step P c c'"
  then obtain b r where "add_block P b c = (r, c')" by (metis chain_step_def prod.collapse)
  then show "platform_ok P \<longrightarrow> chain_ok P c'" using c add_block_ok by blast
qed (simp add: new_chain_ok)

lemma reachable_ok: "platform_ok P \<Longrightarrow> chain_reachable P c \<Longrightarrow> chain_ok P c"
  using chain_machine.reach_inv by (simp add: chain_reachable_def)

lemma chain_okD:
  assumes "chain_ok P c"
  shows "tree_ok P c" and "platform_ok P" and "ch_network c = TESTNET"
  using assms by (auto simp: chain_ok_def tree_ok_def)

lemma copy_chain_same: "new_chain P TESTNET = Inr c0 \<Longrightarrow> ch_network c = TESTNET \<Longrightarrow> copy_chain P c = Inr c"
  by (cases c) (auto simp: copy_chain_def new_chain_def res_simps Let_def)

subsection \<open>Exceptions\<close>

lemma known_entry_raises: "raises_only {ChainError} (known_entry m c h)"
  by (auto simp: known_entry_def dict_index_def raises_only_def rethrow_def split: option.splits)

lemma known_entry_none: "map_of (ch_entries c) h = None \<Longrightarrow> known_entry m c h = raise ChainError m"
  by (simp add: known_entry_def dict_index_def rethrow_def)

lemma known_entry_iff: "known_entry m c h = Inr e \<longleftrightarrow> map_of (ch_entries c) h = Some e"
  by (simp add: known_entry_def)

lemma make_entry_raises:
  assumes t: "tree_ok P c"
  shows "raises_only {ChainError} (make_entry P b c)"
proof -
  have P: "platform_ok P" and n: "ch_network c = TESTNET" using t by (auto simp: tree_ok_def)
  have v: "raises_only {ChainError} (rethrow (\<lambda>k. k = BlockError) (Exn ChainError)
      (validate_and_execute_block P b (Some (en_block pe)) ps x (ch_network c) d))"
    if pe: "known_entry m c p = Inr pe" and ps: "state_from_snapshot P (en_snapshot pe) (ch_network c) = Inr ps"
    for pe ps x d m p
  proof (rule raises_rethrow [OF validate_block_raises [OF P]])
    have e: "map_of (ch_entries c) p = Some pe" using pe by (simp add: known_entry_iff)
    show "network_fits (ch_network c)" by (simp add: n)
    show "state_ok P ps" using ps entry_state_lookup [OF t e] entry_okD(4) [OF tree_entry [OF t e]] by simp
    show "block_hash P (en_block pe) = Inr p" by (rule entry_okD(1) [OF tree_entry [OF t e]])
  qed auto
  have s: "raises_only {ChainError} (state_from_snapshot P (en_snapshot pe) (ch_network c))"
    if "known_entry m c p = Inr pe" for pe m p
    using entry_state_lookup [OF t] that by (intro raises_total) (auto simp: known_entry_iff)
  show ?thesis
    unfolding make_entry_def Let_def work_for_target_def
    by (intro raises_intros raises_rethrow_value [OF block_hash_raises] known_entry_raises
        expected_target_raises [OF t] v s) auto
qed

lemma add_block_raises:
  assumes "chain_ok P c" and "add_block P b c = (Inl x, c')"
  shows "c' = c \<and> exn_kind x = ChainError"
  using add_block_spec [OF assms(1), of b] assms(2) make_entry_raises [OF chain_okD(1) [OF assms(1)], of b]
  by (auto simp: raises_only_def)

subsection \<open>The active chain\<close>

definition block_at :: "chain \<Rightarrow> bytes \<Rightarrow> block" where
  "block_at c h = en_block (the (map_of (ch_entries c) h))"

lemma collect_branch_spec:
  "branch c h bs \<Longrightarrow> map_of (ch_entries c) h = Some e \<Longrightarrow> length bs \<le> Suc fuel \<Longrightarrow>
     collect_branch fuel c e acc = Inr (acc @ map (block_at c) bs)"
proof (induction arbitrary: e fuel acc rule: branch.induct)
  case (branch_root h e')
  then show ?case by (subst collect_branch.simps) (simp add: Let_def block_at_def)
next
  case (branch_child h e' p bs)
  have "bs \<noteq> []" using branch_child.hyps(3) by (auto elim: branch.cases)
  then obtain n where n: "fuel = Suc n" "length bs \<le> Suc n"
    using branch_child.prems(2) by (cases fuel) auto
  obtain pe where pe: "map_of (ch_entries c) p = Some pe"
    using branch_child.hyps(3) by (auto elim: branch.cases)
  have "collect_branch n c pe (acc @ [en_block e']) = Inr ((acc @ [en_block e']) @ map (block_at c) bs)"
    by (rule branch_child.IH [OF pe n(2)])
  then show ?case using branch_child.prems(1) branch_child.hyps(1,2) pe n(1)
    by (subst collect_branch.simps) (simp add: Let_def dict_index_def block_at_def)
qed

definition follows :: "platform \<Rightarrow> block \<Rightarrow> block \<Rightarrow> bool" where
  "follows P a b \<longleftrightarrow> block_hash P a = Inr (bh_previous_block_hash (bl_header b))
     \<and> bh_height (bl_header b) = bh_height (bl_header a) + 1
     \<and> bh_timestamp (bl_header a) < bh_timestamp (bl_header b)"

lemma child_follows:
  assumes t: "tree_ok P c" and e: "map_of (ch_entries c) h = Some e" and p: "br_parent_hash (en_record e) = Some p"
    and pe: "map_of (ch_entries c) p = Some pe"
  shows "follows P (en_block pe) (en_block e)"
proof -
  have "child_ok P c e pe" using tree_entry [OF t e] p pe by (auto simp: entry_ok_def)
  then obtain ex where ex: "validate_and_execute_block P (en_block e) (Some (en_block pe)) (entry_state pe)
      (br_total_supply (en_record pe)) TESTNET (Some (bh_difficulty_target (bl_header (en_block e)))) = Inr ex"
    by (auto simp: child_ok_def)
  then show ?thesis
    unfolding validate_block_iff [OF entry_okD(4) [OF tree_entry [OF t pe]]]
    by (auto simp: block_guards_def follows_def)
qed

lemma branch_follows:
  assumes t: "tree_ok P c"
  shows "branch c h bs \<Longrightarrow> successively (\<lambda>b a. follows P a b) (map (block_at c) bs) \<and> bs \<noteq> []
    \<and> hd bs = h \<and> genesis_block P TESTNET = Inr (block_at c (last bs))"
proof (induction rule: branch.induct)
  case (branch_root h e)
  then show ?case using tree_entry [OF t branch_root(1)] by (simp add: block_at_def entry_ok_def)
next
  case (branch_child h e p bs)
  then obtain pe where "map_of (ch_entries c) p = Some pe" by (auto elim: branch.cases)
  then have "follows P (block_at c p) (block_at c h)"
    using child_follows [OF t branch_child.hyps(1,2)] branch_child.hyps(1) by (simp add: block_at_def)
  then show ?case using branch_child.IH by (cases bs) auto
qed

lemma active_chain_spec:
  assumes c: "chain_ok P c"
  obtains bs e where "branch c (ch_tip c) bs" and "map_of (ch_entries c) (ch_tip c) = Some e"
    and "length bs = nat (br_height (en_record e)) + 1" and "active_chain c = Inr (rev (map (block_at c) bs))"
proof -
  obtain e where e: "map_of (ch_entries c) (ch_tip c) = Some e" using c by (auto simp: chain_ok_def tip_heaviest_def)
  obtain bs where bs: "branch c (ch_tip c) bs" "length bs = nat (br_height (en_record e)) + 1"
    using branch_exists [OF chain_okD(1) [OF c] e] by auto
  then show thesis using that e collect_branch_spec [OF bs(1) e, of "nat (br_height (en_record e))" "[]"]
    by (simp add: active_chain_def dict_index_def)
qed

subsection \<open>Mining on the chain\<close>

definition parent_hash_of :: "bytes option \<Rightarrow> chain \<Rightarrow> bytes" where
  "parent_hash_of p c = (case p of None \<Rightarrow> ch_tip c | Some h \<Rightarrow> h)"

lemma build_candidate_iff:
  assumes t: "tree_ok P c"
  shows "build_candidate P miner ts timestamp p c = Inr b \<longleftrightarrow>
     (\<exists>pe target. map_of (ch_entries c) (parent_hash_of p c) = Some pe
        \<and> expected_target_for_child c (parent_hash_of p c) = Inr target
        \<and> build_block_candidate P (en_block pe) (entry_state pe) (br_total_supply (en_record pe)) miner ts
            timestamp (Some target) = Inr b)"
  using entry_state_lookup [OF t, of "parent_hash_of p c"]
  by (auto simp: build_candidate_def parent_hash_of_def Let_def bindE_eq_Inr known_entry_iff)

lemma mined_block_added:
  assumes c: "chain_ok P c" and b: "build_candidate P miner ts timestamp p c = Inr b"
    and m: "mine_block P b attempts = Inr b'" and h: "block_hash P b' = Inr h"
    and f: "map_of (ch_entries c) h = None"
  shows "\<exists>e u c'. add_block P b' c = (Inr u, c') \<and> update_ok c h e c' u \<and> make_entry P b' c = Inr (h, e)"
proof -
  note t = chain_okD(1) [OF c] and P = chain_okD(2) [OF c] and n = chain_okD(3) [OF c]
  have hP: "hash_ok P" using P by simp
  obtain pe target where pe: "map_of (ch_entries c) (parent_hash_of p c) = Some pe"
    and tg: "expected_target_for_child c (parent_hash_of p c) = Inr target"
    and bb: "build_block_candidate P (en_block pe) (entry_state pe) (br_total_supply (en_record pe)) miner ts
            timestamp (Some target) = Inr b"
    using b build_candidate_iff [OF t] by blast
  note eo = entry_okD [OF tree_entry [OF t pe]]
  obtain ex where ex: "validate_and_execute_block P b' (Some (en_block pe)) (entry_state pe)
      (br_total_supply (en_record pe)) TESTNET (Some target) = Inr ex"
    using mined_candidate_valid [OF hP eo(4) bb m] by (auto simp: entry_state_def)
  have prev: "bh_previous_block_hash (bl_header b') = parent_hash_of p c"
    using candidate_fields(5) [OF eo(4) bb] mined_same(4) [OF m] eo(1) by simp
  have "bh_difficulty_target (bl_header b') = target"
    using candidate_fields(2) [OF eo(4) bb] mined_same(6) [OF m] by (simp add: required_target_def)
  moreover have "0 < target \<and> target \<le> MAX_TARGET"
    using ex unfolding validate_block_iff [OF eo(4)] by (auto simp: block_guards_def required_target_def)
  ultimately obtain e where "make_entry P b' c = Inr (h, e)"
    using h f pe prev tg ex n entry_state_lookup [OF t pe]
    by (simp add: make_entry_def known_entry_def dict_index_def Let_def work_for_target_def)
  then show ?thesis using add_block_spec [OF c, of b'] by auto
qed

subsection \<open>A sample chain\<close>

definition sample_chain :: chain where
  "sample_chain = projr (new_chain sample_platform TESTNET)"

definition sample_next :: block where
  "sample_next = projr (mine_block sample_platform
     (projr (build_candidate sample_platform (sample_address 6) [] sample_time None sample_chain)) 1)"

definition sample_chain_2 :: chain where
  "sample_chain_2 = snd (add_block sample_platform sample_next sample_chain)"

lemma sample_chain_new: "new_chain sample_platform TESTNET = Inr sample_chain"
proof -
  let ?s = "\<lparr>st_network = TESTNET, st_accounts = [], st_txids = {}\<rparr>"
  obtain h where h: "block_hash sample_platform sample_genesis = Inr h"
    "bh_difficulty_target (bl_header sample_genesis) = TESTNET_INITIAL_TARGET"
    using sample_genesis_ok(2) by (auto simp: is_genesis_def)
  have "proof_of_work sample_platform sample_genesis"
    using sample_proof_of_work [OF h(1)] h(2) by (simp add: TESTNET_INITIAL_TARGET_def MAX_TARGET_def)
  then have "\<exists>ex. validate_and_execute_block sample_platform sample_genesis None ?s 0 TESTNET None = Inr ex"
    using h sample_genesis_ok(1) copy_state_ok [OF empty_state_ok]
    by (auto simp: validate_and_execute_block_def validate_genesis_def snapshot_def validate_supply_def
        supply_constants proof_of_work_def)
  then have "\<exists>c. new_chain sample_platform TESTNET = Inr c"
    using h sample_genesis_ok(1)
    by (auto simp: new_chain_def empty_state Let_def work_for_target_def TESTNET_INITIAL_TARGET_def MAX_TARGET_def)
  then show ?thesis by (auto simp: sample_chain_def)
qed

lemma sample_chain_reachable: "chain_reachable sample_platform sample_chain"
  unfolding chain_reachable_def by (rule reach_start) (rule sample_chain_new)

lemma sample_chain_2_reachable: "chain_reachable sample_platform sample_chain_2"
  using sample_chain_reachable unfolding chain_reachable_def sample_chain_2_def
  by (rule reach_step) (auto simp: chain_step_def)

lemma sample_chain_ok: "chain_ok sample_platform sample_chain"
  by (rule new_chain_ok [OF sample_platform_ok sample_chain_new])

lemma new_chain_entries:
  assumes P: "platform_ok P" and c: "new_chain P TESTNET = Inr c"
  shows "\<exists>e. ch_entries c = [(ch_tip c, e)] \<and> genesis_block P TESTNET = Inr (en_block e)
     \<and> br_height (en_record e) = 0 \<and> br_parent_hash (en_record e) = None
     \<and> en_snapshot e = \<lparr>snap_accounts = [], snap_txids = {}\<rparr> \<and> br_total_supply (en_record e) = 0"
proof -
  let ?s = "\<lparr>st_network = TESTNET, st_accounts = [], st_txids = {}\<rparr>"
  have "ex_state ex = ?s \<and> ex_total_supply ex = 0"
    if "validate_and_execute_block P g None ?s 0 TESTNET None = Inr ex" for ex g
    using that copy_state_ok [of P ?s]
    by (auto simp: validate_and_execute_block_def validate_genesis_def res_simps)
  then show ?thesis
    using c by (auto simp: new_chain_def bindE_eq_Inr empty_state Let_def snapshot_def)
qed

lemma sample_candidate_on_chain:
  "\<exists>b. build_candidate sample_platform (sample_address 6) [] sample_time None sample_chain = Inr b
     \<and> mine_block sample_platform b 1 = Inr (with_nonce 0 b)
     \<and> (\<exists>h. block_hash sample_platform (with_nonce 0 b) = Inr h)"
proof -
  note t = chain_okD(1) [OF sample_chain_ok]
  obtain e where es: "ch_entries sample_chain = [(ch_tip sample_chain, e)]" and g: "en_block e = sample_genesis"
    and h0: "br_height (en_record e) = 0" and sn: "en_snapshot e = \<lparr>snap_accounts = [], snap_txids = {}\<rparr>"
    and s0: "br_total_supply (en_record e) = 0"
    using new_chain_entries [OF sample_platform_ok sample_chain_new] sample_genesis_ok(1) by auto
  have le: "map_of (ch_entries sample_chain) (ch_tip sample_chain) = Some e" by (simp add: es)
  have st: "entry_state e = \<lparr>st_network = TESTNET, st_accounts = [], st_txids = {}\<rparr>"
    by (simp add: entry_state_def state_of_snapshot_def sn)
  note eo = entry_okD [OF tree_entry [OF t le]]
  have gen: "bh_height (bl_header sample_genesis) = 0" "bh_timestamp (bl_header sample_genesis) = TESTNET_GENESIS_TIMESTAMP"
    "bh_difficulty_target (bl_header sample_genesis) = TESTNET_INITIAL_TARGET"
    using sample_genesis_ok(2) by (auto simp: is_genesis_def)
  have tg: "expected_target_for_child sample_chain (ch_tip sample_chain) = Inr TESTNET_INITIAL_TARGET"
    using expected_target_spec(2) [OF t le] by (simp add: h0 g gen U64_MAX_def)
  have cg: "candidate_guards sample_platform sample_genesis (entry_state e) 0 (sample_address 6) [] sample_time
      (required_target (Some TESTNET_INITIAL_TARGET) sample_genesis)"
    by (simp add: candidate_guards_def supply_constants gen sample_time_def U64_MAX_def st
        TESTNET_GENESIS_TIMESTAMP_def MAX_BLOCK_TRANSACTIONS_def required_target_def TESTNET_INITIAL_TARGET_def MAX_TARGET_def)
  have "apply_transactions sample_platform [] (bh_height (bl_header sample_genesis) + 1) (entry_state e)
      = (Inr 0, entry_state e)"
    using apply_transactions_iff [OF _ eo(4), of "[]"] by (simp add: gen U64_MAX_def)
  then obtain b where b: "build_block_candidate sample_platform sample_genesis (entry_state e) 0 (sample_address 6) []
      sample_time (Some TESTNET_INITIAL_TARGET) = Inr b"
    using candidate_total [OF sample_platform_ok _ eo(4) _ cg] eo(1,6) by (auto simp: st g s0)
  have bc: "build_candidate sample_platform (sample_address 6) [] sample_time None sample_chain = Inr b"
    using b le tg by (simp add: build_candidate_iff [OF t] parent_hash_of_def g s0)
  have "\<exists>i. block_hash sample_platform (with_nonce 0 b) = Inr i"
    by (rule candidate_hash [OF sample_platform_ok _ eo(4) b]) (simp_all add: st gen U64_MAX_def)
  then obtain i where i: "block_hash sample_platform (with_nonce 0 b) = Inr i" by auto
  note cf = candidate_fields [OF eo(4) b]
  have "proof_of_work sample_platform (with_nonce 0 b)"
    by (rule sample_proof_of_work [OF i]) (simp_all add: cf required_target_def TESTNET_INITIAL_TARGET_def MAX_TARGET_def)
  then have "mine_block sample_platform b 1 = Inr (with_nonce 0 b)"
    using cf(1) by (auto simp: mine_block_def proof_of_work_def Let_def U64_MAX_def)
  then show ?thesis using bc i by blast
qed

lemma sample_hash_last: "last (sample_hash bs) = (if bs = [] then 0 else last bs)"
  by (simp add: sample_hash_def)

text \<open>On the sample platform the hash of a block ends in the last byte of its miner address.\<close>

lemma sample_block_hash_last:
  assumes "block_hash sample_platform b = Inr h"
    and "utf8_encode (bh_miner_address (bl_header b)) = Inr u" and "u \<noteq> []"
  shows "last h = last u"
proof -
  obtain bs where bs: "header_to_bytes sample_platform (bl_header b) = Inr bs" and h: "h = sample_hash bs"
    using assms(1) by (auto simp: block_hash_def header_hash_def bindE_eq_Inr sha256_digest_def sample_platform_def)
  obtain fs where "header_fields sample_platform (bl_header b) = fs @ [encode_text sample_platform (bh_miner_address (bl_header b))]"
    unfolding header_fields_def by (metis append.left_neutral append_Cons)
  moreover have "\<exists>n. q = n @ u" if "encode_text sample_platform (bh_miner_address (bl_header b)) = Inr q" for q
    using that assms(2) by (auto simp: encode_text_def encode_bytes_def sample_platform_def bindE_eq_Inr)
  ultimately have "\<exists>p. bs = p @ u"
    using bs by (fastforce simp: header_to_bytes_iff join_fields_append bindE_eq_Inr)
  then show ?thesis using h assms(3) by (auto simp: sample_hash_last)
qed

definition ends_with :: "pystr \<Rightarrow> byte \<Rightarrow> bool" where
  "ends_with s b \<longleftrightarrow> (case utf8_encode s of Inl _ \<Rightarrow> False | Inr u \<Rightarrow> u \<noteq> [] \<and> last u = b)"

lemma sample_miners_differ: "ends_with TESTNET_GENESIS_MINER_ADDRESS 107" "ends_with (sample_address 6) 97"
  by code_simp+

lemma genesis_miner:
  "genesis_block P network = Inr g \<Longrightarrow> bh_miner_address (bl_header g) = TESTNET_GENESIS_MINER_ADDRESS"
  by (auto simp: genesis_block_def bindE_eq_Inr Let_def split: if_splits)

lemma sample_hash_fresh:
  assumes "block_hash sample_platform b = Inr h" "ends_with (bh_miner_address (bl_header b)) 97"
  shows "h \<noteq> ch_tip sample_chain"
proof -
  obtain e where es: "ch_entries sample_chain = [(ch_tip sample_chain, e)]" and g: "en_block e = sample_genesis"
    using new_chain_entries [OF sample_platform_ok sample_chain_new] sample_genesis_ok(1) by auto
  have le: "map_of (ch_entries sample_chain) (ch_tip sample_chain) = Some e" by (simp add: es)
  have "block_hash sample_platform sample_genesis = Inr (ch_tip sample_chain)"
    using entry_okD(1) [OF tree_entry [OF chain_okD(1) [OF sample_chain_ok] le]] by (simp add: g)
  moreover have "bh_miner_address (bl_header sample_genesis) = TESTNET_GENESIS_MINER_ADDRESS"
    by (rule genesis_miner [OF sample_genesis_ok(1)])
  ultimately have "last (ch_tip sample_chain) = 107"
    using sample_miners_differ(1) sample_block_hash_last [of sample_genesis "ch_tip sample_chain"]
    by (auto simp: ends_with_def split: sum.splits)
  moreover have "last h = 97"
    using assms sample_block_hash_last [of b h] by (auto simp: ends_with_def split: sum.splits)
  ultimately show ?thesis by auto
qed

lemma sample_next_added:
  "build_candidate sample_platform (sample_address 6) [] sample_time None sample_chain
     = Inr (projr (build_candidate sample_platform (sample_address 6) [] sample_time None sample_chain))"
  "\<exists>u. add_block sample_platform sample_next sample_chain = (Inr u, sample_chain_2)"
proof -
  obtain b h where b: "build_candidate sample_platform (sample_address 6) [] sample_time None sample_chain = Inr b"
    "mine_block sample_platform b 1 = Inr (with_nonce 0 b)" "block_hash sample_platform (with_nonce 0 b) = Inr h"
    using sample_candidate_on_chain by blast
  then have sn: "sample_next = with_nonce 0 b" by (simp add: sample_next_def)
  show "build_candidate sample_platform (sample_address 6) [] sample_time None sample_chain
     = Inr (projr (build_candidate sample_platform (sample_address 6) [] sample_time None sample_chain))"
    using b by simp
  obtain pe target where bb: "build_block_candidate sample_platform (en_block pe) (entry_state pe)
      (br_total_supply (en_record pe)) (sample_address 6) [] sample_time (Some target) = Inr b"
    and pe: "map_of (ch_entries sample_chain) (parent_hash_of None sample_chain) = Some pe"
    using b(1) by (auto simp: build_candidate_iff [OF chain_okD(1) [OF sample_chain_ok]])
  have "bh_miner_address (bl_header (with_nonce 0 b)) = sample_address 6"
    using candidate_fields(7) [OF entry_okD(4) [OF tree_entry [OF chain_okD(1) [OF sample_chain_ok] pe]] bb]
    by (simp add: with_nonce_def)
  then have "h \<noteq> ch_tip sample_chain"
    using sample_hash_fresh [OF b(3)] sample_miners_differ(2) by simp
  then have "map_of (ch_entries sample_chain) h = None"
    using new_chain_entries [OF sample_platform_ok sample_chain_new] by auto
  then show "\<exists>u. add_block sample_platform sample_next sample_chain = (Inr u, sample_chain_2)"
    using mined_block_added [OF sample_chain_ok b] by (auto simp: sn sample_chain_2_def)
qed

subsection \<open>Properties\<close>

text \<open>C1. \<open>add_block_accepts\<close>: when \<open>add_block\<close> returns, the block was unknown and passed consensus
  validation against its stored parent with the target the chain expects there; exactly its entry
  is new; the tip moves only to a branch of strictly more work, and then the update names the last
  common block and the two disjoint paths of the fork in order; otherwise nothing is switched.\<close>

theorem add_block_accepts:
  assumes "platform_ok P" and "chain_reachable P c" and "add_block P b c = (Inr u, c')"
  shows "\<exists>h pe d ex e. block_hash P b = Inr h \<and> \<not> chain_contains h c
     \<and> get_block (bh_previous_block_hash (bl_header b)) c = Inr (en_block pe)
     \<and> expected_target_for_child c (bh_previous_block_hash (bl_header b)) = Inr d
     \<and> validate_and_execute_block P b (Some (en_block pe)) (entry_state pe) (br_total_supply (en_record pe))
         TESTNET (Some d) = Inr ex
     \<and> en_block e = b \<and> en_snapshot e = snapshot (ex_state ex)
     \<and> br_cumulative_work (en_record e) = br_cumulative_work (en_record pe) + block_work d
     \<and> update_ok c h e c' u"
proof -
  note c = reachable_ok [OF assms(1,2)]
  obtain h e where m: "make_entry P b c = Inr (h, e)" and u: "update_ok c h e c' u"
    using add_block_spec [OF c, of b] assms(3) by auto
  note ms = make_entry_spec [OF chain_okD(1) [OF c] m]
  let ?p = "bh_previous_block_hash (bl_header b)"
  obtain pe where pe: "map_of (ch_entries c) ?p = Some pe" "child_ok P c e pe" and h: "block_hash P b = Inr h"
    using ms(2-4) by (auto simp: entry_ok_def)
  let ?d = "bh_difficulty_target (bl_header b)"
  obtain ex where ex: "validate_and_execute_block P b (Some (en_block pe)) (entry_state pe)
      (br_total_supply (en_record pe)) TESTNET (Some ?d) = Inr ex" "snapshot (ex_state ex) = en_snapshot e"
    and w: "br_cumulative_work (en_record e) = br_cumulative_work (en_record pe) + block_work ?d"
    and tg: "expected_target_for_child c ?p = Inr ?d"
    using pe(2) ms(3) by (auto simp: child_ok_def)
  have "\<not> chain_contains h c" "get_block ?p c = Inr (en_block pe)"
    using ms(1) pe(1) by (simp_all add: chain_contains_def get_block_def known_entry_iff [THEN iffD2])
  with h tg ex w ms(3) u show ?thesis by metis
qed

lemma add_block_accepts_witness:
  "\<exists>h u e. block_hash sample_platform sample_next = Inr h \<and> \<not> chain_contains h sample_chain
     \<and> add_block sample_platform sample_next sample_chain = (Inr u, sample_chain_2)
     \<and> update_ok sample_chain h e sample_chain_2 u"
proof -
  obtain u where u: "add_block sample_platform sample_next sample_chain = (Inr u, sample_chain_2)"
    using sample_next_added(2) by blast
  show ?thesis using add_block_accepts [OF sample_platform_ok sample_chain_reachable u] u by blast
qed

text \<open>C25. \<open>tip_has_most_work\<close>: the tip of a reachable chain exists and no known block has more
  cumulative work.\<close>

theorem tip_has_most_work:
  assumes "platform_ok P" and "chain_reachable P c"
  shows "\<exists>w. chain_cumulative_work c = Inr w
     \<and> (\<forall>h. case get_record h c of Inl _ \<Rightarrow> \<not> chain_contains h c | Inr r \<Rightarrow> br_cumulative_work r \<le> w)"
proof -
  obtain t where t: "map_of (ch_entries c) (ch_tip c) = Some t"
    and m: "\<And>h e. map_of (ch_entries c) h = Some e \<Longrightarrow> br_cumulative_work (en_record e) \<le> br_cumulative_work (en_record t)"
    using reachable_ok [OF assms] by (auto simp: chain_ok_def tip_heaviest_def)
  have "case get_record h c of Inl _ \<Rightarrow> \<not> chain_contains h c
      | Inr r \<Rightarrow> br_cumulative_work r \<le> br_cumulative_work (en_record t)" for h
    using m [of h]
    by (cases "map_of (ch_entries c) h") (simp_all add: get_record_def known_entry_iff [THEN iffD2] known_entry_none chain_contains_def)
  then show ?thesis using t by (auto simp: chain_cumulative_work_def dict_index_def)
qed

lemma tip_has_most_work_witness: "\<exists>w. chain_cumulative_work sample_chain_2 = Inr w"
  using tip_has_most_work [OF sample_platform_ok sample_chain_2_reachable] by blast

text \<open>C20. \<open>supply_is_conserved\<close>: at every known block of a reachable chain the state is well formed, the
  sum of all balances is the recorded supply, and this supply is the emission of the schedule up to
  the height of the block, never above the maximum.\<close>

theorem supply_is_conserved:
  assumes "platform_ok P" and "chain_reachable P c" and "get_record h c = Inr r"
  shows "\<exists>s. get_state P h c = Inr s \<and> state_ok P s \<and> total_balance s = br_total_supply r
     \<and> br_total_supply r = emission (nat (br_height r)) \<and> br_total_supply r \<le> MAX_SUPPLY_ATOMS"
proof -
  note t = chain_okD(1) [OF reachable_ok [OF assms(1,2)]]
  obtain e where e: "map_of (ch_entries c) h = Some e" "r = en_record e"
    using assms(3) by (auto simp: get_record_def bindE_eq_Inr known_entry_iff)
  show ?thesis
    using entry_okD [OF tree_entry [OF t e(1)]] entry_state_lookup [OF t e(1)] e emission_bound
    by (auto simp: get_state_def known_entry_def dict_index_def)
qed

lemma supply_is_conserved_witness:
  "\<exists>s r. get_record (ch_tip sample_chain) sample_chain = Inr r
     \<and> get_state sample_platform (ch_tip sample_chain) sample_chain = Inr s \<and> total_balance s = br_total_supply r"
proof -
  obtain r where r: "get_record (ch_tip sample_chain) sample_chain = Inr r"
    using new_chain_entries [OF sample_platform_ok sample_chain_new]
    by (auto simp: get_record_def known_entry_def dict_index_def)
  show ?thesis using supply_is_conserved [OF sample_platform_ok sample_chain_reachable r] r by blast
qed

text \<open>C26. \<open>refused_block_changes_nothing\<close>: on a reachable chain \<open>add_block\<close> raises \<open>ChainError\<close> only, and
  then the tree and its tip are as before; in particular no loop runs away and no lookup fails.\<close>

theorem refused_block_changes_nothing:
  assumes "platform_ok P" and "chain_reachable P c" and "add_block P b c = (Inl x, c')"
  shows "exn_kind x = ChainError \<and> c' = c"
  using add_block_raises [OF reachable_ok [OF assms(1,2)] assms(3)] by simp

lemma genesis_refused:
  "add_block sample_platform sample_genesis sample_chain = (raise ChainError ''block is already known'', sample_chain)"
proof -
  obtain e where es: "ch_entries sample_chain = [(ch_tip sample_chain, e)]" and g: "en_block e = sample_genesis"
    using new_chain_entries [OF sample_platform_ok sample_chain_new] sample_genesis_ok(1) by auto
  have le: "map_of (ch_entries sample_chain) (ch_tip sample_chain) = Some e" by (simp add: es)
  have "block_hash sample_platform sample_genesis = Inr (ch_tip sample_chain)"
    using entry_okD(1) [OF tree_entry [OF chain_okD(1) [OF sample_chain_ok] le]] by (simp add: g)
  then show ?thesis by (simp add: add_block_def make_entry_def le)
qed

lemma refused_block_changes_nothing_witness:
  "\<exists>x. add_block sample_platform sample_genesis sample_chain = (Inl x, sample_chain) \<and> exn_kind x = ChainError"
  using refused_block_changes_nothing [OF sample_platform_ok sample_chain_reachable, of sample_genesis]
    genesis_refused by auto

text \<open>C27. \<open>active_chain_is_linked\<close>: the walk from the tip ends, at the genesis block, with one block per
  height; every block names the hash of the one before it, with the next height and a later time.\<close>

theorem active_chain_is_linked:
  assumes "platform_ok P" and "chain_reachable P c"
  shows "\<exists>bs. active_chain c = Inr bs \<and> bs \<noteq> [] \<and> genesis_block P TESTNET = Inr (hd bs)
     \<and> chain_tip c = Inr (last bs) \<and> chain_height c = Inr (int (length bs) - 1)
     \<and> successively (follows P) bs"
proof -
  note c = reachable_ok [OF assms] note t = chain_okD(1) [OF c]
  obtain bs e where b: "branch c (ch_tip c) bs" and e: "map_of (ch_entries c) (ch_tip c) = Some e"
    and l: "length bs = nat (br_height (en_record e)) + 1" and a: "active_chain c = Inr (rev (map (block_at c) bs))"
    by (rule active_chain_spec [OF c])
  note bf = branch_follows [OF t b] and h = entry_okD(2) [OF tree_entry [OF t e]]
  have "last (rev (map (block_at c) bs)) = en_block e" "hd (rev (map (block_at c) bs)) = block_at c (last bs)"
    using bf e by (simp_all add: last_rev hd_rev hd_map last_map block_at_def)
  then show ?thesis using a bf l h e
    by (auto simp: chain_tip_def chain_height_def dict_index_def successively_rev)
qed

lemma active_chain_is_linked_witness: "\<exists>bs. active_chain sample_chain_2 = Inr bs \<and> bs \<noteq> []"
  using active_chain_is_linked [OF sample_platform_ok sample_chain_2_reachable] by blast

text \<open>C28. \<open>difficulty_rule\<close>: on a reachable chain the target of a child is its parent's, except at every
  120th height, where it is scaled by the time of the last 120 blocks over 7140 seconds, within a
  factor of 4 either way and within 1 and \<open>MAX_TARGET\<close>.\<close>

theorem difficulty_rule:
  assumes "platform_ok P" and "chain_reachable P c" and "get_record h c = Inr r" and "get_block h c = Inr b"
    and "expected_target_for_child c h = Inr d"
  shows "0 < d \<and> d \<le> MAX_TARGET \<and> bh_difficulty_target (bl_header b) div 4 \<le> d
     \<and> d \<le> 4 * bh_difficulty_target (bl_header b)
     \<and> (if (br_height r + 1) mod 120 \<noteq> 0 then d = bh_difficulty_target (bl_header b)
        else \<exists>a bs. a \<in> set bs \<and> branch c h bs \<and> height_of c a = br_height r - 119
           \<and> d = retarget (bh_difficulty_target (bl_header b))
               (bh_timestamp (bl_header b) - bh_timestamp (bl_header (block_at c a))))"
proof -
  note t = chain_okD(1) [OF reachable_ok [OF assms(1,2)]]
  obtain e where e: "map_of (ch_entries c) h = Some e" "r = en_record e" "b = en_block e"
    using assms(3,4) by (auto simp: get_record_def get_block_def bindE_eq_Inr known_entry_iff)
  note eo = entry_okD(2,8,9) [OF tree_entry [OF t e(1)]]
  note rb = retarget_bounds [OF eo(2,3)]
  have u: "br_height (en_record e) \<noteq> U64_MAX" using expected_target_spec(1) [OF t e(1)] assms(5) by auto
  show ?thesis
  proof (cases "(br_height r + 1) mod 120 = 0")
    case False
    then have "d = bh_difficulty_target (bl_header b)"
      using expected_target_spec(2) [OF t e(1) u] assms(5) by (simp add: e)
    then show ?thesis using False eo by (simp add: e)
  next
    case True
    obtain a ha where a: "map_of (ch_entries c) ha = Some a" "br_height (en_record a) = br_height (en_record e) - 119"
        "\<forall>bs. branch c h bs \<longrightarrow> ha \<in> set bs"
      and d: "d = retarget (bh_difficulty_target (bl_header b))
               (bh_timestamp (bl_header b) - bh_timestamp (bl_header (en_block a)))"
      using expected_target_spec(3) [OF t e(1) u] assms(5) True by (auto simp: e)
    obtain bs where bs: "branch c h bs" using branch_exists [OF t e(1)] by blast
    have "block_at c ha = en_block a" "height_of c ha = br_height r - 119"
      using a(1,2) by (simp_all add: block_at_def height_of_def e)
    then have "\<exists>a bs. a \<in> set bs \<and> branch c h bs \<and> height_of c a = br_height r - 119
           \<and> d = retarget (bh_difficulty_target (bl_header b))
               (bh_timestamp (bl_header b) - bh_timestamp (bl_header (block_at c a)))"
      using a(3) bs d by metis
    then show ?thesis using rb d True by (simp add: e)
  qed
qed

lemma difficulty_rule_witness:
  "expected_target_for_child sample_chain (ch_tip sample_chain) = Inr TESTNET_INITIAL_TARGET
     \<and> TESTNET_INITIAL_TARGET \<le> 4 * TESTNET_INITIAL_TARGET"
proof -
  note t = chain_okD(1) [OF sample_chain_ok]
  obtain e where es: "ch_entries sample_chain = [(ch_tip sample_chain, e)]" and g: "en_block e = sample_genesis"
    and h0: "br_height (en_record e) = 0"
    using new_chain_entries [OF sample_platform_ok sample_chain_new] sample_genesis_ok(1) by auto
  have le: "map_of (ch_entries sample_chain) (ch_tip sample_chain) = Some e" by (simp add: es)
  have gt: "bh_difficulty_target (bl_header sample_genesis) = TESTNET_INITIAL_TARGET"
    using sample_genesis_ok(2) by (auto simp: is_genesis_def)
  have tg: "expected_target_for_child sample_chain (ch_tip sample_chain) = Inr TESTNET_INITIAL_TARGET"
    using expected_target_spec(2) [OF t le] by (simp add: h0 g gt U64_MAX_def)
  have "get_record (ch_tip sample_chain) sample_chain = Inr (en_record e)"
    "get_block (ch_tip sample_chain) sample_chain = Inr sample_genesis"
    using le g by (simp_all add: get_record_def get_block_def known_entry_def dict_index_def)
  from difficulty_rule [OF sample_platform_ok sample_chain_reachable this tg] tg show ?thesis
    by (simp add: gt)
qed

text \<open>\<open>mined_block_is_added\<close>: a candidate built on any known block of a reachable chain and mined
  is accepted by \<open>add_block\<close>, unless a block of that hash is known already.\<close>

theorem mined_block_is_added:
  assumes "platform_ok P" and "chain_reachable P c" and "build_candidate P miner ts timestamp p c = Inr b"
    and "mine_block P b attempts = Inr b'" and "block_hash P b' = Inr h"
  shows "chain_contains h c \<or> (\<exists>u c'. add_block P b' c = (Inr u, c') \<and> get_block h c' = Inr b')"
proof (cases "map_of (ch_entries c) h")
  case None
  note t = chain_okD(1) [OF reachable_ok [OF assms(1,2)]]
  obtain e u c' where a: "add_block P b' c = (Inr u, c')" "update_ok c h e c' u" "make_entry P b' c = Inr (h, e)"
    using mined_block_added [OF reachable_ok [OF assms(1,2)] assms(3-5) None] by blast
  have "get_block h c' = Inr b'"
    using a(2) make_entry_spec(3) [OF t a(3)]
    by (simp add: update_ok_def get_block_def known_entry_def dict_index_def map_of_update)
  then show ?thesis using a(1) by blast
qed (simp add: chain_contains_def)

lemma mined_block_is_added_witness:
  "\<exists>b h. block_hash sample_platform b = Inr h
     \<and> (chain_contains h sample_chain
        \<or> (\<exists>u c'. add_block sample_platform b sample_chain = (Inr u, c') \<and> get_block h c' = Inr b))"
proof -
  obtain b h where b: "build_candidate sample_platform (sample_address 6) [] sample_time None sample_chain = Inr b"
    "mine_block sample_platform b 1 = Inr (with_nonce 0 b)" "block_hash sample_platform (with_nonce 0 b) = Inr h"
    using sample_candidate_on_chain by blast
  show ?thesis
    using mined_block_is_added [OF sample_platform_ok sample_chain_reachable b] b(3) by blast
qed

end
