(* ===== verification/Mempool.thy ===== *)
theory Mempool
  imports Chain
begin

text \<open>
  \<open>mempool.py\<close>: the pool of pending transactions. A pool is a dictionary from identifiers to
  transactions and an index from a sender and a nonce to the identifier. \<open>mempool_ok\<close> is the
  invariant of the pool alone, kept by every operation; \<open>mempool_fits\<close> relates it to an account
  state: every sender's pending transactions carry the next nonces without a gap and are covered by
  the confirmed balance. \<open>revalidate\<close> establishes it, \<open>add\<close> keeps it, and where it holds the greedy
  loop of \<open>select\<close> never gets stuck.
\<close>

definition MAX_MEMPOOL_TRANSACTIONS :: int where "MAX_MEMPOOL_TRANSACTIONS = 50000"
definition MAX_PENDING_PER_SENDER :: int where "MAX_PENDING_PER_SENDER = 64"

record mempool =
  mp_transactions :: "(bytes, transaction) dict"
  mp_by_sender_nonce :: "(pystr \<times> int, bytes) dict"

definition new_mempool :: mempool where
  "new_mempool = \<lparr>mp_transactions = [], mp_by_sender_nonce = []\<rparr>"

definition mempool_length :: "mempool \<Rightarrow> nat" where
  "mempool_length m = length (mp_transactions m)"

definition mempool_contains :: "bytes \<Rightarrow> mempool \<Rightarrow> bool" where
  "mempool_contains i m \<longleftrightarrow> map_of (mp_transactions m) i \<noteq> None"

text \<open>\<open>self._transactions.values()\<close>, in insertion order.\<close>

definition pending :: "mempool \<Rightarrow> transaction list" where
  "pending m = map snd (mp_transactions m)"

text \<open>\<open>sorted\<close> computes the key of every element first; the identifier in it may raise.\<close>

definition pool_key :: "platform \<Rightarrow> transaction \<Rightarrow> ((pystr \<times> int \<times> bytes) \<times> transaction) res" where
  "pool_key P t = bindE (txid P t) (\<lambda>i. Inr ((tx_sender_address t, tx_nonce t, i), t))"

definition mempool_transactions :: "platform \<Rightarrow> mempool \<Rightarrow> transaction list res" where
  "mempool_transactions P m =
     bindE (mapE (pool_key P) (pending m)) (\<lambda>keyed. Inr (map snd (sort_key fst keyed)))"

definition sender_transactions :: "pystr \<Rightarrow> mempool \<Rightarrow> transaction list" where
  "sender_transactions a m = sort_key tx_nonce (filter (\<lambda>t. tx_sender_address t = a) (pending m))"

fun nonce_loop :: "transaction list \<Rightarrow> int \<Rightarrow> int res" where
  "nonce_loop [] expected = Inr expected"
| "nonce_loop (t # ts) expected =
     (if tx_nonce t \<noteq> expected then Inr expected
      else if expected = U64_MAX then raise MempoolError ''account nonce is exhausted''
      else nonce_loop ts (expected + 1))"

definition next_nonce :: "platform \<Rightarrow> pystr \<Rightarrow> account_state \<Rightarrow> mempool \<Rightarrow> int res" where
  "next_nonce P a s m =
     bindE (get_account P a s) (\<lambda>x.
     if acc_nonce x = U64_MAX then raise MempoolError ''account nonce is exhausted''
     else nonce_loop (sender_transactions a m) (acc_nonce x))"

text \<open>\<open>add\<close>: the checks, which give the identifier, and then the two assignments.\<close>

definition spending :: "transaction \<Rightarrow> int" where
  "spending t = tx_amount_atoms t + tx_fee_atoms t"

definition admit :: "platform \<Rightarrow> transaction \<Rightarrow> account_state \<Rightarrow> int \<Rightarrow> mempool \<Rightarrow> bytes res" where
  "admit P t s execution_height m =
     (if int (mempool_length m) \<ge> MAX_MEMPOOL_TRANSACTIONS then
        raise MempoolError ''mempool transaction limit has been reached''
      else
      bindE (rethrow (\<lambda>c. c = TransactionError) (Exn MempoolError)
               (validate_transaction P t execution_height (st_network s))) (\<lambda>_.
      bindE (txid P t) (\<lambda>i.
      if mempool_contains i m then raise MempoolError ''transaction is already in the mempool''
      else if contains_transaction i s then
        raise MempoolError ''transaction has already been confirmed''
      else if map_of (mp_by_sender_nonce m) (tx_sender_address t, tx_nonce t) \<noteq> None then
        raise MempoolError ''another transaction already uses this sender nonce''
      else
      let sender_pending = sender_transactions (tx_sender_address t) m in
      if int (length sender_pending) \<ge> MAX_PENDING_PER_SENDER then
        raise MempoolError ''sender pending transaction limit has been reached''
      else
      bindE (get_account P (tx_sender_address t) s) (\<lambda>x.
      if acc_nonce x = U64_MAX then raise MempoolError ''account nonce is exhausted''
      else
      let expected_nonce = acc_nonce x + int (length sender_pending) in
      if expected_nonce > U64_MAX then raise MempoolError ''account nonce is exhausted''
      else if tx_nonce t \<noteq> expected_nonce then
        raise MempoolError ''transaction nonce would create a pending gap''
      else
      let reserved_atoms = sum_list (map spending sender_pending);
          pending_total = reserved_atoms + tx_amount_atoms t + tx_fee_atoms t in
      if pending_total > acc_balance x then
        raise MempoolError ''pending transactions exceed the confirmed account balance''
      else Inr i))))"

definition insert_pending :: "bytes \<Rightarrow> transaction \<Rightarrow> mempool \<Rightarrow> mempool" where
  "insert_pending i t m = m\<lparr>mp_transactions := AList.update i t (mp_transactions m),
     mp_by_sender_nonce := AList.update (tx_sender_address t, tx_nonce t) i (mp_by_sender_nonce m)\<rparr>"

definition mempool_add :: "platform \<Rightarrow> transaction \<Rightarrow> account_state \<Rightarrow> int \<Rightarrow> mempool \<Rightarrow> bytes res \<times> mempool" where
  "mempool_add P t s execution_height m =
     (case admit P t s execution_height m of
        Inl e \<Rightarrow> (Inl e, m)
      | Inr i \<Rightarrow> (Inr i, insert_pending i t m))"

definition mempool_remove :: "bytes \<Rightarrow> mempool \<Rightarrow> transaction option \<times> mempool" where
  "mempool_remove i m =
     (case map_of (mp_transactions m) i of
        None \<Rightarrow> (None, m)
      | Some t \<Rightarrow> (Some t, m\<lparr>mp_transactions := AList.delete i (mp_transactions m),
          mp_by_sender_nonce := AList.delete (tx_sender_address t, tx_nonce t) (mp_by_sender_nonce m)\<rparr>))"

fun remove_confirmed :: "platform \<Rightarrow> transaction list \<Rightarrow> mempool \<Rightarrow> unit res \<times> mempool" where
  "remove_confirmed P [] m = (Inr (), m)"
| "remove_confirmed P (t # ts) m =
     (case txid P t of
        Inl e \<Rightarrow> (Inl e, m)
      | Inr i \<Rightarrow> remove_confirmed P ts (snd (mempool_remove i m)))"

definition mempool_clear :: "mempool \<Rightarrow> mempool" where
  "mempool_clear m = m\<lparr>mp_transactions := [], mp_by_sender_nonce := []\<rparr>"

fun readd_loop :: "platform \<Rightarrow> account_state \<Rightarrow> int \<Rightarrow> transaction list \<Rightarrow> transaction list \<Rightarrow> mempool \<Rightarrow>
    transaction list res \<times> mempool" where
  "readd_loop P s execution_height [] removed m = (Inr removed, m)"
| "readd_loop P s execution_height (t # ts) removed m =
     (case mempool_add P t s execution_height m of
        (Inl e, m) \<Rightarrow> if exn_kind e = MempoolError
                      then readd_loop P s execution_height ts (removed @ [t]) m
                      else (Inl e, m)
      | (Inr _, m) \<Rightarrow> readd_loop P s execution_height ts removed m)"

definition revalidate :: "platform \<Rightarrow> account_state \<Rightarrow> int \<Rightarrow> mempool \<Rightarrow> transaction list res \<times> mempool" where
  "revalidate P s execution_height m =
     (case mempool_transactions P m of
        Inl e \<Rightarrow> (Inl e, m)
      | Inr previous \<Rightarrow> readd_loop P s execution_height previous [] (mempool_clear m))"

subsection \<open>Selection\<close>

text \<open>\<open>grouped\<close>: for every sender, in the order of first appearance, its transactions by nonce.\<close>

type_synonym grouping = "(pystr, (int, transaction) dict) dict"

definition group_one :: "transaction \<Rightarrow> grouping \<Rightarrow> grouping" where
  "group_one t g =
     (let by_nonce = (case map_of g (tx_sender_address t) of None \<Rightarrow> [] | Some d \<Rightarrow> d)
      in AList.update (tx_sender_address t) (AList.update (tx_nonce t) t by_nonce) g)"

definition group_transactions :: "transaction list \<Rightarrow> grouping" where
  "group_transactions ts = fold group_one ts []"

definition head_of :: "platform \<Rightarrow> pystr set \<Rightarrow> account_state \<Rightarrow> pystr \<times> (int, transaction) dict \<Rightarrow>
    transaction list res" where
  "head_of P blocked working = (\<lambda>(a, by_nonce).
     if a \<in> blocked then Inr []
     else bindE (get_account P a working) (\<lambda>x.
       Inr (case map_of by_nonce (acc_nonce x) of None \<Rightarrow> [] | Some t \<Rightarrow> [t])))"

definition eligible_heads :: "platform \<Rightarrow> grouping \<Rightarrow> pystr set \<Rightarrow> account_state \<Rightarrow> transaction list res" where
  "eligible_heads P grouped blocked working =
     bindE (mapE (head_of P blocked working) grouped) (\<lambda>heads. Inr (concat heads))"

definition fee_key :: "platform \<Rightarrow> transaction \<Rightarrow> ((int \<times> bytes) \<times> transaction) res" where
  "fee_key P t = bindE (txid P t) (\<lambda>i. Inr ((- tx_fee_atoms t, i), t))"

definition sort_by_fee :: "platform \<Rightarrow> transaction list \<Rightarrow> transaction list res" where
  "sort_by_fee P ts = bindE (mapE (fee_key P) ts) (\<lambda>keyed. Inr (map snd (sort_key fst keyed)))"

text \<open>The inner loop: the first of the heads that applies, the senders blocked by then, the working copy.\<close>

fun try_heads :: "platform \<Rightarrow> int \<Rightarrow> transaction list \<Rightarrow> pystr set \<Rightarrow> account_state \<Rightarrow>
    (transaction option \<times> pystr set \<times> account_state) res" where
  "try_heads P execution_height [] blocked working = Inr (None, blocked, working)"
| "try_heads P execution_height (t # ts) blocked working =
     (case apply_transaction P t execution_height working of
        (Inl e, working) \<Rightarrow>
          if exn_kind e = StateError
          then try_heads P execution_height ts (insert (tx_sender_address t) blocked) working
          else Inl e
      | (Inr _, working) \<Rightarrow> Inr (Some t, blocked, working))"

text \<open>The outer loop; its first argument is how many transactions are still wanted.\<close>

fun select_loop :: "nat \<Rightarrow> platform \<Rightarrow> int \<Rightarrow> grouping \<Rightarrow> pystr set \<Rightarrow> account_state \<Rightarrow>
    transaction list \<Rightarrow> transaction list res" where
  "select_loop 0 P execution_height grouped blocked working selected = Inr selected"
| "select_loop (Suc n) P execution_height grouped blocked working selected =
     bindE (eligible_heads P grouped blocked working) (\<lambda>eligible.
     if eligible = [] then Inr selected
     else
     bindE (sort_by_fee P eligible) (\<lambda>eligible.
     bindE (try_heads P execution_height eligible blocked working) (\<lambda>(applied, blocked, working).
     case applied of
       None \<Rightarrow> Inr selected
     | Some t \<Rightarrow> select_loop n P execution_height grouped blocked working (selected @ [t]))))"

definition select_transactions ::
  "platform \<Rightarrow> account_state \<Rightarrow> int \<Rightarrow> int \<Rightarrow> mempool \<Rightarrow> transaction list res" where
  "select_transactions P s execution_height max_count m =
     (if max_count < 0 then raise MempoolError ''max_count must be a non-negative integer''
      else if max_count = 0 then Inr []
      else
      bindE (copy_state P s) (\<lambda>working.
      select_loop (nat max_count) P execution_height (group_transactions (pending m)) {} working []))"

subsection \<open>The invariant of the pool\<close>

definition mempool_ok :: "platform \<Rightarrow> network_config \<Rightarrow> mempool \<Rightarrow> bool" where
  "mempool_ok P network m \<longleftrightarrow> dict_ok (mp_transactions m) \<and> dict_ok (mp_by_sender_nonce m)
     \<and> (\<forall>i t. map_of (mp_transactions m) i = Some t \<longrightarrow>
          txid P t = Inr i \<and> is_valid_address P (tx_sender_address t) network)
     \<and> (\<forall>k i. map_of (mp_by_sender_nonce m) k = Some i \<longleftrightarrow>
          (\<exists>t. map_of (mp_transactions m) i = Some t \<and> (tx_sender_address t, tx_nonce t) = k))
     \<and> int (mempool_length m) \<le> MAX_MEMPOOL_TRANSACTIONS
     \<and> (\<forall>a. int (length (sender_transactions a m)) \<le> MAX_PENDING_PER_SENDER)"

lemma mempool_okD:
  assumes "mempool_ok P network m"
  shows "dict_ok (mp_transactions m)" and "dict_ok (mp_by_sender_nonce m)"
    and "map_of (mp_transactions m) i = Some t \<Longrightarrow> txid P t = Inr i"
    and "map_of (mp_transactions m) i = Some t \<Longrightarrow> is_valid_address P (tx_sender_address t) network"
    and "map_of (mp_by_sender_nonce m) k = Some i \<longleftrightarrow>
      (\<exists>t. map_of (mp_transactions m) i = Some t \<and> (tx_sender_address t, tx_nonce t) = k)"
    and "int (mempool_length m) \<le> MAX_MEMPOOL_TRANSACTIONS"
    and "int (length (sender_transactions a m)) \<le> MAX_PENDING_PER_SENDER"
  using assms unfolding mempool_ok_def by blast+

lemma pending_iff:
  assumes "mempool_ok P network m"
  shows "t \<in> set (pending m) \<longleftrightarrow> (\<exists>i. map_of (mp_transactions m) i = Some t)"
proof -
  have "t \<in> set (pending m) \<longleftrightarrow> (\<exists>i. (i, t) \<in> set (mp_transactions m))" by (force simp: pending_def)
  then show ?thesis by (simp add: dict_map_of_iff [OF mempool_okD(1) [OF assms]])
qed

lemma pending_txid:
  assumes "mempool_ok P network m" and "t \<in> set (pending m)"
  shows "\<exists>i. txid P t = Inr i \<and> map_of (mp_transactions m) i = Some t"
    and "is_valid_address P (tx_sender_address t) network"
  using assms mempool_okD(3,4) [OF assms(1)] by (auto simp: pending_iff)

lemma pending_ids:
  assumes "mempool_ok P network m"
  shows "map (txid P) (pending m) = map (Inr \<circ> fst) (mp_transactions m)"
  using mempool_okD(3) [OF assms] dict_map_of_iff [OF mempool_okD(1) [OF assms]] by (auto simp: pending_def)

lemma pending_distinct:
  assumes "mempool_ok P network m"
  shows "distinct (map (txid P) (pending m))" and "distinct (pending m)"
proof -
  have "distinct (map (Inr \<circ> fst :: bytes \<times> transaction \<Rightarrow> bytes res) (mp_transactions m))"
    using mempool_okD(1) [OF assms] by (simp add: dict_ok_def distinct_map comp_inj_on)
  then show d: "distinct (map (txid P) (pending m))" by (simp only: pending_ids [OF assms])
  then show "distinct (pending m)" by (simp add: distinct_map)
qed

lemma pending_by_nonce:
  assumes "mempool_ok P network m" and "t \<in> set (pending m)" and "u \<in> set (pending m)"
    and "tx_sender_address t = tx_sender_address u" and "tx_nonce t = tx_nonce u"
  shows "t = u"
proof -
  obtain i j where i: "map_of (mp_transactions m) i = Some t" and j: "map_of (mp_transactions m) j = Some u"
    using assms(2,3) by (auto simp: pending_iff [OF assms(1)])
  have "map_of (mp_by_sender_nonce m) (tx_sender_address u, tx_nonce u) = Some i"
    "map_of (mp_by_sender_nonce m) (tx_sender_address u, tx_nonce u) = Some j"
    using mempool_okD(5) [OF assms(1)] i j assms(4,5) by auto
  then show ?thesis using i j by simp
qed

lemma new_mempool_ok [simp]: "mempool_ok P network new_mempool"
  by (simp add: mempool_ok_def new_mempool_def mempool_length_def sender_transactions_def pending_def
      MAX_MEMPOOL_TRANSACTIONS_def MAX_PENDING_PER_SENDER_def)

lemma mempool_clear_new [simp]: "mempool_clear m = new_mempool"
  by (cases m) (simp add: mempool_clear_def new_mempool_def)

lemma sender_transactions_length:
  "length (sender_transactions a m) = length (filter (\<lambda>t. tx_sender_address t = a) (pending m))"
  by (simp add: sender_transactions_def)

lemma sender_transactions_sum:
  "sum_list (map f (sender_transactions a m)) = sum_list (map f (filter (\<lambda>t. tx_sender_address t = a) (pending m)))"
  for f :: "transaction \<Rightarrow> int"
proof -
  have "mset (map f (sender_transactions a m)) = mset (map f (filter (\<lambda>t. tx_sender_address t = a) (pending m)))"
    by (simp add: sender_transactions_def)
  then show ?thesis by (simp flip: sum_mset_sum_list del: mset_map)
qed

subsection \<open>What \<open>add\<close> and \<open>remove\<close> do\<close>

definition admissible :: "platform \<Rightarrow> transaction \<Rightarrow> account_state \<Rightarrow> int \<Rightarrow> mempool \<Rightarrow> bytes \<Rightarrow> bool" where
  "admissible P t s h m i \<longleftrightarrow>
     int (mempool_length m) < MAX_MEMPOOL_TRANSACTIONS
   \<and> validate_transaction P t h (st_network s) = Inr () \<and> txid P t = Inr i
   \<and> map_of (mp_transactions m) i = None \<and> i \<notin> st_txids s
   \<and> map_of (mp_by_sender_nonce m) (tx_sender_address t, tx_nonce t) = None
   \<and> int (length (sender_transactions (tx_sender_address t) m)) < MAX_PENDING_PER_SENDER
   \<and> acc_nonce (account_of s (tx_sender_address t)) \<noteq> U64_MAX
   \<and> tx_nonce t = acc_nonce (account_of s (tx_sender_address t))
       + int (length (sender_transactions (tx_sender_address t) m))
   \<and> sum_list (map spending (sender_transactions (tx_sender_address t) m)) + spending t
       \<le> acc_balance (account_of s (tx_sender_address t))"

lemma valid_sender:
  assumes "validate_transaction P t h network = Inr ()"
  shows "is_valid_address P (tx_sender_address t) network" and "tx_nonce t \<le> U64_MAX"
    and "0 < spending t" and "0 \<le> tx_fee_atoms t" and "0 < tx_amount_atoms t"
  using assms by (auto simp: validate_transaction_iff transaction_fields_ok_def transaction_addresses_ok_def spending_def)

lemma get_account_ok [simp]:
  "is_valid_address P a (st_network s) \<Longrightarrow> get_account P a s = Inr (account_of s a)"
  by (auto simp: get_account_def is_valid_address_def split: sum.splits)

lemma admit_iff: "admit P t s h m = Inr i \<longleftrightarrow> admissible P t s h m i"
proof (cases "validate_transaction P t h (st_network s)")
  case (Inr u)
  then show ?thesis
    using valid_sender [of P t h "st_network s"]
    by (auto simp: admit_def admissible_def bindE_eq_Inr Let_def mempool_contains_def contains_transaction_def spending_def)
qed (auto simp: admit_def admissible_def rethrow_def Let_def)

lemma admit_raises:
  assumes "platform_ok P" and "network_fits (st_network s)"
  shows "raises_only {MempoolError} (admit P t s h m)"
proof -
  have "\<exists>i. txid P t = Inr i" if "rethrow p e (validate_transaction P t h (st_network s)) = Inr x" for p e x
    using that validated_txid [OF platform_okD(1) [OF assms(1)]] by fastforce
  moreover have "raises_only {MempoolError} (get_account P (tx_sender_address t) s)"
    if "rethrow p e (validate_transaction P t h (st_network s)) = Inr x" for p e x
    using that valid_sender [of P t h "st_network s"] by (auto simp: raises_only_def)
  moreover have "raises_only {MempoolError} (rethrow (\<lambda>c. c = TransactionError) (Exn MempoolError)
      (validate_transaction P t h (st_network s)))"
    by (rule raises_rethrow [OF validate_transaction_raises [OF assms]]) auto
  ultimately show ?thesis
    unfolding admit_def Let_def
    by (intro raises_if raises_bind raises_raise raises_Inr) (auto intro: raises_total)
qed

lemma insert_pending_simps [simp]:
  "map_of (mp_transactions (insert_pending i t m)) = (map_of (mp_transactions m))(i \<mapsto> t)"
  "map_of (mp_by_sender_nonce (insert_pending i t m))
     = (map_of (mp_by_sender_nonce m))((tx_sender_address t, tx_nonce t) \<mapsto> i)"
  by (simp_all add: insert_pending_def)

lemma pending_insert:
  "map_of (mp_transactions m) i = None \<Longrightarrow> pending (insert_pending i t m) = pending m @ [t]"
  by (simp add: pending_def insert_pending_def update_fresh)

lemma mempool_ok_insert:
  assumes ok: "mempool_ok P (st_network s) m" and a: "admissible P t s h m i"
  shows "mempool_ok P (st_network s) (insert_pending i t m)"
proof -
  let ?k = "(tx_sender_address t, tx_nonce t)"
  have f: "map_of (mp_transactions m) i = None" "map_of (mp_by_sender_nonce m) ?k = None"
    and v: "is_valid_address P (tx_sender_address t) (st_network s)" "txid P t = Inr i"
    using a valid_sender(1) by (auto simp: admissible_def)
  note D = mempool_okD [OF ok]
  have "map_of (mp_by_sender_nonce (insert_pending i t m)) k = Some j \<longleftrightarrow>
      (\<exists>u. map_of (mp_transactions (insert_pending i t m)) j = Some u \<and> (tx_sender_address u, tx_nonce u) = k)" for k j
    using f D(5) [of k j] D(5) [of ?k j] D(5) [of k i] by auto
  moreover have "length (pending (insert_pending i t m)) = Suc (length (pending m))"
    by (simp add: pending_insert [OF f(1)])
  then have "int (mempool_length (insert_pending i t m)) \<le> MAX_MEMPOOL_TRANSACTIONS"
    using a by (simp add: admissible_def mempool_length_def pending_def)
  moreover have "int (length (sender_transactions b (insert_pending i t m))) \<le> MAX_PENDING_PER_SENDER" for b
    using a D(7) [of b] by (auto simp: admissible_def sender_transactions_length pending_insert [OF f(1)])
  ultimately show ?thesis
    unfolding mempool_ok_def using D(1-4) v by (auto simp: insert_pending_def)
qed

lemma mempool_remove_some:
  "map_of (mp_transactions m) i = Some t \<Longrightarrow> mempool_remove i m = (Some t, m')  \<Longrightarrow>
     map_of (mp_transactions m') = (map_of (mp_transactions m))(i := None)
   \<and> map_of (mp_by_sender_nonce m') = (map_of (mp_by_sender_nonce m))((tx_sender_address t, tx_nonce t) := None)
   \<and> mp_transactions m' = filter (\<lambda>(k, _). i \<noteq> k) (mp_transactions m)"
  by (auto simp: mempool_remove_def AList.delete_eq [symmetric])

lemma length_filter_sub: "length (filter p (map f (filter q d))) \<le> length (filter p (map f d))"
  by (induction d) auto

lemma mempool_ok_remove:
  assumes ok: "mempool_ok P network m"
  shows "mempool_ok P network (snd (mempool_remove i m))"
proof (cases "map_of (mp_transactions m) i")
  case (Some t)
  let ?k = "(tx_sender_address t, tx_nonce t)"
  obtain m' where r: "mempool_remove i m = (Some t, m')" using Some by (simp add: mempool_remove_def)
  note m' = mempool_remove_some [OF Some r]
  note D = mempool_okD [OF ok]
  have k: "map_of (mp_by_sender_nonce m) ?k = Some i" using D(5) Some by blast
  have "map_of (mp_by_sender_nonce m') k = Some j \<longleftrightarrow>
      (\<exists>u. map_of (mp_transactions m') j = Some u \<and> (tx_sender_address u, tx_nonce u) = k)" for k j
    using m' k Some D(5) [of k j] D(5) [of ?k j] by (auto split: if_splits)
  moreover have "length (filter p (pending m')) \<le> length (filter p (pending m))" for p
    unfolding pending_def m' [THEN conjunct2, THEN conjunct2] by (rule length_filter_sub)
  then have "length (sender_transactions a m') \<le> length (sender_transactions a m)" for a
    by (simp add: sender_transactions_length)
  then have "int (length (sender_transactions a m')) \<le> MAX_PENDING_PER_SENDER" for a
    using D(7) [of a] by (meson of_nat_mono order_trans)
  moreover have "mempool_length m' \<le> mempool_length m" by (simp add: mempool_length_def m')
  then have "int (mempool_length m') \<le> MAX_MEMPOOL_TRANSACTIONS" using D(6) by simp
  moreover have "dict_ok (mp_transactions m')" "dict_ok (mp_by_sender_nonce m')"
    using r Some D(1,2) by (auto simp: mempool_remove_def)
  ultimately show ?thesis
    unfolding mempool_ok_def r snd_conv using D(3,4) m' by (auto split: if_splits)
qed (simp add: mempool_remove_def ok)

lemma mempool_ok_add:
  "mempool_ok P (st_network s) m \<Longrightarrow> mempool_ok P (st_network s) (snd (mempool_add P t s h m))"
  using mempool_ok_insert by (auto simp: mempool_add_def admit_iff split: sum.splits)

lemma mempool_ok_remove_confirmed:
  "mempool_ok P network m \<Longrightarrow> mempool_ok P network (snd (remove_confirmed P ts m))"
  by (induction ts arbitrary: m) (auto simp: mempool_ok_remove split: sum.splits)

lemma mempool_ok_readd:
  "mempool_ok P (st_network s) m \<Longrightarrow> mempool_ok P (st_network s) (snd (readd_loop P s h ts removed m))"
proof (induction ts arbitrary: removed m)
  case (Cons t ts)
  have "mempool_ok P (st_network s) (snd (mempool_add P t s h m))" by (rule mempool_ok_add [OF Cons.prems])
  then show ?case using Cons.IH by (auto split: prod.splits sum.splits)
qed simp

lemma mempool_ok_revalidate:
  "mempool_ok P (st_network s) m \<Longrightarrow> mempool_ok P (st_network s) (snd (revalidate P s h m))"
  by (auto simp: revalidate_def mempool_ok_readd split: sum.splits)

text \<open>The pools a node can reach on one network, whatever states and heights the operations are given.\<close>

inductive mempool_step :: "platform \<Rightarrow> network_config \<Rightarrow> mempool \<Rightarrow> mempool \<Rightarrow> bool" for P network where
  step_add: "st_network s = network \<Longrightarrow> mempool_step P network m (snd (mempool_add P t s h m))"
| step_remove: "mempool_step P network m (snd (mempool_remove i m))"
| step_remove_confirmed: "mempool_step P network m (snd (remove_confirmed P ts m))"
| step_clear: "mempool_step P network m (mempool_clear m)"
| step_revalidate: "st_network s = network \<Longrightarrow> mempool_step P network m (snd (revalidate P s h m))"

inductive_cases mempool_stepE: "mempool_step P network m m'"

definition mempool_reachable :: "platform \<Rightarrow> network_config \<Rightarrow> mempool \<Rightarrow> bool" where
  "mempool_reachable P network = reach (\<lambda>m. m = new_mempool) (mempool_step P network)"

interpretation pool_machine: machine "\<lambda>m. m = new_mempool" "mempool_step P network" "mempool_ok P network"
  for P network
proof unfold_locales
  fix m m' assume "mempool_ok P network m" "mempool_step P network m m'"
  then show "mempool_ok P network m'"
    by (auto elim!: mempool_stepE intro: mempool_ok_add mempool_ok_remove mempool_ok_remove_confirmed
        mempool_ok_revalidate)
qed simp

lemma mempool_reachable_ok: "mempool_reachable P network m \<Longrightarrow> mempool_ok P network m"
  unfolding mempool_reachable_def by (rule pool_machine.reach_inv)

subsection \<open>Pools that fit a state\<close>

text \<open>\<open>covered\<close>: a list of transactions that could all be applied after a state, in the order of their
  nonces: each is valid and unconfirmed, a sender's nonces start at the account's and have no gap, and
  what the sender spends is covered.\<close>

abbreviation of_sender :: "pystr \<Rightarrow> transaction list \<Rightarrow> transaction list" where
  "of_sender a ts \<equiv> filter (\<lambda>t. tx_sender_address t = a) ts"

definition sender_covered :: "account_state \<Rightarrow> transaction list \<Rightarrow> pystr \<Rightarrow> bool" where
  "sender_covered s ts a \<longleftrightarrow>
     tx_nonce ` set (of_sender a ts)
       = {acc_nonce (account_of s a) ..< acc_nonce (account_of s a) + int (length (of_sender a ts))}
   \<and> sum_list (map spending (of_sender a ts)) \<le> acc_balance (account_of s a)"

definition pending_valid :: "platform \<Rightarrow> account_state \<Rightarrow> int \<Rightarrow> transaction \<Rightarrow> bool" where
  "pending_valid P s h t \<longleftrightarrow> validate_transaction P t h (st_network s) = Inr ()
     \<and> (\<exists>i. txid P t = Inr i \<and> i \<notin> st_txids s)"

definition covered :: "platform \<Rightarrow> account_state \<Rightarrow> int \<Rightarrow> transaction list \<Rightarrow> bool" where
  "covered P s h ts \<longleftrightarrow> list_all (pending_valid P s h) ts \<and> distinct (map (txid P) ts)
     \<and> All (sender_covered s ts)"

definition mempool_fits :: "platform \<Rightarrow> account_state \<Rightarrow> int \<Rightarrow> mempool \<Rightarrow> bool" where
  "mempool_fits P s h m \<longleftrightarrow> covered P s h (pending m)"

lemma covered_Nil [simp]: "state_ok P s \<Longrightarrow> covered P s h []"
  using state_okD(2) [of P s] by (auto simp: covered_def sender_covered_def account_ok_def)

lemma new_mempool_fits [simp]: "state_ok P s \<Longrightarrow> mempool_fits P s h new_mempool"
  by (simp add: mempool_fits_def new_mempool_def pending_def)

lemma mempool_fits_insert:
  assumes ok: "mempool_ok P (st_network s) m" and f: "mempool_fits P s h m" and a: "admissible P t s h m i"
  shows "mempool_fits P s h (insert_pending i t m)"
proof -
  have fr: "map_of (mp_transactions m) i = None" and tx: "txid P t = Inr i" and "i \<notin> st_txids s"
    and v: "validate_transaction P t h (st_network s) = Inr ()"
    using a by (simp_all add: admissible_def)
  then have "pending_valid P s h t" by (simp add: pending_valid_def)
  moreover have "txid P t \<notin> txid P ` set (pending m)"
    using fr tx pending_txid(1) [OF ok] by fastforce
  moreover have "sender_covered s (pending m @ [t]) b" for b
  proof -
    have "sender_covered s (pending m) b" using f by (simp add: mempool_fits_def covered_def)
    then show ?thesis
      using a by (auto simp: sender_covered_def admissible_def sender_transactions_length sender_transactions_sum)
  qed
  ultimately show ?thesis
    using f by (auto simp: mempool_fits_def covered_def pending_insert [OF fr])
qed

text \<open>Adding to a pool that fits: it still fits, and a refused transaction leaves it as it was.\<close>

lemma mempool_add_spec:
  assumes "mempool_ok P (st_network s) m" and "mempool_fits P s h m" and "mempool_add P t s h m = (r, m')"
  shows "mempool_ok P (st_network s) m'" and "mempool_fits P s h m'"
    and "pending m' = pending m @ (case r of Inl _ \<Rightarrow> [] | Inr _ \<Rightarrow> [t])"
    and "r = admit P t s h m"
proof -
  show "r = admit P t s h m" using assms(3) by (auto simp: mempool_add_def split: sum.splits)
  show "mempool_ok P (st_network s) m'" "mempool_fits P s h m'"
    "pending m' = pending m @ (case r of Inl _ \<Rightarrow> [] | Inr _ \<Rightarrow> [t])"
    using assms mempool_ok_insert [of P s m t h] mempool_fits_insert [of P s m h t] pending_insert [of m]
    by (auto simp: mempool_add_def admit_iff admissible_def split: sum.splits)
qed

lemma readd_loop_spec:
  assumes P: "platform_ok P" "network_fits (st_network s)"
  shows "mempool_ok P (st_network s) m \<Longrightarrow> mempool_fits P s h m \<Longrightarrow>
    \<exists>new m'. readd_loop P s h ts removed m = (Inr (removed @ new), m') \<and> mempool_ok P (st_network s) m'
      \<and> mempool_fits P s h m' \<and> mset (pending m') + mset new = mset (pending m) + mset ts"
proof (induction ts arbitrary: removed m)
  case (Cons t ts)
  obtain r m1 where r: "mempool_add P t s h m = (r, m1)" by fastforce
  note A = mempool_add_spec [OF Cons.prems r]
  show ?case
  proof (cases r)
    case (Inl e)
    have "exn_kind e = MempoolError"
      using raises_onlyD [OF admit_raises [OF P]] A(4) Inl by fastforce
    moreover obtain new m' where "readd_loop P s h ts (removed @ [t]) m1 = (Inr ((removed @ [t]) @ new), m')"
        "mempool_ok P (st_network s) m'" "mempool_fits P s h m'"
        "mset (pending m') + mset new = mset (pending m1) + mset ts"
      using Cons.IH [OF A(1,2)] by blast
    ultimately show ?thesis using r Inl A(3) by (auto intro!: exI [of _ "t # new"])
  next
    case (Inr i)
    obtain new m' where "readd_loop P s h ts removed m1 = (Inr (removed @ new), m')"
        "mempool_ok P (st_network s) m'" "mempool_fits P s h m'"
        "mset (pending m') + mset new = mset (pending m1) + mset ts"
      using Cons.IH [OF A(1,2)] by blast
    then show ?thesis using r Inr A(3) by auto
  qed
qed simp

text \<open>The sorted listing is a permutation of the pool.\<close>

lemma sort_key_map: "sort_key f (map g xs) = map g (sort_key (f \<circ> g) xs)"
proof -
  have "insort_key f (g x) (map g ys) = map g (insort_key (f \<circ> g) x ys)" for x ys
    by (induction ys) auto
  then show ?thesis by (induction xs) auto
qed

lemma keyed_sort:
  assumes "\<And>t. t \<in> set ts \<Longrightarrow> k t = Inr (f t, t)"
  shows "bindE (mapE k ts) (\<lambda>keyed. Inr (map snd (sort_key fst keyed))) = Inr (sort_key f ts)"
  using assms by (simp add: mapE_total [of ts k "\<lambda>t. (f t, t)"] sort_key_map comp_def)

lemma mempool_transactions_spec:
  assumes "mempool_ok P network m"
  shows "\<exists>ts. mempool_transactions P m = Inr ts \<and> mset ts = mset (pending m)
     \<and> ts = sort_key (\<lambda>t. (tx_sender_address t, tx_nonce t, projr (txid P t))) (pending m)"
proof -
  have "pool_key P t = Inr ((tx_sender_address t, tx_nonce t, projr (txid P t)), t)" if "t \<in> set (pending m)" for t
    using pending_txid(1) [OF assms that] by (auto simp: pool_key_def)
  from keyed_sort [OF this] show ?thesis by (simp add: mempool_transactions_def)
qed

lemma revalidate_spec:
  assumes "platform_ok P" and "network_fits (st_network s)" and "state_ok P s" and "mempool_ok P network m"
  shows "\<exists>removed m'. revalidate P s h m = (Inr removed, m') \<and> mempool_ok P (st_network s) m'
     \<and> mempool_fits P s h m' \<and> mset (pending m') + mset removed = mset (pending m)"
proof -
  obtain ts where ts: "mempool_transactions P m = Inr ts" "mset ts = mset (pending m)"
    using mempool_transactions_spec [OF assms(4)] by blast
  obtain new m' where "readd_loop P s h ts [] new_mempool = (Inr ([] @ new), m')" "mempool_ok P (st_network s) m'"
      "mempool_fits P s h m'" "mset (pending m') + mset new = mset (pending new_mempool) + mset ts"
    using readd_loop_spec [OF assms(1,2) new_mempool_ok new_mempool_fits [OF assms(3)], of h ts "[]"] by blast
  then show ?thesis using ts by (simp add: revalidate_def new_mempool_def pending_def)
qed

subsection \<open>The heads of a selection\<close>

abbreviation sender_nonce :: "transaction \<Rightarrow> pystr \<times> int" where
  "sender_nonce t \<equiv> (tx_sender_address t, tx_nonce t)"

definition group_lookup :: "grouping \<Rightarrow> pystr \<Rightarrow> int \<Rightarrow> transaction option" where
  "group_lookup g a n = (case map_of g a of None \<Rightarrow> None | Some d \<Rightarrow> map_of d n)"

lemma group_one_lookup [simp]:
  "group_lookup (group_one t g) a n =
     (if a = tx_sender_address t \<and> n = tx_nonce t then Some t else group_lookup g a n)"
  by (auto simp: group_lookup_def group_one_def Let_def split: option.splits)

lemma group_one_ok [simp]: "dict_ok g \<Longrightarrow> dict_ok (group_one t g)"
  by (simp add: group_one_def Let_def)

lemma group_transactions_spec:
  "distinct (map sender_nonce ts) \<Longrightarrow> dict_ok (group_transactions ts)
     \<and> (group_lookup (group_transactions ts) a n = Some t \<longleftrightarrow> t \<in> set ts \<and> sender_nonce t = (a, n))"
proof (induction ts arbitrary: t a n rule: rev_induct)
  case Nil
  then show ?case by (simp add: group_transactions_def group_lookup_def)
next
  case (snoc u ts)
  have "group_transactions (ts @ [u]) = group_one u (group_transactions ts)"
    by (simp add: group_transactions_def)
  then show ?case using snoc by (auto simp: image_iff)
qed

definition is_head :: "account_state \<Rightarrow> transaction \<Rightarrow> bool" where
  "is_head w t \<longleftrightarrow> tx_nonce t = acc_nonce (account_of w (tx_sender_address t))"

lemma group_transactions_senders: "fst ` set (group_transactions ts) = tx_sender_address ` set ts"
proof (induction ts rule: rev_induct)
  case (snoc u ts)
  have "group_transactions (ts @ [u]) = group_one u (group_transactions ts)"
    by (simp add: group_transactions_def)
  then show ?case using snoc
    by (simp add: group_one_def Let_def dom_update flip: dom_map_of_conv_image_fst)
qed (simp add: group_transactions_def)

lemma eligible_heads_spec:
  assumes d: "distinct (map sender_nonce ts)"
    and v: "\<And>t. t \<in> set ts \<Longrightarrow> is_valid_address P (tx_sender_address t) (st_network w)"
  shows "\<exists>hs. eligible_heads P (group_transactions ts) blocked w = Inr hs
     \<and> set hs = {t \<in> set ts. tx_sender_address t \<notin> blocked \<and> is_head w t}"
proof -
  let ?g = "group_transactions ts"
  let ?h = "\<lambda>(a, d). if a \<in> blocked then [] else
      (case map_of d (acc_nonce (account_of w a)) of None \<Rightarrow> [] | Some t \<Rightarrow> [t])"
  have "head_of P blocked w e = Inr (?h e)" if "e \<in> set ?g" for e
    using that v group_transactions_senders [of ts] by (force simp: head_of_def split: prod.splits)
  then have e: "eligible_heads P ?g blocked w = Inr (concat (map ?h ?g))"
    by (simp add: eligible_heads_def mapE_total)
  have g: "(a, d) \<in> set ?g \<longleftrightarrow> map_of ?g a = Some d" for a d
    using group_transactions_spec [OF d] by (simp add: dict_map_of_iff)
  have h: "t \<in> set (?h (a, d)) \<longleftrightarrow> a \<notin> blocked \<and> map_of d (acc_nonce (account_of w a)) = Some t" for t a d
    by (simp split: option.splits) auto
  have "t \<in> set (concat (map ?h ?g)) \<longleftrightarrow> (\<exists>a d. (a, d) \<in> set ?g \<and> t \<in> set (?h (a, d)))" for t
    by force
  then obtain hs where hs: "hs = concat (map ?h ?g)" "\<And>t. t \<in> set hs \<longleftrightarrow>
      (\<exists>a. a \<notin> blocked \<and> group_lookup ?g a (acc_nonce (account_of w a)) = Some t)"
    unfolding h g group_lookup_def by (metis (no_types, lifting) option.case_eq_if option.collapse option.distinct(1) option.sel)
  have "set hs = {t \<in> set ts. tx_sender_address t \<notin> blocked \<and> is_head w t}"
    using group_transactions_spec [OF d] by (auto simp: is_head_def hs(2))
  with e hs(1) show ?thesis by blast
qed

text \<open>The order in which the heads are tried.\<close>

definition fee_order :: "platform \<Rightarrow> transaction \<Rightarrow> int \<times> bytes" where
  "fee_order P t = (- tx_fee_atoms t, projr (txid P t))"

lemma sort_by_fee_spec:
  assumes "\<And>t. t \<in> set ts \<Longrightarrow> \<exists>i. txid P t = Inr i"
  shows "sort_by_fee P ts = Inr (sort_key (fee_order P) ts)"
  unfolding sort_by_fee_def
proof (rule keyed_sort)
  fix t assume "t \<in> set ts"
  then show "fee_key P t = Inr (fee_order P t, t)" using assms [of t] by (auto simp: fee_key_def fee_order_def)
qed

lemma hd_sort_key:
  assumes "ts \<noteq> []"
  shows "hd (sort_key k ts) \<in> set ts" and "t \<in> set ts \<Longrightarrow> k (hd (sort_key k ts)) \<le> k t"
proof -
  have n: "sort_key k ts \<noteq> []" using assms by (metis length_0_conv length_sort)
  then show "hd (sort_key k ts) \<in> set ts" by (metis hd_in_set set_sort)
  show "k (hd (sort_key k ts)) \<le> k t" if "t \<in> set ts"
  proof -
    have "sorted (map k (sort_key k ts))" by simp
    moreover have "k t \<in> set (map k (sort_key k ts))" using that by simp
    ultimately show ?thesis using n by (cases "sort_key k ts") auto
  qed
qed


subsection \<open>Applying a head\<close>

lemma two_balances_le_total:
  assumes ok: "state_ok P s" and "is_valid_address P b (st_network s)" and "a \<noteq> b"
  shows "acc_balance (account_of s a) + acc_balance (account_of s b) \<le> total_balance s"
proof -
  let ?x = "\<lparr>acc_balance = 0, acc_nonce = 0\<rparr>"
  have "state_ok P (set_account b ?x s)"
    using assms by (intro state_ok_set_account) (auto simp: account_ok_def U64_MAX_def)
  from balance_le_total [OF this, of a] show ?thesis
    using total_balance_set_account [OF ok, of b ?x] assms(3) by simp
qed

lemma apply_one:
  assumes P: "hash_ok P" and ok: "state_ok P w" and a: "apply_transaction P t h w = (Inr fee, w')"
    and f: "f + total_balance w \<le> U64_MAX"
  shows "apply_step P h t (f, w) = Inr (f + fee, w')" and "state_ok P w'" and "st_network w' = st_network w"
    and "fee + total_balance w' = total_balance w"
    and "acc_nonce (account_of w' (tx_sender_address t)) = tx_nonce t + 1"
proof -
  have st: "apply_step P h t (0, w) = Inr (fee, w')"
    using a by (simp add: apply_transaction_def apply_transactions_iff [OF P ok] bindE_eq_Inr)
  then obtain i where al: "step_allowed P h t (0, w)" and fe: "fee = tx_fee_atoms t" and tr: "transferred P t i w w'"
    using apply_step_iff [OF P ok, of h t 0 "(fee, w')"] by auto
  then show "state_ok P w'" "st_network w' = st_network w" "fee + total_balance w' = total_balance w"
    by (simp_all add: transferred_def)
  have tl: "transfer_allowed t (ledger_of w)" "0 < tx_amount_atoms t"
    using al valid_sender(5) by (auto simp: step_allowed_def)
  then show "acc_nonce (account_of w' (tx_sender_address t)) = tx_nonce t + 1"
    using tr by (auto simp: transferred_def fun_eq_iff ledger_of_def ledger_transfer_def transfer_allowed_def)
  have "fee \<le> total_balance w"
    using tl balance_le_total [OF ok, of "tx_sender_address t"] fe by (auto simp: transfer_allowed_iff [OF ok])
  then show "apply_step P h t (f, w) = Inr (f + fee, w')"
    using st f by (auto simp: apply_step_def bindE_eq_Inr split: prod.splits sum.splits if_splits)
qed

lemma try_heads_spec:
  assumes P: "platform_ok P" and n: "network_fits (st_network w)" and ok: "state_ok P w"
  shows "\<exists>r b w'. try_heads P h hs blocked w = Inr (r, b, w')
     \<and> (\<forall>t. r = Some t \<longrightarrow> t \<in> set hs \<and> (\<exists>fee. apply_transaction P t h w = (Inr fee, w')))"
proof (induction hs arbitrary: blocked)
  case (Cons t hs)
  obtain r w1 where r: "apply_transaction P t h w = (r, w1)" by fastforce
  show ?case
  proof (cases r)
    case (Inl e)
    have "exn_kind e = StateError" "w1 = w"
      using r Inl raises_onlyD [OF apply_transactions_raises [OF P n ok], of "[t]" h e] apply_transactions_error
      by (auto simp: apply_transaction_def)
    then show ?thesis using Cons.IH [of "insert (tx_sender_address t) blocked"] r Inl by auto
  qed (use r in auto)
qed simp

lemma sum_spending_member:
  assumes "\<forall>u \<in> set ts. 0 \<le> spending u" and "t \<in> set ts"
  shows "spending t \<le> sum_list (map spending ts)"
  using assms by (intro member_le_sum_list) auto

lemma sender_nonces_inj:
  assumes "sender_covered s ts a"
  shows "inj_on tx_nonce (set (of_sender a ts))" and "distinct (of_sender a ts)"
proof -
  have c: "card (tx_nonce ` set (of_sender a ts)) = length (of_sender a ts)"
    using assms by (simp add: sender_covered_def)
  then have "card (set (of_sender a ts)) = length (of_sender a ts)"
    using card_image_le [of "set (of_sender a ts)" tx_nonce] card_length [of "of_sender a ts"] by simp
  then show "distinct (of_sender a ts)" "inj_on tx_nonce (set (of_sender a ts))"
    using c by (auto intro: card_distinct eq_card_imp_inj_on)
qed

lemma sender_covered_other:
  assumes "sender_covered w ts a" and "a \<noteq> tx_sender_address t"
    and "acc_nonce (account_of w' a) = acc_nonce (account_of w a)"
    and "acc_balance (account_of w a) \<le> acc_balance (account_of w' a)"
  shows "sender_covered w' (remove1 t ts) a"
proof -
  have "of_sender a (remove1 t ts) = of_sender a ts"
    using assms(2) by (simp add: filter_remove1 remove1_idem)
  moreover have "tx_nonce ` set (of_sender a ts)
      = {acc_nonce (account_of w' a) ..< acc_nonce (account_of w' a) + int (length (of_sender a ts))}"
    "sum_list (map spending (of_sender a ts)) \<le> acc_balance (account_of w' a)"
    using assms(1,3,4) unfolding sender_covered_def by simp_all
  ultimately show ?thesis unfolding sender_covered_def by simp
qed

lemma sender_covered_head:
  assumes c: "sender_covered w ts a" and t: "t \<in> set ts" "tx_sender_address t = a" "is_head w t"
    and n: "acc_nonce (account_of w' a) = acc_nonce (account_of w a) + 1"
    and b: "acc_balance (account_of w a) - spending t \<le> acc_balance (account_of w' a)"
  shows "sender_covered w' (remove1 t ts) a"
proof -
  let ?X = "of_sender a ts"
  have tX: "t \<in> set ?X" and r: "of_sender a (remove1 t ts) = remove1 t ?X"
    using t by (simp_all add: filter_remove1)
  note inj = sender_nonces_inj [OF c]
  have "tx_nonce ` set (remove1 t ?X) = tx_nonce ` set ?X - {tx_nonce t}"
    using inj tX by (auto simp: inj_on_def)
  also have "\<dots> = {acc_nonce (account_of w' a) ..< acc_nonce (account_of w' a) + int (length (remove1 t ?X))}"
    using c t tX n by (auto simp: sender_covered_def is_head_def length_remove1 of_nat_diff Suc_leI length_pos_if_in_set)
  finally have "tx_nonce ` set (remove1 t ?X)
      = {acc_nonce (account_of w' a) ..< acc_nonce (account_of w' a) + int (length (remove1 t ?X))}" .
  moreover have "sum_list (map spending (remove1 t ?X)) \<le> acc_balance (account_of w' a)"
    using c b sum_list_map_remove1 [OF tX, of spending] by (simp add: sender_covered_def)
  ultimately show ?thesis unfolding sender_covered_def r by blast
qed

text \<open>A head of a covered list applies, and what is left stays covered.\<close>

lemma covered_valid:
  assumes "covered P w h ts" and "t \<in> set ts"
  shows "validate_transaction P t h (st_network w) = Inr ()" and "\<exists>i. txid P t = Inr i \<and> i \<notin> st_txids w"
    and "0 < spending t" and "0 \<le> tx_fee_atoms t" and "0 < tx_amount_atoms t"
    and "is_valid_address P (tx_sender_address t) (st_network w)"
proof -
  show v: "validate_transaction P t h (st_network w) = Inr ()" and "\<exists>i. txid P t = Inr i \<and> i \<notin> st_txids w"
    using assms by (auto simp: covered_def list_all_iff pending_valid_def)
  show "0 < spending t" "0 \<le> tx_fee_atoms t" "0 < tx_amount_atoms t"
    "is_valid_address P (tx_sender_address t) (st_network w)"
    using valid_sender [OF v] by auto
qed

lemma covered_sender: "covered P w h ts \<Longrightarrow> sender_covered w ts a"
  by (auto simp: covered_def)

lemma covered_head_allowed:
  assumes ok: "state_ok P w" and c: "covered P w h ts" and t: "t \<in> set ts" "is_head w t"
    and n: "tx_nonce t \<noteq> U64_MAX" and b: "total_balance w \<le> U64_MAX"
  shows "step_allowed P h t (0, w)"
proof -
  let ?a = "tx_sender_address t" and ?r = "tx_recipient_address t"
  note V = covered_valid [OF c]
  have "spending t \<le> sum_list (map spending (of_sender ?a ts))"
    using V(3) t(1) by (intro sum_spending_member) (auto intro: less_imp_le)
  then have s: "tx_amount_atoms t + tx_fee_atoms t \<le> acc_balance (account_of w ?a)"
    using covered_sender [OF c, of ?a] by (simp add: sender_covered_def spending_def)
  have "is_valid_address P ?r (st_network w)" "tx_amount_atoms t + tx_fee_atoms t \<le> U64_MAX"
    using V(1) [OF t(1)] by (auto simp: validate_transaction_iff transaction_addresses_ok_def transaction_fields_ok_def)
  moreover have "acc_balance (account_of w ?a) + acc_balance (account_of w ?r) \<le> total_balance w" if "?a \<noteq> ?r"
    by (rule two_balances_le_total [OF ok _ that]) fact
  moreover have "account_ok (account_of w ?a)" by (rule state_okD(2) [OF ok])
  ultimately have "transfer_allowed t (ledger_of w)"
    using s t(2) n b V(4,5) [OF t(1)] unfolding transfer_allowed_iff [OF ok]
    by (cases "?a = ?r") (auto simp: is_head_def account_ok_def)
  then show ?thesis
    using V(1,2) [OF t(1)] s b balance_le_total [OF ok, of ?a] V(5) [OF t(1)] by (simp add: step_allowed_def)
qed

lemma covered_step:
  assumes P: "hash_ok P" and ok: "state_ok P w" and h: "0 \<le> h" "h \<le> U64_MAX"
    and c: "covered P w h ts" and t: "t \<in> set ts" "is_head w t"
    and n: "tx_nonce t \<noteq> U64_MAX" and b: "total_balance w \<le> U64_MAX"
  shows "\<exists>i w'. apply_transaction P t h w = (Inr (tx_fee_atoms t), w') \<and> transferred P t i w w'
     \<and> covered P w' h (remove1 t ts)"
proof -
  obtain i w' where st: "apply_step P h t (0, w) = Inr (0 + tx_fee_atoms t, w')" and tr: "transferred P t i w w'"
    and i: "txid P t = Inr i"
    using apply_step_allowed [OF P ok covered_head_allowed [OF ok c t n b]] by blast
  have a: "apply_transaction P t h w = (Inr (tx_fee_atoms t), w')"
    using st h by (simp add: apply_transaction_def apply_transactions_iff [OF P ok])
  have w': "st_network w' = st_network w" "st_txids w' = insert i (st_txids w)"
    and l: "ledger_of w' = ledger_transfer t (ledger_of w)"
    using tr by (simp_all add: transferred_def)
  have acc: "acc_balance (account_of w' x) = fst (ledger_transfer t (ledger_of w) x)"
    "acc_nonce (account_of w' x) = snd (ledger_transfer t (ledger_of w) x)" for x
    using l by (metis fst_conv ledger_of_def, metis snd_conv ledger_of_def)
  note V = covered_valid [OF c t(1)]
  have d: "distinct (map (txid P) ts)" and sc: "sender_covered w ts x" for x
    using c by (auto simp: covered_def)
  have inj: "inj_on (txid P) (set ts)" and dt: "distinct ts" using d by (simp_all add: distinct_map)
  have "pending_valid P w' h u" if "u \<in> set (remove1 t ts)" for u
  proof -
    have u: "u \<in> set ts" "u \<noteq> t" using that dt by auto
    then have "txid P u \<noteq> Inr i" using inj i t(1) by (metis inj_onD)
    then show ?thesis using covered_valid(1,2) [OF c u(1)] w' by (auto simp: pending_valid_def)
  qed
  moreover have "distinct (map (txid P) (remove1 t ts))"
    using inj dt set_remove1_subset [of t ts] by (auto simp: distinct_map intro: inj_on_subset)
  moreover have "sender_covered w' (remove1 t ts) x" for x
  proof (cases "x = tx_sender_address t")
    case True
    have "acc_nonce (account_of w' x) = acc_nonce (account_of w x) + 1"
      "acc_balance (account_of w x) - spending t \<le> acc_balance (account_of w' x)"
      using True V(5) by (auto simp: acc ledger_transfer_def ledger_of_def spending_def)
    then show ?thesis using sender_covered_head [OF sc t(1) True [symmetric] t(2)] by blast
  next
    case False
    have "acc_nonce (account_of w' x) = acc_nonce (account_of w x)"
      "acc_balance (account_of w x) \<le> acc_balance (account_of w' x)"
      using False V(5) by (auto simp: acc ledger_transfer_def ledger_of_def)
    then show ?thesis using sender_covered_other [OF sc False] by blast
  qed
  ultimately have "covered P w' h (remove1 t ts)" unfolding covered_def list_all_iff by blast
  then show ?thesis using a tr by blast
qed

subsection \<open>The greedy specification\<close>

text \<open>\<open>greedy_pick\<close> says what \<open>select\<close> chooses without any account state: among the transactions
  that are the next of their sender, the one with the highest fee, the smaller identifier first.\<close>

definition next_of_sender :: "transaction list \<Rightarrow> transaction \<Rightarrow> bool" where
  "next_of_sender ts t \<longleftrightarrow> list_all (\<lambda>u. tx_sender_address u = tx_sender_address t \<longrightarrow> tx_nonce t \<le> tx_nonce u) ts"

definition best_next :: "platform \<Rightarrow> transaction list \<Rightarrow> transaction" where
  "best_next P ts = hd (sort_key (fee_order P) (filter (next_of_sender ts) ts))"

fun greedy_pick :: "platform \<Rightarrow> nat \<Rightarrow> transaction list \<Rightarrow> transaction list" where
  "greedy_pick P 0 ts = []"
| "greedy_pick P (Suc n) ts =
     (if ts = [] then [] else best_next P ts # greedy_pick P n (remove1 (best_next P ts) ts))"

lemma covered_next:
  assumes c: "covered P w h ts" and t: "t \<in> set ts"
  shows "next_of_sender ts t \<longleftrightarrow> is_head w t"
proof -
  let ?a = "tx_sender_address t"
  let ?X = "of_sender ?a ts" and ?n = "acc_nonce (account_of w ?a)"
  have X: "tx_nonce ` set ?X = {?n ..< ?n + int (length ?X)}"
    using covered_sender [OF c, of ?a] unfolding sender_covered_def by blast
  have "t \<in> set ?X" using t by simp
  then have "?n \<le> tx_nonce t" "?n \<in> tx_nonce ` set ?X"
    using X by (auto simp: length_pos_if_in_set)
  then show ?thesis
    using X by (fastforce simp: next_of_sender_def is_head_def list_all_iff)
qed

lemma covered_has_head:
  assumes c: "covered P w h ts" and "ts \<noteq> []"
  shows "\<exists>t \<in> set ts. is_head w t"
proof -
  let ?a = "tx_sender_address (hd ts)"
  let ?X = "of_sender ?a ts" and ?n = "acc_nonce (account_of w ?a)"
  have "hd ts \<in> set ?X" using assms(2) by simp
  then have "?n \<in> tx_nonce ` set ?X"
    using covered_sender [OF c, of ?a] unfolding sender_covered_def by (auto simp: length_pos_if_in_set)
  then obtain x where "x \<in> set ts" "tx_sender_address x = ?a" "tx_nonce x = ?n" by auto
  then show ?thesis by (auto simp: is_head_def intro!: bexI [of _ x])
qed

lemma best_next_spec:
  assumes c: "covered P w h ts" and "ts \<noteq> []"
  shows "best_next P ts \<in> set ts" and "is_head w (best_next P ts)"
    and "set hs = {t \<in> set ts. is_head w t} \<Longrightarrow> hd (sort_key (fee_order P) hs) = best_next P ts"
proof -
  let ?F = "filter (next_of_sender ts) ts"
  have F: "set ?F = {t \<in> set ts. is_head w t}" using covered_next [OF c] by auto
  have n: "?F \<noteq> []" using covered_has_head [OF assms] F by (metis (mono_tags, lifting) empty_iff list.set(1) mem_Collect_eq)
  then have "best_next P ts \<in> set ?F" unfolding best_next_def by (rule hd_sort_key(1))
  then show b: "best_next P ts \<in> set ts" "is_head w (best_next P ts)" using F by auto
  assume hs: "set hs = {t \<in> set ts. is_head w t}"
  then have hn: "hs \<noteq> []" using b by auto
  let ?x = "hd (sort_key (fee_order P) hs)"
  have x: "?x \<in> set ts" "?x \<in> set ?F" using hd_sort_key(1) [OF hn] hs F by auto
  have "fee_order P ?x \<le> fee_order P (best_next P ts)"
    using hd_sort_key(2) [OF hn, of "best_next P ts" "fee_order P"] hs b by blast
  moreover have "fee_order P (best_next P ts) \<le> fee_order P ?x"
    unfolding best_next_def using hd_sort_key(2) [OF n] x(2) by blast
  ultimately have e: "fee_order P ?x = fee_order P (best_next P ts)" by simp
  obtain i j where "txid P ?x = Inr i" "txid P (best_next P ts) = Inr j"
    using covered_valid(2) [OF c] x(1) b(1) by blast
  then have "txid P ?x = txid P (best_next P ts)" using e by (simp add: fee_order_def)
  then show "?x = best_next P ts"
    using c x(1) b(1) by (auto simp: covered_def distinct_map inj_on_def)
qed

subsection \<open>The loop of \<open>select\<close>\<close>

text \<open>What the loop always does: the transactions it selects apply one after the other, and no error
  leaves it.\<close>

definition loop_ok :: "platform \<Rightarrow> network_config \<Rightarrow> int \<Rightarrow> account_state \<Rightarrow> bool" where
  "loop_ok P network f w \<longleftrightarrow> state_ok P w \<and> st_network w = network \<and> f + total_balance w \<le> U64_MAX"

lemma loop_ok_apply:
  assumes P: "hash_ok P" and l: "loop_ok P network f w" and a: "apply_transaction P t h w = (Inr fee, w')"
  shows "loop_ok P network (f + fee) w'" and "apply_step P h t (f, w) = Inr (f + fee, w')"
  using apply_one [OF P _ a, of f] l by (auto simp: loop_ok_def)

definition pool_list :: "platform \<Rightarrow> network_config \<Rightarrow> transaction list \<Rightarrow> bool" where
  "pool_list P network ts \<longleftrightarrow> distinct (map sender_nonce ts)
     \<and> (\<forall>t \<in> set ts. (\<exists>i. txid P t = Inr i) \<and> is_valid_address P (tx_sender_address t) network)"

lemma select_round:
  assumes l: "loop_ok P network f w" and ts: "pool_list P network ts"
  shows "\<exists>hs. eligible_heads P (group_transactions ts) blocked w = Inr hs
     \<and> set hs = {t \<in> set ts. tx_sender_address t \<notin> blocked \<and> is_head w t}
     \<and> sort_by_fee P hs = Inr (sort_key (fee_order P) hs)"
proof -
  obtain hs where hs: "eligible_heads P (group_transactions ts) blocked w = Inr hs"
      "set hs = {t \<in> set ts. tx_sender_address t \<notin> blocked \<and> is_head w t}"
    using eligible_heads_spec [of ts P w blocked] ts l by (auto simp: pool_list_def loop_ok_def)
  have "sort_by_fee P hs = Inr (sort_key (fee_order P) hs)"
    using ts hs(2) by (intro sort_by_fee_spec) (auto simp: pool_list_def)
  with hs show ?thesis by blast
qed

lemma select_loop_sound:
  assumes P: "platform_ok P" "network_fits network" and ts: "pool_list P network ts"
  shows "loop_ok P network f w \<Longrightarrow> \<exists>new f' w'.
      select_loop n P h (group_transactions ts) blocked w sel = Inr (sel @ new)
    \<and> length new \<le> n \<and> set new \<subseteq> set ts \<and> foldE (apply_step P h) new (f, w) = Inr (f', w')"
proof (induction n arbitrary: f w blocked sel)
  case (Suc n)
  obtain hs where hs: "eligible_heads P (group_transactions ts) blocked w = Inr hs"
      "set hs = {t \<in> set ts. tx_sender_address t \<notin> blocked \<and> is_head w t}"
      "sort_by_fee P hs = Inr (sort_key (fee_order P) hs)"
    using select_round [OF Suc.prems ts] by blast
  obtain r b w1 where r: "try_heads P h (sort_key (fee_order P) hs) blocked w = Inr (r, b, w1)"
    and rt: "\<And>t. r = Some t \<Longrightarrow> t \<in> set hs \<and> (\<exists>fee. apply_transaction P t h w = (Inr fee, w1))"
    using try_heads_spec [OF P(1), of w h "sort_key (fee_order P) hs" blocked] Suc.prems P(2)
    by (auto simp: loop_ok_def)
  show ?case
  proof (cases "hs = [] \<or> r = None")
    case True
    then have "select_loop (Suc n) P h (group_transactions ts) blocked w sel = Inr (sel @ [])"
      using hs(1,3) r by auto
    then show ?thesis by (metis bot_least empty_iff foldE.simps(1) le0 list.set(1) list.size(3))
  next
    case False
    then obtain t where t: "r = Some t" by blast
    obtain fee where a: "apply_transaction P t h w = (Inr fee, w1)" using rt [OF t] by blast
    note L = loop_ok_apply [OF platform_okD(1) [OF P(1)] Suc.prems a]
    obtain new f' w' where n: "select_loop n P h (group_transactions ts) b w1 (sel @ [t]) = Inr ((sel @ [t]) @ new)"
        "length new \<le> n" "set new \<subseteq> set ts" "foldE (apply_step P h) new (f + fee, w1) = Inr (f', w')"
      using Suc.IH [OF L(1)] by blast
    have "select_loop (Suc n) P h (group_transactions ts) blocked w sel = Inr (sel @ t # new)"
      using hs(1,3) r t False n(1) by simp
    moreover have "t \<in> set ts" using rt [OF t] hs(2) by blast
    ultimately show ?thesis using n(2-4) L(2) by (intro exI [of _ "t # new"]) auto
  qed
qed auto

text \<open>On a covered pool every round takes the transaction the specification picks.\<close>

definition remaining_of :: "account_state \<Rightarrow> transaction list \<Rightarrow> transaction list" where
  "remaining_of w ts = filter (\<lambda>t. acc_nonce (account_of w (tx_sender_address t)) \<le> tx_nonce t) ts"

lemma remaining_heads: "{t \<in> set ts. is_head w t} = {t \<in> set (remaining_of w ts). is_head w t}"
  by (auto simp: remaining_of_def is_head_def)

lemma remaining_step:
  assumes d: "distinct (map sender_nonce ts)" and t: "t \<in> set ts" "is_head w t" and tr: "transferred P t i w w'"
  shows "remaining_of w' ts = remove1 t (remaining_of w ts)"
proof -
  have dt: "distinct ts" and inj: "inj_on sender_nonce (set ts)" using d by (simp_all add: distinct_map)
  have acc: "acc_nonce (account_of w' x) = snd (ledger_transfer t (ledger_of w) x)" for x
    using tr by (metis transferred_def snd_conv ledger_of_def)
  have "acc_nonce (account_of w' (tx_sender_address u)) \<le> tx_nonce u \<longleftrightarrow>
      acc_nonce (account_of w (tx_sender_address u)) \<le> tx_nonce u \<and> u \<noteq> t" if u: "u \<in> set ts" for u
  proof (cases "tx_sender_address u = tx_sender_address t")
    case True
    have "u \<noteq> t \<Longrightarrow> tx_nonce u \<noteq> tx_nonce t" using True inj u t(1) by (auto simp: inj_on_def)
    then show ?thesis using True t(2) by (auto simp: acc ledger_transfer_def ledger_of_def is_head_def)
  qed (auto simp: acc ledger_transfer_def ledger_of_def)
  then have "remaining_of w' ts = filter (\<lambda>u. u \<noteq> t) (remaining_of w ts)"
    unfolding remaining_of_def filter_filter by (intro filter_cong) auto
  also have "\<dots> = remove1 t (remaining_of w ts)"
    using dt by (simp add: remaining_of_def distinct_remove1_removeAll removeAll_filter_not_eq)
      (auto intro: filter_cong)
  finally show ?thesis .
qed

lemma select_loop_greedy:
  assumes P: "platform_ok P" and ts: "pool_list P network ts" and h: "0 \<le> h" "h \<le> U64_MAX"
    and n: "\<forall>t \<in> set ts. tx_nonce t \<noteq> U64_MAX"
  shows "loop_ok P network 0 w \<Longrightarrow> covered P w h (remaining_of w ts) \<Longrightarrow>
    select_loop k P h (group_transactions ts) {} w sel = Inr (sel @ greedy_pick P k (remaining_of w ts))"
proof (induction k arbitrary: w sel)
  case (Suc k)
  let ?R = "remaining_of w ts"
  obtain hs where hs: "eligible_heads P (group_transactions ts) {} w = Inr hs" "set hs = {t \<in> set ?R. is_head w t}"
      "sort_by_fee P hs = Inr (sort_key (fee_order P) hs)"
    using select_round [OF Suc.prems(1) ts, of "{}"] remaining_heads [of ts w] by auto
  show ?case
  proof (cases "?R = []")
    case True
    then show ?thesis using hs(1,2) by simp
  next
    case False
    let ?t = "best_next P ?R"
    note B = best_next_spec [OF Suc.prems(2) False]
    have t: "?t \<in> set ts" "tx_nonce ?t \<noteq> U64_MAX" using B(1) n by (auto simp: remaining_of_def)
    have hn: "hs \<noteq> []" using B(1,2) hs(2) by auto
    obtain i w' where a: "apply_transaction P ?t h w = (Inr (tx_fee_atoms ?t), w')"
        and tr: "transferred P ?t i w w'" and c: "covered P w' h (remove1 ?t ?R)"
      using covered_step [OF platform_okD(1) [OF P] _ h Suc.prems(2) B(1,2) t(2)] Suc.prems(1)
      by (auto simp: loop_ok_def)
    have r: "remaining_of w' ts = remove1 ?t ?R"
      using remaining_step [OF _ t(1) B(2) tr] ts by (simp add: pool_list_def)
    have "0 \<le> tx_fee_atoms ?t" using covered_valid(4) [OF Suc.prems(2) B(1)] .
    then have l: "loop_ok P network 0 w'"
      using loop_ok_apply(1) [OF platform_okD(1) [OF P] Suc.prems(1) a] by (auto simp: loop_ok_def)
    obtain us where "sort_key (fee_order P) hs = ?t # us"
      using B(3) [OF hs(2)] hn by (metis length_0_conv length_sort list.collapse)
    then have "try_heads P h (sort_key (fee_order P) hs) {} w = Inr (Some ?t, {}, w')"
      using a by simp
    then show ?thesis
      using hs(1,3) hn Suc.IH [OF l, of "sel @ [?t]"] c r False by simp
  qed
qed simp

lemma mempool_pool_list:
  assumes "mempool_ok P network m"
  shows "pool_list P network (pending m)"
proof -
  have "inj_on sender_nonce (set (pending m))"
    by (rule inj_onI) (use pending_by_nonce [OF assms] in auto)
  then show ?thesis
    using pending_txid [OF assms] pending_distinct(2) [OF assms] by (auto simp: pool_list_def distinct_map)
qed

lemma fits_remaining:
  assumes "covered P s h ts"
  shows "remaining_of s ts = ts"
proof -
  have "acc_nonce (account_of s (tx_sender_address t)) \<le> tx_nonce t" if t: "t \<in> set ts" for t
  proof -
    let ?a = "tx_sender_address t"
    have "tx_nonce t \<in> tx_nonce ` set (of_sender ?a ts)" using t by simp
    then show ?thesis using covered_sender [OF assms, of ?a] unfolding sender_covered_def by simp
  qed
  then show ?thesis by (simp add: remaining_of_def)
qed


lemma best_next_member:
  assumes "ts \<noteq> []"
  shows "best_next P ts \<in> set ts"
proof -
  have "next_of_sender ts (hd (sort_key tx_nonce ts))"
    using hd_sort_key(2) [OF assms, of _ tx_nonce] by (simp add: next_of_sender_def list_all_iff)
  then have "hd (sort_key tx_nonce ts) \<in> set (filter (next_of_sender ts) ts)"
    using hd_sort_key(1) [OF assms, of tx_nonce] by simp
  then have "filter (next_of_sender ts) ts \<noteq> []" by (metis empty_iff list.set(1))
  from hd_sort_key(1) [OF this, of "fee_order P"] show ?thesis by (simp add: best_next_def)
qed

lemma greedy_pick_length: "length (greedy_pick P k ts) = min k (length ts)"
proof (induction k arbitrary: ts)
  case (Suc k)
  have "0 < length ts \<Longrightarrow> Suc (min k (length ts - 1)) = min (Suc k) (length ts)" by linarith
  then show ?case using Suc best_next_member [of ts P] by (auto simp: length_remove1)
qed simp

lemma nonce_loop_run:
  "map tx_nonce ts = [n..n + int (length ts) - 1] \<Longrightarrow> n + int (length ts) \<le> U64_MAX \<Longrightarrow>
     nonce_loop ts n = Inr (n + int (length ts))"
proof (induction ts arbitrary: n)
  case (Cons t ts)
  have "[n..n + int (length (t # ts)) - 1] = n # [n + 1..n + 1 + int (length ts) - 1]"
    by (simp add: upto_rec1 algebra_simps)
  then show ?case using Cons.IH [of "n + 1"] Cons.prems by auto
qed simp

lemma fits_next_nonce:
  assumes "mempool_fits P s h m" and "is_valid_address P a (st_network s)"
    and "acc_nonce (account_of s a) + int (length (sender_transactions a m)) \<le> U64_MAX"
    and "acc_nonce (account_of s a) \<noteq> U64_MAX"
  shows "next_nonce P a s m = Inr (acc_nonce (account_of s a) + int (length (sender_transactions a m)))"
proof -
  let ?X = "of_sender a (pending m)" and ?S = "sender_transactions a m" and ?n = "acc_nonce (account_of s a)"
  have c: "sender_covered s (pending m) a" using assms(1) by (simp add: mempool_fits_def covered_sender)
  have S: "set ?S = set ?X" "length ?S = length ?X" "distinct ?S"
    using sender_nonces_inj(2) [OF c] by (simp_all add: sender_transactions_def)
  have "map tx_nonce ?S = [?n..?n + int (length ?S) - 1]"
  proof (rule sorted_distinct_set_unique)
    show "sorted (map tx_nonce ?S)" by (simp add: sender_transactions_def)
    show "distinct (map tx_nonce ?S)" using S sender_nonces_inj(1) [OF c] by (simp add: distinct_map)
    show "set (map tx_nonce ?S) = set [?n..?n + int (length ?S) - 1]"
      using c S(1,2) by (auto simp: sender_covered_def)
  qed simp_all
  from nonce_loop_run [OF this assms(3)] show ?thesis using assms(2,4) by (simp add: next_nonce_def)
qed

lemma admissible_next_nonce:
  assumes "mempool_fits P s h m" and "admissible P t s h m i"
  shows "next_nonce P (tx_sender_address t) s m = Inr (tx_nonce t)"
  using fits_next_nonce [OF assms(1), of "tx_sender_address t"] assms(2) valid_sender [of P t h "st_network s"]
  by (auto simp: admissible_def)

subsection \<open>A sample pool\<close>

definition sample_mempool :: mempool where
  "sample_mempool = snd (mempool_add sample_platform (sample_transaction 1 5 1 1 0) (sample_state 9) 1 new_mempool)"

lemma sample_mempool_add:
  "\<exists>i. mempool_add sample_platform (sample_transaction 1 5 1 1 0) (sample_state 9) 1 new_mempool
     = (Inr i, sample_mempool)"
proof -
  let ?t = "sample_transaction 1 5 1 1 0"
  have s: "tx_sender_address ?t = sample_address 0" by (rule sample_sender) (simp_all add: U64_MAX_def)
  have p: "validate_transaction sample_platform ?t 1 TESTNET = Inr ()" "tx_nonce ?t = 0" "spending ?t = 2"
    by (rule sample_transaction_props(7); simp add: U64_MAX_def)
      (simp_all add: sample_transaction_props U64_MAX_def spending_def)
  obtain i where "txid sample_platform ?t = Inr i"
    using validated_txid [OF platform_okD(1) [OF sample_platform_ok] p(1)] by blast
  then have "admissible sample_platform ?t (sample_state 9) 1 new_mempool i"
    using p by (simp add: admissible_def s new_mempool_def mempool_length_def sender_transactions_def pending_def
        MAX_MEMPOOL_TRANSACTIONS_def MAX_PENDING_PER_SENDER_def sample_state_def account_of_def U64_MAX_def)
  then have "admit sample_platform ?t (sample_state 9) 1 new_mempool = Inr i" by (simp add: admit_iff)
  then show ?thesis by (simp add: sample_mempool_def mempool_add_def)
qed

lemma sample_mempool_facts:
  "mempool_ok sample_platform TESTNET sample_mempool"
  "mempool_fits sample_platform (sample_state 9) 1 sample_mempool"
  "pending sample_mempool = [sample_transaction 1 5 1 1 0]"
proof -
  obtain i where a: "mempool_add sample_platform (sample_transaction 1 5 1 1 0) (sample_state 9) 1 new_mempool
     = (Inr i, sample_mempool)" using sample_mempool_add by blast
  note A = mempool_add_spec [OF new_mempool_ok new_mempool_fits [OF sample_state_facts(1)] a]
  show "mempool_ok sample_platform TESTNET sample_mempool" using A(1) by (simp add: sample_state_facts)
  show "mempool_fits sample_platform (sample_state 9) 1 sample_mempool" by (rule A(2))
  show "pending sample_mempool = [sample_transaction 1 5 1 1 0]"
    using A(3) by (simp add: new_mempool_def pending_def)
qed

lemma sample_mempool_reachable: "mempool_reachable sample_platform TESTNET sample_mempool"
  unfolding mempool_reachable_def sample_mempool_def
  by (rule reach_step [OF reach_start]) (auto intro: step_add simp: sample_state_facts)

lemma select_transactions_spec:
  assumes "platform_ok P" and "network_fits (st_network s)" and "state_ok P s" and "mempool_ok P (st_network s) m"
    and "total_balance s \<le> U64_MAX" and "0 \<le> h" and "h \<le> U64_MAX" and "0 \<le> max_count"
  shows "\<exists>sel fees w. select_transactions P s h max_count m = Inr sel \<and> int (length sel) \<le> max_count
     \<and> set sel \<subseteq> set (pending m) \<and> apply_transactions P sel h s = (Inr fees, w)"
proof -
  have l: "loop_ok P (st_network s) 0 s" using assms(3,5) by (simp add: loop_ok_def)
  obtain new f w where n: "select_loop (nat max_count) P h (group_transactions (pending m)) {} s [] = Inr ([] @ new)"
      "length new \<le> nat max_count" "set new \<subseteq> set (pending m)" "foldE (apply_step P h) new (0, s) = Inr (f, w)"
    using select_loop_sound [OF assms(1,2) mempool_pool_list [OF assms(4)] l] by blast
  have "select_transactions P s h max_count m = Inr new"
    using n(1,2) assms(8) copy_state_ok [OF assms(3)] by (cases "max_count = 0") (simp_all add: select_transactions_def)
  moreover have "apply_transactions P new h s = (Inr f, w)"
    using n(4) assms(6,7) by (simp add: apply_transactions_iff [OF platform_okD(1) [OF assms(1)] assms(3)])
  ultimately show ?thesis using n(2,3) assms(8) by auto
qed

subsection \<open>Properties\<close>

text \<open>\<open>mempool_invariant\<close>: whatever operations a pool of a network has seen, with whatever states and
  heights, its two dictionaries agree, a sender's nonce is used once, an identifier is filed under
  itself, and the limits on the pool and on each sender hold.\<close>

theorem mempool_invariant:
  assumes "mempool_reachable P network m"
  shows "mempool_ok P network m \<and> int (mempool_length m) \<le> MAX_MEMPOOL_TRANSACTIONS
     \<and> distinct (map (\<lambda>t. (tx_sender_address t, tx_nonce t)) (pending m)) \<and> distinct (map (txid P) (pending m))
     \<and> int (length (sender_transactions a m)) \<le> MAX_PENDING_PER_SENDER"
proof -
  note ok = mempool_reachable_ok [OF assms]
  show ?thesis
    using ok mempool_okD(6,7) [OF ok] mempool_pool_list [OF ok] pending_distinct(1) [OF ok]
    by (simp add: pool_list_def)
qed

lemma mempool_invariant_witness:
  "mempool_ok sample_platform TESTNET sample_mempool \<and> int (mempool_length sample_mempool) \<le> MAX_MEMPOOL_TRANSACTIONS"
  using mempool_invariant [OF sample_mempool_reachable] by simp

text \<open>C24. \<open>add_keeps_fit\<close>: adding to a pool that fits the state keeps it fitting. An accepted transaction
  goes to the end, under its identifier, and its nonce is the one \<open>next_nonce\<close> announced; a refused
  one raises \<open>MempoolError\<close> and changes nothing.\<close>

theorem add_keeps_fit:
  assumes "platform_ok P" and "network_fits (st_network s)" and "mempool_ok P (st_network s) m"
    and "mempool_fits P s h m" and "mempool_add P t s h m = (r, m')"
  shows "mempool_ok P (st_network s) m' \<and> mempool_fits P s h m'
     \<and> (case r of Inl e \<Rightarrow> exn_kind e = MempoolError \<and> m' = m
        | Inr i \<Rightarrow> txid P t = Inr i \<and> pending m' = pending m @ [t]
            \<and> next_nonce P (tx_sender_address t) s m = Inr (tx_nonce t))"
proof (cases r)
  case (Inl e)
  then show ?thesis
    using mempool_add_spec [OF assms(3-5)] raises_onlyD [OF admit_raises [OF assms(1,2)], of t h m e] assms(5)
    by (auto simp: mempool_add_def split: sum.splits)
next
  case (Inr i)
  then have a: "admissible P t s h m i" using mempool_add_spec(4) [OF assms(3-5)] by (simp add: admit_iff)
  then show ?thesis
    using mempool_add_spec(1-3) [OF assms(3-5)] admissible_next_nonce [OF assms(4) a] Inr by (simp add: admissible_def)
qed

lemma add_keeps_fit_witness:
  "mempool_fits sample_platform (sample_state 9) 1 sample_mempool
     \<and> next_nonce sample_platform (sample_address 0) (sample_state 9) new_mempool = Inr 0"
proof -
  obtain i where a: "mempool_add sample_platform (sample_transaction 1 5 1 1 0) (sample_state 9) 1 new_mempool
     = (Inr i, sample_mempool)" using sample_mempool_add by blast
  have s: "tx_sender_address (sample_transaction 1 5 1 1 0) = sample_address 0"
    by (rule sample_sender) (simp_all add: U64_MAX_def)
  have "tx_nonce (sample_transaction 1 5 1 1 0) = 0" by (rule sample_transaction_props) (simp_all add: U64_MAX_def)
  then show ?thesis
    using add_keeps_fit [OF sample_platform_ok _ new_mempool_ok new_mempool_fits [OF sample_state_facts(1)] a] s
    by (simp add: sample_state_facts)
qed

text \<open>\<open>revalidate_restores_fit\<close>: revalidating any pool against a state gives a pool that fits this
  state; what was dropped is returned, and nothing is lost or duplicated.\<close>

theorem revalidate_restores_fit:
  assumes "platform_ok P" and "network_fits (st_network s)" and "state_ok P s" and "mempool_ok P network m"
  shows "\<exists>removed m'. revalidate P s h m = (Inr removed, m') \<and> mempool_ok P (st_network s) m'
     \<and> mempool_fits P s h m' \<and> mset (pending m') + mset removed = mset (pending m)"
  by (rule revalidate_spec [OF assms])

lemma revalidate_restores_fit_witness:
  "\<exists>removed m'. revalidate sample_platform (sample_state 9) 1 sample_mempool = (Inr removed, m')
     \<and> mempool_fits sample_platform (sample_state 9) 1 m'"
  using revalidate_restores_fit [OF sample_platform_ok _ sample_state_facts(1) sample_mempool_facts(1)]
  by (fastforce simp: sample_state_facts)

text \<open>\<open>selection_applies\<close>: whatever the pool holds, \<open>select\<close> raises nothing and returns at most
  \<open>max_count\<close> pending transactions that the state accepts as one batch at that height.\<close>

theorem selection_applies:
  assumes "platform_ok P" and "network_fits (st_network s)" and "state_ok P s" and "mempool_ok P (st_network s) m"
    and "total_balance s \<le> U64_MAX" and "0 \<le> h" and "h \<le> U64_MAX" and "0 \<le> max_count"
  shows "\<exists>sel fees w. select_transactions P s h max_count m = Inr sel \<and> int (length sel) \<le> max_count
     \<and> set sel \<subseteq> set (pending m) \<and> apply_transactions P sel h s = (Inr fees, w)"
  by (rule select_transactions_spec [OF assms])

lemma selection_applies_witness:
  "\<exists>sel fees w. select_transactions sample_platform (sample_state 9) 1 10 sample_mempool = Inr sel
     \<and> apply_transactions sample_platform sel 1 (sample_state 9) = (Inr fees, w)"
  using selection_applies [OF sample_platform_ok _ sample_state_facts(1), of sample_mempool 1 10]
  by (auto simp: sample_state_facts sample_mempool_facts U64_MAX_def)

text \<open>C22. \<open>selection_is_greedy\<close>: from a pool that fits the state, \<open>select\<close> returns exactly what the
  state-free specification picks, repeatedly the next transaction of some sender with the highest fee,
  the smaller identifier first. So it never gets stuck: it returns \<open>max_count\<close> transactions, or all.\<close>

theorem selection_is_greedy:
  assumes "platform_ok P" and "state_ok P s" and "mempool_ok P (st_network s) m" and "mempool_fits P s h m"
    and "total_balance s \<le> U64_MAX" and "0 \<le> h" and "h \<le> U64_MAX" and "0 \<le> max_count"
    and "list_all (\<lambda>t. tx_nonce t \<noteq> U64_MAX) (pending m)"
  shows "select_transactions P s h max_count m = Inr (greedy_pick P (nat max_count) (pending m))
     \<and> length (greedy_pick P (nat max_count) (pending m)) = min (nat max_count) (mempool_length m)"
proof -
  have c: "covered P s h (pending m)" using assms(4) by (simp add: mempool_fits_def)
  have l: "loop_ok P (st_network s) 0 s" using assms(2,5) by (simp add: loop_ok_def)
  have "select_loop (nat max_count) P h (group_transactions (pending m)) {} s []
      = Inr ([] @ greedy_pick P (nat max_count) (remaining_of s (pending m)))"
    by (rule select_loop_greedy [OF assms(1) mempool_pool_list [OF assms(3)] assms(6,7) _ l])
       (use assms(9) c in \<open>auto simp: list_all_iff fits_remaining\<close>)
  then show ?thesis
    using assms(8) copy_state_ok [OF assms(2)] fits_remaining [OF c]
    by (auto simp: select_transactions_def greedy_pick_length mempool_length_def pending_def)
qed

lemma selection_is_greedy_witness:
  "select_transactions sample_platform (sample_state 9) 1 10 sample_mempool
     = Inr (greedy_pick sample_platform (nat 10) [sample_transaction 1 5 1 1 0])"
proof -
  have "tx_nonce (sample_transaction 1 5 1 1 0) = 0" by (rule sample_transaction_props) (simp_all add: U64_MAX_def)
  then show ?thesis
    using selection_is_greedy [OF sample_platform_ok sample_state_facts(1), of sample_mempool 1 10]
    by (simp add: sample_state_facts sample_mempool_facts U64_MAX_def)
qed

end
