(* ===== verification/Storage.thy ===== *)
theory Storage
  imports Chain
begin

text \<open>
  \<open>storage.py\<close>: the SQLite database of a chain. A table is the list of its rows in the order they were
  inserted, an \<open>INSERT\<close> or \<open>UPDATE\<close> checks the constraints the schema declares (\<open>CHECK\<close>, primary and
  unique keys, foreign keys) and raises \<open>SqliteError\<close> when one fails, and a transaction works on a copy
  of the tables that replaces them on \<open>COMMIT\<close>. Columns declared as blobs hold bytes, so the type
  tests on their values are discharged; the outcome of SQLite's own \<open>integrity_check\<close> is the field
  \<open>db_intact\<close>. Failures of the file system and other writers of the file are not modelled.

  \<open>database_of\<close> says which tables a chain has. The lemmas show that opening, persisting and loading
  keep exactly these tables and give back exactly this chain.
\<close>

definition SCHEMA_VERSION :: int where "SCHEMA_VERSION = 1"
definition DATABASE_FILENAME :: pystr where "DATABASE_FILENAME = str ''blockchain.sqlite3''"
definition CUMULATIVE_WORK_BYTES :: nat where "CUMULATIVE_WORK_BYTES = 40"

definition safe_chain_id :: "pystr \<Rightarrow> bool" where
  "safe_chain_id s \<longleftrightarrow> 1 \<le> length s \<and> length s \<le> 64 \<and>
     list_all (\<lambda>c. (65 \<le> c \<and> c \<le> 90) \<or> (97 \<le> c \<and> c \<le> 122) \<or> (48 \<le> c \<and> c \<le> 57) \<or> c \<in> {45, 46, 95}) s"

subsection \<open>The tables\<close>

record block_row =
  ro_block_hash :: bytes
  ro_parent_hash :: "bytes option"
  ro_height :: bytes
  ro_cumulative_work :: bytes
  ro_issued_supply :: bytes
  ro_header :: bytes
  ro_reward :: bytes

record body_row =
  bt_block_hash :: bytes
  bt_position :: int
  bt_txid :: bytes
  bt_bytes :: bytes

record metadata_row =
  me_schema_version :: int
  me_chain_id :: pystr
  me_genesis_hash :: bytes
  me_tip_hash :: bytes
  me_issued_supply :: bytes

record database =
  db_user_version :: int
  db_tables :: "string list"
  db_intact :: bool
  db_blocks :: "block_row list"
  db_bodies :: "body_row list"
  db_canonical :: "(bytes \<times> bytes) list"
  db_accounts :: "(pystr \<times> bytes \<times> bytes) list"
  db_confirmed :: "(bytes \<times> bytes) list"
  db_metadata :: "metadata_row list"

definition required_tables :: "string list" where
  "required_tables = [''accounts'', ''block_transactions'', ''blocks'', ''canonical_chain'',
     ''chain_metadata'', ''confirmed_transactions'']"

text \<open>A file SQLite has just created.\<close>

definition blank_database :: database where
  "blank_database = \<lparr>db_user_version = 0, db_tables = [], db_intact = True, db_blocks = [], db_bodies = [],
     db_canonical = [], db_accounts = [], db_confirmed = [], db_metadata = []\<rparr>"

definition constraint :: "bool \<Rightarrow> 'a \<Rightarrow> 'a res" where
  "constraint b x = (if b then Inr x else raise SqliteError ''constraint failed'')"

definition block_hashes :: "database \<Rightarrow> bytes set" where
  "block_hashes db = ro_block_hash ` set (db_blocks db)"

definition insert_block_row :: "block_row \<Rightarrow> database \<Rightarrow> database res" where
  "insert_block_row r db =
     constraint (length (ro_block_hash r) = 32 \<and> length (ro_height r) = 8 \<and> length (ro_cumulative_work r) = 40
        \<and> length (ro_issued_supply r) = 8 \<and> ro_block_hash r \<notin> block_hashes db
        \<and> (case ro_parent_hash r of None \<Rightarrow> True | Some p \<Rightarrow> p \<in> insert (ro_block_hash r) (block_hashes db)))
       (db\<lparr>db_blocks := db_blocks db @ [r]\<rparr>)"

definition insert_body_row :: "body_row \<Rightarrow> database \<Rightarrow> database res" where
  "insert_body_row r db =
     constraint (bt_block_hash r \<in> block_hashes db \<and> 0 \<le> bt_position r \<and> length (bt_txid r) = 32
        \<and> (bt_block_hash r, bt_position r) \<notin> (\<lambda>r. (bt_block_hash r, bt_position r)) ` set (db_bodies db))
       (db\<lparr>db_bodies := db_bodies db @ [r]\<rparr>)"

definition insert_canonical_row :: "bytes \<times> bytes \<Rightarrow> database \<Rightarrow> database res" where
  "insert_canonical_row r db =
     constraint (length (fst r) = 8 \<and> fst r \<notin> fst ` set (db_canonical db)
        \<and> snd r \<notin> snd ` set (db_canonical db) \<and> snd r \<in> block_hashes db)
       (db\<lparr>db_canonical := db_canonical db @ [r]\<rparr>)"

definition insert_account_row :: "pystr \<times> bytes \<times> bytes \<Rightarrow> database \<Rightarrow> database res" where
  "insert_account_row r db =
     constraint (fst r \<notin> fst ` set (db_accounts db) \<and> length (fst (snd r)) = 8 \<and> length (snd (snd r)) = 8)
       (db\<lparr>db_accounts := db_accounts db @ [r]\<rparr>)"

definition insert_confirmed_row :: "bytes \<times> bytes \<Rightarrow> database \<Rightarrow> database res" where
  "insert_confirmed_row r db =
     constraint (length (fst r) = 32 \<and> fst r \<notin> fst ` set (db_confirmed db) \<and> snd r \<in> block_hashes db)
       (db\<lparr>db_confirmed := db_confirmed db @ [r]\<rparr>)"

definition insert_metadata_row :: "metadata_row \<Rightarrow> database \<Rightarrow> database res" where
  "insert_metadata_row r db =
     constraint (db_metadata db = [] \<and> length (me_genesis_hash r) = 32 \<and> me_tip_hash r \<in> block_hashes db
        \<and> length (me_issued_supply r) = 8)
       (db\<lparr>db_metadata := [r]\<rparr>)"

definition update_metadata :: "bytes \<Rightarrow> bytes \<Rightarrow> database \<Rightarrow> database res" where
  "update_metadata tip issued_supply db =
     constraint (db_metadata db = [] \<or> tip \<in> block_hashes db \<and> length issued_supply = 8)
       (db\<lparr>db_metadata := map (\<lambda>r. r\<lparr>me_tip_hash := tip, me_issued_supply := issued_supply\<rparr>) (db_metadata db)\<rparr>)"

definition update_block_row :: "bytes \<Rightarrow> bytes \<Rightarrow> bytes \<Rightarrow> database \<Rightarrow> database res" where
  "update_block_row h work issued_supply db =
     constraint (h \<notin> block_hashes db \<or> length work = 40 \<and> length issued_supply = 8)
       (db\<lparr>db_blocks := map (\<lambda>r. if ro_block_hash r = h
            then r\<lparr>ro_cumulative_work := work, ro_issued_supply := issued_supply\<rparr> else r) (db_blocks db)\<rparr>)"

text \<open>\<open>PRAGMA foreign_key_check\<close>.\<close>

definition foreign_keys_ok :: "database \<Rightarrow> bool" where
  "foreign_keys_ok db \<longleftrightarrow>
     list_all (\<lambda>r. case ro_parent_hash r of None \<Rightarrow> True | Some p \<Rightarrow> p \<in> block_hashes db) (db_blocks db)
   \<and> list_all (\<lambda>r. bt_block_hash r \<in> block_hashes db) (db_bodies db)
   \<and> list_all (\<lambda>r. snd r \<in> block_hashes db) (db_canonical db)
   \<and> list_all (\<lambda>r. snd r \<in> block_hashes db) (db_confirmed db)
   \<and> list_all (\<lambda>r. me_tip_hash r \<in> block_hashes db) (db_metadata db)"

subsection \<open>Values\<close>

definition require_supported_network :: "network_config \<Rightarrow> unit res" where
  "require_supported_network network =
     (if network \<noteq> TESTNET then
        raise UnsupportedNetworkError ''M6 supports only the defined OurCoin testnet'' else Inr ())"

definition encode_work :: "int \<Rightarrow> bytes res" where
  "encode_work v =
     (if v \<le> 0 \<or> 2 ^ (CUMULATIVE_WORK_BYTES * 8) \<le> v then
        raise StorageIntegrityError ''cumulative work is outside the storage range''
      else Inr (to_bytes_be CUMULATIVE_WORK_BYTES v))"

definition decode_u64 :: "bytes \<Rightarrow> string \<Rightarrow> int res" where
  "decode_u64 v field_name =
     (if length v \<noteq> 8 then raise StorageIntegrityError (field_name @ '' is not a canonical u64 BLOB'')
      else rethrow (\<lambda>c. c = EncodingError)
        (\<lambda>_. Exn StorageIntegrityError (field_name @ '' is not a canonical u64 BLOB''))
        (bindE (read_u64 (canonical_reader_of v)) (\<lambda>(decoded, r).
         bindE (ensure_finished r) (\<lambda>_. Inr decoded))))"

definition decode_work :: "bytes \<Rightarrow> int res" where
  "decode_work v =
     (if length v \<noteq> CUMULATIVE_WORK_BYTES then
        raise StorageIntegrityError ''cumulative work is not a 40-byte BLOB''
      else if from_bytes_be v \<le> 0 then raise StorageIntegrityError ''cumulative work must be positive''
      else Inr (from_bytes_be v))"

definition exact_blob :: "bytes \<Rightarrow> nat \<Rightarrow> string \<Rightarrow> bytes res" where
  "exact_blob v n field_name =
     (if length v \<noteq> n then
        raise StorageIntegrityError (field_name @ '' must be exactly '' @ int_str (int n) @ '' bytes'')
      else Inr v)"

subsection \<open>Opening\<close>

record storage =
  sg_database :: database
  sg_network :: network_config
  sg_genesis_hash :: bytes
  sg_database_path :: "pystr list"
  sg_closed :: bool

definition ensure_open :: "storage \<Rightarrow> unit res" where
  "ensure_open st = (if sg_closed st then raise StorageClosedError ''blockchain storage is closed'' else Inr ())"

definition storage_metadata :: "storage \<Rightarrow> metadata_row res" where
  "storage_metadata st =
     bindE (ensure_open st) (\<lambda>_.
     case db_metadata (sg_database st) of
       [r] \<Rightarrow> Inr r
     | _ \<Rightarrow> raise StorageIntegrityError ''database must contain exactly one metadata row'')"

fun join_names :: "string list \<Rightarrow> string" where
  "join_names [] = ''''"
| "join_names [n] = n"
| "join_names (n # ns) = n @ '', '' @ join_names ns"

definition validate_schema_tables :: "string list \<Rightarrow> unit res" where
  "validate_schema_tables tables =
     (let missing = filter (\<lambda>t. t \<notin> set tables) required_tables in
      if missing \<noteq> [] then
        raise StorageIntegrityError
          (''database schema is missing tables: '' @ join_names missing)
      else Inr ())"

definition validate_identity :: "storage \<Rightarrow> unit res" where
  "validate_identity st =
     bindE (storage_metadata st) (\<lambda>r.
     if me_schema_version r \<noteq> SCHEMA_VERSION then
       raise UnsupportedSchemaVersionError ''metadata schema version is unsupported''
     else if me_chain_id r \<noteq> net_chain_id (sg_network st) then
       raise NetworkMismatchError ''database chain_id does not match the selected network''
     else
     bindE (exact_blob (me_genesis_hash r) 32 ''metadata genesis hash'') (\<lambda>stored_genesis.
     if stored_genesis \<noteq> sg_genesis_hash st then
       raise NetworkMismatchError ''database genesis hash does not match the selected network''
     else Inr ()))"

subsection \<open>Writing\<close>

definition body_row_for :: "platform \<Rightarrow> bytes \<Rightarrow> nat \<times> transaction \<Rightarrow> body_row res" where
  "body_row_for P h = (\<lambda>(position, t).
     bindE (txid P t) (\<lambda>i. bindE (transaction_to_bytes P t) (\<lambda>bs.
     Inr \<lparr>bt_block_hash = h, bt_position = int position, bt_txid = i, bt_bytes = bs\<rparr>)))"

definition insert_body :: "platform \<Rightarrow> bytes \<Rightarrow> nat \<times> transaction \<Rightarrow> database \<Rightarrow> database res" where
  "insert_body P h e db = bindE (body_row_for P h e) (\<lambda>r. insert_body_row r db)"

definition insert_block :: "platform \<Rightarrow> chain \<Rightarrow> bytes \<Rightarrow> database \<Rightarrow> database res" where
  "insert_block P c h db =
     bindE (get_block h c) (\<lambda>b.
     bindE (get_record h c) (\<lambda>record.
     bindE (encode_u64 (br_height record)) (\<lambda>height.
     bindE (encode_work (br_cumulative_work record)) (\<lambda>work.
     bindE (encode_u64 (br_total_supply record)) (\<lambda>issued_supply.
     bindE (header_to_bytes P (bl_header b)) (\<lambda>header.
     bindE (reward_to_bytes P (bl_reward b)) (\<lambda>reward.
     bindE (insert_block_row \<lparr>ro_block_hash = h, ro_parent_hash = br_parent_hash record, ro_height = height,
        ro_cumulative_work = work, ro_issued_supply = issued_supply, ro_header = header,
        ro_reward = reward\<rparr> db)
       (foldE (insert_body P h) (enumerate 0 (bl_transactions b))))))))))"

definition insert_confirmed :: "platform \<Rightarrow> block \<Rightarrow> transaction \<Rightarrow> database \<Rightarrow> database res" where
  "insert_confirmed P b t db =
     bindE (txid P t) (\<lambda>i. bindE (block_hash P b) (\<lambda>h. insert_confirmed_row (i, h) db))"

definition insert_canonical :: "platform \<Rightarrow> block \<Rightarrow> database \<Rightarrow> database res" where
  "insert_canonical P b db =
     bindE (encode_u64 (bh_height (bl_header b))) (\<lambda>height.
     bindE (block_hash P b) (\<lambda>h.
     bindE (insert_canonical_row (height, h) db) (foldE (insert_confirmed P b) (bl_transactions b))))"

definition insert_account :: "pystr \<times> account \<Rightarrow> database \<Rightarrow> database res" where
  "insert_account = (\<lambda>(address, x) db.
     bindE (encode_u64 (acc_balance x)) (\<lambda>balance.
     bindE (encode_u64 (acc_nonce x)) (\<lambda>nonce.
     insert_account_row (address, balance, nonce) db)))"

definition replace_derived_state :: "platform \<Rightarrow> chain \<Rightarrow> database \<Rightarrow> database res" where
  "replace_derived_state P c db =
     (let db = db\<lparr>db_canonical := [], db_accounts := [], db_confirmed := []\<rparr> in
      bindE (active_chain c) (\<lambda>blocks.
      bindE (foldE (insert_canonical P) blocks db) (\<lambda>db.
      bindE (chain_state P c) (\<lambda>s.
      bindE (foldE insert_account (snap_accounts (snapshot s)) db) (\<lambda>db.
      bindE (chain_total_supply c) (\<lambda>supply.
      bindE (encode_u64 supply) (\<lambda>issued_supply.
      update_metadata (ch_tip c) issued_supply db)))))))"

definition created_tables :: "database \<Rightarrow> database" where
  "created_tables db = db\<lparr>db_tables := required_tables, db_blocks := [], db_bodies := [], db_canonical := [],
     db_accounts := [], db_confirmed := [], db_metadata := []\<rparr>"

definition initial_tables :: "platform \<Rightarrow> storage \<Rightarrow> chain \<Rightarrow> database res" where
  "initial_tables P st c =
     bindE (insert_block P c (ch_tip c) (created_tables (sg_database st))) (\<lambda>db.
     bindE (chain_total_supply c) (\<lambda>supply.
     bindE (encode_u64 supply) (\<lambda>issued_supply.
     bindE (insert_metadata_row \<lparr>me_schema_version = SCHEMA_VERSION, me_chain_id = net_chain_id (sg_network st),
        me_genesis_hash = sg_genesis_hash st, me_tip_hash = ch_tip c, me_issued_supply = issued_supply\<rparr> db) (\<lambda>db.
     bindE (replace_derived_state P c db) (\<lambda>db.
     Inr (db\<lparr>db_user_version := SCHEMA_VERSION\<rparr>))))))"

definition initialize_schema :: "platform \<Rightarrow> storage \<Rightarrow> unit res \<times> storage" where
  "initialize_schema P st =
     (case new_chain P (sg_network st) of
        Inl e \<Rightarrow> (Inl e, st)
      | Inr c \<Rightarrow> (case initial_tables P st c of
          Inl e \<Rightarrow> (Inl e, st)
        | Inr db \<Rightarrow> (Inr (), st\<lparr>sg_database := db\<rparr>)))"

definition open_or_initialize :: "platform \<Rightarrow> bool \<Rightarrow> bool \<Rightarrow> storage \<Rightarrow> unit res \<times> storage" where
  "open_or_initialize P existed create st =
     (let user_version = db_user_version (sg_database st); tables = db_tables (sg_database st) in
      if user_version = 0 \<and> tables = [] then
        if existed \<and> \<not> create then (raise StorageIntegrityError ''existing database has no OurCoin schema'', st)
        else initialize_schema P st
      else if user_version \<noteq> SCHEMA_VERSION then
        (raise UnsupportedSchemaVersionError (''unsupported database schema version '' @ int_str user_version), st)
      else (bindE (validate_schema_tables tables) (\<lambda>_. validate_identity st), st))"

definition database_path_for_identity :: "pystr list \<Rightarrow> pystr \<Rightarrow> bytes \<Rightarrow> pystr list res" where
  "database_path_for_identity base_data_dir chain_id genesis_hash =
     (if \<not> safe_chain_id chain_id then raise StorageError ''chain_id is not safe for a data-directory name''
      else if length genesis_hash \<noteq> 32 then raise StorageError ''genesis hash must be exactly 32 bytes''
      else Inr (base_data_dir @ [chain_id, bytes_hex genesis_hash, DATABASE_FILENAME]))"

text \<open>\<open>open\<close>, on the files of the data directory: a dictionary from paths to databases.\<close>

definition open_storage :: "platform \<Rightarrow> pystr list \<Rightarrow> network_config \<Rightarrow> bool \<Rightarrow> (pystr list, database) dict \<Rightarrow>
    storage res \<times> (pystr list, database) dict" where
  "open_storage P base_data_dir network create files =
     (case bindE (require_supported_network network) (\<lambda>_.
           bindE (new_chain P network) (\<lambda>c.
           bindE (database_path_for_identity base_data_dir (net_chain_id network) (ch_tip c)) (\<lambda>path.
           Inr (ch_tip c, path)))) of
        Inl e \<Rightarrow> (Inl e, files)
      | Inr (genesis_hash, path) \<Rightarrow>
        let existed = (map_of files path \<noteq> None) in
        if \<not> existed \<and> \<not> create then (raise StorageNotFoundError ''blockchain database does not exist'', files)
        else
        let db = (case map_of files path of None \<Rightarrow> blank_database | Some db \<Rightarrow> db);
            st = \<lparr>sg_database = db, sg_network = network, sg_genesis_hash = genesis_hash,
                  sg_database_path = path, sg_closed = False\<rparr>;
            (r, st) = open_or_initialize P existed create st
        in (rethrow (\<lambda>k. k = SqliteError) (\<lambda>_. Exn StorageError ''SQLite blockchain database could not be opened'')
              (bindE r (\<lambda>_. Inr st)), AList.update path (sg_database st) files))"

subsection \<open>Reading\<close>

definition decode_body_row :: "platform \<Rightarrow> nat \<times> body_row \<Rightarrow> transaction res" where
  "decode_body_row P = (\<lambda>(expected_position, r).
     if bt_position r \<noteq> int expected_position then
       raise StorageIntegrityError ''block transaction positions are not contiguous''
     else
     bindE (transaction_from_bytes P (bt_bytes r)) (\<lambda>t.
     bindE (exact_blob (bt_txid r) 32 ''transaction ID'') (\<lambda>stored.
     bindE (txid P t) (\<lambda>i.
     if i \<noteq> stored then raise StorageIntegrityError ''stored transaction ID does not match its bytes''
     else Inr t))))"

definition body_rows :: "bytes \<Rightarrow> database \<Rightarrow> body_row list" where
  "body_rows h db = sort_key bt_position (filter (\<lambda>r. bt_block_hash r = h) (db_bodies db))"

definition decode_block_row :: "platform \<Rightarrow> database \<Rightarrow> block_row \<Rightarrow> block res" where
  "decode_block_row P db r =
     bindE (exact_blob (ro_block_hash r) 32 ''block hash'') (\<lambda>h.
     bindE (rethrow (\<lambda>k. k \<in> {BlockEncodingError, TransactionError, TypeError})
              (\<lambda>_. Exn StorageIntegrityError ''stored block contains invalid canonical bytes'')
              (bindE (header_from_bytes P (ro_header r)) (\<lambda>header.
               bindE (reward_from_bytes P (ro_reward r)) (\<lambda>reward.
               bindE (mapE (decode_body_row P) (enumerate 0 (body_rows h db))) (\<lambda>transactions.
               Inr \<lparr>bl_header = header, bl_reward = reward, bl_transactions = transactions\<rparr>))))) (\<lambda>b.
     bindE (block_hash P b) (\<lambda>actual.
     if actual \<noteq> h then raise StorageIntegrityError ''stored block hash does not match its header''
     else
     bindE (rethrow (\<lambda>k. k = BlockEncodingError)
              (\<lambda>_. Exn StorageIntegrityError ''stored block body is not canonically valid'')
              (transactions_root P (bl_reward b) (bl_transactions b))) (\<lambda>body_root.
     if body_root \<noteq> bh_transactions_root (bl_header b) then
       raise StorageIntegrityError ''stored block body does not match its transaction root''
     else Inr b))))"

definition find_block_row :: "bytes \<Rightarrow> database \<Rightarrow> block_row option" where
  "find_block_row h db = List.find (\<lambda>r. ro_block_hash r = h) (db_blocks db)"

definition stored_block_row :: "bytes \<Rightarrow> database \<Rightarrow> block_row res" where
  "stored_block_row h db =
     bindE (exact_blob h 32 ''requested block hash'') (\<lambda>h.
     case find_block_row h db of
       None \<Rightarrow> raise BlockNotFoundError ''block is not stored''
     | Some r \<Rightarrow> Inr r)"

definition get_block_by_hash :: "platform \<Rightarrow> bytes \<Rightarrow> storage \<Rightarrow> block res" where
  "get_block_by_hash P h st =
     bindE (ensure_open st) (\<lambda>_.
     bindE (stored_block_row h (sg_database st)) (decode_block_row P (sg_database st)))"

definition get_canonical_block_by_height :: "platform \<Rightarrow> int \<Rightarrow> storage \<Rightarrow> block res" where
  "get_canonical_block_by_height P height st =
     bindE (ensure_open st) (\<lambda>_.
     if \<not> (0 \<le> height \<and> height \<le> U64_MAX) then
       raise StorageError ''block height must be an unsigned 64-bit integer''
     else
     bindE (encode_u64 height) (\<lambda>k.
     case Option.bind (map_of (db_canonical (sg_database st)) k) (\<lambda>h. find_block_row h (sg_database st)) of
       None \<Rightarrow> raise BlockNotFoundError ''canonical block height is not stored''
     | Some r \<Rightarrow> decode_block_row P (sg_database st) r))"

definition record_from_row :: "block_row \<Rightarrow> block_record res" where
  "record_from_row r =
     bindE (case ro_parent_hash r of None \<Rightarrow> Inr None
            | Some p \<Rightarrow> bindE (exact_blob p 32 ''parent block hash'') (\<lambda>p. Inr (Some p))) (\<lambda>parent_hash.
     bindE (exact_blob (ro_block_hash r) 32 ''block hash'') (\<lambda>h.
     bindE (decode_u64 (ro_height r) ''block height'') (\<lambda>height.
     bindE (decode_work (ro_cumulative_work r)) (\<lambda>work.
     bindE (decode_u64 (ro_issued_supply r) ''block issued supply'') (\<lambda>supply.
     Inr \<lparr>br_block_hash = h, br_parent_hash = parent_hash, br_height = height, br_cumulative_work = work,
          br_total_supply = supply\<rparr>)))))"

definition get_tip_record :: "storage \<Rightarrow> block_record res" where
  "get_tip_record st =
     bindE (storage_metadata st) (\<lambda>r.
     bindE (exact_blob (me_tip_hash r) 32 ''canonical tip hash'') (\<lambda>tip_hash.
     bindE (stored_block_row tip_hash (sg_database st)) record_from_row))"

definition assert_stored_block_matches :: "platform \<Rightarrow> chain \<Rightarrow> bytes \<Rightarrow> storage \<Rightarrow> unit res" where
  "assert_stored_block_matches P c h st =
     bindE (stored_block_row h (sg_database st)) (\<lambda>r.
     bindE (decode_block_row P (sg_database st) r) (\<lambda>stored.
     bindE (get_block h c) (\<lambda>b.
     if stored \<noteq> b then raise StorageIntegrityError ''duplicate block bytes do not match stored data''
     else
     bindE (record_from_row r) (\<lambda>stored.
     bindE (get_record h c) (\<lambda>record.
     if stored \<noteq> record then raise StorageIntegrityError ''duplicate block metadata does not match stored data''
     else Inr ())))))"

definition expected_previous_tip :: "chain_update \<Rightarrow> bytes res" where
  "expected_previous_tip u =
     (if \<not> cu_became_active u then Inr (cu_active_tip u)
      else case cu_disconnected u of
        h # _ \<Rightarrow> Inr h
      | [] \<Rightarrow> (case cu_common_ancestor u of
          None \<Rightarrow> raise StorageIntegrityError ''active extension does not identify its previous tip''
        | Some h \<Rightarrow> Inr h))"

subsection \<open>Persisting an update\<close>

text \<open>The body of the transaction: whether the block is new, and the tables to commit.\<close>

definition persist_body :: "platform \<Rightarrow> chain \<Rightarrow> chain_update \<Rightarrow> storage \<Rightarrow> (bool \<times> database) res" where
  "persist_body P c u st =
     bindE (storage_metadata st) (\<lambda>metadata.
     bindE (exact_blob (me_tip_hash metadata) 32 ''stored canonical tip hash'') (\<lambda>stored_tip.
     if find_block_row (cu_added u) (sg_database st) \<noteq> None then
       bindE (assert_stored_block_matches P c (cu_added u) st) (\<lambda>_. Inr (False, sg_database st))
     else
     bindE (expected_previous_tip u) (\<lambda>expected.
     if stored_tip \<noteq> expected then
       raise StorageIntegrityError ''database canonical tip changed before persistence''
     else
     bindE (insert_block P c (cu_added u) (sg_database st)) (\<lambda>db.
     bindE (if cu_became_active u then replace_derived_state P c db else Inr db) (\<lambda>db.
     Inr (True, db))))))"

definition persist_chain_update :: "platform \<Rightarrow> chain \<Rightarrow> chain_update \<Rightarrow> storage \<Rightarrow> bool res \<times> storage" where
  "persist_chain_update P c u st =
     (case ensure_open st of Inl e \<Rightarrow> (Inl e, st) | Inr _ \<Rightarrow>
      if ch_network c \<noteq> sg_network st then
        (raise NetworkMismatchError ''validated chain belongs to another network'', st)
      else if \<not> chain_contains (cu_added u) c then
        (raise StorageIntegrityError ''chain update does not exist in the supplied chain'', st)
      else if ch_tip c \<noteq> cu_active_tip u then
        (raise StorageIntegrityError ''chain update active tip does not match the supplied chain'', st)
      else case rethrow (\<lambda>k. k = SqliteError)
                  (\<lambda>_. Exn StorageError ''SQLite could not atomically persist the chain update'')
                  (persist_body P c u st) of
        Inl e \<Rightarrow> (Inl e, st)
      | Inr (inserted, db) \<Rightarrow> (Inr inserted, st\<lparr>sg_database := db\<rparr>))"

subsection \<open>Loading\<close>

fun replay_loop :: "platform \<Rightarrow> bool \<Rightarrow> storage \<Rightarrow> nat \<Rightarrow> block_row list \<Rightarrow> chain \<Rightarrow> chain res" where
  "replay_loop P check_derived_records st index [] c = Inr c"
| "replay_loop P check_derived_records st index (r # rs) c =
     bindE (decode_block_row P (sg_database st) r) (\<lambda>b.
     if ro_parent_hash r \<noteq> (if index = 0 then None else Some (bh_previous_block_hash (bl_header b))) then
       raise StorageIntegrityError ''stored parent hash does not match the block header''
     else
     bindE (decode_u64 (ro_height r) ''block height'') (\<lambda>stored_height.
     if stored_height \<noteq> bh_height (bl_header b) then
       raise StorageIntegrityError ''stored height does not match the block header''
     else
     bindE (if index = 0 then
              bindE (chain_tip c) (\<lambda>tip.
              if b \<noteq> tip then raise StorageIntegrityError ''stored genesis does not match the selected network''
              else
              bindE (block_hash P b) (\<lambda>h.
              if h \<noteq> sg_genesis_hash st then
                raise StorageIntegrityError ''stored genesis does not match the selected network''
              else Inr c))
            else rethrow (\<lambda>k. k = ChainError)
              (\<lambda>_. Exn StorageIntegrityError ''stored block replay failed validation'')
              (case add_block P b c of (Inl e, c) \<Rightarrow> Inl e | (Inr _, c) \<Rightarrow> Inr c)) (\<lambda>c.
     bindE (if check_derived_records then
              bindE (record_from_row r) (\<lambda>stored.
              bindE (block_hash P b) (\<lambda>h.
              bindE (get_record h c) (\<lambda>record.
              if stored \<noteq> record then raise StorageIntegrityError ''stored block record differs from replay''
              else Inr ())))
            else Inr ()) (\<lambda>_.
     replay_loop P check_derived_records st (Suc index) rs c))))"

definition replay_blocks :: "platform \<Rightarrow> bool \<Rightarrow> storage \<Rightarrow> chain res" where
  "replay_blocks P check_derived_records st =
     (let rows = db_blocks (sg_database st) in
      if rows = [] then raise StorageIntegrityError ''database contains no genesis block''
      else bindE (new_chain P (sg_network st)) (replay_loop P check_derived_records st 0 rows))"

definition stored_account :: "pystr \<times> bytes \<times> bytes \<Rightarrow> (pystr \<times> account) res" where
  "stored_account = (\<lambda>(address, balance, nonce).
     bindE (decode_u64 balance ''account balance'') (\<lambda>b.
     bindE (decode_u64 nonce ''account nonce'') (\<lambda>n.
     bindE (new_account b n) (\<lambda>x. Inr (address, x)))))"

text \<open>\<open>ORDER BY address\<close> compares UTF-8 bytes, which is the order of the code points.\<close>

definition stored_state :: "database \<Rightarrow> ((pystr \<times> account) list \<times> bytes set) res" where
  "stored_state db =
     bindE (rethrow is_value_error (\<lambda>_. Exn StorageIntegrityError ''stored account data is invalid'')
              (mapE stored_account (sort_key fst (db_accounts db)))) (\<lambda>accounts.
     bindE (mapE (\<lambda>r. exact_blob (fst r) 32 ''confirmed transaction ID'') (db_confirmed db)) (\<lambda>confirmed.
     Inr (accounts, set confirmed)))"

definition validate_sqlite_integrity :: "storage \<Rightarrow> unit res" where
  "validate_sqlite_integrity st =
     (if \<not> db_intact (sg_database st) then raise StorageIntegrityError ''SQLite integrity_check failed''
      else if \<not> foreign_keys_ok (sg_database st) then
        raise StorageIntegrityError ''SQLite foreign key check failed''
      else Inr ())"

definition canonical_row_matches :: "platform \<Rightarrow> (bytes \<times> bytes) \<times> block \<Rightarrow> unit res" where
  "canonical_row_matches P = (\<lambda>((stored_height, stored_hash), b).
     bindE (decode_u64 stored_height ''canonical height'') (\<lambda>height.
     if height \<noteq> bh_height (bl_header b) then
       raise StorageIntegrityError ''canonical height index differs from replay''
     else
     bindE (exact_blob stored_hash 32 ''canonical block hash'') (\<lambda>stored.
     bindE (block_hash P b) (\<lambda>h.
     if stored \<noteq> h then raise StorageIntegrityError ''canonical height index differs from replay''
     else Inr ()))))"

definition confirmed_pairs :: "platform \<Rightarrow> block \<Rightarrow> (bytes \<times> bytes) list res" where
  "confirmed_pairs P b =
     mapE (\<lambda>t. bindE (txid P t) (\<lambda>i. bindE (block_hash P b) (\<lambda>h. Inr (i, h)))) (bl_transactions b)"

definition validate_derived_state :: "platform \<Rightarrow> chain \<Rightarrow> storage \<Rightarrow> unit res" where
  "validate_derived_state P c st =
     (let db = sg_database st in
     bindE (storage_metadata st) (\<lambda>metadata.
     bindE (exact_blob (me_tip_hash metadata) 32 ''canonical tip hash'') (\<lambda>tip_hash.
     if tip_hash \<noteq> ch_tip c then raise StorageIntegrityError ''stored canonical tip differs from replay''
     else
     bindE (decode_u64 (me_issued_supply metadata) ''metadata issued supply'') (\<lambda>supply.
     bindE (chain_total_supply c) (\<lambda>total_supply.
     if supply \<noteq> total_supply then raise StorageIntegrityError ''stored issued supply differs from replay''
     else
     let canonical_rows = sort_key fst (db_canonical db) in
     bindE (active_chain c) (\<lambda>expected_chain.
     if length canonical_rows \<noteq> length expected_chain then
       raise StorageIntegrityError ''canonical height index differs from replay''
     else
     bindE (mapE (canonical_row_matches P) (zip canonical_rows expected_chain)) (\<lambda>_.
     bindE (stored_state db) (\<lambda>(stored_accounts, stored_confirmed_ids).
     bindE (chain_state P c) (\<lambda>s.
     if stored_accounts \<noteq> snap_accounts (snapshot s) \<or> stored_confirmed_ids \<noteq> snap_txids (snapshot s) then
       raise StorageIntegrityError ''stored account state differs from replay''
     else
     bindE (mapE (\<lambda>r. bindE (exact_blob (fst r) 32 ''confirmed transaction ID'') (\<lambda>i.
                     bindE (exact_blob (snd r) 32 ''confirmed block hash'') (\<lambda>h. Inr (i, h))))
              (db_confirmed db)) (\<lambda>stored_confirmed.
     bindE (mapE (confirmed_pairs P) expected_chain) (\<lambda>expected_confirmed.
     if set stored_confirmed \<noteq> set (concat expected_confirmed) then
       raise StorageIntegrityError ''stored confirmed transaction index differs from replay''
     else Inr ())))))))))))"

definition load_chain :: "platform \<Rightarrow> storage \<Rightarrow> chain res" where
  "load_chain P st =
     bindE (ensure_open st) (\<lambda>_.
     bindE (validate_identity st) (\<lambda>_.
     bindE (validate_sqlite_integrity st) (\<lambda>_.
     bindE (replay_blocks P True st) (\<lambda>c.
     bindE (validate_derived_state P c st) (\<lambda>_. Inr c)))))"

subsection \<open>Reports and the index rebuild\<close>

record storage_info =
  si_schema_version :: int
  si_chain_id :: pystr
  si_genesis_hash :: bytes
  si_database_path :: "pystr list"
  si_height :: int
  si_tip_hash :: bytes
  si_cumulative_work :: int
  si_issued_supply :: int
  si_block_count :: nat
  si_account_count :: nat

definition storage_report :: "storage \<Rightarrow> storage_info res" where
  "storage_report st =
     bindE (ensure_open st) (\<lambda>_.
     bindE (storage_metadata st) (\<lambda>metadata.
     bindE (get_tip_record st) (\<lambda>record.
     bindE (decode_u64 (me_issued_supply metadata) ''metadata issued supply'') (\<lambda>supply.
     Inr \<lparr>si_schema_version = SCHEMA_VERSION, si_chain_id = net_chain_id (sg_network st),
          si_genesis_hash = sg_genesis_hash st, si_database_path = sg_database_path st, si_height = br_height record, si_tip_hash = br_block_hash record,
          si_cumulative_work = br_cumulative_work record, si_issued_supply = supply,
          si_block_count = length (db_blocks (sg_database st)),
          si_account_count = length (db_accounts (sg_database st))\<rparr>))))"

record validation_report =
  vr_block_count :: nat
  vr_account_count :: nat
  vr_height :: int
  vr_tip_hash :: bytes

definition validate_storage :: "platform \<Rightarrow> storage \<Rightarrow> validation_report res" where
  "validate_storage P st =
     bindE (load_chain P st) (\<lambda>c.
     bindE (storage_report st) (\<lambda>info.
     bindE (chain_height c) (\<lambda>height.
     Inr \<lparr>vr_block_count = si_block_count info, vr_account_count = si_account_count info,
          vr_height = height, vr_tip_hash = ch_tip c\<rparr>)))"

definition reindex_row :: "chain \<Rightarrow> bytes \<Rightarrow> database \<Rightarrow> database res" where
  "reindex_row c hash_value db =
     bindE (exact_blob hash_value 32 ''block hash'') (\<lambda>h.
     bindE (get_record h c) (\<lambda>record.
     bindE (encode_work (br_cumulative_work record)) (\<lambda>work.
     bindE (encode_u64 (br_total_supply record)) (\<lambda>issued_supply.
     update_block_row h work issued_supply db))))"

definition reindex :: "platform \<Rightarrow> storage \<Rightarrow> validation_report res \<times> storage" where
  "reindex P st =
     (case bindE (ensure_open st) (\<lambda>_.
           if \<not> db_intact (sg_database st) then raise StorageIntegrityError ''SQLite integrity_check failed''
           else replay_blocks P False st) of
        Inl e \<Rightarrow> (Inl e, st)
      | Inr c \<Rightarrow>
        (case rethrow (\<lambda>k. k = SqliteError)
                (\<lambda>_. Exn StorageError ''SQLite could not atomically rebuild chain indexes'')
                (bindE (foldE (reindex_row c) (map ro_block_hash (db_blocks (sg_database st))) (sg_database st))
                   (replace_derived_state P c)) of
           Inl e \<Rightarrow> (Inl e, st)
         | Inr db \<Rightarrow> let st = st\<lparr>sg_database := db\<rparr> in (validate_storage P st, st)))"

definition close_storage :: "storage \<Rightarrow> storage" where
  "close_storage st = st\<lparr>sg_closed := True\<rparr>"

end
