(* ===== verification/Stored_Chain.thy ===== *)
theory Stored_Chain
  imports Storage
begin

text \<open>
  What the database of a chain holds, and that the code of \<open>storage.py\<close> keeps it. \<open>database_of\<close> gives
  the tables of a chain; a fresh database holds those of the genesis chain, \<open>persist_chain_update\<close>
  turns those of the chain before a block into those after it, and \<open>load_chain\<close> gets the chain back.
\<close>

subsection \<open>Every block of a chain can be stored\<close>

lemma encode_u64_ok: "0 \<le> v \<Longrightarrow> v \<le> U64_MAX \<Longrightarrow> encode_u64 v = Inr (to_bytes_be 8 v)"
  by (simp add: encode_unsigned_range)

definition storable_transaction :: "platform \<Rightarrow> transaction \<Rightarrow> bool" where
  "storable_transaction P t \<longleftrightarrow> transaction_canonical P t
     \<and> (\<exists>bs i. transaction_to_bytes P t = Inr bs \<and> txid P t = Inr i \<and> length i = 32)"

definition storable :: "platform \<Rightarrow> block \<Rightarrow> bool" where
  "storable P b \<longleftrightarrow> header_canonical P (bl_header b) \<and> reward_canonical P (bl_reward b)
     \<and> (\<exists>bs. reward_to_bytes P (bl_reward b) = Inr bs)
     \<and> list_all (storable_transaction P) (bl_transactions b)
     \<and> transactions_root P (bl_reward b) (bl_transactions b) = Inr (bh_transactions_root (bl_header b))"

lemma storable_validated:
  assumes "platform_ok P" and "validate_transaction P t h TESTNET = Inr ()"
  shows "storable_transaction P t"
proof -
  have "transaction_canonical P t"
    using assms transaction_canonicalI [of P TESTNET t h] by (simp add: validate_transaction_iff)
  then show ?thesis
    using assms validated_txid [OF platform_okD(1) [OF assms(1)] assms(2)]
    by (auto simp: storable_transaction_def validate_transaction_iff)
qed

lemma root_reward_bytes:
  "transactions_root P r ts = Inr root \<Longrightarrow> \<exists>bs. reward_to_bytes P r = Inr bs"
  by (auto simp: transactions_root_def reward_txid_def bindE_eq_Inr)

lemma accepted_block_storable:
  assumes P: "platform_ok P" and ok: "state_ok P s"
    and v: "validate_and_execute_block P b (Some parent) s supply TESTNET d = Inr ex"
  shows "storable P b"
proof -
  obtain fees subsidy w where g: "block_guards P b parent supply TESTNET (required_target d parent)"
    and n: "st_network s = TESTNET"
    and st: "settles P s (bh_height (bl_header b)) supply (bh_miner_address (bl_header b)) (bl_transactions b)
         fees subsidy w"
    using v unfolding validate_block_iff [OF ok] by blast
  obtain w1 where "apply_transactions P (bl_transactions b) (bh_height (bl_header b)) s = (Inr fees, w1)"
    using st by (auto simp: settles_def)
  then have "foldE (apply_step P (bh_height (bl_header b))) (bl_transactions b) (0, s) = Inr (fees, w1)"
    using P by (simp add: apply_transactions_iff [OF _ ok])
  then have "list_all (storable_transaction P) (bl_transactions b)"
    using batch_member_valid [OF platform_okD(1) [OF P] ok] storable_validated [OF P] n
    unfolding list_all_iff by metis
  moreover have "canonical_text P (Some MAX_CHAIN_ID_BYTES) (net_chain_id TESTNET)"
    "canonical_text P (Some MAX_ADDRESS_BYTES) (bh_miner_address (bl_header b))"
    using g P chain_id_canonical [of P TESTNET] address_canonical [of P TESTNET]
    by (simp_all add: block_guards_def)
  ultimately show ?thesis
    using g root_reward_bytes by (auto simp: storable_def block_guards_def header_canonical_def reward_canonical_def)
qed

lemma genesis_storable:
  assumes P: "platform_ok P" and g: "genesis_block P TESTNET = Inr b"
  shows "storable P b"
proof -
  have "canonical_text P (Some MAX_CHAIN_ID_BYTES) (net_chain_id TESTNET)"
    "canonical_text P (Some MAX_ADDRESS_BYTES) TESTNET_GENESIS_MINER_ADDRESS"
    using P chain_id_canonical [of P TESTNET] genesis_address_canonical [of P] by simp_all
  then show ?thesis
    using g root_reward_bytes
    by (auto simp: genesis_block_def Let_def bindE_eq_Inr storable_def header_canonical_def reward_canonical_def)
qed

lemma entry_storable:
  assumes t: "tree_ok P c" and e: "map_of (ch_entries c) h = Some e"
  shows "storable P (en_block e)"
proof (cases "br_parent_hash (en_record e)")
  case None
  then show ?thesis using genesis_storable tree_entry [OF t e] t by (auto simp: entry_ok_def tree_ok_def)
next
  case (Some p)
  then obtain pe ex where pe: "map_of (ch_entries c) p = Some pe"
      "validate_and_execute_block P (en_block e) (Some (en_block pe)) (entry_state pe)
         (br_total_supply (en_record pe)) TESTNET (Some (bh_difficulty_target (bl_header (en_block e)))) = Inr ex"
    using tree_entry [OF t e] by (auto simp: entry_ok_def child_ok_def)
  then show ?thesis
    using accepted_block_storable [OF _ entry_okD(4) [OF tree_entry [OF t pe(1)]] pe(2)] t
    by (simp add: tree_ok_def)
qed

text \<open>The header bytes of an entry, and the ranges of its record.\<close>

lemma block_work_bounds: "0 < t \<Longrightarrow> t \<le> MAX_TARGET \<Longrightarrow> 1 \<le> block_work t \<and> block_work t \<le> 2 ^ 255"
proof -
  assume t: "0 < t" "t \<le> MAX_TARGET"
  have "(2::int) ^ 256 div (t + 1) \<le> 2 ^ 256 div 2" using t by (intro zdiv_mono2) auto
  moreover have "1 \<le> (2::int) ^ 256 div (t + 1)" using t by (simp add: MAX_TARGET_def pos_imp_zdiv_pos_iff int_one_le_iff_zero_less)
  ultimately show ?thesis by (simp add: block_work_def)
qed

lemma work_bounds:
  assumes t: "tree_ok P c"
  shows "map_of (ch_entries c) h = Some e \<Longrightarrow> 0 < br_cumulative_work (en_record e)
     \<and> br_cumulative_work (en_record e) \<le> (br_height (en_record e) + 1) * 2 ^ 255"
proof (induction "nat (br_height (en_record e))" arbitrary: h e rule: less_induct)
  case less
  note eo = tree_entry [OF t less.prems]
  note bw = block_work_bounds [OF entry_okD(8,9) [OF eo]]
  show ?case
  proof (cases "br_parent_hash (en_record e)")
    case None
    then show ?thesis using eo bw by (simp add: entry_ok_def)
  next
    case (Some p)
    then obtain pe where pe: "map_of (ch_entries c) p = Some pe" "child_ok P c e pe"
      using eo by (auto simp: entry_ok_def)
    have "0 \<le> br_height (en_record pe)" "br_height (en_record e) = br_height (en_record pe) + 1"
      using entry_okD(2) [OF tree_entry [OF t pe(1)]] pe(2) by (simp_all add: child_ok_def)
    then show ?thesis
      using less.hyps [OF _ pe(1)] pe(2) bw by (simp add: child_ok_def algebra_simps)
  qed
qed

lemma entry_header_bytes:
  assumes t: "tree_ok P c" and e: "map_of (ch_entries c) h = Some e"
  shows "\<exists>bs. header_to_bytes P (bl_header (en_block e)) = Inr bs"
    and "br_height (en_record e) \<le> U64_MAX" and "length h = 32"
proof -
  have bh: "block_hash P (en_block e) = Inr h" by (rule entry_okD(1) [OF tree_entry [OF t e]])
  then obtain bs where bs: "header_to_bytes P (bl_header (en_block e)) = Inr bs" "h = sha256_digest P bs"
    by (auto simp: block_hash_def header_hash_def bindE_eq_Inr)
  then show "\<exists>bs. header_to_bytes P (bl_header (en_block e)) = Inr bs" by blast
  have "\<exists>p. encode_u64 (bh_height (bl_header (en_block e))) = Inr p"
    using bs(1) by (auto simp: header_to_bytes_iff header_fields_def bindE_eq_Inr)
  then show "br_height (en_record e) \<le> U64_MAX"
    using entry_okD(3) [OF tree_entry [OF t e]] by (simp add: encode_unsigned_range)
  have "hash_ok P" using t by (simp add: tree_ok_def)
  then show "length h = 32" using bs(2) by (simp add: sha256_digest_def)
qed

lemma entry_ranges:
  assumes t: "tree_ok P c" and e: "map_of (ch_entries c) h = Some e"
  shows "encode_u64 (br_height (en_record e)) = Inr (to_bytes_be 8 (br_height (en_record e)))"
    and "encode_u64 (br_total_supply (en_record e)) = Inr (to_bytes_be 8 (br_total_supply (en_record e)))"
    and "encode_work (br_cumulative_work (en_record e)) = Inr (to_bytes_be 40 (br_cumulative_work (en_record e)))"
proof -
  note eo = entry_okD [OF tree_entry [OF t e]] and hb = entry_header_bytes [OF t e] and w = work_bounds [OF t e]
  show "encode_u64 (br_height (en_record e)) = Inr (to_bytes_be 8 (br_height (en_record e)))"
    using eo(2) hb(2) by (rule encode_u64_ok)
  have "0 \<le> br_total_supply (en_record e)" "br_total_supply (en_record e) \<le> MAX_SUPPLY_ATOMS"
    using eo(7) emission_bound emission_nonneg by simp_all
  then show "encode_u64 (br_total_supply (en_record e)) = Inr (to_bytes_be 8 (br_total_supply (en_record e)))"
    by (intro encode_u64_ok) (auto simp: supply_constants U64_MAX_def)
  have "br_cumulative_work (en_record e) \<le> (U64_MAX + 1) * 2 ^ 255"
    using w hb(2) by (smt (verit) mult_right_mono zero_le_power)
  then show "encode_work (br_cumulative_work (en_record e)) = Inr (to_bytes_be 40 (br_cumulative_work (en_record e)))"
    using w by (simp add: encode_work_def CUMULATIVE_WORK_BYTES_def U64_MAX_def)
qed

subsection \<open>The tables of a chain\<close>

definition row_of :: "platform \<Rightarrow> bytes \<times> chain_entry \<Rightarrow> block_row" where
  "row_of P = (\<lambda>(h, e).
     \<lparr>ro_block_hash = h, ro_parent_hash = br_parent_hash (en_record e),
      ro_height = to_bytes_be 8 (br_height (en_record e)),
      ro_cumulative_work = to_bytes_be 40 (br_cumulative_work (en_record e)),
      ro_issued_supply = to_bytes_be 8 (br_total_supply (en_record e)),
      ro_header = projr (header_to_bytes P (bl_header (en_block e))),
      ro_reward = projr (reward_to_bytes P (bl_reward (en_block e)))\<rparr>)"

definition body_row_of :: "platform \<Rightarrow> bytes \<Rightarrow> nat \<times> transaction \<Rightarrow> body_row" where
  "body_row_of P h = (\<lambda>(i, t). \<lparr>bt_block_hash = h, bt_position = int i, bt_txid = projr (txid P t),
     bt_bytes = projr (transaction_to_bytes P t)\<rparr>)"

definition body_rows_of :: "platform \<Rightarrow> bytes \<times> chain_entry \<Rightarrow> body_row list" where
  "body_rows_of P = (\<lambda>(h, e). map (body_row_of P h) (enumerate 0 (bl_transactions (en_block e))))"

definition canonical_row :: "platform \<Rightarrow> block \<Rightarrow> bytes \<times> bytes" where
  "canonical_row P b = (to_bytes_be 8 (bh_height (bl_header b)), projr (block_hash P b))"

definition confirmed_rows :: "platform \<Rightarrow> block \<Rightarrow> (bytes \<times> bytes) list" where
  "confirmed_rows P b = map (\<lambda>t. (projr (txid P t), projr (block_hash P b))) (bl_transactions b)"

definition account_row :: "pystr \<times> account \<Rightarrow> pystr \<times> bytes \<times> bytes" where
  "account_row = (\<lambda>(a, x). (a, to_bytes_be 8 (acc_balance x), to_bytes_be 8 (acc_nonce x)))"

definition genesis_hash_of :: "platform \<Rightarrow> bytes" where
  "genesis_hash_of P = ch_tip (projr (new_chain P TESTNET))"

definition chain_blocks :: "chain \<Rightarrow> block list" where
  "chain_blocks c = projr (active_chain c)"

definition tip_entry :: "chain \<Rightarrow> chain_entry" where
  "tip_entry c = the (map_of (ch_entries c) (ch_tip c))"

definition database_of :: "platform \<Rightarrow> chain \<Rightarrow> database" where
  "database_of P c = \<lparr>db_user_version = SCHEMA_VERSION, db_tables = required_tables, db_intact = True,
     db_blocks = map (row_of P) (ch_entries c),
     db_bodies = concat (map (body_rows_of P) (ch_entries c)),
     db_canonical = map (canonical_row P) (chain_blocks c),
     db_accounts = map account_row (sort_key fst (snap_accounts (en_snapshot (tip_entry c)))),
     db_confirmed = concat (map (confirmed_rows P) (chain_blocks c)),
     db_metadata = [\<lparr>me_schema_version = SCHEMA_VERSION, me_chain_id = net_chain_id TESTNET,
       me_genesis_hash = genesis_hash_of P, me_tip_hash = ch_tip c,
       me_issued_supply = to_bytes_be 8 (br_total_supply (en_record (tip_entry c)))\<rparr>]\<rparr>"

subsection \<open>Inserting a block\<close>

lemma constraint_ok: "b \<Longrightarrow> constraint b x = Inr x"
  by (simp add: constraint_def)

lemma body_row_ok:
  "storable_transaction P t \<Longrightarrow> body_row_for P h (i, t) = Inr (body_row_of P h (i, t)) \<and> length (bt_txid (body_row_of P h (i, t))) = 32"
  by (auto simp: storable_transaction_def body_row_for_def body_row_of_def)

lemma insert_bodies:
  "list_all (storable_transaction P) ts \<Longrightarrow> h \<in> block_hashes db \<Longrightarrow>
     \<forall>r \<in> set (db_bodies db). bt_block_hash r = h \<longrightarrow> bt_position r < int n \<Longrightarrow>
     foldE (insert_body P h) (enumerate n ts) db
       = Inr (db\<lparr>db_bodies := db_bodies db @ map (body_row_of P h) (enumerate n ts)\<rparr>)"
proof (induction ts arbitrary: n db)
  case (Cons t ts)
  let ?r = "body_row_of P h (n, t)"
  let ?db = "db\<lparr>db_bodies := db_bodies db @ [?r]\<rparr>"
  have t: "body_row_for P h (n, t) = Inr ?r" "length (bt_txid ?r) = 32"
    using Cons.prems(1) body_row_ok [of P t h n] by simp_all
  have r: "bt_block_hash ?r = h" "bt_position ?r = int n" by (simp_all add: body_row_of_def)
  have "(h, int n) \<notin> (\<lambda>r. (bt_block_hash r, bt_position r)) ` set (db_bodies db)"
    using Cons.prems(3) by force
  then have "insert_body P h (n, t) db = Inr ?db"
    using t Cons.prems(2) by (simp add: insert_body_def insert_body_row_def r constraint_ok)
  moreover have "foldE (insert_body P h) (enumerate (Suc n) ts) ?db
      = Inr (?db\<lparr>db_bodies := db_bodies ?db @ map (body_row_of P h) (enumerate (Suc n) ts)\<rparr>)"
  proof (rule Cons.IH)
    show "list_all (storable_transaction P) ts" using Cons.prems(1) by simp
    show "h \<in> block_hashes ?db" using Cons.prems(2) by (simp add: block_hashes_def)
    show "\<forall>r \<in> set (db_bodies ?db). bt_block_hash r = h \<longrightarrow> bt_position r < int (Suc n)"
      using Cons.prems(3) r by fastforce
  qed
  ultimately show ?case by simp
qed simp

lemma insert_block_spec:
  assumes t: "tree_ok P c" and e: "map_of (ch_entries c) h = Some e"
    and f: "h \<notin> block_hashes db" and b: "h \<notin> bt_block_hash ` set (db_bodies db)"
    and p: "case br_parent_hash (en_record e) of None \<Rightarrow> True | Some p \<Rightarrow> p \<in> block_hashes db"
  shows "insert_block P c h db = Inr (db\<lparr>db_blocks := db_blocks db @ [row_of P (h, e)],
     db_bodies := db_bodies db @ body_rows_of P (h, e)\<rparr>)"
proof -
  note s = entry_storable [OF t e] and r = entry_ranges [OF t e] and hb = entry_header_bytes [OF t e]
  let ?db = "db\<lparr>db_blocks := db_blocks db @ [row_of P (h, e)]\<rparr>"
  obtain hbs rbs where bs: "header_to_bytes P (bl_header (en_block e)) = Inr hbs"
      "reward_to_bytes P (bl_reward (en_block e)) = Inr rbs"
    using hb(1) s by (auto simp: storable_def)
  have ts: "list_all (storable_transaction P) (bl_transactions (en_block e))" using s by (simp add: storable_def)
  have "insert_block_row (row_of P (h, e)) db = Inr ?db"
    unfolding insert_block_row_def
    by (rule constraint_ok) (use f p hb(3) in \<open>auto simp: row_of_def split: option.splits\<close>)
  moreover have "foldE (insert_body P h) (enumerate 0 (bl_transactions (en_block e))) ?db
      = Inr (?db\<lparr>db_bodies := db_bodies ?db @ map (body_row_of P h) (enumerate 0 (bl_transactions (en_block e)))\<rparr>)"
    by (rule insert_bodies [OF ts]) (use b in \<open>auto simp: block_hashes_def row_of_def\<close>)
  ultimately show ?thesis
    using bs r e
    by (simp add: insert_block_def get_block_def get_record_def known_entry_iff [THEN iffD2] row_of_def body_rows_of_def)
qed

subsection \<open>Replacing the derived tables\<close>

definition indexable :: "platform \<Rightarrow> database \<Rightarrow> block \<Rightarrow> bool" where
  "indexable P db b \<longleftrightarrow> list_all (storable_transaction P) (bl_transactions b)
     \<and> 0 \<le> bh_height (bl_header b) \<and> bh_height (bl_header b) \<le> U64_MAX
     \<and> (\<exists>h \<in> block_hashes db. block_hash P b = Inr h)"

lemma insert_confirmed_all:
  assumes "block_hash P b = Inr h"
  shows "list_all (storable_transaction P) ts \<Longrightarrow> h \<in> block_hashes db \<Longrightarrow>
     distinct (map fst (db_confirmed db @ map (\<lambda>t. (projr (txid P t), h)) ts)) \<Longrightarrow>
     foldE (insert_confirmed P b) ts db
       = Inr (db\<lparr>db_confirmed := db_confirmed db @ map (\<lambda>t. (projr (txid P t), h)) ts\<rparr>)"
proof (induction ts arbitrary: db)
  case (Cons t ts)
  let ?r = "(projr (txid P t), h)"
  let ?db = "db\<lparr>db_confirmed := db_confirmed db @ [?r]\<rparr>"
  obtain i where i: "txid P t = Inr i" "length i = 32" using Cons.prems(1) by (auto simp: storable_transaction_def)
  then have "insert_confirmed P b t db = Inr ?db"
    using assms Cons.prems(2,3) by (simp add: insert_confirmed_def insert_confirmed_row_def constraint_def)
  moreover have "foldE (insert_confirmed P b) ts ?db
      = Inr (?db\<lparr>db_confirmed := db_confirmed ?db @ map (\<lambda>t. (projr (txid P t), h)) ts\<rparr>)"
    by (rule Cons.IH) (use Cons.prems in \<open>auto simp: block_hashes_def\<close>)
  ultimately show ?case by simp
qed simp

lemma insert_canonical_all:
  "list_all (indexable P db) bs \<Longrightarrow>
     distinct (map fst (db_canonical db @ map (canonical_row P) bs)) \<Longrightarrow>
     distinct (map snd (db_canonical db @ map (canonical_row P) bs)) \<Longrightarrow>
     distinct (map fst (db_confirmed db @ concat (map (confirmed_rows P) bs))) \<Longrightarrow>
     foldE (insert_canonical P) bs db
       = Inr (db\<lparr>db_canonical := db_canonical db @ map (canonical_row P) bs,
                 db_confirmed := db_confirmed db @ concat (map (confirmed_rows P) bs)\<rparr>)"
proof (induction bs arbitrary: db)
  case (Cons b bs)
  obtain h where h: "block_hash P b = Inr h" "h \<in> block_hashes db" using Cons.prems(1) by (auto simp: indexable_def)
  have b: "list_all (storable_transaction P) (bl_transactions b)"
      "encode_u64 (bh_height (bl_header b)) = Inr (to_bytes_be 8 (bh_height (bl_header b)))"
    using Cons.prems(1) by (auto simp: indexable_def intro: encode_u64_ok)
  let ?d1 = "db\<lparr>db_canonical := db_canonical db @ [canonical_row P b]\<rparr>"
  let ?d2 = "?d1\<lparr>db_confirmed := db_confirmed ?d1 @ confirmed_rows P b\<rparr>"
  have cr: "canonical_row P b = (to_bytes_be 8 (bh_height (bl_header b)), h)"
    "confirmed_rows P b = map (\<lambda>t. (projr (txid P t), h)) (bl_transactions b)"
    by (simp_all add: canonical_row_def confirmed_rows_def h)
  have "insert_canonical_row (canonical_row P b) db = Inr ?d1"
    unfolding insert_canonical_row_def
    by (rule constraint_ok) (use Cons.prems(2,3) h in \<open>auto simp: cr\<close>)
  moreover have "foldE (insert_confirmed P b) (bl_transactions b) ?d1 = Inr ?d2"
    unfolding cr(2) by (rule insert_confirmed_all [OF h(1) b(1)])
      (use Cons.prems(4) h(2) in \<open>simp_all add: block_hashes_def cr Int_Un_distrib\<close>)
  ultimately have 1: "insert_canonical P b db = Inr ?d2"
    using b(2) h by (simp add: insert_canonical_def cr)
  have "indexable P ?d2 = indexable P db" by (simp add: indexable_def block_hashes_def fun_eq_iff)
  then have "foldE (insert_canonical P) bs ?d2 = Inr (?d2\<lparr>db_canonical := db_canonical ?d2 @ map (canonical_row P) bs,
                 db_confirmed := db_confirmed ?d2 @ concat (map (confirmed_rows P) bs)\<rparr>)"
    by (intro Cons.IH) (use Cons.prems in simp_all)
  then show ?case using 1 by simp
qed simp

lemma insert_accounts:
  "list_all (\<lambda>(a, x). account_ok x) as \<Longrightarrow> distinct (map fst (db_accounts db @ map account_row as)) \<Longrightarrow>
     foldE insert_account as db = Inr (db\<lparr>db_accounts := db_accounts db @ map account_row as\<rparr>)"
proof (induction as arbitrary: db)
  case (Cons e as)
  obtain a x where e: "e = (a, x)" by fastforce
  let ?db = "db\<lparr>db_accounts := db_accounts db @ [account_row e]\<rparr>"
  have "insert_account e db = Inr ?db"
    using Cons.prems
    by (auto simp: e insert_account_def account_ok_def encode_u64_ok insert_account_row_def account_row_def constraint_def)
  moreover have "foldE insert_account as ?db = Inr (?db\<lparr>db_accounts := db_accounts ?db @ map account_row as\<rparr>)"
    by (rule Cons.IH) (use Cons.prems in simp_all)
  ultimately show ?case by simp
qed simp

text \<open>The confirmed transactions of a branch: no identifier occurs twice, and they are those of the state.\<close>

definition branch_txids :: "platform \<Rightarrow> block list \<Rightarrow> bytes res list" where
  "branch_txids P bs = concat (map (\<lambda>b. map (txid P) (bl_transactions b)) bs)"

lemma accepted_txids:
  assumes P: "platform_ok P" and ok: "state_ok P s"
    and v: "validate_and_execute_block P b (Some parent) s supply TESTNET d = Inr ex"
  shows "distinct (map (txid P) (bl_transactions b))"
    and "txid P ` set (bl_transactions b) \<inter> Inr ` st_txids s = {}"
    and "Inr ` st_txids (ex_state ex) = txid P ` set (bl_transactions b) \<union> Inr ` st_txids s"
proof -
  obtain fees subsidy w where ex: "ex_state ex = w"
    and st: "settles P s (bh_height (bl_header b)) supply (bh_miner_address (bl_header b)) (bl_transactions b)
         fees subsidy w"
    using v unfolding validate_block_iff [OF ok] by auto
  obtain w1 where "apply_transactions P (bl_transactions b) (bh_height (bl_header b)) s = (Inr fees, w1)"
    using st by (auto simp: settles_def)
  then have r: "foldE (apply_step P (bh_height (bl_header b))) (bl_transactions b) (0, s) = Inr (fees, w1)"
    using P by (simp add: apply_transactions_iff [OF _ ok])
  note bf = batch_fresh [OF platform_okD(1) [OF P] ok r]
  show "distinct (map (txid P) (bl_transactions b))" "txid P ` set (bl_transactions b) \<inter> Inr ` st_txids s = {}"
    using bf by auto
  show "Inr ` st_txids (ex_state ex) = txid P ` set (bl_transactions b) \<union> Inr ` st_txids s"
    using settlesD(7) [OF platform_okD(1) [OF P] ok st] ex by simp
qed

lemma branch_confirmed:
  assumes t: "tree_ok P c"
  shows "branch c h bs \<Longrightarrow> \<forall>e. map_of (ch_entries c) h = Some e \<longrightarrow>
    distinct (branch_txids P (map (block_at c) bs))
    \<and> set (branch_txids P (map (block_at c) bs)) = Inr ` snap_txids (en_snapshot e)"
proof (induction rule: branch.induct)
  case (branch_root h e)
  note eo = tree_entry [OF t branch_root(1)]
  have P: "platform_ok P" using t by (simp add: tree_ok_def)
  obtain g where g: "genesis_block P TESTNET = Inr (en_block e)" "bl_transactions (en_block e) = []"
    using eo branch_root(2) genesis_total [OF P] by (auto simp: entry_ok_def is_genesis_def)
  have "snap_txids (en_snapshot e) = {}" using eo branch_root(2) by (simp add: entry_ok_def)
  then show ?case using branch_root g by (simp add: branch_txids_def block_at_def)
next
  case (branch_child h e p bs)
  note eo = tree_entry [OF t branch_child.hyps(1)]
  have P: "platform_ok P" using t by (simp add: tree_ok_def)
  obtain pe where pe: "map_of (ch_entries c) p = Some pe" "child_ok P c e pe"
    using eo branch_child.hyps(2) by (auto simp: entry_ok_def)
  then obtain ex where v: "validate_and_execute_block P (en_block e) (Some (en_block pe)) (entry_state pe)
        (br_total_supply (en_record pe)) TESTNET (Some (bh_difficulty_target (bl_header (en_block e)))) = Inr ex"
      "snapshot (ex_state ex) = en_snapshot e" by (auto simp: child_ok_def)
  note a = accepted_txids [OF P entry_okD(4) [OF tree_entry [OF t pe(1)]] v(1)]
  have s: "snap_txids (en_snapshot e) = st_txids (ex_state ex)" "st_txids (entry_state pe) = snap_txids (en_snapshot pe)"
    by (simp_all add: v(2) [symmetric] snapshot_def entry_state_def state_of_snapshot_def)
  have b: "block_at c h = en_block e" using branch_child.hyps(1) by (simp add: block_at_def)
  show ?case
    using branch_child.IH pe(1) a s branch_child.hyps(1) by (auto simp: branch_txids_def b)
qed

lemma branch_known:
  assumes t: "tree_ok P c"
  shows "branch c h bs \<Longrightarrow> \<forall>z \<in> set bs. \<exists>e. map_of (ch_entries c) z = Some e \<and> block_at c z = en_block e
     \<and> block_hash P (en_block e) = Inr z"
  by (induction rule: branch.induct) (auto simp: block_at_def dest: entry_okD(1) [OF tree_entry [OF t]])

lemma to_bytes_be_inj:
  "to_bytes_be n a = to_bytes_be n b \<Longrightarrow> 0 \<le> a \<Longrightarrow> a < 256 ^ n \<Longrightarrow> 0 \<le> b \<Longrightarrow> b < 256 ^ n \<Longrightarrow> a = b"
  by (metis from_to_bytes_be_id)

text \<open>The walk down from the tip, and what the derived tables say of it.\<close>

lemma active_branch:
  assumes c: "chain_ok P c"
  obtains bs where "branch c (ch_tip c) bs" and "active_chain c = Inr (chain_blocks c)"
    and "chain_blocks c = rev (map (block_at c) bs)" and "map_of (ch_entries c) (ch_tip c) = Some (tip_entry c)"
proof -
  obtain bs e where "branch c (ch_tip c) bs" "map_of (ch_entries c) (ch_tip c) = Some e"
    "active_chain c = Inr (rev (map (block_at c) bs))"
    by (rule active_chain_spec [OF c])
  then show thesis by (intro that) (simp_all add: chain_blocks_def tip_entry_def)
qed

lemma projr_Inr_set: "set xs = Inr ` A \<Longrightarrow> distinct xs \<Longrightarrow> distinct (map projr xs) \<and> set (map projr xs) = A"
  by (auto simp: distinct_map inj_on_def image_image)

lemma derived_rows:
  assumes c: "chain_ok P c"
  shows "distinct (map fst (map (canonical_row P) (chain_blocks c)))"
    and "distinct (map snd (map (canonical_row P) (chain_blocks c)))"
    and "distinct (map fst (concat (map (confirmed_rows P) (chain_blocks c))))"
    and "fst ` set (concat (map (confirmed_rows P) (chain_blocks c))) = snap_txids (en_snapshot (tip_entry c))"
    and "\<And>b. b \<in> set (chain_blocks c) \<Longrightarrow> \<exists>h e. map_of (ch_entries c) h = Some e \<and> b = en_block e
           \<and> block_hash P b = Inr h"
proof -
  note t = chain_okD(1) [OF c]
  obtain bs where bs: "branch c (ch_tip c) bs" and cb: "chain_blocks c = rev (map (block_at c) bs)"
    and te: "map_of (ch_entries c) (ch_tip c) = Some (tip_entry c)" by (rule active_branch [OF c])
  note k = branch_known [OF t bs] and bh = branch_heights [OF t bs]
  show "\<exists>h e. map_of (ch_entries c) h = Some e \<and> b = en_block e \<and> block_hash P b = Inr h"
    if b: "b \<in> set (chain_blocks c)" for b
    using b k by (fastforce simp: cb)
  have h: "bh_height (bl_header (block_at c z)) = height_of c z" "projr (block_hash P (block_at c z)) = z"
    "0 \<le> height_of c z" "height_of c z < 256 ^ 8" if "z \<in> set bs" for z
  proof -
    obtain e where e: "map_of (ch_entries c) z = Some e" "block_at c z = en_block e" "block_hash P (en_block e) = Inr z"
      using k \<open>z \<in> set bs\<close> by blast
    show "bh_height (bl_header (block_at c z)) = height_of c z" "projr (block_hash P (block_at c z)) = z"
      "0 \<le> height_of c z" "height_of c z < 256 ^ 8"
      using e entry_okD(2,3) [OF tree_entry [OF t e(1)]] entry_header_bytes(2) [OF t e(1)]
      by (simp_all add: height_of_def U64_MAX_def)
  qed
  have 1: "map fst (map (canonical_row P) (chain_blocks c)) = rev (map (\<lambda>z. to_bytes_be 8 (height_of c z)) bs)"
    using h(1) by (simp add: cb rev_map canonical_row_def)
  have "inj_on (\<lambda>z. to_bytes_be 8 (height_of c z)) (set bs)"
    using h(3,4) bh to_bytes_be_inj by (auto simp: inj_on_def distinct_map)
  then show "distinct (map fst (map (canonical_row P) (chain_blocks c)))"
    unfolding 1 using bh by (simp add: distinct_map)
  have 2: "map snd (map (canonical_row P) (chain_blocks c)) = rev bs"
    unfolding cb rev_map [symmetric] map_map comp_def canonical_row_def using h(2) by (simp add: map_idI)
  show "distinct (map snd (map (canonical_row P) (chain_blocks c)))"
    unfolding 2 using bh by (simp add: distinct_map)
  have bc: "distinct (branch_txids P (map (block_at c) bs))"
    "set (branch_txids P (map (block_at c) bs)) = Inr ` snap_txids (en_snapshot (tip_entry c))"
    using branch_confirmed [OF t bs] te by auto
  have 3: "map fst (concat (map (confirmed_rows P) (chain_blocks c))) = map projr (branch_txids P (chain_blocks c))"
    by (simp add: map_concat comp_def confirmed_rows_def branch_txids_def)
  have m: "mset (branch_txids P (rev xs)) = mset (branch_txids P xs)" for xs
    by (induction xs) (simp_all add: branch_txids_def)
  have 4: "distinct (branch_txids P (chain_blocks c))"
    "set (branch_txids P (chain_blocks c)) = Inr ` snap_txids (en_snapshot (tip_entry c))"
    using bc m [of "map (block_at c) bs"] by (metis cb mset_eq_imp_distinct_iff, metis cb mset_eq_setD)
  show "distinct (map fst (concat (map (confirmed_rows P) (chain_blocks c))))"
    unfolding 3 using projr_Inr_set [OF 4(2,1)] by simp
  show "fst ` set (concat (map (confirmed_rows P) (chain_blocks c))) = snap_txids (en_snapshot (tip_entry c))"
    unfolding set_map [symmetric] 3 using projr_Inr_set [OF 4(2,1)] by simp
qed

lemma replace_derived_spec:
  assumes c: "chain_ok P c" and db: "fst ` set (ch_entries c) \<subseteq> block_hashes db" and m: "db_metadata db = [r]"
  shows "replace_derived_state P c db = Inr (db\<lparr>
     db_canonical := db_canonical (database_of P c), db_accounts := db_accounts (database_of P c),
     db_confirmed := db_confirmed (database_of P c),
     db_metadata := [r\<lparr>me_tip_hash := ch_tip c,
       me_issued_supply := to_bytes_be 8 (br_total_supply (en_record (tip_entry c)))\<rparr>]\<rparr>)"
proof -
  note t = chain_okD(1) [OF c] and D = derived_rows [OF c]
  obtain bs where ac: "active_chain c = Inr (chain_blocks c)"
    and te: "map_of (ch_entries c) (ch_tip c) = Some (tip_entry c)" by (rule active_branch [OF c])
  note eo = entry_okD [OF tree_entry [OF t te]]
  let ?d0 = "db\<lparr>db_canonical := [], db_accounts := [], db_confirmed := []\<rparr>"
  have known: "h \<in> block_hashes db" if "map_of (ch_entries c) h = Some e" for h e
    using map_of_SomeD [OF that] db by force
  have "indexable P ?d0 b" if b: "b \<in> set (chain_blocks c)" for b
  proof -
    obtain h e where e: "map_of (ch_entries c) h = Some e" "b = en_block e" "block_hash P b = Inr h"
      using D(5) [OF b] by blast
    then show ?thesis
      using entry_storable [OF t e(1)] entry_okD(2,3) [OF tree_entry [OF t e(1)]] entry_header_bytes(2) [OF t e(1)]
        known [OF e(1)] by (auto simp: indexable_def storable_def block_hashes_def)
  qed
  then have 1: "foldE (insert_canonical P) (chain_blocks c) ?d0 = Inr (?d0\<lparr>
       db_canonical := db_canonical ?d0 @ map (canonical_row P) (chain_blocks c),
       db_confirmed := db_confirmed ?d0 @ concat (map (confirmed_rows P) (chain_blocks c))\<rparr>)" (is "_ = Inr ?d1")
    by (intro insert_canonical_all) (use D(1-3) in \<open>simp_all add: list_all_iff\<close>)
  have cs: "chain_state P c = Inr (entry_state (tip_entry c))"
    using te entry_state_lookup [OF t te] by (simp add: chain_state_def dict_index_def)
  let ?as = "sort_key fst (snap_accounts (en_snapshot (tip_entry c)))"
  have sa: "snap_accounts (snapshot (entry_state (tip_entry c))) = ?as"
    by (simp add: snapshot_def entry_state_def state_of_snapshot_def)
  have so: "state_ok P (entry_state (tip_entry c))" by (rule eo(4))
  then have "list_all (\<lambda>(a, x). account_ok x) ?as" "distinct (map fst ?as)"
    using dict_ok_sort [of "snap_accounts (en_snapshot (tip_entry c))"]
    by (auto simp: state_ok_def entry_state_def state_of_snapshot_def list_all_iff dict_ok_def)
  then have 2: "foldE insert_account ?as ?d1 = Inr (?d1\<lparr>db_accounts := db_accounts ?d1 @ map account_row ?as\<rparr>)"
    by (intro insert_accounts) (simp_all add: account_row_def comp_def case_prod_beta)
  have "ch_tip c \<in> block_hashes db" by (rule known [OF te])
  then show ?thesis
    using ac 1 cs 2 te entry_ranges(2) [OF t te] m
    by (simp add: replace_derived_state_def sa chain_total_supply_def dict_index_def update_metadata_def constraint_def
        database_of_def block_hashes_def)
qed

subsection \<open>Persisting\<close>

lemma branch_head: "branch c h bs \<Longrightarrow> bs \<noteq> [] \<and> hd bs = h"
  by (auto elim: branch.cases)

lemma branch_extends: "branch c h bs \<Longrightarrow> extends c c' \<Longrightarrow> branch c' h bs"
  by (induction rule: branch.induct) (auto intro: branch.intros extends_lookup)

lemma chain_blocks_same:
  assumes c: "chain_ok P c" and c': "chain_ok P c'" and x: "extends c c'" and tip: "ch_tip c' = ch_tip c"
  shows "chain_blocks c' = chain_blocks c" and "tip_entry c' = tip_entry c"
proof -
  obtain bs where bs: "branch c (ch_tip c) bs" "chain_blocks c = rev (map (block_at c) bs)"
      "map_of (ch_entries c) (ch_tip c) = Some (tip_entry c)" by (rule active_branch [OF c])
  obtain bs' where bs': "branch c' (ch_tip c') bs'" "chain_blocks c' = rev (map (block_at c') bs')"
      "map_of (ch_entries c') (ch_tip c') = Some (tip_entry c')" by (rule active_branch [OF c'])
  have "bs' = bs" using branch_fun bs'(1) branch_extends [OF bs(1) x] tip by metis
  moreover have "block_at c' z = block_at c z" if "z \<in> set bs" for z
    using branch_known [OF chain_okD(1) [OF c] bs(1)] that extends_lookup [OF x] by (auto simp: block_at_def)
  ultimately show "chain_blocks c' = chain_blocks c" using bs(2) bs'(2) by simp
  show "tip_entry c' = tip_entry c" using bs(3) bs'(3) extends_lookup [OF x bs(3)] tip by simp
qed

text \<open>An accepted block adds one entry, at the end.\<close>

lemma added_entry:
  assumes c: "chain_ok P c" and a: "add_block P b c = (Inr u, c')"
  obtains h e where "map_of (ch_entries c) h = None" and "ch_entries c' = ch_entries c @ [(h, e)]"
    and "update_ok c h e c' u" and "chain_ok P c'" and "map_of (ch_entries c') h = Some e" and "en_block e = b"
    and "br_parent_hash (en_record e) = Some (bh_previous_block_hash (bl_header b))"
    and "map_of (ch_entries c) (bh_previous_block_hash (bl_header b)) \<noteq> None" and "extends c c'"
proof -
  obtain h e where m: "make_entry P b c = Inr (h, e)" and u: "update_ok c h e c' u"
    using add_block_spec [OF c, of b] a by auto
  note ms = make_entry_spec [OF chain_okD(1) [OF c] m]
  have es: "ch_entries c' = ch_entries c @ [(h, e)]" using u ms(1) by (simp add: update_ok_def update_fresh)
  have "extends c c'"
    using u ms(1) by (auto simp: update_ok_def extends_def map_le_def dom_def)
  moreover have "map_of (ch_entries c) (bh_previous_block_hash (bl_header b)) \<noteq> None"
    using ms(2,3,4) by (auto simp: entry_ok_def)
  moreover have "map_of (ch_entries c') h = Some e" using u by (simp add: update_ok_def)
  ultimately show thesis using that ms(1,3,4) es u add_block_ok [OF c a] by blast
qed

lemma row_of_hash [simp]: "ro_block_hash (row_of P p) = fst p"
  by (cases p) (simp add: row_of_def)

lemma block_hashes_of: "block_hashes (database_of P c) = fst ` set (ch_entries c)"
  by (simp add: block_hashes_def database_of_def image_image)

lemma body_hashes_of: "bt_block_hash ` set (db_bodies (database_of P c)) \<subseteq> fst ` set (ch_entries c)"
  by (force simp: database_of_def body_rows_of_def body_row_of_def split: prod.splits)

lemma find_block_row_None: "find_block_row h db = None \<longleftrightarrow> h \<notin> block_hashes db"
  by (auto simp: find_block_row_def find_None_iff block_hashes_def)

lemma not_entry: "map_of d h = None \<Longrightarrow> h \<notin> fst ` set d"
  by (simp add: map_of_eq_None_iff)

lemma database_of_added:
  assumes "ch_entries c' = ch_entries c @ [(h, e)]"
  shows "db_blocks (database_of P c') = db_blocks (database_of P c) @ [row_of P (h, e)]"
    and "db_bodies (database_of P c') = db_bodies (database_of P c) @ body_rows_of P (h, e)"
  using assms by (simp_all add: database_of_def)

lemma expected_previous:
  assumes "update_ok c h e c' u"
  shows "expected_previous_tip u = Inr (ch_tip c)"
proof (cases "cu_became_active u")
  case True
  then obtain a bs where a: "cu_common_ancestor u = Some a" "branch c' a bs" "branch c' (ch_tip c) (cu_disconnected u @ bs)"
    using assms by (auto simp: update_ok_def fork_def)
  then show ?thesis
    using True branch_head [OF a(2)] branch_head [OF a(3)]
    by (cases "cu_disconnected u") (auto simp: expected_previous_tip_def)
next
  case False
  then show ?thesis using assms by (simp add: expected_previous_tip_def update_ok_def)
qed

definition store_of :: "platform \<Rightarrow> chain \<Rightarrow> storage \<Rightarrow> bool" where
  "store_of P c st \<longleftrightarrow> sg_database st = database_of P c \<and> sg_network st = TESTNET
     \<and> sg_genesis_hash st = genesis_hash_of P \<and> \<not> sg_closed st"

lemma store_metadata:
  assumes "store_of P c st"
  shows "storage_metadata st = Inr (hd (db_metadata (database_of P c)))"
  using assms by (simp add: storage_metadata_def store_of_def ensure_open_def database_of_def)

lemma tip_stored: "me_tip_hash (hd (db_metadata (database_of P c))) = ch_tip c"
  by (simp add: database_of_def)

lemma store_database: "store_of P c st \<Longrightarrow> sg_database st = database_of P c"
  by (simp add: store_of_def)

lemma persist_spec:
  assumes c: "chain_ok P c" and a: "add_block P b c = (Inr u, c')" and st: "store_of P c st"
  shows "persist_chain_update P c' u st = (Inr True, st\<lparr>sg_database := database_of P c'\<rparr>)"
proof -
  obtain h e where f: "map_of (ch_entries c) h = None" and es: "ch_entries c' = ch_entries c @ [(h, e)]"
    and u: "update_ok c h e c' u" and c': "chain_ok P c'" and e: "map_of (ch_entries c') h = Some e"
    and p: "br_parent_hash (en_record e) = Some (bh_previous_block_hash (bl_header b))"
      "map_of (ch_entries c) (bh_previous_block_hash (bl_header b)) \<noteq> None" and x: "extends c c'"
    by (rule added_entry [OF c a])
  note t = chain_okD(1) [OF c] and t' = chain_okD(1) [OF c']
  have added: "cu_added u = h" using u by (simp add: update_ok_def)
  let ?db = "database_of P c"
  have hf: "h \<notin> block_hashes ?db" "h \<notin> bt_block_hash ` set (db_bodies ?db)"
    using not_entry [OF f] subsetD [OF body_hashes_of [of P c], of h] unfolding block_hashes_of by blast+
  have pp: "case br_parent_hash (en_record e) of None \<Rightarrow> True | Some p \<Rightarrow> p \<in> block_hashes ?db"
    using p by (auto simp: block_hashes_of dom_map_of_conv_image_fst [symmetric])
  let ?d1 = "?db\<lparr>db_blocks := db_blocks ?db @ [row_of P (h, e)], db_bodies := db_bodies ?db @ body_rows_of P (h, e)\<rparr>"
  have ib: "insert_block P c' h ?db = Inr ?d1" by (rule insert_block_spec [OF t' e hf pp])
  have "(if cu_became_active u then replace_derived_state P c' ?d1 else Inr ?d1) = Inr (database_of P c')"
  proof (cases "cu_became_active u")
    case True
    have "fst ` set (ch_entries c') \<subseteq> block_hashes ?d1"
      using block_hashes_of [of P c] by (auto simp: es block_hashes_def row_of_def)
    from replace_derived_spec [OF c' this] True database_of_added [OF es, of P] show ?thesis
      by (simp add: database_of_def)
  next
    case False
    then have tip: "ch_tip c' = ch_tip c" using u by (simp add: update_ok_def)
    note cs = chain_blocks_same [OF c c' x tip]
    have "?d1 = database_of P c'"
      by (simp add: database_of_def es cs tip)
    then show ?thesis using False by simp
  qed
  moreover have "length (ch_tip c) = 32"
  proof -
    obtain bs where "map_of (ch_entries c) (ch_tip c) = Some (tip_entry c)" by (rule active_branch [OF c])
    then show ?thesis by (rule entry_header_bytes(3) [OF t])
  qed
  ultimately have "persist_body P c' u st = Inr (True, database_of P c')"
    using ib expected_previous [OF u] hf(1) added
    by (simp add: persist_body_def store_metadata [OF st] store_database [OF st] tip_stored exact_blob_def
        find_block_row_None Let_def)
  then show ?thesis
    using st u e chain_okD(3) [OF c']
    by (simp add: persist_chain_update_def store_of_def ensure_open_def update_ok_def chain_contains_def)
qed

lemma store_of_persisted:
  assumes "store_of P c st"
  shows "store_of P c' (st\<lparr>sg_database := database_of P c'\<rparr>)"
  using assms by (simp add: store_of_def)

lemma initialize_spec:
  assumes P: "platform_ok P" and c: "new_chain P TESTNET = Inr c"
    and st: "sg_database st = blank_database" "sg_network st = TESTNET" "sg_genesis_hash st = genesis_hash_of P"
  shows "initialize_schema P st = (Inr (), st\<lparr>sg_database := database_of P c\<rparr>)"
proof -
  have ok: "chain_ok P c" by (rule new_chain_ok [OF P c])
  note t = chain_okD(1) [OF ok]
  obtain e where es: "ch_entries c = [(ch_tip c, e)]" "br_parent_hash (en_record e) = None"
    using new_chain_entries [OF P c] by blast
  have e: "map_of (ch_entries c) (ch_tip c) = Some e" by (simp add: es)
  have te: "tip_entry c = e" using e by (simp add: tip_entry_def)
  let ?d0 = "created_tables blank_database"
  let ?d1 = "?d0\<lparr>db_blocks := db_blocks ?d0 @ [row_of P (ch_tip c, e)],
     db_bodies := db_bodies ?d0 @ body_rows_of P (ch_tip c, e)\<rparr>"
  have 1: "insert_block P c (ch_tip c) ?d0 = Inr ?d1"
    by (rule insert_block_spec [OF t e])
      (simp_all add: created_tables_def blank_database_def block_hashes_def es(2))
  have bh: "block_hashes ?d1 = {ch_tip c}" by (simp add: block_hashes_def created_tables_def row_of_def)
  let ?r = "\<lparr>me_schema_version = SCHEMA_VERSION, me_chain_id = net_chain_id TESTNET,
        me_genesis_hash = genesis_hash_of P, me_tip_hash = ch_tip c,
        me_issued_supply = to_bytes_be 8 (br_total_supply (en_record e))\<rparr>"
  have gh: "genesis_hash_of P = ch_tip c" by (simp add: genesis_hash_of_def c)
  have 2: "insert_metadata_row ?r ?d1 = Inr (?d1\<lparr>db_metadata := [?r]\<rparr>)"
    unfolding insert_metadata_row_def
    by (rule constraint_ok) (use entry_header_bytes(3) [OF t e] bh in \<open>simp add: created_tables_def gh\<close>)
  have "fst ` set (ch_entries c) \<subseteq> block_hashes (?d1\<lparr>db_metadata := [?r]\<rparr>)"
    using bh by (simp add: es block_hashes_def)
  from replace_derived_spec [OF ok this, of ?r]
  have 3: "replace_derived_state P c (?d1\<lparr>db_metadata := [?r]\<rparr>)
      = Inr ((database_of P c)\<lparr>db_user_version := 0\<rparr>)"
    by (simp add: database_of_def created_tables_def blank_database_def es te)
  have 4: "chain_total_supply c = Inr (br_total_supply (en_record e))" using e by (simp add: chain_total_supply_def dict_index_def)
  have "initial_tables P st c = Inr (database_of P c)"
    using 1 2 3 4 entry_ranges(2) [OF t e] st
    by (simp add: initial_tables_def) (simp add: database_of_def)
  then show ?thesis using st c by (simp add: initialize_schema_def)
qed

subsection \<open>Reading rows back\<close>

lemma to_bytes_be_8: "0 \<le> v \<Longrightarrow> v \<le> U64_MAX \<Longrightarrow> from_bytes_be (to_bytes_be 8 v) = v"
  by (rule from_to_bytes_be_id) (simp_all add: U64_MAX_def)

lemma decode_u64_bytes: "0 \<le> v \<Longrightarrow> v \<le> U64_MAX \<Longrightarrow> decode_u64 (to_bytes_be 8 v) n = Inr v"
  by (simp add: decode_u64_def read_u64_def read_unsigned_def take_bytes_def remaining_def canonical_reader_of_def
      ensure_finished_def to_bytes_be_8)

lemma u64_range: "encode_u64 v = Inr bs \<Longrightarrow> 0 \<le> v \<and> v \<le> U64_MAX"
  by (simp add: encode_unsigned_range)

lemma decode_body_row_ok:
  "storable_transaction P t \<Longrightarrow> decode_body_row P (i, body_row_of P h (i, t)) = Inr t"
  by (auto simp: storable_transaction_def decode_body_row_def body_row_of_def exact_blob_def
      transaction_from_bytes_iff [THEN iffD2])

lemma decode_bodies:
  "list_all (storable_transaction P) ts \<Longrightarrow>
     mapE (decode_body_row P) (enumerate n (map (body_row_of P h) (enumerate n ts))) = Inr ts"
  by (induction ts arbitrary: n) (simp_all add: decode_body_row_ok)

lemma filter_bodies:
  "filter (\<lambda>r. bt_block_hash r = h) (body_rows_of P (h', e)) = (if h' = h then body_rows_of P (h', e) else [])"
  by (auto simp: body_rows_of_def body_row_of_def filter_empty_conv split: prod.splits intro!: filter_True)

lemma filter_all_bodies:
  "distinct (map fst es) \<Longrightarrow> (h, e) \<in> set es \<Longrightarrow>
     filter (\<lambda>r. bt_block_hash r = h) (concat (map (body_rows_of P) es)) = body_rows_of P (h, e)"
proof (induction es)
  case (Cons x es)
  obtain h' e' where x: "x = (h', e')" by (cases x)
  have none: "h \<notin> fst ` set es \<Longrightarrow> filter (\<lambda>r. bt_block_hash r = h) (concat (map (body_rows_of P) es)) = []"
    by (induction es) (auto simp: filter_bodies split: prod.splits)
  show ?case
  proof (cases "h' = h")
    case True
    then have "h \<notin> fst ` set es" "e' = e" using Cons.prems by (auto simp: x image_iff)
    then show ?thesis using none True by (simp add: x filter_bodies)
  next
    case False
    then have "(h, e) \<in> set es" using Cons.prems(2) by (auto simp: x)
    then show ?thesis using Cons.IH Cons.prems(1) False by (simp add: x filter_bodies)
  qed
qed simp

lemma bodies_sorted: "sort_key bt_position (body_rows_of P (h, e)) = body_rows_of P (h, e)"
proof -
  have "map bt_position (body_rows_of P (h, e)) = map int [0..<length (bl_transactions (en_block e))]"
    by (rule nth_equalityI) (simp_all add: body_rows_of_def body_row_of_def nth_enumerate_eq)
  moreover have "sorted (map int [0..<n])" for n by (simp add: sorted_iff_nth_mono)
  ultimately have "sorted (map bt_position (body_rows_of P (h, e)))" by metis
  then show ?thesis by (rule sort_key_id_if_sorted)
qed

lemma stored_block_decodes:
  assumes t: "tree_ok P c" and e: "map_of (ch_entries c) h = Some e"
    and db: "db_bodies db = db_bodies (database_of P c)"
  shows "decode_block_row P db (row_of P (h, e)) = Inr (en_block e)"
proof -
  note s = entry_storable [OF t e] and hb = entry_header_bytes [OF t e] and eo = entry_okD [OF tree_entry [OF t e]]
  obtain hbs rbs where bs: "header_to_bytes P (bl_header (en_block e)) = Inr hbs"
      "reward_to_bytes P (bl_reward (en_block e)) = Inr rbs"
    using hb(1) s by (auto simp: storable_def)
  have r: "ro_block_hash (row_of P (h, e)) = h" "ro_header (row_of P (h, e)) = hbs" "ro_reward (row_of P (h, e)) = rbs"
    by (simp_all add: row_of_def bs)
  have "distinct (map fst (ch_entries c))" using t by (simp add: tree_ok_def dict_ok_def)
  then have "body_rows h db = body_rows_of P (h, e)"
    using filter_all_bodies [OF _ map_of_SomeD [OF e]] by (simp add: body_rows_def db database_of_def bodies_sorted)
  then have b: "mapE (decode_body_row P) (enumerate 0 (body_rows h db)) = Inr (bl_transactions (en_block e))"
    using decode_bodies [of P "bl_transactions (en_block e)" 0 h] s by (simp add: body_rows_of_def storable_def)
  have hr: "header_from_bytes P hbs = Inr (bl_header (en_block e))" "reward_from_bytes P rbs = Inr (bl_reward (en_block e))"
    using s bs by (simp_all add: header_from_bytes_iff reward_from_bytes_iff storable_def)
  obtain x y ts where eb: "en_block e = \<lparr>bl_header = x, bl_reward = y, bl_transactions = ts\<rparr>"
    by (cases "en_block e")
  have root: "transactions_root P y ts = Inr (bh_transactions_root x)" using s by (simp add: storable_def eb)
  have hash: "block_hash P \<lparr>bl_header = x, bl_reward = y, bl_transactions = ts\<rparr> = Inr h" using eo(1) by (simp add: eb)
  show ?thesis
    using hr b unfolding eb by (simp add: decode_block_row_def r exact_blob_def hb(3) hash root)
qed

lemma stored_record_decodes:
  assumes t: "tree_ok P c" and e: "map_of (ch_entries c) h = Some e"
  shows "record_from_row (row_of P (h, e)) = Inr (en_record e)"
proof -
  note r = entry_ranges [OF t e] and hb = entry_header_bytes [OF t e] and eo = tree_entry [OF t e]
  have w: "0 < br_cumulative_work (en_record e)" "br_cumulative_work (en_record e) < 256 ^ 40"
    using r(3) by (auto simp: encode_work_def CUMULATIVE_WORK_BYTES_def split: if_splits)
  have 1: "decode_work (to_bytes_be 40 (br_cumulative_work (en_record e))) = Inr (br_cumulative_work (en_record e))"
    using w by (simp add: decode_work_def CUMULATIVE_WORK_BYTES_def from_to_bytes_be_id)
  have 2: "br_block_hash (en_record e) = h" using eo by (simp add: entry_ok_def)
  have 3: "length p = 32" if "br_parent_hash (en_record e) = Some p" for p
    using entry_parent [OF t e that] entry_header_bytes(3) [OF t] by metis
  have 4: "decode_u64 (to_bytes_be 8 (br_height (en_record e))) n = Inr (br_height (en_record e))"
    "decode_u64 (to_bytes_be 8 (br_total_supply (en_record e))) n = Inr (br_total_supply (en_record e))" for n
    using u64_range [OF r(1)] u64_range [OF r(2)] by (simp_all add: decode_u64_bytes)
  show ?thesis
    using hb(3) 3 2 by (cases "br_parent_hash (en_record e)")
      (simp_all add: record_from_row_def row_of_def exact_blob_def 1 4)
qed

subsection \<open>The order of the rows\<close>

text \<open>Comparing two big-endian encodings of one length byte by byte compares the numbers.\<close>

lemma snoc_less:
  assumes "xs < ys \<or> xs = ys \<and> a < b" and "length xs = length (ys :: 'a::order list)"
  shows "xs @ [a] < ys @ [b]"
  using assms lexord_sufI [of xs ys "{(u, v). u < v}" "[a]" "[b]"]
  by (auto simp: list_less_def intro: lexord_append_leftI)

lemma to_bytes_be_less:
  "0 \<le> a \<Longrightarrow> a < b \<Longrightarrow> b < 256 ^ n \<Longrightarrow> to_bytes_be n a < to_bytes_be n b"
proof (induction n arbitrary: a b)
  case (Suc n)
  have d: "b div 256 < 256 ^ n" using Suc.prems by (simp add: div_less_iff_less_mult)
  show ?case
  proof (cases "a div 256 = b div 256")
    case True
    then have "a mod 256 < b mod 256" using Suc.prems(2) by (metis add_less_cancel_left mult_div_mod_eq)
    then have "(word_of_int a :: byte) < word_of_int b"
      by (simp add: word_less_alt uint_word_of_int)
    then show ?thesis using True by (auto intro!: snoc_less)
  next
    case False
    then have "a div 256 < b div 256" using Suc.prems(2) by (smt (verit) zdiv_mono1)
    then have "to_bytes_be n (a div 256) < to_bytes_be n (b div 256)"
      using Suc.IH [OF _ _ d] Suc.prems(1) by simp
    then show ?thesis by (auto intro!: snoc_less)
  qed
qed simp

lemma branch_sorted:
  assumes t: "tree_ok P c"
  shows "branch c h bs \<Longrightarrow> sorted_wrt (>) (map (height_of c) bs)"
proof (induction rule: branch.induct)
  case (branch_child h e p bs)
  obtain pe where "map_of (ch_entries c) p = Some pe" "br_height (en_record e) = br_height (en_record pe) + 1"
    by (rule entry_parent [OF t branch_child.hyps(1,2)])
  then have "height_of c p < height_of c h" using branch_child.hyps(1) by (simp add: height_of_def)
  then show ?case using branch_child.IH branch_heights [OF t branch_child.hyps(3)] by fastforce
qed simp

lemma canonical_sorted:
  assumes c: "chain_ok P c"
  shows "sort_key fst (map (canonical_row P) (chain_blocks c)) = map (canonical_row P) (chain_blocks c)"
proof -
  note t = chain_okD(1) [OF c]
  obtain bs where bs: "branch c (ch_tip c) bs" and cb: "chain_blocks c = rev (map (block_at c) bs)"
    by (rule active_branch [OF c])
  note k = branch_known [OF t bs] and s = branch_sorted [OF t bs] and bh = branch_heights [OF t bs]
  have h: "bh_height (bl_header (block_at c z)) = height_of c z" "height_of c z < 256 ^ 8" if "z \<in> set bs" for z
  proof -
    obtain e where e: "map_of (ch_entries c) z = Some e" "block_at c z = en_block e" using k \<open>z \<in> set bs\<close> by blast
    show "bh_height (bl_header (block_at c z)) = height_of c z" "height_of c z < 256 ^ 8"
      using e entry_okD(3) [OF tree_entry [OF t e(1)]] entry_header_bytes(2) [OF t e(1)]
      by (simp_all add: height_of_def U64_MAX_def)
  qed
  have "sorted_wrt (\<lambda>y x. height_of c x > height_of c y) (rev bs)" using s by (simp add: sorted_wrt_rev sorted_wrt_map)
  then have "sorted_wrt (\<lambda>x y. fst (canonical_row P (block_at c x)) \<le> fst (canonical_row P (block_at c y))) (rev bs)"
    by (rule sorted_wrt_mono_rel [rotated])
      (use h bh in \<open>auto simp: canonical_row_def intro!: less_imp_le [OF to_bytes_be_less]\<close>)
  then have "sorted (map fst (map (canonical_row P) (chain_blocks c)))"
    by (simp add: cb rev_map sorted_map sorted_wrt_map)
  then show ?thesis by (rule sort_key_id_if_sorted)
qed

subsection \<open>Replaying\<close>

lemma bindE_if: "bindE (if b then x else y) f = (if b then bindE x f else bindE y f)"
  by simp

lemma replay_append:
  "replay_loop P ch st i (rs @ rs') c
     = bindE (replay_loop P ch st i rs c) (replay_loop P ch st (i + length rs) rs')"
  by (induction rs arbitrary: i c) (simp_all add: bindE_assoc bindE_if cong: bindE_cong if_cong)

definition holds_blocks :: "platform \<Rightarrow> chain \<Rightarrow> database \<Rightarrow> bool" where
  "holds_blocks P c db \<longleftrightarrow> (\<forall>(h, e) \<in> set (ch_entries c). \<forall>r. ro_block_hash r = h
     \<longrightarrow> ro_header r = ro_header (row_of P (h, e)) \<longrightarrow> ro_reward r = ro_reward (row_of P (h, e))
     \<longrightarrow> decode_block_row P db r = Inr (en_block e))"

text \<open>A row of the table, its derived columns left out of account.\<close>

definition row_like :: "bool \<Rightarrow> block_row \<Rightarrow> block_row \<Rightarrow> bool" where
  "row_like ch r r' \<longleftrightarrow> r = r' \<or> \<not> ch
     \<and> r\<lparr>ro_cumulative_work := ro_cumulative_work r', ro_issued_supply := ro_issued_supply r'\<rparr> = r'"

lemma row_likeD:
  assumes "row_like ch r r'"
  shows "ro_block_hash r = ro_block_hash r'" "ro_parent_hash r = ro_parent_hash r'" "ro_height r = ro_height r'"
    "ro_header r = ro_header r'" "ro_reward r = ro_reward r'" "ch \<Longrightarrow> r = r'"
  using assms by (cases r; cases r'; auto simp: row_like_def)+

lemma replay_reachable:
  assumes P: "platform_ok P" and c0: "new_chain P TESTNET = Inr c0" and c: "chain_reachable P c"
  shows "holds_blocks P c (sg_database st) \<Longrightarrow> sg_genesis_hash st = genesis_hash_of P \<Longrightarrow>
     list_all2 (row_like ch) rs (map (row_of P) (ch_entries c)) \<Longrightarrow> replay_loop P ch st 0 rs c0 = Inr c"
  using c unfolding chain_reachable_def
proof (induction c arbitrary: rs rule: reach.induct)
  case (reach_start c)
  then have cc: "c = c0" using c0 by simp
  have ok: "chain_ok P c" by (rule new_chain_ok [OF P reach_start(1)])
  note t = chain_okD(1) [OF ok]
  obtain e where es: "ch_entries c = [(ch_tip c, e)]" "br_parent_hash (en_record e) = None"
    using new_chain_entries [OF P reach_start(1)] by blast
  have e: "map_of (ch_entries c) (ch_tip c) = Some e" by (simp add: es)
  obtain r where r: "rs = [r]" "row_like ch r (row_of P (ch_tip c, e))"
    using reach_start.prems(3) by (auto simp: es list_all2_Cons2)
  note rl = row_likeD [OF r(2)]
  have dec: "decode_block_row P (sg_database st) r = Inr (en_block e)"
    using reach_start.prems(1) rl by (simp add: holds_blocks_def es)
  have "block_hash P (en_block e) = Inr (ch_tip c)" by (rule entry_okD(1) [OF tree_entry [OF t e]])
  moreover have "genesis_hash_of P = ch_tip c" by (simp add: genesis_hash_of_def reach_start(1))
  moreover have "chain_tip c = Inr (en_block e)" using e by (simp add: chain_tip_def dict_index_def)
  moreover have "decode_u64 (ro_height r) ''block height'' = Inr (bh_height (bl_header (en_block e)))"
    using u64_range [OF entry_ranges(1) [OF t e]] entry_okD(3) [OF tree_entry [OF t e]]
    by (simp add: rl row_of_def decode_u64_bytes)
  moreover have "ro_parent_hash r = None" by (simp add: rl row_of_def es)
  moreover have "ch \<Longrightarrow> record_from_row r = Inr (en_record e)" using rl(6) stored_record_decodes [OF t e] by simp
  moreover have "get_record (ch_tip c) c = Inr (en_record e)"
    using e by (simp add: get_record_def known_entry_def dict_index_def)
  ultimately show ?case using dec reach_start.prems(2) by (simp add: r cc [symmetric])
next
  case (reach_step c c')
  obtain b x where a: "add_block P b c = (x, c')" using reach_step.hyps(2) by (metis chain_step_def prod.collapse)
  have ok: "chain_ok P c" using reachable_ok [OF P] reach_step.hyps(1) by (simp add: chain_reachable_def)
  show ?case
  proof (cases x)
    case (Inl y)
    then have "c' = c" using add_block_raises [OF ok] a by blast
    then show ?thesis using reach_step.IH reach_step.prems by simp
  next
    case (Inr u)
    obtain h e where es: "ch_entries c' = ch_entries c @ [(h, e)]" and u: "update_ok c h e c' u"
      and ok': "chain_ok P c'" and e: "map_of (ch_entries c') h = Some e" and b: "en_block e = b"
      and p: "br_parent_hash (en_record e) = Some (bh_previous_block_hash (bl_header b))"
      by (rule added_entry [OF ok a [unfolded Inr]])
    note t' = chain_okD(1) [OF ok']
    obtain rs' r where r: "rs = rs' @ [r]" "list_all2 (row_like ch) rs' (map (row_of P) (ch_entries c))"
        "row_like ch r (row_of P (h, e))"
      using reach_step.prems(3) by (auto simp: es list_all2_append2 list_all2_Cons2)
    note rl = row_likeD [OF r(3)]
    have "ch_entries c \<noteq> []" using ok by (auto simp: chain_ok_def tip_heaviest_def)
    then have ne: "length rs' \<noteq> 0" using r(2) list_all2_lengthD by fastforce
    have ih: "replay_loop P ch st 0 rs' c0 = Inr c"
      by (rule reach_step.IH) (use reach_step.prems r(2) in \<open>auto simp: holds_blocks_def es\<close>)
    have dec: "decode_block_row P (sg_database st) r = Inr b"
      using reach_step.prems(1) rl by (simp add: holds_blocks_def es b)
    have "block_hash P b = Inr h" using entry_okD(1) [OF tree_entry [OF t' e]] b by simp
    moreover have "decode_u64 (ro_height r) ''block height'' = Inr (bh_height (bl_header b))"
      using u64_range [OF entry_ranges(1) [OF t' e]] entry_okD(3) [OF tree_entry [OF t' e]] b
      by (simp add: rl row_of_def decode_u64_bytes)
    moreover have "ro_parent_hash r = Some (bh_previous_block_hash (bl_header b))" by (simp add: rl row_of_def p)
    moreover have "ch \<Longrightarrow> record_from_row r = Inr (en_record e)" using rl(6) stored_record_decodes [OF t' e] by simp
    moreover have "get_record h c' = Inr (en_record e)"
      using e by (simp add: get_record_def known_entry_def dict_index_def)
    ultimately have "replay_loop P ch st (length rs') [r] c = Inr c'"
      using dec ne a Inr by simp
    then show ?thesis using ih by (simp add: r replay_append)
  qed
qed

subsection \<open>Loading\<close>

lemma mapE_map: "(\<And>x. x \<in> set xs \<Longrightarrow> f (g x) = Inr (k x)) \<Longrightarrow> mapE f (map g xs) = Inr (map k xs)"
  by (induction xs) simp_all

lemma exact_blob_ok: "length v = n \<Longrightarrow> exact_blob v n s = Inr v"
  by (simp add: exact_blob_def)

lemma holds_blocks_of:
  assumes t: "tree_ok P c" and db: "db_bodies db = db_bodies (database_of P c)"
  shows "holds_blocks P c db"
  unfolding holds_blocks_def
proof (rule ballI)
  fix p assume p: "p \<in> set (ch_entries c)"
  obtain h e where he: "p = (h, e)" by (cases p)
  have "dict_ok (ch_entries c)" using t by (simp add: tree_ok_def)
  then have "map_of (ch_entries c) h = Some e" using p by (simp add: he dict_map_of_iff)
  then have "decode_block_row P db (row_of P (h, e)) = Inr (en_block e)" by (rule stored_block_decodes [OF t _ db])
  then show "case p of (h, e) \<Rightarrow> \<forall>r. ro_block_hash r = h \<longrightarrow> ro_header r = ro_header (row_of P (h, e))
     \<longrightarrow> ro_reward r = ro_reward (row_of P (h, e)) \<longrightarrow> decode_block_row P db r = Inr (en_block e)"
    by (simp add: he decode_block_row_def)
qed

lemma chain_block_facts:
  assumes c: "chain_ok P c" and b: "b \<in> set (chain_blocks c)"
  obtains h where "block_hash P b = Inr h" and "length h = 32" and "list_all (storable_transaction P) (bl_transactions b)"
    and "0 \<le> bh_height (bl_header b)" and "bh_height (bl_header b) \<le> U64_MAX" and "h \<in> fst ` set (ch_entries c)"
proof -
  note t = chain_okD(1) [OF c]
  obtain h e where e: "map_of (ch_entries c) h = Some e" "b = en_block e" "block_hash P b = Inr h"
    using derived_rows(5) [OF c b] by blast
  have "list_all (storable_transaction P) (bl_transactions b)" "h \<in> fst ` set (ch_entries c)"
    using entry_storable [OF t e(1)] e(2) map_of_SomeD [OF e(1)] by (force simp: storable_def)+
  then show thesis
    using that [OF e(3)] entry_okD(2,3) [OF tree_entry [OF t e(1)]] entry_header_bytes(2,3) [OF t e(1)] e(2) by simp
qed

lemma confirmed_row_facts:
  assumes c: "chain_ok P c" and r: "r \<in> set (concat (map (confirmed_rows P) (chain_blocks c)))"
  shows "length (fst r) = 32 \<and> length (snd r) = 32 \<and> snd r \<in> fst ` set (ch_entries c)"
proof -
  obtain b t where b: "b \<in> set (chain_blocks c)" "t \<in> set (bl_transactions b)"
      "r = (projr (txid P t), projr (block_hash P b))"
    using r by (auto simp: confirmed_rows_def)
  obtain h where "block_hash P b = Inr h" "length h = 32" "list_all (storable_transaction P) (bl_transactions b)"
      "h \<in> fst ` set (ch_entries c)" by (rule chain_block_facts [OF c b(1)])
  then show ?thesis using b by (auto simp: list_all_iff storable_transaction_def)
qed

lemma canonical_matches:
  assumes "chain_ok P c"
  shows "mapE (canonical_row_matches P) (zip (map (canonical_row P) (chain_blocks c)) (chain_blocks c))
     = Inr (map (\<lambda>_. ()) (chain_blocks c))"
proof -
  have "canonical_row_matches P (canonical_row P b, b) = Inr ()" if b: "b \<in> set (chain_blocks c)" for b
  proof -
    obtain h where "block_hash P b = Inr h" "length h = 32" "0 \<le> bh_height (bl_header b)"
      "bh_height (bl_header b) \<le> U64_MAX" by (rule chain_block_facts [OF assms b])
    then show ?thesis by (simp add: canonical_row_matches_def canonical_row_def decode_u64_bytes exact_blob_def)
  qed
  then have "mapE (canonical_row_matches P) (map (\<lambda>b. (canonical_row P b, b)) (chain_blocks c))
      = Inr (map (\<lambda>_. ()) (chain_blocks c))" by (rule mapE_map)
  moreover have "zip (map f xs) xs = map (\<lambda>x. (f x, x)) xs" for f :: "block \<Rightarrow> bytes \<times> bytes" and xs
    by (induction xs) simp_all
  ultimately show ?thesis by simp
qed

lemma expected_pairs:
  assumes "chain_ok P c"
  shows "mapE (confirmed_pairs P) (chain_blocks c) = Inr (map (confirmed_rows P) (chain_blocks c))"
proof -
  have "confirmed_pairs P b = Inr (confirmed_rows P b)" if b: "b \<in> set (chain_blocks c)" for b
  proof -
    obtain h where "block_hash P b = Inr h" "list_all (storable_transaction P) (bl_transactions b)"
      by (rule chain_block_facts [OF assms b])
    then show ?thesis
      unfolding confirmed_pairs_def confirmed_rows_def
      by (intro mapE_map [of _ _ "\<lambda>x. x", simplified]) (auto simp: list_all_iff storable_transaction_def)
  qed
  then show ?thesis by (rule mapE_map [of _ _ "\<lambda>x. x", simplified])
qed

lemma stored_state_of:
  assumes c: "chain_ok P c"
  shows "stored_state (database_of P c) = Inr (sort_key fst (snap_accounts (en_snapshot (tip_entry c))),
     snap_txids (en_snapshot (tip_entry c)))"
proof -
  note t = chain_okD(1) [OF c]
  have te: "map_of (ch_entries c) (ch_tip c) = Some (tip_entry c)" by (rule active_branch [OF c])
  let ?as = "sort_key fst (snap_accounts (en_snapshot (tip_entry c)))"
  let ?cs = "concat (map (confirmed_rows P) (chain_blocks c))"
  have f: "fst \<circ> account_row = fst" by (simp add: fun_eq_iff account_row_def case_prod_beta)
  have s: "sort_key fst (map account_row ?as) = map account_row ?as"
    by (intro sort_key_id_if_sorted) (simp add: f)
  have "list_all (\<lambda>(a, x). account_ok x) ?as"
    using entry_okD(4) [OF tree_entry [OF t te]]
    by (auto simp: state_ok_def entry_state_def state_of_snapshot_def list_all_iff)
  then have "stored_account (account_row x) = Inr x" if "x \<in> set ?as" for x
    using that by (cases x) (force simp: stored_account_def account_row_def list_all_iff decode_u64_bytes account_ok_def
        new_account_def)
  then have a: "mapE stored_account (map account_row ?as) = Inr (map (\<lambda>x. x) ?as)" by (intro mapE_map)
  have "mapE (\<lambda>r. exact_blob (fst r) 32 ''confirmed transaction ID'') (map (\<lambda>x. x) ?cs) = Inr (map fst ?cs)"
    by (rule mapE_map) (use confirmed_row_facts [OF c] in \<open>auto simp: exact_blob_def\<close>)
  then have b: "mapE (\<lambda>r. exact_blob (fst r) 32 ''confirmed transaction ID'') ?cs = Inr (map fst ?cs)" by simp
  have d: "db_accounts (database_of P c) = map account_row ?as" "db_confirmed (database_of P c) = ?cs"
    by (simp_all add: database_of_def)
  have "set (map fst ?cs) = snap_txids (en_snapshot (tip_entry c))" using derived_rows(4) [OF c] by simp
  then show ?thesis unfolding stored_state_def d s a b by simp
qed

lemma derived_state_valid:
  assumes c: "chain_ok P c" and st: "store_of P c st"
  shows "validate_derived_state P c st = Inr ()"
proof -
  note t = chain_okD(1) [OF c]
  have ac: "active_chain c = Inr (chain_blocks c)"
    and te: "map_of (ch_entries c) (ch_tip c) = Some (tip_entry c)" using active_branch [OF c] by blast+
  let ?cs = "concat (map (confirmed_rows P) (chain_blocks c))"
  have d: "db_canonical (database_of P c) = map (canonical_row P) (chain_blocks c)"
    "db_confirmed (database_of P c) = ?cs" by (simp_all add: database_of_def)
  have su: "me_issued_supply (hd (db_metadata (database_of P c))) = to_bytes_be 8 (br_total_supply (en_record (tip_entry c)))"
    by (simp add: database_of_def)
  have ts: "chain_total_supply c = Inr (br_total_supply (en_record (tip_entry c)))"
    using te by (simp add: chain_total_supply_def dict_index_def)
  have cs: "chain_state P c = Inr (entry_state (tip_entry c))"
    using te entry_state_lookup [OF t te] by (simp add: chain_state_def dict_index_def)
  have sn: "snapshot (entry_state (tip_entry c)) = \<lparr>snap_accounts = sort_key fst (snap_accounts (en_snapshot (tip_entry c))),
      snap_txids = snap_txids (en_snapshot (tip_entry c))\<rparr>"
    by (simp add: snapshot_def entry_state_def state_of_snapshot_def)
  have "mapE (\<lambda>r. bindE (exact_blob (fst r) 32 ''confirmed transaction ID'') (\<lambda>i.
          bindE (exact_blob (snd r) 32 ''confirmed block hash'') (\<lambda>h. Inr (i, h)))) (map (\<lambda>x. x) ?cs)
      = Inr (map (\<lambda>x. x) ?cs)"
    by (rule mapE_map) (use confirmed_row_facts [OF c] in \<open>auto simp: exact_blob_def\<close>)
  then have cf: "mapE (\<lambda>r. bindE (exact_blob (fst r) 32 ''confirmed transaction ID'') (\<lambda>i.
          bindE (exact_blob (snd r) 32 ''confirmed block hash'') (\<lambda>h. Inr (i, h)))) ?cs = Inr ?cs" by simp
  note 1 = exact_blob_ok [OF entry_header_bytes(3) [OF t te]]
  have 2: "decode_u64 (to_bytes_be 8 (br_total_supply (en_record (tip_entry c)))) n
      = Inr (br_total_supply (en_record (tip_entry c)))" for n
    using u64_range [OF entry_ranges(2) [OF t te]] by (simp add: decode_u64_bytes)
  show ?thesis
    by (simp only: validate_derived_state_def Let_def store_metadata [OF st] store_database [OF st] tip_stored su ts ac cs
        sn d cf 1 2 canonical_sorted [OF c] canonical_matches [OF c] stored_state_of [OF c] expected_pairs [OF c]
        bindE_Inr prod.case length_map simp_thms not_True_eq_False if_False state_snapshot.simps)
qed

lemma identity_valid:
  assumes "length (genesis_hash_of P) = 32" and st: "store_of P c st"
  shows "validate_identity st = Inr ()"
  using assms st unfolding validate_identity_def store_metadata [OF st]
  by (simp add: database_of_def exact_blob_def store_of_def)

lemma foreign_keys_of:
  assumes c: "chain_ok P c"
  shows "foreign_keys_ok (database_of P c)"
proof -
  note t = chain_okD(1) [OF c]
  have d: "dict_ok (ch_entries c)" using t by (simp add: tree_ok_def)
  have te: "map_of (ch_entries c) (ch_tip c) = Some (tip_entry c)" by (rule active_branch [OF c])
  have k1: "case br_parent_hash (en_record e) of None \<Rightarrow> True | Some p \<Rightarrow> p \<in> fst ` set (ch_entries c)"
    if e: "(h, e) \<in> set (ch_entries c)" for h e
  proof -
    have "map_of (ch_entries c) h = Some e" using dict_map_of_iff [OF d] e by simp
    then show ?thesis
    proof (cases "br_parent_hash (en_record e)")
      case (Some p)
      obtain pe where "map_of (ch_entries c) p = Some pe" by (rule entry_parent [OF t \<open>map_of (ch_entries c) h = Some e\<close> Some])
      then show ?thesis using map_of_SomeD Some by force
    qed simp
  qed
  have k2: "snd r \<in> fst ` set (ch_entries c)" if r: "r \<in> set (db_canonical (database_of P c))" for r
  proof -
    obtain b where b: "b \<in> set (chain_blocks c)" "r = canonical_row P b" using r by (auto simp: database_of_def)
    obtain h where "block_hash P b = Inr h" "h \<in> fst ` set (ch_entries c)" by (rule chain_block_facts [OF c b(1)])
    then show ?thesis by (simp add: b canonical_row_def)
  qed
  have k3: "snd r \<in> fst ` set (ch_entries c)" if "r \<in> set (db_confirmed (database_of P c))" for r
    using confirmed_row_facts [OF c] that by (simp add: database_of_def)
  have k4: "ch_tip c \<in> fst ` set (ch_entries c)" using map_of_SomeD [OF te] by force
  have k5: "db_blocks (database_of P c) = map (row_of P) (ch_entries c)" by (simp add: database_of_def)
  show ?thesis
    unfolding foreign_keys_ok_def block_hashes_of list_all_iff
  proof (intro conjI ballI, goal_cases)
    case (1 r)
    then show ?case using k1 unfolding k5 by (auto simp: row_of_def)
  next
    case (2 r)
    then show ?case using subsetD [OF body_hashes_of [of P c]] by blast
  next
    case (5 r)
    then show ?case using k4 by (simp add: database_of_def)
  qed (use k2 k3 in auto)
qed

lemma chain_start: "chain_reachable P c \<Longrightarrow> \<exists>c0. new_chain P TESTNET = Inr c0"
  unfolding chain_reachable_def by (induction rule: reach.induct) auto

lemma genesis_hash_length:
  assumes P: "platform_ok P" and c0: "new_chain P TESTNET = Inr c0"
  shows "length (genesis_hash_of P) = 32"
proof -
  have ok: "chain_ok P c0" by (rule new_chain_ok [OF P c0])
  have "map_of (ch_entries c0) (ch_tip c0) = Some (tip_entry c0)" by (rule active_branch [OF ok])
  then show ?thesis using entry_header_bytes(3) [OF chain_okD(1) [OF ok]] by (simp add: genesis_hash_of_def c0)
qed

lemma load_spec:
  assumes P: "platform_ok P" and c: "chain_reachable P c" and st: "store_of P c st"
  shows "load_chain P st = Inr c"
proof -
  obtain c0 where c0: "new_chain P TESTNET = Inr c0" using chain_start [OF c] by blast
  have ok: "chain_ok P c" by (rule reachable_ok [OF P c])
  note t = chain_okD(1) [OF ok] and db = store_database [OF st]
  have te: "map_of (ch_entries c) (ch_tip c) = Some (tip_entry c)" by (rule active_branch [OF ok])
  have rows: "db_blocks (database_of P c) = map (row_of P) (ch_entries c)" by (simp add: database_of_def)
  have "replay_loop P True st 0 (map (row_of P) (ch_entries c)) c0 = Inr c"
    by (rule replay_reachable [OF P c0 c])
      (use st in \<open>auto simp: db holds_blocks_of [OF t] store_of_def row_like_def list_all2_refl\<close>)
  moreover have "ch_entries c \<noteq> []" using te by auto
  ultimately have "replay_blocks P True st = Inr c"
    using c0 st by (simp add: replay_blocks_def db rows store_of_def)
  moreover have "validate_sqlite_integrity st = Inr ()"
    using foreign_keys_of [OF ok] by (simp add: validate_sqlite_integrity_def db) (simp add: database_of_def)
  moreover have "validate_identity st = Inr ()"
    by (rule identity_valid [OF genesis_hash_length [OF P c0] st])
  ultimately show ?thesis
    using st derived_state_valid [OF ok st] by (simp add: load_chain_def ensure_open_def store_of_def)
qed

text \<open>Whatever the tables hold, a chain that replays from them is one \<open>add_block\<close> can build.\<close>

lemma replay_sound:
  assumes P: "platform_ok P"
  shows "replay_loop P ch st i rs c = Inr c' \<Longrightarrow> chain_reachable P c \<Longrightarrow> 0 < i \<Longrightarrow>
     chain_reachable P c' \<and> map fst (ch_entries c') = map fst (ch_entries c) @ map ro_block_hash rs"
proof (induction rs arbitrary: i c)
  case (Cons r rs)
  obtain b where b: "decode_block_row P (sg_database st) r = Inr b"
    using Cons.prems(1) by (cases "decode_block_row P (sg_database st) r") simp_all
  then have h: "block_hash P b = Inr (ro_block_hash r)"
    by (auto simp: decode_block_row_def bindE_eq_Inr exact_blob_def split: if_splits)
  obtain u c1 where a: "add_block P b c = (Inr u, c1)" and l: "replay_loop P ch st (Suc i) rs c1 = Inr c'"
    using Cons.prems(1,3) b by (auto simp: bindE_eq_Inr split: if_splits prod.splits sum.splits)
  have "chain_step P c c1" using a unfolding chain_step_def by (metis snd_conv)
  then have r1: "chain_reachable P c1" using Cons.prems(2) unfolding chain_reachable_def by (rule reach_step [rotated])
  obtain h' e where e: "ch_entries c1 = ch_entries c @ [(h', e)]" "chain_ok P c1" "map_of (ch_entries c1) h' = Some e"
      "en_block e = b"
    by (rule added_entry [OF reachable_ok [OF P Cons.prems(2)] a])
  then have "h' = ro_block_hash r" using entry_okD(1) [OF tree_entry [OF chain_okD(1)]] h by fastforce
  then show ?case using Cons.IH [OF l r1] e(1) by simp
qed simp

lemma load_sound:
  assumes P: "platform_ok P" and l: "load_chain P st = Inr c"
  shows "chain_reachable P c" and "map ro_block_hash (db_blocks (sg_database st)) = map fst (ch_entries c)"
    and "validate_derived_state P c st = Inr ()"
proof -
  have rp: "replay_blocks P True st = Inr c" and d: "validate_derived_state P c st = Inr ()"
    using l by (auto simp: load_chain_def bindE_eq_Inr)
  show "validate_derived_state P c st = Inr ()" by (rule d)
  obtain r rs c0 where rows: "db_blocks (sg_database st) = r # rs" and c0: "new_chain P (sg_network st) = Inr c0"
    and lp: "replay_loop P True st 0 (r # rs) c0 = Inr c"
    using rp by (cases "db_blocks (sg_database st)"; cases "new_chain P (sg_network st)") (simp_all add: replay_blocks_def)
  have n: "sg_network st = TESTNET" using c0 by (auto simp: new_chain_def split: if_splits)
  have r0: "chain_reachable P c0" using c0 unfolding n chain_reachable_def by (rule reach_start)
  obtain b where b: "decode_block_row P (sg_database st) r = Inr b" "chain_tip c0 = Inr b"
      "replay_loop P True st (Suc 0) rs c0 = Inr c"
    using lp by (cases "decode_block_row P (sg_database st) r") (auto simp: bindE_eq_Inr split: if_splits)
  have ok: "chain_ok P c0" by (rule reachable_ok [OF P r0])
  obtain e where es: "ch_entries c0 = [(ch_tip c0, e)]" using new_chain_entries [OF P c0 [unfolded n]] by blast
  have e: "map_of (ch_entries c0) (ch_tip c0) = Some e" by (simp add: es)
  have "block_hash P b = Inr (ro_block_hash r)"
    using b(1) by (auto simp: decode_block_row_def bindE_eq_Inr exact_blob_def split: if_splits)
  moreover have "en_block e = b" using b(2) e by (simp add: chain_tip_def dict_index_def)
  ultimately have "ro_block_hash r = ch_tip c0" using entry_okD(1) [OF tree_entry [OF chain_okD(1) [OF ok] e]] by simp
  then show "chain_reachable P c" "map ro_block_hash (db_blocks (sg_database st)) = map fst (ch_entries c)"
    using replay_sound [OF P b(3) r0] by (simp_all add: es rows)
qed

subsection \<open>Queries and the rebuilt index\<close>

lemma find_block_row_of:
  assumes "map_of (ch_entries c) h = Some e"
  shows "find_block_row h (database_of P c) = Some (row_of P (h, e))"
proof -
  have "map_of es h = Some e \<Longrightarrow> List.find (\<lambda>r. ro_block_hash r = h) (map (row_of P) es) = Some (row_of P (h, e))" for es
    by (induction es) (auto split: if_splits)
  then show ?thesis using assms by (simp add: find_block_row_def database_of_def)
qed

lemma report_spec:
  assumes c: "chain_ok P c" and st: "store_of P c st"
  shows "storage_report st = Inr \<lparr>si_schema_version = SCHEMA_VERSION, si_chain_id = net_chain_id TESTNET,
     si_genesis_hash = genesis_hash_of P, si_database_path = sg_database_path st, si_height = br_height (en_record (tip_entry c)), si_tip_hash = ch_tip c,
     si_cumulative_work = br_cumulative_work (en_record (tip_entry c)),
     si_issued_supply = br_total_supply (en_record (tip_entry c)), si_block_count = length (ch_entries c),
     si_account_count = length (snap_accounts (en_snapshot (tip_entry c)))\<rparr>"
proof -
  note t = chain_okD(1) [OF c]
  have te: "map_of (ch_entries c) (ch_tip c) = Some (tip_entry c)" by (rule active_branch [OF c])
  have 1: "get_tip_record st = Inr (en_record (tip_entry c))"
    using find_block_row_of [OF te, of P] stored_record_decodes [OF t te] entry_header_bytes(3) [OF t te]
    by (simp add: get_tip_record_def store_metadata [OF st] store_database [OF st] tip_stored exact_blob_ok
        stored_block_row_def)
  have 2: "decode_u64 (me_issued_supply (hd (db_metadata (database_of P c)))) n
      = Inr (br_total_supply (en_record (tip_entry c)))" for n
    using u64_range [OF entry_ranges(2) [OF t te]] by (simp add: database_of_def decode_u64_bytes)
  have 3: "br_block_hash (en_record (tip_entry c)) = ch_tip c" using tree_entry [OF t te] by (simp add: entry_ok_def)
  have 4: "length (db_blocks (database_of P c)) = length (ch_entries c)"
    "length (db_accounts (database_of P c)) = length (snap_accounts (en_snapshot (tip_entry c)))"
    by (simp_all add: database_of_def)
  show ?thesis
    using st by (simp add: storage_report_def store_metadata [OF st] store_database [OF st] 1 2 3 4)
      (simp add: store_of_def ensure_open_def)
qed

text \<open>The database of a chain with everything that \<open>reindex\<close> recomputes left open.\<close>

definition blocks_of_chain :: "platform \<Rightarrow> chain \<Rightarrow> database \<Rightarrow> bool" where
  "blocks_of_chain P c db \<longleftrightarrow>
     list_all2 (row_like False) (db_blocks db) (db_blocks (database_of P c)) \<and> db_bodies db = db_bodies (database_of P c)
   \<and> db_user_version db = SCHEMA_VERSION \<and> db_tables db = required_tables \<and> db_intact db
   \<and> (\<exists>r. db_metadata db = [r] \<and> me_schema_version r = SCHEMA_VERSION \<and> me_chain_id r = net_chain_id TESTNET
        \<and> me_genesis_hash r = genesis_hash_of P)"

definition reindexed_row :: "chain \<Rightarrow> block_row \<Rightarrow> block_row" where
  "reindexed_row c r = (case map_of (ch_entries c) (ro_block_hash r) of None \<Rightarrow> r | Some e \<Rightarrow>
     r\<lparr>ro_cumulative_work := to_bytes_be 40 (br_cumulative_work (en_record e)),
       ro_issued_supply := to_bytes_be 8 (br_total_supply (en_record e))\<rparr>)"

lemma reindex_rows:
  assumes t: "tree_ok P c"
  shows "set hs \<subseteq> fst ` set (ch_entries c) \<Longrightarrow> foldE (reindex_row c) hs db = Inr (db\<lparr>db_blocks :=
     map (\<lambda>r. if ro_block_hash r \<in> set hs then reindexed_row c r else r) (db_blocks db)\<rparr>)"
proof (induction hs arbitrary: db)
  case (Cons h hs)
  have d: "dict_ok (ch_entries c)" using t by (simp add: tree_ok_def)
  obtain e where e: "map_of (ch_entries c) h = Some e" using Cons.prems dict_map_of_iff [OF d] by fastforce
  have gr: "get_record h c = Inr (en_record e)" using e by (simp add: get_record_def known_entry_def dict_index_def)
  let ?db = "db\<lparr>db_blocks := map (\<lambda>r. if ro_block_hash r = h then reindexed_row c r else r) (db_blocks db)\<rparr>"
  have 1: "reindex_row c h db = Inr ?db"
    by (simp add: reindex_row_def exact_blob_ok entry_header_bytes(3) [OF t e] gr entry_ranges [OF t e]
        update_block_row_def constraint_def reindexed_row_def e cong: if_cong)
  have rh: "ro_block_hash (reindexed_row c r) = ro_block_hash r" for r
    by (simp add: reindexed_row_def split: option.splits)
  have rr: "reindexed_row c (reindexed_row c r) = reindexed_row c r" for r
    by (simp add: reindexed_row_def split: option.splits)
  show ?case using 1 Cons.IH [of ?db] Cons.prems by (auto simp: rh rr)
qed simp

lemma reindexed_rows_like:
  assumes t: "tree_ok P c" and l: "list_all2 (row_like False) rs (map (row_of P) es)" and es: "set es \<subseteq> set (ch_entries c)"
  shows "map (reindexed_row c) rs = map (row_of P) es" and "map ro_block_hash rs = map fst es"
proof -
  have d: "dict_ok (ch_entries c)" using t by (simp add: tree_ok_def)
  have r: "reindexed_row c r = row_of P (h, e) \<and> ro_block_hash r = h"
    if r: "row_like False r (row_of P (h, e))" and e: "(h, e) \<in> set (ch_entries c)" for r h e
  proof -
    have "map_of (ch_entries c) h = Some e" using dict_map_of_iff [OF d] e by simp
    then show ?thesis using row_likeD [OF r] by (cases r) (simp add: reindexed_row_def row_of_def)
  qed
  have "list_all2 (row_like False) rs (map (row_of P) es) \<Longrightarrow> set es \<subseteq> set (ch_entries c) \<Longrightarrow>
     map (reindexed_row c) rs = map (row_of P) es \<and> map ro_block_hash rs = map fst es" for rs es
    by (induction es arbitrary: rs) (auto simp: list_all2_Cons2 r)
  then show "map (reindexed_row c) rs = map (row_of P) es" "map ro_block_hash rs = map fst es" using l es by blast+
qed

lemma reindex_spec:
  assumes P: "platform_ok P" and c: "chain_reachable P c" and b: "blocks_of_chain P c (sg_database st)"
    and st: "sg_network st = TESTNET" "sg_genesis_hash st = genesis_hash_of P" "\<not> sg_closed st"
  shows "reindex P st = (Inr \<lparr>vr_block_count = length (ch_entries c),
     vr_account_count = length (snap_accounts (en_snapshot (tip_entry c))),
     vr_height = br_height (en_record (tip_entry c)), vr_tip_hash = ch_tip c\<rparr>, st\<lparr>sg_database := database_of P c\<rparr>)"
proof -
  let ?db = "sg_database st" and ?st = "st\<lparr>sg_database := database_of P c\<rparr>"
  obtain c0 where c0: "new_chain P TESTNET = Inr c0" using chain_start [OF c] by blast
  have ok: "chain_ok P c" by (rule reachable_ok [OF P c])
  note t = chain_okD(1) [OF ok]
  have te: "map_of (ch_entries c) (ch_tip c) = Some (tip_entry c)" by (rule active_branch [OF ok])
  have rows: "list_all2 (row_like False) (db_blocks ?db) (map (row_of P) (ch_entries c))"
    using b by (simp add: blocks_of_chain_def database_of_def)
  have "db_bodies ?db = db_bodies (database_of P c)" using b by (simp add: blocks_of_chain_def)
  then have "replay_loop P False st 0 (db_blocks ?db) c0 = Inr c"
    by (intro replay_reachable [OF P c0 c holds_blocks_of [OF t] st(2) rows])
  moreover have "db_blocks ?db \<noteq> []" using te rows by auto
  ultimately have rp: "replay_blocks P False st = Inr c" using c0 st(1) by (simp add: replay_blocks_def)
  note rr = reindexed_rows_like [OF t rows subset_refl]
  have "foldE (reindex_row c) (map ro_block_hash (db_blocks ?db)) ?db = Inr (?db\<lparr>db_blocks :=
     map (\<lambda>r. if ro_block_hash r \<in> set (map ro_block_hash (db_blocks ?db)) then reindexed_row c r else r) (db_blocks ?db)\<rparr>)"
    by (rule reindex_rows [OF t]) (simp add: rr(2))
  also have "map (\<lambda>r. if ro_block_hash r \<in> set (map ro_block_hash (db_blocks ?db)) then reindexed_row c r else r) (db_blocks ?db)
      = map (row_of P) (ch_entries c)" unfolding rr(1) [symmetric] by simp
  finally have fold: "foldE (reindex_row c) (map ro_block_hash (db_blocks ?db)) ?db
      = Inr (?db\<lparr>db_blocks := map (row_of P) (ch_entries c)\<rparr>)" .
  obtain r where r: "db_metadata ?db = [r]" "me_schema_version r = SCHEMA_VERSION" "me_chain_id r = net_chain_id TESTNET"
      "me_genesis_hash r = genesis_hash_of P"
    using b by (auto simp: blocks_of_chain_def)
  have "replace_derived_state P c (?db\<lparr>db_blocks := map (row_of P) (ch_entries c)\<rparr>) = Inr (database_of P c)"
    using b r replace_derived_spec [OF ok, of "?db\<lparr>db_blocks := map (row_of P) (ch_entries c)\<rparr>" r]
    by (simp add: block_hashes_def image_image blocks_of_chain_def database_of_def)
  moreover have s: "store_of P c ?st" using st by (simp add: store_of_def)
  moreover have "validate_storage P ?st = Inr \<lparr>vr_block_count = length (ch_entries c),
     vr_account_count = length (snap_accounts (en_snapshot (tip_entry c))),
     vr_height = br_height (en_record (tip_entry c)), vr_tip_hash = ch_tip c\<rparr>"
    using load_spec [OF P c s] report_spec [OF ok s] te by (simp add: validate_storage_def chain_height_def dict_index_def)
  moreover have "db_intact ?db" using b by (simp add: blocks_of_chain_def)
  ultimately show ?thesis
    using rp fold st(3) by (simp add: reindex_def ensure_open_def Let_def)
qed

text \<open>The file of a network's database, and what \<open>open\<close> makes of it.\<close>

definition database_file :: "platform \<Rightarrow> pystr list \<Rightarrow> pystr list" where
  "database_file P dir = dir @ [net_chain_id TESTNET, bytes_hex (genesis_hash_of P), DATABASE_FILENAME]"

lemma open_spec:
  assumes P: "platform_ok P" and c: "chain_reachable P c"
    and f: "map_of files (database_file P dir) = Some (database_of P c)
          \<or> map_of files (database_file P dir) = None \<and> new_chain P TESTNET = Inr c"
  shows "open_storage P dir TESTNET True files = (Inr \<lparr>sg_database = database_of P c, sg_network = TESTNET,
     sg_genesis_hash = genesis_hash_of P, sg_database_path = database_file P dir, sg_closed = False\<rparr>, AList.update (database_file P dir) (database_of P c) files)"
proof -
  obtain c0 where c0: "new_chain P TESTNET = Inr c0" using chain_start [OF c] by blast
  then have g: "ch_tip c0 = genesis_hash_of P" by (simp add: genesis_hash_of_def)
  have "safe_chain_id (net_chain_id TESTNET)" by (simp add: TESTNET_def safe_chain_id_def str_def)
  then have path: "database_path_for_identity dir (net_chain_id TESTNET) (genesis_hash_of P) = Inr (database_file P dir)"
    by (simp add: database_path_for_identity_def database_file_def genesis_hash_length [OF P c0])
  let ?st = "\<lambda>db. \<lparr>sg_database = db, sg_network = TESTNET, sg_genesis_hash = genesis_hash_of P, sg_database_path = database_file P dir, sg_closed = False\<rparr>"
  show ?thesis
  proof (cases "map_of files (database_file P dir)")
    case None
    then have "new_chain P TESTNET = Inr c" using f by simp
    then have "initialize_schema P (?st blank_database) = (Inr (), ?st (database_of P c))"
      using initialize_spec [OF P, of c "?st blank_database"] by simp
    then have "open_or_initialize P False True (?st blank_database) = (Inr (), ?st (database_of P c))"
      by (simp add: open_or_initialize_def) (simp add: blank_database_def)
    then show ?thesis using None
      by (simp add: open_storage_def require_supported_network_def c0 g path)
  next
    case (Some db)
    then have db: "db = database_of P c" using f by simp
    have "store_of P c (?st db)" by (simp add: store_of_def db)
    then have "validate_identity (?st db) = Inr ()" by (rule identity_valid [OF genesis_hash_length [OF P c0]])
    then have "open_or_initialize P True True (?st db) = (Inr (), ?st db)"
      by (simp add: open_or_initialize_def db) (simp add: database_of_def SCHEMA_VERSION_def validate_schema_tables_def)
    then show ?thesis using Some
      by (simp add: open_storage_def require_supported_network_def c0 g path db)
  qed
qed

lemma persist_again:
  assumes c: "chain_ok P c" and a: "add_block P b c = (Inr u, c')" and st: "store_of P c' st"
  shows "persist_chain_update P c' u st = (Inr False, st)"
proof -
  obtain h e where u: "update_ok c h e c' u" and c': "chain_ok P c'" and e: "map_of (ch_entries c') h = Some e"
    by (rule added_entry [OF c a])
  note t' = chain_okD(1) [OF c'] and db = store_database [OF st]
  have te: "map_of (ch_entries c') (ch_tip c') = Some (tip_entry c')" by (rule active_branch [OF c'])
  have h: "cu_added u = h" "cu_active_tip u = ch_tip c'" using u by (auto simp: update_ok_def)
  note f = find_block_row_of [OF e, of P] and l = exact_blob_ok [OF entry_header_bytes(3) [OF t' e]]
  have gb: "get_block h c' = Inr (en_block e)" "get_record h c' = Inr (en_record e)"
    using e by (simp_all add: get_block_def get_record_def known_entry_def dict_index_def)
  have "assert_stored_block_matches P c' h st = Inr ()"
    using stored_block_decodes [OF t' e refl] stored_record_decodes [OF t' e]
    by (simp add: assert_stored_block_matches_def stored_block_row_def db f l gb)
  then have "persist_body P c' u st = Inr (False, database_of P c')"
    using exact_blob_ok [OF entry_header_bytes(3) [OF t' te]]
    by (simp add: persist_body_def store_metadata [OF st] tip_stored db h f)
  then show ?thesis
    using st e h chain_okD(3) [OF c']
    by (simp add: persist_chain_update_def store_of_def ensure_open_def chain_contains_def)
qed

text \<open>A store to apply the theorems at.\<close>

definition sample_store :: "chain \<Rightarrow> storage" where
  "sample_store c = \<lparr>sg_database = database_of sample_platform c, sg_network = TESTNET,
     sg_genesis_hash = genesis_hash_of sample_platform,
     sg_database_path = [], sg_closed = False\<rparr>"

lemma sample_store_of: "store_of sample_platform c (sample_store c)"
  by (simp add: store_of_def sample_store_def)

subsection \<open>Properties\<close>

text \<open>C14. \<open>persist_refines_chain\<close>: if the database holds the tables of a chain and a block is added to the
  chain, persisting the update succeeds and leaves exactly the tables of the chain after it; persisting
  the same update again reports that it was stored already and changes nothing.\<close>

theorem persist_refines_chain:
  assumes "platform_ok P" and "chain_reachable P c" and "store_of P c st" and "add_block P b c = (Inr u, c')"
  shows "persist_chain_update P c' u st = (Inr True, st\<lparr>sg_database := database_of P c'\<rparr>)
     \<and> persist_chain_update P c' u (st\<lparr>sg_database := database_of P c'\<rparr>)
         = (Inr False, st\<lparr>sg_database := database_of P c'\<rparr>)"
  using persist_spec persist_again store_of_persisted assms reachable_ok by metis

lemma persist_refines_chain_witness:
  "\<exists>u. fst (persist_chain_update sample_platform sample_chain_2 u (sample_store sample_chain)) = Inr True"
proof -
  obtain u where "add_block sample_platform sample_next sample_chain = (Inr u, sample_chain_2)"
    using sample_next_added by (auto simp: sample_chain_2_def)
  from persist_refines_chain [OF sample_platform_ok sample_chain_reachable sample_store_of this]
  have "fst (persist_chain_update sample_platform sample_chain_2 u (sample_store sample_chain)) = Inr True" by simp
  then show ?thesis by blast
qed

text \<open>\<open>open_restores_chain\<close>: opening creates the database of the genesis chain where there was no file,
  keeps the one it finds, and loading it gives back the very chain that was stored: every branch, every
  record and the tip.\<close>

theorem open_restores_chain:
  assumes "platform_ok P" and "chain_reachable P c"
    and "map_of files (database_file P dir) = Some (database_of P c)
       \<or> map_of files (database_file P dir) = None \<and> new_chain P TESTNET = Inr c"
  shows "\<exists>st. open_storage P dir TESTNET True files = (Inr st, AList.update (database_file P dir) (database_of P c) files)
     \<and> store_of P c st \<and> load_chain P st = Inr c"
  using open_spec [OF assms] load_spec [OF assms(1,2)] by (simp add: store_of_def)

lemma open_restores_chain_witness:
  "\<exists>st. open_storage sample_platform [] TESTNET True [(database_file sample_platform [], database_of sample_platform sample_chain_2)]
        = (Inr st, [(database_file sample_platform [], database_of sample_platform sample_chain_2)])
     \<and> load_chain sample_platform st = Inr sample_chain_2"
  using open_restores_chain [OF sample_platform_ok sample_chain_2_reachable,
    of "[(database_file sample_platform [], database_of sample_platform sample_chain_2)]" "[]"] by auto

text \<open>C17. \<open>loaded_chain_is_valid\<close>: whatever the tables hold, a chain that \<open>load_chain\<close> returns is one that
  \<open>add_block\<close> builds from genesis; its blocks are the stored ones in their order, and the stored tip,
  accounts and confirmed identifiers are those of its tip.\<close>

theorem loaded_chain_is_valid:
  assumes "platform_ok P" and "load_chain P st = Inr c"
  shows "chain_reachable P c \<and> map ro_block_hash (db_blocks (sg_database st)) = map fst (ch_entries c)
     \<and> (\<exists>m s. storage_metadata st = Inr m \<and> me_tip_hash m = ch_tip c \<and> chain_state P c = Inr s
          \<and> stored_state (sg_database st) = Inr (snap_accounts (snapshot s), snap_txids (snapshot s)))"
proof -
  have d: "validate_derived_state P c st = Inr ()" by (rule load_sound(3) [OF assms])
  obtain m where m: "storage_metadata st = Inr m"
    using d by (cases "storage_metadata st") (simp_all add: validate_derived_state_def)
  have "me_tip_hash m = ch_tip c \<and> (\<exists>s. chain_state P c = Inr s
          \<and> stored_state (sg_database st) = Inr (snap_accounts (snapshot s), snap_txids (snapshot s)))"
    using d by (auto simp: validate_derived_state_def m Let_def bindE_eq_Inr exact_blob_def split: if_splits)
  then show ?thesis using load_sound(1,2) [OF assms] m by blast
qed

lemma loaded_chain_is_valid_witness:
  "map ro_block_hash (db_blocks (sg_database (sample_store sample_chain_2))) = map fst (ch_entries sample_chain_2)"
  using loaded_chain_is_valid [OF sample_platform_ok
    load_spec [OF sample_platform_ok sample_chain_2_reachable sample_store_of]] by blast

text \<open>\<open>reindex_restores_index\<close>: if only the blocks, their bodies and the identity of a database are
  intact, and the work and supply columns, the canonical index, the accounts and the confirmed
  transactions are lost, \<open>reindex\<close> restores the database of the chain, validates it and reports its tip.\<close>

theorem reindex_restores_index:
  assumes "platform_ok P" and "chain_reachable P c" and "blocks_of_chain P c (sg_database st)"
    and "sg_network st = TESTNET" and "sg_genesis_hash st = genesis_hash_of P" and "\<not> sg_closed st"
  shows "\<exists>r. reindex P st = (Inr r, st\<lparr>sg_database := database_of P c\<rparr>) \<and> vr_tip_hash r = ch_tip c
     \<and> vr_block_count r = length (ch_entries c) \<and> chain_height c = Inr (vr_height r)"
proof -
  have "map_of (ch_entries c) (ch_tip c) = Some (tip_entry c)" by (rule active_branch [OF reachable_ok [OF assms(1,2)]])
  then show ?thesis using reindex_spec [OF assms] by (simp add: chain_height_def dict_index_def)
qed

lemma reindex_restores_index_witness:
  "\<exists>r. fst (reindex sample_platform ((sample_store sample_chain_2)\<lparr>sg_database :=
      (database_of sample_platform sample_chain_2)\<lparr>db_canonical := [], db_accounts := [], db_confirmed := []\<rparr>\<rparr>)) = Inr r
     \<and> vr_tip_hash r = ch_tip sample_chain_2"
proof -
  let ?db = "(database_of sample_platform sample_chain_2)\<lparr>db_canonical := [], db_accounts := [], db_confirmed := []\<rparr>"
  let ?st = "(sample_store sample_chain_2)\<lparr>sg_database := ?db\<rparr>"
  have "blocks_of_chain sample_platform sample_chain_2 ?db"
    by (simp add: blocks_of_chain_def) (simp add: database_of_def row_like_def list_all2_refl)
  then have "blocks_of_chain sample_platform sample_chain_2 (sg_database ?st)" by simp
  moreover have "sg_network ?st = TESTNET" "sg_genesis_hash ?st = genesis_hash_of sample_platform" "\<not> sg_closed ?st"
    by (simp_all add: sample_store_def)
  ultimately show ?thesis
    using reindex_restores_index [OF sample_platform_ok sample_chain_2_reachable, of ?st] by (metis fst_conv)
qed

end
