(* ===== verification/Base64.thy ===== *)
theory Base64
  imports Python_Codecs
begin

text \<open>
  \<open>base64.b64encode\<close> and \<open>base64.b64decode(..., validate=True)\<close> of the standard library, which
  \<open>wallet.py\<close> uses. The decoder is the loop of \<open>binascii.a2b_base64\<close> in strict mode, with its
  position in the current group of four, the bits left over, the padding seen and the output so
  far; like that loop it ignores padding after a complete group.
\<close>

definition b64_char :: "nat \<Rightarrow> nat" where
  "b64_char v = (if v < 26 then 65 + v else if v < 52 then 71 + v else if v < 62 then v - 4
     else if v = 62 then 43 else 47)"

definition b64_value :: "nat \<Rightarrow> nat option" where
  "b64_value c = (if 65 \<le> c \<and> c \<le> 90 then Some (c - 65) else if 97 \<le> c \<and> c \<le> 122 then Some (c - 71)
     else if 48 \<le> c \<and> c \<le> 57 then Some (c + 4) else if c = 43 then Some 62 else if c = 47 then Some 63 else None)"

fun b64encode :: "bytes \<Rightarrow> pystr" where
  "b64encode [] = []"
| "b64encode [a] = [b64_char (unat a div 4), b64_char (unat a mod 4 * 16), 61, 61]"
| "b64encode [a, b] = [b64_char (unat a div 4), b64_char (unat a mod 4 * 16 + unat b div 16),
     b64_char (unat b mod 16 * 4), 61]"
| "b64encode (a # b # c # bs) = b64_char (unat a div 4) # b64_char (unat a mod 4 * 16 + unat b div 16)
     # b64_char (unat b mod 16 * 4 + unat c div 64) # b64_char (unat c mod 64) # b64encode bs"

fun a2b_strict :: "nat \<Rightarrow> nat \<Rightarrow> nat \<Rightarrow> bool \<Rightarrow> bytes \<Rightarrow> pystr \<Rightarrow> bytes res" where
  "a2b_strict quad_pos leftchar pads padding_started out [] =
     (if quad_pos = 0 then Inr out else raise Base64Error ''incorrect padding'')"
| "a2b_strict quad_pos leftchar pads padding_started out (c # cs) =
     (if c = 61 then
        (if 2 \<le> quad_pos then
           (if 4 \<le> quad_pos + Suc pads then
              (if cs \<noteq> [] then raise Base64Error ''excess data after padding'' else Inr out)
            else a2b_strict quad_pos leftchar (Suc pads) True out cs)
         else a2b_strict quad_pos leftchar pads True out cs)
      else case b64_value c of
        None \<Rightarrow> raise Base64Error ''only base64 data is allowed''
      | Some v \<Rightarrow>
        if padding_started then raise Base64Error ''discontinuous padding not allowed''
        else if quad_pos = 0 then a2b_strict 1 v 0 padding_started out cs
        else if quad_pos = 1 then
          a2b_strict 2 (v mod 16) 0 padding_started (out @ [byte_of (leftchar * 4 + v div 16)]) cs
        else if quad_pos = 2 then
          a2b_strict 3 (v mod 4) 0 padding_started (out @ [byte_of (leftchar * 16 + v div 4)]) cs
        else a2b_strict 0 0 0 padding_started (out @ [byte_of (leftchar * 64 + v)]) cs)"

definition b64decode :: "pystr \<Rightarrow> bytes res" where
  "b64decode s = (case s of
     c # _ \<Rightarrow> if c = 61 then raise Base64Error ''leading padding not allowed''
               else a2b_strict 0 0 0 False [] s
   | [] \<Rightarrow> Inr [])"

lemma b64_char_value [simp]: "v < 64 \<Longrightarrow> b64_value (b64_char v) = Some v"
  by (auto simp: b64_value_def b64_char_def)

lemma b64_char_pad [simp]: "b64_char v \<noteq> 61"
  by (auto simp: b64_char_def)

lemma b64_char_ascii [simp]: "b64_char v < 128"
  by (auto simp: b64_char_def)

lemma b64_ascii: "isascii (b64encode bs)"
  by (induction bs rule: b64encode.induct) (simp_all add: isascii_def)

text \<open>The six-bit digits of one, two and three bytes, and back.\<close>

lemma sextets [simp]:
  "unat (a :: byte) div 4 < 64" "n mod 4 * 16 + unat a div 16 < 64" "n mod 16 * 4 + unat a div 64 < 64"
  "n mod 4 * 16 < 64" "n mod 16 * 4 < 64"
proof -
  have a: "unat a < 256" by simp
  show "unat a div 4 < 64" using a by (simp add: div_less_iff_less_mult)
  have "unat a div 16 < 16" "unat a div 64 < 4" using a by (simp_all add: div_less_iff_less_mult)
  moreover have "n mod 4 < 4" "n mod 16 < 16" by simp_all
  ultimately show "n mod 4 * 16 + unat a div 16 < 64" "n mod 16 * 4 + unat a div 64 < 64"
    "n mod 4 * 16 < 64" "n mod 16 * 4 < 64" by linarith+
qed

lemma sextet_halves [simp]:
  "unat (a :: byte) div 16 div 16 = 0" "unat a div 16 mod 16 = unat a div 16"
  "unat a div 64 div 4 = 0" "unat a div 64 mod 4 = unat a div 64"
proof -
  have "unat a < 256" by simp
  then have "unat a div 16 < 16" "unat a div 64 < 4" by (simp_all add: div_less_iff_less_mult)
  then show "unat a div 16 div 16 = 0" "unat a div 16 mod 16 = unat a div 16"
    "unat a div 64 div 4 = 0" "unat a div 64 mod 4 = unat a div 64" by simp_all
qed

lemma a2b_encode: "a2b_strict 0 0 0 False out (b64encode bs) = Inr (out @ bs)"
proof (induction bs arbitrary: out rule: b64encode.induct)
  case (2 a)
  show ?case by simp
next
  case (3 a b)
  show ?case by simp
next
  case (4 a b c bs)
  show ?case by (simp add: 4)
qed simp

lemma b64decode_encode [simp]: "b64decode (b64encode bs) = Inr bs"
proof -
  have "b64encode bs = [] \<and> bs = [] \<or> (\<exists>c cs. b64encode bs = c # cs \<and> c \<noteq> 61)"
    by (cases bs rule: b64encode.cases) auto
  then show ?thesis using a2b_encode [of "[]" bs] by (auto simp: b64decode_def)
qed

end
