(* ===== verification/Wallet.thy ===== *)
theory Wallet
  imports Transaction Sample_Platform Base64
begin

text \<open>
  \<open>wallet.py\<close>: a named key pair and its encrypted file. The random salt and nonce are arguments, as is
  the seed of a new key; scrypt and AES-GCM are the platform's. The file system is a dictionary from
  paths to contents, and \<open>json.dumps\<close> and \<open>json.loads\<close> are arguments of the two definitions that use
  them; the temporary file, its permissions and the synchronisation to disk are not modelled. The
  lemmas show that a saved wallet loads with its password as the wallet that was saved, and that a
  loaded wallet is one its constructor makes for this network.
\<close>

definition WALLET_FORMAT :: pystr where "WALLET_FORMAT = str ''ourcoin-wallet-v1''"
definition WALLET_AAD_DOMAIN :: bytes where "WALLET_AAD_DOMAIN = byte_literal ''OURCOIN:WALLET:V1''"
definition MAX_WALLET_FILE_BYTES :: nat where "MAX_WALLET_FILE_BYTES = 65536"
definition SCRYPT_N :: int where "SCRYPT_N = 16384"
definition SCRYPT_R :: int where "SCRYPT_R = 8"
definition SCRYPT_P :: int where "SCRYPT_P = 1"
definition SCRYPT_SALT_LENGTH :: nat where "SCRYPT_SALT_LENGTH = 16"
definition AES_KEY_LENGTH :: int where "AES_KEY_LENGTH = 32"
definition AES_NONCE_LENGTH :: nat where "AES_NONCE_LENGTH = 12"

definition wallet_name_ok :: "pystr \<Rightarrow> bool" where
  "wallet_name_ok s \<longleftrightarrow> 1 \<le> length s \<and> length s \<le> 64 \<and>
     list_all (\<lambda>c. is_ascii_alpha c \<or> is_ascii_digit c \<or> c = 95 \<or> c = 45) s"

definition validate_name :: "pystr \<Rightarrow> unit res" where
  "validate_name name =
     (if \<not> wallet_name_ok name then
        raise WalletError ''wallet name must use 1-64 ASCII letters, digits, '_' or '-' ''
      else Inr ())"

definition password_bytes :: "platform \<Rightarrow> pystr \<Rightarrow> bytes res" where
  "password_bytes P password =
     (if password = [] then raise WalletError ''wallet password must not be empty''
      else utf8_encode (nfc P password))"

definition derive_key :: "platform \<Rightarrow> pystr \<Rightarrow> bytes \<Rightarrow> bytes res" where
  "derive_key P password salt =
     bindE (password_bytes P password) (\<lambda>p. Inr (scrypt_kdf P p SCRYPT_N SCRYPT_R SCRYPT_P AES_KEY_LENGTH salt))"

definition wallet_aad :: "platform \<Rightarrow> pystr \<Rightarrow> pystr \<Rightarrow> pystr \<Rightarrow> bytes \<Rightarrow> bytes res" where
  "wallet_aad P name chain_id address public_key =
     join_fields [encode_bytes WALLET_AAD_DOMAIN, encode_text P name, encode_text P chain_id,
       encode_text P address, encode_bytes public_key]"

subsection \<open>JSON values\<close>

text \<open>What \<open>json.loads\<close> returns. A float is compared with integers only, so all that matters of it is the
  integer it equals, if there is one.\<close>

datatype json = JNull | JBool bool | JInt int | JFloat "int option" | JStr pystr | JList "json list"
  | JObject "(pystr \<times> json) list"

text \<open>\<open>value == n\<close>; a boolean equals 0 or 1.\<close>

fun json_equals_int :: "json \<Rightarrow> int \<Rightarrow> bool" where
  "json_equals_int (JInt i) n = (i = n)"
| "json_equals_int (JBool b) n = ((if b then 1 else 0) = n)"
| "json_equals_int (JFloat i) n = (i = Some n)"
| "json_equals_int _ n = False"

fun json_get :: "(pystr \<times> json) list \<Rightarrow> string \<Rightarrow> json" where
  "json_get d k = (case map_of d (str k) of None \<Rightarrow> JNull | Some v \<Rightarrow> v)"

definition decode_base64 :: "json \<Rightarrow> string \<Rightarrow> nat option \<Rightarrow> bytes res" where
  "decode_base64 v name expected_length =
     (case v of JStr s \<Rightarrow>
        if \<not> isascii s then raise WalletError (name @ '' must be Base64 ASCII text'')
        else
        bindE (rethrow is_value_error (\<lambda>_. Exn WalletError (name @ '' is not valid Base64'')) (b64decode s)) (\<lambda>decoded.
        if expected_length \<noteq> None \<and> expected_length \<noteq> Some (length decoded) then
          raise WalletError (name @ '' has an invalid length'')
        else Inr decoded)
      | _ \<Rightarrow> raise WalletError (name @ '' must be Base64 ASCII text''))"

subsection \<open>The wallet\<close>

record wallet =
  wa_name :: pystr
  wa_network :: network_config
  wa_private_key :: bytes
  wa_public_key :: bytes
  wa_address :: pystr

definition new_wallet :: "platform \<Rightarrow> pystr \<Rightarrow> bytes \<Rightarrow> network_config \<Rightarrow> wallet res" where
  "new_wallet P name private_key network =
     bindE (validate_name name) (\<lambda>_.
     if length private_key \<noteq> PRIVATE_KEY_LENGTH then raise WalletError ''private key must be exactly 32 bytes''
     else
     bindE (public_key_from_private P private_key) (\<lambda>public_key.
     bindE (address_from_public_key P public_key network) (\<lambda>address.
     Inr \<lparr>wa_name = name, wa_network = network, wa_private_key = private_key, wa_public_key = public_key,
          wa_address = address\<rparr>)))"

text \<open>\<open>Wallet.create\<close>: the private key is the bytes the generator has drawn.\<close>

definition create_wallet :: "platform \<Rightarrow> pystr \<Rightarrow> bytes \<Rightarrow> network_config \<Rightarrow> wallet res" where
  "create_wallet P name drawn network = new_wallet P name drawn network"

lemma create_wallet_new [simp]: "create_wallet P name drawn network = new_wallet P name drawn network"
  by (simp add: create_wallet_def)

definition wallet_transaction :: "platform \<Rightarrow> pystr \<Rightarrow> int \<Rightarrow> int \<Rightarrow> int \<Rightarrow> int \<Rightarrow> wallet \<Rightarrow> transaction res" where
  "wallet_transaction P recipient_address amount_atoms fee_atoms nonce valid_until_height w =
     create_signed_transaction P (wa_private_key w) recipient_address amount_atoms fee_atoms nonce
       valid_until_height (wa_network w)"

text \<open>The document of \<open>save_encrypted\<close>.\<close>

definition wallet_document :: "platform \<Rightarrow> pystr \<Rightarrow> bytes \<Rightarrow> bytes \<Rightarrow> wallet \<Rightarrow> json res" where
  "wallet_document P password salt nonce w =
     bindE (wallet_aad P (wa_name w) (net_chain_id (wa_network w)) (wa_address w) (wa_public_key w)) (\<lambda>aad.
     bindE (derive_key P password salt) (\<lambda>key.
     let ciphertext = aesgcm_encrypt P key nonce (wa_private_key w) aad in
     Inr (JObject [
       (str ''format'', JStr WALLET_FORMAT),
       (str ''name'', JStr (wa_name w)),
       (str ''chain_id'', JStr (net_chain_id (wa_network w))),
       (str ''address'', JStr (wa_address w)),
       (str ''public_key_hex'', JStr (bytes_hex (wa_public_key w))),
       (str ''kdf'', JObject [
         (str ''name'', JStr (str ''scrypt'')),
         (str ''salt_base64'', JStr (b64encode salt)),
         (str ''n'', JInt SCRYPT_N), (str ''r'', JInt SCRYPT_R), (str ''p'', JInt SCRYPT_P)]),
       (str ''cipher'', JObject [
         (str ''name'', JStr (str ''aes-256-gcm'')),
         (str ''nonce_base64'', JStr (b64encode nonce)),
         (str ''ciphertext_base64'', JStr (b64encode ciphertext))])])))"

definition save_encrypted :: "platform \<Rightarrow> (json \<Rightarrow> pystr) \<Rightarrow> 'p \<Rightarrow> pystr \<Rightarrow> bool \<Rightarrow> bytes \<Rightarrow> bytes \<Rightarrow> wallet \<Rightarrow>
    ('p, bytes) dict \<Rightarrow> 'p res \<times> ('p, bytes) dict" where
  "save_encrypted P json_dumps path password overwrite salt nonce w files =
     (if map_of files path \<noteq> None \<and> \<not> overwrite then (raise WalletError ''wallet file already exists'', files)
      else case bindE (wallet_document P password salt nonce w) (\<lambda>document.
                  utf8_encode (json_dumps document @ [10])) of
        Inl e \<Rightarrow> (Inl e, files)
      | Inr content \<Rightarrow> (Inr path, AList.update path content files))"

text \<open>\<open>load_encrypted\<close> from the parsed document on.\<close>

definition required_field :: "(pystr \<times> json) list \<Rightarrow> string \<Rightarrow> json res" where
  "required_field d k = rethrow (\<lambda>c. c = KeyError) (\<lambda>_. Exn WalletError ''wallet document is missing a required field'')
     (dict_index d (str k))"

definition wallet_of_document :: "platform \<Rightarrow> pystr \<Rightarrow> network_config \<Rightarrow> json \<Rightarrow> wallet res" where
  "wallet_of_document P password network document =
     (case document of JObject d \<Rightarrow>
     bindE (required_field d ''format'') (\<lambda>wallet_format.
     bindE (required_field d ''name'') (\<lambda>name.
     bindE (required_field d ''chain_id'') (\<lambda>chain_id.
     bindE (required_field d ''address'') (\<lambda>address.
     bindE (required_field d ''public_key_hex'') (\<lambda>public_key_hex.
     bindE (required_field d ''kdf'') (\<lambda>kdf.
     bindE (required_field d ''cipher'') (\<lambda>cipher.
     if wallet_format \<noteq> JStr WALLET_FORMAT then raise WalletError ''unsupported wallet format''
     else
     bindE (case name of JStr s \<Rightarrow> bindE (validate_name s) (\<lambda>_. Inr s)
            | _ \<Rightarrow> raise WalletError ''wallet name must use 1-64 ASCII letters, digits, '_' or '-' '') (\<lambda>name.
     if chain_id \<noteq> JStr (net_chain_id network) then raise WalletError ''wallet belongs to another network''
     else
     bindE (case (address, public_key_hex) of (JStr a, JStr k) \<Rightarrow> Inr (a, k)
            | _ \<Rightarrow> raise WalletError ''wallet public metadata has invalid types'') (\<lambda>(address, public_key_hex).
     bindE (rethrow is_value_error (\<lambda>_. Exn WalletError ''wallet public key is not valid hexadecimal'')
              (bytes_fromhex public_key_hex)) (\<lambda>public_key.
     bindE (case (kdf, cipher) of (JObject k, JObject c) \<Rightarrow> Inr (k, c)
            | _ \<Rightarrow> raise WalletError ''wallet cryptographic metadata must be objects'') (\<lambda>(kdf, cipher).
     if json_get kdf ''name'' \<noteq> JStr (str ''scrypt'') \<or> \<not> json_equals_int (json_get kdf ''n'') SCRYPT_N
        \<or> \<not> json_equals_int (json_get kdf ''r'') SCRYPT_R \<or> \<not> json_equals_int (json_get kdf ''p'') SCRYPT_P then
       raise WalletError ''wallet uses unsupported KDF parameters''
     else if json_get cipher ''name'' \<noteq> JStr (str ''aes-256-gcm'') then
       raise WalletError ''wallet uses an unsupported cipher''
     else
     bindE (decode_base64 (json_get kdf ''salt_base64'') ''wallet salt'' (Some SCRYPT_SALT_LENGTH)) (\<lambda>salt.
     bindE (decode_base64 (json_get cipher ''nonce_base64'') ''wallet cipher nonce'' (Some AES_NONCE_LENGTH)) (\<lambda>nonce.
     bindE (decode_base64 (json_get cipher ''ciphertext_base64'') ''wallet ciphertext'' None) (\<lambda>ciphertext.
     bindE (wallet_aad P name (net_chain_id network) address public_key) (\<lambda>aad.
     bindE (derive_key P password salt) (\<lambda>key.
     case aesgcm_decrypt P key nonce ciphertext aad of
       None \<Rightarrow> raise WalletError ''wallet password is invalid or the file was modified''
     | Some private_key \<Rightarrow>
       bindE (new_wallet P name private_key network) (\<lambda>w.
       if wa_address w \<noteq> address \<or> wa_public_key w \<noteq> public_key then
         raise WalletError ''wallet public metadata does not match the private key''
       else Inr w)))))))))))))))))
      | _ \<Rightarrow> raise WalletError ''wallet document must be a JSON object'')"

definition load_encrypted :: "platform \<Rightarrow> (pystr \<Rightarrow> json res) \<Rightarrow> 'p \<Rightarrow> pystr \<Rightarrow> network_config \<Rightarrow>
    ('p, bytes) dict \<Rightarrow> wallet res" where
  "load_encrypted P json_loads path password network files =
     (case map_of files path of
        None \<Rightarrow> raise WalletError ''wallet file cannot be read as valid JSON''
      | Some encoded_document \<Rightarrow>
        if length encoded_document > MAX_WALLET_FILE_BYTES then raise WalletError ''wallet file exceeds its size limit''
        else
        bindE (rethrow (\<lambda>c. c = UnicodeDecodeError \<or> c = ValueError)
                 (\<lambda>_. Exn WalletError ''wallet file cannot be read as valid JSON'')
                 (bindE (utf8_decode encoded_document) json_loads))
          (wallet_of_document P password network))"

subsection \<open>Loading what was saved\<close>

lemma str_eq_iff [simp]: "str s = str t \<longleftrightarrow> s = t"
  unfolding str_def by (rule inj_map_eq_map) (auto intro!: injI)

lemma new_wallet_iff:
  assumes "hash_ok P" and "network_ok network"
  shows "new_wallet P name k network = Inr w \<longleftrightarrow> wallet_name_ok name \<and> length k = 32
     \<and> (\<exists>a. address_from_public_key P (ed25519_public_key P k) network = Inr a
          \<and> w = \<lparr>wa_name = name, wa_network = network, wa_private_key = k,
                 wa_public_key = ed25519_public_key P k, wa_address = a\<rparr>)"
  by (auto simp: new_wallet_def validate_name_def public_key_from_private_def require_bytes_def bindE_eq_Inr)

lemma new_wallet_total:
  assumes "platform_ok P" and "network_ok network" and "wallet_name_ok name" and "length k = 32"
  obtains w where "new_wallet P name k network = Inr w" and "is_valid_address P (wa_address w) network"
proof -
  have l: "length (ed25519_public_key P k) = 32" using ed25519_okD(1) [of P k] assms(1) by simp
  obtain a where "address_from_public_key P (ed25519_public_key P k) network = Inr a"
      "decode_address P a network = public_key_hash P (ed25519_public_key P k)"
    using address_from_public_key_valid [OF platform_okD(1) [OF assms(1)] assms(2) l] by auto
  then show thesis
    using that assms l by (simp add: new_wallet_iff is_valid_address_iff public_key_hash_iff)
qed

lemma wallet_name_ascii: "wallet_name_ok s \<Longrightarrow> isascii s \<and> length s \<le> 64"
  by (auto simp: wallet_name_ok_def isascii_def list_all_iff is_ascii_alpha_def is_ascii_digit_def)

lemma wallet_aad_total:
  assumes P: "platform_ok P" and n: "network_fits network" and w: "new_wallet P name k network = Inr w"
  shows "\<exists>aad. wallet_aad P (wa_name w) (net_chain_id network) (wa_address w) (wa_public_key w) = Inr aad"
proof -
  have h: "hash_ok P" "nfc_ok P" "network_ok network" using P n by simp_all
  have w': "wallet_name_ok name" "length k = 32" "wa_name w = name" "wa_public_key w = ed25519_public_key P k"
    using w new_wallet_iff [OF h(1,3)] by auto
  have a: "is_valid_address P (wa_address w) network"
    using new_wallet_total [OF P h(3) w'(1,2)] w by auto
  have "canonical_text P (Some 64) name"
    using wallet_name_ascii [OF w'(1)] h(2) by (intro canonical_text_ascii) auto
  then have "\<exists>p. encode_text P name = Inr p" by (rule canonical_text_encodes) (simp add: U32_MAX_def)
  moreover have "\<exists>p. encode_text P (net_chain_id network) = Inr p"
    by (rule canonical_text_encodes [OF chain_id_canonical [OF h(2) n]]) (simp add: U32_MAX_def MAX_CHAIN_ID_BYTES_def)
  moreover have "\<exists>p. encode_text P (wa_address w) = Inr p"
    by (rule canonical_text_encodes [OF address_canonical [OF h(2) n a]]) (simp add: U32_MAX_def MAX_ADDRESS_BYTES_def)
  moreover have "\<exists>p. encode_bytes WALLET_AAD_DOMAIN = Inr p"
    by (rule encode_bytes_total) (simp add: WALLET_AAD_DOMAIN_def byte_literal_def U32_MAX_def)
  moreover have "\<exists>p. encode_bytes (wa_public_key w) = Inr p"
    by (rule encode_bytes_total) (use P ed25519_okD(1) [of P k] in \<open>simp add: w' U32_MAX_def\<close>)
  ultimately show ?thesis unfolding wallet_aad_def w'(3) by (intro join_fields_total) simp
qed

lemma document_round_trip:
  assumes P: "platform_ok P" and n: "network_fits network" and w: "new_wallet P name k network = Inr w"
    and d: "wallet_document P password salt nonce w = Inr document" and s: "length salt = 16" "length nonce = 12"
  shows "wallet_of_document P password network document = Inr w"
proof -
  have h: "hash_ok P" "network_ok network" "aesgcm_ok P" using P n by simp_all
  have w': "wallet_name_ok name" "wa_name w = name" "wa_network w = network" "wa_private_key w = k"
    using w new_wallet_iff [OF h(1,2)] by auto
  obtain aad key where a: "wallet_aad P name (net_chain_id network) (wa_address w) (wa_public_key w) = Inr aad"
      "derive_key P password salt = Inr key"
    using d by (auto simp: wallet_document_def bindE_eq_Inr w')
  have "validate_name name = Inr ()" using w'(1) by (simp add: validate_name_def)
  moreover have "aesgcm_decrypt P key nonce (aesgcm_encrypt P key nonce k aad) aad = Some k"
    using h(3) by (simp add: aesgcm_ok_def)
  ultimately show ?thesis
    using d a w s by (auto simp: wallet_document_def w' wallet_of_document_def required_field_def dict_index_def
        decode_base64_def b64_ascii SCRYPT_SALT_LENGTH_def AES_NONCE_LENGTH_def Let_def)
qed

text \<open>What every result of a computation satisfies, shown along its last steps only.\<close>

definition results_in :: "('a \<Rightarrow> bool) \<Rightarrow> 'a res \<Rightarrow> bool" where
  "results_in Q m \<longleftrightarrow> (\<forall>x. m = Inr x \<longrightarrow> Q x)"

lemma results_in_rules:
  "results_in Q (Inl e)"
  "Q x \<Longrightarrow> results_in Q (Inr x)"
  "(\<And>x. m = Inr x \<Longrightarrow> results_in Q (f x)) \<Longrightarrow> results_in Q (bindE m f)"
  "(b \<Longrightarrow> results_in Q m1) \<Longrightarrow> (\<not> b \<Longrightarrow> results_in Q m2) \<Longrightarrow> results_in Q (if b then m1 else m2)"
  "(\<And>x y. results_in Q (g x y)) \<Longrightarrow> results_in Q (case p of (x, y) \<Rightarrow> g x y)"
  "results_in Q m1 \<Longrightarrow> (\<And>x. results_in Q (h x)) \<Longrightarrow> results_in Q (case z of None \<Rightarrow> m1 | Some x \<Rightarrow> h x)"
  by (auto simp: results_in_def bindE_eq_Inr split: prod.splits option.splits)

lemma wallet_of_document_new:
  assumes "wallet_of_document P password network document = Inr w"
  shows "\<exists>name k. new_wallet P name k network = Inr w"
proof (cases document)
  case (JObject d)
  have "results_in (\<lambda>w. \<exists>name k. new_wallet P name k network = Inr w) (wallet_of_document P password network document)"
    unfolding wallet_of_document_def JObject json.case by (intro results_in_rules exI)
  then show ?thesis using assms by (simp add: results_in_def)
qed (use assms in \<open>simp_all add: wallet_of_document_def\<close>)

lemma load_encrypted_new:
  assumes "load_encrypted P json_loads path password network files = Inr w"
  shows "\<exists>name k. new_wallet P name k network = Inr w"
  using assms wallet_of_document_new
  by (auto simp: load_encrypted_def bindE_eq_Inr split: option.splits if_splits)

lemma wallet_document_total:
  assumes P: "platform_ok P" and n: "network_fits network" and w: "new_wallet P name k network = Inr w"
    and p: "password \<noteq> []" "utf8_encode (nfc P password) = Inr p"
  shows "\<exists>d. wallet_document P password salt nonce w = Inr d"
proof -
  have "wa_network w = network" using w new_wallet_iff [of P network] P n by auto
  then show ?thesis
    using wallet_aad_total [OF P n w] p by (auto simp: wallet_document_def derive_key_def password_bytes_def Let_def)
qed

definition sample_wallet :: wallet where
  "sample_wallet = projr (new_wallet sample_platform (str ''alice'') (replicate 32 7) TESTNET)"

lemma sample_wallet_new: "new_wallet sample_platform (str ''alice'') (replicate 32 7) TESTNET = Inr sample_wallet"
proof -
  have "wallet_name_ok (str ''alice'')"
    by (simp add: wallet_name_ok_def str_def is_ascii_alpha_def is_ascii_digit_def)
  from new_wallet_total [OF sample_platform_ok network_ok_TESTNET this, of "replicate 32 7"]
  obtain w where "new_wallet sample_platform (str ''alice'') (replicate 32 7) TESTNET = Inr w" by auto
  then show ?thesis by (simp add: sample_wallet_def)
qed

subsection \<open>Properties\<close>

text \<open>C31. \<open>saved_wallet_loads\<close>: a wallet saved under a non-empty password that UTF-8 can encode, where
  \<open>json.loads\<close> undoes \<open>json.dumps\<close> on its document, loads under this password and network as the same
  wallet: name, key, address and network.\<close>

theorem saved_wallet_loads:
  assumes "platform_ok P" and "network_fits network" and "new_wallet P name k network = Inr w"
    and "password \<noteq> []" and "utf8_encode (nfc P password) = Inr p" and "length salt = 16" and "length nonce = 12"
    and "\<And>d. wallet_document P password salt nonce w = Inr d \<Longrightarrow> json_loads (json_dumps d @ [10]) = Inr d
       \<and> isascii (json_dumps d) \<and> length (json_dumps d) < MAX_WALLET_FILE_BYTES"
    and "map_of files path = None \<or> overwrite"
  shows "\<exists>files'. save_encrypted P json_dumps path password overwrite salt nonce w files = (Inr path, files')
     \<and> load_encrypted P json_loads path password network files' = Inr w"
proof -
  obtain d where d: "wallet_document P password salt nonce w = Inr d"
    using wallet_document_total [OF assms(1-5)] by blast
  have j: "json_loads (json_dumps d @ [10]) = Inr d" "isascii (json_dumps d @ [10])"
      "length (json_dumps d @ [10]) \<le> MAX_WALLET_FILE_BYTES"
    using assms(8) [OF d] by (auto simp: isascii_def)
  let ?b = "map byte_of (json_dumps d @ [10])"
  have u: "utf8_encode (json_dumps d @ [10]) = Inr ?b" by (rule utf8_encode_ascii [OF j(2)])
  then have "utf8_decode ?b = Inr (json_dumps d @ [10])" by (rule utf8_decode_encode)
  then have "load_encrypted P json_loads path password network (AList.update path ?b files) = Inr w"
    using j(1,3) document_round_trip [OF assms(1-3) d assms(6,7)] by (simp add: load_encrypted_def map_of_update)
  then show ?thesis using assms(9) d u by (auto simp: save_encrypted_def)
qed

lemma saved_wallet_loads_witness:
  "\<exists>files. load_encrypted sample_platform
      (\<lambda>_. wallet_document sample_platform [112] (replicate 16 1) (replicate 12 2) sample_wallet)
      (0::nat) [112] TESTNET files = Inr sample_wallet"
  using saved_wallet_loads [OF sample_platform_ok network_fits_TESTNET sample_wallet_new, of "[112]" "[112]"
      "replicate 16 1" "replicate 12 2"
      "\<lambda>_. wallet_document sample_platform [112] (replicate 16 1) (replicate 12 2) sample_wallet" "\<lambda>_. []" "[]" 0 True]
  by (auto simp: sample_platform_def utf8_encode_ascii isascii_def byte_of_def MAX_WALLET_FILE_BYTES_def)

text \<open>\<open>loaded_wallet_is_consistent\<close>: whatever the file holds, a wallet that loads is one its constructor
  makes from the decrypted key for the network asked for, with an address this network accepts.\<close>

theorem loaded_wallet_is_consistent:
  assumes "platform_ok P" and "network_ok network"
    and "load_encrypted P json_loads path password network files = Inr w"
  shows "new_wallet P (wa_name w) (wa_private_key w) network = Inr w \<and> is_valid_address P (wa_address w) network"
proof -
  obtain name k where w: "new_wallet P name k network = Inr w" using load_encrypted_new [OF assms(3)] by blast
  then have n: "wallet_name_ok name" "length k = 32" "wa_name w = name" "wa_private_key w = k"
    using new_wallet_iff [of P network] assms(1,2) by auto
  obtain w' where "new_wallet P name k network = Inr w'" "is_valid_address P (wa_address w') network"
    by (rule new_wallet_total [OF assms(1,2) n(1,2)])
  then show ?thesis using w n by simp
qed

lemma loaded_wallet_is_consistent_witness:
  "is_valid_address sample_platform (wa_address sample_wallet) TESTNET"
proof -
  obtain d where d: "wallet_document sample_platform [112] (replicate 16 1) (replicate 12 2) sample_wallet = Inr d"
    using wallet_document_total [OF sample_platform_ok network_fits_TESTNET sample_wallet_new, of "[112]" "[112]"]
    by (auto simp: sample_platform_def utf8_encode_ascii isascii_def byte_of_def)
  have "load_encrypted sample_platform (\<lambda>_. Inr d) (0::nat) [112] TESTNET [(0, [])] = Inr sample_wallet"
    using document_round_trip [OF sample_platform_ok network_fits_TESTNET sample_wallet_new d]
    using utf8_decode_encode [of "[]" "[]"] by (simp add: load_encrypted_def)
  from loaded_wallet_is_consistent [OF sample_platform_ok network_ok_TESTNET this] show ?thesis by blast
qed

end
