(* ===== verification/Local_Node.thy ===== *)
theory Local_Node
  imports Mempool Stored_Chain Wallet
begin

text \<open>
  \<open>node.py\<close>: the local node, which joins the chain, an optional database, the mempool, the miner and a
  wallet. The lemmas show that its operations keep the three parts in step: the database holds the
  tables of the chain in memory, and the pool fits the state and the height after the tip.
\<close>

definition DEFAULT_TRANSACTION_LIFETIME_BLOCKS :: int where "DEFAULT_TRANSACTION_LIFETIME_BLOCKS = 100"

record node =
  nd_chain :: chain
  nd_storage :: "storage option"
  nd_mempool :: mempool

definition new_node :: "platform \<Rightarrow> network_config \<Rightarrow> storage option \<Rightarrow> node res" where
  "new_node P network storage =
     bindE (case storage of
        None \<Rightarrow> new_chain P network
      | Some st \<Rightarrow> if sg_network st \<noteq> network then raise NodeError ''storage belongs to another network''
                   else load_chain P st) (\<lambda>c.
     Inr \<lparr>nd_chain = c, nd_storage = storage, nd_mempool = new_mempool\<rparr>)"

definition open_persistent :: "platform \<Rightarrow> pystr list \<Rightarrow> network_config \<Rightarrow> bool \<Rightarrow> (pystr list, database) dict \<Rightarrow>
    node res \<times> (pystr list, database) dict" where
  "open_persistent P base_data_dir network create files =
     (case open_storage P base_data_dir network create files of
        (Inl e, files) \<Rightarrow> (Inl e, files)
      | (Inr st, files) \<Rightarrow> (new_node P network (Some st), files))"

definition node_account :: "platform \<Rightarrow> pystr \<Rightarrow> node \<Rightarrow> account res" where
  "node_account P address nd = bindE (chain_state P (nd_chain nd)) (get_account P address)"

text \<open>The state the next block executes on, and its height.\<close>

definition execution_context :: "platform \<Rightarrow> node \<Rightarrow> (account_state \<times> int) res" where
  "execution_context P nd =
     bindE (chain_state P (nd_chain nd)) (\<lambda>s. bindE (chain_height (nd_chain nd)) (\<lambda>h. Inr (s, h + 1)))"

definition submit_transaction :: "platform \<Rightarrow> transaction \<Rightarrow> node \<Rightarrow> bytes res \<times> node" where
  "submit_transaction P t nd =
     (case execution_context P nd of
        Inl e \<Rightarrow> (Inl e, nd)
      | Inr (s, execution_height) \<Rightarrow>
        (case mempool_add P t s execution_height (nd_mempool nd) of
           (r, m) \<Rightarrow> (rethrow (\<lambda>c. c = MempoolError) (Exn NodeError) r, nd\<lparr>nd_mempool := m\<rparr>)))"

definition send :: "platform \<Rightarrow> wallet \<Rightarrow> pystr \<Rightarrow> int \<Rightarrow> int \<Rightarrow> int \<Rightarrow> node \<Rightarrow> transaction res \<times> node" where
  "send P w recipient_address amount_atoms fee_atoms valid_for_blocks nd =
     (case
        (if wa_network w \<noteq> ch_network (nd_chain nd) then raise NodeError ''wallet belongs to another network''
         else if valid_for_blocks < 0 then raise NodeError ''transaction lifetime must be a non-negative integer''
         else
         bindE (chain_height (nd_chain nd)) (\<lambda>height.
         let execution_height = height + 1;
             valid_until_height = execution_height + valid_for_blocks in
         if valid_until_height > U64_MAX then raise NodeError ''transaction lifetime exceeds the height range''
         else
         bindE (chain_state P (nd_chain nd)) (\<lambda>s.
         bindE (next_nonce P (wa_address w) s (nd_mempool nd)) (\<lambda>nonce.
         rethrow is_value_error (Exn NodeError)
           (wallet_transaction P recipient_address amount_atoms fee_atoms nonce valid_until_height w)))))
      of Inl e \<Rightarrow> (Inl e, nd)
       | Inr t \<Rightarrow> (case submit_transaction P t nd of
           (Inl e, nd) \<Rightarrow> (Inl e, nd)
         | (Inr _, nd) \<Rightarrow> (Inr t, nd)))"

subsection \<open>Blocks\<close>

definition block_bodies :: "bytes list \<Rightarrow> chain \<Rightarrow> transaction list res" where
  "block_bodies hs c =
     bindE (mapE (\<lambda>h. bindE (get_block h c) (\<lambda>b. Inr (bl_transactions b))) hs) (\<lambda>bodies. Inr (concat bodies))"

fun readd_disconnected :: "platform \<Rightarrow> account_state \<Rightarrow> int \<Rightarrow> transaction list \<Rightarrow> mempool \<Rightarrow> unit res \<times> mempool" where
  "readd_disconnected P s execution_height [] m = (Inr (), m)"
| "readd_disconnected P s execution_height (t # ts) m =
     (case txid P t of
        Inl e \<Rightarrow> (Inl e, m)
      | Inr i \<Rightarrow>
        if contains_transaction i s then readd_disconnected P s execution_height ts m
        else if mempool_contains i m then readd_disconnected P s execution_height ts m
        else (case mempool_add P t s execution_height m of
            (Inl e, m) \<Rightarrow> if exn_kind e = MempoolError then readd_disconnected P s execution_height ts m else (Inl e, m)
          | (Inr _, m) \<Rightarrow> readd_disconnected P s execution_height ts m))"

definition reconcile_mempool :: "platform \<Rightarrow> chain_update \<Rightarrow> node \<Rightarrow> unit res \<times> node" where
  "reconcile_mempool P u nd =
     (case bindE (block_bodies (cu_connected u) (nd_chain nd)) (\<lambda>connected.
           bindE (block_bodies (rev (cu_disconnected u)) (nd_chain nd)) (\<lambda>disconnected. Inr (connected, disconnected))) of
        Inl e \<Rightarrow> (Inl e, nd)
      | Inr (connected, disconnected) \<Rightarrow>
     (case remove_confirmed P connected (nd_mempool nd) of
        (Inl e, m) \<Rightarrow> (Inl e, nd\<lparr>nd_mempool := m\<rparr>)
      | (Inr _, m) \<Rightarrow>
     (case execution_context P nd of
        Inl e \<Rightarrow> (Inl e, nd\<lparr>nd_mempool := m\<rparr>)
      | Inr (active_state, execution_height) \<Rightarrow>
     (case revalidate P active_state execution_height m of
        (Inl e, m) \<Rightarrow> (Inl e, nd\<lparr>nd_mempool := m\<rparr>)
      | (Inr _, m) \<Rightarrow>
     (case readd_disconnected P active_state execution_height disconnected m of
        (r, m) \<Rightarrow> (r, nd\<lparr>nd_mempool := m\<rparr>))))))"

text \<open>The first half of \<open>submit_block\<close>: the chain in place, or a copy of it that is persisted first.\<close>

definition extend_chain :: "platform \<Rightarrow> block \<Rightarrow> node \<Rightarrow> chain_update res \<times> node" where
  "extend_chain P b nd =
     (case nd_storage nd of
        None \<Rightarrow> (case add_block P b (nd_chain nd) of (r, c) \<Rightarrow> (r, nd\<lparr>nd_chain := c\<rparr>))
      | Some st \<Rightarrow>
        (case bindE (copy_chain P (nd_chain nd)) (\<lambda>candidate.
              case add_block P b candidate of (Inl e, c) \<Rightarrow> Inl e | (Inr u, c) \<Rightarrow> Inr (u, c)) of
           Inl e \<Rightarrow> (Inl e, nd)
         | Inr (u, c) \<Rightarrow>
           (case persist_chain_update P c u st of
              (Inl e, st) \<Rightarrow> (Inl e, nd\<lparr>nd_storage := Some st\<rparr>)
            | (Inr _, st) \<Rightarrow> (Inr u, nd\<lparr>nd_chain := c, nd_storage := Some st\<rparr>))))"

definition submit_block :: "platform \<Rightarrow> block \<Rightarrow> node \<Rightarrow> chain_update res \<times> node" where
  "submit_block P b nd =
     (case extend_chain P b nd of
        (Inl e, nd) \<Rightarrow> (Inl e, nd)
      | (Inr u, nd) \<Rightarrow>
        if \<not> cu_became_active u then (Inr u, nd)
        else (case reconcile_mempool P u nd of
            (Inl e, nd) \<Rightarrow> (Inl e, nd)
          | (Inr _, nd) \<Rightarrow> (Inr u, nd)))"

definition mine :: "platform \<Rightarrow> pystr \<Rightarrow> int option \<Rightarrow> int \<Rightarrow> int \<Rightarrow> node \<Rightarrow> (block \<times> chain_update) res \<times> node" where
  "mine P miner_address timestamp max_transactions max_attempts nd =
     (case
        (if \<not> (0 \<le> max_transactions \<and> max_transactions \<le> MAX_BLOCK_TRANSACTIONS) then
           raise NodeError ''block transaction limit is outside the allowed range''
         else
         bindE (execution_context P nd) (\<lambda>(s, execution_height).
         bindE (select_transactions P s execution_height max_transactions (nd_mempool nd)) (\<lambda>selected.
         bindE (case timestamp of
                  None \<Rightarrow> bindE (chain_tip (nd_chain nd)) (\<lambda>tip. Inr (bh_timestamp (bl_header tip) + TARGET_BLOCK_SECONDS))
                | Some t \<Rightarrow> Inr t) (\<lambda>candidate_timestamp.
         bindE (build_candidate P miner_address selected candidate_timestamp None (nd_chain nd)) (\<lambda>candidate.
         mine_block P candidate max_attempts)))))
      of Inl e \<Rightarrow> (Inl e, nd)
       | Inr b \<Rightarrow> (case submit_block P b nd of
           (Inl e, nd) \<Rightarrow> (Inl e, nd)
         | (Inr u, nd) \<Rightarrow> (Inr (b, u), nd)))"

definition close_node :: "node \<Rightarrow> node" where
  "close_node nd = nd\<lparr>nd_storage := map_option close_storage (nd_storage nd)\<rparr>"

subsection \<open>The invariant of a node\<close>

definition tip_state :: "chain \<Rightarrow> account_state" where
  "tip_state c = entry_state (tip_entry c)"

definition next_height :: "chain \<Rightarrow> int" where
  "next_height c = br_height (en_record (tip_entry c)) + 1"

definition stored_with :: "platform \<Rightarrow> chain \<Rightarrow> storage option \<Rightarrow> bool" where
  "stored_with P c storage \<longleftrightarrow> (case storage of None \<Rightarrow> True | Some st \<Rightarrow> store_of P c st)"

definition node_ok :: "platform \<Rightarrow> node \<Rightarrow> bool" where
  "node_ok P nd \<longleftrightarrow> chain_reachable P (nd_chain nd)
   \<and> stored_with P (nd_chain nd) (nd_storage nd)
   \<and> mempool_ok P TESTNET (nd_mempool nd)
   \<and> mempool_fits P (tip_state (nd_chain nd)) (next_height (nd_chain nd)) (nd_mempool nd)"

lemma tip_facts:
  assumes "chain_ok P c"
  shows "chain_state P c = Inr (tip_state c)" and "chain_height c = Inr (br_height (en_record (tip_entry c)))"
    and "chain_tip c = Inr (en_block (tip_entry c))" and "state_ok P (tip_state c)"
    and "st_network (tip_state c) = TESTNET" and "total_balance (tip_state c) = br_total_supply (en_record (tip_entry c))"
    and "total_balance (tip_state c) \<le> U64_MAX" and "1 \<le> next_height c"
    and "map_of (ch_entries c) (ch_tip c) = Some (tip_entry c)"
proof -
  note t = chain_okD(1) [OF assms]
  show te: "map_of (ch_entries c) (ch_tip c) = Some (tip_entry c)" by (rule active_branch [OF assms])
  note eo = entry_okD [OF tree_entry [OF t te]]
  show "chain_state P c = Inr (tip_state c)"
    using te entry_state_lookup [OF t te] by (simp add: chain_state_def dict_index_def tip_state_def)
  show "chain_height c = Inr (br_height (en_record (tip_entry c)))" "chain_tip c = Inr (en_block (tip_entry c))"
    using te by (simp_all add: chain_height_def chain_tip_def dict_index_def)
  show "state_ok P (tip_state c)" "st_network (tip_state c) = TESTNET"
    "total_balance (tip_state c) = br_total_supply (en_record (tip_entry c))"
    using eo(4,6) by (simp_all add: tip_state_def entry_state_def)
  show "total_balance (tip_state c) \<le> U64_MAX"
    using eo(6) u64_range [OF entry_ranges(2) [OF t te]] by (simp add: tip_state_def)
  show "1 \<le> next_height c" using eo(2) by (simp add: next_height_def)
qed

lemma context_of: "chain_ok P (nd_chain nd) \<Longrightarrow> execution_context P nd = Inr (tip_state (nd_chain nd), next_height (nd_chain nd))"
  using tip_facts(1,2) [of P "nd_chain nd"] by (simp add: execution_context_def next_height_def)

lemma node_chain_ok: "platform_ok P \<Longrightarrow> node_ok P nd \<Longrightarrow> chain_ok P (nd_chain nd)"
  by (simp add: node_ok_def reachable_ok)

subsection \<open>Transactions\<close>

lemma submit_transaction_spec:
  assumes P: "platform_ok P" and nd: "node_ok P nd" and s: "submit_transaction P t nd = (r, nd')"
  shows "node_ok P nd' \<and> nd_chain nd' = nd_chain nd \<and> nd_storage nd' = nd_storage nd
    \<and> (case r of Inl e \<Rightarrow> exn_kind e = NodeError \<and> nd' = nd
       | Inr i \<Rightarrow> txid P t = Inr i \<and> pending (nd_mempool nd') = pending (nd_mempool nd) @ [t])"
proof -
  let ?c = "nd_chain nd" and ?m = "nd_mempool nd"
  note ok = node_chain_ok [OF P nd] and tf = tip_facts [OF node_chain_ok [OF P nd]]
  obtain x m' where a: "mempool_add P t (tip_state ?c) (next_height ?c) ?m = (x, m')" by (cases "mempool_add P t (tip_state ?c) (next_height ?c) ?m")
  have m: "mempool_ok P (st_network (tip_state ?c)) ?m" "mempool_fits P (tip_state ?c) (next_height ?c) ?m"
    using nd tf(5) by (simp_all add: node_ok_def)
  note as = mempool_add_spec [OF m a]
  have n: "network_fits (st_network (tip_state ?c))" using tf(5) by simp
  have e: "exn_kind y = MempoolError \<and> m' = ?m" if "x = Inl y" for y
    using raises_onlyD [OF admit_raises [OF P n]] as(4) a that by (auto simp: mempool_add_def split: sum.splits)
  have i: "txid P t = Inr i" if "x = Inr i" for i using as(4) that by (simp add: admit_iff [symmetric] admissible_def)
      (metis admit_iff admissible_def)
  have "r = rethrow (\<lambda>c. c = MempoolError) (Exn NodeError) x" "nd' = nd\<lparr>nd_mempool := m'\<rparr>"
    using s by (simp_all add: submit_transaction_def context_of [OF ok] a)
  then show ?thesis
    using nd as(1-3) tf(5) e i by (cases x) (auto simp: node_ok_def rethrow_def)
qed


subsection \<open>Blocks\<close>

text \<open>The transactions of stored blocks all have an identifier, so no step of the reconciliation raises.\<close>

lemma remove_confirmed_total:
  "list_all (storable_transaction P) ts \<Longrightarrow> \<exists>m'. remove_confirmed P ts m = (Inr (), m') \<and> set (pending m') \<subseteq> set (pending m)"
proof (induction ts arbitrary: m)
  case (Cons t ts)
  obtain i where i: "txid P t = Inr i" using Cons.prems by (auto simp: storable_transaction_def)
  have "set (pending (snd (mempool_remove i m))) \<subseteq> set (pending m)"
  proof (cases "map_of (mp_transactions m) i")
    case (Some x)
    then have "mp_transactions (snd (mempool_remove i m)) = filter (\<lambda>(k, _). i \<noteq> k) (mp_transactions m)"
      by (simp add: mempool_remove_def AList.delete_eq)
    then show ?thesis by (auto simp: pending_def)
  qed (simp add: mempool_remove_def)
  moreover obtain m' where "remove_confirmed P ts (snd (mempool_remove i m)) = (Inr (), m')"
      "set (pending m') \<subseteq> set (pending (snd (mempool_remove i m)))"
    using Cons.IH Cons.prems by auto
  ultimately show ?case using i by auto
qed simp

lemma readd_spec:
  assumes P: "platform_ok P" and n: "st_network s = TESTNET"
  shows "list_all (storable_transaction P) ts \<Longrightarrow> mempool_ok P TESTNET m \<Longrightarrow> mempool_fits P s h m \<Longrightarrow>
     \<exists>m'. readd_disconnected P s h ts m = (Inr (), m') \<and> mempool_ok P TESTNET m' \<and> mempool_fits P s h m'
        \<and> set (pending m) \<subseteq> set (pending m') \<and> set (pending m') \<subseteq> set (pending m) \<union> set ts"
proof (induction ts arbitrary: m)
  case (Cons t ts)
  obtain i where i: "txid P t = Inr i" using Cons.prems(1) by (auto simp: storable_transaction_def)
  have ts: "list_all (storable_transaction P) ts" using Cons.prems(1) by simp
  obtain x m1 where a: "mempool_add P t s h m = (x, m1)" by (cases "mempool_add P t s h m")
  have ok: "mempool_ok P (st_network s) m" using Cons.prems(2) n by simp
  note as = mempool_add_spec [OF ok Cons.prems(3) a]
  have okm1: "mempool_ok P TESTNET m1" using as(1) n by simp
  have k: "exn_kind y = MempoolError" if "x = Inl y" for y
    using raises_onlyD [OF admit_raises [OF P, of s]] as(4) that n by auto
  have m1: "set (pending m) \<subseteq> set (pending m1)" "set (pending m1) \<subseteq> insert t (set (pending m))"
    using as(3) by (cases x; auto)+
  obtain m' where m': "readd_disconnected P s h ts m1 = (Inr (), m')" "mempool_ok P TESTNET m'" "mempool_fits P s h m'"
      "set (pending m1) \<subseteq> set (pending m')" "set (pending m') \<subseteq> set (pending m1) \<union> set ts"
    using Cons.IH [OF ts okm1 as(2)] by blast
  obtain m2 where m2: "readd_disconnected P s h ts m = (Inr (), m2)" "mempool_ok P TESTNET m2" "mempool_fits P s h m2"
      "set (pending m) \<subseteq> set (pending m2)" "set (pending m2) \<subseteq> set (pending m) \<union> set ts"
    using Cons.IH [OF ts Cons.prems(2,3)] by blast
  show ?case
  proof (cases "contains_transaction i s \<or> mempool_contains i m")
    case True
    then have "readd_disconnected P s h (t # ts) m = (Inr (), m2)" using i m2(1) by auto
    then show ?thesis using m2 by auto
  next
    case False
    then have "readd_disconnected P s h (t # ts) m = (Inr (), m')" using i m'(1) a k by (cases x) auto
    then show ?thesis using m' m1 by auto
  qed
qed simp

definition bodies_at :: "chain \<Rightarrow> bytes list \<Rightarrow> transaction list" where
  "bodies_at c hs = concat (map (\<lambda>h. bl_transactions (block_at c h)) hs)"

lemma block_bodies_spec:
  assumes t: "tree_ok P c" and k: "\<forall>h \<in> set hs. \<exists>e. map_of (ch_entries c) h = Some e \<and> block_at c h = en_block e"
  shows "block_bodies hs c = Inr (bodies_at c hs) \<and> list_all (storable_transaction P) (bodies_at c hs)"
proof -
  have "mapE (\<lambda>h. bindE (get_block h c) (\<lambda>b. Inr (bl_transactions b))) (map (\<lambda>h. h) hs)
      = Inr (map (\<lambda>h. bl_transactions (block_at c h)) hs)"
    by (rule mapE_map) (use k in \<open>auto simp: get_block_def known_entry_def dict_index_def\<close>)
  moreover have "list_all (storable_transaction P) (bl_transactions (block_at c h))" if "h \<in> set hs" for h
    using k that entry_storable [OF t] by (fastforce simp: storable_def)
  ultimately show ?thesis by (auto simp: block_bodies_def bodies_at_def list_all_iff)
qed

lemma fork_known:
  assumes t: "tree_ok P c" and f: "fork c old new a dis con"
  shows "\<forall>h \<in> set dis \<union> set con. \<exists>e. map_of (ch_entries c) h = Some e \<and> block_at c h = en_block e"
proof -
  obtain bs where "branch c old (dis @ bs)" "branch c new (rev con @ bs)" using f by (auto simp: fork_def)
  then show ?thesis using branch_known [OF t] by (metis Un_iff set_append set_rev)
qed

lemma reconcile_spec:
  assumes P: "platform_ok P" and c: "chain_ok P (nd_chain nd)" and m: "mempool_ok P TESTNET (nd_mempool nd)"
    and u: "update_ok c0 h e (nd_chain nd) u" and act: "cu_became_active u"
  shows "\<exists>m'. reconcile_mempool P u nd = (Inr (), nd\<lparr>nd_mempool := m'\<rparr>) \<and> mempool_ok P TESTNET m'
     \<and> mempool_fits P (tip_state (nd_chain nd)) (next_height (nd_chain nd)) m'
     \<and> set (pending m') \<subseteq> set (pending (nd_mempool nd)) \<union> set (bodies_at (nd_chain nd) (cu_disconnected u))"
proof -
  let ?c = "nd_chain nd"
  note t = chain_okD(1) [OF c] and tf = tip_facts [OF c]
  obtain a where f: "fork ?c (ch_tip c0) h a (cu_disconnected u) (cu_connected u)"
    using u act by (auto simp: update_ok_def)
  note k = fork_known [OF t f]
  have bc: "block_bodies (cu_connected u) ?c = Inr (bodies_at ?c (cu_connected u))"
      "list_all (storable_transaction P) (bodies_at ?c (cu_connected u))"
    and bd: "block_bodies (rev (cu_disconnected u)) ?c = Inr (bodies_at ?c (rev (cu_disconnected u)))"
      "list_all (storable_transaction P) (bodies_at ?c (rev (cu_disconnected u)))"
    using block_bodies_spec [OF t] k by simp_all
  obtain m1 where m1: "remove_confirmed P (bodies_at ?c (cu_connected u)) (nd_mempool nd) = (Inr (), m1)"
      "set (pending m1) \<subseteq> set (pending (nd_mempool nd))"
    using remove_confirmed_total [OF bc(2)] by blast
  have "mempool_ok P TESTNET m1" using mempool_ok_remove_confirmed [OF m] m1(1) by (metis snd_conv)
  from revalidate_spec [OF P _ tf(4) this, of "next_height ?c"]
  obtain removed m2 where m2: "revalidate P (tip_state ?c) (next_height ?c) m1 = (Inr removed, m2)"
      "mempool_ok P TESTNET m2" "mempool_fits P (tip_state ?c) (next_height ?c) m2"
      "mset (pending m2) + mset removed = mset (pending m1)"
    by (auto simp: tf(5))
  obtain m' where m': "readd_disconnected P (tip_state ?c) (next_height ?c) (bodies_at ?c (rev (cu_disconnected u))) m2 = (Inr (), m')"
      "mempool_ok P TESTNET m'" "mempool_fits P (tip_state ?c) (next_height ?c) m'"
      "set (pending m') \<subseteq> set (pending m2) \<union> set (bodies_at ?c (rev (cu_disconnected u)))"
    using readd_spec [OF P tf(5) bd(2) m2(2,3)] by blast
  have "set (pending m2) \<subseteq> set (pending m1)" using m2(4) by (metis mset_subset_eq_add_left set_mset_mono set_mset_mset)
  moreover have "set (bodies_at ?c (rev (cu_disconnected u))) = set (bodies_at ?c (cu_disconnected u))"
    by (simp add: bodies_at_def)
  ultimately show ?thesis
    using m1 m2(1) m' by (intro exI [of _ m']) (auto simp: reconcile_mempool_def bc(1) bd(1) context_of [OF c])
qed

lemma extend_chain_spec:
  assumes P: "platform_ok P" and nd: "node_ok P nd"
  shows "(\<exists>x. add_block P b (nd_chain nd) = (Inl x, nd_chain nd) \<and> extend_chain P b nd = (Inl x, nd))
    \<or> (\<exists>u c' st'. add_block P b (nd_chain nd) = (Inr u, c')
         \<and> extend_chain P b nd = (Inr u, nd\<lparr>nd_chain := c', nd_storage := st'\<rparr>) \<and> stored_with P c' st'
         \<and> (nd_storage nd = None \<longleftrightarrow> st' = None))"
proof -
  let ?c = "nd_chain nd"
  have r: "chain_reachable P ?c" and sw: "stored_with P ?c (nd_storage nd)" using nd by (simp_all add: node_ok_def)
  note ok = reachable_ok [OF P r]
  obtain c0 where c0: "new_chain P TESTNET = Inr c0" using chain_start [OF r] by blast
  have cp: "copy_chain P ?c = Inr ?c" by (rule copy_chain_same [OF c0 chain_okD(3) [OF ok]])
  obtain x c' where a: "add_block P b ?c = (x, c')" by (cases "add_block P b ?c")
  show ?thesis
  proof (cases x)
    case (Inl y)
    then have "c' = ?c" using add_block_raises [OF ok] a by blast
    then show ?thesis using a Inl cp by (cases "nd_storage nd") (simp_all add: extend_chain_def)
  next
    case (Inr u)
    show ?thesis
    proof (cases "nd_storage nd")
      case None
      then show ?thesis using a Inr by (simp add: extend_chain_def stored_with_def)
    next
      case (Some st)
      have st: "store_of P ?c st" using sw Some by (simp add: stored_with_def)
      have "persist_chain_update P c' u st = (Inr True, st\<lparr>sg_database := database_of P c'\<rparr>)"
        using persist_spec [OF ok _ st] a Inr by blast
      then show ?thesis
        using a Inr Some cp store_of_persisted [OF st, of c']
        by (intro disjI2 exI [of _ u] exI [of _ c'] exI [of _ "Some (st\<lparr>sg_database := database_of P c'\<rparr>)"])
          (simp add: extend_chain_def stored_with_def)
    qed
  qed
qed

lemma submit_block_spec:
  assumes P: "platform_ok P" and nd: "node_ok P nd"
  shows "(\<exists>x. add_block P b (nd_chain nd) = (Inl x, nd_chain nd) \<and> submit_block P b nd = (Inl x, nd))
    \<or> (\<exists>u c' nd'. add_block P b (nd_chain nd) = (Inr u, c') \<and> submit_block P b nd = (Inr u, nd') \<and> nd_chain nd' = c'
         \<and> node_ok P nd' \<and> (nd_storage nd' = None \<longleftrightarrow> nd_storage nd = None)
         \<and> set (pending (nd_mempool nd')) \<subseteq> set (pending (nd_mempool nd)) \<union> set (bodies_at c' (cu_disconnected u)))"
proof -
  let ?c = "nd_chain nd"
  have r: "chain_reachable P ?c" and m: "mempool_ok P TESTNET (nd_mempool nd)"
    and f: "mempool_fits P (tip_state ?c) (next_height ?c) (nd_mempool nd)" using nd by (simp_all add: node_ok_def)
  note ok = reachable_ok [OF P r]
  show ?thesis
    using extend_chain_spec [OF P nd, of b]
  proof (elim disjE exE conjE, goal_cases)
    case (1 x)
    then show ?case by (simp add: submit_block_def)
  next
    case (2 u c' st')
    let ?nd = "nd\<lparr>nd_chain := c', nd_storage := st'\<rparr>"
    obtain h e where u: "update_ok ?c h e c' u" and ok': "chain_ok P c'" and x: "extends ?c c'"
      by (rule added_entry [OF ok 2(1)])
    have "chain_step P ?c c'" using 2(1) unfolding chain_step_def by (metis snd_conv)
    then have r': "chain_reachable P c'" using r unfolding chain_reachable_def by (rule reach_step [rotated])
    show ?case
    proof (cases "cu_became_active u")
      case False
      then have "ch_tip c' = ch_tip ?c" using u by (simp add: update_ok_def)
      then have "tip_entry c' = tip_entry ?c" by (rule chain_blocks_same(2) [OF ok ok' x])
      then have "node_ok P ?nd" using r' m f 2(3) by (simp add: node_ok_def tip_state_def next_height_def)
      then show ?thesis using False 2 by (simp add: submit_block_def)
    next
      case True
      obtain m' where m': "reconcile_mempool P u ?nd = (Inr (), ?nd\<lparr>nd_mempool := m'\<rparr>)" "mempool_ok P TESTNET m'"
          "mempool_fits P (tip_state c') (next_height c') m'"
          "set (pending m') \<subseteq> set (pending (nd_mempool nd)) \<union> set (bodies_at c' (cu_disconnected u))"
        using reconcile_spec [OF P, of ?nd ?c h e u] ok' m u True by auto
      then have "node_ok P (?nd\<lparr>nd_mempool := m'\<rparr>)" using r' 2(3) by (simp add: node_ok_def)
      then show ?thesis using True 2 m' by (simp add: submit_block_def)
    qed
  qed
qed

subsection \<open>Mining\<close>

lemma mine_loop_raises:
  assumes "\<And>n. 0 \<le> n \<Longrightarrow> n \<le> U64_MAX \<Longrightarrow> \<exists>i. block_hash P (with_nonce n b) = Inr i"
  shows "0 \<le> nonce \<Longrightarrow> raises_only {MiningError} (mine_loop P b k nonce)"
proof (induction k arbitrary: nonce)
  case (Suc k)
  show ?case
  proof (cases "nonce > U64_MAX")
    case False
    then obtain i where "block_hash P (with_nonce nonce b) = Inr i" using assms [of nonce] Suc.prems by auto
    moreover have "raises_only {MiningError} (mine_loop P b k (nonce + 1))" by (rule Suc.IH) (use Suc.prems in simp)
    ultimately show ?thesis by (simp add: Let_def raises_only_def)
  qed (simp add: raises_only_def)
qed (simp add: raises_only_def)

lemma expected_target_total:
  assumes t: "tree_ok P c" and p: "map_of (ch_entries c) p = Some e" and h: "br_height (en_record e) \<noteq> U64_MAX"
  obtains d where "expected_target_for_child c p = Inr d" and "0 < d" and "d \<le> MAX_TARGET"
proof (cases "(br_height (en_record e) + 1) mod 120 = 0")
  case True
  then show thesis
    using that expected_target_spec(3) [OF t p h True] retarget_bounds(1,2) [OF entry_okD(8,9) [OF tree_entry [OF t p]]]
    by blast
next
  case False
  then show thesis
    using that expected_target_spec(2) [OF t p h False] entry_okD(8,9) [OF tree_entry [OF t p]] by blast
qed

text \<open>A child of the tip is heavier than the tip, so it becomes the tip.\<close>

lemma child_of_tip_active:
  assumes ok: "chain_ok P c" and a: "add_block P b c = (Inr u, c')" and p: "bh_previous_block_hash (bl_header b) = ch_tip c"
  shows "cu_became_active u" and "chain_tip c' = Inr b" and "chain_height c' = Inr (next_height c)"
    and "Inr ` st_txids (tip_state c') \<supseteq> txid P ` set (bl_transactions b)"
proof -
  obtain h e where u: "update_ok c h e c' u" and ok': "chain_ok P c'" and e: "map_of (ch_entries c') h = Some e"
    and b: "en_block e = b" and pe: "br_parent_hash (en_record e) = Some (bh_previous_block_hash (bl_header b))"
    and x: "extends c c'"
    by (rule added_entry [OF ok a])
  note t = chain_okD(1) [OF ok] and t' = chain_okD(1) [OF ok'] and te = tip_facts(9) [OF ok]
  have te': "map_of (ch_entries c') (ch_tip c) = Some (tip_entry c)" by (rule extends_lookup [OF x te])
  have ch: "child_ok P c' e (tip_entry c)" using tree_entry [OF t' e] pe te' p by (auto simp: entry_ok_def)
  have "1 \<le> block_work (bh_difficulty_target (bl_header (en_block e)))"
    using block_work_bounds [OF entry_okD(8,9) [OF tree_entry [OF t' e]]] by simp
  then have "br_cumulative_work (en_record e) > br_cumulative_work (en_record (tip_entry c))"
    using ch by (simp add: child_ok_def)
  then show act: "cu_became_active u" using u te by (auto simp: update_ok_def)
  then have "ch_tip c' = h" using u by (simp add: update_ok_def)
  then have tip: "tip_entry c' = e" using e by (simp add: tip_entry_def)
  then show "chain_tip c' = Inr b" using tip_facts(3) [OF ok'] b by simp
  show "chain_height c' = Inr (next_height c)"
    using tip_facts(2) [OF ok'] tip ch by (simp add: child_ok_def next_height_def)
  obtain ex where v: "validate_and_execute_block P (en_block e) (Some (en_block (tip_entry c))) (entry_state (tip_entry c))
        (br_total_supply (en_record (tip_entry c))) TESTNET (Some (bh_difficulty_target (bl_header (en_block e)))) = Inr ex"
      "snapshot (ex_state ex) = en_snapshot e" using ch by (auto simp: child_ok_def)
  have "st_txids (tip_state c') = st_txids (ex_state ex)"
    by (simp add: tip_state_def tip v(2) [symmetric] snapshot_def entry_state_def state_of_snapshot_def)
  then show "Inr ` st_txids (tip_state c') \<supseteq> txid P ` set (bl_transactions b)"
    using accepted_txids(3) [OF chain_okD(2) [OF ok] entry_okD(4) [OF tree_entry [OF t te]] v(1)] b by auto
qed

lemma pending_not_confirmed:
  "mempool_fits P s h m \<Longrightarrow> txid P ` set ts \<subseteq> Inr ` st_txids s \<Longrightarrow> set ts \<inter> set (pending m) = {}"
  by (fastforce simp: mempool_fits_def covered_def list_all_iff pending_valid_def)

text \<open>
  What a miner works on: the transactions that \<open>select\<close> takes from the pool, on the tip, one higher, with the
  target the chain expects there, paying the miner; with any nonce that has proof of work it is a block that
  consensus accepts on the tip (so its roots, amounts and reward are right).
\<close>

definition mining_candidate :: "platform \<Rightarrow> pystr \<Rightarrow> int \<Rightarrow> int \<Rightarrow> node \<Rightarrow> block \<Rightarrow> bool" where
  "mining_candidate P miner ts limit nd b \<longleftrightarrow>
     (\<exists>s. execution_context P nd = Inr (s, bh_height (bl_header b))
        \<and> select_transactions P s (bh_height (bl_header b)) limit (nd_mempool nd) = Inr (bl_transactions b))
   \<and> bh_previous_block_hash (bl_header b) = ch_tip (nd_chain nd)
   \<and> expected_target_for_child (nd_chain nd) (ch_tip (nd_chain nd)) = Inr (bh_difficulty_target (bl_header b))
   \<and> bh_timestamp (bl_header b) = ts \<and> bh_miner_address (bl_header b) = miner \<and> rt_miner_address (bl_reward b) = miner
   \<and> (\<forall>n. 0 \<le> n \<longrightarrow> n \<le> U64_MAX \<longrightarrow> (\<exists>i. block_hash P (with_nonce n b) = Inr i))
   \<and> (\<forall>n. proof_of_work P (with_nonce n b) \<longrightarrow>
        (\<exists>tip s ex. chain_tip (nd_chain nd) = Inr tip \<and> chain_state P (nd_chain nd) = Inr s
           \<and> validate_and_execute_block P (with_nonce n b) (Some tip) s (total_balance s) TESTNET
               (Some (bh_difficulty_target (bl_header b))) = Inr ex))"

text \<open>The nonces a search of so many attempts goes through, and those among them that have proof of work.\<close>

definition nonce_wins :: "platform \<Rightarrow> block \<Rightarrow> int \<Rightarrow> int \<Rightarrow> bool" where
  "nonce_wins P b attempts n \<longleftrightarrow> 0 \<le> n \<and> n < attempts \<and> n \<le> U64_MAX \<and> proof_of_work P (with_nonce n b)"

lemma mine_loop_fails:
  assumes "\<And>n. 0 \<le> n \<Longrightarrow> n \<le> U64_MAX \<Longrightarrow> \<exists>i. block_hash P (with_nonce n b) = Inr i"
  shows "0 \<le> start \<Longrightarrow> mine_loop P b k start = Inl e \<Longrightarrow> start \<le> n \<Longrightarrow> n < start + int k \<Longrightarrow> n \<le> U64_MAX \<Longrightarrow>
     \<not> proof_of_work P (with_nonce n b)"
proof (induction k arbitrary: start)
  case (Suc k)
  obtain h where h: "block_hash P (with_nonce start b) = Inr h" using assms [of start] Suc.prems by auto
  have l: "mine_loop P b k (start + 1) = Inl e" "\<not> hash_meets_target h (bh_difficulty_target (bl_header b))"
    using Suc.prems(2,3,5) h by (auto simp: Let_def split: if_splits)
  show ?case
  proof (cases "n = start")
    case False
    then show ?thesis using Suc.IH [of "start + 1"] Suc.prems l(1) by simp
  qed (use h l(2) in \<open>simp add: proof_of_work_def\<close>)
qed simp

text \<open>The search of \<open>mine_block\<close>, from nonce 0 on.\<close>

lemma mine_block_search:
  assumes h: "\<And>n. 0 \<le> n \<Longrightarrow> n \<le> U64_MAX \<Longrightarrow> \<exists>i. block_hash P (with_nonce n b) = Inr i" and z: "bh_nonce (bl_header b) = 0"
  shows "case mine_block P b attempts of
      Inl e \<Rightarrow> exn_kind e = MiningError \<and> (\<forall>n. \<not> nonce_wins P b attempts n)
    | Inr c \<Rightarrow> \<exists>n. c = with_nonce n b \<and> nonce_wins P b attempts n \<and> (\<forall>m. m < n \<longrightarrow> \<not> nonce_wins P b attempts m)"
proof (cases "mine_block P b attempts")
  case (Inl e)
  show ?thesis
  proof (cases "attempts \<le> 0")
    case False
    then have l: "mine_loop P b (nat attempts) 0 = Inl e" using Inl z by (simp add: mine_block_def)
    have "raises_only {MiningError} (mine_loop P b (nat attempts) 0)" by (rule mine_loop_raises [OF h]) simp_all
    then show ?thesis using Inl l raises_onlyD mine_loop_fails [OF h _ l] by (force simp: nonce_wins_def)
  qed (use Inl in \<open>auto simp: mine_block_def nonce_wins_def\<close>)
next
  case (Inr c)
  then obtain n where n: "finds P b c 0 (nat attempts) n" "0 < attempts"
    using z by (auto simp: mine_block_def mine_loop_iff split: if_splits)
  have "\<not> nonce_wins P b attempts m" if "m < n" for m
    using n that unfolding finds_def by (cases "0 \<le> m") (auto simp: nonce_wins_def missed_def proof_of_work_def)
  then show ?thesis using Inr n by (auto simp: finds_def nonce_wins_def intro!: exI [of _ n])
qed

text \<open>The half of \<open>mine\<close> that prepares the search cannot fail when the arguments are in range.\<close>

lemma mine_prepares:
  assumes P: "platform_ok P" and nd: "node_ok P nd" and a: "is_valid_address P miner TESTNET"
    and mx: "0 \<le> max_transactions" "max_transactions \<le> MAX_BLOCK_TRANSACTIONS" and h: "next_height (nd_chain nd) \<le> U64_MAX"
    and ts: "ts = (case timestamp of None \<Rightarrow> bh_timestamp (bl_header (en_block (tip_entry (nd_chain nd)))) + TARGET_BLOCK_SECONDS
                  | Some t \<Rightarrow> t)"
      "bh_timestamp (bl_header (en_block (tip_entry (nd_chain nd)))) < ts" "0 \<le> ts" "ts \<le> U64_MAX"
  obtains b sel where "mining_candidate P miner ts max_transactions nd b"
    and "build_candidate P miner sel ts None (nd_chain nd) = Inr b" and "set sel \<subseteq> set (pending (nd_mempool nd))"
    and "bl_transactions b = sel" and "bh_nonce (bl_header b) = 0"
    and "\<And>n. 0 \<le> n \<Longrightarrow> n \<le> U64_MAX \<Longrightarrow> \<exists>i. block_hash P (with_nonce n b) = Inr i"
    and "mine P miner timestamp max_transactions attempts nd = (case mine_block P b attempts of
      Inl e \<Rightarrow> (Inl e, nd)
    | Inr b \<Rightarrow> (case submit_block P b nd of (Inl e, nd) \<Rightarrow> (Inl e, nd) | (Inr u, nd) \<Rightarrow> (Inr (b, u), nd)))"
proof -
  let ?c = "nd_chain nd" and ?te = "tip_entry (nd_chain nd)"
  let ?s = "tip_state ?c" and ?h = "next_height ?c"
  note ok = node_chain_ok [OF P nd]
  note t = chain_okD(1) [OF ok] and tf = tip_facts [OF ok]
  note eo = entry_okD [OF tree_entry [OF t tf(9)]]
  have n: "network_fits (st_network ?s)" using tf(5) by simp
  have mp: "mempool_ok P (st_network ?s) (nd_mempool nd)" using nd tf(5) by (simp add: node_ok_def)
  obtain sel fees w where sel: "select_transactions P ?s ?h max_transactions (nd_mempool nd) = Inr sel"
      "int (length sel) \<le> max_transactions" "set sel \<subseteq> set (pending (nd_mempool nd))"
      "apply_transactions P sel ?h ?s = (Inr fees, w)"
    using select_transactions_spec [OF P n tf(4) mp tf(7) _ h mx(1)] tf(8) by fastforce
  have hh: "br_height (en_record ?te) \<noteq> U64_MAX" "bh_height (bl_header (en_block ?te)) + 1 = ?h"
    using h eo(3) by (auto simp: next_height_def)
  obtain d where d: "expected_target_for_child ?c (ch_tip ?c) = Inr d" "0 < d" "d \<le> MAX_TARGET"
    by (rule expected_target_total [OF t tf(9) hh(1)])
  have "0 \<le> br_total_supply (en_record ?te)" "br_total_supply (en_record ?te) \<le> MAX_SUPPLY_ATOMS"
    using eo(7) emission_bound emission_nonneg by simp_all
  then have g: "candidate_guards P (en_block ?te) ?s (br_total_supply (en_record ?te)) miner sel ts
      (required_target (Some d) (en_block ?te))"
    using ts mx sel(2) d a tf(5) hh eo(3) by (simp add: candidate_guards_def required_target_def)
  obtain b where b: "build_block_candidate P (en_block ?te) ?s (br_total_supply (en_record ?te)) miner sel ts (Some d) = Inr b"
    using candidate_total [OF P n tf(4) _ g eo(1)] tf(6) sel(4) hh(2) by auto
  note f = candidate_fields [OF tf(4) b]
  have bc: "build_candidate P miner sel ts None ?c = Inr b"
    using build_candidate_iff [OF t] tf(9) d(1) b by (auto simp: parent_hash_of_def tip_state_def)
  have "mining_candidate P miner ts max_transactions nd b"
    using f d(1) sel(1) hh(2) eo(1) tf(1,3) tf(5) context_of [OF ok] tf(6)
      candidate_nonce_valid [OF _ tf(4) b] P candidate_hash [OF P n tf(4) b] eo(2,3)
    by (auto simp: mining_candidate_def required_target_def)
  moreover have tss: "(case timestamp of None \<Rightarrow> bindE (chain_tip ?c) (\<lambda>tip. Inr (bh_timestamp (bl_header tip) + TARGET_BLOCK_SECONDS))
                | Some t \<Rightarrow> Inr t) = Inr ts"
    using tf(3) ts(1) by (cases timestamp) simp_all
  then have "mine P miner timestamp max_transactions attempts nd = (case mine_block P b attempts of
      Inl e \<Rightarrow> (Inl e, nd)
    | Inr b \<Rightarrow> (case submit_block P b nd of (Inl e, nd) \<Rightarrow> (Inl e, nd) | (Inr u, nd) \<Rightarrow> (Inr (b, u), nd)))"
    using mx by (simp add: mine_def context_of [OF ok] sel(1) bc)
  ultimately show ?thesis using that bc sel(3) f(1,4) candidate_hash [OF P n tf(4) b] eo(2,3) by auto
qed

text \<open>What is done with a mined block: it becomes the tip, unless its hash is known.\<close>

lemma mined_block_submitted:
  assumes P: "platform_ok P" and nd: "node_ok P nd" and bc: "build_candidate P miner sel ts None (nd_chain nd) = Inr b0"
    and mb: "mine_block P b0 attempts = Inr b" and i: "block_hash P b = Inr i" and s: "submit_block P b nd = (r, nd')"
  shows "case r of
      Inl e \<Rightarrow> nd' = nd \<and> exn_kind e = ChainError \<and> chain_contains i (nd_chain nd)
    | Inr u \<Rightarrow> node_ok P nd' \<and> cu_became_active u \<and> chain_tip (nd_chain nd') = Inr b
        \<and> chain_height (nd_chain nd') = Inr (next_height (nd_chain nd))
        \<and> set (bl_transactions b) \<inter> set (pending (nd_mempool nd')) = {}"
proof -
  note ok = node_chain_ok [OF P nd]
  note tf = tip_facts [OF ok] and t = chain_okD(1) [OF ok]
  obtain d where b0: "build_block_candidate P (en_block (tip_entry (nd_chain nd))) (tip_state (nd_chain nd))
      (br_total_supply (en_record (tip_entry (nd_chain nd)))) miner sel ts (Some d) = Inr b0"
    using bc build_candidate_iff [OF t] tf(9) by (auto simp: parent_hash_of_def tip_state_def)
  have p: "bh_previous_block_hash (bl_header b) = ch_tip (nd_chain nd)"
    using candidate_fields(5) [OF tf(4) b0] mined_same(4) [OF mb] entry_okD(1) [OF tree_entry [OF t tf(9)]] by simp
  show ?thesis
    using submit_block_spec [OF P nd, of b]
  proof (elim disjE exE conjE, goal_cases)
    case (1 x)
    moreover have "map_of (ch_entries (nd_chain nd)) i \<noteq> None"
      using mined_block_added [OF ok bc mb i] 1(1) by auto
    ultimately show ?case using s add_block_raises [OF ok 1(1)] by (auto simp: chain_contains_def)
  next
    case (2 u c' nd1)
    note act = child_of_tip_active [OF ok 2(1) p]
    have "mempool_fits P (tip_state (nd_chain nd1)) (next_height (nd_chain nd1)) (nd_mempool nd1)"
      using 2(4) by (simp add: node_ok_def)
    then have "set (bl_transactions b) \<inter> set (pending (nd_mempool nd1)) = {}"
      by (rule pending_not_confirmed) (use act(4) 2(3) in simp)
    then show ?case using s 2 act by auto
  qed
qed

text \<open>What a miner is left with: a new tip, or nothing changed and the reason why.\<close>

definition mining_outcome ::
  "platform \<Rightarrow> int \<Rightarrow> block \<Rightarrow> node \<Rightarrow> (block \<times> chain_update) res \<Rightarrow> node \<Rightarrow> bool" where
  "mining_outcome P attempts candidate nd r nd' \<longleftrightarrow> (case r of
      Inl e \<Rightarrow> nd' = nd
        \<and> (exn_kind e = MiningError \<and> (\<forall>n. \<not> nonce_wins P candidate attempts n)
         \<or> exn_kind e = ChainError \<and> (\<exists>n i. nonce_wins P candidate attempts n \<and> (\<forall>m. m < n \<longrightarrow> \<not> nonce_wins P candidate attempts m)
             \<and> block_hash P (with_nonce n candidate) = Inr i \<and> chain_contains i (nd_chain nd)))
    | Inr (b, u) \<Rightarrow> (\<exists>n. b = with_nonce n candidate \<and> nonce_wins P candidate attempts n
             \<and> (\<forall>m. m < n \<longrightarrow> \<not> nonce_wins P candidate attempts m))
        \<and> node_ok P nd' \<and> cu_became_active u \<and> chain_tip (nd_chain nd') = Inr b
        \<and> chain_height (nd_chain nd') = Inr (next_height (nd_chain nd))
        \<and> set (bl_transactions b) \<subseteq> set (pending (nd_mempool nd))
        \<and> set (bl_transactions b) \<inter> set (pending (nd_mempool nd')) = {})"

lemma mine_spec:
  assumes P: "platform_ok P" and nd: "node_ok P nd" and a: "is_valid_address P miner TESTNET"
    and mx: "0 \<le> max_transactions" "max_transactions \<le> MAX_BLOCK_TRANSACTIONS" and h: "next_height (nd_chain nd) \<le> U64_MAX"
    and ts: "ts = (case timestamp of None \<Rightarrow> bh_timestamp (bl_header (en_block (tip_entry (nd_chain nd)))) + TARGET_BLOCK_SECONDS
                  | Some t \<Rightarrow> t)"
      "bh_timestamp (bl_header (en_block (tip_entry (nd_chain nd)))) < ts" "0 \<le> ts" "ts \<le> U64_MAX"
    and m: "mine P miner timestamp max_transactions attempts nd = (r, nd')"
  shows "\<exists>b. mining_candidate P miner ts max_transactions nd b \<and> mining_outcome P attempts b nd r nd'"
proof -
  obtain b sel where c: "mining_candidate P miner ts max_transactions nd b"
    "build_candidate P miner sel ts None (nd_chain nd) = Inr b" "set sel \<subseteq> set (pending (nd_mempool nd))"
    "bl_transactions b = sel" "bh_nonce (bl_header b) = 0"
    and hs: "\<And>n. 0 \<le> n \<Longrightarrow> n \<le> U64_MAX \<Longrightarrow> \<exists>i. block_hash P (with_nonce n b) = Inr i"
    and run: "mine P miner timestamp max_transactions attempts nd = (case mine_block P b attempts of
      Inl e \<Rightarrow> (Inl e, nd)
    | Inr b \<Rightarrow> (case submit_block P b nd of (Inl e, nd) \<Rightarrow> (Inl e, nd) | (Inr u, nd) \<Rightarrow> (Inr (b, u), nd)))"
    by (rule mine_prepares [OF P nd a mx h ts, of attempts]) (rule that)
  note search = mine_block_search [OF hs c(5), of attempts]
  have "mining_outcome P attempts b nd r nd'"
  proof (cases "mine_block P b attempts")
    case (Inl e)
    then show ?thesis using run m search by (simp add: mining_outcome_def)
  next
    case (Inr c')
    obtain n where n: "c' = with_nonce n b" "nonce_wins P b attempts n" "\<forall>m. m < n \<longrightarrow> \<not> nonce_wins P b attempts m"
      using search Inr by auto
    obtain i where i: "block_hash P (with_nonce n b) = Inr i" using n(2) hs by (auto simp: nonce_wins_def)
    obtain x nd1 where s: "submit_block P c' nd = (x, nd1)" by (cases "submit_block P c' nd")
    have o: "r = (case x of Inl e \<Rightarrow> Inl e | Inr u \<Rightarrow> Inr (c', u))" "nd' = nd1"
      using run m Inr s by (simp_all split: sum.splits)
    note d = mined_block_submitted [OF P nd c(2) Inr i [folded n(1)] s]
    show ?thesis
    proof (cases x)
      case (Inl e)
      then show ?thesis using o d n i by (auto simp: mining_outcome_def)
    next
      case (Inr u)
      then show ?thesis using o d n c(3,4) unfolding mining_outcome_def by (auto simp: mined_same)
    qed
  qed
  then show ?thesis using c(1) by blast
qed

subsection \<open>Sending\<close>

lemma created_transaction_fields:
  assumes "create_signed_transaction P k recipient amount fee nonce until network = Inr t"
  shows "tx_recipient_address t = recipient" and "tx_amount_atoms t = amount" and "tx_fee_atoms t = fee"
    and "tx_nonce t = nonce" and "tx_valid_until_height t = until"
    and "public_key_from_private P k = Inr (tx_sender_public_key t)"
    and "address_from_public_key P (tx_sender_public_key t) network = Inr (tx_sender_address t)"
  using assms by (auto simp: create_signed_transaction_def bindE_eq_Inr Let_def)

text \<open>\<open>pays\<close>: the transaction is the payment that was asked for, by this wallet, with this nonce and lifetime.\<close>

definition pays :: "wallet \<Rightarrow> pystr \<Rightarrow> int \<Rightarrow> int \<Rightarrow> int \<Rightarrow> int \<Rightarrow> transaction \<Rightarrow> bool" where
  "pays w recipient amount fee nonce until t \<longleftrightarrow>
     tx_sender_address t = wa_address w \<and> tx_sender_public_key t = wa_public_key w
   \<and> tx_recipient_address t = recipient \<and> tx_amount_atoms t = amount \<and> tx_fee_atoms t = fee
   \<and> tx_nonce t = nonce \<and> tx_valid_until_height t = until"

lemma send_spec:
  assumes P: "platform_ok P" and nd: "node_ok P nd" and w: "new_wallet P name k TESTNET = Inr w"
    and s: "send P w recipient amount fee blocks nd = (r, nd')"
  shows "node_ok P nd' \<and> nd_chain nd' = nd_chain nd \<and> nd_storage nd' = nd_storage nd
    \<and> (case r of Inl e \<Rightarrow> nd' = nd
       | Inr t \<Rightarrow> pending (nd_mempool nd') = pending (nd_mempool nd) @ [t]
           \<and> (\<exists>nonce. next_nonce P (wa_address w) (tip_state (nd_chain nd)) (nd_mempool nd) = Inr nonce
                \<and> pays w recipient amount fee nonce (next_height (nd_chain nd) + blocks) t))"
proof -
  let ?c = "nd_chain nd"
  note ok = node_chain_ok [OF P nd]
  note tf = tip_facts [OF ok]
  have wf: "wa_network w = TESTNET" "wa_private_key w = k" "wa_public_key w = ed25519_public_key P k"
      "address_from_public_key P (wa_public_key w) TESTNET = Inr (wa_address w)" "length k = 32"
    using w new_wallet_iff [OF platform_okD(1) [OF P] network_ok_TESTNET] by auto
  define made where "made = (if wa_network w \<noteq> ch_network ?c then raise NodeError ''wallet belongs to another network''
         else if blocks < 0 then raise NodeError ''transaction lifetime must be a non-negative integer''
         else
         bindE (chain_height ?c) (\<lambda>height.
         let execution_height = height + 1;
             valid_until_height = execution_height + blocks in
         if valid_until_height > U64_MAX then raise NodeError ''transaction lifetime exceeds the height range''
         else
         bindE (chain_state P ?c) (\<lambda>s.
         bindE (next_nonce P (wa_address w) s (nd_mempool nd)) (\<lambda>nonce.
         rethrow is_value_error (Exn NodeError)
           (wallet_transaction P recipient amount fee nonce valid_until_height w)))))"
  have run: "send P w recipient amount fee blocks nd = (case made of Inl e \<Rightarrow> (Inl e, nd)
       | Inr t \<Rightarrow> (case submit_transaction P t nd of (Inl e, nd) \<Rightarrow> (Inl e, nd) | (Inr _, nd) \<Rightarrow> (Inr t, nd)))"
    by (simp add: send_def made_def)
  show ?thesis
  proof (cases made)
    case (Inl e)
    then show ?thesis using run s nd by simp
  next
    case (Inr t)
    obtain nonce where n: "next_nonce P (wa_address w) (tip_state ?c) (nd_mempool nd) = Inr nonce"
        "wallet_transaction P recipient amount fee nonce (next_height ?c + blocks) w = Inr t"
      using Inr tf(1,2) unfolding made_def by (auto simp: bindE_eq_Inr Let_def next_height_def split: if_splits)
    have "pays w recipient amount fee nonce (next_height ?c + blocks) t"
      using created_transaction_fields [of P k recipient amount fee nonce _ TESTNET t] n(2) wf
      by (auto simp: wallet_transaction_def pays_def public_key_from_private_def require_bytes_def)
    moreover obtain x nd1 where x: "submit_transaction P t nd = (x, nd1)" by (cases "submit_transaction P t nd")
    note st = submit_transaction_spec [OF P nd x]
    ultimately show ?thesis using run s Inr x st n(1) by (cases x) auto
  qed
qed

subsection \<open>Every run of a node\<close>

definition node_start :: "platform \<Rightarrow> node \<Rightarrow> bool" where
  "node_start P nd \<longleftrightarrow> new_node P TESTNET None = Inr nd
     \<or> (\<exists>st c. chain_reachable P c \<and> store_of P c st \<and> new_node P TESTNET (Some st) = Inr nd)"

inductive node_step :: "platform \<Rightarrow> node \<Rightarrow> node \<Rightarrow> bool" for P where
  step_submit_transaction: "node_step P nd (snd (submit_transaction P t nd))"
| step_send: "new_wallet P name k TESTNET = Inr w \<Longrightarrow> node_step P nd (snd (send P w recipient amount fee blocks nd))"
| step_submit_block: "node_step P nd (snd (submit_block P b nd))"
| step_mine: "node_step P nd (snd (mine P miner timestamp max_transactions attempts nd))"

inductive_cases node_stepE: "node_step P nd nd'"

definition node_reachable :: "platform \<Rightarrow> node \<Rightarrow> bool" where
  "node_reachable P = reach (node_start P) (node_step P)"

lemma new_node_ok:
  assumes P: "platform_ok P" and s: "node_start P nd"
  shows "node_ok P nd"
proof -
  have "node_ok P \<lparr>nd_chain = c, nd_storage = st, nd_mempool = new_mempool\<rparr>"
    if "chain_reachable P c" "stored_with P c st" for c st
    using that tip_facts(4) [OF reachable_ok [OF P that(1)]] by (simp add: node_ok_def)
  moreover have "chain_reachable P c" if "new_chain P TESTNET = Inr c" for c
    using that unfolding chain_reachable_def by (rule reach_start)
  ultimately show ?thesis
    using s load_spec [OF P]
    by (auto simp: node_start_def new_node_def bindE_eq_Inr stored_with_def split: if_splits)
qed

lemma submit_block_ok: "platform_ok P \<Longrightarrow> node_ok P nd \<Longrightarrow> node_ok P (snd (submit_block P b nd))"
  using submit_block_spec [of P nd b] by auto

lemma mine_steps: "snd (mine P miner timestamp mx attempts nd) = nd
   \<or> (\<exists>b. snd (mine P miner timestamp mx attempts nd) = snd (submit_block P b nd))"
proof -
  have "snd (case m of Inl e \<Rightarrow> (Inl e, nd) | Inr b \<Rightarrow> (case submit_block P b nd of
      (Inl e, nd) \<Rightarrow> (Inl e, nd) | (Inr u, nd) \<Rightarrow> (Inr (b, u), nd))) = nd
    \<or> (\<exists>b. snd (case m of Inl e \<Rightarrow> (Inl e, nd) | Inr b \<Rightarrow> (case submit_block P b nd of
      (Inl e, nd) \<Rightarrow> (Inl e, nd) | (Inr u, nd) \<Rightarrow> (Inr (b, u), nd))) = snd (submit_block P b nd))" for m
  proof (cases m)
    case (Inr b)
    then show ?thesis by (cases "submit_block P b nd"; cases "fst (submit_block P b nd)")
        (auto, metis snd_conv, metis snd_conv)
  qed simp
  then show ?thesis unfolding mine_def .
qed

interpretation node_machine: machine "node_start P" "node_step P" "\<lambda>nd. platform_ok P \<longrightarrow> node_ok P nd" for P
proof unfold_locales
  fix nd nd' assume n: "platform_ok P \<longrightarrow> node_ok P nd" and s: "node_step P nd nd'"
  show "platform_ok P \<longrightarrow> node_ok P nd'"
  proof
    assume P: "platform_ok P"
    then have nd: "node_ok P nd" using n by blast
    from s show "node_ok P nd'"
    proof cases
      case (step_submit_transaction t)
      then show ?thesis using submit_transaction_spec [OF P nd] by (metis prod.collapse)
    next
      case (step_send name k w recipient amount fee blocks)
      then show ?thesis using send_spec [OF P nd] by (metis prod.collapse)
    next
      case (step_submit_block b)
      then show ?thesis using submit_block_ok [OF P nd] by simp
    next
      case (step_mine miner timestamp mx attempts)
      then show ?thesis using mine_steps submit_block_ok [OF P nd] nd by metis
    qed
  qed
qed (simp add: new_node_ok)

lemma node_reachable_ok: "platform_ok P \<Longrightarrow> node_reachable P nd \<Longrightarrow> node_ok P nd"
  using node_machine.reach_inv by (simp add: node_reachable_def)

text \<open>A persistent node on the sample chain.\<close>

definition sample_node :: node where
  "sample_node = \<lparr>nd_chain = sample_chain, nd_storage = Some (sample_store sample_chain), nd_mempool = new_mempool\<rparr>"

lemma sample_node_reachable: "node_reachable sample_platform sample_node"
proof -
  have "new_node sample_platform TESTNET (Some (sample_store sample_chain)) = Inr sample_node"
    using load_spec [OF sample_platform_ok sample_chain_reachable sample_store_of]
    by (simp add: new_node_def sample_node_def) (simp add: sample_store_def)
  then have "node_start sample_platform sample_node"
    unfolding node_start_def using sample_chain_reachable sample_store_of by blast
  then show ?thesis unfolding node_reachable_def by (rule reach_start)
qed

subsection \<open>Properties\<close>

text \<open>C2. \<open>node_invariant\<close>: after any run of a node, in memory or on a database, the chain is one that
  \<open>add_block\<close> builds, the database holds exactly its tables, the pool is consistent and its transactions
  are valid, unconfirmed, gapless per sender and covered by the balances at the tip.\<close>

theorem node_invariant:
  assumes "platform_ok P" and "node_reachable P nd"
  shows "chain_reachable P (nd_chain nd) \<and> mempool_ok P TESTNET (nd_mempool nd)
     \<and> (\<exists>s h. execution_context P nd = Inr (s, h) \<and> mempool_fits P s h (nd_mempool nd))
     \<and> (case nd_storage nd of None \<Rightarrow> True | Some st \<Rightarrow> sg_database st = database_of P (nd_chain nd))"
  using node_reachable_ok [OF assms] context_of [of P nd] reachable_ok [OF assms(1)]
  by (auto simp: node_ok_def stored_with_def store_of_def split: option.splits)

lemma node_invariant_witness:
  "mempool_ok sample_platform TESTNET (nd_mempool (snd (submit_block sample_platform sample_next sample_node)))"
proof -
  have "node_reachable sample_platform (snd (submit_block sample_platform sample_next sample_node))"
    using sample_node_reachable unfolding node_reachable_def by (rule reach_step) (rule step_submit_block)
  from node_invariant [OF sample_platform_ok this] show ?thesis by blast
qed

text \<open>C13. \<open>block_reconciles_node\<close>: a block the chain refuses changes nothing; one it accepts is in the
  chain and the database, and the pool afterwards holds only transactions it held before or that the
  reorganisation disconnected, all of them fit for the new tip.\<close>

theorem block_reconciles_node:
  assumes "platform_ok P" and "node_reachable P nd" and "submit_block P b nd = (r, nd')"
  shows "case r of
      Inl e \<Rightarrow> nd' = nd \<and> exn_kind e = ChainError
    | Inr u \<Rightarrow> add_block P b (nd_chain nd) = (Inr u, nd_chain nd') \<and> node_ok P nd'
        \<and> set (pending (nd_mempool nd')) \<subseteq> set (pending (nd_mempool nd))
             \<union> set (bodies_at (nd_chain nd') (cu_disconnected u))"
  using submit_block_spec [OF assms(1) node_reachable_ok [OF assms(1,2)], of b] assms(3)
    add_block_raises [OF node_chain_ok [OF assms(1) node_reachable_ok [OF assms(1,2)]], of b]
  by auto

lemma block_reconciles_node_witness:
  "\<exists>u nd'. submit_block sample_platform sample_next sample_node = (Inr u, nd') \<and> nd_chain nd' = sample_chain_2"
proof -
  obtain r nd' where s: "submit_block sample_platform sample_next sample_node = (r, nd')"
    by (cases "submit_block sample_platform sample_next sample_node")
  obtain u where a: "add_block sample_platform sample_next (nd_chain sample_node) = (Inr u, sample_chain_2)"
    using sample_next_added by (auto simp: sample_chain_2_def sample_node_def)
  have "\<exists>u. r = Inr u"
    using submit_block_spec [OF sample_platform_ok node_reachable_ok [OF sample_platform_ok sample_node_reachable],
        of sample_next] s a by auto
  then show ?thesis using block_reconciles_node [OF sample_platform_ok sample_node_reachable s] s a by auto
qed

text \<open>C12. \<open>mining_extends_chain\<close>: with a valid miner address, a transaction limit in range and a timestamp
  later than the tip's, mining searches a candidate that carries what \<open>select\<close> takes from the pool, stands on the
  tip and is valid whatever winning nonce it gets. It raises \<open>MiningError\<close> only if none of the nonces tried
  has proof of work, \<open>ChainError\<close> only if the block with the first such nonce is stored already, and then
  nothing changes; otherwise it returns the block with the first winning nonce, which is the new tip, one higher, and
  its transactions have left the pool.\<close>

theorem mining_extends_chain:
  assumes "platform_ok P" and "node_reachable P nd" and "is_valid_address P miner TESTNET"
    and "0 \<le> max_transactions" and "max_transactions \<le> MAX_BLOCK_TRANSACTIONS"
    and "chain_tip (nd_chain nd) = Inr tip" and "bh_height (bl_header tip) < U64_MAX"
    and "bh_timestamp (bl_header tip) < ts" and "0 \<le> ts" and "ts \<le> U64_MAX"
    and "timestamp = Some ts \<or> timestamp = None \<and> ts = bh_timestamp (bl_header tip) + TARGET_BLOCK_SECONDS"
    and "mine P miner timestamp max_transactions attempts nd = (r, nd')"
  shows "\<exists>candidate. mining_candidate P miner ts max_transactions nd candidate
    \<and> (case r of
      Inl e \<Rightarrow> nd' = nd
        \<and> (exn_kind e = MiningError \<and> (\<forall>n. \<not> nonce_wins P candidate attempts n)
         \<or> exn_kind e = ChainError \<and> (\<exists>n i. nonce_wins P candidate attempts n \<and> (\<forall>m. m < n \<longrightarrow> \<not> nonce_wins P candidate attempts m)
             \<and> block_hash P (with_nonce n candidate) = Inr i \<and> chain_contains i (nd_chain nd)))
    | Inr (b, u) \<Rightarrow> (\<exists>n. b = with_nonce n candidate \<and> nonce_wins P candidate attempts n
             \<and> (\<forall>m. m < n \<longrightarrow> \<not> nonce_wins P candidate attempts m))
        \<and> node_ok P nd' \<and> cu_became_active u \<and> chain_tip (nd_chain nd') = Inr b
        \<and> chain_height (nd_chain nd') = Inr (bh_height (bl_header tip) + 1)
        \<and> set (bl_transactions b) \<subseteq> set (pending (nd_mempool nd))
        \<and> set (bl_transactions b) \<inter> set (pending (nd_mempool nd')) = {})"
proof -
  note nd = node_reachable_ok [OF assms(1,2)]
  note ok = node_chain_ok [OF assms(1) nd]
  note tf = tip_facts [OF ok]
  have tip: "tip = en_block (tip_entry (nd_chain nd))" using tf(3) assms(6) by simp
  have h: "next_height (nd_chain nd) = bh_height (bl_header tip) + 1"
    using entry_okD(3) [OF tree_entry [OF chain_okD(1) [OF ok] tf(9)]] by (simp add: next_height_def tip)
  have ts: "ts = (case timestamp of None \<Rightarrow> bh_timestamp (bl_header (en_block (tip_entry (nd_chain nd)))) + TARGET_BLOCK_SECONDS
                  | Some t \<Rightarrow> t)"
    using assms(11) tip by auto
  have h1: "next_height (nd_chain nd) \<le> U64_MAX" using assms(7) h by simp
  have t1: "bh_timestamp (bl_header (en_block (tip_entry (nd_chain nd)))) < ts" using assms(8) tip by simp
  show ?thesis
    using mine_spec [OF assms(1) nd assms(3-5) h1 ts t1 assms(9,10,12)] unfolding mining_outcome_def h .
qed

text \<open>One attempt on the sample platform, whose first hash always wins: the genesis chain grows by one block.\<close>

lemma sample_tip:
  "chain_tip (nd_chain sample_node) = Inr sample_genesis" "bh_height (bl_header sample_genesis) = 0"
  "bh_timestamp (bl_header sample_genesis) = TESTNET_GENESIS_TIMESTAMP"
  "bh_difficulty_target (bl_header sample_genesis) = TESTNET_INITIAL_TARGET"
proof -
  obtain e where "ch_entries sample_chain = [(ch_tip sample_chain, e)]" "en_block e = sample_genesis"
    using new_chain_entries [OF sample_platform_ok sample_chain_new] sample_genesis_ok(1) by auto
  then show "chain_tip (nd_chain sample_node) = Inr sample_genesis"
    by (simp add: chain_tip_def sample_node_def dict_index_def)
  show "bh_height (bl_header sample_genesis) = 0" "bh_timestamp (bl_header sample_genesis) = TESTNET_GENESIS_TIMESTAMP"
    "bh_difficulty_target (bl_header sample_genesis) = TESTNET_INITIAL_TARGET"
    using sample_genesis_ok(2) by (simp_all add: is_genesis_def)
qed

lemma mining_extends_chain_witness:
  "\<exists>b u nd'. mine sample_platform (sample_address 6) None 10 1 sample_node = (Inr (b, u), nd')
     \<and> chain_tip (nd_chain nd') = Inr b \<and> chain_height (nd_chain nd') = Inr 1"
proof -
  obtain r nd' where m: "mine sample_platform (sample_address 6) None 10 1 sample_node = (r, nd')"
    by (cases "mine sample_platform (sample_address 6) None 10 1 sample_node")
  let ?ts = "TESTNET_GENESIS_TIMESTAMP + TARGET_BLOCK_SECONDS"
  obtain b where b: "mining_candidate sample_platform (sample_address 6) ?ts 10 sample_node b"
    and o: "case r of
      Inl e \<Rightarrow> nd' = sample_node
        \<and> (exn_kind e = MiningError \<and> (\<forall>n. \<not> nonce_wins sample_platform b 1 n)
         \<or> exn_kind e = ChainError \<and> (\<exists>n i. nonce_wins sample_platform b 1 n \<and> (\<forall>m. m < n \<longrightarrow> \<not> nonce_wins sample_platform b 1 m)
             \<and> block_hash sample_platform (with_nonce n b) = Inr i \<and> chain_contains i (nd_chain sample_node)))
    | Inr (c, u) \<Rightarrow> (\<exists>n. c = with_nonce n b \<and> nonce_wins sample_platform b 1 n
             \<and> (\<forall>m. m < n \<longrightarrow> \<not> nonce_wins sample_platform b 1 m))
        \<and> node_ok sample_platform nd' \<and> cu_became_active u \<and> chain_tip (nd_chain nd') = Inr c
        \<and> chain_height (nd_chain nd') = Inr (bh_height (bl_header sample_genesis) + 1)
        \<and> set (bl_transactions c) \<subseteq> set (pending (nd_mempool sample_node))
        \<and> set (bl_transactions c) \<inter> set (pending (nd_mempool nd')) = {}"
    using mining_extends_chain [OF sample_platform_ok sample_node_reachable sample_address_valid _ _ sample_tip(1) _ _ _ _ _ m,
        where ts = "?ts"]
    by (fastforce simp: sample_tip MAX_BLOCK_TRANSACTIONS_def U64_MAX_def TESTNET_GENESIS_TIMESTAMP_def TARGET_BLOCK_SECONDS_def)
  let ?c = "nd_chain sample_node"
  have t: "tree_ok sample_platform sample_chain" by (rule chain_okD(1) [OF sample_chain_ok])
  obtain e where e: "ch_entries sample_chain = [(ch_tip sample_chain, e)]" "en_block e = sample_genesis"
    using new_chain_entries [OF sample_platform_ok sample_chain_new] sample_genesis_ok(1) by auto
  have "map_of (ch_entries sample_chain) (ch_tip sample_chain) = Some e" by (simp add: e)
  then have "br_height (en_record e) = 0" using entry_okD(3) [OF tree_entry [OF t]] e(2) sample_tip(2) by simp
  then have target: "bh_difficulty_target (bl_header b) = TESTNET_INITIAL_TARGET"
    using b e sample_tip(4) by (simp add: mining_candidate_def sample_node_def expected_target_for_child_def
        known_entry_def dict_index_def U64_MAX_def DIFFICULTY_ADJUSTMENT_INTERVAL_def)
  obtain i where i: "block_hash sample_platform (with_nonce 0 b) = Inr i"
    using b by (auto simp: mining_candidate_def U64_MAX_def)
  have "proof_of_work sample_platform (with_nonce 0 b)"
    by (rule sample_proof_of_work [OF i]) (simp_all add: target TESTNET_INITIAL_TARGET_def MAX_TARGET_def)
  then have wins: "nonce_wins sample_platform b 1 0" by (simp add: nonce_wins_def U64_MAX_def)
  have zero: "n = 0" if "nonce_wins sample_platform b 1 n" for n using that by (simp add: nonce_wins_def)
  have "i \<noteq> ch_tip sample_chain"
    by (rule sample_hash_fresh [OF i]) (use b sample_miners_differ(2) in \<open>simp add: mining_candidate_def with_nonce_def\<close>)
  then have fresh: "\<not> chain_contains i ?c" using e by (simp add: chain_contains_def sample_node_def)
  show ?thesis
  proof (cases r)
    case (Inl x)
    then show ?thesis using o wins zero i fresh by fastforce
  next
    case (Inr bu)
    then show ?thesis using o m sample_tip(2) by (cases bu) auto
  qed
qed

text \<open>C19. \<open>send_adds_payment\<close>: sending either changes nothing, or appends to the pool exactly the signed
  payment asked for, from the wallet's address, with its next free nonce and the lifetime asked for.\<close>

theorem send_adds_payment:
  assumes "platform_ok P" and "node_reachable P nd" and "new_wallet P name k TESTNET = Inr w"
    and "send P w recipient amount fee blocks nd = (r, nd')"
  shows "node_ok P nd' \<and> nd_chain nd' = nd_chain nd
    \<and> (case r of Inl e \<Rightarrow> nd' = nd
       | Inr t \<Rightarrow> pending (nd_mempool nd') = pending (nd_mempool nd) @ [t]
           \<and> (\<exists>s h nonce. execution_context P nd = Inr (s, h)
                \<and> next_nonce P (wa_address w) s (nd_mempool nd) = Inr nonce
                \<and> pays w recipient amount fee nonce (h + blocks) t))"
  using send_spec [OF assms(1) node_reachable_ok [OF assms(1,2)] assms(3,4)]
    context_of [OF node_chain_ok [OF assms(1) node_reachable_ok [OF assms(1,2)]]]
  by (auto split: sum.splits)

lemma send_adds_payment_witness:
  "node_ok sample_platform (snd (send sample_platform sample_wallet (sample_address 6) 5 1 100 sample_node))"
  using send_adds_payment [OF sample_platform_ok sample_node_reachable sample_wallet_new, of "sample_address 6" 5 1 100]
  by (metis prod.collapse)

text \<open>C15. \<open>node_survives_restart\<close>: opening the database file a persistent node has written gives a node with
  the same chain and an empty pool, on the same database.\<close>

theorem node_survives_restart:
  assumes "platform_ok P" and "node_reachable P nd" and "nd_storage nd = Some st"
    and "map_of files (database_file P dir) = Some (sg_database st)"
  shows "\<exists>nd' files'. open_persistent P dir TESTNET True files = (Inr nd', files')
     \<and> nd_chain nd' = nd_chain nd \<and> nd_mempool nd' = new_mempool \<and> node_ok P nd'
     \<and> map_of files' (database_file P dir) = Some (sg_database st)"
proof -
  have nd: "chain_reachable P (nd_chain nd)" "sg_database st = database_of P (nd_chain nd)"
    using node_reachable_ok [OF assms(1,2)] assms(3) by (simp_all add: node_ok_def stored_with_def store_of_def)
  let ?st = "\<lparr>sg_database = database_of P (nd_chain nd), sg_network = TESTNET, sg_genesis_hash = genesis_hash_of P,
     sg_database_path = database_file P dir, sg_closed = False\<rparr>"
  let ?nd = "\<lparr>nd_chain = nd_chain nd, nd_storage = Some ?st, nd_mempool = new_mempool\<rparr>"
  have s: "store_of P (nd_chain nd) ?st" by (simp add: store_of_def)
  have new: "new_node P TESTNET (Some ?st) = Inr ?nd"
    using load_spec [OF assms(1) nd(1) s] by (simp add: new_node_def)
  then have "node_ok P ?nd"
    using new_node_ok [OF assms(1), of ?nd] nd(1) s unfolding node_start_def by blast
  then show ?thesis
    using open_spec [OF assms(1) nd(1), of files dir] assms(4) nd(2) new
    by (intro exI [of _ ?nd]) (simp add: open_persistent_def map_of_update)
qed

lemma node_survives_restart_witness:
  "\<exists>nd' files'. open_persistent sample_platform [] TESTNET True
       [(database_file sample_platform [], database_of sample_platform sample_chain)] = (Inr nd', files')
     \<and> nd_chain nd' = sample_chain"
  using node_survives_restart [OF sample_platform_ok sample_node_reachable, of "sample_store sample_chain"
      "[(database_file sample_platform [], database_of sample_platform sample_chain)]" "[]"]
  by (auto simp: sample_node_def sample_store_def)

end
