(* ===== verification/Wallet_File.thy ===== *)
theory Wallet_File
  imports Wallet
begin

text \<open>
  The file protocol of \<open>save_encrypted\<close>: a temporary file beside the destination is written, made private and then
  published by \<open>os.replace\<close> or \<open>os.link\<close>, and removed in the end. Every call of the operating system may fail, the
  last look at the temporary file and its removal included, and other processes may write and delete files before
  every one of them.
\<close>

subsection \<open>The steps\<close>

datatype file_call =
    Check_Exists | Make_Directory | Make_Temporary | Write_Document | Set_Mode | Publish | Look_Temporary | Remove_Temporary

text \<open>
  \<open>faults\<close>: which calls fail, and with what; \<open>partial\<close>: what a failed write has left in the temporary file;
  \<open>others\<close>: what other processes have written (or, with \<open>None\<close>, deleted) by the time of a call.
\<close>

record 'p disk =
  dk_faults :: "file_call \<Rightarrow> py_error option"
  dk_partial :: bytes
  dk_others :: "file_call \<Rightarrow> ('p \<times> bytes option) list"
  dk_temporary :: 'p

definition meddle :: "('p \<times> bytes option) list \<Rightarrow> ('p, bytes) dict \<Rightarrow> ('p, bytes) dict" where
  "meddle = fold (\<lambda>(p, v). case v of None \<Rightarrow> AList.delete p | Some b \<Rightarrow> AList.update p b)"

text \<open>A call is reached: the others have acted, and it may fail.\<close>

definition reach_call :: "'p disk \<Rightarrow> file_call \<Rightarrow> ('p, bytes) dict \<Rightarrow> unit res \<times> ('p, bytes) dict" where
  "reach_call D c files = (case dk_faults D c of Some e \<Rightarrow> Inl e | None \<Rightarrow> Inr (), meddle (dk_others D c) files)"

text \<open>\<open>os.replace\<close> renames over what is there, \<open>os.link\<close> gives a second name to the file and refuses one in use.\<close>

definition publish :: "bool \<Rightarrow> 'p \<Rightarrow> 'p \<Rightarrow> ('p, bytes) dict \<Rightarrow> 'p res \<times> ('p, bytes) dict" where
  "publish overwrite temporary destination files =
     (case map_of files temporary of
        None \<Rightarrow> (raise FileNotFoundError ''no such file'', files)
      | Some content \<Rightarrow>
        if overwrite then (Inr destination, AList.update destination content (AList.delete temporary files))
        else if map_of files destination \<noteq> None then (raise WalletError ''wallet file already exists'', files)
        else (Inr destination, AList.update destination content files))"

definition fill_and_publish :: "'p disk \<Rightarrow> bool \<Rightarrow> 'p \<Rightarrow> bytes res \<Rightarrow> ('p, bytes) dict \<Rightarrow> 'p res \<times> ('p, bytes) dict" where
  "fill_and_publish D overwrite destination content files =
     (case reach_call D Write_Document files of
        (Inl e, files) \<Rightarrow> (Inl e, AList.update (dk_temporary D) (dk_partial D) files)
      | (Inr _, files) \<Rightarrow>
     (case content of
        Inl e \<Rightarrow> (Inl e, AList.update (dk_temporary D) (dk_partial D) files)
      | Inr bytes \<Rightarrow>
     (case reach_call D Set_Mode (AList.update (dk_temporary D) bytes files) of
        (Inl e, files) \<Rightarrow> (Inl e, files)
      | (Inr _, files) \<Rightarrow>
     (case reach_call D Publish files of
        (Inl e, files) \<Rightarrow> (Inl e, files)
      | (Inr _, files) \<Rightarrow> publish overwrite (dk_temporary D) destination files))))"

text \<open>The \<open>finally\<close> clause; an exception in it replaces the one on its way.\<close>

definition remove_temporary :: "'p disk \<Rightarrow> 'a res \<times> ('p, bytes) dict \<Rightarrow> 'a res \<times> ('p, bytes) dict" where
  "remove_temporary D = (\<lambda>(r, files).
     case reach_call D Look_Temporary files of
       (Inl e, files) \<Rightarrow> (Inl e, files)
     | (Inr _, files) \<Rightarrow>
       if map_of files (dk_temporary D) = None then (r, files)
       else (case reach_call D Remove_Temporary files of
           (Inl e, files) \<Rightarrow> (Inl e, files)
         | (Inr _, files) \<Rightarrow> (r, AList.delete (dk_temporary D) files)))"

definition save_encrypted_steps :: "platform \<Rightarrow> (json \<Rightarrow> pystr) \<Rightarrow> 'p disk \<Rightarrow> 'p \<Rightarrow> pystr \<Rightarrow> bool \<Rightarrow> bytes \<Rightarrow> bytes \<Rightarrow> wallet \<Rightarrow>
    ('p, bytes) dict \<Rightarrow> 'p res \<times> ('p, bytes) dict" where
  "save_encrypted_steps P json_dumps D path password overwrite salt nonce w files =
     (case reach_call D Check_Exists files of
        (Inl e, files) \<Rightarrow> (Inl e, files)
      | (Inr _, files) \<Rightarrow>
      if map_of files path \<noteq> None \<and> \<not> overwrite then (raise WalletError ''wallet file already exists'', files)
      else
     (case reach_call D Make_Directory files of
        (Inl e, files) \<Rightarrow> (Inl e, files)
      | (Inr _, files) \<Rightarrow>
     (case wallet_document P password salt nonce w of
        Inl e \<Rightarrow> (Inl e, files)
      | Inr document \<Rightarrow>
     (case reach_call D Make_Temporary files of
        (Inl e, files) \<Rightarrow> (Inl e, files)
      | (Inr _, files) \<Rightarrow>
        remove_temporary D
          (fill_and_publish D overwrite path (utf8_encode (json_dumps document @ [10]))
             (AList.update (dk_temporary D) [] files))))))"

subsection \<open>What is left on the disk\<close>

text \<open>What the others have done by the time of the calls from the \<open>i\<close>-th on and before the \<open>k\<close>-th, in their order.\<close>

definition seen :: "'p disk \<Rightarrow> nat \<Rightarrow> nat \<Rightarrow> ('p \<times> bytes option) list" where
  "seen D i k = concat (map (dk_others D) (drop i (take k
     [Check_Exists, Make_Directory, Make_Temporary, Write_Document, Set_Mode, Publish, Look_Temporary, Remove_Temporary])))"

definition last_write :: "('p \<times> bytes option) list \<Rightarrow> 'p \<Rightarrow> bytes option \<Rightarrow> bytes option" where
  "last_write es q v = fold (\<lambda>(p, u) v. if p = q then u else v) es v"

lemma last_write_simps [simp]:
  "last_write [] q v = v" "last_write ((p, u) # es) q v = last_write es q (if p = q then u else v)"
  "last_write (es @ es') q v = last_write es' q (last_write es q v)"
  by (simp_all add: last_write_def)

lemma map_of_meddle: "map_of (meddle es files) q = last_write es q (map_of files q)"
  by (induction es arbitrary: files) (auto simp: meddle_def update_conv' delete_conv' split: option.splits)

lemma last_write_fresh: "q \<notin> fst ` set es \<Longrightarrow> last_write es q v = v"
  by (induction es arbitrary: v) auto

text \<open>A name nobody else uses.\<close>

definition unshared :: "'p disk \<Rightarrow> bool" where
  "unshared D \<longleftrightarrow> (\<forall>c. dk_temporary D \<notin> fst ` set (dk_others D c))"

lemma unshared_kept: "unshared D \<Longrightarrow> last_write (dk_others D c) (dk_temporary D) v = v"
  by (simp add: unshared_def last_write_fresh)

text \<open>A faultless save with no one else about is \<open>save_encrypted\<close>.\<close>

lemma faultless_save:
  assumes "\<And>c. dk_faults D c = None" and "\<And>c. dk_others D c = []" and "dk_temporary D \<noteq> path" and "map_of files (dk_temporary D) = None"
  shows "fst (save_encrypted_steps P json_dumps D path password overwrite salt nonce w files)
       = fst (save_encrypted P json_dumps path password overwrite salt nonce w files)"
    and "map_of (snd (save_encrypted_steps P json_dumps D path password overwrite salt nonce w files))
       = map_of (snd (save_encrypted P json_dumps path password overwrite salt nonce w files))"
  using assms
  by (auto simp: save_encrypted_steps_def save_encrypted_def fill_and_publish_def publish_def remove_temporary_def reach_call_def
      meddle_def Let_def update_conv' delete_conv' fun_eq_iff split: sum.split)

text \<open>The body of the \<open>try\<close>.\<close>

lemma published:
  assumes f: "fill_and_publish D overwrite path content files = (r, files')" and t: "dk_temporary D \<noteq> path" "unshared D"
  shows "case r of
      Inl e \<Rightarrow> \<exists>k. \<forall>q. q \<noteq> dk_temporary D \<longrightarrow> map_of files' q = last_write (seen D 3 k) q (map_of files q)
    | Inr p \<Rightarrow> p = path \<and> (\<exists>c. content = Inr c \<and> (overwrite \<or> last_write (seen D 3 6) path (map_of files path) = None)
        \<and> (\<forall>q. q \<noteq> dk_temporary D \<longrightarrow> map_of files' q = last_write (seen D 3 6 @ [(path, Some c)]) q (map_of files q)))"
proof -
  have s: "seen D 3 4 = dk_others D Write_Document" "seen D 3 5 = dk_others D Write_Document @ dk_others D Set_Mode"
    "seen D 3 6 = dk_others D Write_Document @ dk_others D Set_Mode @ dk_others D Publish"
    by (simp_all add: seen_def)
  note simps = fill_and_publish_def reach_call_def update_conv' map_of_meddle
  consider e where "dk_faults D Write_Document = Some e \<or> content = Inl e"
    | c where "dk_faults D Write_Document = None" "content = Inr c" "dk_faults D Set_Mode \<noteq> None"
    | c where "dk_faults D Write_Document = None" "content = Inr c" "dk_faults D Set_Mode = None" "dk_faults D Publish \<noteq> None"
    | c where "dk_faults D Write_Document = None" "content = Inr c" "dk_faults D Set_Mode = None" "dk_faults D Publish = None"
    by (cases content; cases "dk_faults D Write_Document"; cases "dk_faults D Set_Mode"; cases "dk_faults D Publish") auto
  then show ?thesis
  proof cases
    case 1
    then show ?thesis using f by (auto simp: simps s intro!: exI [of _ 4] split: option.splits sum.splits)
  next
    case 2
    then show ?thesis using f by (auto simp: simps s intro!: exI [of _ 5])
  next
    case 3
    then show ?thesis using f by (auto simp: simps s intro!: exI [of _ 6])
  next
    case 4
    then show ?thesis using f t unshared_kept [OF t(2)]
      by (auto simp: simps s publish_def delete_conv' intro!: exI [of _ 6] split: if_splits)
  qed
qed

text \<open>The \<open>finally\<close> clause removes the temporary file, or fails in one of its two calls.\<close>

definition cleanup_fails :: "'p disk \<Rightarrow> py_error \<Rightarrow> bool" where
  "cleanup_fails D e \<longleftrightarrow> dk_faults D Look_Temporary = Some e \<or> dk_faults D Remove_Temporary = Some e"

lemma removed:
  assumes "remove_temporary D (r, files) = (r', files')" and "unshared D"
  shows "(\<exists>k. \<forall>q. q \<noteq> dk_temporary D \<longrightarrow> map_of files' q = last_write (seen D 6 k) q (map_of files q))
    \<and> (r' = r \<and> map_of files' (dk_temporary D) = None \<or> (\<exists>e. r' = Inl e \<and> cleanup_fails D e))"
proof -
  have s: "seen D 6 7 = dk_others D Look_Temporary" "seen D 6 8 = dk_others D Look_Temporary @ dk_others D Remove_Temporary"
    by (simp_all add: seen_def)
  have k: "\<exists>k \<in> {7, 8}. \<forall>q. q \<noteq> dk_temporary D \<longrightarrow> map_of files' q = last_write (seen D 6 k) q (map_of files q)"
    using assms(1) by (auto simp: remove_temporary_def reach_call_def s map_of_meddle delete_conv' split: option.splits if_splits)
  show ?thesis
    using assms(1) k unshared_kept [OF assms(2)]
    by (auto simp: remove_temporary_def reach_call_def cleanup_fails_def map_of_meddle delete_conv' split: option.splits if_splits)
qed

text \<open>How a save ends: with the destination as the others left it, or with the document there.\<close>

definition save_untouched :: "'p disk \<Rightarrow> ('p, bytes) dict \<Rightarrow> ('p, bytes) dict \<Rightarrow> bool" where
  "save_untouched D files files' \<longleftrightarrow> (\<exists>k l. \<forall>q. q \<noteq> dk_temporary D \<longrightarrow>
     map_of files' q = map_of (meddle (seen D 0 k @ seen D 6 l) files) q)"

definition save_published :: "'p disk \<Rightarrow> bool \<Rightarrow> 'p \<Rightarrow> bytes \<Rightarrow> ('p, bytes) dict \<Rightarrow> ('p, bytes) dict \<Rightarrow> bool" where
  "save_published D overwrite path c files files' \<longleftrightarrow> (\<exists>l. \<forall>q. q \<noteq> dk_temporary D \<longrightarrow>
     map_of files' q = map_of (meddle (seen D 0 6 @ [(path, Some c)] @ seen D 6 l) files) q)
   \<and> (overwrite \<or> map_of (meddle (seen D 0 6) files) path = None)"

lemma seen_split: "seen D 0 k = seen D 0 3 @ seen D 3 k" if "3 \<le> k"
proof -
  have "take k xs = take 3 xs @ drop 3 (take k xs)" for xs :: "file_call list"
    using that append_take_drop_id [of 3 "take k xs"] by (simp add: min_def)
  then show ?thesis unfolding seen_def drop_0 by (metis concat_append map_append)
qed

lemma seen_empty: "seen D 3 k = []" if "k \<le> 3"
  using that by (simp add: seen_def)

lemma save_body:
  assumes u: "unshared D" and t: "dk_temporary D \<noteq> path"
    and f: "remove_temporary D (fill_and_publish D overwrite path content
        (AList.update (dk_temporary D) [] (meddle (seen D 0 3) files))) = (r, files')"
  shows "(map_of files' (dk_temporary D) = None \<or> (\<exists>e. r = Inl e \<and> cleanup_fails D e))
    \<and> ((\<exists>e. r = Inl e) \<and> save_untouched D files files'
      \<or> (r = Inr path \<or> (\<exists>e. r = Inl e \<and> cleanup_fails D e)) \<and> (\<exists>c. content = Inr c \<and> save_published D overwrite path c files files'))"
proof -
  let ?fs = "AList.update (dk_temporary D) [] (meddle (seen D 0 3) files)"
  obtain r1 fs1 where b: "fill_and_publish D overwrite path content ?fs = (r1, fs1)" by (rule prod.exhaust)
  have o: "map_of ?fs q = last_write (seen D 0 3) q (map_of files q)" if "q \<noteq> dk_temporary D" for q
    using that by (simp add: update_conv' map_of_meddle)
  note p = published [OF b t u]
  from removed [OF f [unfolded b] u] obtain l where
    l: "\<forall>q. q \<noteq> dk_temporary D \<longrightarrow> map_of files' q = last_write (seen D 6 l) q (map_of fs1 q)" and
    e: "r = r1 \<and> map_of files' (dk_temporary D) = None \<or> (\<exists>e. r = Inl e \<and> cleanup_fails D e)" by blast
  show ?thesis
  proof (cases r1)
    case (Inl x)
    then obtain k where k: "\<forall>q. q \<noteq> dk_temporary D \<longrightarrow> map_of fs1 q = last_write (seen D 3 k) q (map_of ?fs q)" using p by auto
    have "save_untouched D files files'"
    proof (cases "3 \<le> k")
      case True
      then show ?thesis unfolding save_untouched_def using l k o
        by (intro exI [of _ k] exI [of _ l]) (simp add: map_of_meddle seen_split [OF True])
    next
      case False
      then show ?thesis unfolding save_untouched_def using l k o seen_empty [of k D]
        by (intro exI [of _ 3] exI [of _ l]) (simp add: map_of_meddle)
    qed
    then show ?thesis using e Inl by blast
  next
    case (Inr x)
    then obtain c where c: "x = path" "content = Inr c" "overwrite \<or> last_write (seen D 3 6) path (map_of ?fs path) = None"
        "\<forall>q. q \<noteq> dk_temporary D \<longrightarrow> map_of fs1 q = last_write (seen D 3 6 @ [(path, Some c)]) q (map_of ?fs q)"
      using p by auto
    have "save_published D overwrite path c files files'"
      unfolding save_published_def using l c o [of path] o t
      by (auto simp: map_of_meddle seen_split [of 6] intro!: exI [of _ l])
    then show ?thesis using e Inr c(1,2) by blast
  qed
qed

subsection \<open>Property\<close>

text \<open>C32. \<open>wallet_save_is_atomic\<close>: whatever calls of the operating system fail while a wallet is saved, and whatever other
  processes write or delete before each of them, every file but the temporary one ends as the others made it, or that and
  the whole document published once at the destination. A save that returns has published it, has removed the temporary
  file and, without \<open>overwrite\<close>, has not replaced a file, not even one that came up after its own check; a save that raises
  has published nothing and left no temporary file, unless it is the removal of the temporary file itself that fails.\<close>

theorem wallet_save_is_atomic:
  assumes "dk_temporary D \<noteq> path" and "map_of files (dk_temporary D) = None"
    and "\<And>c. dk_temporary D \<notin> fst ` set (dk_others D c)"
    and "save_encrypted_steps P json_dumps D path password overwrite salt nonce w files = (r, files')"
  shows "case r of
      Inr p \<Rightarrow> p = path \<and> map_of files' (dk_temporary D) = None
        \<and> (\<exists>d c l. wallet_document P password salt nonce w = Inr d \<and> utf8_encode (json_dumps d @ [10]) = Inr c
            \<and> (overwrite \<or> map_of (meddle (seen D 0 6) files) path = None)
            \<and> (\<forall>q. q \<noteq> dk_temporary D \<longrightarrow> map_of files' q = map_of (meddle (seen D 0 6 @ [(path, Some c)] @ seen D 6 l) files) q))
    | Inl e \<Rightarrow>
        (map_of files' (dk_temporary D) = None \<or> dk_faults D Look_Temporary = Some e \<or> dk_faults D Remove_Temporary = Some e)
      \<and> ((\<exists>k l. \<forall>q. q \<noteq> dk_temporary D \<longrightarrow> map_of files' q = map_of (meddle (seen D 0 k @ seen D 6 l) files) q)
       \<or> (dk_faults D Look_Temporary = Some e \<or> dk_faults D Remove_Temporary = Some e)
         \<and> (\<exists>d c l. wallet_document P password salt nonce w = Inr d \<and> utf8_encode (json_dumps d @ [10]) = Inr c
            \<and> (overwrite \<or> map_of (meddle (seen D 0 6) files) path = None)
            \<and> (\<forall>q. q \<noteq> dk_temporary D \<longrightarrow> map_of files' q = map_of (meddle (seen D 0 6 @ [(path, Some c)] @ seen D 6 l) files) q)))"
proof -
  have u: "unshared D" using assms(3) by (simp add: unshared_def)
  have s: "seen D 0 1 = dk_others D Check_Exists" "seen D 0 2 = dk_others D Check_Exists @ dk_others D Make_Directory"
    "seen D 0 3 = dk_others D Check_Exists @ dk_others D Make_Directory @ dk_others D Make_Temporary" "seen D 6 6 = []"
    by (simp_all add: seen_def)
  have m: "meddle (as @ bs) = meddle bs \<circ> meddle as" for as bs :: "('a \<times> bytes option) list"
    by (simp add: meddle_def)
  show ?thesis
  proof (cases "\<exists>k. k \<le> 3 \<and> (\<exists>e. r = Inl e) \<and> files' = meddle (seen D 0 k) files")
    case True
    then obtain k e where k: "r = Inl e" "files' = meddle (seen D 0 k) files" "k \<le> 3" by blast
    have t: "map_of files' (dk_temporary D) = None"
      using assms(2) u unfolding k(2) map_of_meddle seen_def unshared_def
      by (subst last_write_fresh) (auto dest!: in_set_dropD in_set_takeD)
    have "\<exists>k l. \<forall>q. q \<noteq> dk_temporary D \<longrightarrow> map_of files' q = map_of (meddle (seen D 0 k @ seen D 6 l) files) q"
      using k s(4) by (intro exI [of _ k] exI [of _ 6]) simp
    with t show ?thesis unfolding k(1) sum.case by blast
  next
    case False
    then have n: "\<not> ((\<exists>e. r = Inl e) \<and> files' = meddle (seen D 0 k) files)" if "k \<le> 3" for k
      using that by blast
    have "\<exists>d. wallet_document P password salt nonce w = Inr d
        \<and> remove_temporary D (fill_and_publish D overwrite path (utf8_encode (json_dumps d @ [10]))
            (AList.update (dk_temporary D) [] (meddle (seen D 0 3) files))) = (r, files')"
      using assms(4) n [of 1] n [of 2] n [of 3] unfolding s m comp_apply
      by (auto simp: save_encrypted_steps_def reach_call_def split: option.splits if_splits sum.splits)
    then obtain d where d: "wallet_document P password salt nonce w = Inr d"
      and "remove_temporary D (fill_and_publish D overwrite path (utf8_encode (json_dumps d @ [10]))
            (AList.update (dk_temporary D) [] (meddle (seen D 0 3) files))) = (r, files')" by blast
    note b = save_body [OF u assms(1) this(2)]
    show ?thesis
    proof (cases r)
      case (Inl e)
      have "map_of files' (dk_temporary D) = None \<or> cleanup_fails D e"
        "save_untouched D files files' \<or> cleanup_fails D e
          \<and> (\<exists>c. utf8_encode (json_dumps d @ [10]) = Inr c \<and> save_published D overwrite path c files files')"
        using b Inl by auto
      with d show ?thesis unfolding Inl sum.case save_untouched_def save_published_def cleanup_fails_def by blast
    next
      case (Inr p)
      have "map_of files' (dk_temporary D) = None" "p = path"
        "\<exists>c. utf8_encode (json_dumps d @ [10]) = Inr c \<and> save_published D overwrite path c files files'"
        using b Inr by auto
      with d show ?thesis unfolding Inr sum.case save_published_def by blast
    qed
  qed
qed

text \<open>A save while another process writes a second file before the publication and removes it after.\<close>

lemma wallet_save_is_atomic_witness:
  "\<exists>files. save_encrypted_steps sample_platform (\<lambda>_. []) \<lparr>dk_faults = \<lambda>_. None, dk_partial = [],
        dk_others = (\<lambda>c. if c = Publish then [(2, Some [9]), (3, Some [8])] else if c = Look_Temporary then [(2, None)] else []),
        dk_temporary = 1\<rparr>
      (0 :: nat) [112] False (replicate 16 1) (replicate 12 2) sample_wallet [] = (Inr 0, files) \<and>
     map_of files 1 = None \<and> map_of files 0 = Some [10] \<and> map_of files 3 = Some [8]"
proof -
  let ?D = "\<lparr>dk_faults = \<lambda>_. None, dk_partial = [],
     dk_others = (\<lambda>c. if c = Publish then [(2 :: nat, Some [9]), (3, Some [8])] else if c = Look_Temporary then [(2, None)] else []),
     dk_temporary = 1\<rparr>"
  obtain d where d: "wallet_document sample_platform [112] (replicate 16 1) (replicate 12 2) sample_wallet = Inr d"
    using wallet_document_total [OF sample_platform_ok network_fits_TESTNET sample_wallet_new, of "[112]" "[112]"]
    by (auto simp: sample_platform_def utf8_encode_ascii isascii_def byte_of_def)
  obtain r files where s: "save_encrypted_steps sample_platform (\<lambda>_. []) ?D 0 [112] False (replicate 16 1) (replicate 12 2) sample_wallet []
      = (r, files)" by (rule prod.exhaust)
  then have r: "r = Inr 0"
    using d by (simp add: save_encrypted_steps_def reach_call_def fill_and_publish_def publish_def remove_temporary_def meddle_def
        utf8_encode_ascii isascii_def split: if_splits)
  define D where "D = ?D"
  have t: "dk_temporary D = 1" and o: "dk_temporary D \<notin> fst ` set (dk_others D c)" for c by (auto simp: D_def)
  have n: "dk_temporary D \<noteq> 0" "map_of [] (dk_temporary D) = None" by (simp_all add: t)
  from wallet_save_is_atomic [OF n o s [folded D_def], unfolded r sum.case t]
  obtain c l where f: "map_of files 1 = None" "utf8_encode [10] = Inr c"
      "\<forall>q. q \<noteq> 1 \<longrightarrow> map_of files q = map_of (meddle (seen D 0 6 @ [(0, Some c)] @ seen D 6 l) []) q"
    unfolding append.left_neutral by blast
  have e: "seen D 0 6 = [(2, Some [9]), (3, Some [8])]" "set (seen D 6 l) \<subseteq> {(2, None)}"
    by (simp add: seen_def D_def) (auto simp: seen_def D_def drop_take dest!: in_set_takeD)
  have "last_write (seen D 6 l) q v = v" if "q \<noteq> 2" for q v
    using e(2) that by (intro last_write_fresh) auto
  then have "map_of files 0 = Some c" "map_of files 3 = Some [8]" using f(3) e(1) by (simp_all add: map_of_meddle)
  moreover have "c = [10]" using f(2) by (simp add: utf8_encode_ascii isascii_def byte_of_def)
  ultimately show ?thesis using s r f(1) by auto
qed

end
