(* ===== verification/P2p_Protocol.thy ===== *)
theory P2p_Protocol
  imports Block
begin

text \<open>
  \<open>p2p_protocol.py\<close>: the frames peers exchange and the payloads they carry. A stream is the bytes that
  have arrived and whether the peer has closed it; a read that waits for more on an open stream times
  out. The lemmas show that every decoder accepts exactly the canonical encodings of the values within
  the limits, that frames are read off a stream one by one whatever follows them, and that untrusted
  bytes raise protocol errors only.
\<close>

definition NETWORK_MAGIC :: bytes where "NETWORK_MAGIC = byte_literal ''OURP''"
definition PROTOCOL_VERSION :: int where "PROTOCOL_VERSION = 1"
definition FRAME_PREFIX_SIZE :: nat where "FRAME_PREFIX_SIZE = 15"
definition MAX_FRAME_PAYLOAD :: int where "MAX_FRAME_PAYLOAD = 8 * 1024 * 1024"
definition MAX_BLOCK_TRANSACTIONS_WIRE :: int where "MAX_BLOCK_TRANSACTIONS_WIRE = 10000"
definition MAX_TRANSACTION_BYTES :: int where "MAX_TRANSACTION_BYTES = 4096"
definition MAX_BLOCK_LOCATOR_HASHES :: int where "MAX_BLOCK_LOCATOR_HASHES = 64"
definition MAX_WIRE_CHAIN_ID_BYTES :: int where "MAX_WIRE_CHAIN_ID_BYTES = 64"
definition NODE_ID_LENGTH :: nat where "NODE_ID_LENGTH = 16"
definition WIRE_HASH_LENGTH :: nat where "WIRE_HASH_LENGTH = 32"
definition WORK_LENGTH :: nat where "WORK_LENGTH = 40"

lemmas wire_lengths [simp] = NODE_ID_LENGTH_def WIRE_HASH_LENGTH_def WORK_LENGTH_def

definition HELLO_DOMAIN :: bytes where "HELLO_DOMAIN = byte_literal ''OURCOIN:P2P:HELLO:V1''"
definition LOCATOR_DOMAIN :: bytes where "LOCATOR_DOMAIN = byte_literal ''OURCOIN:P2P:LOCATOR:V1''"
definition SUMMARY_DOMAIN :: bytes where "SUMMARY_DOMAIN = byte_literal ''OURCOIN:P2P:SUMMARY:V1''"
definition BLOCK_BODY_DOMAIN :: bytes where "BLOCK_BODY_DOMAIN = byte_literal ''OURCOIN:P2P:BLOCK:V1''"
definition REJECT_DOMAIN :: bytes where "REJECT_DOMAIN = byte_literal ''OURCOIN:P2P:REJECT:V1''"

datatype message_type = HELLO | GET_BLOCKS | BLOCK | TRANSACTION | SYNC_COMPLETE | PING | PONG | REJECT

fun message_code :: "message_type \<Rightarrow> int" where
  "message_code HELLO = 1" | "message_code GET_BLOCKS = 2" | "message_code BLOCK = 3"
| "message_code TRANSACTION = 4" | "message_code SYNC_COMPLETE = 5" | "message_code PING = 6"
| "message_code PONG = 7" | "message_code REJECT = 8"

text \<open>\<open>MessageType(value)\<close>.\<close>

definition message_type_of :: "int \<Rightarrow> message_type res" where
  "message_type_of v =
     (case List.find (\<lambda>m. message_code m = v)
             [HELLO, GET_BLOCKS, BLOCK, TRANSACTION, SYNC_COMPLETE, PING, PONG, REJECT] of
        None \<Rightarrow> raise ValueError ''not a valid MessageType''
      | Some m \<Rightarrow> Inr m)"

record frame =
  fr_message_type :: message_type
  fr_payload :: bytes

definition wire_encode_work :: "int \<Rightarrow> bytes res" where
  "wire_encode_work work =
     (if work \<le> 0 \<or> 2 ^ (WORK_LENGTH * 8) \<le> work then
        raise ProtocolError ''cumulative work is outside the wire range''
      else Inr (to_bytes_be WORK_LENGTH work))"

definition wire_decode_work :: "bytes \<Rightarrow> int res" where
  "wire_decode_work v =
     (if length v \<noteq> WORK_LENGTH then raise ProtocolError ''cumulative work must be exactly 40 bytes''
      else if from_bytes_be v \<le> 0 then raise ProtocolError ''cumulative work must be positive''
      else Inr (from_bytes_be v))"

definition exact_bytes :: "bytes \<Rightarrow> nat \<Rightarrow> string \<Rightarrow> bytes res" where
  "exact_bytes v n name =
     (if length v \<noteq> n then
        raise ProtocolError (name @ '' must be exactly '' @ int_str (int n) @ '' bytes'')
      else Inr v)"

subsection \<open>Frames\<close>

definition encode_frame :: "platform \<Rightarrow> message_type \<Rightarrow> bytes \<Rightarrow> int \<Rightarrow> bytes res" where
  "encode_frame P message_type payload protocol_version =
     (if int (length payload) > MAX_FRAME_PAYLOAD then
        raise ProtocolError ''frame payload exceeds the resource limit''
      else if \<not> (0 \<le> protocol_version \<and> protocol_version \<le> 0xFFFF) then
        raise ProtocolError ''protocol version must be an unsigned 16-bit integer''
      else Inr (NETWORK_MAGIC @ to_bytes_be 2 protocol_version @ to_bytes_be 1 (message_code message_type)
        @ to_bytes_be 4 (int (length payload)) @ take 4 (sha256_digest P payload) @ payload))"

text \<open>\<open>FRAME_PREFIX.unpack\<close>: magic, version, type, payload length and checksum.\<close>

definition unpack_prefix :: "bytes \<Rightarrow> bytes \<times> int \<times> int \<times> int \<times> bytes" where
  "unpack_prefix b = (take 4 b, from_bytes_be (take 2 (drop 4 b)), from_bytes_be (take 1 (drop 6 b)),
     from_bytes_be (take 4 (drop 7 b)), take 4 (drop 11 b))"

definition check_prefix :: "bytes \<times> int \<times> int \<times> int \<times> bytes \<Rightarrow> unit res" where
  "check_prefix = (\<lambda>(magic, version, raw_type, payload_length, checksum).
     if magic \<noteq> NETWORK_MAGIC then raise ProtocolError ''frame uses another network magic''
     else if version \<noteq> PROTOCOL_VERSION then
       raise UnsupportedProtocolVersionError (''unsupported P2P protocol version '' @ int_str version)
     else if payload_length > MAX_FRAME_PAYLOAD then
       raise ProtocolError ''frame payload exceeds the resource limit''
     else Inr ())"

definition check_payload :: "platform \<Rightarrow> bytes \<times> int \<times> int \<times> int \<times> bytes \<Rightarrow> bytes \<Rightarrow> frame res" where
  "check_payload P = (\<lambda>(magic, version, raw_type, payload_length, checksum) payload.
     if take 4 (sha256_digest P payload) \<noteq> checksum then raise ProtocolError ''frame checksum is invalid''
     else
     bindE (rethrow (\<lambda>c. c = ValueError) (\<lambda>_. Exn ProtocolError ''frame contains an unknown message type'')
              (message_type_of raw_type)) (\<lambda>message_type.
     Inr \<lparr>fr_message_type = message_type, fr_payload = payload\<rparr>))"

definition decode_frame :: "platform \<Rightarrow> bytes \<Rightarrow> frame res" where
  "decode_frame P encoded =
     (if length encoded < FRAME_PREFIX_SIZE then raise ProtocolError ''frame is truncated''
      else
      let prefix = unpack_prefix (take FRAME_PREFIX_SIZE encoded);
          (magic, version, raw_type, payload_length, checksum) = prefix in
      bindE (check_prefix prefix) (\<lambda>_.
      let payload = drop FRAME_PREFIX_SIZE encoded in
      if int (length payload) \<noteq> payload_length then
        raise ProtocolError ''frame payload length does not match its prefix''
      else check_payload P prefix payload))"

text \<open>The reading end of a connection.\<close>

record peer_stream =
  ps_data :: bytes
  ps_closed :: bool

definition read_exactly :: "nat \<Rightarrow> peer_stream \<Rightarrow> bytes res \<times> peer_stream" where
  "read_exactly n s =
     (if n \<le> length (ps_data s) then (Inr (take n (ps_data s)), s\<lparr>ps_data := drop n (ps_data s)\<rparr>)
      else if ps_closed s then
        (raise PeerDisconnectedError ''peer disconnected during a frame'', s\<lparr>ps_data := []\<rparr>)
      else (raise PeerFrameTimeoutError ''peer frame timed out'', s))"

definition read_frame :: "platform \<Rightarrow> peer_stream \<Rightarrow> frame res \<times> peer_stream" where
  "read_frame P s =
     (case read_exactly FRAME_PREFIX_SIZE s of
        (Inl e, s) \<Rightarrow> (Inl e, s)
      | (Inr b, s) \<Rightarrow>
        let prefix = unpack_prefix b; (magic, version, raw_type, payload_length, checksum) = prefix in
        (case check_prefix prefix of
           Inl e \<Rightarrow> (Inl e, s)
         | Inr _ \<Rightarrow>
           (case read_exactly (nat payload_length) s of
              (Inl e, s) \<Rightarrow> (Inl e, s)
            | (Inr payload, s) \<Rightarrow> (check_payload P prefix payload, s))))"

subsection \<open>Payloads\<close>

record hello =
  he_node_id :: bytes
  he_chain_id :: pystr
  he_genesis_hash :: bytes
  he_tip_hash :: bytes
  he_height :: int
  he_cumulative_work :: int
  he_listen_port :: int

definition hello_to_bytes :: "platform \<Rightarrow> hello \<Rightarrow> bytes res" where
  "hello_to_bytes P h =
     bindE (utf8_encode (he_chain_id h)) (\<lambda>chain_id.
     if int (length chain_id) > MAX_WIRE_CHAIN_ID_BYTES then
       raise ProtocolError ''chain ID exceeds the wire resource limit''
     else join_fields
       [encode_bytes HELLO_DOMAIN,
        bindE (exact_bytes (he_node_id h) NODE_ID_LENGTH ''node ID'') encode_bytes,
        encode_text P (he_chain_id h),
        bindE (exact_bytes (he_genesis_hash h) WIRE_HASH_LENGTH ''genesis hash'') encode_bytes,
        bindE (exact_bytes (he_tip_hash h) WIRE_HASH_LENGTH ''tip hash'') encode_bytes,
        encode_u64 (he_height h),
        bindE (wire_encode_work (he_cumulative_work h)) encode_bytes,
        encode_u16 (he_listen_port h)])"

definition hello_from_bytes :: "platform \<Rightarrow> bytes \<Rightarrow> hello res" where
  "hello_from_bytes P encoded =
     rethrow (\<lambda>c. c = EncodingError) (\<lambda>_. Exn ProtocolError ''invalid canonical hello payload'')
       (bindE (read_bytes (Some (int (length HELLO_DOMAIN))) (canonical_reader_of encoded)) (\<lambda>(domain, r).
        if domain \<noteq> HELLO_DOMAIN then raise ProtocolError ''unknown hello domain''
        else
        bindE (read_bytes (Some (int NODE_ID_LENGTH)) r) (\<lambda>(node_id, r).
        bindE (read_text P (Some MAX_WIRE_CHAIN_ID_BYTES) r) (\<lambda>(chain_id, r).
        bindE (read_bytes (Some (int WIRE_HASH_LENGTH)) r) (\<lambda>(genesis_hash, r).
        bindE (read_bytes (Some (int WIRE_HASH_LENGTH)) r) (\<lambda>(tip_hash, r).
        bindE (read_u64 r) (\<lambda>(height, r).
        bindE (read_bytes (Some (int WORK_LENGTH)) r) (\<lambda>(work_bytes, r).
        bindE (wire_decode_work work_bytes) (\<lambda>cumulative_work.
        bindE (read_u16 r) (\<lambda>(listen_port, r).
        bindE (ensure_finished r) (\<lambda>_.
        bindE (exact_bytes node_id NODE_ID_LENGTH ''node ID'') (\<lambda>_.
        bindE (exact_bytes genesis_hash WIRE_HASH_LENGTH ''genesis hash'') (\<lambda>_.
        bindE (exact_bytes tip_hash WIRE_HASH_LENGTH ''tip hash'') (\<lambda>_.
        Inr \<lparr>he_node_id = node_id, he_chain_id = chain_id, he_genesis_hash = genesis_hash,
             he_tip_hash = tip_hash, he_height = height, he_cumulative_work = cumulative_work,
             he_listen_port = listen_port\<rparr>))))))))))))))"

text \<open>A block locator is the list of its hashes.\<close>

definition locator_to_bytes :: "bytes list \<Rightarrow> bytes res" where
  "locator_to_bytes hashes =
     (if \<not> (0 < length hashes \<and> int (length hashes) \<le> MAX_BLOCK_LOCATOR_HASHES) then
        raise ProtocolError ''block locator has an invalid item count''
      else join_fields [encode_bytes LOCATOR_DOMAIN,
        bindE (mapE (\<lambda>v. exact_bytes v WIRE_HASH_LENGTH ''locator hash'') hashes) encode_sequence])"

definition locator_from_bytes :: "bytes \<Rightarrow> bytes list res" where
  "locator_from_bytes encoded =
     bindE (rethrow (\<lambda>c. c = EncodingError) (\<lambda>_. Exn ProtocolError ''invalid canonical block locator'')
       (bindE (read_bytes (Some (int (length LOCATOR_DOMAIN))) (canonical_reader_of encoded)) (\<lambda>(domain, r).
        if domain \<noteq> LOCATOR_DOMAIN then raise ProtocolError ''unknown block locator domain''
        else
        bindE (read_sequence (Some MAX_BLOCK_LOCATOR_HASHES) (Some (int WIRE_HASH_LENGTH)) r) (\<lambda>(hashes, r).
        bindE (ensure_finished r) (\<lambda>_. Inr hashes))))) (\<lambda>hashes.
     if hashes = [] then raise ProtocolError ''block locator must not be empty''
     else
     bindE (mapE (\<lambda>v. exact_bytes v WIRE_HASH_LENGTH ''locator hash'') hashes) (\<lambda>_. Inr hashes))"

record chain_summary =
  su_tip_hash :: bytes
  su_height :: int
  su_cumulative_work :: int

definition summary_to_bytes :: "chain_summary \<Rightarrow> bytes res" where
  "summary_to_bytes s = join_fields
     [encode_bytes SUMMARY_DOMAIN,
      bindE (exact_bytes (su_tip_hash s) WIRE_HASH_LENGTH ''tip hash'') encode_bytes,
      encode_u64 (su_height s),
      bindE (wire_encode_work (su_cumulative_work s)) encode_bytes]"

definition summary_from_bytes :: "bytes \<Rightarrow> chain_summary res" where
  "summary_from_bytes encoded =
     rethrow (\<lambda>c. c = EncodingError) (\<lambda>_. Exn ProtocolError ''invalid canonical chain summary'')
       (bindE (read_bytes (Some (int (length SUMMARY_DOMAIN))) (canonical_reader_of encoded)) (\<lambda>(domain, r).
        if domain \<noteq> SUMMARY_DOMAIN then raise ProtocolError ''unknown chain summary domain''
        else
        bindE (read_bytes (Some (int WIRE_HASH_LENGTH)) r) (\<lambda>(tip_hash, r).
        bindE (read_u64 r) (\<lambda>(height, r).
        bindE (read_bytes (Some (int WORK_LENGTH)) r) (\<lambda>(work_bytes, r).
        bindE (wire_decode_work work_bytes) (\<lambda>cumulative_work.
        bindE (ensure_finished r) (\<lambda>_.
        bindE (exact_bytes tip_hash WIRE_HASH_LENGTH ''tip hash'') (\<lambda>_.
        Inr \<lparr>su_tip_hash = tip_hash, su_height = height, su_cumulative_work = cumulative_work\<rparr>))))))))"

definition encode_block :: "platform \<Rightarrow> block \<Rightarrow> bytes res" where
  "encode_block P b = join_fields
     [encode_bytes BLOCK_BODY_DOMAIN,
      bindE (header_to_bytes P (bl_header b)) encode_bytes,
      bindE (reward_to_bytes P (bl_reward b)) encode_bytes,
      bindE (mapE (transaction_to_bytes P) (bl_transactions b)) encode_sequence]"

definition decode_block :: "platform \<Rightarrow> bytes \<Rightarrow> block res" where
  "decode_block P encoded =
     rethrow (\<lambda>c. c \<in> {BlockEncodingError, EncodingError, TransactionError})
       (\<lambda>_. Exn ProtocolError ''invalid canonical network block'')
       (bindE (read_bytes (Some (int (length BLOCK_BODY_DOMAIN))) (canonical_reader_of encoded)) (\<lambda>(domain, r).
        if domain \<noteq> BLOCK_BODY_DOMAIN then raise ProtocolError ''unknown network block domain''
        else
        bindE (read_bytes (Some 4096) r) (\<lambda>(header_bytes, r).
        bindE (header_from_bytes P header_bytes) (\<lambda>header.
        bindE (read_bytes (Some 2048) r) (\<lambda>(reward_bytes, r).
        bindE (reward_from_bytes P reward_bytes) (\<lambda>reward.
        bindE (read_sequence (Some MAX_BLOCK_TRANSACTIONS_WIRE) (Some MAX_TRANSACTION_BYTES) r) (\<lambda>(transaction_values, r).
        bindE (ensure_finished r) (\<lambda>_.
        bindE (mapE (transaction_from_bytes P) transaction_values) (\<lambda>transactions.
        Inr \<lparr>bl_header = header, bl_reward = reward, bl_transactions = transactions\<rparr>)))))))))"

definition encode_ping :: "int \<Rightarrow> bytes res" where
  "encode_ping nonce =
     (if \<not> (0 \<le> nonce \<and> nonce \<le> U64_MAX) then
        raise ProtocolError ''ping nonce must be an unsigned 64-bit integer''
      else encode_u64 nonce)"

definition decode_ping :: "bytes \<Rightarrow> int res" where
  "decode_ping encoded =
     rethrow (\<lambda>c. c = EncodingError) (\<lambda>_. Exn ProtocolError ''invalid ping payload'')
       (bindE (read_u64 (canonical_reader_of encoded)) (\<lambda>(nonce, r).
        bindE (ensure_finished r) (\<lambda>_. Inr nonce)))"

record rejection =
  re_code :: int
  re_reason :: pystr

definition reject_to_bytes :: "platform \<Rightarrow> rejection \<Rightarrow> bytes res" where
  "reject_to_bytes P x =
     bindE (utf8_encode (re_reason x)) (\<lambda>reason.
     if length reason > 256 then raise ProtocolError ''reject reason exceeds the wire resource limit''
     else join_fields [encode_bytes REJECT_DOMAIN, encode_u16 (re_code x), encode_text P (re_reason x)])"

definition reject_from_bytes :: "platform \<Rightarrow> bytes \<Rightarrow> rejection res" where
  "reject_from_bytes P encoded =
     rethrow (\<lambda>c. c = EncodingError) (\<lambda>_. Exn ProtocolError ''invalid reject payload'')
       (bindE (read_bytes (Some (int (length REJECT_DOMAIN))) (canonical_reader_of encoded)) (\<lambda>(domain, r).
        if domain \<noteq> REJECT_DOMAIN then raise ProtocolError ''unknown reject domain''
        else
        bindE (read_u16 r) (\<lambda>(code, r).
        bindE (read_text P (Some 256) r) (\<lambda>(reason, r).
        bindE (ensure_finished r) (\<lambda>_.
        Inr \<lparr>re_code = code, re_reason = reason\<rparr>)))))"

subsection \<open>The decoders invert the encoders\<close>

lemma exact_bytes_iff [simp]: "exact_bytes v n name = Inr w \<longleftrightarrow> length v = n \<and> w = v"
  by (auto simp: exact_bytes_def)

definition work_ok :: "int \<Rightarrow> bool" where
  "work_ok w \<longleftrightarrow> 0 < w \<and> w < 256 ^ 40"

lemma wire_encode_work_iff [simp]: "wire_encode_work w = Inr b \<longleftrightarrow> work_ok w \<and> b = to_bytes_be 40 w"
  by (auto simp: wire_encode_work_def work_ok_def)

lemma wire_decode_work_iff: "wire_decode_work b = Inr w \<longleftrightarrow> work_ok w \<and> b = to_bytes_be 40 w"
  using to_from_bytes_be [of b] from_to_bytes_be_id [of w 40] from_bytes_be_bounds [of b]
  by (auto simp: wire_decode_work_def work_ok_def)

lemma bind_work:
  assumes "\<And>x. K x = Inr t \<longleftrightarrow> (x = w \<and> Q) \<and> A \<and> B"
  shows "bindE (wire_decode_work b) K = Inr t \<longleftrightarrow> (b = to_bytes_be 40 w \<and> Q) \<and> (work_ok w \<and> A) \<and> B"
  using assms by (auto simp: bindE_eq_Inr wire_decode_work_iff)

lemma canonical_text_iff:
  "canonical_text P m s \<longleftrightarrow> (\<exists>bs. nfc P s = s \<and> utf8_encode s = Inr bs \<and> \<not> exceeds (int (length bs)) m)"
  by (auto simp: canonical_text_def split: sum.splits)

definition hello_canonical :: "platform \<Rightarrow> hello \<Rightarrow> bool" where
  "hello_canonical P h \<longleftrightarrow> canonical_text P (Some MAX_WIRE_CHAIN_ID_BYTES) (he_chain_id h)"

lemma hello_from_bytes_iff: "hello_from_bytes P bs = Inr t \<longleftrightarrow> hello_canonical P t \<and> hello_to_bytes P t = Inr bs"
proof -
  have "hello_from_bytes P bs = Inr t \<longleftrightarrow> True \<and>
      (\<not> exceeds (int (length (he_node_id t))) (Some (int NODE_ID_LENGTH)) \<and>
       canonical_text P (Some MAX_WIRE_CHAIN_ID_BYTES) (he_chain_id t) \<and>
       \<not> exceeds (int (length (he_genesis_hash t))) (Some (int WIRE_HASH_LENGTH)) \<and>
       \<not> exceeds (int (length (he_tip_hash t))) (Some (int WIRE_HASH_LENGTH)) \<and>
       \<not> exceeds (int (length (to_bytes_be 40 (he_cumulative_work t)))) (Some (int WORK_LENGTH)) \<and>
       work_ok (he_cumulative_work t) \<and>
       length (he_node_id t) = 16 \<and> length (he_genesis_hash t) = 32 \<and> length (he_tip_hash t) = 32) \<and>
      parses [encode_bytes HELLO_DOMAIN, encode_bytes (he_node_id t), encode_text P (he_chain_id t),
        encode_bytes (he_genesis_hash t), encode_bytes (he_tip_hash t), encode_u64 (he_height t),
        encode_bytes (to_bytes_be 40 (he_cumulative_work t)), encode_u16 (he_listen_port t)] (canonical_reader_of bs)"
    unfolding hello_from_bytes_def rethrow_eq_Inr
    by (rule bind_domain, (rule bind_parses)+, rule bind_work, rule bind_parses, rule bind_finished, cases t)
       (auto simp: bindE_eq_Inr)
  then show ?thesis
    by (auto simp: parses_whole hello_to_bytes_def hello_canonical_def bindE_eq_Inr exceeds_def canonical_text_iff)
qed

lemma locator_from_bytes_iff: "locator_from_bytes bs = Inr hs \<longleftrightarrow> locator_to_bytes hs = Inr bs"
proof -
  have e: "mapE (\<lambda>v. exact_bytes v 32 n) vs = Inr ws \<longleftrightarrow> (\<forall>v \<in> set vs. length v = 32) \<and> ws = vs" for n vs ws
    by (induction vs arbitrary: ws) (auto simp: bindE_eq_Inr)
  have r: "rethrow (\<lambda>c. c = EncodingError) (\<lambda>_. Exn ProtocolError ''invalid canonical block locator'')
       (bindE (read_bytes (Some (int (length LOCATOR_DOMAIN))) (canonical_reader_of bs)) (\<lambda>(domain, r).
        if domain \<noteq> LOCATOR_DOMAIN then raise ProtocolError ''unknown block locator domain''
        else
        bindE (read_sequence (Some MAX_BLOCK_LOCATOR_HASHES) (Some (int WIRE_HASH_LENGTH)) r) (\<lambda>(hashes, r).
        bindE (ensure_finished r) (\<lambda>_. Inr hashes)))) = Inr t \<longleftrightarrow> True \<and>
      (sequence_ok (Some MAX_BLOCK_LOCATOR_HASHES) (Some (int WIRE_HASH_LENGTH)) t \<and> True) \<and>
      parses [encode_bytes LOCATOR_DOMAIN, encode_sequence t] (canonical_reader_of bs)" for t
    unfolding rethrow_eq_Inr by (rule bind_domain, rule bind_parses, rule bind_finished) auto
  show ?thesis
    unfolding locator_from_bytes_def bindE_eq_Inr r
    by (auto simp: e parses_whole locator_to_bytes_def bindE_eq_Inr sequence_ok_def exceeds_def)
qed

lemma summary_from_bytes_iff: "summary_from_bytes bs = Inr t \<longleftrightarrow> summary_to_bytes t = Inr bs"
proof -
  have "summary_from_bytes bs = Inr t \<longleftrightarrow> True \<and>
      (\<not> exceeds (int (length (su_tip_hash t))) (Some (int WIRE_HASH_LENGTH)) \<and>
       \<not> exceeds (int (length (to_bytes_be 40 (su_cumulative_work t)))) (Some (int WORK_LENGTH)) \<and>
       work_ok (su_cumulative_work t) \<and> length (su_tip_hash t) = 32) \<and>
      parses [encode_bytes SUMMARY_DOMAIN, encode_bytes (su_tip_hash t), encode_u64 (su_height t),
        encode_bytes (to_bytes_be 40 (su_cumulative_work t))] (canonical_reader_of bs)"
    unfolding summary_from_bytes_def rethrow_eq_Inr
    by (rule bind_domain, (rule bind_parses)+, rule bind_work, rule bind_finished, cases t)
       (auto simp: bindE_eq_Inr)
  then show ?thesis by (auto simp: parses_whole summary_to_bytes_def bindE_eq_Inr exceeds_def)
qed

lemma decode_ping_iff: "decode_ping bs = Inr n \<longleftrightarrow> encode_ping n = Inr bs"
proof -
  have "decode_ping bs = Inr n \<longleftrightarrow> True \<and> True \<and> parses [encode_u64 n] (canonical_reader_of bs)"
    unfolding decode_ping_def rethrow_eq_Inr by (rule bind_parses, rule bind_finished) auto
  then show ?thesis by (auto simp: parses_whole encode_ping_def encode_unsigned_range bindE_eq_Inr)
qed

definition reject_canonical :: "platform \<Rightarrow> rejection \<Rightarrow> bool" where
  "reject_canonical P x \<longleftrightarrow> canonical_text P (Some 256) (re_reason x)"

lemma reject_from_bytes_iff: "reject_from_bytes P bs = Inr t \<longleftrightarrow> reject_canonical P t \<and> reject_to_bytes P t = Inr bs"
proof -
  have "reject_from_bytes P bs = Inr t \<longleftrightarrow> True \<and> (canonical_text P (Some 256) (re_reason t) \<and> True) \<and>
      parses [encode_bytes REJECT_DOMAIN, encode_u16 (re_code t), encode_text P (re_reason t)] (canonical_reader_of bs)"
    unfolding reject_from_bytes_def rethrow_eq_Inr
    by (rule bind_domain, (rule bind_parses)+, rule bind_finished, cases t) auto
  then show ?thesis
    by (auto simp: parses_whole reject_to_bytes_def reject_canonical_def bindE_eq_Inr exceeds_def canonical_text_iff)
qed

text \<open>A block within the wire limits, all of whose parts are canonical.\<close>

definition block_canonical :: "platform \<Rightarrow> block \<Rightarrow> bool" where
  "block_canonical P b \<longleftrightarrow> header_canonical P (bl_header b) \<and> reward_canonical P (bl_reward b)
     \<and> list_all (transaction_canonical P) (bl_transactions b)
     \<and> (\<exists>hb rb tbs. header_to_bytes P (bl_header b) = Inr hb \<and> length hb \<le> 4096
          \<and> reward_to_bytes P (bl_reward b) = Inr rb \<and> length rb \<le> 2048
          \<and> mapE (transaction_to_bytes P) (bl_transactions b) = Inr tbs
          \<and> int (length tbs) \<le> MAX_BLOCK_TRANSACTIONS_WIRE
          \<and> (\<forall>tb \<in> set tbs. int (length tb) \<le> MAX_TRANSACTION_BYTES))"

lemma bind_header:
  assumes "\<And>x. K x = Inr t \<longleftrightarrow> (x = v \<and> Q) \<and> A \<and> B"
  shows "bindE (header_from_bytes P bs) K = Inr t
     \<longleftrightarrow> (bs = projr (header_to_bytes P v) \<and> Q) \<and> (header_bytes.encodable P v \<and> A) \<and> B"
  by (rule header_bytes.bind_decode [OF assms])

lemma bind_reward:
  assumes "\<And>x. K x = Inr t \<longleftrightarrow> (x = v \<and> Q) \<and> A \<and> B"
  shows "bindE (reward_from_bytes P bs) K = Inr t
     \<longleftrightarrow> (bs = projr (reward_to_bytes P v) \<and> Q) \<and> (reward_bytes.encodable P v \<and> A) \<and> B"
  by (rule reward_bytes.bind_decode [OF assms])

lemma decode_block_iff: "decode_block P bs = Inr b \<longleftrightarrow> block_canonical P b \<and> encode_block P b = Inr bs"
proof -
  let ?hb = "projr (header_to_bytes P (bl_header b))" and ?rb = "projr (reward_to_bytes P (bl_reward b))"
  let ?tbs = "map (\<lambda>t. projr (transaction_to_bytes P t)) (bl_transactions b)"
  have "decode_block P bs = Inr b \<longleftrightarrow> True \<and>
      (\<not> exceeds (int (length ?hb)) (Some 4096) \<and> header_bytes.encodable P (bl_header b) \<and>
       \<not> exceeds (int (length ?rb)) (Some 2048) \<and> reward_bytes.encodable P (bl_reward b) \<and>
       sequence_ok (Some MAX_BLOCK_TRANSACTIONS_WIRE) (Some MAX_TRANSACTION_BYTES) ?tbs \<and>
       list_all (transaction_bytes.encodable P) (bl_transactions b)) \<and>
      parses [encode_bytes BLOCK_BODY_DOMAIN, encode_bytes ?hb, encode_bytes ?rb, encode_sequence ?tbs]
        (canonical_reader_of bs)"
    unfolding decode_block_def rethrow_eq_Inr
    by (rule bind_domain, rule bind_parses, rule bind_header, rule bind_parses, rule bind_reward, rule bind_parses,
        rule bind_finished, cases b) (auto simp: bindE_eq_Inr transaction_bytes.mapE_decode)
  also have "\<dots> \<longleftrightarrow> block_canonical P b \<and> encode_block P b = Inr bs"
  proof -
    have h: "header_bytes.encodable P x \<longleftrightarrow> header_canonical P x \<and> header_to_bytes P x = Inr (projr (header_to_bytes P x))" for x
      by (auto simp: header_bytes.encodable_def)
    have r: "reward_bytes.encodable P x \<longleftrightarrow> reward_canonical P x \<and> reward_to_bytes P x = Inr (projr (reward_to_bytes P x))" for x
      by (auto simp: reward_bytes.encodable_def)
    let ?M = "mapE (transaction_to_bytes P) (bl_transactions b)"
    have c: "list_all (transaction_canonical P) (bl_transactions b) \<and> ?M = Inr tbs \<longleftrightarrow>
        list_all (transaction_bytes.encodable P) (bl_transactions b) \<and> tbs = ?tbs" for tbs
      by (rule transaction_bytes.mapE_valid)
    show ?thesis
    proof (cases "list_all (transaction_bytes.encodable P) (bl_transactions b)")
      case True
      then have t: "list_all (transaction_canonical P) (bl_transactions b)" "?M = Inr ?tbs" using c by blast+
      show ?thesis
        unfolding h r block_canonical_def encode_block_def parses_whole t(2)
        using t(1) True
        by (cases "header_to_bytes P (bl_header b)"; cases "reward_to_bytes P (bl_reward b)")
           (auto simp: exceeds_def sequence_ok_def MAX_TRANSACTION_BYTES_def)
    next
      case False
      then show ?thesis using c by (auto simp: block_canonical_def)
    qed
  qed
  finally show ?thesis .
qed

interpretation hello_bytes: message_codec "hello_to_bytes P" "hello_from_bytes P" "hello_canonical P" for P
  by unfold_locales (rule hello_from_bytes_iff)

interpretation locator_bytes: message_codec locator_to_bytes locator_from_bytes "\<lambda>_. True"
  by unfold_locales (simp add: locator_from_bytes_iff)

interpretation summary_bytes: message_codec summary_to_bytes summary_from_bytes "\<lambda>_. True"
  by unfold_locales (simp add: summary_from_bytes_iff)

interpretation ping_bytes: message_codec encode_ping decode_ping "\<lambda>_. True"
  by unfold_locales (simp add: decode_ping_iff)

interpretation reject_bytes: message_codec "reject_to_bytes P" "reject_from_bytes P" "reject_canonical P" for P
  by unfold_locales (rule reject_from_bytes_iff)

interpretation block_bytes: message_codec "encode_block P" "decode_block P" "block_canonical P" for P
  by unfold_locales (rule decode_block_iff)

subsection \<open>Frames on the wire\<close>

lemma message_type_of_iff: "message_type_of c = Inr m \<longleftrightarrow> c = message_code m"
  by (cases m) (auto simp: message_type_of_def)

lemma message_code_range: "1 \<le> message_code m \<and> message_code m \<le> 8"
  by (cases m) auto

lemma length_NETWORK_MAGIC [simp]: "length NETWORK_MAGIC = 4"
  by (simp add: NETWORK_MAGIC_def byte_literal_def)

definition prefix_of :: "platform \<Rightarrow> frame \<Rightarrow> bytes \<times> int \<times> int \<times> int \<times> bytes" where
  "prefix_of P f = (NETWORK_MAGIC, PROTOCOL_VERSION, message_code (fr_message_type f), int (length (fr_payload f)),
     take 4 (sha256_digest P (fr_payload f)))"

definition prefix_bytes :: "bytes \<times> int \<times> int \<times> int \<times> bytes \<Rightarrow> bytes" where
  "prefix_bytes = (\<lambda>(magic, version, raw_type, payload_length, checksum).
     magic @ to_bytes_be 2 version @ to_bytes_be 1 raw_type @ to_bytes_be 4 payload_length @ checksum)"

lemma unpack_prefix_bytes:
  assumes "length m = 4" and "length k = 4" and "0 \<le> v" "v < 256 ^ 2" and "0 \<le> c" "c < 256 ^ 1"
    and "0 \<le> n" "n < 256 ^ 4"
  shows "unpack_prefix (prefix_bytes (m, v, c, n, k)) = (m, v, c, n, k)"
  using assms from_to_bytes_be_id [of v 2] from_to_bytes_be_id [of c 1] from_to_bytes_be_id [of n 4]
  by (simp add: unpack_prefix_def prefix_bytes_def)

lemma prefix_bytes_unpack:
  assumes "length b = 15"
  shows "prefix_bytes (unpack_prefix b) = b"
proof -
  have "to_bytes_be k (from_bytes_be (take k (drop i b))) = take k (drop i b)" if "i + k \<le> 15" for i k
    using that assms to_from_bytes_be [of "take k (drop i b)"] by (simp add: min_absorb2)
  from this [of 4 2] this [of 6 1] this [of 7 4]
  have "prefix_bytes (unpack_prefix b) = take 4 b @ take 2 (drop 4 b) @ take 1 (drop 6 b) @ take 4 (drop 7 b) @ take 4 (drop 11 b)"
    by (simp del: to_bytes_be.simps add: prefix_bytes_def unpack_prefix_def)
  also have "\<dots> = b"
  proof -
    have "take n xs @ take m (drop n xs) = take (n + m) xs" for n m and xs :: bytes by (simp add: take_add)
    from this [of 4 b 2] this [of 6 b 1] this [of 7 b 4] this [of 11 b 4] show ?thesis
      using assms by (simp flip: append_assoc)
  qed
  finally show ?thesis .
qed

lemma payload_bound: "n \<le> MAX_FRAME_PAYLOAD \<Longrightarrow> n < 256 ^ 4"
  by (simp add: MAX_FRAME_PAYLOAD_def)

lemma unpack_iff:
  assumes "hash_ok P" and "int (length (fr_payload f)) \<le> MAX_FRAME_PAYLOAD" and "length b = 15"
  shows "unpack_prefix b = prefix_of P f \<longleftrightarrow> b = prefix_bytes (prefix_of P f)"
  using prefix_bytes_unpack [OF assms(3)] unpack_prefix_bytes message_code_range [of "fr_message_type f"]
    payload_bound [OF assms(2)] assms(1)
  by (auto simp: prefix_of_def PROTOCOL_VERSION_def)

lemma checks_iff:
  "check_prefix p = Inr () \<and> int (length payload) = fst (snd (snd (snd p))) \<and> check_payload P p payload = Inr f
    \<longleftrightarrow> fr_payload f = payload \<and> int (length payload) \<le> MAX_FRAME_PAYLOAD \<and> p = prefix_of P f"
  by (cases p, cases f)
     (auto simp: check_prefix_def check_payload_def prefix_of_def bindE_eq_Inr rethrow_eq_Inr message_type_of_iff)

lemma encode_frame_iff:
  "encode_frame P (fr_message_type f) (fr_payload f) PROTOCOL_VERSION = Inr bs
    \<longleftrightarrow> int (length (fr_payload f)) \<le> MAX_FRAME_PAYLOAD \<and> bs = prefix_bytes (prefix_of P f) @ fr_payload f"
  by (auto simp: encode_frame_def prefix_bytes_def prefix_of_def PROTOCOL_VERSION_def)

lemma length_prefix_bytes: "hash_ok P \<Longrightarrow> length (prefix_bytes (prefix_of P f)) = 15"
  by (simp add: prefix_bytes_def prefix_of_def)

lemma decode_frame_iff:
  assumes "hash_ok P"
  shows "decode_frame P bs = Inr f \<longleftrightarrow> encode_frame P (fr_message_type f) (fr_payload f) PROTOCOL_VERSION = Inr bs"
proof -
  let ?p = "unpack_prefix (take 15 bs)"
  have "decode_frame P bs = Inr f \<longleftrightarrow> 15 \<le> length bs \<and>
      (check_prefix ?p = Inr () \<and> int (length (drop 15 bs)) = fst (snd (snd (snd ?p))) \<and> check_payload P ?p (drop 15 bs) = Inr f)"
    by (cases ?p) (auto simp: decode_frame_def FRAME_PREFIX_SIZE_def Let_def bindE_eq_Inr)
  also have "\<dots> \<longleftrightarrow> 15 \<le> length bs \<and> fr_payload f = drop 15 bs \<and> int (length (drop 15 bs)) \<le> MAX_FRAME_PAYLOAD \<and>
      take 15 bs = prefix_bytes (prefix_of P f)"
    unfolding checks_iff using unpack_iff [OF assms, of f "take 15 bs"] by auto
  also have "\<dots> \<longleftrightarrow> int (length (fr_payload f)) \<le> MAX_FRAME_PAYLOAD \<and> bs = prefix_bytes (prefix_of P f) @ fr_payload f"
    using length_prefix_bytes [OF assms, of f] append_take_drop_id [of 15 bs] by (auto simp del: append_take_drop_id)
  finally show ?thesis unfolding encode_frame_iff .
qed

lemma read_frame_iff:
  assumes "hash_ok P"
  shows "read_frame P s = (Inr f, s') \<longleftrightarrow> int (length (fr_payload f)) \<le> MAX_FRAME_PAYLOAD \<and>
     s = s'\<lparr>ps_data := prefix_bytes (prefix_of P f) @ fr_payload f @ ps_data s'\<rparr>"
proof -
  let ?p = "unpack_prefix (take 15 (ps_data s))" and ?d = "drop 15 (ps_data s)"
  let ?n = "nat (fst (snd (snd (snd ?p))))"
  have n: "0 \<le> fst (snd (snd (snd (unpack_prefix b))))" for b
    by (simp add: unpack_prefix_def from_bytes_be_bounds)
  have "read_frame P s = (Inr f, s') \<longleftrightarrow> 15 \<le> length (ps_data s) \<and> ?n \<le> length ?d \<and> s' = s\<lparr>ps_data := drop ?n ?d\<rparr> \<and>
      (check_prefix ?p = Inr () \<and> int (length (take ?n ?d)) = fst (snd (snd (snd ?p))) \<and> check_payload P ?p (take ?n ?d) = Inr f)"
    using n [of "take 15 (ps_data s)"]
    by (cases ?p) (auto simp: read_frame_def read_exactly_def FRAME_PREFIX_SIZE_def Let_def split: sum.splits)
  also have "\<dots> \<longleftrightarrow> 15 \<le> length (ps_data s) \<and> ?n \<le> length ?d \<and> s' = s\<lparr>ps_data := drop ?n ?d\<rparr> \<and>
      fr_payload f = take ?n ?d \<and> int (length (fr_payload f)) \<le> MAX_FRAME_PAYLOAD \<and>
      take 15 (ps_data s) = prefix_bytes (prefix_of P f)"
    unfolding checks_iff using unpack_iff [OF assms, of f "take 15 (ps_data s)"] by auto
  also have "\<dots> \<longleftrightarrow> int (length (fr_payload f)) \<le> MAX_FRAME_PAYLOAD \<and>
      s = s'\<lparr>ps_data := prefix_bytes (prefix_of P f) @ fr_payload f @ ps_data s'\<rparr>" (is "?L \<longleftrightarrow> ?R")
  proof
    assume l: ?L
    then have "fr_payload f @ drop ?n ?d = ?d" and "prefix_bytes (prefix_of P f) @ ?d = ps_data s"
      by (metis append_take_drop_id)+
    then have "ps_data s = prefix_bytes (prefix_of P f) @ fr_payload f @ drop ?n ?d" by simp
    moreover have "ps_data s' = drop ?n ?d" "s = s'\<lparr>ps_data := ps_data s\<rparr>" using l by simp_all
    ultimately show ?R using l by metis
  next
    assume r: ?R
    then have d: "ps_data s = prefix_bytes (prefix_of P f) @ fr_payload f @ ps_data s'" by (cases s') simp
    then have "take 15 (ps_data s) = prefix_bytes (prefix_of P f)" and dd: "?d = fr_payload f @ ps_data s'"
      using length_prefix_bytes [OF assms, of f] by simp_all
    moreover from this have "?n = length (fr_payload f)"
      using r unpack_iff [OF assms, of f "take 15 (ps_data s)"] length_prefix_bytes [OF assms, of f]
      by (simp add: prefix_of_def)
    ultimately show ?L using r d length_prefix_bytes [OF assms, of f] by (cases s') simp
  qed
  finally show ?thesis .
qed

subsection \<open>Untrusted bytes raise protocol errors only\<close>

lemma readers_raise:
  "raises_only {EncodingError} (take_bytes n r)" "raises_only {EncodingError} (ensure_finished r)"
  unfolding take_bytes_def ensure_finished_def validate_optional_limit_def
  by (intro raises_intros; simp)+

lemma read_unsigned_raises: "raises_only {EncodingError} (read_unsigned n r)"
  unfolding read_unsigned_def by (intro raises_intros readers_raise)

lemma read_bytes_raises: "raises_only {EncodingError} (read_bytes m r)"
  unfolding read_bytes_def validate_optional_limit_def read_u32_def
  by (intro raises_intros readers_raise read_unsigned_raises) simp_all

lemma read_items_raises: "raises_only {EncodingError} (read_items m n r)"
  by (induction m n r rule: read_items.induct, subst read_items.simps)
     (auto intro!: raises_intros read_bytes_raises)

lemma utf8_decode_raises: "raises_only {UnicodeDecodeError} (utf8_decode bs)"
  by (induction bs rule: utf8_decode.induct, subst utf8_decode.simps) (auto intro!: raises_intros simp: Let_def split: list.splits)

lemma reads_raise [raises_intros]:
  assumes "EncodingError \<in> A"
  shows "raises_only A (read_bytes m r)" and "raises_only A (read_u16 r)" and "raises_only A (read_u64 r)"
    and "raises_only A (ensure_finished r)" and "raises_only A (read_sequence n m r)" and "raises_only A (read_text P m r)"
proof -
  have u: "raises_only {EncodingError} (rethrow (\<lambda>c. c = UnicodeDecodeError) (\<lambda>_. Exn EncodingError t) (utf8_decode bs))" for t bs
    by (rule raises_rethrow [OF utf8_decode_raises]) auto
  have "raises_only {EncodingError} (read_sequence n m r)"
    unfolding read_sequence_def validate_optional_limit_def read_u32_def
    by (intro raises_intros read_unsigned_raises read_items_raises) simp_all
  moreover have "raises_only {EncodingError} (read_text P m r)"
    unfolding read_text_def by (intro raises_intros read_bytes_raises u) simp_all
  ultimately show "raises_only A (read_bytes m r)" and "raises_only A (read_u16 r)" and "raises_only A (read_u64 r)"
    and "raises_only A (ensure_finished r)" and "raises_only A (read_sequence n m r)" and "raises_only A (read_text P m r)"
    using assms readers_raise(2) read_bytes_raises read_unsigned_raises unfolding read_u16_def read_u64_def
    by (blast intro: raises_mono)+
qed

lemma body_raises [raises_intros]:
  assumes "ProtocolError \<in> A"
  shows "raises_only A (exact_bytes v n name)" and "raises_only A (wire_decode_work v)"
  using assms by (auto simp: exact_bytes_def wire_decode_work_def intro!: raises_intros)

definition protocol_errors :: "exn_class set" where
  "protocol_errors = {ProtocolError, UnsupportedProtocolVersionError, PeerDisconnectedError, PeerFrameTimeoutError}"

lemma raises_guard:
  assumes "raises_only (insert ProtocolError B) m" and "\<And>k. k \<in> B \<Longrightarrow> p k"
  shows "raises_only {ProtocolError} (rethrow p (\<lambda>_. Exn ProtocolError t) m)"
  using assms by (auto intro!: raises_rethrow [OF assms(1)])

lemma payload_decoders_raise:
  "raises_only {ProtocolError} (hello_from_bytes P bs)" "raises_only {ProtocolError} (locator_from_bytes bs)"
  "raises_only {ProtocolError} (summary_from_bytes bs)" "raises_only {ProtocolError} (decode_ping bs)"
  "raises_only {ProtocolError} (reject_from_bytes P bs)"
proof -
  show "raises_only {ProtocolError} (hello_from_bytes P bs)" unfolding hello_from_bytes_def
    by (rule raises_guard [where B = "{EncodingError}"], (intro raises_intros; simp), simp)
  show "raises_only {ProtocolError} (locator_from_bytes bs)" unfolding locator_from_bytes_def
    by (rule raises_bind, rule raises_guard [where B = "{EncodingError}"], (intro raises_intros; simp), simp)
       (intro raises_intros; simp)
  show "raises_only {ProtocolError} (summary_from_bytes bs)" unfolding summary_from_bytes_def
    by (rule raises_guard [where B = "{EncodingError}"], (intro raises_intros; simp), simp)
  show "raises_only {ProtocolError} (decode_ping bs)" unfolding decode_ping_def
    by (rule raises_guard [where B = "{EncodingError}"], (intro raises_intros; simp), simp)
  show "raises_only {ProtocolError} (reject_from_bytes P bs)" unfolding reject_from_bytes_def
    by (rule raises_guard [where B = "{EncodingError}"], (intro raises_intros; simp), simp)
qed

lemma parts_raise [raises_intros]:
  "BlockEncodingError \<in> A \<Longrightarrow> raises_only A (header_from_bytes P bs)"
  "BlockEncodingError \<in> A \<Longrightarrow> raises_only A (reward_from_bytes P bs)"
  "TransactionError \<in> A \<Longrightarrow> raises_only A (transaction_from_bytes P bs)"
proof -
  have "raises_only {BlockEncodingError} (header_from_bytes P bs)" unfolding header_from_bytes_def exact_hash_def encode_target_def Let_def
    by (rule raises_rethrow [where B = "{EncodingError, BlockEncodingError}"], (intro raises_intros; simp), auto)
  moreover have "raises_only {BlockEncodingError} (reward_from_bytes P bs)" unfolding reward_from_bytes_def
    by (rule raises_rethrow [where B = "{EncodingError, BlockEncodingError}"], (intro raises_intros; simp), auto)
  moreover have "raises_only {TransactionError} (transaction_from_bytes P bs)" unfolding transaction_from_bytes_def
    by (rule raises_rethrow [where B = "{EncodingError, TransactionError}"], (intro raises_intros; simp), auto)
  ultimately show "BlockEncodingError \<in> A \<Longrightarrow> raises_only A (header_from_bytes P bs)"
    "BlockEncodingError \<in> A \<Longrightarrow> raises_only A (reward_from_bytes P bs)"
    "TransactionError \<in> A \<Longrightarrow> raises_only A (transaction_from_bytes P bs)"
    by (blast intro: raises_mono)+
qed

lemma decode_block_raises: "raises_only {ProtocolError} (decode_block P bs)"
  unfolding decode_block_def
  by (rule raises_guard [where B = "{BlockEncodingError, EncodingError, TransactionError}"]) (intro raises_intros; simp)+

lemma message_type_of_raises: "raises_only {ValueError} (message_type_of v)"
  unfolding message_type_of_def by (intro raises_intros) simp

lemma check_raises:
  "raises_only protocol_errors (check_prefix p)" "raises_only protocol_errors (check_payload P p bs)"
proof -
  show "raises_only protocol_errors (check_prefix p)"
    unfolding check_prefix_def protocol_errors_def by (intro raises_intros) simp_all
  show "raises_only protocol_errors (check_payload P p bs)"
    by (cases p)
       (auto simp: check_payload_def protocol_errors_def intro!: raises_intros raises_rethrow [OF message_type_of_raises])
qed

lemma frame_decoders_raise:
  "raises_only protocol_errors (decode_frame P bs)" "raises_only protocol_errors (fst (read_frame P s))"
proof -
  show "raises_only protocol_errors (decode_frame P bs)"
    unfolding decode_frame_def Let_def
    by (intro raises_intros check_raises) (simp_all add: protocol_errors_def)
  have r: "raises_only protocol_errors (fst (read_exactly n s))" for n s
    by (auto simp: read_exactly_def protocol_errors_def intro!: raises_intros)
  show "raises_only protocol_errors (fst (read_frame P s))"
    using r check_raises
    by (auto simp: read_frame_def raises_only_def Let_def split: sum.splits prod.splits) (metis fst_conv)+
qed

subsection \<open>Properties\<close>

text \<open>\<open>frame_wire_format\<close>: \<open>decode_frame\<close> accepts exactly the bytes \<open>encode_frame\<close> makes of a message of
  protocol version 1 within the payload limit, and returns that message: every other byte string is
  refused, and no frame has two encodings.\<close>

theorem frame_wire_format:
  assumes "hash_ok P"
  shows "decode_frame P bs = Inr f \<longleftrightarrow> encode_frame P (fr_message_type f) (fr_payload f) PROTOCOL_VERSION = Inr bs"
  by (rule decode_frame_iff [OF assms])

theorem frame_wire_format_witness:
  "decode_frame sample_platform (projr (encode_frame sample_platform PING [1, 2] 1)) = Inr \<lparr>fr_message_type = PING, fr_payload = [1, 2]\<rparr>"
proof -
  have "encode_frame sample_platform PING [1, 2] 1 = Inr (projr (encode_frame sample_platform PING [1, 2] 1))"
    by (simp add: encode_frame_def MAX_FRAME_PAYLOAD_def)
  then show ?thesis
    using frame_wire_format [of sample_platform "projr (encode_frame sample_platform PING [1, 2] 1)"
        "\<lparr>fr_message_type = PING, fr_payload = [1, 2]\<rparr>"] by (simp add: PROTOCOL_VERSION_def)
qed

text \<open>\<open>frames_read_one_by_one\<close>: \<open>read_frame\<close> returns a frame exactly when the bytes that have arrived start
  with its encoding; it takes these bytes off the stream, leaves everything behind them, and so reads
  messages sent one after the other in the order they were sent, whatever follows.\<close>

theorem frames_read_one_by_one:
  assumes "hash_ok P"
  shows "read_frame P s = (Inr f, s') \<longleftrightarrow>
    (\<exists>bs. encode_frame P (fr_message_type f) (fr_payload f) PROTOCOL_VERSION = Inr bs \<and>
      ps_data s = bs @ ps_data s' \<and> ps_closed s' = ps_closed s)"
  unfolding read_frame_iff [OF assms] encode_frame_iff by (cases s, cases s') auto

theorem frames_read_one_by_one_witness:
  "read_frame sample_platform \<lparr>ps_data = projr (encode_frame sample_platform PONG [7] 1) @ [0xFF], ps_closed = True\<rparr>
    = (Inr \<lparr>fr_message_type = PONG, fr_payload = [7]\<rparr>, \<lparr>ps_data = [0xFF], ps_closed = True\<rparr>)"
proof -
  have "encode_frame sample_platform PONG [7] 1 = Inr (projr (encode_frame sample_platform PONG [7] 1))"
    by (simp add: encode_frame_def MAX_FRAME_PAYLOAD_def)
  then show ?thesis
    by (subst frames_read_one_by_one) (simp_all add: PROTOCOL_VERSION_def)
qed

text \<open>C35. \<open>payload_wire_formats\<close>: each payload decoder accepts exactly the encoder's output for values whose
  texts are in NFC and within the limits: greeting, block locator, chain summary, ping and rejection.\<close>

theorem payload_wire_formats:
  "(hello_from_bytes P bs = Inr h \<longleftrightarrow> hello_canonical P h \<and> hello_to_bytes P h = Inr bs) \<and>
   (locator_from_bytes bs = Inr hashes \<longleftrightarrow> locator_to_bytes hashes = Inr bs) \<and>
   (summary_from_bytes bs = Inr s \<longleftrightarrow> summary_to_bytes s = Inr bs) \<and>
   (decode_ping bs = Inr n \<longleftrightarrow> encode_ping n = Inr bs) \<and>
   (reject_from_bytes P bs = Inr x \<longleftrightarrow> reject_canonical P x \<and> reject_to_bytes P x = Inr bs)"
  by (intro conjI; rule hello_from_bytes_iff locator_from_bytes_iff summary_from_bytes_iff decode_ping_iff reject_from_bytes_iff)

text \<open>\<open>block_wire_format\<close>: \<open>decode_block\<close> accepts exactly \<open>encode_block\<close>'s bytes of the blocks whose header,
  reward and transactions are canonical and within the wire limits (4096 bytes of header, 2048 of
  reward, 10000 transactions of at most 4096 bytes), and returns the block with its transactions in order.\<close>

theorem block_wire_format: "decode_block P bs = Inr b \<longleftrightarrow> block_canonical P b \<and> encode_block P b = Inr bs"
  by (rule decode_block_iff)

text \<open>C33. \<open>untrusted_bytes_raise_protocol_errors\<close>: whatever a peer sends, every decoder of the protocol
  returns a value or raises one of the module's own errors (\<open>ProtocolError\<close> or a subclass); nothing else escapes.\<close>

theorem untrusted_bytes_raise_protocol_errors:
  "raises_only protocol_errors (fst (read_frame P stream)) \<and>
   raises_only protocol_errors (decode_frame P bs) \<and>
   raises_only {ProtocolError} (hello_from_bytes P bs) \<and>
   raises_only {ProtocolError} (locator_from_bytes bs) \<and>
   raises_only {ProtocolError} (summary_from_bytes bs) \<and>
   raises_only {ProtocolError} (decode_block P bs) \<and>
   raises_only {ProtocolError} (decode_ping bs) \<and>
   raises_only {ProtocolError} (reject_from_bytes P bs)"
  by (intro conjI; rule frame_decoders_raise payload_decoders_raise decode_block_raises)

end
