(* ===== verification/Peer_Connection.thy ===== *)
theory Peer_Connection
  imports Complex_Main Local_Node P2p_Protocol
begin

text \<open>
  The first half of \<open>p2p.py\<close>: resource limits, the rate limiter, one peer connection and the tables of the
  node it reports to. The operations of \<open>_PeerConnection\<close> and \<open>P2PNode\<close> change one shared state,
  \<open>p2p_node\<close>, in which a connection object is known by its number; an operation is a function from the
  state to a result and the new state, and raising keeps the changes made so far. Times are rational
  seconds and every operation that reads the clock takes the time as an argument.
\<close>

subsection \<open>Operations on a state\<close>

type_synonym ('a, 's) operation = "'s \<Rightarrow> 'a res \<times> 's"

definition ret :: "'a \<Rightarrow> ('a, 's) operation" where
  "ret x s = (Inr x, s)"

definition fail :: "exn_class \<Rightarrow> string \<Rightarrow> ('a, 's) operation" where
  "fail c m s = (raise c m, s)"

definition and_then :: "('a, 's) operation \<Rightarrow> ('a \<Rightarrow> ('b, 's) operation) \<Rightarrow> ('b, 's) operation" where
  "and_then m f s = (case m s of (Inl e, s) \<Rightarrow> (Inl e, s) | (Inr x, s) \<Rightarrow> f x s)"

text \<open>A computation on values, a read of the state, a change of it.\<close>

definition compute :: "'a res \<Rightarrow> ('a, 's) operation" where
  "compute r s = (r, s)"

definition reads_state :: "('s \<Rightarrow> 'a res) \<Rightarrow> ('a, 's) operation" where
  "reads_state f s = (f s, s)"

definition change :: "('s \<Rightarrow> 's) \<Rightarrow> (unit, 's) operation" where
  "change f s = (Inr (), f s)"

text \<open>\<open>contextlib.suppress\<close> and \<open>try: m except BaseException as e: h(e)\<close>.\<close>

definition suppress :: "(exn_class \<Rightarrow> bool) \<Rightarrow> (unit, 's) operation \<Rightarrow> (unit, 's) operation" where
  "suppress p m s = (case m s of
     (Inl e, s) \<Rightarrow> if p (exn_kind e) then (Inr (), s) else (Inl e, s)
   | (Inr x, s) \<Rightarrow> (Inr x, s))"

definition on_error :: "('a, 's) operation \<Rightarrow> (py_error \<Rightarrow> ('a, 's) operation) \<Rightarrow> ('a, 's) operation" where
  "on_error m h s = (case m s of (Inl e, s) \<Rightarrow> h e s | (Inr x, s) \<Rightarrow> (Inr x, s))"

text \<open>\<open>needle in text\<close> for strings.\<close>

fun text_in :: "string \<Rightarrow> string \<Rightarrow> bool" where
  "text_in needle [] \<longleftrightarrow> needle = []"
| "text_in needle (c # cs) \<longleftrightarrow> take (length needle) (c # cs) = needle \<or> text_in needle cs"

subsection \<open>Constants, addresses and limits\<close>

definition DEFAULT_TESTNET_PORT :: int where "DEFAULT_TESTNET_PORT = 19733"
definition DEFAULT_LISTEN_HOST :: pystr where "DEFAULT_LISTEN_HOST = str ''127.0.0.1''"
definition LOOPBACK_HOSTS :: "pystr list" where
  "LOOPBACK_HOSTS = [str ''127.0.0.1'', str ''::1'', str ''localhost'']"
definition MAX_BLOCKS_PER_RESPONSE :: nat where "MAX_BLOCKS_PER_RESPONSE = 128"
definition SCORE_DISCONNECT_THRESHOLD :: int where "SCORE_DISCONNECT_THRESHOLD = 100"
definition BAN_SECONDS :: rat where "BAN_SECONDS = 60"
definition WRITE_TIMEOUT_SECONDS :: rat where "WRITE_TIMEOUT_SECONDS = 5"
definition MAX_PENDING_SENDS_PER_PEER :: int where "MAX_PENDING_SENDS_PER_PEER = 16"

text \<open>The address objects of \<open>ipaddress\<close>, by their numeric value.\<close>

datatype ip = IPv4 int | IPv6 int

fun ip_is_loopback :: "ip \<Rightarrow> bool" where
  "ip_is_loopback (IPv4 a) \<longleftrightarrow> a div 2 ^ 24 = 127"
| "ip_is_loopback (IPv6 a) \<longleftrightarrow> a = 1"

fun ipv4_mapped :: "ip \<Rightarrow> ip option" where
  "ipv4_mapped (IPv4 a) = None"
| "ipv4_mapped (IPv6 a) = (if a div 2 ^ 32 = 0xFFFF then Some (IPv4 (a mod 2 ^ 32)) else None)"

text \<open>The parser \<open>ipaddress.ip_address\<close> is an argument.\<close>

definition is_loopback_address :: "(pystr \<Rightarrow> ip option) \<Rightarrow> pystr \<Rightarrow> bool" where
  "is_loopback_address ip_address v =
     (case ip_address (takeWhile (\<lambda>c. c \<noteq> 37) v) of
        None \<Rightarrow> False
      | Some a \<Rightarrow> (case ipv4_mapped a of None \<Rightarrow> ip_is_loopback a | Some b \<Rightarrow> ip_is_loopback b))"

record peer_limits =
  li_max_peers :: int
  li_max_peers_per_ip :: int
  li_max_messages_per_minute :: int
  li_max_bytes_per_minute :: int
  li_max_pending_sends_per_peer :: int
  li_score_disconnect_threshold :: int
  li_write_timeout_seconds :: rat

definition default_limits :: peer_limits where
  "default_limits = \<lparr>li_max_peers = 32, li_max_peers_per_ip = 4, li_max_messages_per_minute = 600,
     li_max_bytes_per_minute = 32 * 1024 * 1024, li_max_pending_sends_per_peer = MAX_PENDING_SENDS_PER_PEER,
     li_score_disconnect_threshold = SCORE_DISCONNECT_THRESHOLD, li_write_timeout_seconds = WRITE_TIMEOUT_SECONDS\<rparr>"

definition new_peer_limits :: "peer_limits \<Rightarrow> peer_limits res" where
  "new_peer_limits l =
     (if list_ex (\<lambda>v. v \<le> 0) [li_max_peers l, li_max_peers_per_ip l, li_max_messages_per_minute l,
          li_max_bytes_per_minute l, li_max_pending_sends_per_peer l, li_score_disconnect_threshold l] then
        raise ValueError ''peer limits must be positive integers''
      else if li_write_timeout_seconds l \<le> 0 then raise ValueError ''peer write timeout must be positive and finite''
      else Inr l)"

record peer_info =
  pi_node_id :: pystr
  pi_host :: pystr
  pi_port :: int
  pi_height :: int
  pi_tip_hash :: pystr
  pi_cumulative_work :: int
  pi_score :: int
  pi_outbound :: bool

subsection \<open>The rate limiter\<close>

record rate_limiter =
  rl_limits :: peer_limits
  rl_events :: "(rat \<times> int) list"
  rl_bytes :: int

definition new_rate_limiter :: "peer_limits \<Rightarrow> rate_limiter" where
  "new_rate_limiter l = \<lparr>rl_limits = l, rl_events = [], rl_bytes = 0\<rparr>"

text \<open>The loop that drops the events of more than a minute ago.\<close>

fun expire_events :: "rat \<Rightarrow> (rat \<times> int) list \<Rightarrow> int \<Rightarrow> (rat \<times> int) list \<times> int" where
  "expire_events cutoff [] used = ([], used)"
| "expire_events cutoff ((t, n) # events) used =
     (if t \<le> cutoff then expire_events cutoff events (used - n) else ((t, n) # events, used))"

definition allow :: "int \<Rightarrow> rat \<Rightarrow> rate_limiter \<Rightarrow> bool \<times> rate_limiter" where
  "allow frame_size current r =
     (case expire_events (current - 60) (rl_events r) (rl_bytes r) of (events, used) \<Rightarrow>
        let r = r\<lparr>rl_events := events, rl_bytes := used\<rparr> in
        if int (length events) + 1 > li_max_messages_per_minute (rl_limits r) then (False, r)
        else if used + frame_size > li_max_bytes_per_minute (rl_limits r) then (False, r)
        else (True, r\<lparr>rl_events := events @ [(current, frame_size)], rl_bytes := used + frame_size\<rparr>))"

subsection \<open>Connections and the tables of the node\<close>

text \<open>
  Where the task \<open>_run\<close> of a connection stands, and what its socket does with a write: it takes it,
  keeps it beyond the deadline, or has lost the peer.
\<close>

datatype run_phase = Starting | Awaiting_Hello | Serving | Finished
datatype writer_state = Flowing | Stalled | Lost

record connection =
  pc_host :: pystr
  pc_port :: int
  pc_outbound :: bool
  pc_hello :: "hello option"
  pc_score :: int
  pc_closed :: bool
  pc_handshake_complete :: bool
  pc_rate_limiter :: rate_limiter
  pc_pending_ping :: "int option"
  pc_pending_sends :: int
  pc_block_request_outstanding :: bool
  pc_accepted_blocks_in_request :: int
  pc_block_request_start_work :: int
  pc_reader :: peer_stream
  pc_writer :: writer_state
  pc_written :: "bytes list"
  pc_phase :: run_phase

text \<open>
  The node. \<open>pn_objects\<close> holds every connection object ever made, by number; \<open>pn_connections\<close> is the
  set \<open>_connections\<close> of the open ones.
\<close>

record p2p_node =
  pn_local_node :: node
  pn_host :: pystr
  pn_port :: int
  pn_node_id :: bytes
  pn_limits :: peer_limits
  pn_running :: bool
  pn_objects :: "connection list"
  pn_connections :: "nat list"
  pn_by_node_id :: "(bytes, nat) dict"
  pn_scores :: "(bytes, int) dict"
  pn_host_scores :: "(pystr, int) dict"
  pn_banned_until :: "(pystr, rat) dict"

definition dict_get :: "('k, 'v) dict \<Rightarrow> 'k \<Rightarrow> 'v \<Rightarrow> 'v" where
  "dict_get d k otherwise = (case map_of d k of None \<Rightarrow> otherwise | Some v \<Rightarrow> v)"

abbreviation conn :: "p2p_node \<Rightarrow> nat \<Rightarrow> connection" where
  "conn st i \<equiv> pn_objects st ! i"

definition set_conn :: "nat \<Rightarrow> (connection \<Rightarrow> connection) \<Rightarrow> p2p_node \<Rightarrow> p2p_node" where
  "set_conn i f st = st\<lparr>pn_objects := (pn_objects st)[i := f (conn st i)]\<rparr>"

definition new_connection :: "peer_limits \<Rightarrow> pystr \<Rightarrow> int \<Rightarrow> bool \<Rightarrow> connection" where
  "new_connection limits host port outbound = \<lparr>
     pc_host = host, pc_port = port, pc_outbound = outbound, pc_hello = None, pc_score = 0, pc_closed = False,
     pc_handshake_complete = False, pc_rate_limiter = new_rate_limiter limits, pc_pending_ping = None,
     pc_pending_sends = 0, pc_block_request_outstanding = False, pc_accepted_blocks_in_request = 0,
     pc_block_request_start_work = 0, pc_reader = \<lparr>ps_data = [], ps_closed = False\<rparr>, pc_writer = Flowing,
     pc_written = [], pc_phase = Starting\<rparr>"

text \<open>\<open>send\<close> counts itself as pending while it waits for the socket; its counter is back when it ends.\<close>

definition send_message :: "platform \<Rightarrow> nat \<Rightarrow> message_type \<Rightarrow> bytes \<Rightarrow> (unit, p2p_node) operation" where
  "send_message P i message_type payload st =
     (if pc_closed (conn st i) then fail PeerDisconnectedError ''peer connection is closed'' st
      else
      and_then (compute (encode_frame P message_type payload PROTOCOL_VERSION)) (\<lambda>encoded st.
      if pc_pending_sends (conn st i) \<ge> li_max_pending_sends_per_peer (pn_limits st) then
        fail PeerDisconnectedError ''peer outbound queue reached its resource limit'' st
      else (case pc_writer (conn st i) of
          Flowing \<Rightarrow> ret () (set_conn i (pc_written_update (\<lambda>w. w @ [encoded])) st)
        | Stalled \<Rightarrow> fail PeerDisconnectedError ''peer write timed out'' (set_conn i (pc_written_update (\<lambda>w. w @ [encoded])) st)
        | Lost \<Rightarrow> fail ConnectionError ''connection lost'' st)) st)"

definition send_reject :: "platform \<Rightarrow> nat \<Rightarrow> int \<Rightarrow> string \<Rightarrow> (unit, p2p_node) operation" where
  "send_reject P i code reason =
     suppress (\<lambda>c. c \<in> {PeerDisconnectedError, ConnectionError})
       (and_then (compute (reject_to_bytes P \<lparr>re_code = code, re_reason = take 256 (str reason)\<rparr>))
         (send_message P i REJECT))"

definition penalize :: "nat \<Rightarrow> int \<Rightarrow> rat \<Rightarrow> (unit, p2p_node) operation" where
  "penalize i points now st =
     (let c = conn st i;
          score = pc_score c + points;
          st = set_conn i (pc_score_update (\<lambda>_. score)) st;
          host_score = dict_get (pn_host_scores st) (pc_host c) 0 + points;
          st = st\<lparr>pn_host_scores := AList.update (pc_host c) host_score (pn_host_scores st)\<rparr>;
          st = (case pc_hello c of
                  None \<Rightarrow> st
                | Some h \<Rightarrow> st\<lparr>pn_scores := AList.update (he_node_id h) score (pn_scores st)\<rparr>);
          threshold = li_score_disconnect_threshold (pn_limits st)
      in if score \<ge> threshold \<or> host_score \<ge> threshold then
           fail ProtocolError ''peer score reached the disconnect threshold''
             (st\<lparr>pn_banned_until := AList.update (pc_host c) (now + BAN_SECONDS) (pn_banned_until st)\<rparr>)
         else ret () st)"

definition remove_connection :: "nat \<Rightarrow> p2p_node \<Rightarrow> p2p_node" where
  "remove_connection i st =
     (let st = st\<lparr>pn_connections := filter (\<lambda>j. j \<noteq> i) (pn_connections st)\<rparr> in
      case pc_hello (conn st i) of
        None \<Rightarrow> st
      | Some h \<Rightarrow> if map_of (pn_by_node_id st) (he_node_id h) = Some i then
                    st\<lparr>pn_by_node_id := AList.delete (he_node_id h) (pn_by_node_id st)\<rparr>
                  else st)"

definition close_connection :: "nat \<Rightarrow> p2p_node \<Rightarrow> p2p_node" where
  "close_connection i st =
     (if pc_closed (conn st i) then st
      else remove_connection i (set_conn i (pc_closed_update (\<lambda>_. True)) st))"

definition connection_info :: "connection \<Rightarrow> peer_info option" where
  "connection_info c =
     (case pc_hello c of
        None \<Rightarrow> None
      | Some h \<Rightarrow> if pc_closed c then None else
          Some \<lparr>pi_node_id = bytes_hex (he_node_id h), pi_host = pc_host c, pi_port = he_listen_port h,
            pi_height = he_height h, pi_tip_hash = bytes_hex (he_tip_hash h),
            pi_cumulative_work = he_cumulative_work h, pi_score = pc_score c, pi_outbound = pc_outbound c\<rparr>)"

subsection \<open>Block requests\<close>

definition begin_block_request :: "int \<Rightarrow> connection \<Rightarrow> bool \<times> connection" where
  "begin_block_request local_work c =
     (if pc_block_request_outstanding c then (False, c)
      else (True, c\<lparr>pc_block_request_outstanding := True, pc_accepted_blocks_in_request := 0,
              pc_block_request_start_work := local_work\<rparr>))"

definition cancel_block_request :: "connection \<Rightarrow> connection" where
  "cancel_block_request c = c\<lparr>pc_block_request_outstanding := False, pc_accepted_blocks_in_request := 0,
     pc_block_request_start_work := 0\<rparr>"

definition note_accepted_block :: "connection \<Rightarrow> connection" where
  "note_accepted_block c =
     (if pc_block_request_outstanding c then
        c\<lparr>pc_accepted_blocks_in_request := pc_accepted_blocks_in_request c + 1\<rparr>
      else c)"

definition finish_block_request :: "connection \<Rightarrow> (int \<times> int) option \<times> connection" where
  "finish_block_request c =
     (if \<not> pc_block_request_outstanding c then (None, c)
      else (Some (pc_accepted_blocks_in_request c, pc_block_request_start_work c), cancel_block_request c))"

definition update_advertised_summary :: "chain_summary \<Rightarrow> connection \<Rightarrow> connection res" where
  "update_advertised_summary s c =
     (case pc_hello c of
        None \<Rightarrow> raise ProtocolError ''peer summary arrived before HELLO''
      | Some h \<Rightarrow> if su_cumulative_work s < he_cumulative_work h then
            raise ProtocolError ''peer cumulative work moved backwards''
          else Inr (c\<lparr>pc_hello := Some (h\<lparr>he_tip_hash := su_tip_hash s, he_height := su_height s,
                 he_cumulative_work := su_cumulative_work s\<rparr>)\<rparr>))"

subsection \<open>What operations keep\<close>

definition keeps :: "('s \<Rightarrow> bool) \<Rightarrow> ('a, 's) operation \<Rightarrow> bool" where
  "keeps I m \<longleftrightarrow> (\<forall>s. I s \<longrightarrow> I (snd (m s)))"

named_theorems keeps_intros \<open>operations keep an invariant\<close>

lemma keepsD: "keeps I m \<Longrightarrow> I s \<Longrightarrow> I (snd (m s))"
  by (simp add: keeps_def)

lemma keeps_pure [keeps_intros]:
  "keeps I (ret x)" "keeps I (fail c t)" "keeps I (compute r)" "keeps I (reads_state f)"
  by (simp_all add: keeps_def ret_def fail_def compute_def reads_state_def)

lemma keeps_and_then [keeps_intros]: "keeps I m \<Longrightarrow> (\<And>x. keeps I (f x)) \<Longrightarrow> keeps I (and_then m f)"
  by (fastforce simp: keeps_def and_then_def split: prod.splits sum.splits)

lemma keeps_change [keeps_intros]: "(\<And>s. I s \<Longrightarrow> I (f s)) \<Longrightarrow> keeps I (change f)"
  by (simp add: keeps_def change_def)

lemma keeps_suppress [keeps_intros]: "keeps I m \<Longrightarrow> keeps I (suppress p m)"
  by (fastforce simp: keeps_def suppress_def split: prod.splits sum.splits)

lemma keeps_on_error [keeps_intros]: "keeps I m \<Longrightarrow> (\<And>e. keeps I (h e)) \<Longrightarrow> keeps I (on_error m h)"
  by (fastforce simp: keeps_def on_error_def split: prod.splits sum.splits)

lemma keeps_if [keeps_intros]: "(b \<Longrightarrow> keeps I m) \<Longrightarrow> (\<not> b \<Longrightarrow> keeps I n) \<Longrightarrow> keeps I (if b then m else n)"
  by simp

lemma keeps_if_state [keeps_intros]: "keeps I m \<Longrightarrow> keeps I n \<Longrightarrow> keeps I (\<lambda>s. if b s then m s else n s)"
  by (simp add: keeps_def)

lemma keeps_option [keeps_intros]:
  "(v = None \<Longrightarrow> keeps I m) \<Longrightarrow> (\<And>x. v = Some x \<Longrightarrow> keeps I (f x)) \<Longrightarrow> keeps I (case v of None \<Rightarrow> m | Some x \<Rightarrow> f x)"
  by (cases v) auto

lemma keeps_result [keeps_intros]: "(\<And>s. I s \<Longrightarrow> I (f s)) \<Longrightarrow> keeps I (\<lambda>s. (r s, f s))"
  by (simp add: keeps_def)

subsection \<open>The rate limit\<close>

text \<open>The bytes counted are those of the events kept, which are in order of time and within the limits.\<close>

definition limiter_ok :: "rate_limiter \<Rightarrow> bool" where
  "limiter_ok r \<longleftrightarrow> rl_bytes r = sum_list (map snd (rl_events r)) \<and> sorted (map fst (rl_events r))"

lemma expire_events_spec:
  "sorted (map fst events) \<Longrightarrow> expire_events cutoff events used
     = (filter (\<lambda>(t, n). cutoff < t) events, used - sum_list (map snd (filter (\<lambda>(t, n). t \<le> cutoff) events)))"
proof (induction cutoff events used rule: expire_events.induct)
  case (2 cutoff t n events used)
  show ?case
  proof (cases "t \<le> cutoff")
    case False
    then have "\<forall>e \<in> set events. cutoff < fst e" using "2.prems" by auto
    then have "filter (\<lambda>(t, n). cutoff < t) events = events" "filter (\<lambda>(t, n). t \<le> cutoff) events = []"
      by (auto simp: filter_id_conv filter_empty_conv)
    then show ?thesis using False by simp
  qed (use 2 in auto)
qed simp

text \<open>The accepted events of a run of calls, on a list of times and sizes.\<close>

fun admitted :: "(rat \<times> int) list \<Rightarrow> rate_limiter \<Rightarrow> (rat \<times> int) list" where
  "admitted [] r = []"
| "admitted ((t, n) # calls) r =
     (case allow n t r of (ok, r) \<Rightarrow> (if ok then [(t, n)] else []) @ admitted calls r)"

definition window :: "rat \<Rightarrow> (rat \<times> int) list \<Rightarrow> (rat \<times> int) list" where
  "window t events = filter (\<lambda>(s, n). t - 60 < s \<and> s \<le> t) events"

text \<open>What the limiter remembers of the events it has accepted so far.\<close>

definition remembers :: "(rat \<times> int) list \<Rightarrow> rat \<Rightarrow> rate_limiter \<Rightarrow> bool" where
  "remembers past now r \<longleftrightarrow> limiter_ok r \<and> (\<forall>e \<in> set past. fst e \<le> now)
     \<and> (\<exists>c \<le> now - 60. rl_events r = filter (\<lambda>(t, n). c < t) past)"

definition in_limits :: "peer_limits \<Rightarrow> (rat \<times> int) list \<Rightarrow> bool" where
  "in_limits l events \<longleftrightarrow> int (length events) \<le> li_max_messages_per_minute l
     \<and> sum_list (map snd events) \<le> li_max_bytes_per_minute l"

lemma allow_spec:
  assumes r: "remembers past now r" and t: "now \<le> t" and a: "allow n t r = (ok, r')"
  shows "remembers (past @ (if ok then [(t, n)] else [])) t r' \<and> rl_limits r' = rl_limits r
    \<and> (ok \<longrightarrow> in_limits (rl_limits r) (window t (past @ [(t, n)])))"
proof -
  obtain c where c: "c \<le> now - 60" "rl_events r = filter (\<lambda>(t, n). c < t) past" using r by (auto simp: remembers_def)
  have so: "sorted (map fst (rl_events r))" and used: "rl_bytes r = sum_list (map snd (rl_events r))"
    and past: "\<forall>e \<in> set past. fst e \<le> now" using r by (auto simp: remembers_def limiter_ok_def)
  let ?live = "filter (\<lambda>(s, n). t - 60 < s) past"
  have f: "filter (\<lambda>(s, n). t - 60 < s) (rl_events r) = ?live"
    using c(1) t by (auto simp: c(2) intro!: filter_cong)
  have s: "sum_list (map snd es) = sum_list (map snd (filter (\<lambda>(s, n). t - 60 < s) es))
      + sum_list (map snd (filter (\<lambda>(s, n). s \<le> t - 60) es))" for es :: "(rat \<times> int) list"
    by (induction es) auto
  have e: "expire_events (t - 60) (rl_events r) (rl_bytes r) = (?live, sum_list (map snd ?live))"
    using expire_events_spec [OF so, of "t - 60" "rl_bytes r"] s [of "rl_events r"] unfolding used f by simp
  have w: "window t (past @ [(t, n)]) = ?live @ [(t, n)]"
    using past t by (auto simp: window_def intro!: filter_cong)
  have "sorted (map fst ?live)" using sorted_filter [OF so, of "\<lambda>(s, n). t - 60 < s"] unfolding f .
  then have so': "sorted (map fst (?live @ [(t, n)]))" using past t by (auto simp: sorted_append)
  show ?thesis
  proof (cases ok)
    case True
    then have "r' = r\<lparr>rl_events := ?live @ [(t, n)], rl_bytes := sum_list (map snd ?live) + n\<rparr>"
      "int (length ?live) + 1 \<le> li_max_messages_per_minute (rl_limits r)"
      "sum_list (map snd ?live) + n \<le> li_max_bytes_per_minute (rl_limits r)"
      using a by (auto simp: allow_def e Let_def split: if_splits)
    then show ?thesis using True so' past t
      by (auto simp: remembers_def limiter_ok_def in_limits_def w intro!: exI [of _ "t - 60"])
  next
    case False
    then have "r' = r\<lparr>rl_events := ?live, rl_bytes := sum_list (map snd ?live)\<rparr>"
      using a by (auto simp: allow_def e Let_def split: if_splits)
    then show ?thesis using False so' past t
      by (auto simp: remembers_def limiter_ok_def sorted_append intro!: exI [of _ "t - 60"])
  qed
qed

lemma admitted_prefix:
  assumes "remembers past now r" and "sorted (now # map fst calls)" and "admitted calls r = es @ (t, n) # fs"
  shows "in_limits (rl_limits r) (window t (past @ es @ [(t, n)]))"
  using assms
proof (induction calls arbitrary: past now r es)
  case (Cons c calls)
  obtain s m where c: "c = (s, m)" by fastforce
  obtain ok r' where a: "allow m s r = (ok, r')" by fastforce
  have s: "now \<le> s" "sorted (s # map fst calls)" using Cons.prems(2) c by auto
  note sp = allow_spec [OF Cons.prems(1) s(1) a]
  let ?e = "if ok then [(s, m)] else []"
  have ad: "?e @ admitted calls r' = es @ (t, n) # fs" using Cons.prems(3) by (simp add: c a)
  show ?case
  proof (cases "ok \<and> es = []")
    case True
    then show ?thesis using ad sp by auto
  next
    case False
    then obtain es' where es: "es = ?e @ es'" and "admitted calls r' = es' @ (t, n) # fs"
      using ad by (cases ok; cases es) auto
    then have "in_limits (rl_limits r') (window t ((past @ ?e) @ es' @ [(t, n)]))"
      using sp s(2) by (intro Cons.IH [of "past @ ?e" s]) blast+
    then show ?thesis using sp es by simp
  qed
qed simp

subsection \<open>Properties\<close>

text \<open>C29. \<open>rate_limit_per_minute\<close>: however the frames of a peer arrive over time, whenever one is let through
  the frames let through in the minute that ends there, itself included, are within both limits: their
  number and their bytes.\<close>

theorem rate_limit_per_minute:
  assumes "sorted (map fst calls)" and "admitted calls (new_rate_limiter limits) = earlier @ (t, n) # later"
  shows "int (length (window t (earlier @ [(t, n)]))) \<le> li_max_messages_per_minute limits
     \<and> sum_list (map snd (window t (earlier @ [(t, n)]))) \<le> li_max_bytes_per_minute limits"
proof (cases calls)
  case (Cons c cs)
  have "remembers [] (fst c) (new_rate_limiter limits)"
    by (auto simp: remembers_def limiter_ok_def new_rate_limiter_def intro: exI [of _ "fst c - 60"])
  moreover have "sorted (fst c # map fst calls)" using assms(1) by (simp add: Cons)
  ultimately show ?thesis
    using admitted_prefix [of "[]" "fst c" "new_rate_limiter limits" calls earlier t n later] assms(2)
    by (simp add: in_limits_def new_rate_limiter_def)
qed (use assms(2) in simp)

theorem rate_limit_per_minute_witness:
  "int (length (window 30 [(0 :: rat, 10), (30, 7 :: int)])) \<le> 2"
  using rate_limit_per_minute [of "[(0, 10), (30, 7), (50, 9)]" "default_limits\<lparr>li_max_messages_per_minute := 2\<rparr>"
      "[(0, 10)]" 30 7 "[]"]
  by (simp add: new_rate_limiter_def allow_def Let_def default_limits_def)

end
