(* ===== verification/P2p_Node.thy ===== *)
theory P2p_Node
  imports Peer_Connection
begin

text \<open>
  The second half of \<open>p2p.py\<close>: \<open>P2PNode\<close> and the task of a connection. The task is a program counter and
  one step function per phase; the steps of all tasks, the sockets and the caller interleave freely in
  \<open>p2p_step\<close>. A handler is one step. In the program a handler may let other tasks run where it waits for
  the sends of a broadcast or for a socket to close; such a switch inside a handler has no counterpart here,
  apart from steps that raise the number of sends in flight and a round that is woken on a closed connection
  (\<open>run_waiting\<close>). A write to a stalled socket ends with its timeout. \<open>close\<close> is in stages, with its three waits as
  an argument.
\<close>

subsection \<open>Construction and queries\<close>

definition new_p2p_node :: "node \<Rightarrow> pystr \<Rightarrow> int \<Rightarrow> peer_limits option \<Rightarrow> bytes option \<Rightarrow> bytes \<Rightarrow> p2p_node res" where
  "new_p2p_node local_node host port limits node_id drawn =
     (if host \<notin> set LOOPBACK_HOSTS then raise LocalTestnetOnlyError ''M7 listens only on localhost addresses''
      else if \<not> (0 \<le> port \<and> port \<le> 0xFFFF) then raise P2PError ''listen port must be an unsigned 16-bit integer''
      else
      let selected_node_id = (case node_id of None \<Rightarrow> drawn | Some v \<Rightarrow> v) in
      if length selected_node_id \<noteq> 16 then raise P2PError ''node ID must be exactly 16 bytes''
      else Inr \<lparr>pn_local_node = local_node, pn_host = host, pn_port = port, pn_node_id = selected_node_id,
        pn_limits = (case limits of None \<Rightarrow> default_limits | Some l \<Rightarrow> l), pn_running = False, pn_objects = [],
        pn_connections = [], pn_by_node_id = [], pn_scores = [], pn_host_scores = [], pn_banned_until = []\<rparr>)"

definition peers :: "p2p_node \<Rightarrow> peer_info list" where
  "peers st = sort_key pi_node_id (List.map_filter (\<lambda>i. connection_info (conn st i)) (pn_connections st))"

definition host_connection_count :: "pystr \<Rightarrow> p2p_node \<Rightarrow> int" where
  "host_connection_count host st = int (length (filter (\<lambda>i. pc_host (conn st i) = host) (pn_connections st)))"

definition can_accept :: "pystr \<Rightarrow> rat \<Rightarrow> p2p_node \<Rightarrow> bool \<times> p2p_node" where
  "can_accept host current st =
     (let banned_until = dict_get (pn_banned_until st) host 0;
          expired = banned_until \<noteq> 0 \<and> current \<ge> banned_until;
          st = (if expired then st\<lparr>pn_banned_until := AList.delete host (pn_banned_until st),
                                  pn_host_scores := AList.delete host (pn_host_scores st)\<rparr> else st);
          banned_until = (if expired then 0 else banned_until)
      in (current \<ge> banned_until \<and> int (length (pn_connections st)) < li_max_peers (pn_limits st)
            \<and> host_connection_count host st < li_max_peers_per_ip (pn_limits st), st))"

definition add_connection :: "pystr \<Rightarrow> int \<Rightarrow> bool \<Rightarrow> p2p_node \<Rightarrow> p2p_node" where
  "add_connection host port outbound st =
     st\<lparr>pn_objects := pn_objects st @ [new_connection (pn_limits st) host port outbound],
        pn_connections := pn_connections st @ [length (pn_objects st)]\<rparr>"

text \<open>\<open>_accept\<close>: the remote endpoint is what the socket reports, if anything.\<close>

definition accept :: "(pystr \<Rightarrow> ip option) \<Rightarrow> (pystr \<times> int) option \<Rightarrow> rat \<Rightarrow> p2p_node \<Rightarrow> p2p_node" where
  "accept ip_address peername now st =
     (case peername of
        None \<Rightarrow> st
      | Some (host, port) \<Rightarrow>
        if \<not> is_loopback_address ip_address host then st
        else (case can_accept host now st of
            (False, st) \<Rightarrow> st
          | (True, st) \<Rightarrow> add_connection host port False st))"

text \<open>
  \<open>connect\<close> waits twice, so it is three operations: up to the dial; from the endpoint the dial has reached
  to the new connection, whose number it returns; and after the handshake or its deadline.
\<close>

definition connect_check :: "pystr \<Rightarrow> int \<Rightarrow> rat \<Rightarrow> (unit, p2p_node) operation" where
  "connect_check host port now st =
     (if \<not> pn_running st then fail P2PError ''start the peer server before connecting'' st
      else if host \<notin> set LOOPBACK_HOSTS then fail LocalTestnetOnlyError ''M7 dials only localhost addresses'' st
      else if \<not> (1 \<le> port \<and> port \<le> 0xFFFF) then fail P2PError ''peer port must be between 1 and 65535'' st
      else (case can_accept host now st of
          (False, st) \<Rightarrow> fail PeerLimitError ''peer limit or temporary ban prevents connection'' st
        | (True, st) \<Rightarrow> ret () st))"

definition connect_opened :: "(pystr \<Rightarrow> ip option) \<Rightarrow> (pystr \<times> int) option \<Rightarrow> rat \<Rightarrow> (nat, p2p_node) operation" where
  "connect_opened ip_address peername now st =
     (case peername of
        None \<Rightarrow> fail P2PError ''peer socket has no remote endpoint'' st
      | Some (host, port) \<Rightarrow>
        if \<not> is_loopback_address ip_address host then
          fail LocalTestnetOnlyError ''resolved peer address is not loopback'' st
        else (case can_accept host now st of
            (False, st) \<Rightarrow> fail PeerLimitError ''resolved peer endpoint exceeds a connection limit'' st
          | (True, st) \<Rightarrow> ret (length (pn_objects st)) (add_connection host port True st)))"

definition connect_finish :: "nat \<Rightarrow> (peer_info, p2p_node) operation" where
  "connect_finish i st =
     (if \<not> pc_handshake_complete (conn st i) then fail HandshakeError ''peer handshake timed out'' (close_connection i st)
      else (case connection_info (conn st i) of
          None \<Rightarrow> fail HandshakeError ''peer rejected or closed the handshake'' st
        | Some info \<Rightarrow> ret info st))"

subsection \<open>Handshake\<close>

definition own_hello :: "platform \<Rightarrow> p2p_node \<Rightarrow> hello res" where
  "own_hello P st =
     (let c = nd_chain (pn_local_node st) in
      bindE (active_chain c) (\<lambda>blocks.
      bindE (case blocks of [] \<Rightarrow> raise IndexError ''list index out of range'' | b # _ \<Rightarrow> block_hash P b) (\<lambda>genesis_hash.
      bindE (chain_height c) (\<lambda>height.
      bindE (chain_cumulative_work c) (\<lambda>work.
      Inr \<lparr>he_node_id = pn_node_id st, he_chain_id = net_chain_id (ch_network c), he_genesis_hash = genesis_hash,
           he_tip_hash = ch_tip c, he_height = height, he_cumulative_work = work, he_listen_port = pn_port st\<rparr>)))))"

definition complete_handshake :: "platform \<Rightarrow> nat \<Rightarrow> hello \<Rightarrow> (unit, p2p_node) operation" where
  "complete_handshake P i hello =
     and_then (reads_state (own_hello P)) (\<lambda>local st.
       if he_chain_id hello \<noteq> he_chain_id local then fail ProtocolError ''peer belongs to another chain_id'' st
       else if he_genesis_hash hello \<noteq> he_genesis_hash local then fail ProtocolError ''peer uses another genesis block'' st
       else if he_node_id hello = pn_node_id st then fail ProtocolError ''self-connections are not allowed'' st
       else if (case map_of (pn_by_node_id st) (he_node_id hello) of
                  None \<Rightarrow> False | Some j \<Rightarrow> j \<noteq> i \<and> \<not> pc_closed (conn st j)) then
         fail ProtocolError ''duplicate peer node ID'' st
       else ret () (st\<lparr>pn_by_node_id := AList.update (he_node_id hello) i (pn_by_node_id st)\<rparr>))"

subsection \<open>Block synchronisation\<close>

text \<open>The loop of \<open>_block_locator\<close> over the hashes of the active chain.\<close>

function locator_loop :: "bytes list \<Rightarrow> nat \<Rightarrow> nat \<Rightarrow> bytes list \<Rightarrow> bytes list" where
  "locator_loop active index step hashes =
     (if index > 0 \<and> length hashes < 63 then
        let hashes = hashes @ [active ! index];
            step = (if length hashes \<ge> 10 then step * 2 else step)
        in locator_loop active (index - step) step hashes
      else hashes)"
  by pat_completeness auto
termination
  by (relation "measure (\<lambda>(active, index, step, hashes). 63 - length hashes)") auto

declare locator_loop.simps [simp del]

definition block_locator :: "platform \<Rightarrow> p2p_node \<Rightarrow> bytes list res" where
  "block_locator P st =
     bindE (active_chain (nd_chain (pn_local_node st))) (\<lambda>blocks.
     bindE (mapE (block_hash P) blocks) (\<lambda>active.
     let hashes = locator_loop active (length active - 1) 1 [] in
     if hashes = [] \<or> last hashes \<noteq> hd active then Inr (hashes @ [hd active]) else Inr hashes))"

definition request_blocks :: "platform \<Rightarrow> nat \<Rightarrow> (bool, p2p_node) operation" where
  "request_blocks P i =
     and_then (reads_state (\<lambda>st. chain_cumulative_work (nd_chain (pn_local_node st)))) (\<lambda>local_work st.
       case begin_block_request local_work (conn st i) of
         (False, _) \<Rightarrow> ret False st
       | (True, c) \<Rightarrow>
         and_then
           (on_error
             (and_then (reads_state (block_locator P)) (\<lambda>locator.
              and_then (compute (locator_to_bytes locator)) (\<lambda>payload. send_message P i GET_BLOCKS payload)))
             (\<lambda>e st. (Inl e, set_conn i cancel_block_request st)))
           (\<lambda>_. ret True) (set_conn i (\<lambda>_. c) st))"

text \<open>\<open>{block.block_hash: index for index, block in enumerate(active)}\<close>, then the first known hash of the locator.\<close>

definition positions :: "bytes list \<Rightarrow> bytes \<Rightarrow> nat option" where
  "positions active = map_of (rev (zip active [0..<length active]))"

definition find_common :: "(bytes \<Rightarrow> nat option) \<Rightarrow> bytes list \<Rightarrow> nat option" where
  "find_common pos hashes = (case List.find (\<lambda>h. pos h \<noteq> None) hashes of None \<Rightarrow> None | Some h \<Rightarrow> pos h)"

fun send_block_list :: "platform \<Rightarrow> nat \<Rightarrow> block list \<Rightarrow> (unit, p2p_node) operation" where
  "send_block_list P i [] = ret ()"
| "send_block_list P i (b # bs) =
     and_then (compute (encode_block P b)) (\<lambda>payload.
     and_then (send_message P i BLOCK payload) (\<lambda>_. send_block_list P i bs))"

definition own_summary :: "p2p_node \<Rightarrow> chain_summary res" where
  "own_summary st =
     (let c = nd_chain (pn_local_node st) in
      bindE (chain_height c) (\<lambda>height. bindE (chain_cumulative_work c) (\<lambda>work.
      Inr \<lparr>su_tip_hash = ch_tip c, su_height = height, su_cumulative_work = work\<rparr>)))"

definition send_blocks :: "platform \<Rightarrow> nat \<Rightarrow> bytes list \<Rightarrow> rat \<Rightarrow> (unit, p2p_node) operation" where
  "send_blocks P i locator now =
     and_then (reads_state (\<lambda>st. active_chain (nd_chain (pn_local_node st)))) (\<lambda>active.
     and_then (compute (mapE (block_hash P) active)) (\<lambda>hashes.
     case find_common (positions hashes) locator of
       None \<Rightarrow>
         and_then (penalize i 10 now) (\<lambda>_. send_reject P i 20 ''block locator has no common testnet ancestor'')
     | Some common_index \<Rightarrow>
         and_then (send_block_list P i (take MAX_BLOCKS_PER_RESPONSE (drop (common_index + 1) active))) (\<lambda>_.
         and_then (reads_state own_summary) (\<lambda>summary.
         and_then (compute (summary_to_bytes summary)) (send_message P i SYNC_COMPLETE)))))"

subsection \<open>Broadcasts\<close>

definition broadcast_targets :: "nat option \<Rightarrow> p2p_node \<Rightarrow> nat list" where
  "broadcast_targets exclude st =
     filter (\<lambda>i. exclude \<noteq> Some i \<and> pc_hello (conn st i) \<noteq> None \<and> \<not> pc_closed (conn st i)) (pn_connections st)"

text \<open>\<open>gather\<close> with \<open>return_exceptions\<close>: which of the sends failed.\<close>

fun send_all :: "platform \<Rightarrow> message_type \<Rightarrow> bytes \<Rightarrow> nat list \<Rightarrow> p2p_node \<Rightarrow> nat list \<times> p2p_node" where
  "send_all P message_type payload [] st = ([], st)"
| "send_all P message_type payload (i # is) st =
     (case send_message P i message_type payload st of (r, st) \<Rightarrow>
      case send_all P message_type payload is st of (failed, st) \<Rightarrow>
        (case r of Inl _ \<Rightarrow> i # failed | Inr _ \<Rightarrow> failed, st))"

definition broadcast :: "platform \<Rightarrow> message_type \<Rightarrow> bytes \<Rightarrow> nat option \<Rightarrow> p2p_node \<Rightarrow> p2p_node" where
  "broadcast P message_type payload exclude st =
     (case send_all P message_type payload (broadcast_targets exclude st) st of (failed, st) \<Rightarrow>
        fold close_connection failed st)"

definition broadcast_transaction :: "platform \<Rightarrow> transaction \<Rightarrow> nat option \<Rightarrow> (unit, p2p_node) operation" where
  "broadcast_transaction P t exclude =
     and_then (compute (transaction_to_bytes P t)) (\<lambda>payload. change (broadcast P TRANSACTION payload exclude))"

definition broadcast_block :: "platform \<Rightarrow> block \<Rightarrow> nat option \<Rightarrow> (unit, p2p_node) operation" where
  "broadcast_block P b exclude =
     and_then (compute (encode_block P b)) (\<lambda>payload. change (broadcast P BLOCK payload exclude))"

text \<open>An operation of the local node, as one of the peer node.\<close>

definition on_local_node :: "(node \<Rightarrow> 'a res \<times> node) \<Rightarrow> ('a, p2p_node) operation" where
  "on_local_node m st = (case m (pn_local_node st) of (r, nd) \<Rightarrow> (r, st\<lparr>pn_local_node := nd\<rparr>))"

definition mine_and_broadcast :: "platform \<Rightarrow> pystr \<Rightarrow> int option \<Rightarrow> int \<Rightarrow> int \<Rightarrow> (block \<times> chain_update, p2p_node) operation" where
  "mine_and_broadcast P miner_address timestamp max_transactions max_attempts =
     and_then (on_local_node (mine P miner_address timestamp max_transactions max_attempts)) (\<lambda>result.
     and_then (broadcast_block P (fst result) None) (\<lambda>_. ret result))"

subsection \<open>Handlers\<close>

definition handle_block :: "platform \<Rightarrow> nat \<Rightarrow> block \<Rightarrow> rat \<Rightarrow> (unit, p2p_node) operation" where
  "handle_block P i b now =
     and_then (compute (block_hash P b)) (\<lambda>h st.
     if chain_contains h (nd_chain (pn_local_node st)) then ret () st
     else
     (case on_local_node (submit_block P b) st of
        (Inl e, st) \<Rightarrow>
          if exn_kind e \<noteq> ChainError then (Inl e, st)
          else if text_in ''parent is unknown'' (exn_message e) then and_then (request_blocks P i) (\<lambda>_. ret ()) st
          else if text_in ''already known'' (exn_message e) then ret () st
          else and_then (penalize i 20 now) (\<lambda>_. send_reject P i 30 ''invalid block'') st
      | (Inr _, st) \<Rightarrow> broadcast_block P b (Some i) (set_conn i note_accepted_block st)))"

definition check_summary :: "chain_summary \<Rightarrow> p2p_node \<Rightarrow> unit res" where
  "check_summary s st =
     (let c = nd_chain (pn_local_node st) in
      if chain_contains (su_tip_hash s) c then
        bindE (get_record (su_tip_hash s) c) (\<lambda>record.
        if br_height record \<noteq> su_height s \<or> br_cumulative_work record \<noteq> su_cumulative_work s then
          raise ProtocolError ''peer summary contradicts a known block''
        else Inr ())
      else Inr ())"

definition handle_sync_complete :: "platform \<Rightarrow> nat \<Rightarrow> chain_summary \<Rightarrow> rat \<Rightarrow> (unit, p2p_node) operation" where
  "handle_sync_complete P i summary now =
     and_then (reads_state (check_summary summary)) (\<lambda>_.
     and_then (reads_state (\<lambda>st. update_advertised_summary summary (conn st i))) (\<lambda>c.
     and_then (change (set_conn i (\<lambda>_. c))) (\<lambda>_ st.
     case finish_block_request (conn st i) of (request_progress, c) \<Rightarrow>
     and_then (change (set_conn i (\<lambda>_. c))) (\<lambda>_.
     and_then (reads_state (\<lambda>st. chain_cumulative_work (nd_chain (pn_local_node st)))) (\<lambda>local_work.
     if su_cumulative_work summary \<le> local_work then ret ()
     else if (case request_progress of None \<Rightarrow> False
              | Some (accepted, start_work) \<Rightarrow> accepted = 0 \<and> local_work \<le> start_work) then
       and_then (penalize i 20 now) (\<lambda>_.
       and_then (send_reject P i 32 ''block synchronization made no progress'') (\<lambda>_.
       fail PeerDisconnectedError ''peer claimed higher work without progress''))
     else and_then (request_blocks P i) (\<lambda>_. ret ()))) st)))"

definition handle_transaction :: "platform \<Rightarrow> nat \<Rightarrow> transaction \<Rightarrow> rat \<Rightarrow> (unit, p2p_node) operation" where
  "handle_transaction P i t now =
     and_then (compute (txid P t)) (\<lambda>tid st.
     if mempool_contains tid (nd_mempool (pn_local_node st)) then ret () st
     else
     and_then (reads_state (\<lambda>st. chain_state P (nd_chain (pn_local_node st)))) (\<lambda>state st.
     if contains_transaction tid state then ret () st
     else
     (case on_local_node (submit_transaction P t) st of
        (Inl e, st) \<Rightarrow>
          if exn_kind e \<noteq> NodeError then (Inl e, st)
          else if text_in ''already'' (exn_message e) then ret () st
          else and_then (penalize i 10 now) (\<lambda>_. send_reject P i 31 ''invalid transaction'') st
      | (Inr _, st) \<Rightarrow> broadcast_transaction P t (Some i) st)) st)"

definition handle_frame :: "platform \<Rightarrow> nat \<Rightarrow> frame \<Rightarrow> rat \<Rightarrow> (unit, p2p_node) operation" where
  "handle_frame P i f now =
     (case fr_message_type f of
        HELLO \<Rightarrow> fail ProtocolError ''HELLO may appear only once''
      | GET_BLOCKS \<Rightarrow> and_then (compute (locator_from_bytes (fr_payload f))) (\<lambda>locator. send_blocks P i locator now)
      | BLOCK \<Rightarrow> and_then (compute (decode_block P (fr_payload f))) (\<lambda>b. handle_block P i b now)
      | TRANSACTION \<Rightarrow> and_then (compute (transaction_from_bytes P (fr_payload f))) (\<lambda>t. handle_transaction P i t now)
      | SYNC_COMPLETE \<Rightarrow> and_then (compute (summary_from_bytes (fr_payload f))) (\<lambda>s. handle_sync_complete P i s now)
      | PING \<Rightarrow> and_then (compute (bindE (decode_ping (fr_payload f)) encode_ping)) (send_message P i PONG)
      | PONG \<Rightarrow>
          and_then (compute (decode_ping (fr_payload f))) (\<lambda>nonce st.
          if pc_pending_ping (conn st i) \<noteq> Some nonce then
            fail ProtocolError ''peer returned an unsolicited or mismatched PONG'' st
          else ret () (set_conn i (pc_pending_ping_update (\<lambda>_. None)) st))
      | REJECT \<Rightarrow> and_then (compute (reject_from_bytes P (fr_payload f))) (\<lambda>_. ret ()))"

subsection \<open>The task of a connection\<close>

definition read_message :: "platform \<Rightarrow> nat \<Rightarrow> (frame, p2p_node) operation" where
  "read_message P i st =
     (case read_frame P (pc_reader (conn st i)) of (r, s) \<Rightarrow> (r, set_conn i (pc_reader_update (\<lambda>_. s)) st))"

definition run_greeting :: "platform \<Rightarrow> nat \<Rightarrow> (unit, p2p_node) operation" where
  "run_greeting P i =
     and_then (reads_state (own_hello P)) (\<lambda>h.
     and_then (compute (hello_to_bytes P h)) (\<lambda>payload.
     and_then (send_message P i HELLO payload) (\<lambda>_.
     change (set_conn i (pc_phase_update (\<lambda>_. Awaiting_Hello))))))"

text \<open>The handler of a greeting, after the frame has been read.\<close>

definition greet :: "platform \<Rightarrow> nat \<Rightarrow> frame \<Rightarrow> (unit, p2p_node) operation" where
  "greet P i first =
     (if fr_message_type first \<noteq> HELLO then fail ProtocolError ''first peer message must be HELLO''
     else
     and_then (compute (hello_from_bytes P (fr_payload first))) (\<lambda>hello.
     and_then (complete_handshake P i hello) (\<lambda>_.
     and_then (change (\<lambda>st. set_conn i (\<lambda>c. c\<lparr>pc_hello := Some hello,
         pc_score := dict_get (pn_scores st) (he_node_id hello) 0, pc_handshake_complete := True,
         pc_phase := Serving\<rparr>) st)) (\<lambda>_.
     and_then (reads_state (\<lambda>st. chain_cumulative_work (nd_chain (pn_local_node st)))) (\<lambda>work.
     if he_cumulative_work hello > work then and_then (request_blocks P i) (\<lambda>_. ret ())
     else ret ())))))"

definition run_handshake :: "platform \<Rightarrow> nat \<Rightarrow> (unit, p2p_node) operation" where
  "run_handshake P i = and_then (read_message P i) (greet P i)"

text \<open>One round of the loop; the nonce of a ping comes from \<open>os.urandom\<close>.\<close>

definition run_round :: "platform \<Rightarrow> nat \<Rightarrow> rat \<Rightarrow> bytes \<Rightarrow> (unit, p2p_node) operation" where
  "run_round P i now drawn st =
     (case read_message P i st of
        (Inl e, st) \<Rightarrow>
          if exn_kind e = PeerFrameTimeoutError then
            (if pc_pending_ping (conn st i) \<noteq> None then
               fail PeerDisconnectedError ''peer did not answer the keepalive ping'' st
             else
               let nonce = from_bytes_be drawn in
               and_then (change (set_conn i (pc_pending_ping_update (\<lambda>_. Some nonce)))) (\<lambda>_.
               and_then (compute (encode_ping nonce)) (send_message P i PING)) st)
          else (Inl e, st)
      | (Inr frame, st) \<Rightarrow>
          let frame_size = int (FRAME_PREFIX_SIZE + length (fr_payload frame)) in
          (case allow frame_size now (pc_rate_limiter (conn st i)) of (allowed, limiter) \<Rightarrow>
           and_then (change (set_conn i (pc_rate_limiter_update (\<lambda>_. limiter)))) (\<lambda>_.
           and_then (if allowed then ret () else (\<lambda>st. penalize i (li_score_disconnect_threshold (pn_limits st)) now st)) (\<lambda>_.
           handle_frame P i frame now)) st))"

text \<open>The \<open>except\<close> clauses of \<open>_run\<close>; \<open>Some e\<close> is an exception none of them catches.\<close>

definition run_error :: "nat \<Rightarrow> rat \<Rightarrow> py_error \<Rightarrow> (unit, p2p_node) operation" where
  "run_error i now e st =
     (if exn_kind e = PeerDisconnectedError then ret () st
      else if exn_kind e = UnsupportedProtocolVersionError then
        suppress is_protocol_error (penalize i (li_score_disconnect_threshold (pn_limits st)) now) st
      else if exn_kind e = PeerFrameTimeoutError then suppress is_protocol_error (penalize i 20 now) st
      else if is_protocol_error (exn_kind e) \<or> exn_kind e = TransactionError then
        suppress is_protocol_error (penalize i 20 now) st
      else if exn_kind e = ConnectionError then ret () st
      else if is_storage_error (exn_kind e) then ret () st
      else (Inl e, st))"

definition run_finally :: "nat \<Rightarrow> p2p_node \<Rightarrow> p2p_node" where
  "run_finally i st =
     close_connection i (set_conn i (\<lambda>c. c\<lparr>pc_handshake_complete := True, pc_phase := Finished\<rparr>) st)"

definition run_guarded :: "nat \<Rightarrow> rat \<Rightarrow> (unit, p2p_node) operation \<Rightarrow> (unit, p2p_node) operation" where
  "run_guarded i now body st =
     (case body st of
        (Inr u, st) \<Rightarrow> (Inr u, st)
      | (Inl e, st) \<Rightarrow> (case run_error i now e st of (r, st) \<Rightarrow> (r, run_finally i st)))"

definition run_task :: "platform \<Rightarrow> nat \<Rightarrow> rat \<Rightarrow> bytes \<Rightarrow> (unit, p2p_node) operation" where
  "run_task P i now drawn st =
     (case pc_phase (conn st i) of
        Starting \<Rightarrow> run_guarded i now (run_greeting P i) st
      | Awaiting_Hello \<Rightarrow> run_guarded i now (run_handshake P i) st
      | Serving \<Rightarrow> if pc_closed (conn st i) then ret () (run_finally i st)
                   else run_guarded i now (run_round P i now drawn) st
      | Finished \<Rightarrow> ret () st)"

text \<open>
  The loop tests \<open>closed\<close> before it waits for a frame. When the connection is closed while the task waits, the
  next frame or the end of the stream still wakes it in the middle of its round.
\<close>

definition run_waiting :: "platform \<Rightarrow> nat \<Rightarrow> rat \<Rightarrow> bytes \<Rightarrow> (unit, p2p_node) operation" where
  "run_waiting P i now drawn st =
     (if pc_phase (conn st i) = Serving then run_guarded i now (run_round P i now drawn) st else ret () st)"

subsection \<open>Starting and closing the server\<close>

text \<open>
  \<open>start\<close>: the listening sockets asyncio made, by address. \<open>Some e\<close> is a start that fails once the server
  exists: the program then closes the node and raises \<open>e\<close>.
\<close>

definition start_p2p :: "(pystr \<Rightarrow> ip option) \<Rightarrow> (pystr \<times> int) list \<Rightarrow> (py_error option, p2p_node) operation" where
  "start_p2p ip_address sockets st =
     (if pn_running st then fail P2PError ''peer server is already running'' st
      else
      let st = st\<lparr>pn_running := True\<rparr> in
      case sockets of
        [] \<Rightarrow> ret (Some (Exn P2PError ''peer server did not create a listening socket'')) st
      | (_, port) # _ \<Rightarrow>
        if list_ex (\<lambda>(host, _). \<not> is_loopback_address ip_address host) sockets then
          ret (Some (Exn LocalTestnetOnlyError ''resolved listen address is not loopback'')) st
        else ret None (st\<lparr>pn_port := port\<rparr>))"

text \<open>
  \<open>close\<close> waits three times: for the server, whose \<open>wait_closed\<close> ends only when every connection it has
  accepted is gone; for the sockets of the connections it has closed; for the tasks it has cancelled. A
  cancelled task runs its \<open>finally\<close> clause, unless it had not begun.
\<close>

datatype close_wait = Draining | Flushing | Ending

definition stop_server :: "p2p_node \<Rightarrow> p2p_node" where
  "stop_server st = st\<lparr>pn_running := False\<rparr>"

definition close_connections :: "nat list \<Rightarrow> p2p_node \<Rightarrow> p2p_node" where
  "close_connections connections st = fold close_connection connections st"

definition cancel_tasks :: "nat list \<Rightarrow> p2p_node \<Rightarrow> p2p_node" where
  "cancel_tasks connections st =
     fold (\<lambda>i. set_conn i (\<lambda>c. c\<lparr>pc_handshake_complete := pc_handshake_complete c \<or> pc_phase c \<noteq> Starting,
                               pc_phase := Finished\<rparr>)) connections st"

text \<open>An operation on the peer node, at the time of the state.\<close>

definition at_time :: "(rat \<Rightarrow> ('a, p2p_node) operation) \<Rightarrow> ('a, rat \<times> p2p_node) operation" where
  "at_time m x = (case m (fst x) (snd x) of (r, st) \<Rightarrow> (r, (fst x, st)))"

definition close_p2p :: "(close_wait \<Rightarrow> (unit, rat \<times> p2p_node) operation) \<Rightarrow> (unit, rat \<times> p2p_node) operation" where
  "close_p2p wait =
     and_then (\<lambda>x. if pn_running (snd x) then
                     and_then (at_time (\<lambda>_. change stop_server)) (\<lambda>_. wait Draining) x
                   else ret () x) (\<lambda>_.
     and_then (reads_state (\<lambda>x. Inr (pn_connections (snd x)))) (\<lambda>connections.
     and_then (at_time (\<lambda>_. change (close_connections connections))) (\<lambda>_.
     and_then (wait Flushing) (\<lambda>_.
     and_then (at_time (\<lambda>_. change (cancel_tasks connections))) (\<lambda>_.
     wait Ending)))))"

subsection \<open>The tables of peers\<close>

text \<open>
  What the tables depend on of a connection: its host, whether it is closed, whether its task still waits
  for the greeting, and whom it is connected to (node, chain and genesis block), which a summary never changes.
\<close>

record peer_key =
  pk_host :: pystr
  pk_closed :: bool
  pk_early :: bool
  pk_peer :: "(bytes \<times> pystr \<times> bytes) option"

definition peer_key_of :: "connection \<Rightarrow> peer_key" where
  "peer_key_of c = \<lparr>pk_host = pc_host c, pk_closed = pc_closed c, pk_early = (pc_phase c \<in> {Starting, Awaiting_Hello}),
     pk_peer = map_option (\<lambda>h. (he_node_id h, he_chain_id h, he_genesis_hash h)) (pc_hello c)\<rparr>"

text \<open>The hash of the one genesis block of the network.\<close>

definition genesis_id :: "platform \<Rightarrow> bytes" where
  "genesis_id P = projr (bindE (genesis_block P TESTNET) (block_hash P))"

text \<open>
  \<open>_by_node_id\<close> holds every open peer under its node ID, so no two have the same. It may also hold a closed
  one: a connection closed by a handshake timeout can still read a greeting that had arrived.
\<close>

definition tables_ok :: "platform \<Rightarrow> bytes \<Rightarrow> peer_limits \<Rightarrow> peer_key list \<Rightarrow> nat list \<Rightarrow> (bytes, nat) dict \<Rightarrow> bool" where
  "tables_ok P own l ks open_peers nodes \<longleftrightarrow>
     distinct open_peers \<and> (\<forall>i. i \<in> set open_peers \<longleftrightarrow> i < length ks \<and> \<not> pk_closed (ks ! i))
   \<and> dict_ok nodes
   \<and> (\<forall>n i. map_of nodes n = Some i \<longrightarrow> i < length ks \<and> (\<exists>x. pk_peer (ks ! i) = Some (n, x)))
   \<and> (\<forall>i n x. i \<in> set open_peers \<and> pk_peer (ks ! i) = Some (n, x) \<longrightarrow> map_of nodes n = Some i)
   \<and> (\<forall>k \<in> set ks. pk_early k \<longrightarrow> pk_peer k = None)
   \<and> (\<forall>k \<in> set ks. \<forall>n c g. pk_peer k = Some (n, c, g) \<longrightarrow> n \<noteq> own \<and> c = net_chain_id TESTNET \<and> g = genesis_id P)
   \<and> int (length open_peers) \<le> li_max_peers l
   \<and> (\<forall>host. int (length (filter (\<lambda>i. pk_host (ks ! i) = host) open_peers)) \<le> li_max_peers_per_ip l)"

lemma tables_okD:
  assumes "tables_ok P own l ks open_peers nodes"
  shows "distinct open_peers" and "i \<in> set open_peers \<longleftrightarrow> i < length ks \<and> \<not> pk_closed (ks ! i)" and "dict_ok nodes"
    and "map_of nodes n = Some i \<Longrightarrow> i < length ks \<and> (\<exists>x. pk_peer (ks ! i) = Some (n, x))"
    and "k \<in> set ks \<Longrightarrow> pk_peer k = Some (n, c, g) \<Longrightarrow> n \<noteq> own \<and> c = net_chain_id TESTNET \<and> g = genesis_id P"
    and "int (length open_peers) \<le> li_max_peers l"
    and "int (length (filter (\<lambda>i. pk_host (ks ! i) = host) open_peers)) \<le> li_max_peers_per_ip l"
    and "i \<in> set open_peers \<Longrightarrow> pk_peer (ks ! i) = Some (n, x) \<Longrightarrow> map_of nodes n = Some i"
    and "k \<in> set ks \<Longrightarrow> pk_early k \<Longrightarrow> pk_peer k = None"
  using assms unfolding tables_ok_def by blast+

lemma tables_okI:
  assumes "distinct open_peers" and "\<And>i. i \<in> set open_peers \<longleftrightarrow> i < length ks \<and> \<not> pk_closed (ks ! i)" and "dict_ok nodes"
    and "\<And>n i. map_of nodes n = Some i \<Longrightarrow> i < length ks \<and> (\<exists>x. pk_peer (ks ! i) = Some (n, x))"
    and "\<And>k n c g. k \<in> set ks \<Longrightarrow> pk_peer k = Some (n, c, g) \<Longrightarrow> n \<noteq> own \<and> c = net_chain_id TESTNET \<and> g = genesis_id P"
    and "int (length open_peers) \<le> li_max_peers l"
    and "\<And>host. int (length (filter (\<lambda>i. pk_host (ks ! i) = host) open_peers)) \<le> li_max_peers_per_ip l"
    and "\<And>i n x. i \<in> set open_peers \<Longrightarrow> pk_peer (ks ! i) = Some (n, x) \<Longrightarrow> map_of nodes n = Some i"
    and "\<And>k. k \<in> set ks \<Longrightarrow> pk_early k \<Longrightarrow> pk_peer k = None"
  shows "tables_ok P own l ks open_peers nodes"
  using assms unfolding tables_ok_def by blast

definition bans_ok :: "peer_limits \<Rightarrow> (pystr, int) dict \<Rightarrow> (pystr, rat) dict \<Rightarrow> bool" where
  "bans_ok l scores banned \<longleftrightarrow> 0 < li_max_peers l \<and> 0 < li_max_peers_per_ip l \<and> 0 < li_score_disconnect_threshold l
     \<and> (\<forall>host. li_score_disconnect_threshold l \<le> dict_get scores host 0 \<longrightarrow> map_of banned host \<noteq> None)"

definition p2p_ok :: "platform \<Rightarrow> p2p_node \<Rightarrow> bool" where
  "p2p_ok P st \<longleftrightarrow> node_reachable P (pn_local_node st)
     \<and> tables_ok P (pn_node_id st) (pn_limits st) (map peer_key_of (pn_objects st)) (pn_connections st) (pn_by_node_id st)
     \<and> bans_ok (pn_limits st) (pn_host_scores st) (pn_banned_until st)"

text \<open>The same with a connection object that exists.\<close>

definition p2p_ok_at :: "platform \<Rightarrow> nat \<Rightarrow> p2p_node \<Rightarrow> bool" where
  "p2p_ok_at P i st \<longleftrightarrow> p2p_ok P st \<and> i < length (pn_objects st)"

lemma map_key_set_conn:
  "peer_key_of (f (conn st i)) = peer_key_of (conn st i) \<Longrightarrow>
     map peer_key_of (pn_objects (set_conn i f st)) = map peer_key_of (pn_objects st)"
  by (simp add: set_conn_def map_update) (metis list_update_beyond list_update_id length_map not_le nth_map)

lemma set_conn_fields [simp]:
  "pn_local_node (set_conn i f st) = pn_local_node st" "pn_node_id (set_conn i f st) = pn_node_id st"
  "pn_limits (set_conn i f st) = pn_limits st" "pn_connections (set_conn i f st) = pn_connections st"
  "pn_by_node_id (set_conn i f st) = pn_by_node_id st" "pn_host_scores (set_conn i f st) = pn_host_scores st"
  "pn_banned_until (set_conn i f st) = pn_banned_until st" "length (pn_objects (set_conn i f st)) = length (pn_objects st)"
  "pn_scores (set_conn i f st) = pn_scores st" "pn_running (set_conn i f st) = pn_running st"
  "pn_port (set_conn i f st) = pn_port st"
  by (simp_all add: set_conn_def)

lemma conn_set_conn [simp]: "i < length (pn_objects st) \<Longrightarrow> conn (set_conn i f st) i = f (conn st i)"
  by (simp add: set_conn_def)

lemma conn_set_other [simp]: "i \<noteq> j \<Longrightarrow> conn (set_conn i f st) j = conn st j"
  by (simp add: set_conn_def)

lemma p2p_ok_set_conn:
  "p2p_ok P st \<Longrightarrow> peer_key_of (f (conn st i)) = peer_key_of (conn st i) \<Longrightarrow> p2p_ok P (set_conn i f st)"
  by (simp add: p2p_ok_def map_key_set_conn)

lemma p2p_ok_at_set_conn:
  "p2p_ok_at P i st \<Longrightarrow> peer_key_of (f (conn st j)) = peer_key_of (conn st j) \<Longrightarrow> p2p_ok_at P i (set_conn j f st)"
  by (simp add: p2p_ok_at_def p2p_ok_set_conn)

lemma p2p_ok_local: "p2p_ok P st \<Longrightarrow> node_reachable P nd \<Longrightarrow> p2p_ok P (st\<lparr>pn_local_node := nd\<rparr>)"
  by (simp add: p2p_ok_def)

lemma dict_get_update [simp]: "dict_get (AList.update k v d) h x = (if h = k then v else dict_get d h x)"
  by (simp add: dict_get_def update_conv')

lemma dict_get_delete [simp]: "dict_get (AList.delete k d) h x = (if h = k then x else dict_get d h x)"
  by (simp add: dict_get_def delete_conv')

subsection \<open>Each operation keeps the tables\<close>

text \<open>A penalty bans the host when it raises, and never otherwise changes who is connected.\<close>

lemma penalize_ok:
  assumes "p2p_ok P st" shows "p2p_ok P (snd (penalize i points now st))"
proof -
  have "p2p_ok P (set_conn i (pc_score_update f) st)" for f
    using assms by (rule p2p_ok_set_conn) (simp add: peer_key_of_def)
  then show ?thesis
    by (auto simp: penalize_def Let_def p2p_ok_def bans_ok_def fail_def ret_def split: option.splits)
qed

lemma length_penalize [simp]: "length (pn_objects (snd (penalize i points now st))) = length (pn_objects st)"
  by (simp add: penalize_def Let_def fail_def ret_def split: option.splits)

text \<open>Closing and removing a connection.\<close>

lemma tables_close:
  assumes t: "tables_ok P own l ks open_peers nodes" and i: "i \<in> set open_peers"
    and nodes': "nodes' = (case pk_peer (ks ! i) of None \<Rightarrow> nodes | Some (n, _) \<Rightarrow> AList.delete n nodes)"
  shows "tables_ok P own l (ks[i := (ks ! i)\<lparr>pk_closed := True\<rparr>]) (filter (\<lambda>j. j \<noteq> i) open_peers) nodes'"
proof -
  let ?ks = "ks[i := (ks ! i)\<lparr>pk_closed := True\<rparr>]" and ?op = "filter (\<lambda>j. j \<noteq> i) open_peers"
  note d = tables_okD [OF t]
  have il: "i < length ks" using d(2) i by blast
  have p: "pk_peer (?ks ! j) = pk_peer (ks ! j)" "pk_host (?ks ! j) = pk_host (ks ! j)" for j
    using il by (cases "j = i"; simp)+
  have n1: "j < length ?ks \<and> (\<exists>x. pk_peer (?ks ! j) = Some (n, x))" if "map_of nodes' n = Some j" for n j
  proof -
    have "map_of nodes n = Some j" using that by (auto simp: nodes' delete_conv' split: option.splits if_splits)
    then show ?thesis using d(4) unfolding p length_list_update by blast
  qed
  have n2: "map_of nodes' n = Some j" if j: "j \<in> set ?op" "pk_peer (?ks ! j) = Some (n, x)" for n j x
  proof -
    have m: "map_of nodes n = Some j" "j \<noteq> i" using d(8) j unfolding p by auto
    show ?thesis
    proof (cases "pk_peer (ks ! i)")
      case (Some a)
      obtain n0 x0 where a: "a = (n0, x0)" by (cases a) blast
      have "map_of nodes n0 = Some i" using d(8) i Some a by blast
      then have "n0 \<noteq> n" using m by auto
      then show ?thesis using m Some a by (simp add: nodes' delete_conv')
    qed (use m in \<open>simp add: nodes'\<close>)
  qed
  have c: "length (filter Q ?op) \<le> length (filter Q open_peers)" for Q
    by (induction open_peers) auto
  have c6: "int (length ?op) \<le> li_max_peers l"
    using d(6) length_filter_le [of "\<lambda>j. j \<noteq> i" open_peers] by linarith
  have c7: "int (length (filter (\<lambda>j. pk_host (?ks ! j) = h) ?op)) \<le> li_max_peers_per_ip l" for h
    using d(7) [of h] c [of "\<lambda>j. pk_host (ks ! j) = h"] unfolding p by linarith
  have c2: "j \<in> set ?op \<longleftrightarrow> j < length ?ks \<and> \<not> pk_closed (?ks ! j)" for j
    using d(2) [of j] il by (cases "j = i") simp_all
  have c3: "dict_ok nodes'" using d(3) by (auto simp: nodes' split: option.splits)
  have c: "\<exists>k' \<in> set ks. pk_peer k = pk_peer k' \<and> pk_early k = pk_early k'" if k: "k \<in> set ?ks" for k
  proof -
    obtain j where j: "j < length ?ks" "?ks ! j = k" using k unfolding in_set_conv_nth by blast
    have "pk_early (?ks ! j) = pk_early (ks ! j)" using il by (cases "j = i") simp_all
    then have "pk_peer k = pk_peer (ks ! j) \<and> pk_early k = pk_early (ks ! j)" unfolding j(2) [symmetric] p by blast
    moreover have "ks ! j \<in> set ks" using j(1) by simp
    ultimately show ?thesis by blast
  qed
  have c5: "m \<noteq> own \<and> c = net_chain_id TESTNET \<and> g = genesis_id P"
    if kk: "k \<in> set ?ks" "pk_peer k = Some (m, c, g)" for k m c g
    proof -
    obtain k' where "k' \<in> set ks" "pk_peer k' = Some (m, c, g)" using c [OF kk(1)] kk(2) by auto
    then show ?thesis by (rule d(5))
  qed
  have c9: "pk_peer k = None" if kk: "k \<in> set ?ks" "pk_early k" for k
    proof -
    obtain k' where "k' \<in> set ks" "pk_peer k = pk_peer k'" "pk_early k'" using c [OF kk(1)] kk(2) by auto
    then show ?thesis using d(9) by simp
  qed
  show ?thesis
    by (rule tables_okI) (simp add: d(1), rule c2, rule c3, erule n1, erule (1) c5, rule c6, rule c7, erule (1) n2, erule (1) c9)
qed

lemma close_ok:
  assumes "p2p_ok P st" and "i < length (pn_objects st)" shows "p2p_ok P (close_connection i st)"
proof (cases "pc_closed (conn st i)")
  case False
  let ?ks = "map peer_key_of (pn_objects st)"
  have t: "tables_ok P (pn_node_id st) (pn_limits st) ?ks (pn_connections st) (pn_by_node_id st)"
    using assms(1) by (simp add: p2p_ok_def)
  have i: "i \<in> set (pn_connections st)" using tables_okD(2) [OF t, of i] False assms(2) by (simp add: peer_key_of_def)
  have ks: "map peer_key_of ((pn_objects st)[i := pc_closed_update (\<lambda>_. True) (conn st i)])
      = ?ks[i := (?ks ! i)\<lparr>pk_closed := True\<rparr>]"
    using assms(2) by (simp add: map_update peer_key_of_def)
  have n: "map_of (pn_by_node_id st) (he_node_id h) = Some i" if "pc_hello (conn st i) = Some h" for h
    using tables_okD(8) [OF t i, of "he_node_id h"] that assms(2) by (simp add: peer_key_of_def)
  have "close_connection i st = st\<lparr>pn_objects := (pn_objects st)[i := pc_closed_update (\<lambda>_. True) (conn st i)],
      pn_connections := filter (\<lambda>j. j \<noteq> i) (pn_connections st),
      pn_by_node_id := (case pk_peer (?ks ! i) of None \<Rightarrow> pn_by_node_id st | Some (n, _) \<Rightarrow> AList.delete n (pn_by_node_id st))\<rparr>"
    using False n assms(2) by (auto simp: close_connection_def remove_connection_def set_conn_def Let_def peer_key_of_def split: option.splits)
  then show ?thesis using tables_close [OF t i refl] assms(1) by (simp add: p2p_ok_def ks)
qed (use assms in \<open>simp add: close_connection_def\<close>)

lemma length_close [simp]: "length (pn_objects (close_connection i st)) = length (pn_objects st)"
  by (simp add: close_connection_def remove_connection_def Let_def split: option.splits)

lemma close_at_ok: "p2p_ok_at P k st \<Longrightarrow> i < length (pn_objects st) \<Longrightarrow> p2p_ok_at P k (close_connection i st)"
  by (simp add: p2p_ok_at_def close_ok)

text \<open>A new connection, when there is room for one.\<close>

lemma add_ok:
  assumes ok: "p2p_ok P st" and r: "int (length (pn_connections st)) < li_max_peers (pn_limits st)"
    "host_connection_count host st < li_max_peers_per_ip (pn_limits st)"
  shows "p2p_ok P (add_connection host port outbound st)"
proof -
  let ?ks = "map peer_key_of (pn_objects st)" and ?k = "peer_key_of (new_connection (pn_limits st) host port outbound)"
  let ?op = "pn_connections st" and ?n = "length (pn_objects st)"
  have t: "tables_ok P (pn_node_id st) (pn_limits st) ?ks ?op (pn_by_node_id st)"
    using ok by (simp add: p2p_ok_def)
  have k: "pk_host ?k = host" "\<not> pk_closed ?k" "pk_peer ?k = None" by (simp_all add: peer_key_of_def new_connection_def)
  note d = tables_okD [OF t]
  have lt: "\<forall>i \<in> set ?op. i < ?n" using d(2) by simp
  have nth: "(?ks @ [?k]) ! i = ?ks ! i" if "i \<in> set ?op" for i using that lt by (simp add: nth_append)
  have cnt: "length (filter (\<lambda>i. pk_host ((?ks @ [?k]) ! i) = h) (?op @ [?n]))
      = length (filter (\<lambda>i. pk_host (?ks ! i) = h) ?op) + (if h = host then 1 else 0)" for h
    using nth k(1) by (simp add: nth_append cong: filter_cong)
  have hc: "int (length (filter (\<lambda>i. pk_host (?ks ! i) = host) ?op)) < li_max_peers_per_ip (pn_limits st)"
    using r(2) lt unfolding host_connection_count_def by (simp add: peer_key_of_def cong: filter_cong)
  have c7: "int (length (filter (\<lambda>i. pk_host ((?ks @ [?k]) ! i) = h) (?op @ [?n]))) \<le> li_max_peers_per_ip (pn_limits st)" for h
    unfolding cnt using d(7) [of h] hc by (cases "h = host") simp_all
  have c2: "i \<in> set (?op @ [?n]) \<longleftrightarrow> i < length (?ks @ [?k]) \<and> \<not> pk_closed ((?ks @ [?k]) ! i)" for i
  proof -
    have "(?ks @ [?k]) ! ?n = ?k" "?n \<notin> set ?op" using lt by (metis length_map nth_append_length, blast)
    then show ?thesis using d(2) [of i] k(2) by (cases "i = ?n") (auto simp: less_Suc_eq nth_append)
  qed
  have c4: "i < length (?ks @ [?k]) \<and> (\<exists>x. pk_peer ((?ks @ [?k]) ! i) = Some (n, x))"
    if "map_of (pn_by_node_id st) n = Some i" for n i
    using d(4) [OF that] by (auto simp: nth_append)
  have c8: "map_of (pn_by_node_id st) n = Some i"
    if i: "i \<in> set (?op @ [?n])" "pk_peer ((?ks @ [?k]) ! i) = Some (n, x)" for i n x
  proof -
    have "(?ks @ [?k]) ! ?n = ?k" by (metis length_map nth_append_length)
    then have "i \<noteq> ?n" using i(2) k(3) by auto
    then show ?thesis using i nth d(8) by auto
  qed
  have c9: "pk_peer x = None" if "x \<in> set (?ks @ [?k])" "pk_early x" for x
    using that k(3) d(9) [of x] by auto
  have c5: "m \<noteq> pn_node_id st \<and> c = net_chain_id TESTNET \<and> g = genesis_id P"
    if "x \<in> set (?ks @ [?k])" "pk_peer x = Some (m, c, g)" for x m c g
    using that k(3) d(5) [of x m c g] by auto
  have c6: "int (length (?op @ [?n])) \<le> li_max_peers (pn_limits st)" and c1: "distinct (?op @ [?n])"
    using r(1) d(1) lt by auto
  have "tables_ok P (pn_node_id st) (pn_limits st) (?ks @ [?k]) (?op @ [?n]) (pn_by_node_id st)"
    by (rule tables_okI) (rule c1, rule c2, rule d(3), erule c4, erule (1) c5, rule c6, rule c7, erule (1) c8, erule (1) c9)
  then show ?thesis using ok by (simp add: p2p_ok_def add_connection_def)
qed

lemma can_accept_spec:
  assumes "p2p_ok P st" and "can_accept host now st = (b, st')"
  shows "p2p_ok P st' \<and> pn_objects st' = pn_objects st \<and> pn_connections st' = pn_connections st \<and> pn_limits st' = pn_limits st
    \<and> (b \<longrightarrow> int (length (pn_connections st')) < li_max_peers (pn_limits st')
        \<and> host_connection_count host st' < li_max_peers_per_ip (pn_limits st'))"
  using assms by (auto simp: can_accept_def Let_def p2p_ok_def bans_ok_def delete_conv' split: if_splits)

lemma accept_ok: "p2p_ok P st \<Longrightarrow> p2p_ok P (accept ip peername now st)"
  by (auto simp: accept_def add_ok dest: can_accept_spec split: option.splits prod.splits bool.splits)

lemma connect_check_ok: "p2p_ok P st \<Longrightarrow> p2p_ok P (snd (connect_check host port now st))"
  by (auto simp: connect_check_def fail_def ret_def dest: can_accept_spec split: prod.splits bool.splits)

lemma connect_opened_ok: "p2p_ok P st \<Longrightarrow> p2p_ok P (snd (connect_opened ip peername now st))"
  by (auto simp: connect_opened_def fail_def ret_def add_ok dest: can_accept_spec split: option.splits prod.splits bool.splits)

lemma connect_finish_ok: "p2p_ok P st \<Longrightarrow> i < length (pn_objects st) \<Longrightarrow> p2p_ok P (snd (connect_finish i st))"
  by (auto simp: connect_finish_def fail_def ret_def close_ok split: option.splits)


end
