(* ===== verification/Handler_Invariants.thy ===== *)
theory Handler_Invariants
  imports P2p_Node
begin

text \<open>
  What the operations of the peer node keep. The contract is a locale: a property of the state that a few
  elementary changes keep is kept by every handler and every step of a connection task.
\<close>

subsection \<open>Generic facts\<close>

lemma keeps_raised [keeps_intros]: "keeps I (Pair r)"
  by (simp add: keeps_def)

text \<open>A case distinction on the result of an operation.\<close>

lemma keeps_outcome:
  assumes "keeps I m" and "\<And>e. keeps I (h e)" and "\<And>x. keeps I (f x)"
  shows "keeps I (\<lambda>s. case m s of (Inl e, s) \<Rightarrow> h e s | (Inr x, s) \<Rightarrow> f x s)"
  using assms by (fastforce simp: keeps_def split: prod.splits sum.splits)

lemma peer_key_kept [simp]:
  "peer_key_of (cancel_block_request c) = peer_key_of c" "peer_key_of (note_accepted_block c) = peer_key_of c"
  by (simp_all add: note_accepted_block_def cancel_block_request_def peer_key_of_def)

lemma complete_handshake_error: "complete_handshake P i h st = (Inl e, st') \<Longrightarrow> st' = st"
  by (auto simp: complete_handshake_def and_then_def reads_state_def fail_def ret_def split: sum.splits if_splits option.splits)

definition handshake_state :: "nat \<Rightarrow> hello \<Rightarrow> p2p_node \<Rightarrow> p2p_node" where
  "handshake_state i h st = set_conn i (\<lambda>c. c\<lparr>pc_hello := Some h,
     pc_score := dict_get (pn_scores st) (he_node_id h) 0, pc_handshake_complete := True, pc_phase := Serving\<rparr>)
     (st\<lparr>pn_by_node_id := AList.update (he_node_id h) i (pn_by_node_id st)\<rparr>)"

lemma complete_handshake_state:
  "complete_handshake P i h st = (Inr u, st') \<Longrightarrow> st' = st\<lparr>pn_by_node_id := AList.update (he_node_id h) i (pn_by_node_id st)\<rparr>"
  by (auto simp: complete_handshake_def and_then_def reads_state_def fail_def ret_def split: sum.splits if_splits option.splits)

subsection \<open>What the handlers keep\<close>

text \<open>
  The contract between the operations of the node and a property of its state: when steps of the local
  node, changes of a connection that keep its key and closing a connection keep the property, so does every
  operation that sends; when a penalty, a completed handshake and the end of a task keep it too, so does
  every step of that task. The handlers are gone through once, here.
\<close>

locale node_keeps =
  fixes P :: platform and I :: "p2p_node \<Rightarrow> bool"
  assumes local_step: "I st \<Longrightarrow> node_step P (pn_local_node st) nd \<Longrightarrow> I (st\<lparr>pn_local_node := nd\<rparr>)"
    and conn_step: "I st \<Longrightarrow> peer_key_of (f (conn st j)) = peer_key_of (conn st j) \<Longrightarrow> I (set_conn j f st)"
    and in_range: "I st \<Longrightarrow> j \<in> set (pn_connections st) \<Longrightarrow> j < length (pn_objects st)"
    and close_step: "I st \<Longrightarrow> j < length (pn_objects st) \<Longrightarrow> I (close_connection j st)"
begin

lemma on_local_node_keeps:
  assumes "\<And>nd. node_step P nd (snd (m nd))" shows "keeps I (on_local_node m)"
  using assms local_step by (fastforce simp: keeps_def on_local_node_def split: prod.splits)

lemma keeps_local:
  "keeps I (on_local_node (submit_block P b))" "keeps I (on_local_node (submit_transaction P t))"
  "keeps I (on_local_node (mine P miner timestamp mx attempts))"
  by (rule on_local_node_keeps, rule step_submit_block step_submit_transaction step_mine)+

lemma keeps_send: "keeps I (send_message Q j mt payload)"
proof -
  have "I (set_conn j (pc_written_update w) st)" if "I st" for w st
    using that by (rule conn_step) (simp add: peer_key_of_def)
  then show ?thesis
    by (auto simp: keeps_def send_message_def and_then_def compute_def fail_def ret_def split: sum.splits writer_state.splits)
qed

lemma keeps_reject: "keeps I (send_reject Q j code reason)"
  unfolding send_reject_def by (intro keeps_intros keeps_send)

lemma keeps_request: "keeps I (request_blocks Q i)"
proof -
  have "keeps I (\<lambda>st. (Inl e, set_conn i cancel_block_request st))" for e
    by (intro keeps_result conn_step) simp_all
  then have m: "keeps I (and_then (on_error
             (and_then (reads_state (block_locator Q)) (\<lambda>locator.
              and_then (compute (locator_to_bytes locator)) (\<lambda>payload. send_message Q i GET_BLOCKS payload)))
             (\<lambda>e st. (Inl e, set_conn i cancel_block_request st))) (\<lambda>_. ret True))"
    by (intro keeps_and_then keeps_on_error keeps_pure keeps_send)
  have s: "I (set_conn i (\<lambda>_. c) st)" if "begin_block_request w (conn st i) = (True, c)" "I st" for w c st
    using that by (intro conn_step) (auto simp: begin_block_request_def peer_key_of_def split: if_splits)
  have "I (snd (case begin_block_request w (conn st i) of (False, _) \<Rightarrow> ret False st
       | (True, c) \<Rightarrow> and_then (on_error
             (and_then (reads_state (block_locator Q)) (\<lambda>locator.
              and_then (compute (locator_to_bytes locator)) (\<lambda>payload. send_message Q i GET_BLOCKS payload)))
             (\<lambda>e st. (Inl e, set_conn i cancel_block_request st))) (\<lambda>_. ret True) (set_conn i (\<lambda>_. c) st)))"
    if ok: "I st" for w st
    using keepsD [OF m s [OF _ ok]] ok by (auto simp: ret_def split: prod.splits bool.splits)
  then show ?thesis
    unfolding request_blocks_def by (intro keeps_and_then keeps_pure) (simp add: keeps_def)
qed

lemma keeps_send_list: "keeps I (send_block_list Q i bs)"
  by (induction bs) (auto intro!: keeps_and_then keeps_pure keeps_send)

lemma send_all_ok: "I st \<Longrightarrow> send_all Q mt payload is st = (failed, st') \<Longrightarrow>
   I st' \<and> set failed \<subseteq> set is \<and> length (pn_objects st') = length (pn_objects st)"
proof (induction "is" arbitrary: st failed)
  case (Cons i "is")
  obtain r st1 where s: "send_message Q i mt payload st = (r, st1)" by fastforce
  obtain failed1 where a: "send_all Q mt payload is st1 = (failed1, st')"
    and f: "failed = (case r of Inl _ \<Rightarrow> i # failed1 | Inr _ \<Rightarrow> failed1)"
    using Cons.prems(2) s by (auto split: prod.splits)
  have l: "length (pn_objects st1) = length (pn_objects st)"
    using s by (auto simp: send_message_def and_then_def compute_def fail_def ret_def split: sum.splits writer_state.splits if_splits)
  have "I st1" using keepsD [OF keeps_send Cons.prems(1)] s by (metis snd_conv)
  from Cons.IH [OF this a] f l show ?case by (auto split: sum.splits)
qed simp

lemma closes_all:
  "I st \<Longrightarrow> \<forall>i \<in> set is. i < length (pn_objects st) \<Longrightarrow> I (fold close_connection is st)"
  by (induction "is" arbitrary: st) (auto simp: close_step)

lemma broadcast_ok:
  assumes ok: "I st" shows "I (broadcast Q mt payload exclude st)"
proof -
  obtain failed st' where s: "send_all Q mt payload (broadcast_targets exclude st) st = (failed, st')" by fastforce
  have "\<forall>i \<in> set failed. i < length (pn_objects st')"
    using send_all_ok [OF ok s] in_range [OF ok] by (auto simp: broadcast_targets_def)
  then show ?thesis using closes_all send_all_ok [OF ok s] by (simp add: broadcast_def s)
qed

lemma keeps_broadcast:
  "keeps I (broadcast_block Q b exclude)" "keeps I (broadcast_transaction Q t exclude)"
  unfolding broadcast_block_def broadcast_transaction_def by (intro keeps_and_then keeps_pure keeps_change broadcast_ok; assumption)+

lemma keeps_mine: "keeps I (mine_and_broadcast P miner timestamp mx attempts)"
  unfolding mine_and_broadcast_def by (intro keeps_and_then keeps_pure keeps_local keeps_broadcast)

lemma keeps_set_conn:
  "(\<And>c. peer_key_of (f c) = peer_key_of c) \<Longrightarrow> keeps I m \<Longrightarrow> keeps I (\<lambda>st. m (set_conn j f st))"
  by (simp add: keeps_def conn_step)

end

locale task_keeps = node_keeps +
  fixes i :: nat and now :: rat
  assumes exists: "I st \<Longrightarrow> i < length (pn_objects st)"
    and penalty: "I st \<Longrightarrow> 0 \<le> points \<Longrightarrow> I (snd (penalize i points now st))"
    and threshold: "I st \<Longrightarrow> 0 \<le> li_score_disconnect_threshold (pn_limits st)"
    and joining: "I st \<Longrightarrow> pc_phase (conn st i) = Awaiting_Hello \<Longrightarrow> complete_handshake P i h st = (Inr u, st') \<Longrightarrow>
      I (handshake_state i h st)"
    and finishing: "I st \<Longrightarrow> I (run_finally i st)"
begin

lemma keeps_penalize: "0 \<le> points \<Longrightarrow> keeps I (penalize i points now)"
  by (simp add: keeps_def penalty)

lemma keeps_send_blocks: "keeps I (send_blocks Q i locator now)"
  unfolding send_blocks_def
  by (intro keeps_and_then keeps_pure keeps_option keeps_penalize keeps_reject keeps_send_list keeps_send) simp

lemma keeps_handle_block: "keeps I (handle_block P i b now)"
  unfolding handle_block_def
  by (intro keeps_and_then keeps_pure keeps_if_state keeps_raised keeps_outcome keeps_local keeps_set_conn keeps_broadcast
      keeps_request keeps_penalize keeps_reject) simp_all

lemma keeps_handle_transaction: "keeps I (handle_transaction P i t now)"
  unfolding handle_transaction_def
  by (intro keeps_and_then keeps_pure keeps_if_state keeps_raised keeps_outcome keeps_local keeps_broadcast keeps_penalize keeps_reject) simp

lemma keeps_handle_sync: "keeps I (handle_sync_complete P i s now)"
proof -
  have u: "peer_key_of c = peer_key_of (conn st i)" if "update_advertised_summary s (conn st i) = Inr c" for c st
    using that by (auto simp: update_advertised_summary_def peer_key_of_def split: option.splits if_splits)
  have f: "peer_key_of c = peer_key_of (conn st i)" if "finish_block_request (conn st i) = (x, c)" for c x st
    using that by (auto simp: finish_block_request_def split: if_splits)
  define tail where "tail x = and_then (reads_state (\<lambda>st. chain_cumulative_work (nd_chain (pn_local_node st)))) (\<lambda>local_work.
     if su_cumulative_work s \<le> local_work then ret ()
     else if (case x of None \<Rightarrow> False
              | Some (accepted, start_work) \<Rightarrow> accepted = 0 \<and> local_work \<le> start_work) then
       and_then (penalize i 20 now) (\<lambda>_.
       and_then (send_reject P i 32 ''block synchronization made no progress'') (\<lambda>_.
       fail PeerDisconnectedError ''peer claimed higher work without progress''))
     else and_then (request_blocks P i) (\<lambda>_. ret ()))" for x :: "(int \<times> int) option"
  have t: "keeps I (tail x)" for x unfolding tail_def
    by (intro keeps_and_then keeps_pure keeps_if keeps_penalize keeps_reject keeps_request) simp
  have "I (snd (handle_sync_complete P i s now st))" if ok: "I st" for st
  proof (cases "check_summary s st")
    case (Inr u)
    show ?thesis
    proof (cases "update_advertised_summary s (conn st i)")
      case (Inr c)
      let ?st = "set_conn i (\<lambda>_. c) st"
      obtain x c' where fx: "finish_block_request (conn ?st i) = (x, c')" by fastforce
      have "I ?st" by (rule conn_step [OF ok]) (rule u [OF Inr])
      then have "I (set_conn i (\<lambda>_. c') ?st)" by (rule conn_step) (rule f [OF fx])
      then have "I (snd (tail x (set_conn i (\<lambda>_. c') ?st)))" by (rule keepsD [OF t])
      then show ?thesis
        using Inr \<open>check_summary s st = Inr u\<close> fx
        by (simp add: handle_sync_complete_def tail_def and_then_def [of "reads_state _"] and_then_def [of "change _"] reads_state_def change_def)
    qed (use ok \<open>check_summary s st = Inr u\<close> in \<open>simp add: handle_sync_complete_def and_then_def reads_state_def\<close>)
  qed (use ok in \<open>simp add: handle_sync_complete_def and_then_def reads_state_def\<close>)
  then show ?thesis by (simp add: keeps_def)
qed

lemma keeps_handle_frame: "keeps I (handle_frame P i f now)"
proof -
  have "peer_key_of (pc_pending_ping_update g c) = peer_key_of c" for g c by (simp add: peer_key_of_def)
  then have "keeps I (\<lambda>st. ret () (set_conn i (pc_pending_ping_update g) st))" for g
    by (intro keeps_set_conn keeps_pure)
  then have pong: "keeps I (\<lambda>st. if pc_pending_ping (conn st i) \<noteq> Some nonce then
            fail ProtocolError ''peer returned an unsolicited or mismatched PONG'' st
          else ret () (set_conn i (pc_pending_ping_update (\<lambda>_. None)) st))" for nonce
    by (intro keeps_if_state keeps_pure)
  show ?thesis
    unfolding handle_frame_def
    by (cases "fr_message_type f"; simp only: message_type.case; intro keeps_and_then keeps_pure pong keeps_send_blocks
        keeps_handle_block keeps_handle_transaction keeps_handle_sync keeps_send)
qed

lemma keeps_read: "keeps I (read_message Q i)"
proof -
  have "peer_key_of (pc_reader_update g c) = peer_key_of c" for g c by (simp add: peer_key_of_def)
  then show ?thesis by (auto simp: keeps_def read_message_def conn_step split: prod.splits)
qed

text \<open>A task that has not seen the greeting keeps its phase until it has sent its own.\<close>

definition early :: "p2p_node \<Rightarrow> bool" where
  "early st \<longleftrightarrow> I st \<and> pc_phase (conn st i) \<in> {Starting, Awaiting_Hello}"

lemma early_set_conn:
  assumes "early st" and "\<And>c. pc_phase c \<in> {Starting, Awaiting_Hello} \<Longrightarrow> peer_key_of (f c) = peer_key_of c \<and> pc_phase (f c) \<in> {Starting, Awaiting_Hello}"
  shows "early (set_conn i f st)"
proof -
  have "I (set_conn i f st)" using assms by (intro conn_step) (auto simp: early_def)
  then show ?thesis using assms exists by (auto simp: early_def)
qed

lemma keeps_greeting: "keeps early (run_greeting Q i)"
proof -
  have "early (set_conn i (pc_written_update w) st)" if "early st" for w st
    using that by (rule early_set_conn) (simp add: peer_key_of_def)
  then have "keeps early (send_message Q i mt payload)" for mt payload
    by (auto simp: keeps_def send_message_def and_then_def compute_def fail_def ret_def split: sum.splits writer_state.splits)
  moreover have "keeps early (change (set_conn i (pc_phase_update (\<lambda>_. Awaiting_Hello))))"
    by (rule keeps_change, erule early_set_conn) (simp add: peer_key_of_def)
  ultimately show ?thesis unfolding run_greeting_def by (intro keeps_and_then keeps_pure)
qed

lemma greet_ok:
  assumes ok: "I st" and e: "pc_phase (conn st i) = Awaiting_Hello"
  shows "I (snd (greet P i f st))"
proof (cases "fr_message_type f = HELLO")
  case True
  show ?thesis
  proof (cases "hello_from_bytes P (fr_payload f)")
    case (Inr h)
    obtain r st1 where c: "complete_handshake P i h st = (r, st1)" by fastforce
    show ?thesis
    proof (cases r)
      case (Inl x)
      then have "greet P i f st = (Inl x, st)"
        using True Inr c complete_handshake_error by (fastforce simp: greet_def and_then_def compute_def)
      then show ?thesis using ok by simp
    next
      case (Inr u)
      define work where "work h = and_then (reads_state (\<lambda>st. chain_cumulative_work (nd_chain (pn_local_node st)))) (\<lambda>work.
        if he_cumulative_work h > work then and_then (request_blocks P i) (\<lambda>_. ret ()) else ret ())" for h :: hello
      have w: "keeps I (work h)" for h unfolding work_def
        by (intro keeps_and_then keeps_pure keeps_if keeps_request)
      note hs = complete_handshake_state [OF c [unfolded Inr]]
      have "I (handshake_state i h st)" by (rule joining [OF ok e c [unfolded Inr]])
      from keepsD [OF w [of h] this] show ?thesis
        using True \<open>hello_from_bytes P (fr_payload f) = Inr h\<close> c Inr hs
        by (simp add: greet_def work_def and_then_def [of "compute _"] and_then_def [of "complete_handshake _ _ _"]
            and_then_def [of "change _"] compute_def change_def handshake_state_def)
    qed
  qed (use ok True in \<open>simp add: greet_def and_then_def compute_def\<close>)
qed (use ok in \<open>simp add: greet_def fail_def\<close>)

lemma run_handshake_ok:
  assumes ok: "I st" and e: "pc_phase (conn st i) = Awaiting_Hello"
  shows "I (snd (run_handshake P i st))"
proof -
  obtain r st1 where r: "read_message P i st = (r, st1)" by fastforce
  have ok1: "I st1" using keepsD [OF keeps_read ok] r by (metis snd_conv)
  have "pc_phase (conn st1 i) = Awaiting_Hello"
    using r exists [OF ok] e by (auto simp: read_message_def split: prod.splits)
  then show ?thesis using greet_ok [OF ok1] ok1 r
    by (cases r) (simp_all add: run_handshake_def and_then_def)
qed

lemma keeps_round: "keeps I (run_round P i now drawn)"
proof -
  have l: "peer_key_of (pc_rate_limiter_update g c) = peer_key_of c" "peer_key_of (pc_pending_ping_update h c) = peer_key_of c"
    for g h c by (simp_all add: peer_key_of_def)
  have ch: "keeps I (change (set_conn i (pc_rate_limiter_update g)))"
    "keeps I (change (set_conn i (pc_pending_ping_update h)))" for g h
    using l by (simp_all add: keeps_def change_def conn_step)
  have p: "keeps I (\<lambda>st. penalize i (li_score_disconnect_threshold (pn_limits st)) now st)"
    by (simp add: keeps_def penalty threshold)
  have s: "keeps I (\<lambda>st. case lim st of (allowed, limiter) \<Rightarrow>
      and_then (change (set_conn i (pc_rate_limiter_update (\<lambda>_. limiter)))) (\<lambda>_.
      and_then (if allowed then ret () else (\<lambda>st. penalize i (li_score_disconnect_threshold (pn_limits st)) now st)) (\<lambda>_.
      handle_frame P i f now)) st)" for f lim
  proof -
    have "keeps I (and_then (change (set_conn i (pc_rate_limiter_update (\<lambda>_. limiter)))) (\<lambda>_.
      and_then (if allowed then ret () else (\<lambda>st. penalize i (li_score_disconnect_threshold (pn_limits st)) now st)) (\<lambda>_.
      handle_frame P i f now)))" for allowed limiter
      by (intro keeps_and_then keeps_if keeps_pure ch p keeps_handle_frame)
    then show ?thesis by (auto simp: keeps_def split: prod.splits)
  qed
  have t: "keeps I (\<lambda>st. if exn_kind e = PeerFrameTimeoutError then
            (if pc_pending_ping (conn st i) \<noteq> None then
               fail PeerDisconnectedError ''peer did not answer the keepalive ping'' st
             else
               let nonce = from_bytes_be drawn in
               and_then (change (set_conn i (pc_pending_ping_update (\<lambda>_. Some nonce)))) (\<lambda>_.
               and_then (compute (encode_ping nonce)) (send_message P i PING)) st)
          else (Inl e, st))" for e
    unfolding Let_def by (intro keeps_if_state keeps_pure keeps_and_then ch keeps_send keeps_raised)
  show ?thesis
    unfolding run_round_def Let_def [of "int _"] by (rule keeps_outcome [OF keeps_read t s])
qed

lemma keeps_run_error: "keeps I (run_error i now e)"
proof -
  have p: "keeps I (suppress is_protocol_error (penalize i 20 now))"
    by (intro keeps_suppress keeps_penalize) simp
  have t: "keeps I (\<lambda>st. suppress is_protocol_error (penalize i (li_score_disconnect_threshold (pn_limits st)) now) st)"
    using keepsD [OF keeps_suppress [OF keeps_penalize]] threshold by (simp add: keeps_def)
  show ?thesis unfolding run_error_def by (intro keeps_if_state keeps_raised keeps_pure p t)
qed

lemma run_guarded_ok:
  assumes "I (snd (body st))"
  shows "I (snd (run_guarded i now body st))"
proof -
  obtain r st1 where b: "body st = (r, st1)" by fastforce
  then have ok: "I st1" using assms by simp
  show ?thesis
  proof (cases r)
    case (Inl e)
    obtain r2 st2 where e: "run_error i now e st1 = (r2, st2)" by fastforce
    then have "I st2" using keepsD [OF keeps_run_error ok] by (metis snd_conv)
    then show ?thesis using Inl b e by (simp add: run_guarded_def finishing)
  qed (use b ok in \<open>simp add: run_guarded_def\<close>)
qed

lemma run_task_ok:
  assumes ok: "I st"
  shows "I (snd (run_task P i now drawn st))"
proof (cases "pc_phase (conn st i)")
  case Starting
  then have "early st" using ok by (simp add: early_def)
  from keepsD [OF keeps_greeting this] show ?thesis
    using Starting by (simp add: run_task_def run_guarded_ok early_def)
next
  case Awaiting_Hello
  then show ?thesis using run_handshake_ok [OF ok] by (simp add: run_task_def run_guarded_ok)
next
  case Serving
  then show ?thesis using keepsD [OF keeps_round ok] ok
    by (simp add: run_task_def run_guarded_ok finishing ret_def)
qed (use ok in \<open>simp add: run_task_def ret_def\<close>)

lemma run_waiting_ok: "I st \<Longrightarrow> I (snd (run_waiting P i now drawn st))"
  using keepsD [OF keeps_round] by (simp add: run_waiting_def run_guarded_ok ret_def)

end


end
