(* ===== verification/P2p_Session.thy ===== *)
theory P2p_Session
  imports Handler_Invariants
begin

text \<open>
  Runs of the peer node. The step relation lets every task, socket and caller act in any order, with bytes
  of the peer's choosing and a clock that does not go back. Along every run the tables of the node are
  consistent, bans hold for their minute, and the local node never loses a block or work.
\<close>

subsection \<open>The node's own greeting\<close>

lemma p2p_chain_ok: "platform_ok P \<Longrightarrow> p2p_ok P st \<Longrightarrow> chain_ok P (nd_chain (pn_local_node st))"
  using node_chain_ok node_reachable_ok unfolding p2p_ok_def by blast

lemma genesis_hash:
  assumes "chain_reachable P c"
  obtains g where "genesis_block P TESTNET = Inr g" and "block_hash P g = Inr (genesis_id P)"
proof -
  obtain c0 where "new_chain P TESTNET = Inr c0" using chain_start [OF assms] by blast
  then obtain g h where "genesis_block P TESTNET = Inr g" "block_hash P g = Inr h"
    by (auto simp: new_chain_def bindE_eq_Inr)
  with that show thesis by (simp add: genesis_id_def)
qed

lemma own_hello_spec:
  assumes P: "platform_ok P" and ok: "p2p_ok P st"
  shows "own_hello P st = Inr \<lparr>he_node_id = pn_node_id st, he_chain_id = net_chain_id TESTNET,
     he_genesis_hash = genesis_id P, he_tip_hash = ch_tip (nd_chain (pn_local_node st)),
     he_height = br_height (en_record (tip_entry (nd_chain (pn_local_node st)))),
     he_cumulative_work = br_cumulative_work (en_record (tip_entry (nd_chain (pn_local_node st)))),
     he_listen_port = pn_port st\<rparr>"
proof -
  let ?c = "nd_chain (pn_local_node st)"
  note c = p2p_chain_ok [OF P ok] and tf = tip_facts [OF p2p_chain_ok [OF P ok]]
  obtain g where g: "genesis_block P TESTNET = Inr g" "block_hash P g = Inr (genesis_id P)"
    using ok node_reachable_ok [OF P] by (auto simp: p2p_ok_def node_ok_def elim: genesis_hash)
  obtain bs where bs: "branch ?c (ch_tip ?c) bs" "active_chain ?c = Inr (rev (map (block_at ?c) bs))"
    by (rule active_chain_spec [OF c])
  note bf = branch_follows [OF chain_okD(1) [OF c] bs(1)]
  have "bs \<noteq> []" "block_at ?c (last bs) = g" using bf g by simp_all
  then obtain xs where "rev (map (block_at ?c) bs) = g # xs"
    by (cases bs rule: rev_cases) simp_all
  then show ?thesis
    using bs(2) g(2) tf(2,9) chain_okD(3) [OF c]
    by (simp add: own_hello_def Let_def chain_cumulative_work_def dict_index_def)
qed


subsection \<open>Handshakes and the end of a task\<close>

text \<open>A completed handshake enters the peer under its node ID, which no open connection had.\<close>

lemma tables_join:
  assumes t: "tables_ok P own l ks open_peers nodes" and i: "i < length ks" "pk_peer (ks ! i) = None"
    and n: "n \<noteq> own" and f: "\<And>j x. j \<in> set open_peers \<Longrightarrow> pk_peer (ks ! j) \<noteq> Some (n, x)"
  shows "tables_ok P own l (ks[i := (ks ! i)\<lparr>pk_early := False, pk_peer := Some (n, net_chain_id TESTNET, genesis_id P)\<rparr>])
     open_peers (AList.update n i nodes)"
proof -
  let ?k = "(ks ! i)\<lparr>pk_early := False, pk_peer := Some (n, net_chain_id TESTNET, genesis_id P)\<rparr>"
  let ?ks = "ks[i := ?k]"
  note d = tables_okD [OF t]
  have p: "pk_closed (?ks ! j) = pk_closed (ks ! j)" "pk_host (?ks ! j) = pk_host (ks ! j)" for j
    using i(1) by (cases "j = i"; simp)+
  have ki: "?ks ! i = ?k" and kj: "?ks ! j = ks ! j" if "j \<noteq> i" for j using i(1) that by simp_all
  have u: "map_of (AList.update n i nodes) m = (if m = n then Some i else map_of nodes m)" for m
    by (simp add: update_conv')
  have c4: "j < length ?ks \<and> (\<exists>x. pk_peer (?ks ! j) = Some (m, x))" if "map_of (AList.update n i nodes) m = Some j" for m j
  proof (cases "m = n")
    case True
    then show ?thesis using that i(1) by (simp add: u)
  next
    case False
    then have "j < length ks \<and> (\<exists>x. pk_peer (ks ! j) = Some (m, x))" using d(4) that u by simp
    moreover from this have "j \<noteq> i" using i(2) by auto
    ultimately show ?thesis by (simp add: kj)
  qed
  have c8: "map_of (AList.update n i nodes) m = Some j" if j: "j \<in> set open_peers" "pk_peer (?ks ! j) = Some (m, x)" for j m x
  proof (cases "j = i")
    case True
    then show ?thesis using j i(1) by (simp add: u)
  next
    case False
    then have "pk_peer (ks ! j) = Some (m, x)" using j(2) kj by simp
    then show ?thesis using d(8) [OF j(1), of m x] f [OF j(1), of x] by (cases "m = n") (simp_all add: u)
  qed
  have k: "k = ?k \<or> k \<in> set ks" if "k \<in> set ?ks" for k
    using that set_update_subset_insert [of ks i ?k] by blast
  have c5: "m \<noteq> own \<and> c = net_chain_id TESTNET \<and> g = genesis_id P"
    if kk: "k \<in> set ?ks" "pk_peer k = Some (m, c, g)" for k m c g
    using k [OF kk(1)]
  proof
    assume "k = ?k"
    then show ?thesis using kk(2) n by simp
  next
    assume "k \<in> set ks"
    then show ?thesis using kk(2) by (rule d(5))
  qed
  have c9: "pk_peer k = None" if kk: "k \<in> set ?ks" "pk_early k" for k
    using k [OF kk(1)] kk(2) d(9) by auto
  have c2: "j \<in> set open_peers \<longleftrightarrow> j < length ?ks \<and> \<not> pk_closed (?ks ! j)" for j
    unfolding p length_list_update by (rule d(2))
  have c7: "int (length (filter (\<lambda>i. pk_host (?ks ! i) = host) open_peers)) \<le> li_max_peers_per_ip l" for host
    unfolding p by (rule d(7))
  show ?thesis
    by (rule tables_okI) (rule d(1), rule c2, simp add: d(3), erule c4, erule (1) c5, rule d(6), rule c7, erule (1) c8, erule (1) c9)
qed

lemma tables_finish:
  assumes t: "tables_ok P own l ks open_peers nodes" and i: "i < length ks"
  shows "tables_ok P own l (ks[i := (ks ! i)\<lparr>pk_early := False\<rparr>]) open_peers nodes"
proof -
  let ?ks = "ks[i := (ks ! i)\<lparr>pk_early := False\<rparr>]"
  note d = tables_okD [OF t]
  have p: "pk_closed (?ks ! j) = pk_closed (ks ! j)" "pk_host (?ks ! j) = pk_host (ks ! j)" "pk_peer (?ks ! j) = pk_peer (ks ! j)" for j
    using i by (cases "j = i"; simp)+
  have k: "\<exists>k' \<in> set ks. pk_peer k = pk_peer k' \<and> (pk_early k \<longrightarrow> pk_early k')" if "k \<in> set ?ks" for k
    using that set_update_subset_insert [of ks i "(ks ! i)\<lparr>pk_early := False\<rparr>"] i by (force intro: nth_mem)
  have c5: "m \<noteq> own \<and> c = net_chain_id TESTNET \<and> g = genesis_id P"
    if kk: "k \<in> set ?ks" "pk_peer k = Some (m, c, g)" for k m c g
  proof -
    obtain k' where "k' \<in> set ks" "pk_peer k' = Some (m, c, g)" using k [OF kk(1)] kk(2) by auto
    then show ?thesis by (rule d(5))
  qed
  have c9: "pk_peer k = None" if kk: "k \<in> set ?ks" "pk_early k" for k
  proof -
    obtain k' where "k' \<in> set ks" "pk_peer k = pk_peer k'" "pk_early k'" using k [OF kk(1)] kk(2) by auto
    then show ?thesis using d(9) by simp
  qed
  have c2: "j \<in> set open_peers \<longleftrightarrow> j < length ?ks \<and> \<not> pk_closed (?ks ! j)" for j
    unfolding p length_list_update by (rule d(2))
  have c4: "j < length ?ks \<and> (\<exists>x. pk_peer (?ks ! j) = Some (m, x))" if "map_of nodes m = Some j" for m j
    unfolding p length_list_update using that by (rule d(4))
  have c7: "int (length (filter (\<lambda>i. pk_host (?ks ! i) = host) open_peers)) \<le> li_max_peers_per_ip l" for host
    unfolding p by (rule d(7))
  have c8: "map_of nodes m = Some j" if "j \<in> set open_peers" "pk_peer (?ks ! j) = Some (m, x)" for j m x
    using that unfolding p by (rule d(8))
  show ?thesis
    by (rule tables_okI) (rule d(1), rule c2, rule d(3), erule c4, erule (1) c5, rule d(6), rule c7, erule (1) c8, erule (1) c9)
qed

lemma handshake_ok:
  assumes P: "platform_ok P" and ok: "p2p_ok P st" and i: "i < length (pn_objects st)" "pc_phase (conn st i) = Awaiting_Hello"
    and h: "complete_handshake P i h st = (Inr u, st')"
  shows "st' = st\<lparr>pn_by_node_id := AList.update (he_node_id h) i (pn_by_node_id st)\<rparr> \<and> p2p_ok P (handshake_state i h st)
    \<and> he_chain_id h = net_chain_id TESTNET \<and> he_genesis_hash h = genesis_id P \<and> he_node_id h \<noteq> pn_node_id st"
proof -
  let ?ks = "map peer_key_of (pn_objects st)"
  have t: "tables_ok P (pn_node_id st) (pn_limits st) ?ks (pn_connections st) (pn_by_node_id st)"
    using ok by (simp add: p2p_ok_def)
  note d = tables_okD [OF t]
  have "?ks ! i \<in> set ?ks" using i(1) by (intro nth_mem) simp
  moreover have "pk_early (?ks ! i)" using i by (simp add: peer_key_of_def)
  ultimately have "pk_peer (?ks ! i) = None" by (rule d(9))
  with i(1) have k: "i < length ?ks" "pk_peer (?ks ! i) = None" by simp_all
  have hs: "he_chain_id h = net_chain_id TESTNET" "he_genesis_hash h = genesis_id P" "he_node_id h \<noteq> pn_node_id st"
      "st' = st\<lparr>pn_by_node_id := AList.update (he_node_id h) i (pn_by_node_id st)\<rparr>"
    and e: "case map_of (pn_by_node_id st) (he_node_id h) of None \<Rightarrow> True | Some j \<Rightarrow> j = i \<or> pc_closed (conn st j)"
    using h own_hello_spec [OF P ok]
    by (auto simp: complete_handshake_def and_then_def reads_state_def fail_def ret_def split: if_splits option.splits)
  have f: "pk_peer (?ks ! j) \<noteq> Some (he_node_id h, x)" if j: "j \<in> set (pn_connections st)" for j x
  proof
    assume x: "pk_peer (?ks ! j) = Some (he_node_id h, x)"
    then have "map_of (pn_by_node_id st) (he_node_id h) = Some j" by (rule d(8) [OF j])
    moreover have "j < length ?ks" "\<not> pk_closed (?ks ! j)" using d(2) j by blast+
    then have "\<not> pc_closed (conn st j)" by (simp add: peer_key_of_def)
    ultimately have "j = i" using e by simp
    then show False using x k(2) by simp
  qed
  have ks: "map peer_key_of (pn_objects (handshake_state i h st))
      = ?ks[i := (?ks ! i)\<lparr>pk_early := False, pk_peer := Some (he_node_id h, net_chain_id TESTNET, genesis_id P)\<rparr>]"
    using i(1) hs(1,2) by (simp add: handshake_state_def set_conn_def map_update peer_key_of_def)
  have "p2p_ok P (handshake_state i h st)"
    using tables_join [OF t k hs(3) f] ok ks by (simp add: p2p_ok_def handshake_state_def)
  then show ?thesis using hs by blast
qed

lemma run_finally_ok:
  assumes ok: "p2p_ok_at P i st"
  shows "p2p_ok_at P i (run_finally i st)"
proof -
  let ?ks = "map peer_key_of (pn_objects st)" and ?f = "\<lambda>c. c\<lparr>pc_handshake_complete := True, pc_phase := Finished\<rparr>"
  have i: "i < length (pn_objects st)" using ok by (simp add: p2p_ok_at_def)
  have t: "tables_ok P (pn_node_id st) (pn_limits st) ?ks (pn_connections st) (pn_by_node_id st)"
    using ok by (simp add: p2p_ok_at_def p2p_ok_def)
  have "map peer_key_of (pn_objects (set_conn i ?f st)) = ?ks[i := (?ks ! i)\<lparr>pk_early := False\<rparr>]"
    using i by (simp add: set_conn_def map_update peer_key_of_def)
  then have "p2p_ok_at P i (set_conn i ?f st)"
    using tables_finish [OF t] ok i by (simp add: p2p_ok_at_def p2p_ok_def)
  then show ?thesis unfolding run_finally_def by (rule close_at_ok) (simp add: i)
qed


lemma stop_server_ok: "p2p_ok P st \<Longrightarrow> p2p_ok P (stop_server st)"
  by (simp add: stop_server_def p2p_ok_def)

lemma close_connections_ok:
  "p2p_ok P st \<Longrightarrow> \<forall>i \<in> set is. i < length (pn_objects st) \<Longrightarrow>
     p2p_ok P (close_connections is st) \<and> length (pn_objects (close_connections is st)) = length (pn_objects st)"
  unfolding close_connections_def by (induction "is" arbitrary: st) (auto simp: close_ok)

lemma cancel_tasks_ok: "p2p_ok P st \<Longrightarrow> p2p_ok P (cancel_tasks is st)"
  unfolding cancel_tasks_def
proof (induction "is" arbitrary: st)
  case (Cons i "is")
  let ?ks = "map peer_key_of (pn_objects st)"
  let ?f = "\<lambda>c. c\<lparr>pc_handshake_complete := pc_handshake_complete c \<or> pc_phase c \<noteq> Starting, pc_phase := Finished\<rparr>"
  have "p2p_ok P (set_conn i ?f st)"
  proof (cases "i < length (pn_objects st)")
    case True
    then have "map peer_key_of (pn_objects (set_conn i ?f st)) = ?ks[i := (?ks ! i)\<lparr>pk_early := False\<rparr>]"
      by (simp add: set_conn_def map_update peer_key_of_def)
    then show ?thesis using tables_finish [of _ _ _ ?ks _ _ i] Cons.prems True by (simp add: p2p_ok_def)
  qed (use Cons.prems in \<open>simp add: set_conn_def p2p_ok_def list_update_beyond\<close>)
  then show ?case using Cons.IH by simp
qed simp

lemma start_p2p_ok: "p2p_ok P st \<Longrightarrow> p2p_ok P (snd (start_p2p ip sockets st))"
proof -
  assume "p2p_ok P st"
  moreover from this have "p2p_ok P (st\<lparr>pn_running := True\<rparr>)" "p2p_ok P (st\<lparr>pn_running := True, pn_port := p\<rparr>)" for p
    by (simp_all add: p2p_ok_def)
  ultimately show ?thesis
    by (auto simp: start_p2p_def Let_def fail_def ret_def split: list.splits prod.splits)
qed

subsection \<open>Strengthening a kept property\<close>

lemma node_keeps_conj:
  assumes n: "node_keeps P I"
    and "\<And>st nd. I st \<Longrightarrow> J st \<Longrightarrow> node_step P (pn_local_node st) nd \<Longrightarrow> J (st\<lparr>pn_local_node := nd\<rparr>)"
    and "\<And>st f j. I st \<Longrightarrow> J st \<Longrightarrow> peer_key_of (f (conn st j)) = peer_key_of (conn st j) \<Longrightarrow> J (set_conn j f st)"
    and "\<And>st j. I st \<Longrightarrow> J st \<Longrightarrow> j < length (pn_objects st) \<Longrightarrow> J (close_connection j st)"
  shows "node_keeps P (\<lambda>st. I st \<and> J st)"
proof -
  note facts = node_keeps.local_step [OF n] node_keeps.conn_step [OF n] node_keeps.in_range [OF n] node_keeps.close_step [OF n]
  show ?thesis by (rule node_keeps.intro) (use facts assms(2-4) in blast)+
qed

lemma task_keeps_conj:
  assumes t: "task_keeps P I i now" and "node_keeps P (\<lambda>st. I st \<and> J st)"
    and "\<And>st points. I st \<Longrightarrow> J st \<Longrightarrow> 0 \<le> points \<Longrightarrow> J (snd (penalize i points now st))"
    and "\<And>st h. I st \<Longrightarrow> J st \<Longrightarrow> J (handshake_state i h st)"
    and "\<And>st. I st \<Longrightarrow> J st \<Longrightarrow> J (run_finally i st)"
  shows "task_keeps P (\<lambda>st. I st \<and> J st) i now"
proof (intro task_keeps.intro task_keeps_axioms.intro)
  show "I (handshake_state i h st) \<and> J (handshake_state i h st)"
    if "I st \<and> J st" "pc_phase (conn st i) = Awaiting_Hello" "complete_handshake P i h st = (Inr u, st')" for st h u st'
    using that task_keeps.joining [OF t] assms(4) by blast
  show "I (snd (penalize i points now st)) \<and> J (snd (penalize i points now st))" if "I st \<and> J st" "0 \<le> points" for st points
    using that task_keeps.penalty [OF t] assms(3) by blast
  show "0 \<le> li_score_disconnect_threshold (pn_limits st)" if "I st \<and> J st" for st
    using that task_keeps.threshold [OF t] by blast
qed (use assms task_keeps.exists [OF t] task_keeps.finishing [OF t] in blast)+

subsection \<open>The invariant of the tables\<close>

lemma p2p_ok_local_step: "p2p_ok P st \<Longrightarrow> node_step P (pn_local_node st) nd \<Longrightarrow> p2p_ok P (st\<lparr>pn_local_node := nd\<rparr>)"
  using reach_step by (auto simp: p2p_ok_def node_reachable_def)

lemma open_in_range: "p2p_ok P st \<Longrightarrow> j \<in> set (pn_connections st) \<Longrightarrow> j < length (pn_objects st)"
  using tables_okD(2) unfolding p2p_ok_def by fastforce

lemma threshold_positive: "p2p_ok P st \<Longrightarrow> 0 \<le> li_score_disconnect_threshold (pn_limits st)"
  by (simp add: p2p_ok_def bans_ok_def)

interpretation tables: node_keeps P "\<lambda>st. platform_ok P \<and> p2p_ok P st" for P
proof unfold_locales
  show "platform_ok P \<and> p2p_ok P (set_conn j f st)"
    if "platform_ok P \<and> p2p_ok P st" "peer_key_of (f (conn st j)) = peer_key_of (conn st j)" for st f j
    using that p2p_ok_set_conn by blast
qed (auto simp: p2p_ok_local_step open_in_range close_ok)

lemma handshake_at_ok:
  assumes "platform_ok P \<and> p2p_ok_at P i st" and "pc_phase (conn st i) = Awaiting_Hello"
    and "complete_handshake P i h st = (Inr u, st')"
  shows "platform_ok P \<and> p2p_ok_at P i (handshake_state i h st)"
  using handshake_ok [of P st i h u st'] assms
  by (simp add: p2p_ok_at_def) (simp add: handshake_state_def)

interpretation task_tables: task_keeps P "\<lambda>st. platform_ok P \<and> p2p_ok_at P i st" i now for P i now
proof unfold_locales
  show "platform_ok P \<and> p2p_ok_at P i (set_conn j f st)"
    if "platform_ok P \<and> p2p_ok_at P i st" "peer_key_of (f (conn st j)) = peer_key_of (conn st j)" for st f j
    using that p2p_ok_at_set_conn by blast
  show "platform_ok P \<and> p2p_ok_at P i (handshake_state i h st)"
    if "platform_ok P \<and> p2p_ok_at P i st" "pc_phase (conn st i) = Awaiting_Hello"
      "complete_handshake P i h st = (Inr u, st')" for st h u st'
    using that by (rule handshake_at_ok)
qed (auto simp: p2p_ok_at_def p2p_ok_local_step open_in_range close_at_ok [unfolded p2p_ok_at_def] penalize_ok close_ok
      run_finally_ok [unfolded p2p_ok_at_def] threshold_positive)

subsection \<open>Runs\<close>

text \<open>
  A state with the time of its last change. The rules, in order: an incoming connection; the three parts of
  \<open>connect\<close>; a step of a task; bytes arrive for a connection or its peer hangs up; a socket's writes start to
  block, fail or flow again; sends of other tasks come to wait for a socket or have gone through; the caller uses
  the local node, mines, broadcasts, starts or stops the server, closes connections or cancels tasks.
\<close>

inductive p2p_step :: "platform \<Rightarrow> (pystr \<Rightarrow> ip option) \<Rightarrow> rat \<times> p2p_node \<Rightarrow> rat \<times> p2p_node \<Rightarrow> bool" for P ip where
  step_accept: "t \<le> now \<Longrightarrow> p2p_step P ip (t, st) (now, accept ip peername now st)"
| step_connect_check: "t \<le> now \<Longrightarrow> p2p_step P ip (t, st) (now, snd (connect_check host port now st))"
| step_connect_opened: "t \<le> now \<Longrightarrow> p2p_step P ip (t, st) (now, snd (connect_opened ip peername now st))"
| step_connect_finish: "i < length (pn_objects st) \<Longrightarrow> p2p_step P ip (t, st) (t, snd (connect_finish i st))"
| step_task: "t \<le> now \<Longrightarrow> i < length (pn_objects st) \<Longrightarrow> p2p_step P ip (t, st) (now, snd (run_task P i now drawn st))"
| step_woken: "t \<le> now \<Longrightarrow> i < length (pn_objects st) \<Longrightarrow> p2p_step P ip (t, st) (now, snd (run_waiting P i now drawn st))"
| step_arrival: "\<not> ps_closed (pc_reader (conn st i)) \<Longrightarrow>
    p2p_step P ip (t, st) (t, set_conn i (pc_reader_update (\<lambda>s. s\<lparr>ps_data := ps_data s @ bs\<rparr>)) st)"
| step_hang_up: "p2p_step P ip (t, st) (t, set_conn i (pc_reader_update (\<lambda>s. s\<lparr>ps_closed := True\<rparr>)) st)"
| step_socket: "p2p_step P ip (t, st) (t, set_conn i (pc_writer_update (\<lambda>_. w)) st)"
| step_sends: "0 \<le> n \<Longrightarrow> p2p_step P ip (t, st) (t, set_conn i (pc_pending_sends_update (\<lambda>_. n)) st)"
| step_local: "node_step P (pn_local_node st) nd \<Longrightarrow> p2p_step P ip (t, st) (t, st\<lparr>pn_local_node := nd\<rparr>)"
| step_mine_and_broadcast: "p2p_step P ip (t, st) (t, snd (mine_and_broadcast P miner timestamp mx attempts st))"
| step_broadcast_transaction: "p2p_step P ip (t, st) (t, snd (broadcast_transaction P tx None st))"
| step_broadcast_block: "p2p_step P ip (t, st) (t, snd (broadcast_block P b None st))"
| step_start: "p2p_step P ip (t, st) (t, snd (start_p2p ip sockets st))"
| step_stop: "p2p_step P ip (t, st) (t, stop_server st)"
| step_close: "set is \<subseteq> set (pn_connections st) \<Longrightarrow> p2p_step P ip (t, st) (t, close_connections is st)"
| step_cancel: "p2p_step P ip (t, st) (t, cancel_tasks is st)"

inductive_cases p2p_stepE: "p2p_step P ip (t, st) (t', st')"

definition p2p_start :: "platform \<Rightarrow> rat \<times> p2p_node \<Rightarrow> bool" where
  "p2p_start P = (\<lambda>(t, st). \<exists>nd host port limits node_id drawn. node_reachable P nd
     \<and> new_peer_limits (case limits of None \<Rightarrow> default_limits | Some l \<Rightarrow> l) = Inr (pn_limits st)
     \<and> new_p2p_node nd host port limits node_id drawn = Inr st)"

definition p2p_reachable :: "platform \<Rightarrow> (pystr \<Rightarrow> ip option) \<Rightarrow> rat \<times> p2p_node \<Rightarrow> bool" where
  "p2p_reachable P ip = reach (p2p_start P) (p2p_step P ip)"

lemma p2p_start_ok: "p2p_start P (t, st) \<Longrightarrow> p2p_ok P st"
  by (auto simp: p2p_start_def new_p2p_node_def new_peer_limits_def Let_def p2p_ok_def tables_ok_def bans_ok_def
      dict_ok_def dict_get_def split: if_splits)

lemma p2p_step_ok:
  assumes P: "platform_ok P" and s: "p2p_step P ip (t, st) (t', st')" and ok: "p2p_ok P st"
  shows "p2p_ok P st'"
proof -
  have k: "p2p_ok P (snd (m st))" if "keeps (\<lambda>st. platform_ok P \<and> p2p_ok P st) m" for m :: "('a, p2p_node) operation"
    using keepsD [OF that] P ok by blast
  have "p2p_ok P (snd (run_task P i now drawn st)) \<and> p2p_ok P (snd (run_waiting P i now drawn st))"
    if "i < length (pn_objects st)" for i now drawn
    using task_tables.run_task_ok [of P i st now drawn] task_tables.run_waiting_ok [of P i st now drawn] P ok that
    by (simp add: p2p_ok_at_def)
  moreover have "p2p_ok P (close_connections is st)" if "set is \<subseteq> set (pn_connections st)" for "is"
    using close_connections_ok [OF ok] open_in_range [OF ok] that by blast
  ultimately show ?thesis using s
    by (cases rule: p2p_stepE)
       (auto simp: accept_ok ok connect_check_ok connect_opened_ok connect_finish_ok start_p2p_ok p2p_ok_local_step
          stop_server_ok cancel_tasks_ok
          tables.keeps_mine [THEN k] tables.keeps_broadcast [THEN k] peer_key_of_def intro!: p2p_ok_set_conn)
qed

lemma p2p_reachable_ok: "platform_ok P \<Longrightarrow> p2p_reachable P ip (t, st) \<Longrightarrow> p2p_ok P st"
proof -
  assume P: "platform_ok P"
  have "case x of (t, st) \<Rightarrow> p2p_ok P st" if "reach (p2p_start P) (p2p_step P ip) x" for x
    using that by (induction rule: reach.induct) (auto simp: p2p_start_ok p2p_step_ok [OF P] split: prod.splits)
  then show "p2p_reachable P ip (t, st) \<Longrightarrow> p2p_ok P st" by (auto simp: p2p_reachable_def)
qed

lemma p2p_run_ok:
  assumes P: "platform_ok P" and "(p2p_step P ip)\<^sup>*\<^sup>* x y" and "p2p_ok P (snd x)"
  shows "p2p_ok P (snd y) \<and> fst x \<le> fst y"
  using assms(2,3)
proof (induction rule: rtranclp_induct)
  case (step y z)
  then show ?case using p2p_step_ok [OF P, of ip "fst y" "snd y" "fst z" "snd z"]
    by (cases y; cases z) (auto elim: p2p_stepE)
qed simp

subsection \<open>Blocks and work are never lost\<close>

definition tip_work :: "chain \<Rightarrow> int" where
  "tip_work c = br_cumulative_work (en_record (tip_entry c))"

definition chain_grows :: "chain \<Rightarrow> chain \<Rightarrow> bool" where
  "chain_grows c c' \<longleftrightarrow> map_of (ch_entries c) \<subseteq>\<^sub>m map_of (ch_entries c') \<and> tip_work c \<le> tip_work c'"

lemma chain_grows_refl [simp]: "chain_grows c c"
  by (simp add: chain_grows_def)

lemma chain_grows_trans: "chain_grows a b \<Longrightarrow> chain_grows b c \<Longrightarrow> chain_grows a c"
  using map_le_trans by (fastforce simp: chain_grows_def)

lemma add_block_grows:
  assumes c: "chain_ok P c" shows "chain_grows c (snd (add_block P b c))"
  using add_block_spec [OF c, of b]
proof (elim disjE exE conjE)
  fix h e u c' assume m: "make_entry P b c = Inr (h, e)" and a: "add_block P b c = (Inr u, c')" and u: "update_ok c h e c' u"
  have c': "chain_ok P c'" by (rule add_block_ok [OF c a])
  have f: "map_of (ch_entries c) h = None" using make_entry_spec [OF chain_okD(1) [OF c] m] by blast
  then have x: "map_of (ch_entries c) \<subseteq>\<^sub>m map_of (ch_entries c')"
    using u by (auto simp: update_ok_def map_le_def update_conv')
  have "map_of (ch_entries c) (ch_tip c) = Some (tip_entry c)" by (rule tip_facts(9) [OF c])
  then have "map_of (ch_entries c') (ch_tip c) = Some (tip_entry c)" using x by (auto simp: map_le_def dom_def)
  then have "tip_work c \<le> tip_work c'"
    using c' tip_facts(9) [OF c'] by (auto simp: chain_ok_def tip_heaviest_def tip_work_def)
  then show ?thesis using a x by (simp add: chain_grows_def)
qed simp

lemma submit_block_grows:
  assumes P: "platform_ok P" and nd: "node_ok P nd"
  shows "chain_grows (nd_chain nd) (nd_chain (snd (submit_block P b nd)))"
  using submit_block_spec [OF P nd, of b] add_block_grows [OF node_chain_ok [OF P nd], of b] by auto

lemma node_step_grows:
  assumes P: "platform_ok P" and nd: "node_ok P nd" and s: "node_step P nd nd'"
  shows "chain_grows (nd_chain nd) (nd_chain nd')"
  using s
proof (cases rule: node_step.cases)
  case (step_submit_transaction t)
  then show ?thesis using submit_transaction_spec [OF P nd, of t] by (metis chain_grows_refl prod.collapse)
next
  case (step_send name k w recipient amount fee blocks)
  then show ?thesis using send_spec [OF P nd] by (metis chain_grows_refl prod.collapse)
next
  case (step_submit_block b)
  then show ?thesis using submit_block_grows [OF P nd] by simp
next
  case (step_mine miner timestamp mx attempts)
  then show ?thesis using mine_steps [of P miner timestamp mx attempts nd] submit_block_grows [OF P nd] by auto
qed

lemma local_node_kept [simp]:
  "pn_local_node (close_connection j st) = pn_local_node st" "pn_local_node (snd (penalize j points now st)) = pn_local_node st"
  "pn_local_node (handshake_state j h st) = pn_local_node st" "pn_local_node (run_finally j st) = pn_local_node st"
  "pn_local_node (add_connection host port outbound st) = pn_local_node st"
  by (simp_all add: close_connection_def remove_connection_def penalize_def handshake_state_def run_finally_def add_connection_def
      fail_def ret_def Let_def split: option.splits)

lemma fold_local_node: "(\<And>i st. pn_local_node (f i st) = pn_local_node st) \<Longrightarrow> pn_local_node (fold f is st) = pn_local_node st"
  by (induction "is" arbitrary: st) auto

lemma closing_local_node [simp]:
  "pn_local_node (stop_server st) = pn_local_node st" "pn_local_node (close_connections is st) = pn_local_node st"
  "pn_local_node (cancel_tasks is st) = pn_local_node st"
  by (simp_all add: stop_server_def close_connections_def cancel_tasks_def fold_local_node)

lemma can_accept_local_node [simp]: "pn_local_node (snd (can_accept host now st)) = pn_local_node st"
  by (simp add: can_accept_def Let_def)

lemma admission_local_node [simp]:
  "pn_local_node (accept ip peername now st) = pn_local_node st"
  "pn_local_node (snd (connect_check host port now st)) = pn_local_node st"
  "pn_local_node (snd (connect_opened ip peername now st)) = pn_local_node st"
  "pn_local_node (snd (connect_finish i st)) = pn_local_node st"
  "pn_local_node (snd (start_p2p ip sockets st)) = pn_local_node st"
proof -
  show "pn_local_node (accept ip peername now st) = pn_local_node st"
    by (simp add: accept_def prod.case_eq_if split: option.split bool.split)
  show "pn_local_node (snd (connect_check host port now st)) = pn_local_node st"
    by (simp add: connect_check_def fail_def ret_def prod.case_eq_if split: bool.split)
  show "pn_local_node (snd (connect_opened ip peername now st)) = pn_local_node st"
    by (simp add: connect_opened_def fail_def ret_def prod.case_eq_if split: option.split bool.split)
  show "pn_local_node (snd (connect_finish i st)) = pn_local_node st"
    by (simp add: connect_finish_def fail_def ret_def split: option.splits)
  show "pn_local_node (snd (start_p2p ip sockets st)) = pn_local_node st"
    by (simp add: start_p2p_def Let_def fail_def ret_def split: list.splits prod.splits)
qed

lemma p2p_node_ok: "platform_ok P \<Longrightarrow> p2p_ok P st \<Longrightarrow> node_ok P (pn_local_node st)"
  using node_reachable_ok by (simp add: p2p_ok_def)

text \<open>Between two states of the peer node the local node has taken some of its own steps.\<close>

interpretation local_runs: node_keeps P "\<lambda>st. (platform_ok P \<and> p2p_ok P st) \<and> (node_step P)\<^sup>*\<^sup>* nd0 (pn_local_node st)" for P nd0
  by (rule node_keeps_conj [OF tables.node_keeps_axioms]) (auto intro: rtranclp.rtrancl_into_rtrancl)

interpretation task_local_runs: task_keeps P
  "\<lambda>st. (platform_ok P \<and> p2p_ok_at P i st) \<and> (node_step P)\<^sup>*\<^sup>* nd0 (pn_local_node st)" i now for P i now nd0
  by (rule task_keeps_conj [OF task_tables.task_keeps_axioms], rule node_keeps_conj [OF task_tables.node_keeps_axioms])
     (auto intro: rtranclp.rtrancl_into_rtrancl)

lemma p2p_step_local:
  assumes P: "platform_ok P" and s: "p2p_step P ip (t, st) (t', st')" and ok: "p2p_ok P st"
  shows "(node_step P)\<^sup>*\<^sup>* (pn_local_node st) (pn_local_node st')"
proof -
  let ?nd = "pn_local_node st"
  have k: "(node_step P)\<^sup>*\<^sup>* ?nd (pn_local_node (snd (m st)))"
    if "keeps (\<lambda>st. (platform_ok P \<and> p2p_ok P st) \<and> (node_step P)\<^sup>*\<^sup>* ?nd (pn_local_node st)) m" for m :: "('a, p2p_node) operation"
    using keepsD [OF that] P ok by simp
  have "(node_step P)\<^sup>*\<^sup>* ?nd (pn_local_node (snd (run_task P i now drawn st)))
      \<and> (node_step P)\<^sup>*\<^sup>* ?nd (pn_local_node (snd (run_waiting P i now drawn st)))"
    if "i < length (pn_objects st)" for i now drawn
    using task_local_runs.run_task_ok [of P i st ?nd now drawn] task_local_runs.run_waiting_ok [of P i st ?nd now drawn] P ok that
    by (simp add: p2p_ok_at_def)
  then show ?thesis using s
    by (cases rule: p2p_stepE)
       (auto simp: local_runs.keeps_mine [THEN k] local_runs.keeps_broadcast [THEN k])
qed

lemma p2p_run_local:
  assumes P: "platform_ok P" and "(p2p_step P ip)\<^sup>*\<^sup>* x y" and "p2p_ok P (snd x)"
  shows "(node_step P)\<^sup>*\<^sup>* (pn_local_node (snd x)) (pn_local_node (snd y))"
  using assms(2,3)
proof (induction rule: rtranclp_induct)
  case (step y z)
  have "p2p_ok P (snd y)" using p2p_run_ok [OF P step(1,4)] by blast
  then show ?case
    using step p2p_step_local [OF P, of ip "fst y" "snd y" "fst z" "snd z"] by (simp add: rtranclp_trans)
qed simp

lemma node_run_grows:
  assumes P: "platform_ok P" and "(node_step P)\<^sup>*\<^sup>* nd nd'" and "node_ok P nd"
  shows "node_ok P nd' \<and> chain_grows (nd_chain nd) (nd_chain nd')"
  using assms(2,3)
proof (induction rule: rtranclp_induct)
  case (step nd1 nd2)
  then show ?case using node_step_grows [OF P] node_machine.step_inv [of P] P chain_grows_trans by blast
qed simp

lemma p2p_step_grows:
  assumes "platform_ok P" and "p2p_step P ip (t, st) (t', st')" and "p2p_ok P st"
  shows "chain_grows (nd_chain (pn_local_node st)) (nd_chain (pn_local_node st'))"
  using node_run_grows [OF assms(1) p2p_step_local [OF assms] p2p_node_ok [OF assms(1,3)]] by blast

lemma p2p_run_grows:
  assumes "platform_ok P" and "(p2p_step P ip)\<^sup>*\<^sup>* x y" and "p2p_ok P (snd x)"
  shows "chain_grows (nd_chain (pn_local_node (snd x))) (nd_chain (pn_local_node (snd y)))"
  using node_run_grows [OF assms(1) p2p_run_local [OF assms] p2p_node_ok [OF assms(1,3)]] by blast

subsection \<open>Bans\<close>

definition open_on :: "pystr \<Rightarrow> p2p_node \<Rightarrow> nat set" where
  "open_on host st = {i \<in> set (pn_connections st). pc_host (conn st i) = host}"

text \<open>A ban of \<open>host\<close> that lasts at least until \<open>u\<close>, with no connection to it outside \<open>H\<close>.\<close>

definition ban_kept :: "pystr \<Rightarrow> rat \<Rightarrow> nat set \<Rightarrow> p2p_node \<Rightarrow> bool" where
  "ban_kept host u H st \<longleftrightarrow> (\<exists>v. map_of (pn_banned_until st) host = Some v \<and> u \<le> v) \<and> open_on host st \<subseteq> H"

lemma host_set_conn:
  assumes "pc_host (f (conn st j)) = pc_host (conn st j)"
  shows "pc_host (conn (set_conn j f st) i) = pc_host (conn st i)"
proof (cases "i = j \<and> j < length (pn_objects st)")
  case False
  then have "conn (set_conn j f st) i = conn st i"
    by (cases "i = j") (simp_all add: set_conn_def list_update_beyond)
  then show ?thesis by simp
qed (use assms in simp)

lemma open_on_set_conn [simp]:
  "pc_host (f (conn st j)) = pc_host (conn st j) \<Longrightarrow> open_on host (set_conn j f st) = open_on host st"
  by (simp add: open_on_def host_set_conn)

lemma open_on_fields [simp]:
  "open_on host (st\<lparr>pn_local_node := nd\<rparr>) = open_on host st" "open_on host (st\<lparr>pn_by_node_id := d\<rparr>) = open_on host st"
  "open_on host (st\<lparr>pn_scores := s\<rparr>) = open_on host st" "open_on host (st\<lparr>pn_host_scores := hs\<rparr>) = open_on host st"
  "open_on host (st\<lparr>pn_banned_until := b\<rparr>) = open_on host st" "open_on host (st\<lparr>pn_running := r\<rparr>) = open_on host st"
  "open_on host (st\<lparr>pn_port := p\<rparr>) = open_on host st"
  by (simp_all add: open_on_def)

lemma close_kept:
  "open_on host (close_connection j st) \<subseteq> open_on host st \<and> pn_banned_until (close_connection j st) = pn_banned_until st"
proof -
  have "open_on host (remove_connection j st) \<subseteq> open_on host st" "pn_banned_until (remove_connection j st) = pn_banned_until st" for st
    by (auto simp: remove_connection_def Let_def open_on_def split: option.splits)
  then have "open_on host (remove_connection j (set_conn j (pc_closed_update (\<lambda>_. True)) st)) \<subseteq> open_on host st"
    using open_on_set_conn [of "pc_closed_update (\<lambda>_. True)" st j host] by (metis connection.select_convs(1) connection.surjective connection.update_convs(6))
  with \<open>\<And>st. pn_banned_until (remove_connection j st) = pn_banned_until st\<close> show ?thesis by (simp add: close_connection_def)
qed

lemma ban_kept_close: "ban_kept host u H st \<Longrightarrow> ban_kept host u H (close_connection j st)"
  using close_kept [of host j st] by (auto simp: ban_kept_def)

lemma ban_kept_set_conn:
  "ban_kept host u H st \<Longrightarrow> pc_host (f (conn st j)) = pc_host (conn st j) \<Longrightarrow> ban_kept host u H (set_conn j f st)"
  by (simp add: ban_kept_def)

lemma ban_kept_local: "ban_kept host u H st \<Longrightarrow> ban_kept host u H (st\<lparr>pn_local_node := nd\<rparr>)"
  by (simp add: ban_kept_def)

lemma ban_kept_penalize:
  assumes "ban_kept host u H st" and "u \<le> now + BAN_SECONDS" shows "ban_kept host u H (snd (penalize j points now st))"
proof -
  have "open_on host (snd (penalize j points now st)) = open_on host st"
    by (simp add: penalize_def Let_def fail_def ret_def split: option.splits)
  moreover have "\<exists>v. map_of (pn_banned_until (snd (penalize j points now st))) host = Some v \<and> u \<le> v"
    using assms by (auto simp: ban_kept_def penalize_def Let_def fail_def ret_def update_conv' split: option.splits)
  ultimately show ?thesis using assms(1) by (simp add: ban_kept_def)
qed

lemma ban_kept_handshake: "ban_kept host u H st \<Longrightarrow> ban_kept host u H (handshake_state j h st)"
  unfolding handshake_state_def by (intro ban_kept_set_conn) (simp_all add: ban_kept_def)

lemma ban_kept_finally: "ban_kept host u H st \<Longrightarrow> ban_kept host u H (run_finally j st)"
  unfolding run_finally_def by (intro ban_kept_close ban_kept_set_conn) simp_all

lemma host_of_key: "peer_key_of c = peer_key_of c' \<Longrightarrow> pc_host c = pc_host c'"
  by (simp add: peer_key_of_def)

interpretation bans: node_keeps P "\<lambda>st. (platform_ok P \<and> p2p_ok P st) \<and> ban_kept host u H st" for P host u H
  by (rule node_keeps_conj [OF tables.node_keeps_axioms])
     (auto intro: ban_kept_local ban_kept_close ban_kept_set_conn host_of_key)

interpretation task_bans: task_keeps P
  "\<lambda>st. (platform_ok P \<and> p2p_ok_at P i st) \<and> (u \<le> now + BAN_SECONDS \<longrightarrow> ban_kept host u H st)" i now for P i now host u H
  by (rule task_keeps_conj [OF task_tables.task_keeps_axioms], rule node_keeps_conj [OF task_tables.node_keeps_axioms])
     (auto intro: ban_kept_local ban_kept_close ban_kept_set_conn host_of_key ban_kept_penalize ban_kept_handshake ban_kept_finally)

text \<open>A banned host is turned away, and admitting others leaves its ban alone.\<close>

lemma can_accept_banned:
  assumes b: "ban_kept host u H st" and t: "now < u" and a: "can_accept host' now st = (ok, st')"
  shows "ban_kept host u H st' \<and> (ok \<longrightarrow> host' \<noteq> host)"
proof -
  obtain v where v: "map_of (pn_banned_until st) host = Some v" "now < v" "u \<le> v" using b t by (auto simp: ban_kept_def)
  have "map_of (pn_banned_until st') host = Some v"
    using a v by (auto simp: can_accept_def Let_def dict_get_def delete_conv' split: if_splits)
  moreover have "open_on host st' = open_on host st" using a by (auto simp: can_accept_def Let_def split: if_splits)
  moreover have "\<not> ok" if "host' = host"
    using a v that by (auto simp: can_accept_def Let_def dict_get_def split: if_splits)
  ultimately show ?thesis using b v(3) by (auto simp: ban_kept_def)
qed

lemma ban_kept_add:
  assumes "ban_kept host u H st" and "host' \<noteq> host" and "\<forall>i \<in> set (pn_connections st). i < length (pn_objects st)"
  shows "ban_kept host u H (add_connection host' port outbound st)"
proof -
  have "open_on host (add_connection host' port outbound st) = open_on host st"
    using assms(2,3) by (auto simp: open_on_def add_connection_def nth_append new_connection_def)
  then show ?thesis using assms(1) by (simp add: ban_kept_def) (simp add: add_connection_def)
qed

lemma can_accept_range:
  "p2p_ok P st \<Longrightarrow> can_accept host now st = (b, st') \<Longrightarrow> \<forall>i \<in> set (pn_connections st'). i < length (pn_objects st')"
  using can_accept_spec [of P st host now b st'] open_in_range [of P st] by simp

lemma ban_kept_admission:
  assumes b: "ban_kept host u H st" and t: "now < u" and ok: "p2p_ok P st"
  shows "ban_kept host u H (accept ip peername now st)" "ban_kept host u H (snd (connect_check h port now st))"
    "ban_kept host u H (snd (connect_opened ip peername now st))"
  using b can_accept_banned [OF b t] ban_kept_add can_accept_range [OF ok]
  by (auto simp: accept_def connect_check_def connect_opened_def fail_def ret_def split: option.splits prod.splits bool.splits)

lemma ban_kept_fold:
  "(\<And>i st. ban_kept host u H st \<Longrightarrow> ban_kept host u H (f i st)) \<Longrightarrow> ban_kept host u H st \<Longrightarrow> ban_kept host u H (fold f is st)"
  by (induction "is" arbitrary: st) auto

lemma ban_kept_server:
  assumes "ban_kept host u H st"
  shows "ban_kept host u H (snd (start_p2p ip sockets st))" "ban_kept host u H (snd (connect_finish i st))"
    "ban_kept host u H (stop_server st)" "ban_kept host u H (close_connections is st)" "ban_kept host u H (cancel_tasks is st)"
proof -
  have "ban_kept host u H (st\<lparr>pn_running := True\<rparr>)" using assms by (simp add: ban_kept_def)
  then show "ban_kept host u H (snd (start_p2p ip sockets st))"
    using assms by (auto simp: start_p2p_def Let_def fail_def ret_def ban_kept_def split: list.splits prod.splits)
  show "ban_kept host u H (snd (connect_finish i st))"
    using assms ban_kept_close by (simp add: connect_finish_def fail_def ret_def split: option.splits)
  show "ban_kept host u H (stop_server st)" using assms by (simp add: stop_server_def ban_kept_def)
  show "ban_kept host u H (close_connections is st)" "ban_kept host u H (cancel_tasks is st)"
    unfolding close_connections_def cancel_tasks_def
    by (intro ban_kept_fold ban_kept_close ban_kept_set_conn assms; simp)+
qed

lemma p2p_step_ban:
  assumes P: "platform_ok P" and s: "p2p_step P ip (t, st) (t', st')" and ok: "p2p_ok P st"
    and b: "ban_kept host u H st" and t: "t' < u" "u \<le> t + BAN_SECONDS"
  shows "ban_kept host u H st'"
proof -
  have k: "ban_kept host u H (snd (m st))"
    if "keeps (\<lambda>st. (platform_ok P \<and> p2p_ok P st) \<and> ban_kept host u H st) m" for m :: "('a, p2p_node) operation"
    using keepsD [OF that] P ok b by simp
  have "ban_kept host u H (snd (run_task P i t' drawn st)) \<and> ban_kept host u H (snd (run_waiting P i t' drawn st))"
    if "i < length (pn_objects st)" "t \<le> t'" for i drawn
    using task_bans.run_task_ok [of P i st u t' host H drawn] task_bans.run_waiting_ok [of P i st u t' host H drawn] P ok that b t
    by (simp add: p2p_ok_at_def)
  with s show ?thesis
    by (cases rule: p2p_stepE)
       (auto simp: bans.keeps_mine [THEN k] bans.keeps_broadcast [THEN k] ban_kept_server [OF b] ban_kept_local [OF b]
          ban_kept_admission [OF b t(1) ok] intro!: ban_kept_set_conn [OF b])
qed

lemma p2p_run_ban:
  assumes P: "platform_ok P" and r: "(p2p_step P ip)\<^sup>*\<^sup>* x y" and ok: "p2p_ok P (snd x)"
    and b: "ban_kept host u H (snd x)" and t: "fst y < u" "u \<le> fst x + BAN_SECONDS"
  shows "ban_kept host u H (snd y)"
  using r t(1)
proof (induction rule: rtranclp_induct)
  case (step y z)
  note y = p2p_run_ok [OF P step.hyps(1) ok]
  have m: "fst y \<le> fst z" using step.hyps(2) by (cases y; cases z) (auto elim: p2p_stepE)
  then have "ban_kept host u H (snd y)" using step by simp
  then show ?case
    using p2p_step_ban [OF P, of ip "fst y" "snd y" "fst z" "snd z" host u H] step.hyps(2) y t(2) step.prems by simp
qed (use b in simp)

end
