(* ===== verification/Block_Relay.thy ===== *)
theory Block_Relay
  imports P2p_Protocol Stored_Chain
begin

text \<open>
  What one node's chain means to another's. Every block a chain holds fits a frame and decodes to itself,
  and a chain takes every block that another chain has put on a block it knows.
\<close>

subsection \<open>Sizes\<close>

definition size_within :: "nat \<Rightarrow> bytes res \<Rightarrow> bool" where
  "size_within n r \<longleftrightarrow> (\<forall>p. r = Inr p \<longrightarrow> length p \<le> n)"

lemma size_withinD: "size_within n r \<Longrightarrow> r = Inr p \<Longrightarrow> length p \<le> n"
  by (simp add: size_within_def)

lemma join_fields_size:
  "list_all2 size_within ns fs \<Longrightarrow> size_within (sum_list ns) (join_fields fs)"
  by (induction rule: list_all2_induct) (fastforce simp: size_within_def bindE_eq_Inr)+

lemma encode_bytes_size: "length v \<le> n \<Longrightarrow> size_within (n + 4) (encode_bytes v)"
  by (auto simp: size_within_def encode_bytes_def bindE_eq_Inr encode_unsigned_range)

lemma encode_int_size: "size_within 2 (encode_u16 v)" "size_within 8 (encode_u64 v)"
  by (simp_all add: size_within_def encode_unsigned_range)

lemma encode_text_size: "canonical_text P (Some (int n)) s \<Longrightarrow> size_within (n + 4) (encode_text P s)"
  using encode_bytes_size by (fastforce elim!: canonical_textE simp: encode_text_def exceeds_def)

lemma bind_size: "(\<And>v. r = Inr v \<Longrightarrow> size_within n (f v)) \<Longrightarrow> size_within n (bindE r f)"
  by (cases r) (simp_all add: size_within_def)

lemma domains_size:
  "length TRANSACTION_DOMAIN \<le> 32" "length BLOCK_HEADER_DOMAIN \<le> 32" "length REWARD_TRANSACTION_DOMAIN \<le> 32"
  "length BLOCK_BODY_DOMAIN \<le> 32"
  by (simp_all add: TRANSACTION_DOMAIN_def BLOCK_HEADER_DOMAIN_def REWARD_TRANSACTION_DOMAIN_def BLOCK_BODY_DOMAIN_def
      byte_literal_def)

lemma transaction_size:
  assumes "transaction_canonical P t" shows "size_within 528 (transaction_to_bytes P t)"
proof -
  have t: "canonical_text P (Some (int 64)) (tx_chain_id t)" "canonical_text P (Some (int 128)) (tx_sender_address t)"
      "canonical_text P (Some (int 128)) (tx_recipient_address t)"
    using assms by (simp_all add: transaction_canonical_def MAX_CHAIN_ID_BYTES_def MAX_ADDRESS_BYTES_def)
  have "list_all2 size_within [36, 2, 68, 36, 132, 132, 8, 8, 8, 8, 68] (transaction_fields P t)"
    using t [THEN encode_text_size] assms encode_bytes_size [of _ 32] encode_bytes_size [of _ 64] encode_int_size domains_size
    by (simp add: transaction_fields_def transaction_canonical_def)
  from join_fields_size [OF this] show ?thesis
    by (auto simp: transaction_to_bytes_fields size_within_def)
qed

lemma header_size:
  assumes "header_canonical P h" shows "size_within 406 (header_to_bytes P h)"
proof -
  have t: "canonical_text P (Some (int 64)) (bh_chain_id h)" "canonical_text P (Some (int 128)) (bh_miner_address h)"
    using assms by (simp_all add: header_canonical_def MAX_CHAIN_ID_BYTES_def MAX_ADDRESS_BYTES_def)
  have e: "size_within 36 (bindE (exact_hash v name) encode_bytes)" for v name
    by (rule bind_size) (use encode_bytes_size [of _ 32] in \<open>auto simp: exact_hash_def Merkle.HASH_LENGTH_def split: if_splits\<close>)
  have "size_within 36 (bindE (encode_target n) encode_bytes)" for n
    by (rule bind_size) (use encode_bytes_size [of _ 32] in \<open>auto simp: encode_target_def TARGET_LENGTH_def split: if_splits\<close>)
  then have "size_within (sum_list [36, 2, 68, 8, 36, 36, 36, 8, 36, 8, 132]) (header_to_bytes P h)"
    unfolding header_to_bytes_def
    by (intro join_fields_size) (use t [THEN encode_text_size] e encode_bytes_size [of _ 32] encode_int_size domains_size in simp)
  then show ?thesis by simp
qed

lemma reward_size:
  assumes "reward_canonical P r" shows "size_within 254 (reward_to_bytes P r)"
proof -
  have t: "canonical_text P (Some (int 64)) (rt_chain_id r)" "canonical_text P (Some (int 128)) (rt_miner_address r)"
    using assms by (simp_all add: reward_canonical_def MAX_CHAIN_ID_BYTES_def MAX_ADDRESS_BYTES_def)
  have "size_within (sum_list [36, 2, 68, 8, 132, 8]) (reward_to_bytes P r)"
    unfolding reward_to_bytes_def
    by (intro join_fields_size) (use t [THEN encode_text_size] encode_bytes_size [of _ 32] encode_int_size domains_size in simp)
  then show ?thesis by simp
qed

lemma concat_size: "\<forall>v \<in> set vs. length v \<le> n \<Longrightarrow> length (concat vs) \<le> length vs * n"
  by (induction vs) auto

lemma mapE_member: "mapE f xs = Inr ys \<Longrightarrow> y \<in> set ys \<Longrightarrow> \<exists>x \<in> set xs. f x = Inr y"
  by (induction xs arbitrary: ys) (auto simp: bindE_eq_Inr)

lemma encode_sequence_size:
  assumes "\<forall>v \<in> set vs. length v \<le> n" shows "size_within (4 + length vs * (n + 4)) (encode_sequence vs)"
proof -
  have "length p \<le> n + 4" if "mapE encode_bytes vs = Inr ps" "p \<in> set ps" for p ps
  proof -
    have "\<exists>v \<in> set vs. encode_bytes v = Inr p" by (rule mapE_member [OF that])
    then show ?thesis using encode_bytes_size [of _ n] assms size_withinD by blast
  qed
  moreover have "length ps = length vs" if "mapE encode_bytes vs = Inr ps" for ps
    using that by (auto simp: mapE_eq_Inr dest: list_all2_lengthD)
  ultimately show ?thesis
    using concat_size [of _ "n + 4"]
    by (fastforce simp: size_within_def encode_sequence_def bindE_eq_Inr encode_unsigned_range)
qed

subsection \<open>Every block of a chain travels\<close>

lemma genesis_without_transactions: "genesis_block P TESTNET = Inr b \<Longrightarrow> bl_transactions b = []"
  by (auto simp: genesis_block_def Let_def bindE_eq_Inr)

lemma entry_block_limit:
  assumes t: "tree_ok P c" and e: "map_of (ch_entries c) h = Some e"
  shows "int (length (bl_transactions (en_block e))) \<le> MAX_BLOCK_TRANSACTIONS"
proof (cases "br_parent_hash (en_record e)")
  case None
  then have "genesis_block P TESTNET = Inr (en_block e)" using tree_entry [OF t e] by (simp add: entry_ok_def)
  then show ?thesis by (simp add: genesis_without_transactions MAX_BLOCK_TRANSACTIONS_def)
next
  case (Some p)
  then obtain pe ex where pe: "map_of (ch_entries c) p = Some pe"
      "validate_and_execute_block P (en_block e) (Some (en_block pe)) (entry_state pe)
         (br_total_supply (en_record pe)) TESTNET (Some (bh_difficulty_target (bl_header (en_block e)))) = Inr ex"
    using tree_entry [OF t e] by (auto simp: entry_ok_def child_ok_def)
  then show ?thesis
    unfolding validate_block_iff [OF entry_okD(4) [OF tree_entry [OF t pe(1)]]] by (simp add: block_guards_def)
qed

lemma block_travels:
  assumes s: "storable P b" and hb: "header_to_bytes P (bl_header b) = Inr hb"
    and n: "int (length (bl_transactions b)) \<le> MAX_BLOCK_TRANSACTIONS"
  shows "block_canonical P b \<and> (\<exists>bs. encode_block P b = Inr bs \<and> int (length bs) \<le> MAX_FRAME_PAYLOAD)"
proof -
  obtain rb where rb: "reward_to_bytes P (bl_reward b) = Inr rb" using s by (auto simp: storable_def)
  have c: "header_canonical P (bl_header b)" "reward_canonical P (bl_reward b)" "list_all (transaction_canonical P) (bl_transactions b)"
    using s by (auto simp: storable_def storable_transaction_def list_all_iff)
  have "\<forall>t \<in> set (bl_transactions b). \<exists>tb. transaction_to_bytes P t = Inr tb"
    using s by (auto simp: storable_def storable_transaction_def list_all_iff)
  then obtain tbs where tbs: "mapE (transaction_to_bytes P) (bl_transactions b) = Inr tbs"
    using mapE_total [of "bl_transactions b" "transaction_to_bytes P"] by metis
  have l: "length tbs = length (bl_transactions b)" by (rule mapE_length [OF tbs])
  have z: "\<forall>tb \<in> set tbs. length tb \<le> 528"
  proof
    fix tb assume "tb \<in> set tbs"
    then obtain t where "t \<in> set (bl_transactions b)" "transaction_to_bytes P t = Inr tb"
      using mapE_member [OF tbs] by blast
    then show "length tb \<le> 528" using transaction_size c(3) by (auto simp: list_all_iff dest: size_withinD)
  qed
  have "size_within 410 (encode_bytes hb)" "size_within 258 (encode_bytes rb)" "size_within 36 (encode_bytes BLOCK_BODY_DOMAIN)"
    using encode_bytes_size [OF size_withinD [OF header_size [OF c(1)] hb]] encode_bytes_size [OF size_withinD [OF reward_size [OF c(2)] rb]]
      encode_bytes_size [of BLOCK_BODY_DOMAIN 32] domains_size(4) by simp_all
  then have "size_within (sum_list [36, 410, 258, 4 + length tbs * 532]) (encode_block P b)"
    unfolding encode_block_def hb rb tbs
    by (intro join_fields_size) (use encode_sequence_size [OF z] in simp)
  moreover have "length tbs \<le> 10000" using n l by (simp add: MAX_BLOCK_TRANSACTIONS_def)
  ultimately have size: "\<And>bs. encode_block P b = Inr bs \<Longrightarrow> int (length bs) \<le> MAX_FRAME_PAYLOAD"
    by (fastforce simp: size_within_def MAX_FRAME_PAYLOAD_def)
  have "\<forall>tb \<in> set tbs. int (length tb) \<le> U32_MAX" using z by (fastforce simp: U32_MAX_def)
  then have "\<forall>tb \<in> set tbs. \<exists>p. encode_bytes tb = Inr p" using encode_bytes_total by blast
  then obtain ps where "mapE encode_bytes tbs = Inr ps" using mapE_total [of tbs encode_bytes] by metis
  then have "\<exists>p. encode_sequence tbs = Inr p"
    using \<open>length tbs \<le> 10000\<close> by (simp add: encode_sequence_def encode_u32_def encode_unsigned_def U32_MAX_def)
  moreover have "length hb \<le> 406" "length rb \<le> 254"
    using size_withinD [OF header_size [OF c(1)] hb] size_withinD [OF reward_size [OF c(2)] rb] by simp_all
  moreover have "\<exists>p. encode_bytes v = Inr p" if "length v \<le> 406" for v
    using that by (intro encode_bytes_total) (simp add: U32_MAX_def)
  ultimately have "\<exists>bs. encode_block P b = Inr bs"
    unfolding encode_block_def hb rb tbs using domains_size(4) by (intro join_fields_total) simp
  moreover have "block_canonical P b"
    using c hb rb tbs z \<open>length hb \<le> 406\<close> \<open>length rb \<le> 254\<close> \<open>length tbs \<le> 10000\<close>
    by (fastforce simp: block_canonical_def MAX_BLOCK_TRANSACTIONS_WIRE_def MAX_TRANSACTION_BYTES_def)
  ultimately show ?thesis using size by blast
qed

lemma entry_travels:
  assumes t: "tree_ok P c" and e: "map_of (ch_entries c) h = Some e"
  shows "\<exists>bs. encode_block P (en_block e) = Inr bs \<and> int (length bs) \<le> MAX_FRAME_PAYLOAD \<and> decode_block P bs = Inr (en_block e)"
proof -
  obtain hb where "header_to_bytes P (bl_header (en_block e)) = Inr hb" using entry_header_bytes(1) [OF t e] by blast
  from block_travels [OF entry_storable [OF t e] this entry_block_limit [OF t e]]
  show ?thesis using decode_block_iff by blast
qed

subsection \<open>Trees that agree\<close>

text \<open>
  No two blocks of two chains have the same hash and differ. Then the chains agree in everything they keep
  about a block both know: its record and its state are functions of its branch.
\<close>

definition same_blocks :: "chain \<Rightarrow> chain \<Rightarrow> bool" where
  "same_blocks c c' \<longleftrightarrow> (\<forall>h e e'. map_of (ch_entries c) h = Some e \<longrightarrow> map_of (ch_entries c') h = Some e' \<longrightarrow> en_block e = en_block e')"

lemma entry_fields:
  assumes t: "tree_ok P c" and e: "map_of (ch_entries c) h = Some e"
  shows "br_block_hash (en_record e) = h" and "br_height (en_record e) = bh_height (bl_header (en_block e))"
    and "br_total_supply (en_record e) = emission (nat (bh_height (bl_header (en_block e))))"
    and "br_parent_hash (en_record e)
      = (if bh_height (bl_header (en_block e)) = 0 then None else Some (bh_previous_block_hash (bl_header (en_block e))))"
proof -
  note eo = tree_entry [OF t e]
  show "br_block_hash (en_record e) = h" "br_height (en_record e) = bh_height (bl_header (en_block e))"
    and "br_total_supply (en_record e) = emission (nat (bh_height (bl_header (en_block e))))"
    using eo entry_okD(3,7) [OF eo] by (simp_all add: entry_ok_def)
  show "br_parent_hash (en_record e)
      = (if bh_height (bl_header (en_block e)) = 0 then None else Some (bh_previous_block_hash (bl_header (en_block e))))"
    using entry_root [OF t e] entry_okD(3) [OF eo] eo by (cases "br_parent_hash (en_record e)") (auto simp: entry_ok_def)
qed

lemma entries_agree:
  assumes t: "tree_ok P c" and t': "tree_ok P c'" and s: "same_blocks c c'"
  shows "map_of (ch_entries c) h = Some e \<Longrightarrow> map_of (ch_entries c') h = Some e' \<Longrightarrow> e = e'"
proof (induction "nat (br_height (en_record e))" arbitrary: h e e' rule: less_induct)
  case less
  note e = less.prems(1) and e' = less.prems(2)
  have b: "en_block e' = en_block e" using s e e' unfolding same_blocks_def by (intro sym [of "en_block e"]) blast
  note f = entry_fields [OF t e] and f' = entry_fields [OF t' e', unfolded b]
  note eo = tree_entry [OF t e] and eo' = tree_entry [OF t' e']
  have "br_cumulative_work (en_record e') = br_cumulative_work (en_record e) \<and> en_snapshot e' = en_snapshot e"
  proof (cases "br_parent_hash (en_record e)")
    case None
    then show ?thesis using eo eo' f(4) f'(4) b by (simp add: entry_ok_def)
  next
    case (Some p)
    then have p': "br_parent_hash (en_record e') = Some p" using f(4) f'(4) by simp
    obtain pe where pe: "map_of (ch_entries c) p = Some pe" "child_ok P c e pe" using eo Some by (auto simp: entry_ok_def)
    obtain pe' where pe': "map_of (ch_entries c') p = Some pe'" "child_ok P c' e' pe'" using eo' p' by (auto simp: entry_ok_def)
    have "nat (br_height (en_record pe)) < nat (br_height (en_record e))"
      using pe(2) entry_okD(2) [OF tree_entry [OF t pe(1)]] by (simp add: child_ok_def)
    then have "pe = pe'" using less.hyps pe(1) pe'(1) by blast
    then show ?thesis using pe(2) pe'(2) b by (auto simp: child_ok_def)
  qed
  then have "en_record e' = en_record e" "en_snapshot e' = en_snapshot e"
    using f f' by (simp_all add: block_record.equality)
  then show ?case using b by (simp add: chain_entry.equality)
qed

text \<open>The chains also agree on the target that comes next on such a block.\<close>

lemma ancestor_loop_agree:
  assumes t: "tree_ok P c" and t': "tree_ok P c'" and s: "same_blocks c c'"
  shows "map_of (ch_entries c) h = Some e \<Longrightarrow> map_of (ch_entries c') h = Some e \<Longrightarrow>
     ancestor_loop n c' ht e = ancestor_loop n c ht e"
proof (induction n arbitrary: h e)
  have p: "\<exists>pe. map_of (ch_entries c) p = Some pe \<and> map_of (ch_entries c') p = Some pe"
    if e: "map_of (ch_entries c) h = Some e" "map_of (ch_entries c') h = Some e" "br_parent_hash (en_record e) = Some p" for h e p
  proof -
    obtain pe where pe: "map_of (ch_entries c) p = Some pe" by (rule entry_parent [OF t e(1,3)])
    obtain pe' where pe': "map_of (ch_entries c') p = Some pe'" by (rule entry_parent [OF t' e(2,3)])
    have "pe = pe'" by (rule entries_agree [OF t t' s pe pe'])
    with pe pe' show ?thesis by blast
  qed
  case 0
  then show ?case using p [OF 0]
    by (subst (1 2) ancestor_loop.simps) (cases "br_parent_hash (en_record e)", auto simp: dict_index_def)
next
  case (Suc n)
  show ?case
  proof (cases "br_parent_hash (en_record e)")
    case (Some p)
    obtain pe where pe: "map_of (ch_entries c) p = Some pe" by (rule entry_parent [OF t Suc.prems(1) Some])
    obtain pe' where pe': "map_of (ch_entries c') p = Some pe'" by (rule entry_parent [OF t' Suc.prems(2) Some])
    have "pe = pe'" by (rule entries_agree [OF t t' s pe pe'])
    then show ?thesis using Some pe pe' Suc.IH [OF pe]
      by (subst (1 2) ancestor_loop.simps) (simp add: dict_index_def)
  qed (subst (1 2) ancestor_loop.simps, simp)
qed

lemma expected_target_agree:
  assumes t: "tree_ok P c" and t': "tree_ok P c'" and s: "same_blocks c c'"
    and p: "map_of (ch_entries c) p = Some e" "map_of (ch_entries c') p = Some e"
  shows "expected_target_for_child c' p = expected_target_for_child c p"
proof -
  have "ancestor_at_height c' p ht = ancestor_at_height c p ht" for ht
    using p ancestor_loop_agree [OF t t' s p] by (simp add: ancestor_at_height_def dict_index_def)
  then show ?thesis using p by (simp add: expected_target_for_child_def known_entry_def dict_index_def Let_def)
qed

text \<open>A block of one chain is new to the other and its parent is not: the other accepts it, as the same entry.\<close>

lemma make_entry_agree:
  assumes t: "tree_ok P c" and t': "tree_ok P c'" and s: "same_blocks c c'"
    and e: "map_of (ch_entries c) h = Some e" "br_parent_hash (en_record e) = Some p"
    and p: "map_of (ch_entries c') p = Some pe'" and n: "map_of (ch_entries c') h = None"
  shows "make_entry P (en_block e) c' = Inr (h, e)"
proof -
  note eo = tree_entry [OF t e(1)] and ef = entry_fields [OF t e(1)]
  obtain pe where pe: "map_of (ch_entries c) p = Some pe" and c: "child_ok P c e pe"
    and pb: "bh_previous_block_hash (bl_header (en_block e)) = p"
    using eo e(2) by (auto simp: entry_ok_def)
  have "pe' = pe" using entries_agree [OF t t' s pe p] by simp
  then have p: "map_of (ch_entries c') p = Some pe" using p by simp
  have tg: "expected_target_for_child c' p = Inr (bh_difficulty_target (bl_header (en_block e)))"
    using expected_target_agree [OF t t' s pe p] c pb by (simp add: child_ok_def)
  have n': "ch_network c' = TESTNET" using t' by (simp add: tree_ok_def)
  obtain ex where ex: "validate_and_execute_block P (en_block e) (Some (en_block pe)) (entry_state pe)
      (br_total_supply (en_record pe)) TESTNET (Some (bh_difficulty_target (bl_header (en_block e)))) = Inr ex"
    "ex_total_supply ex = br_total_supply (en_record e)" "snapshot (ex_state ex) = en_snapshot e"
    using c by (auto simp: child_ok_def)
  have "work_for_target (bh_difficulty_target (bl_header (en_block e))) = Inr (block_work (bh_difficulty_target (bl_header (en_block e))))"
    using entry_okD(8,9) [OF eo] by simp
  moreover have "state_from_snapshot P (en_snapshot pe) TESTNET = Inr (entry_state pe)"
    using entry_state_lookup [OF t' p] n' by simp
  moreover have "\<lparr>en_block = en_block e, en_record = \<lparr>br_block_hash = h, br_parent_hash = Some p,
       br_height = bh_height (bl_header (en_block e)),
       br_cumulative_work = br_cumulative_work (en_record pe) + block_work (bh_difficulty_target (bl_header (en_block e))),
       br_total_supply = ex_total_supply ex\<rparr>, en_snapshot = snapshot (ex_state ex)\<rparr> = e"
    using ex(2,3) ef e(2) c by (intro chain_entry.equality) (auto simp: child_ok_def intro!: block_record.equality)
  ultimately show ?thesis
    using entry_okD(1) [OF eo] n p pb tg n' ex(1)
    by (simp add: make_entry_def known_entry_def dict_index_def Let_def del: work_for_target_iff)
qed

subsection \<open>Branches as rising paths\<close>

text \<open>Hashes each of whose blocks stands on the one before it.\<close>

fun rises :: "chain \<Rightarrow> bytes \<Rightarrow> bytes list \<Rightarrow> bool" where
  "rises c p [] \<longleftrightarrow> True"
| "rises c p (h # hs) \<longleftrightarrow> (\<exists>e. map_of (ch_entries c) h = Some e \<and> br_parent_hash (en_record e) = Some p) \<and> rises c h hs"

lemma rises_append: "rises c p (hs @ hs') \<longleftrightarrow> rises c p hs \<and> rises c (last (p # hs)) hs'"
  by (induction hs arbitrary: p) auto

lemma branch_rises: "branch c h bs \<Longrightarrow> rev bs = xs @ p # ys \<Longrightarrow> rises c p ys"
proof (induction arbitrary: ys rule: branch.induct)
  case (branch_root h e)
  then show ?case by (cases xs) auto
next
  case (branch_child h e q bs)
  have q: "bs \<noteq> []" "hd bs = q" using branch_child.hyps(3) by (auto elim: branch.cases)
  show ?case
  proof (cases ys rule: rev_cases)
    case (snoc zs z)
    then have r: "rev bs = xs @ p # zs" "z = h" using branch_child.prems by simp_all
    then have "last (p # zs) = q" using q by (metis last_appendR last_rev list.simps(3))
    then show ?thesis using branch_child.IH [OF r(1)] branch_child.hyps(1,2) r(2) by (simp add: snoc rises_append)
  qed simp
qed

lemma active_hashes:
  assumes c: "chain_ok P c"
  obtains bs where "branch c (ch_tip c) bs" and "active_chain c = Inr (map (block_at c) (rev bs))"
    and "mapE (block_hash P) (map (block_at c) (rev bs)) = Inr (rev bs)" and "distinct bs" and "bs \<noteq> []" and "hd bs = ch_tip c"
    and "genesis_block P TESTNET = Inr (block_at c (last bs))" and "block_hash P (block_at c (last bs)) = Inr (last bs)"
proof -
  note t = chain_okD(1) [OF c]
  obtain bs where bs: "branch c (ch_tip c) bs" "active_chain c = Inr (rev (map (block_at c) bs))" by (rule active_chain_spec [OF c])
  have h: "block_hash P (block_at c z) = Inr z" if "z \<in> set bs" for z
  proof -
    have "\<exists>e. map_of (ch_entries c) z = Some e \<and> block_at c z = en_block e \<and> block_hash P (en_block e) = Inr z"
      by (rule bspec [OF branch_known [OF t bs(1)] that])
    then show ?thesis by auto
  qed
  have m: "mapE (block_hash P) (map (block_at c) (rev bs)) = Inr (rev bs)"
    using h by (simp add: mapE_eq_Inr list_all2_conv_all_nth rev_nth)
  have "distinct bs" using branch_heights [OF t bs(1)] by (simp add: distinct_map)
  moreover have "bs \<noteq> []" "hd bs = ch_tip c" "genesis_block P TESTNET = Inr (block_at c (last bs))"
    using branch_follows [OF t bs(1)] by simp_all
  ultimately show thesis using that bs m h by (simp add: rev_map)
qed

subsection \<open>Properties\<close>

text \<open>C34. \<open>chain_blocks_travel\<close>: every block a chain holds, however large, has network bytes that fit one
  frame, and a peer that reads the frame gets back exactly this block: a block that was accepted can always
  be relayed and served.\<close>

theorem chain_blocks_travel:
  assumes "platform_ok P" and "chain_reachable P c" and "get_block h c = Inr b"
  shows "\<exists>payload framed. encode_block P b = Inr payload \<and> encode_frame P BLOCK payload PROTOCOL_VERSION = Inr framed \<and>
     decode_frame P framed = Inr \<lparr>fr_message_type = BLOCK, fr_payload = payload\<rparr> \<and> decode_block P payload = Inr b"
proof -
  have t: "tree_ok P c" by (rule chain_okD(1) [OF reachable_ok [OF assms(1,2)]])
  obtain e where "map_of (ch_entries c) h = Some e" "b = en_block e"
    using assms(3) by (auto simp: get_block_def known_entry_iff bindE_eq_Inr)
  then obtain bs where bs: "encode_block P b = Inr bs" "int (length bs) \<le> MAX_FRAME_PAYLOAD" "decode_block P bs = Inr b"
    using entry_travels [OF t] by blast
  then have "\<exists>framed. encode_frame P BLOCK bs PROTOCOL_VERSION = Inr framed"
    by (simp add: encode_frame_def PROTOCOL_VERSION_def)
  then show ?thesis using bs decode_frame_iff [of P _ "\<lparr>fr_message_type = BLOCK, fr_payload = bs\<rparr>"] assms(1) by fastforce
qed

lemma chain_blocks_travel_witness:
  "\<exists>b payload framed. get_block (ch_tip sample_chain_2) sample_chain_2 = Inr b \<and> encode_block sample_platform b = Inr payload \<and>
     encode_frame sample_platform BLOCK payload PROTOCOL_VERSION = Inr framed \<and> decode_block sample_platform payload = Inr b"
proof -
  have "chain_ok sample_platform sample_chain_2" by (rule reachable_ok [OF sample_platform_ok sample_chain_2_reachable])
  then obtain e where "map_of (ch_entries sample_chain_2) (ch_tip sample_chain_2) = Some e"
    by (auto simp: chain_ok_def tip_heaviest_def)
  then have g: "get_block (ch_tip sample_chain_2) sample_chain_2 = Inr (en_block e)"
    by (simp add: get_block_def known_entry_iff bindE_eq_Inr)
  from chain_blocks_travel [OF sample_platform_ok sample_chain_2_reachable g] g show ?thesis by blast
qed

end
