(* ===== verification/P2p_Sync.thy ===== *)
theory P2p_Sync
  imports P2p_Session Block_Relay
begin

text \<open>
  How two nodes exchange their chains: the shape of a block locator, the answer to it, and what the asking
  node has after it has handled the answer.
\<close>

subsection \<open>Locators\<close>

text \<open>The loop adds hashes at falling positions above the genesis block, at most 63 of them.\<close>

lemma locator_loop_spec:
  "0 < step \<Longrightarrow> \<exists>is. locator_loop active index step hashes = hashes @ map ((!) active) is \<and> sorted_wrt (>) is
     \<and> (\<forall>i \<in> set is. 0 < i \<and> i \<le> index) \<and> length hashes + length is \<le> max 63 (length hashes)
     \<and> (0 < index \<and> length hashes < 63 \<longrightarrow> is \<noteq> [] \<and> hd is = index)"
proof (induction active index step hashes rule: locator_loop.induct)
  case (1 active index step hashes)
  show ?case
  proof (cases "index > 0 \<and> length hashes < 63")
    case True
    let ?hs = "hashes @ [active ! index]"
    let ?step = "if length ?hs \<ge> 10 then step * 2 else step"
    have s: "0 < ?step" using 1(2) by simp
    obtain ks where ks: "locator_loop active (index - ?step) ?step ?hs = ?hs @ map ((!) active) ks" "sorted_wrt (>) ks"
        "\<forall>i \<in> set ks. 0 < i \<and> i \<le> index - ?step" "length ?hs + length ks \<le> max 63 (length ?hs)"
      using 1(1) [OF True refl refl s] by blast
    have "locator_loop active index step hashes = ?hs @ map ((!) active) ks"
      using True ks(1) by (subst locator_loop.simps) (simp add: Let_def)
    moreover have "\<forall>i \<in> set ks. 0 < i \<and> i < index" using ks(3) s True by fastforce
    moreover from this have "sorted_wrt (>) (index # ks)" "\<forall>i \<in> set (index # ks). 0 < i \<and> i \<le> index"
      using ks(2) True by (simp_all add: less_imp_le)
    moreover have "length hashes + length (index # ks) \<le> max 63 (length hashes)" using ks(4) True by simp
    ultimately show ?thesis by (intro exI [of _ "index # ks"]) simp
  next
    case False
    then show ?thesis by (subst locator_loop.simps) (intro exI [of _ "[]"], auto)
  qed
qed

lemma locator_encodes:
  assumes "\<forall>h \<in> set hs. length h = 32" and "hs \<noteq> []" and "length hs \<le> 64"
  shows "\<exists>bs. locator_to_bytes hs = Inr bs \<and> int (length bs) \<le> MAX_FRAME_PAYLOAD"
proof -
  have m: "mapE (\<lambda>v. exact_bytes v WIRE_HASH_LENGTH ''locator hash'') hs = Inr hs"
    using assms(1) by (induction hs) (auto simp: exact_bytes_def WIRE_HASH_LENGTH_def)
  have "\<forall>h \<in> set hs. \<exists>p. encode_bytes h = Inr p" using assms(1) encode_bytes_total by (simp add: U32_MAX_def)
  then obtain ps where "mapE encode_bytes hs = Inr ps" using mapE_total [of hs encode_bytes] by metis
  then have s: "\<exists>p. encode_sequence hs = Inr p"
    using assms(3) by (simp add: encode_sequence_def encode_u32_def encode_unsigned_def U32_MAX_def)
  have d: "length LOCATOR_DOMAIN \<le> 32" by (simp add: LOCATOR_DOMAIN_def byte_literal_def)
  have l: "locator_to_bytes hs = join_fields [encode_bytes LOCATOR_DOMAIN, encode_sequence hs]"
    using assms(2,3) m by (simp add: locator_to_bytes_def MAX_BLOCK_LOCATOR_HASHES_def)
  have "\<exists>p. encode_bytes LOCATOR_DOMAIN = Inr p" using d by (intro encode_bytes_total) (simp add: U32_MAX_def)
  then obtain bs where bs: "locator_to_bytes hs = Inr bs"
    using l s join_fields_total [of "[encode_bytes LOCATOR_DOMAIN, encode_sequence hs]"] by auto
  have "size_within (sum_list [36, 4 + length hs * 36]) (locator_to_bytes hs)"
    unfolding l using encode_bytes_size [OF d] encode_sequence_size [of hs 32] assms(1) by (intro join_fields_size) simp
  then have "length bs \<le> 40 + length hs * 36" using bs by (simp add: size_within_def)
  then show ?thesis using bs assms(3) by (simp add: MAX_FRAME_PAYLOAD_def)
qed

text \<open>The locator of a node: positions on its active chain from the tip down to the genesis block.\<close>

lemma block_locator_spec:
  assumes P: "platform_ok P" and ok: "p2p_ok P st" and b: "branch (nd_chain (pn_local_node st)) (ch_tip (nd_chain (pn_local_node st))) bs"
  shows "\<exists>is. block_locator P st = Inr (map ((!) (rev bs)) is) \<and> sorted_wrt (>) is \<and> is \<noteq> [] \<and> hd is = length bs - 1
    \<and> last is = 0 \<and> length is \<le> 64 \<and> (\<forall>i \<in> set is. i < length bs)"
proof -
  let ?c = "nd_chain (pn_local_node st)"
  obtain bs' where bs': "branch ?c (ch_tip ?c) bs'" "active_chain ?c = Inr (map (block_at ?c) (rev bs'))"
      "mapE (block_hash P) (map (block_at ?c) (rev bs')) = Inr (rev bs')" "distinct bs'" "bs' \<noteq> []"
    by (rule active_hashes [OF p2p_chain_ok [OF P ok]]) blast
  have eq: "bs' = bs" by (rule branch_fun [OF bs'(1) b])
  let ?a = "rev bs"
  have a: "active_chain ?c = Inr (map (block_at ?c) ?a)" "mapE (block_hash P) (map (block_at ?c) ?a) = Inr ?a"
      "distinct ?a" "?a \<noteq> []" using bs' unfolding eq by simp_all
  obtain ks where ks: "locator_loop ?a (length ?a - 1) 1 [] = map ((!) ?a) ks" "sorted_wrt (>) ks"
      "\<forall>i \<in> set ks. 0 < i \<and> i \<le> length ?a - 1" "length ks \<le> 63" "0 < length ?a - 1 \<longrightarrow> ks \<noteq> [] \<and> hd ks = length ?a - 1"
    using locator_loop_spec [of 1 ?a "length ?a - 1" "[]"] by auto
  have "last (map ((!) ?a) ks) \<noteq> hd ?a" if "ks \<noteq> []"
  proof -
    have k: "0 < last ks" "last ks < length ?a" using ks(3) last_in_set [OF that] a(4) by (auto simp: Suc_le_eq)
    then have "?a ! last ks \<noteq> ?a ! 0" using nth_eq_iff_index_eq [OF a(3) k(2), of 0] a(4) by simp
    then show ?thesis using that a(4) by (simp add: last_map hd_conv_nth)
  qed
  then have "block_locator P st = Inr (map ((!) ?a) ks @ [hd ?a])"
    using a ks(1) by (auto simp: block_locator_def Let_def)
  then have "block_locator P st = Inr (map ((!) ?a) (ks @ [0]))" using a(4) by (simp add: hd_conv_nth)
  moreover have "sorted_wrt (>) (ks @ [0])" using ks(2,3) by (simp add: sorted_wrt_append)
  moreover have "hd (ks @ [0]) = length bs - 1"
  proof (cases "0 < length bs - 1")
    case False
    then have "ks = []" using ks(3) by (cases ks) auto
    then show ?thesis using False by simp
  qed (use ks(5) in simp)
  moreover have "\<forall>i \<in> set (ks @ [0]). i < length bs" using ks(3) a(4) by (auto simp: Suc_le_eq)
  ultimately show ?thesis using ks(4) by (intro exI [of _ "ks @ [0]"]) simp
qed

subsection \<open>The answer to a locator\<close>

lemma positions_iff:
  assumes "distinct a" shows "positions a h = Some i \<longleftrightarrow> i < length a \<and> a ! i = h"
proof -
  have "distinct (map fst (rev (zip a [0..<length a])))" using assms by (simp flip: rev_map)
  then show ?thesis by (auto simp: positions_def in_set_zip)
qed

lemma find_common_spec:
  assumes "distinct a" and "h \<in> set hs" "h \<in> set a"
  shows "\<exists>k < length a. find_common (positions a) hs = Some k \<and> a ! k \<in> set hs"
proof -
  have "\<exists>i. positions a h = Some i" using assms(3) positions_iff [OF assms(1)] by (auto simp: in_set_conv_nth)
  then obtain x where x: "List.find (\<lambda>h. positions a h \<noteq> None) hs = Some x"
    using assms(2) by (cases "List.find (\<lambda>h. positions a h \<noteq> None) hs") (auto simp: find_None_iff)
  moreover from x have "x \<in> set hs" "positions a x \<noteq> None" by (auto simp: find_Some_iff)
  ultimately show ?thesis using positions_iff [OF assms(1)] by (auto simp: find_common_def)
qed

definition can_send :: "p2p_node \<Rightarrow> nat \<Rightarrow> bool" where
  "can_send st j \<longleftrightarrow> j < length (pn_objects st) \<and> \<not> pc_closed (conn st j) \<and> pc_writer (conn st j) = Flowing
     \<and> pc_pending_sends (conn st j) < li_max_pending_sends_per_peer (pn_limits st)"

definition wrote :: "nat \<Rightarrow> bytes list \<Rightarrow> p2p_node \<Rightarrow> p2p_node" where
  "wrote j ws = set_conn j (pc_written_update (\<lambda>w. w @ ws))"

lemma can_send_wrote [simp]: "can_send (wrote j ws st) k = can_send st k"
  by (cases "j = k") (auto simp: can_send_def wrote_def)

lemma wrote_fields [simp]:
  "pn_local_node (wrote j ws st) = pn_local_node st" "pn_limits (wrote j ws st) = pn_limits st"
  by (simp_all add: wrote_def)

lemma written_same [simp]: "pc_written_update (\<lambda>w. w) c = c"
  by (cases c) simp

lemma wrote_nothing [simp]: "wrote j [] st = st"
  by (simp add: wrote_def set_conn_def)

lemma wrote_wrote [simp]: "j < length (pn_objects st) \<Longrightarrow> wrote j ws' (wrote j ws st) = wrote j (ws @ ws') st"
  by (simp add: wrote_def set_conn_def o_def)

lemma send_message_writes:
  "can_send st j \<Longrightarrow> encode_frame P mt payload PROTOCOL_VERSION = Inr w \<Longrightarrow> send_message P j mt payload st = (Inr (), wrote j [w] st)"
  by (simp add: send_message_def can_send_def and_then_def compute_def ret_def wrote_def)

definition block_frame :: "platform \<Rightarrow> block \<Rightarrow> bytes \<Rightarrow> bool" where
  "block_frame P b w \<longleftrightarrow> (\<exists>p. encode_block P b = Inr p \<and> encode_frame P BLOCK p PROTOCOL_VERSION = Inr w
     \<and> decode_frame P w = Inr \<lparr>fr_message_type = BLOCK, fr_payload = p\<rparr> \<and> decode_block P p = Inr b)"

lemma send_block_list_writes:
  "list_all2 (block_frame P) bs ws \<Longrightarrow> can_send st j \<Longrightarrow> send_block_list P j bs st = (Inr (), wrote j ws st)"
proof (induction bs ws arbitrary: st rule: list_all2_induct)
  case (Cons b bs w ws)
  then obtain p where p: "encode_block P b = Inr p" "encode_frame P BLOCK p PROTOCOL_VERSION = Inr w"
    by (auto simp: block_frame_def)
  have "j < length (pn_objects st)" using Cons.prems by (simp add: can_send_def)
  then show ?case
    using Cons.IH [of "wrote j [w] st"] Cons.prems send_message_writes [OF Cons.prems p(2)] p(1)
    by (simp add: and_then_def compute_def)
qed (simp add: ret_def)

lemma entry_frame:
  assumes t: "tree_ok P c" and e: "map_of (ch_entries c) h = Some e"
  shows "\<exists>w. block_frame P (en_block e) w"
proof -
  obtain p where p: "encode_block P (en_block e) = Inr p" "int (length p) \<le> MAX_FRAME_PAYLOAD" "decode_block P p = Inr (en_block e)"
    using entry_travels [OF t e] by blast
  then obtain w where "encode_frame P BLOCK p PROTOCOL_VERSION = Inr w" by (simp add: encode_frame_def PROTOCOL_VERSION_def)
  moreover have "hash_ok P" using t by (simp add: tree_ok_def)
  ultimately have "block_frame P (en_block e) w"
    using p decode_frame_iff [of P w "\<lparr>fr_message_type = BLOCK, fr_payload = p\<rparr>"] by (auto simp: block_frame_def)
  then show ?thesis by blast
qed

lemma own_summary_encodes:
  assumes c: "chain_ok P (nd_chain (pn_local_node st))"
  shows "\<exists>p w. own_summary st = Inr \<lparr>su_tip_hash = ch_tip (nd_chain (pn_local_node st)),
      su_height = br_height (en_record (tip_entry (nd_chain (pn_local_node st)))),
      su_cumulative_work = tip_work (nd_chain (pn_local_node st))\<rparr>
    \<and> bindE (own_summary st) summary_to_bytes = Inr p \<and> encode_frame P SYNC_COMPLETE p PROTOCOL_VERSION = Inr w"
proof -
  let ?c = "nd_chain (pn_local_node st)" and ?e = "tip_entry (nd_chain (pn_local_node st))"
  note tf = tip_facts [OF c] and t = chain_okD(1) [OF c]
  have own: "own_summary st = Inr \<lparr>su_tip_hash = ch_tip ?c, su_height = br_height (en_record ?e), su_cumulative_work = tip_work ?c\<rparr>"
    using tf(2,9) by (simp add: own_summary_def Let_def chain_cumulative_work_def dict_index_def tip_work_def)
  note e = tf(9)
  have l: "length (ch_tip ?c) = 32" by (rule entry_header_bytes(3) [OF t e])
  have w: "encode_work (br_cumulative_work (en_record ?e)) = Inr (to_bytes_be 40 (br_cumulative_work (en_record ?e)))"
    by (rule entry_ranges(3) [OF t e])
  then have w: "wire_encode_work (tip_work ?c) = Inr (to_bytes_be 40 (tip_work ?c))"
    by (auto simp: encode_work_def wire_encode_work_def CUMULATIVE_WORK_BYTES_def WORK_LENGTH_def tip_work_def split: if_splits)
  have w: "bindE (wire_encode_work (tip_work ?c)) f = f (to_bytes_be 40 (tip_work ?c))" for f :: "bytes \<Rightarrow> bytes res"
    unfolding w by simp
  have d: "length SUMMARY_DOMAIN \<le> 32" by (simp add: SUMMARY_DOMAIN_def byte_literal_def)
  let ?fs = "[encode_bytes SUMMARY_DOMAIN, encode_bytes (ch_tip ?c), encode_u64 (br_height (en_record ?e)),
     encode_bytes (to_bytes_be 40 (tip_work ?c))]"
  have f: "bindE (own_summary st) summary_to_bytes = join_fields ?fs"
    using l w by (simp add: own summary_to_bytes_def exact_bytes_def WIRE_HASH_LENGTH_def)
  have tot: "\<exists>p. encode_bytes v = Inr p" if "length v \<le> 40" for v
    using that by (intro encode_bytes_total) (simp add: U32_MAX_def)
  then have "list_all (\<lambda>f. \<exists>p. f = Inr p) ?fs" using l d entry_ranges(1) [OF t e] by simp
  then obtain p where p: "join_fields ?fs = Inr p" using join_fields_total by blast
  have "size_within (sum_list [36, 36, 8, 44]) (join_fields ?fs)"
    using encode_bytes_size [OF d] encode_bytes_size [of "ch_tip ?c" 32] encode_bytes_size [of "to_bytes_be 40 (tip_work ?c)" 40] l
      encode_int_size by (intro join_fields_size) simp
  then have "length p \<le> 124" using p by (simp add: size_within_def)
  then show ?thesis using own f p by (auto simp: encode_frame_def PROTOCOL_VERSION_def MAX_FRAME_PAYLOAD_def)
qed

subsection \<open>Handling the blocks of an agreeing chain\<close>

definition same_books :: "p2p_node \<Rightarrow> p2p_node \<Rightarrow> bool" where
  "same_books st st' \<longleftrightarrow> pn_scores st' = pn_scores st \<and> pn_host_scores st' = pn_host_scores st \<and> pn_banned_until st' = pn_banned_until st"

lemma same_books_refl [simp]: "same_books st st"
  by (simp add: same_books_def)

lemma same_books_trans: "same_books a b \<Longrightarrow> same_books b c \<Longrightarrow> same_books a c"
  by (simp add: same_books_def)

lemma same_books_changes [simp]:
  "same_books st (set_conn i f st') = same_books st st'" "same_books st (st'\<lparr>pn_local_node := nd\<rparr>) = same_books st st'"
  "same_books st (close_connection j st') = same_books st st'"
  by (simp_all add: same_books_def close_connection_def remove_connection_def Let_def split: option.splits)

lemma send_kept:
  assumes "send_message P j mt payload st = (r, st')"
  shows "same_books st st' \<and> pn_local_node st' = pn_local_node st"
  using assms by (auto simp: send_message_def and_then_def compute_def fail_def ret_def split: sum.splits writer_state.splits if_splits)

lemma send_all_kept: "send_all P mt payload is st = (failed, st') \<Longrightarrow> same_books st st' \<and> pn_local_node st' = pn_local_node st"
proof (induction "is" arbitrary: st failed)
  case (Cons i "is")
  obtain r st1 where s: "send_message P i mt payload st = (r, st1)" by fastforce
  obtain failed1 where "send_all P mt payload is st1 = (failed1, st')"
    using Cons.prems s by (auto split: prod.splits)
  from Cons.IH [OF this] send_kept [OF s] show ?case using same_books_trans by metis
qed simp

lemma fold_close_kept: "same_books st (fold close_connection is st') = same_books st st' \<and> pn_local_node (fold close_connection is st') = pn_local_node st'"
  by (induction "is" arbitrary: st') auto

lemma broadcast_kept: "same_books st (broadcast P mt payload exclude st) \<and> pn_local_node (broadcast P mt payload exclude st) = pn_local_node st"
  using send_all_kept by (auto simp: broadcast_def fold_close_kept split: prod.split)

text \<open>A block of an agreeing chain, on a block the node knows, is accepted unless it is known.\<close>

lemma submit_block_agree:
  assumes P: "platform_ok P" and nd: "node_ok P nd" and t: "tree_ok P c" and s: "same_blocks c (nd_chain nd)"
    and e: "map_of (ch_entries c) h = Some e" "br_parent_hash (en_record e) = Some p"
    and p: "chain_contains p (nd_chain nd)" and n: "\<not> chain_contains h (nd_chain nd)"
  shows "\<exists>u nd'. submit_block P (en_block e) nd = (Inr u, nd') \<and> same_blocks c (nd_chain nd')
     \<and> chain_contains h (nd_chain nd')"
proof -
  let ?c = "nd_chain nd"
  note c = node_chain_ok [OF P nd]
  obtain pe where pe: "map_of (ch_entries ?c) p = Some pe" using p by (auto simp: chain_contains_def)
  have f: "map_of (ch_entries ?c) h = None" using n by (simp add: chain_contains_def)
  have m: "make_entry P (en_block e) ?c = Inr (h, e)" by (rule make_entry_agree [OF t chain_okD(1) [OF c] s e pe f])
  with add_block_spec [OF c, of "en_block e"] obtain u c' where a: "add_block P (en_block e) ?c = (Inr u, c')" "update_ok ?c h e c' u"
    by auto
  then have "\<exists>nd'. submit_block P (en_block e) nd = (Inr u, nd') \<and> nd_chain nd' = c'"
    using submit_block_spec [OF P nd, of "en_block e"] by auto
  moreover have "ch_entries c' = AList.update h e (ch_entries ?c)" using a(2) by (simp add: update_ok_def)
  then have u: "map_of (ch_entries c') g = (if g = h then Some e else map_of (ch_entries ?c) g)" for g
    by (simp add: update_conv')
  have "same_blocks c c'" unfolding same_blocks_def
  proof (intro allI impI)
    fix g x y assume g: "map_of (ch_entries c) g = Some x" "map_of (ch_entries c') g = Some y"
    show "en_block x = en_block y"
    proof (cases "g = h")
      case False
      then have "map_of (ch_entries ?c) g = Some y" using g(2) u by simp
      then show ?thesis using s g(1) unfolding same_blocks_def by blast
    qed (use g u e(1) in simp)
  qed
  moreover have "chain_contains h c'" using u by (simp add: chain_contains_def)
  ultimately show ?thesis by blast
qed

lemma handle_block_agree:
  assumes P: "platform_ok P" and ok: "p2p_ok_at P i st" and t: "tree_ok P c" and s: "same_blocks c (nd_chain (pn_local_node st))"
    and e: "map_of (ch_entries c) h = Some e" "br_parent_hash (en_record e) = Some p"
    and p: "chain_contains p (nd_chain (pn_local_node st))"
  shows "\<exists>st'. handle_block P i (en_block e) now st = (Inr (), st') \<and> same_blocks c (nd_chain (pn_local_node st'))
     \<and> chain_contains h (nd_chain (pn_local_node st')) \<and> same_books st st'"
proof -
  let ?nd = "pn_local_node st"
  have h: "block_hash P (en_block e) = Inr h" by (rule entry_okD(1) [OF tree_entry [OF t e(1)]])
  show ?thesis
  proof (cases "chain_contains h (nd_chain ?nd)")
    case True
    then show ?thesis using s h by (simp add: handle_block_def and_then_def compute_def ret_def)
  next
    case False
    have nd: "node_ok P ?nd" using p2p_node_ok [OF P] ok by (simp add: p2p_ok_at_def)
    obtain u nd' where b: "submit_block P (en_block e) ?nd = (Inr u, nd')" "same_blocks c (nd_chain nd')" "chain_contains h (nd_chain nd')"
      using submit_block_agree [OF P nd t s e p False] by blast
    obtain q where q: "encode_block P (en_block e) = Inr q" using entry_travels [OF t e(1)] by blast
    let ?st = "set_conn i note_accepted_block (st\<lparr>pn_local_node := nd'\<rparr>)"
    have "handle_block P i (en_block e) now st = (Inr (), broadcast P BLOCK q (Some i) ?st)"
      using h False b(1) q
      by (simp add: handle_block_def and_then_def compute_def on_local_node_def broadcast_block_def change_def)
    moreover have "same_books st (broadcast P BLOCK q (Some i) ?st)"
      using broadcast_kept [of ?st P BLOCK q "Some i"] same_books_trans [of st ?st] by simp
    ultimately show ?thesis using b broadcast_kept [of ?st P BLOCK q "Some i"] by simp
  qed
qed

text \<open>The frames of a connection, handled one after the other until one raises.\<close>

fun handle_frames :: "platform \<Rightarrow> nat \<Rightarrow> frame list \<Rightarrow> rat \<Rightarrow> (unit, p2p_node) operation" where
  "handle_frames P i [] now = ret ()"
| "handle_frames P i (f # fs) now = and_then (handle_frame P i f now) (\<lambda>_. handle_frames P i fs now)"

lemma handle_frames_agree:
  assumes P: "platform_ok P" and t: "tree_ok P c"
  shows "rises c p hs \<Longrightarrow> list_all2 (block_frame P) (map (block_at c) hs) ws \<Longrightarrow> p2p_ok_at P i st \<Longrightarrow>
     same_blocks c (nd_chain (pn_local_node st)) \<Longrightarrow> chain_contains p (nd_chain (pn_local_node st)) \<Longrightarrow>
     \<exists>frames st'. mapE (decode_frame P) ws = Inr frames \<and> handle_frames P i frames now st = (Inr (), st') \<and> same_books st st'
       \<and> chain_grows (nd_chain (pn_local_node st)) (nd_chain (pn_local_node st')) \<and> p2p_ok_at P i st'
       \<and> same_blocks c (nd_chain (pn_local_node st'))
       \<and> (\<forall>h \<in> set hs. chain_contains h (nd_chain (pn_local_node st')))"
proof (induction hs arbitrary: p ws st)
  case (Cons h hs)
  obtain e where e: "map_of (ch_entries c) h = Some e" "br_parent_hash (en_record e) = Some p" and r: "rises c h hs"
    using Cons.prems(1) by auto
  have b: "block_at c h = en_block e" using e(1) by (simp add: block_at_def)
  obtain w ws' where w: "ws = w # ws'" "block_frame P (en_block e) w" "list_all2 (block_frame P) (map (block_at c) hs) ws'"
    using Cons.prems(2) b by (auto simp: list_all2_Cons1)
  then obtain q where q: "decode_frame P w = Inr \<lparr>fr_message_type = BLOCK, fr_payload = q\<rparr>" "decode_block P q = Inr (en_block e)"
    by (auto simp: block_frame_def)
  obtain st1 where s1: "handle_block P i (en_block e) now st = (Inr (), st1)" "same_blocks c (nd_chain (pn_local_node st1))"
      "chain_contains h (nd_chain (pn_local_node st1))" "same_books st st1"
    using handle_block_agree [OF P Cons.prems(3) t Cons.prems(4) e Cons.prems(5)] by blast
  have "snd (handle_block P i (en_block e) now st) = st1" using s1(1) by simp
  then have g1: "p2p_ok_at P i st1" "(node_step P)\<^sup>*\<^sup>* (pn_local_node st) (pn_local_node st1)"
    using keepsD [OF task_local_runs.keeps_handle_block [of P i "pn_local_node st"], of st "en_block e" now] P Cons.prems(3)
    by auto
  have "node_ok P (pn_local_node st)" using p2p_node_ok [OF P] Cons.prems(3) by (simp add: p2p_ok_at_def)
  then have g: "p2p_ok_at P i st1" "chain_grows (nd_chain (pn_local_node st)) (nd_chain (pn_local_node st1))"
    using node_run_grows [OF P g1(2)] g1(1) by blast+
  obtain frames st' where f: "mapE (decode_frame P) ws' = Inr frames" "handle_frames P i frames now st1 = (Inr (), st')"
      "same_books st1 st'" "chain_grows (nd_chain (pn_local_node st1)) (nd_chain (pn_local_node st'))" "p2p_ok_at P i st'"
      "same_blocks c (nd_chain (pn_local_node st'))" "\<forall>h \<in> set hs. chain_contains h (nd_chain (pn_local_node st'))"
    using Cons.IH [OF r w(3) g(1) s1(2,3)] by blast
  have "chain_contains h (nd_chain (pn_local_node st'))"
    using s1(3) f(4) by (auto simp: chain_contains_def chain_grows_def map_le_def dom_def)
  moreover have "handle_frames P i (\<lparr>fr_message_type = BLOCK, fr_payload = q\<rparr> # frames) now st = (Inr (), st')"
    using q(2) s1(1) f(2) by (simp add: handle_frame_def and_then_def compute_def)
  moreover have "same_books st st'" by (rule same_books_trans [OF s1(4) f(3)])
  moreover have "chain_grows (nd_chain (pn_local_node st)) (nd_chain (pn_local_node st'))" by (rule chain_grows_trans [OF g(2) f(4)])
  ultimately show ?case using w(1) q(1) f(1,5,6,7)
    by (intro exI [of _ "\<lparr>fr_message_type = BLOCK, fr_payload = q\<rparr> # frames"] exI [of _ st']) simp
qed (simp add: ret_def)

subsection \<open>One round\<close>

lemma active_hash_branch:
  assumes "chain_ok P c"
  obtains bs where "branch c (ch_tip c) bs" and "distinct bs" and "bs \<noteq> []" and "hd bs = ch_tip c" and "last bs = genesis_id P"
proof -
  obtain bs where "branch c (ch_tip c) bs" "distinct bs" "bs \<noteq> []" "hd bs = ch_tip c"
      "genesis_block P TESTNET = Inr (block_at c (last bs))" "block_hash P (block_at c (last bs)) = Inr (last bs)"
    by (rule active_hashes [OF assms])
  then show thesis using that by (simp add: genesis_id_def)
qed

text \<open>
  The locator names the active chain only. A node that has taken in a side branch whose work is not yet more
  than its own asks for blocks with the same locator as before, so an honest peer sends the same blocks again;
  their next summary then finds no progress, and the node penalises and leaves the peer.
\<close>

lemma same_tip_same_locator:
  assumes P: "platform_ok P" and ok: "p2p_ok P st" and run: "(p2p_step P ip)\<^sup>*\<^sup>* (t, st) (t', st')"
    and tip: "ch_tip (nd_chain (pn_local_node st')) = ch_tip (nd_chain (pn_local_node st))"
  shows "block_locator P st' = block_locator P st"
proof -
  let ?c = "nd_chain (pn_local_node st)" and ?c' = "nd_chain (pn_local_node st')"
  have g: "map_of (ch_entries ?c) \<subseteq>\<^sub>m map_of (ch_entries ?c')" and ok': "p2p_ok P st'"
    using p2p_run_grows [OF P run] p2p_run_ok [OF P run] ok by (simp_all add: chain_grows_def)
  have e: "map_of (ch_entries ?c') h = Some x" if "map_of (ch_entries ?c) h = Some x" for h x
    using g that by (auto simp: map_le_def dom_def)
  obtain bs where bs: "branch ?c (ch_tip ?c) bs" "active_chain ?c = Inr (rev (map (block_at ?c) bs))"
    by (rule active_chain_spec [OF p2p_chain_ok [OF P ok]])
  obtain bs' where bs': "branch ?c' (ch_tip ?c') bs'" "active_chain ?c' = Inr (rev (map (block_at ?c') bs'))"
    by (rule active_chain_spec [OF p2p_chain_ok [OF P ok']])
  have "branch ?c' h hs \<and> map (block_at ?c') hs = map (block_at ?c) hs" if "branch ?c h hs" for h hs
    using that by (induction rule: branch.induct) (auto simp: block_at_def dest!: e intro: branch.intros)
  from this [OF bs(1)] have eq: "bs' = bs" "map (block_at ?c') bs = map (block_at ?c) bs"
    using branch_fun [OF bs'(1)] tip by simp_all
  have "active_chain ?c' = active_chain ?c" unfolding bs(2) bs'(2) eq by (rule refl)
  then show ?thesis by (simp add: block_locator_def)
qed

lemma no_progress_disconnects:
  assumes "check_summary s st = Inr ()" and "update_advertised_summary s (conn st i) = Inr c" and "i < length (pn_objects st)"
    and "chain_cumulative_work (nd_chain (pn_local_node st)) = Inr work" and "work < su_cumulative_work s"
    and "finish_block_request c = (Some (0, start_work), c')" and "work \<le> start_work"
  shows "\<exists>e st'. handle_sync_complete P i s now st = (Inl e, st')"
  using assms by (simp add: handle_sync_complete_def and_then_def reads_state_def change_def)
    (auto simp: and_then_def fail_def split: prod.splits sum.splits)

lemma frames_of_blocks:
  assumes t: "tree_ok P c" and h: "\<forall>h \<in> set hs. \<exists>e. map_of (ch_entries c) h = Some e"
  shows "\<exists>ws. list_all2 (block_frame P) (map (block_at c) hs) ws"
  using h
proof (induction hs)
  case (Cons h hs)
  then obtain e where "map_of (ch_entries c) h = Some e" by auto
  then obtain w where "block_frame P (block_at c h) w" using entry_frame [OF t] by (auto simp: block_at_def)
  then show ?case using Cons by (auto simp: list_all2_Cons1)
qed (simp add: list_all2_Nil exI [of _ "[]"])

lemma block_frames_decode:
  assumes "list_all2 (block_frame P) bs ws" and "mapE (decode_frame P) ws = Inr frames" and "f \<in> set frames"
  shows "fr_message_type f = BLOCK \<and> (\<exists>b \<in> set bs. decode_block P (fr_payload f) = Inr b)"
proof -
  obtain w where w: "w \<in> set ws" "decode_frame P w = Inr f" using mapE_member [OF assms(2,3)] by blast
  obtain n where n: "n < length ws" "ws ! n = w" using w(1) by (auto simp: in_set_conv_nth)
  then have "block_frame P (bs ! n) w" "bs ! n \<in> set bs" using assms(1) by (auto simp: list_all2_conv_all_nth)
  then show ?thesis using w(2) by (auto simp: block_frame_def)
qed

lemma send_blocks_writes:
  assumes c: "chain_ok P (nd_chain (pn_local_node sv))" and j: "can_send sv j"
    and b: "branch (nd_chain (pn_local_node sv)) (ch_tip (nd_chain (pn_local_node sv))) bs"
    and k: "find_common (positions (rev bs)) locator = Some k"
    and ws: "list_all2 (block_frame P) (map (block_at (nd_chain (pn_local_node sv))) (take MAX_BLOCKS_PER_RESPONSE (drop (k + 1) (rev bs)))) ws"
  shows "\<exists>p w. own_summary sv = Inr \<lparr>su_tip_hash = ch_tip (nd_chain (pn_local_node sv)),
      su_height = br_height (en_record (tip_entry (nd_chain (pn_local_node sv)))),
      su_cumulative_work = tip_work (nd_chain (pn_local_node sv))\<rparr> \<and> bindE (own_summary sv) summary_to_bytes = Inr p
    \<and> encode_frame P SYNC_COMPLETE p PROTOCOL_VERSION = Inr w
    \<and> send_blocks P j locator now sv = (Inr (), wrote j (ws @ [w]) sv)"
proof -
  let ?c = "nd_chain (pn_local_node sv)"
  obtain bs' where bs': "branch ?c (ch_tip ?c) bs'" "active_chain ?c = Inr (map (block_at ?c) (rev bs'))"
      "mapE (block_hash P) (map (block_at ?c) (rev bs')) = Inr (rev bs')" by (rule active_hashes [OF c]) blast
  have eq: "bs' = bs" by (rule branch_fun [OF bs'(1) b])
  obtain p w where pw: "own_summary sv = Inr \<lparr>su_tip_hash = ch_tip ?c, su_height = br_height (en_record (tip_entry ?c)),
      su_cumulative_work = tip_work ?c\<rparr>" "bindE (own_summary sv) summary_to_bytes = Inr p"
      "encode_frame P SYNC_COMPLETE p PROTOCOL_VERSION = Inr w"
    using own_summary_encodes [OF c] by blast
  have l: "send_block_list P j (take MAX_BLOCKS_PER_RESPONSE (drop (k + 1) (map (block_at ?c) (rev bs)))) sv = (Inr (), wrote j ws sv)"
    using send_block_list_writes [OF ws j] by (simp add: take_map drop_map)
  have o: "own_summary (wrote j ws sv) = own_summary sv" by (simp add: own_summary_def)
  have "can_send (wrote j ws sv) j" using j by simp
  moreover have "j < length (pn_objects sv)" using j by (simp add: can_send_def)
  ultimately have "send_message P j SYNC_COMPLETE p (wrote j ws sv) = (Inr (), wrote j (ws @ [w]) sv)"
    using send_message_writes [OF _ pw(3), of "wrote j ws sv" j] by simp
  then show ?thesis
    using bs'(2,3) [unfolded eq] k l o pw
    by (simp add: send_blocks_def and_then_def reads_state_def compute_def)
qed

lemma rises_segment: "rises c p hs \<Longrightarrow> rises c p (take n hs)"
  using rises_append [of c p "take n hs" "drop n hs"] by simp

lemma heaviest_work:
  assumes "chain_ok P c" and "map_of (ch_entries c) h = Some e" shows "br_cumulative_work (en_record e) \<le> tip_work c"
  using assms tip_facts(9) [OF assms(1)] by (auto simp: chain_ok_def tip_heaviest_def tip_work_def)

lemma sync_round_facts:
  assumes P: "platform_ok P" and st: "p2p_ok_at P i st" and sv: "p2p_ok P sv" and j: "can_send sv j"
    and s: "same_blocks (nd_chain (pn_local_node sv)) (nd_chain (pn_local_node st))"
  shows "\<exists>locator segment ws w frames st'. block_locator P st = Inr locator \<and>
     (let c = nd_chain (pn_local_node sv); c' = nd_chain (pn_local_node st') in
     send_blocks P j locator now' sv = (Inr (), wrote j (ws @ [w]) sv) \<and>
     list_all2 (block_frame P) (map (block_at c) segment) ws \<and> mapE (decode_frame P) ws = Inr frames \<and>
     bindE (decode_frame P w) (\<lambda>f. summary_from_bytes (fr_payload f)) = own_summary sv \<and>
     handle_frames P i frames now st = (Inr (), st') \<and> same_books st st' \<and>
     (\<forall>h \<in> set segment. chain_contains h c' \<and> chain_contains h c) \<and> length ws = length segment \<and> length ws \<le> 128 \<and>
     (length ws < 128 \<longrightarrow> chain_contains (ch_tip c) c' \<and> tip_work c \<le> tip_work c'))"
proof -
  let ?c = "nd_chain (pn_local_node sv)" and ?b = "nd_chain (pn_local_node st)"
  have ok: "p2p_ok P st" using st by (simp add: p2p_ok_at_def)
  note c = p2p_chain_ok [OF P sv] and b = p2p_chain_ok [OF P ok]
  note t = chain_okD(1) [OF c] and tb = chain_okD(1) [OF b]
  obtain bs where bs: "branch ?c (ch_tip ?c) bs" "distinct bs" "bs \<noteq> []" "hd bs = ch_tip ?c" "last bs = genesis_id P"
    by (rule active_hash_branch [OF c])
  obtain as where as: "branch ?b (ch_tip ?b) as" "as \<noteq> []" "last as = genesis_id P"
    by (rule active_hash_branch [OF b])
  obtain "is" where l: "block_locator P st = Inr (map ((!) (rev as)) is)" "is \<noteq> []" "last is = 0" "\<forall>i \<in> set is. i < length as"
    using block_locator_spec [OF P ok as(1)] by blast
  let ?l = "map ((!) (rev as)) is" and ?a = "rev bs"
  have known: "chain_contains h ?b" if "h \<in> set ?l" for h
  proof -
    have "h \<in> set as" using that l(4) nth_mem [of _ "rev as"] by auto
    then show ?thesis using branch_known [OF tb as(1)] by (auto simp: chain_contains_def)
  qed
  have "genesis_id P \<in> set ?l"
    using last_in_set [of ?l] l(2,3) as by (simp add: last_map flip: hd_conv_nth) (simp add: hd_rev)
  moreover have "genesis_id P \<in> set ?a" using bs(3,5) last_in_set by force
  ultimately obtain k where k: "k < length ?a" "find_common (positions ?a) ?l = Some k" "?a ! k \<in> set ?l"
    using find_common_spec [of ?a "genesis_id P" ?l] bs(2) by auto
  let ?seg = "take MAX_BLOCKS_PER_RESPONSE (drop (k + 1) ?a)"
  have "rises ?c (?a ! k) (drop (k + 1) ?a)"
    using branch_rises [OF bs(1), of "take k ?a" "?a ! k" "drop (k + 1) ?a"] id_take_nth_drop [OF k(1)] by simp
  then have r: "rises ?c (?a ! k) ?seg" by (rule rises_segment)
  have sub: "set ?seg \<subseteq> set bs" using set_take_subset [of _ "drop (k + 1) ?a"] set_drop_subset [of "k + 1" ?a] by force
  then have e: "\<forall>h \<in> set ?seg. \<exists>e. map_of (ch_entries ?c) h = Some e" using branch_known [OF t bs(1)] by blast
  obtain ws where ws: "list_all2 (block_frame P) (map (block_at ?c) ?seg) ws" using frames_of_blocks [OF t e] by blast
  obtain p w where w: "bindE (own_summary sv) summary_to_bytes = Inr p" "encode_frame P SYNC_COMPLETE p PROTOCOL_VERSION = Inr w"
      "send_blocks P j ?l now' sv = (Inr (), wrote j (ws @ [w]) sv)" "\<exists>s. own_summary sv = Inr s"
    using send_blocks_writes [OF c j bs(1) k(2) ws] by blast
  have sm: "bindE (decode_frame P w) (\<lambda>f. summary_from_bytes (fr_payload f)) = own_summary sv"
    using w(1,2,4) decode_frame_iff [of P w "\<lparr>fr_message_type = SYNC_COMPLETE, fr_payload = p\<rparr>"] P
    by (auto simp: summary_from_bytes_iff)
  obtain frames st' where f: "mapE (decode_frame P) ws = Inr frames" "handle_frames P i frames now st = (Inr (), st')" "same_books st st'"
      "chain_grows ?b (nd_chain (pn_local_node st'))" "p2p_ok_at P i st'" "same_blocks ?c (nd_chain (pn_local_node st'))"
      "\<forall>h \<in> set ?seg. chain_contains h (nd_chain (pn_local_node st'))"
    using handle_frames_agree [OF P t r ws st s known [OF k(3)]] by blast
  let ?d = "nd_chain (pn_local_node st')"
  have len: "length ws = length ?seg" using ws by (auto dest: list_all2_lengthD)
  have tip: "chain_contains (ch_tip ?c) ?d" if "length ws < 128"
  proof -
    have seg: "?seg = drop (k + 1) ?a" using that len by (simp add: MAX_BLOCKS_PER_RESPONSE_def)
    show ?thesis
    proof (cases "drop (k + 1) ?a = []")
      case True
      then have "k = length ?a - 1" using k(1) by simp
      then have "?a ! k = ch_tip ?c" using bs(3,4) last_conv_nth [of ?a] by (simp add: last_rev)
      then have "chain_contains (ch_tip ?c) ?b" using known [OF k(3)] by simp
      then show ?thesis using f(4) by (auto simp: chain_contains_def chain_grows_def map_le_def dom_def)
    next
      case False
      then have "ch_tip ?c \<in> set ?seg" unfolding seg using last_in_set [OF False] bs(3,4) by (simp add: last_drop last_rev)
      then show ?thesis using f(7) by blast
    qed
  qed
  have work: "tip_work ?c \<le> tip_work ?d" if "length ws < 128"
  proof -
    have d: "chain_ok P ?d" using p2p_chain_ok [OF P] f(5) by (simp add: p2p_ok_at_def)
    have "chain_contains (ch_tip ?c) ?d" by (rule tip [OF that])
    then obtain e where e: "map_of (ch_entries ?d) (ch_tip ?c) = Some e" by (auto simp: chain_contains_def)
    have "tip_entry ?c = e" by (rule entries_agree [OF t chain_okD(1) [OF d] f(6) tip_facts(9) [OF c] e])
    then show ?thesis using heaviest_work [OF d e] by (simp add: tip_work_def)
  qed
  show ?thesis
    using l(1) w(3) ws f(1,2,3,7) sm len tip work e
    by (intro exI [of _ ?l] exI [of _ ?seg] exI [of _ ws] exI [of _ w] exI [of _ frames] exI [of _ st'])
       (simp add: Let_def chain_contains_def MAX_BLOCKS_PER_RESPONSE_def)
qed

end
