(* ===== verification/P2p_Properties.thy ===== *)
theory P2p_Properties
  imports P2p_Sync
begin

text \<open>The properties of the peer node, over all its runs, and the sample nodes of their witnesses.\<close>

subsection \<open>Ban times, host scores and the node's identity\<close>

definition limits_time :: "rat \<Rightarrow> p2p_node \<Rightarrow> bool" where
  "limits_time now st \<longleftrightarrow> length (pn_node_id st) = 16
     \<and> (\<forall>host v. map_of (pn_banned_until st) host = Some v \<longrightarrow> v \<le> now + BAN_SECONDS)
     \<and> (\<forall>host v. map_of (pn_host_scores st) host = Some v \<longrightarrow> 0 \<le> v)"

lemma limits_time_later: "limits_time t st \<Longrightarrow> t \<le> now \<Longrightarrow> limits_time now st"
  by (fastforce simp: limits_time_def)

lemma limits_time_changes [simp]:
  "limits_time now (set_conn i f st) = limits_time now st" "limits_time now (st\<lparr>pn_local_node := nd\<rparr>) = limits_time now st"
  "limits_time now (st\<lparr>pn_by_node_id := d\<rparr>) = limits_time now st" "limits_time now (st\<lparr>pn_running := r\<rparr>) = limits_time now st"
  "limits_time now (st\<lparr>pn_port := p\<rparr>) = limits_time now st"
  "limits_time now (close_connection j st) = limits_time now st"
  "limits_time now (add_connection host port outbound st) = limits_time now st"
  by (simp_all add: limits_time_def close_connection_def remove_connection_def add_connection_def Let_def split: option.splits)

lemma limits_time_penalize: "limits_time now st \<Longrightarrow> 0 \<le> points \<Longrightarrow> limits_time now (snd (penalize i points now st))"
  by (auto simp: penalize_def Let_def limits_time_def fail_def ret_def update_conv' dict_get_def split: option.splits)

lemma limits_time_states [simp]:
  "limits_time now (handshake_state i h st) = limits_time now st" "limits_time now (run_finally i st) = limits_time now st"
  by (simp_all add: handshake_state_def run_finally_def)

lemma limits_time_fold: "(\<And>i st. limits_time now (f i st) = limits_time now st) \<Longrightarrow> limits_time now (fold f is st) = limits_time now st"
  by (induction "is" arbitrary: st) auto

lemma limits_time_closing [simp]:
  "limits_time now (stop_server st) = limits_time now st" "limits_time now (close_connections is st) = limits_time now st"
  "limits_time now (cancel_tasks is st) = limits_time now st"
  by (simp_all add: stop_server_def close_connections_def cancel_tasks_def limits_time_fold)

lemma limits_time_can_accept: "limits_time now st \<Longrightarrow> limits_time now (snd (can_accept host now st))"
  by (auto simp: can_accept_def Let_def limits_time_def delete_conv')

lemma limits_time_admission:
  assumes "limits_time now st"
  shows "limits_time now (accept ip peername now st)" "limits_time now (snd (connect_check host port now st))"
    "limits_time now (snd (connect_opened ip peername now st))"
  using limits_time_can_accept [OF assms] assms
  by (auto simp: accept_def connect_check_def connect_opened_def fail_def ret_def prod.case_eq_if split: option.split bool.split)

lemma limits_time_server [simp]:
  "limits_time now (snd (start_p2p ip sockets st)) = limits_time now st" "limits_time now (snd (connect_finish i st)) = limits_time now st"
  by (simp_all add: start_p2p_def connect_finish_def Let_def fail_def ret_def split: list.splits prod.splits option.splits)

interpretation timely: node_keeps P "\<lambda>st. (platform_ok P \<and> p2p_ok P st) \<and> limits_time now st" for P now
  by (rule node_keeps_conj [OF tables.node_keeps_axioms]) simp_all

interpretation task_timely: task_keeps P "\<lambda>st. (platform_ok P \<and> p2p_ok_at P i st) \<and> limits_time now st" i now for P i now
  by (rule task_keeps_conj [OF task_tables.task_keeps_axioms], rule node_keeps_conj [OF task_tables.node_keeps_axioms])
     (simp_all add: limits_time_penalize)

lemma p2p_step_timely:
  assumes P: "platform_ok P" and s: "p2p_step P ip (t, st) (t', st')" and ok: "p2p_ok P st" and l: "limits_time t st"
  shows "limits_time t' st'"
proof -
  have k: "limits_time now (snd (m st))" if "keeps (\<lambda>st. (platform_ok P \<and> p2p_ok P st) \<and> limits_time now st) m" "limits_time now st"
    for m :: "('a, p2p_node) operation" and now
    using keepsD [OF that(1)] P ok that(2) by simp
  have "limits_time now (snd (run_task P i now drawn st)) \<and> limits_time now (snd (run_waiting P i now drawn st))"
    if "i < length (pn_objects st)" "limits_time now st" for i drawn now
    using task_timely.run_task_ok [of P i st now drawn] task_timely.run_waiting_ok [of P i st now drawn] P ok that
    by (simp add: p2p_ok_at_def)
  with s show ?thesis
    by (cases rule: p2p_stepE)
       (auto simp: timely.keeps_mine [THEN k] timely.keeps_broadcast [THEN k] limits_time_admission l limits_time_later [OF l])
qed

lemma p2p_start_timely: "p2p_start P (t, st) \<Longrightarrow> limits_time t st"
  by (auto simp: p2p_start_def new_p2p_node_def Let_def limits_time_def split: if_splits)

lemma p2p_reachable_timely:
  assumes P: "platform_ok P" and r: "p2p_reachable P ip (t, st)"
  shows "limits_time t st"
proof -
  have "case x of (t, st) \<Rightarrow> p2p_ok P st \<and> limits_time t st" if "reach (p2p_start P) (p2p_step P ip) x" for x
    using that
  proof (induction rule: reach.induct)
    case (reach_start x)
    then show ?case using p2p_start_ok p2p_start_timely by (cases x) blast
  next
    case (reach_step x y)
    then show ?case using p2p_step_ok [OF P] p2p_step_timely [OF P] by (cases x; cases y) auto
  qed
  then show ?thesis using r by (auto simp: p2p_reachable_def)
qed

subsection \<open>Sample nodes\<close>

text \<open>A node on the sample chain, alone and with an incoming connection.\<close>

definition sample_ip :: "pystr \<Rightarrow> ip option" where
  "sample_ip v = Some (IPv4 0x7F000001)"

definition sample_peer :: "byte \<Rightarrow> p2p_node" where
  "sample_peer n = \<lparr>pn_local_node = sample_node, pn_host = DEFAULT_LISTEN_HOST, pn_port = DEFAULT_TESTNET_PORT,
     pn_node_id = replicate 16 n, pn_limits = default_limits, pn_running = False, pn_objects = [], pn_connections = [],
     pn_by_node_id = [], pn_scores = [], pn_host_scores = [], pn_banned_until = []\<rparr>"

definition sample_connected :: "byte \<Rightarrow> p2p_node" where
  "sample_connected n = accept sample_ip (Some (str ''127.0.0.1'', 40000)) 0 (sample_peer n)"

lemma sample_peer_new: "new_p2p_node sample_node DEFAULT_LISTEN_HOST DEFAULT_TESTNET_PORT None (Some (replicate 16 n)) [] = Inr (sample_peer n)"
  by (simp add: new_p2p_node_def sample_peer_def DEFAULT_LISTEN_HOST_def DEFAULT_TESTNET_PORT_def LOOPBACK_HOSTS_def)

lemma sample_peer_reachable: "p2p_reachable sample_platform ip (0, sample_peer n)"
proof -
  have "new_peer_limits default_limits = Inr (pn_limits (sample_peer n))"
    by (simp add: new_peer_limits_def default_limits_def sample_peer_def MAX_PENDING_SENDS_PER_PEER_def SCORE_DISCONNECT_THRESHOLD_def
        WRITE_TIMEOUT_SECONDS_def)
  then have "p2p_start sample_platform (0, sample_peer n)"
    unfolding p2p_start_def prod.case
    by (intro exI [of _ sample_node] exI [of _ DEFAULT_LISTEN_HOST] exI [of _ DEFAULT_TESTNET_PORT] exI [of _ "None :: peer_limits option"]
          exI [of _ "Some (replicate 16 n)"] exI [of _ "[]"] conjI)
       (simp_all add: sample_node_reachable sample_peer_new)
  then show ?thesis unfolding p2p_reachable_def by (rule reach_start)
qed

lemma sample_connected_reachable: "p2p_reachable sample_platform sample_ip (0, sample_connected n)"
  using sample_peer_reachable unfolding p2p_reachable_def sample_connected_def
  by (rule reach_step) (rule step_accept, simp)

lemma sample_connected_fields:
  "pn_objects (sample_connected n) = [new_connection default_limits (str ''127.0.0.1'') 40000 False]"
  "pn_connections (sample_connected n) = [0]" "pn_local_node (sample_connected n) = sample_node" "pn_limits (sample_connected n) = default_limits"
  "pn_node_id (sample_connected n) = replicate 16 n" "pn_port (sample_connected n) = DEFAULT_TESTNET_PORT"
  by (simp_all add: sample_connected_def accept_def sample_ip_def is_loopback_address_def can_accept_def Let_def sample_peer_def
      dict_get_def default_limits_def host_connection_count_def add_connection_def)

subsection \<open>Misbehaviour\<close>

lemma penalize_scores:
  assumes "i < length (pn_objects st)"
  shows "pn_host_scores (snd (penalize i points now st))
       = AList.update (pc_host (conn st i)) (dict_get (pn_host_scores st) (pc_host (conn st i)) 0 + points) (pn_host_scores st)"
    and "li_score_disconnect_threshold (pn_limits st) \<le> dict_get (pn_host_scores st) (pc_host (conn st i)) 0 + points \<Longrightarrow>
       map_of (pn_banned_until (snd (penalize i points now st))) (pc_host (conn st i)) = Some (now + BAN_SECONDS)"
  using assms by (simp_all add: penalize_def Let_def fail_def ret_def update_conv' split: option.splits)

lemma penalize_over:
  assumes "i < length (pn_objects st)" and "0 \<le> dict_get (pn_host_scores st) (pc_host (conn st i)) 0"
  shows "\<exists>m. penalize i (li_score_disconnect_threshold (pn_limits st)) now st
    = (raise ProtocolError m, snd (penalize i (li_score_disconnect_threshold (pn_limits st)) now st))"
  using assms by (simp add: penalize_def Let_def fail_def ret_def split: option.splits)

lemma penalize_keeps:
  assumes "i < length (pn_objects st)"
  shows "pc_host (conn (snd (penalize i points now st)) i) = pc_host (conn st i)" and "pn_limits (snd (penalize i points now st)) = pn_limits st"
  using assms by (simp_all add: penalize_def Let_def fail_def ret_def split: option.splits)

lemma penalize_raises: "fst (penalize i points now st) = Inr () \<or> (\<exists>m. fst (penalize i points now st) = raise ProtocolError m)"
  by (simp add: penalize_def Let_def fail_def ret_def split: option.splits)

lemma suppress_penalize: "suppress is_protocol_error (penalize i points now) st = (Inr (), snd (penalize i points now st))"
  using penalize_raises [of i points now st]
  by (cases "penalize i points now st") (auto simp: suppress_def split: sum.splits)

lemma run_finally_closes:
  assumes "i < length (pn_objects st)"
  shows "pc_closed (conn (run_finally i st) i) \<and> pc_phase (conn (run_finally i st) i) = Finished
    \<and> pc_host (conn (run_finally i st) i) = pc_host (conn st i)"
proof -
  have c: "pn_objects (remove_connection i st) = pn_objects st" for st
    by (simp add: remove_connection_def Let_def split: option.splits)
  show ?thesis using assms by (simp add: run_finally_def close_connection_def c)
qed

lemma run_finally_books [simp]:
  "pn_host_scores (run_finally i st) = pn_host_scores st" "pn_banned_until (run_finally i st) = pn_banned_until st"
  by (simp_all add: run_finally_def close_connection_def remove_connection_def Let_def split: option.splits)

text \<open>A read that fails, in the two phases that read.\<close>

lemma failed_read_error:
  assumes i: "i < length (pn_objects st)" and ph: "pc_phase (conn st i) = Awaiting_Hello \<or> pc_phase (conn st i) = Serving \<and> \<not> pc_closed (conn st i)"
    and r: "read_frame P (pc_reader (conn st i)) = (Inl e, s)" and k: "exn_kind e \<noteq> PeerFrameTimeoutError"
  shows "run_task P i now drawn st = (case run_error i now e (set_conn i (pc_reader_update (\<lambda>_. s)) st) of (r, st) \<Rightarrow> (r, run_finally i st))"
proof -
  have m: "read_message P i st = (Inl e, set_conn i (pc_reader_update (\<lambda>_. s)) st)" using r by (simp add: read_message_def)
  have "run_handshake P i st = (Inl e, set_conn i (pc_reader_update (\<lambda>_. s)) st)" using m by (simp add: run_handshake_def and_then_def)
  moreover have "run_round P i now drawn st = (Inl e, set_conn i (pc_reader_update (\<lambda>_. s)) st)" using m k by (simp add: run_round_def)
  ultimately show ?thesis using ph by (auto simp: run_task_def run_guarded_def split: prod.split)
qed

lemma closed_not_listed:
  assumes ok: "p2p_ok P st" and c: "pc_closed (conn st i)"
  shows "i \<notin> set (pn_connections st)"
proof
  assume "i \<in> set (pn_connections st)"
  moreover have "tables_ok P (pn_node_id st) (pn_limits st) (map peer_key_of (pn_objects st)) (pn_connections st) (pn_by_node_id st)"
    using ok by (simp add: p2p_ok_def)
  ultimately have "i < length (pn_objects st)" "\<not> pk_closed (map peer_key_of (pn_objects st) ! i)"
    using tables_okD(2) by fastforce+
  then show False using c by (simp add: peer_key_of_def)
qed

lemma bad_bytes_facts:
  assumes "platform_ok P" and "p2p_reachable P ip (t, st)" and "i < length (pn_objects st)"
    and "pc_phase (conn st i) = Awaiting_Hello \<or> pc_phase (conn st i) = Serving \<and> \<not> pc_closed (conn st i)"
    and "read_frame P (pc_reader (conn st i)) = (Inl e, s)" and "exn_kind e \<in> {ProtocolError, UnsupportedProtocolVersionError}"
  shows "\<exists>st' points. run_task P i now drawn st = (Inr (), st') \<and> i \<notin> set (pn_connections st') \<and> pc_phase (conn st' i) = Finished \<and>
    points = (if exn_kind e = ProtocolError then 20 else li_score_disconnect_threshold (pn_limits st)) \<and>
    dict_get (pn_host_scores st') (pc_host (conn st i)) 0 = dict_get (pn_host_scores st) (pc_host (conn st i)) 0 + points \<and>
    (li_score_disconnect_threshold (pn_limits st) \<le> dict_get (pn_host_scores st) (pc_host (conn st i)) 0 + points \<longrightarrow>
      map_of (pn_banned_until st') (pc_host (conn st i)) = Some (now + BAN_SECONDS)) \<and>
    pn_local_node st' = pn_local_node st"
proof -
  let ?p = "if exn_kind e = ProtocolError then 20 else li_score_disconnect_threshold (pn_limits st)"
  let ?st = "set_conn i (pc_reader_update (\<lambda>_. s)) st"
  let ?st' = "run_finally i (snd (penalize i ?p now ?st))"
  have ok: "p2p_ok_at P i st" using p2p_reachable_ok [OF assms(1,2)] assms(3) by (simp add: p2p_ok_at_def)
  have l: "i < length (pn_objects ?st)" using assms(3) by simp
  have "run_error i now e ?st = (Inr (), snd (penalize i ?p now ?st))"
    using assms(6) by (auto simp: run_error_def suppress_penalize)
  moreover have "exn_kind e \<noteq> PeerFrameTimeoutError" using assms(6) by auto
  ultimately have run: "run_task P i now drawn st = (Inr (), ?st')" using failed_read_error [OF assms(3-5)] by simp
  have "p2p_ok_at P i ?st" by (rule p2p_ok_at_set_conn [OF ok]) (simp add: peer_key_of_def)
  then have "p2p_ok_at P i (snd (penalize i ?p now ?st))" by (simp add: p2p_ok_at_def penalize_ok)
  then have ok': "p2p_ok P ?st'" using run_finally_ok by (simp add: p2p_ok_at_def)
  have c: "pc_closed (conn ?st' i)" "pc_phase (conn ?st' i) = Finished"
    using run_finally_closes [of i "snd (penalize i ?p now ?st)"] l by simp_all
  have "i \<notin> set (pn_connections ?st')" by (rule closed_not_listed [OF ok' c(1)])
  moreover have "pc_host (conn ?st i) = pc_host (conn st i)" using assms(3) by simp
  ultimately show ?thesis
    using run c(2) penalize_scores [OF l, of ?p now]
    by (intro exI [of _ ?st'] exI [of _ ?p]) simp
qed

text \<open>A message beyond the limits of the last minute, in a serving task: nothing but the books and the connection changes.\<close>

lemma over_limit_facts:
  assumes "platform_ok P" and "p2p_reachable P ip (t, st)" and "i < length (pn_objects st)"
    and "pc_phase (conn st i) = Serving" and "\<not> pc_closed (conn st i)"
    and "read_frame P (pc_reader (conn st i)) = (Inr f, s)"
    and "\<not> fst (allow (int (FRAME_PREFIX_SIZE + length (fr_payload f))) now (pc_rate_limiter (conn st i)))"
  shows "\<exists>st'. run_task P i now drawn st = (Inr (), st') \<and> i \<notin> set (pn_connections st') \<and> pc_phase (conn st' i) = Finished \<and>
    map_of (pn_banned_until st') (pc_host (conn st i)) = Some (now + BAN_SECONDS) \<and> pn_local_node st' = pn_local_node st"
proof -
  let ?t = "li_score_disconnect_threshold (pn_limits st)" and ?host = "pc_host (conn st i)"
  obtain l where e: "allow (int (FRAME_PREFIX_SIZE + length (fr_payload f))) now (pc_rate_limiter (conn st i)) = (False, l)"
    using assms(7) by (cases "allow (int (FRAME_PREFIX_SIZE + length (fr_payload f))) now (pc_rate_limiter (conn st i))") simp
  let ?st = "set_conn i (pc_rate_limiter_update (\<lambda>_. l)) (set_conn i (pc_reader_update (\<lambda>_. s)) st)"
  have ok: "p2p_ok_at P i st" using p2p_reachable_ok [OF assms(1,2)] assms(3) by (simp add: p2p_ok_at_def)
  have i: "i < length (pn_objects ?st)" and h: "pc_host (conn ?st i) = ?host" using assms(3) by simp_all
  have z: "0 \<le> dict_get (pn_host_scores ?st) ?host 0"
    using p2p_reachable_timely [OF assms(1,2)] by (auto simp: limits_time_def dict_get_def split: option.split)
  obtain m p where m: "penalize i ?t now ?st = (raise ProtocolError m, p)" using z penalize_over [OF i, of now] h by auto
  then have p: "p = snd (penalize i ?t now ?st)" by simp
  let ?st' = "run_finally i (snd (penalize i 20 now p))"
  have "run_round P i now drawn st = (raise ProtocolError m, p)"
    using assms(3,6) e m by (simp add: run_round_def read_message_def and_then_def change_def)
  then have run: "run_task P i now drawn st = (Inr (), ?st')"
    using assms(4,5) by (simp add: run_task_def run_guarded_def run_error_def suppress_penalize)
  have "p2p_ok_at P i ?st" by (intro p2p_ok_at_set_conn ok) (simp_all add: peer_key_of_def)
  then have "p2p_ok_at P i (snd (penalize i 20 now p))" unfolding p by (simp add: p2p_ok_at_def penalize_ok)
  then have ok': "p2p_ok P ?st'" using run_finally_ok by (simp add: p2p_ok_at_def)
  have ip: "i < length (pn_objects p)" using i p by simp
  have c: "pc_closed (conn ?st' i)" "pc_phase (conn ?st' i) = Finished"
    using run_finally_closes [of i "snd (penalize i 20 now p)"] ip by simp_all
  have hp: "pc_host (conn p i) = ?host" "pn_limits p = pn_limits st" using penalize_keeps [OF i] h by (simp_all add: p)
  have "dict_get (pn_host_scores p) ?host 0 = dict_get (pn_host_scores st) ?host 0 + ?t"
    using penalize_scores(1) [OF i] h by (simp add: p dict_get_def update_conv')
  then have "map_of (pn_banned_until (snd (penalize i 20 now p))) ?host = Some (now + BAN_SECONDS)"
    using penalize_scores(2) [OF ip, of 20 now] hp z by simp
  moreover have "pn_local_node ?st' = pn_local_node st" by (simp add: p)
  ultimately show ?thesis
    using run c closed_not_listed [OF ok' c(1)] by (intro exI [of _ ?st']) simp
qed

subsection \<open>Greetings\<close>

lemma tip_ranges:
  assumes c: "chain_ok P c"
  shows "length (ch_tip c) = 32" and "0 \<le> br_height (en_record (tip_entry c))" and "br_height (en_record (tip_entry c)) \<le> U64_MAX"
    and "wire_encode_work (br_cumulative_work (en_record (tip_entry c))) = Inr (to_bytes_be 40 (br_cumulative_work (en_record (tip_entry c))))"
proof -
  note t = chain_okD(1) [OF c] and e = tip_facts(9) [OF c]
  show "length (ch_tip c) = 32" "br_height (en_record (tip_entry c)) \<le> U64_MAX" using entry_header_bytes(2,3) [OF t e] by simp_all
  show "0 \<le> br_height (en_record (tip_entry c))" by (rule entry_okD(2) [OF tree_entry [OF t e]])
  show "wire_encode_work (br_cumulative_work (en_record (tip_entry c))) = Inr (to_bytes_be 40 (br_cumulative_work (en_record (tip_entry c))))"
    using entry_ranges(3) [OF t e] by (auto simp: encode_work_def wire_encode_work_def CUMULATIVE_WORK_BYTES_def WORK_LENGTH_def split: if_splits)
qed

lemma genesis_id_length: "platform_ok P \<Longrightarrow> p2p_ok P st \<Longrightarrow> length (genesis_id P) = 32"
proof -
  assume P: "platform_ok P" and ok: "p2p_ok P st"
  let ?c = "nd_chain (pn_local_node st)"
  obtain bs where bs: "branch ?c (ch_tip ?c) bs" "bs \<noteq> []" "last bs = genesis_id P" by (rule active_hash_branch [OF p2p_chain_ok [OF P ok]])
  then obtain e where "map_of (ch_entries ?c) (genesis_id P) = Some e"
    using branch_known [OF chain_okD(1) [OF p2p_chain_ok [OF P ok]] bs(1)] last_in_set by metis
  then show ?thesis by (rule entry_header_bytes(3) [OF chain_okD(1) [OF p2p_chain_ok [OF P ok]]])
qed

lemma own_hello_encodes:
  assumes P: "platform_ok P" and ok: "p2p_ok P st" and n: "length (pn_node_id st) = 16" and p: "0 \<le> pn_port st" "pn_port st \<le> 65535"
  shows "\<exists>h bs w. own_hello P st = Inr h \<and> hello_to_bytes P h = Inr bs \<and> hello_from_bytes P bs = Inr h
    \<and> encode_frame P HELLO bs PROTOCOL_VERSION = Inr w \<and> decode_frame P w = Inr \<lparr>fr_message_type = HELLO, fr_payload = bs\<rparr>"
proof -
  let ?c = "nd_chain (pn_local_node st)"
  note tr = tip_ranges [OF p2p_chain_ok [OF P ok]] and g = genesis_id_length [OF P ok]
  define h where "h = projr (own_hello P st)"
  have h: "own_hello P st = Inr h" and f: "he_node_id h = pn_node_id st" "he_chain_id h = net_chain_id TESTNET"
      "he_genesis_hash h = genesis_id P" "he_tip_hash h = ch_tip ?c" "he_height h = br_height (en_record (tip_entry ?c))"
      "he_cumulative_work h = br_cumulative_work (en_record (tip_entry ?c))" "he_listen_port h = pn_port st"
    using own_hello_spec [OF P ok] by (simp_all add: h_def)
  have can: "canonical_text P (Some (int 64)) (he_chain_id h)"
    using chain_id_canonical [of P TESTNET] P f(2) by (simp add: MAX_CHAIN_ID_BYTES_def)
  then obtain u where u: "utf8_encode (he_chain_id h) = Inr u" "int (length u) \<le> MAX_WIRE_CHAIN_ID_BYTES"
    by (auto elim!: canonical_textE simp: exceeds_def MAX_WIRE_CHAIN_ID_BYTES_def)
  let ?fs = "[encode_bytes HELLO_DOMAIN, encode_bytes (he_node_id h), encode_text P (he_chain_id h), encode_bytes (he_genesis_hash h),
     encode_bytes (he_tip_hash h), encode_u64 (he_height h), encode_bytes (to_bytes_be 40 (he_cumulative_work h)), encode_u16 (he_listen_port h)]"
  have b: "bindE (wire_encode_work (he_cumulative_work h)) F = F (to_bytes_be 40 (he_cumulative_work h))" for F :: "bytes \<Rightarrow> bytes res"
    unfolding f(6) tr(4) by simp
  have eq: "hello_to_bytes P h = join_fields ?fs"
    using u n g tr(1) b by (simp add: hello_to_bytes_def exact_bytes_def NODE_ID_LENGTH_def WIRE_HASH_LENGTH_def f(1,3,4))
  have d: "length HELLO_DOMAIN \<le> 32" by (simp add: HELLO_DOMAIN_def byte_literal_def)
  have tot: "\<exists>p. encode_bytes v = Inr p" if "length v \<le> 40" for v
    using that by (intro encode_bytes_total) (simp add: U32_MAX_def)
  have "\<exists>q. encode_text P (he_chain_id h) = Inr q" using can by (rule canonical_text_encodes) (simp add: U32_MAX_def)
  then have "list_all (\<lambda>f. \<exists>p. f = Inr p) ?fs"
    using tot d n g tr p f by (simp add: encode_u16_def encode_u64_def encode_unsigned_def U16_MAX_def)
  then obtain bs where bs: "join_fields ?fs = Inr bs" using join_fields_total by blast
  have "size_within (sum_list [36, 20, 68, 36, 36, 8, 44, 2]) (join_fields ?fs)"
    using encode_bytes_size [OF d] encode_bytes_size [of "he_node_id h" 16] encode_bytes_size [of _ 32] encode_bytes_size [of _ 40]
      encode_text_size [OF can] encode_int_size n g tr(1) f by (intro join_fields_size) simp
  then have "length bs \<le> 250" using bs by (simp add: size_within_def)
  then obtain w where w: "encode_frame P HELLO bs PROTOCOL_VERSION = Inr w"
    by (simp add: encode_frame_def PROTOCOL_VERSION_def MAX_FRAME_PAYLOAD_def)
  have "hello_canonical P h" using can by (simp add: hello_canonical_def MAX_WIRE_CHAIN_ID_BYTES_def)
  then show ?thesis
    using h eq bs w decode_frame_iff [of P w "\<lparr>fr_message_type = HELLO, fr_payload = bs\<rparr>"] P
    by (auto simp: hello_from_bytes_iff)
qed

lemma greeting_written:
  assumes P: "platform_ok P" and ok: "p2p_ok P st" and n: "length (pn_node_id st) = 16" and p: "0 \<le> pn_port st" "pn_port st \<le> 65535"
    and c: "can_send st i" and ph: "pc_phase (conn st i) = Starting"
  shows "\<exists>h bs w. own_hello P st = Inr h \<and> hello_from_bytes P bs = Inr h \<and>
    decode_frame P w = Inr \<lparr>fr_message_type = HELLO, fr_payload = bs\<rparr> \<and> encode_frame P HELLO bs PROTOCOL_VERSION = Inr w \<and>
    run_task P i now drawn st = (Inr (), set_conn i (pc_phase_update (\<lambda>_. Awaiting_Hello)) (wrote i [w] st))"
proof -
  obtain h bs w where h: "own_hello P st = Inr h" "hello_to_bytes P h = Inr bs" "hello_from_bytes P bs = Inr h"
      "encode_frame P HELLO bs PROTOCOL_VERSION = Inr w" "decode_frame P w = Inr \<lparr>fr_message_type = HELLO, fr_payload = bs\<rparr>"
    using own_hello_encodes [OF P ok n p] by blast
  then have "run_greeting P i st = (Inr (), set_conn i (pc_phase_update (\<lambda>_. Awaiting_Hello)) (wrote i [w] st))"
    using send_message_writes [OF c h(4)] by (simp add: run_greeting_def and_then_def reads_state_def compute_def change_def)
  then have "run_task P i now drawn st = (Inr (), set_conn i (pc_phase_update (\<lambda>_. Awaiting_Hello)) (wrote i [w] st))"
    using ph by (simp add: run_task_def run_guarded_def)
  with h show ?thesis by blast
qed

lemma can_send_set_conn:
  "(\<And>c. pc_closed (f c) = pc_closed c \<and> pc_writer (f c) = pc_writer c \<and> pc_pending_sends (f c) = pc_pending_sends c) \<Longrightarrow>
     can_send (set_conn i f st) j = can_send st j"
  by (cases "i = j"; cases "j < length (pn_objects st)") (simp_all add: can_send_def)

text \<open>The connection after a request, and \<open>asks\<close>: the frame is the request with the locator of this state.\<close>

definition asked :: "int \<Rightarrow> bytes \<Rightarrow> connection \<Rightarrow> connection" where
  "asked work x c = pc_written_update (\<lambda>ws. ws @ [x]) (c\<lparr>pc_block_request_outstanding := True,
     pc_accepted_blocks_in_request := 0, pc_block_request_start_work := work\<rparr>)"

lemma asked_fields [simp]:
  "pc_closed (asked k x c) = pc_closed c" "pc_writer (asked k x c) = pc_writer c" "pc_pending_sends (asked k x c) = pc_pending_sends c"
  "pc_written (asked k x c) = pc_written c @ [x]" "pc_block_request_outstanding (asked k x c)" "pc_hello (asked k x c) = pc_hello c"
  "pc_accepted_blocks_in_request (asked k x c) = 0" "pc_phase (asked k x c) = pc_phase c" "peer_key_of (asked k x c) = peer_key_of c"
  "pc_reader (asked k x c) = pc_reader c" "pc_rate_limiter (asked k x c) = pc_rate_limiter c"
  by (simp_all add: asked_def peer_key_of_def)

definition asks :: "platform \<Rightarrow> p2p_node \<Rightarrow> bytes \<Rightarrow> bool" where
  "asks P st x \<longleftrightarrow> (\<exists>locator q. block_locator P st = Inr locator \<and> locator_to_bytes locator = Inr q
     \<and> encode_frame P GET_BLOCKS q PROTOCOL_VERSION = Inr x)"

lemma request_blocks_asks:
  assumes P: "platform_ok P" and ok: "p2p_ok P st" and c: "can_send st i" and n: "\<not> pc_block_request_outstanding (conn st i)"
  shows "\<exists>x. asks P st x \<and> request_blocks P i st = (Inr True, set_conn i (asked (tip_work (nd_chain (pn_local_node st))) x) st)"
proof -
  let ?c = "nd_chain (pn_local_node st)" and ?w = "tip_work (nd_chain (pn_local_node st))"
  have w: "chain_cumulative_work ?c = Inr ?w"
    using tip_facts(9) [OF p2p_chain_ok [OF P ok]] by (simp add: chain_cumulative_work_def dict_index_def tip_work_def)
  define d where "d = (conn st i)\<lparr>pc_block_request_outstanding := True, pc_accepted_blocks_in_request := 0, pc_block_request_start_work := ?w\<rparr>"
  let ?st = "set_conn i (\<lambda>_. d) st"
  have i: "i < length (pn_objects st)" using c by (simp add: can_send_def)
  obtain bs where bs: "branch ?c (ch_tip ?c) bs" by (rule active_hash_branch [OF p2p_chain_ok [OF P ok]])
  obtain "is" where l: "block_locator P st = Inr (map ((!) (rev bs)) is)" "is \<noteq> []" "length is \<le> 64" "\<forall>k \<in> set is. k < length bs"
    using block_locator_spec [OF P ok bs] by blast
  note t = chain_okD(1) [OF p2p_chain_ok [OF P ok]]
  have "length h = 32" if "h \<in> set (map ((!) (rev bs)) is)" for h
  proof -
    have "h \<in> set bs" using that l(4) nth_mem [of _ "rev bs"] by auto
    then obtain e where "map_of (ch_entries ?c) h = Some e" using branch_known [OF t bs] by blast
    then show ?thesis by (rule entry_header_bytes(3) [OF t])
  qed
  then obtain q where q: "locator_to_bytes (map ((!) (rev bs)) is) = Inr q" "int (length q) \<le> MAX_FRAME_PAYLOAD"
    using locator_encodes l(2,3) by (metis length_map map_is_Nil_conv)
  then obtain x where x: "encode_frame P GET_BLOCKS q PROTOCOL_VERSION = Inr x" by (simp add: encode_frame_def PROTOCOL_VERSION_def)
  have "can_send ?st i" using c i by (simp add: can_send_def d_def)
  then have "send_message P i GET_BLOCKS q ?st = (Inr (), wrote i [x] ?st)" using x by (rule send_message_writes)
  moreover have "block_locator P ?st = block_locator P st" by (simp add: block_locator_def)
  moreover have "begin_block_request ?w (conn st i) = (True, d)" using n by (simp add: begin_block_request_def d_def)
  moreover have "wrote i [x] ?st = set_conn i (asked ?w x) st"
    using i by (simp add: wrote_def set_conn_def asked_def d_def)
  ultimately have "request_blocks P i st = (Inr True, set_conn i (asked ?w x) st)"
    using w l(1) q(1) by (simp add: request_blocks_def and_then_def reads_state_def on_error_def compute_def ret_def)
  moreover have "asks P st x" using l(1) q(1) x by (auto simp: asks_def)
  ultimately show ?thesis by blast
qed

lemma request_blocks_waits:
  assumes "platform_ok P" and "p2p_ok P st" and "pc_block_request_outstanding (conn st i)"
  shows "request_blocks P i st = (Inr False, st)"
  using assms(3) tip_facts(9) [OF p2p_chain_ok [OF assms(1,2)]]
  by (simp add: request_blocks_def chain_cumulative_work_def dict_index_def tip_work_def and_then_def reads_state_def
      begin_block_request_def ret_def set_conn_def)

lemma handshake_accepts:
  assumes P: "platform_ok P" and ok: "p2p_ok P st" and h: "he_chain_id h = net_chain_id TESTNET" "he_genesis_hash h = genesis_id P"
    and n: "he_node_id h \<noteq> pn_node_id st"
    and f: "\<And>j h'. j \<in> set (pn_connections st) \<Longrightarrow> pc_hello (conn st j) = Some h' \<Longrightarrow> he_node_id h' \<noteq> he_node_id h"
  shows "complete_handshake P i h st = (Inr (), st\<lparr>pn_by_node_id := AList.update (he_node_id h) i (pn_by_node_id st)\<rparr>)"
proof -
  have t: "tables_ok P (pn_node_id st) (pn_limits st) (map peer_key_of (pn_objects st)) (pn_connections st) (pn_by_node_id st)"
    using ok by (simp add: p2p_ok_def)
  have "pc_closed (conn st j)" if "map_of (pn_by_node_id st) (he_node_id h) = Some j" for j
  proof (rule ccontr)
    assume c: "\<not> pc_closed (conn st j)"
    have j: "j < length (pn_objects st)" "\<exists>x. pk_peer (map peer_key_of (pn_objects st) ! j) = Some (he_node_id h, x)"
      using tables_okD(4) [OF t that] by auto
    then obtain h' where "pc_hello (conn st j) = Some h'" "he_node_id h' = he_node_id h" by (auto simp: peer_key_of_def)
    moreover have "j \<in> set (pn_connections st)" using tables_okD(2) [OF t, of j] j(1) c by (simp add: peer_key_of_def)
    ultimately show False using f by blast
  qed
  then have "\<not> (case map_of (pn_by_node_id st) (he_node_id h) of None \<Rightarrow> False | Some j \<Rightarrow> j \<noteq> i \<and> \<not> pc_closed (conn st j))"
    by (auto split: option.splits)
  then show ?thesis
    using own_hello_spec [OF P ok] h n by (simp add: complete_handshake_def and_then_def reads_state_def ret_def)
qed

text \<open>The greeting is taken in; a node with less work asks for blocks unless it has done so before.\<close>

lemma greeting_received:
  assumes P: "platform_ok P" and ok: "p2p_ok P st" and c: "can_send st i" and ph: "pc_phase (conn st i) = Awaiting_Hello"
    and w: "encode_frame P HELLO bs PROTOCOL_VERSION = Inr w" "hello_from_bytes P bs = Inr h"
    and d: "ps_data (pc_reader (conn st i)) = w @ rest"
    and h: "he_chain_id h = net_chain_id TESTNET" "he_genesis_hash h = genesis_id P" "he_node_id h \<noteq> pn_node_id st"
    and f: "\<forall>j h'. j \<in> set (pn_connections st) \<and> pc_hello (conn st j) = Some h' \<longrightarrow> he_node_id h' \<noteq> he_node_id h"
  shows "\<exists>hs st'. hs = handshake_state i h (set_conn i (pc_reader_update (\<lambda>s. s\<lparr>ps_data := rest\<rparr>)) st) \<and> p2p_ok P hs \<and> can_send hs i \<and>
    run_task P i now drawn st = (Inr (), st') \<and>
    (if tip_work (nd_chain (pn_local_node st)) < he_cumulative_work h \<and> \<not> pc_block_request_outstanding (conn st i)
     then \<exists>x. asks P hs x \<and> st' = set_conn i (asked (tip_work (nd_chain (pn_local_node st))) x) hs else st' = hs)"
proof -
  have i: "i < length (pn_objects st)" using c by (simp add: can_send_def)
  have r: "read_frame P (pc_reader (conn st i)) = (Inr \<lparr>fr_message_type = HELLO, fr_payload = bs\<rparr>, (pc_reader (conn st i))\<lparr>ps_data := rest\<rparr>)"
    using read_frame_iff [of P "pc_reader (conn st i)" "\<lparr>fr_message_type = HELLO, fr_payload = bs\<rparr>"
        "\<lparr>ps_data = rest, ps_closed = ps_closed (pc_reader (conn st i))\<rparr>"] P w(1) d
      encode_frame_iff [of P "\<lparr>fr_message_type = HELLO, fr_payload = bs\<rparr>" w]
    by (cases "pc_reader (conn st i)") simp
  let ?st = "set_conn i (pc_reader_update (\<lambda>s. s\<lparr>ps_data := rest\<rparr>)) st"
  have ok1: "p2p_ok P ?st" by (rule p2p_ok_set_conn [OF ok]) (simp add: peer_key_of_def)
  have ph1: "pc_phase (conn ?st i) = Awaiting_Hello" using ph i by simp
  have f1: "he_node_id h' \<noteq> he_node_id h" if "j \<in> set (pn_connections ?st)" "pc_hello (conn ?st j) = Some h'" for j h'
    using that f i by (cases "j = i") auto
  have hs: "complete_handshake P i h ?st = (Inr (), ?st\<lparr>pn_by_node_id := AList.update (he_node_id h) i (pn_by_node_id ?st)\<rparr>)"
    by (rule handshake_accepts [OF P ok1 h(1,2) _ f1]) (simp add: h(3))
  let ?hs = "handshake_state i h ?st"
  have ok2: "p2p_ok P ?hs" using handshake_ok [OF P ok1 _ ph1 hs] i by simp
  have l: "pn_local_node ?hs = pn_local_node st" by simp
  have o: "pc_block_request_outstanding (conn ?hs i) = pc_block_request_outstanding (conn st i)" using i by (simp add: handshake_state_def)
  have cs: "can_send ?hs i" using c i by (simp add: handshake_state_def can_send_def)
  have wk: "chain_cumulative_work (nd_chain (pn_local_node st)) = Inr (tip_work (nd_chain (pn_local_node st)))"
    using tip_facts(9) [OF p2p_chain_ok [OF P ok]] by (simp add: chain_cumulative_work_def dict_index_def tip_work_def)
  let ?more = "tip_work (nd_chain (pn_local_node st)) < he_cumulative_work h"
  obtain q st2 where q: "request_blocks P i ?hs = (Inr q, st2)"
      "if pc_block_request_outstanding (conn st i) then st2 = ?hs
       else \<exists>x. asks P ?hs x \<and> st2 = set_conn i (asked (tip_work (nd_chain (pn_local_node st))) x) ?hs"
    using request_blocks_waits [OF P ok2, of i] request_blocks_asks [OF P ok2 cs] unfolding o l
    by (cases "pc_block_request_outstanding (conn st i)") auto
  let ?st' = "if ?more then st2 else ?hs"
  have "greet P i \<lparr>fr_message_type = HELLO, fr_payload = bs\<rparr> ?st = (Inr (), ?st')"
    using w(2) hs q(1) wk l
    by (simp add: greet_def and_then_def compute_def change_def reads_state_def handshake_state_def ret_def)
  moreover have "pc_reader_update (\<lambda>_. (pc_reader (conn st i))\<lparr>ps_data := rest\<rparr>) (conn st i) = pc_reader_update (\<lambda>s. s\<lparr>ps_data := rest\<rparr>) (conn st i)"
    by (cases "conn st i") simp
  then have "read_message P i st = (Inr \<lparr>fr_message_type = HELLO, fr_payload = bs\<rparr>, ?st)"
    unfolding read_message_def set_conn_def r prod.case by (simp only:)
  ultimately have "run_handshake P i st = (Inr (), ?st')" by (simp add: run_handshake_def and_then_def)
  then have run: "run_task P i now drawn st = (Inr (), ?st')" using ph by (simp add: run_task_def run_guarded_def)
  show ?thesis
    by (rule exI [of _ ?hs], rule exI [of _ ?st'])
       (use ok2 cs run q(2) in \<open>auto split: if_splits\<close>)
qed

text \<open>Bytes arrive for a connection, as in \<open>step_arrival\<close>.\<close>

definition deliver :: "nat \<Rightarrow> bytes \<Rightarrow> p2p_node \<Rightarrow> p2p_node" where
  "deliver i bs = set_conn i (pc_reader_update (\<lambda>s. s\<lparr>ps_data := ps_data s @ bs\<rparr>))"

lemma one_side:
  assumes P: "platform_ok P" and ok: "p2p_ok P a" "p2p_ok P b" and n: "pn_node_id b \<noteq> pn_node_id a"
    and c: "can_send a i" and ph: "pc_phase (conn a i) = Starting" and e: "ps_data (pc_reader (conn a i)) = []"
    and f: "\<forall>k h. k \<in> set (pn_connections a) \<and> pc_hello (conn a k) = Some h \<longrightarrow> he_node_id h \<noteq> pn_node_id b"
    and g: "own_hello P b = Inr h" "hello_from_bytes P bs = Inr h" "encode_frame P HELLO bs PROTOCOL_VERSION = Inr w"
    and a1: "a1 = set_conn i (pc_phase_update (\<lambda>_. Awaiting_Hello)) (wrote i [wa] a)"
  shows "\<exists>a2. run_task P i now drawn (deliver i w a1) = (Inr (), a2) \<and> pc_phase (conn a2 i) = Serving
    \<and> pc_hello (conn a2 i) = Some h \<and> map_of (pn_by_node_id a2) (pn_node_id b) = Some i
    \<and> p2p_ok P a2 \<and> can_send a2 i \<and> pn_local_node a2 = pn_local_node a
    \<and> ps_data (pc_reader (conn a2 i)) = [] \<and> pc_rate_limiter (conn a2 i) = pc_rate_limiter (conn a i) \<and> pn_limits a2 = pn_limits a
    \<and> (tip_work (nd_chain (pn_local_node a)) < tip_work (nd_chain (pn_local_node b)) \<longrightarrow> pc_block_request_outstanding (conn a2 i)
        \<and> (\<not> pc_block_request_outstanding (conn a i) \<longrightarrow> pc_accepted_blocks_in_request (conn a2 i) = 0
          \<and> (\<exists>x. asks P a2 x \<and> pc_written (conn a2 i) = pc_written (conn a1 i) @ [x])))"
proof -
  have i: "i < length (pn_objects a)" using c by (simp add: can_send_def)
  let ?st = "deliver i w a1"
  have "p2p_ok P (wrote i [wa] a)"
    unfolding wrote_def by (rule p2p_ok_set_conn [OF ok(1)]) (simp add: peer_key_of_def)
  then have "p2p_ok P a1"
    unfolding a1 by (rule p2p_ok_set_conn) (use ph i in \<open>simp add: peer_key_of_def wrote_def\<close>)
  then have st: "p2p_ok P ?st"
    unfolding deliver_def by (rule p2p_ok_set_conn) (simp add: peer_key_of_def)
  have cs: "can_send ?st i" using c by (simp add: deliver_def a1 can_send_set_conn)
  have rd: "pc_phase (conn ?st i) = Awaiting_Hello" "ps_data (pc_reader (conn ?st i)) = w @ []"
      "pc_block_request_outstanding (conn ?st i) = pc_block_request_outstanding (conn a i)" "pc_written (conn ?st i) = pc_written (conn a1 i)"
      "i < length (pn_objects ?st)"
    using i e by (simp_all add: deliver_def a1 wrote_def)
  have k: "pc_hello (conn ?st k) = pc_hello (conn a k)" for k
    using i by (cases "k = i") (simp_all add: deliver_def a1 wrote_def)
  have h: "he_node_id h = pn_node_id b" "he_chain_id h = net_chain_id TESTNET" "he_genesis_hash h = genesis_id P"
      "he_cumulative_work h = tip_work (nd_chain (pn_local_node b))"
    using own_hello_spec [OF P ok(2)] g(1) by (auto simp: tip_work_def)
  have fields: "pn_node_id ?st = pn_node_id a" "pn_connections ?st = pn_connections a" "pn_local_node ?st = pn_local_node a"
    by (simp_all add: deliver_def a1 wrote_def)
  have ids: "\<forall>j h'. j \<in> set (pn_connections ?st) \<and> pc_hello (conn ?st j) = Some h' \<longrightarrow> he_node_id h' \<noteq> he_node_id h"
    using f k h(1) fields(2) by simp
  have n': "he_node_id h \<noteq> pn_node_id ?st" using n h(1) fields(1) by simp
  obtain hs a2 where r: "hs = handshake_state i h (set_conn i (pc_reader_update (\<lambda>s. s\<lparr>ps_data := []\<rparr>)) ?st)" "p2p_ok P hs" "can_send hs i"
      "run_task P i now drawn ?st = (Inr (), a2)"
      "if tip_work (nd_chain (pn_local_node a)) < he_cumulative_work h \<and> \<not> pc_block_request_outstanding (conn a i)
       then \<exists>x. asks P hs x \<and> a2 = set_conn i (asked (tip_work (nd_chain (pn_local_node a))) x) hs else a2 = hs"
    using greeting_received [where now = now and drawn = drawn, OF P st cs rd(1) g(3,2) rd(2) h(2,3) n' ids]
    unfolding fields rd(3) by (elim exE conjE) (rule that)
  have v: "pc_phase (conn hs i) = Serving" "pc_hello (conn hs i) = Some h" "map_of (pn_by_node_id hs) (he_node_id h) = Some i"
      "pn_local_node hs = pn_local_node a" "pc_block_request_outstanding (conn hs i) = pc_block_request_outstanding (conn a i)"
      "pc_written (conn hs i) = pc_written (conn a1 i)" "i < length (pn_objects hs)"
    using rd fields by (simp_all add: r(1) handshake_state_def)
  have u: "ps_data (pc_reader (conn hs i)) = []" "pc_rate_limiter (conn hs i) = pc_rate_limiter (conn a i)" "pn_limits hs = pn_limits a"
    using rd(5) i by (simp_all add: r(1) handshake_state_def deliver_def a1 wrote_def)
  have ok': "p2p_ok P (set_conn i (asked m x) hs)" "can_send (set_conn i (asked m x) hs) i" for m x
    using r(2,3) by (auto intro!: p2p_ok_set_conn simp: can_send_set_conn)
  have a: "asks P (set_conn i g hs) x = asks P hs x" for g x by (simp add: asks_def block_locator_def)
  show ?thesis
    by (rule exI [of _ a2]) (use r(2-5) v u ok' a h(1,4) in \<open>auto split: if_splits\<close>)
qed

subsection \<open>More samples\<close>

lemma sample_can_send: "can_send (sample_connected n) 0"
  by (simp add: can_send_def sample_connected_fields new_connection_def default_limits_def MAX_PENDING_SENDS_PER_PEER_def)

lemma sample_fresh: "pc_phase (conn (sample_connected n) 0) = Starting" "ps_data (pc_reader (conn (sample_connected n) 0)) = []"
  "pc_hello (conn (sample_connected n) 0) = None" "pc_host (conn (sample_connected n) 0) = str ''127.0.0.1''"
  by (simp_all add: sample_connected_fields new_connection_def)

text \<open>The sample node has greeted its peer and gets a frame of another protocol version.\<close>

definition sample_frame :: bytes where
  "sample_frame = NETWORK_MAGIC @ [0, 2, 0, 0, 0, 0, 0, 0, 0, 0, 0]"

definition sample_garbled :: p2p_node where
  "sample_garbled = deliver 0 sample_frame (snd (run_task sample_platform 0 0 [] (sample_connected 1)))"

lemma sample_greeted:
  "\<exists>w. snd (run_task sample_platform 0 0 [] (sample_connected 1)) = set_conn 0 (pc_phase_update (\<lambda>_. Awaiting_Hello)) (wrote 0 [w] (sample_connected 1))"
proof -
  have ok: "p2p_ok sample_platform (sample_connected 1)" by (rule p2p_reachable_ok [OF sample_platform_ok sample_connected_reachable])
  have "0 \<le> pn_port (sample_connected 1)" "pn_port (sample_connected 1) \<le> 65535" "length (pn_node_id (sample_connected 1)) = 16"
    by (simp_all add: sample_connected_fields DEFAULT_TESTNET_PORT_def)
  from greeting_written [OF sample_platform_ok ok this(3,1,2) sample_can_send sample_fresh(1), of 0 "[]"] show ?thesis by auto
qed

lemma sample_garbled_conn:
  "length (pn_objects sample_garbled) = 1" "pc_phase (conn sample_garbled 0) = Awaiting_Hello"
  "pc_reader (conn sample_garbled 0) = \<lparr>ps_data = sample_frame, ps_closed = False\<rparr>"
  "pc_host (conn sample_garbled 0) = str ''127.0.0.1''" "pn_limits sample_garbled = default_limits"
  using sample_greeted by (auto simp: sample_garbled_def deliver_def wrote_def sample_connected_fields new_connection_def)

lemma sample_garbled_reachable: "p2p_reachable sample_platform sample_ip (0, sample_garbled)"
proof -
  let ?st = "snd (run_task sample_platform 0 0 [] (sample_connected 1))"
  have "p2p_reachable sample_platform sample_ip (0, ?st)"
    using sample_connected_reachable [of 1] unfolding p2p_reachable_def
    by (rule reach_step) (rule step_task, simp_all add: sample_connected_fields)
  moreover have "\<not> ps_closed (pc_reader (conn ?st 0))"
    using sample_greeted by (auto simp: wrote_def sample_connected_fields new_connection_def)
  then have "p2p_step sample_platform sample_ip (0, ?st) (0, sample_garbled)"
    unfolding sample_garbled_def deliver_def by (rule step_arrival)
  ultimately show ?thesis unfolding p2p_reachable_def by (rule reach_step)
qed

lemma sample_garbled_read:
  "\<exists>e s. read_frame sample_platform (pc_reader (conn sample_garbled 0)) = (Inl e, s) \<and> exn_kind e = UnsupportedProtocolVersionError"
  unfolding sample_garbled_conn(3) sample_frame_def
  by (simp add: read_frame_def read_exactly_def unpack_prefix_def check_prefix_def FRAME_PREFIX_SIZE_def PROTOCOL_VERSION_def
      NETWORK_MAGIC_def byte_literal_def from_bytes_be_def)

definition sample_banned :: p2p_node where
  "sample_banned = snd (run_task sample_platform 0 0 [] sample_garbled)"

lemma sample_banned_reachable: "p2p_reachable sample_platform sample_ip (0, sample_banned)"
  using sample_garbled_reachable unfolding p2p_reachable_def sample_banned_def
  by (rule reach_step) (rule step_task, simp_all add: sample_garbled_conn)

text \<open>A node that allows one byte a minute, greeted by a peer that goes on with a second frame.\<close>

definition strict_limits :: peer_limits where
  "strict_limits = default_limits\<lparr>li_max_bytes_per_minute := 1\<rparr>"

definition sample_strict :: p2p_node where
  "sample_strict = accept sample_ip (Some (str ''127.0.0.1'', 40000)) 0 ((sample_peer 1)\<lparr>pn_limits := strict_limits\<rparr>)"

lemma sample_strict_fields:
  "pn_objects sample_strict = [new_connection strict_limits (str ''127.0.0.1'') 40000 False]" "pn_connections sample_strict = [0]"
  "pn_local_node sample_strict = sample_node" "pn_limits sample_strict = strict_limits" "pn_node_id sample_strict = replicate 16 1" "pn_port sample_strict = DEFAULT_TESTNET_PORT"
  by (simp_all add: sample_strict_def accept_def sample_ip_def is_loopback_address_def can_accept_def Let_def sample_peer_def
      strict_limits_def dict_get_def default_limits_def host_connection_count_def add_connection_def)

lemma sample_strict_reachable: "p2p_reachable sample_platform sample_ip (0, sample_strict)"
proof -
  let ?st = "(sample_peer 1)\<lparr>pn_limits := strict_limits\<rparr>"
  have "new_peer_limits strict_limits = Inr (pn_limits ?st)"
    by (simp add: new_peer_limits_def strict_limits_def default_limits_def MAX_PENDING_SENDS_PER_PEER_def SCORE_DISCONNECT_THRESHOLD_def
        WRITE_TIMEOUT_SECONDS_def)
  moreover have "new_p2p_node sample_node DEFAULT_LISTEN_HOST DEFAULT_TESTNET_PORT (Some strict_limits) (Some (replicate 16 1)) [] = Inr ?st"
    by (simp add: new_p2p_node_def sample_peer_def DEFAULT_LISTEN_HOST_def DEFAULT_TESTNET_PORT_def LOOPBACK_HOSTS_def)
  ultimately have "p2p_start sample_platform (0, ?st)"
    unfolding p2p_start_def prod.case
    by (intro exI [of _ sample_node] exI [of _ DEFAULT_LISTEN_HOST] exI [of _ DEFAULT_TESTNET_PORT] exI [of _ "Some strict_limits"]
          exI [of _ "Some (replicate 16 1)"] exI [of _ "[]"] conjI)
       (simp_all add: sample_node_reachable)
  then have "p2p_reachable sample_platform sample_ip (0, ?st)" unfolding p2p_reachable_def by (rule reach_start)
  then show ?thesis unfolding p2p_reachable_def sample_strict_def by (rule reach_step) (rule step_accept, simp)
qed

lemma task_reachable:
  "p2p_reachable P ip (t, st) \<Longrightarrow> i < length (pn_objects st) \<Longrightarrow> run_task P i t drawn st = (r, st') \<Longrightarrow> p2p_reachable P ip (t, st')"
  unfolding p2p_reachable_def by (erule reach_step) (metis order_refl snd_conv step_task)

lemma deliver_reachable:
  "p2p_reachable P ip (t, st) \<Longrightarrow> \<not> ps_closed (pc_reader (conn st i)) \<Longrightarrow> p2p_reachable P ip (t, deliver i bs st)"
  unfolding p2p_reachable_def deliver_def by (erule reach_step) (rule step_arrival)

lemma sample_flooded:
  obtains st f s where "p2p_reachable sample_platform sample_ip (0, st)" and "0 < length (pn_objects st)"
    and "pc_phase (conn st 0) = Serving" and "\<not> pc_closed (conn st 0)" and "read_frame sample_platform (pc_reader (conn st 0)) = (Inr f, s)"
    and "\<not> fst (allow (int (FRAME_PREFIX_SIZE + length (fr_payload f))) 0 (pc_rate_limiter (conn st 0)))"
proof -
  let ?P = sample_platform
  note P = sample_platform_ok and r0 = sample_strict_reachable
  have ok: "p2p_ok ?P sample_strict" "p2p_ok ?P (sample_connected 2)"
    by (rule p2p_reachable_ok [OF P r0], rule p2p_reachable_ok [OF P sample_connected_reachable])
  have f: "length (pn_node_id sample_strict) = 16" "0 \<le> pn_port sample_strict" "pn_port sample_strict \<le> 65535"
      "length (pn_node_id (sample_connected 2)) = 16" "0 \<le> pn_port (sample_connected 2)" "pn_port (sample_connected 2) \<le> 65535"
    by (simp_all add: sample_strict_fields sample_connected_fields DEFAULT_TESTNET_PORT_def)
  have cs: "can_send sample_strict 0" "pc_phase (conn sample_strict 0) = Starting"
    by (simp_all add: can_send_def sample_strict_fields new_connection_def strict_limits_def default_limits_def MAX_PENDING_SENDS_PER_PEER_def)
  obtain w1 where g: "run_task ?P 0 0 [] sample_strict = (Inr (), set_conn 0 (pc_phase_update (\<lambda>_. Awaiting_Hello)) (wrote 0 [w1] sample_strict))"
    using greeting_written [OF P ok(1) f(1-3) cs, of 0 "[]"] by blast
  obtain h bs w where h: "own_hello ?P (sample_connected 2) = Inr h" "hello_from_bytes ?P bs = Inr h" "encode_frame ?P HELLO bs PROTOCOL_VERSION = Inr w"
    using own_hello_encodes [OF P ok(2) f(4-6)] by blast
  define st1 where "st1 = deliver 0 w (set_conn 0 (pc_phase_update (\<lambda>_. Awaiting_Hello)) (wrote 0 [w1] sample_strict))"
  have c1: "conn st1 0 = (new_connection strict_limits (str ''127.0.0.1'') 40000 False)\<lparr>pc_phase := Awaiting_Hello, pc_written := [w1],
      pc_reader := \<lparr>ps_data = w @ [], ps_closed = False\<rparr>\<rparr>" "length (pn_objects st1) = 1"
    by (simp_all add: st1_def deliver_def wrote_def sample_strict_fields new_connection_def)
  have r1: "p2p_reachable ?P sample_ip (0, st1)" unfolding st1_def
    by (intro deliver_reachable task_reachable [OF r0 _ g]) (simp_all add: sample_strict_fields wrote_def new_connection_def)
  have hf: "he_chain_id h = net_chain_id TESTNET" "he_genesis_hash h = genesis_id ?P" "he_node_id h \<noteq> pn_node_id st1"
      "he_cumulative_work h = tip_work (nd_chain (pn_local_node st1))"
    using own_hello_spec [OF P ok(2)] h(1)
    by (auto simp: st1_def deliver_def wrote_def sample_strict_fields sample_connected_fields tip_work_def)
  have d1: "can_send st1 0" "pc_phase (conn st1 0) = Awaiting_Hello" "ps_data (pc_reader (conn st1 0)) = w @ []"
      "\<forall>j h'. j \<in> set (pn_connections st1) \<and> pc_hello (conn st1 j) = Some h' \<longrightarrow> he_node_id h' \<noteq> he_node_id h"
    using c1 cs(1) by (simp_all add: st1_def deliver_def wrote_def sample_strict_fields can_send_def new_connection_def)
  obtain st2 where st2: "st2 = handshake_state 0 h (set_conn 0 (pc_reader_update (\<lambda>s. s\<lparr>ps_data := []\<rparr>)) st1)"
      "run_task ?P 0 0 [] st1 = (Inr (), st2)"
    using greeting_received [where now = 0 and drawn = "[]", OF P p2p_reachable_ok [OF P r1] d1(1,2) h(3,2) d1(3) hf(1-3) d1(4)] hf(4) by auto
  have r2: "p2p_reachable ?P sample_ip (0, st2)" by (rule task_reachable [OF r1 _ st2(2)]) (simp add: c1)
  obtain x where x: "encode_frame ?P PING [] PROTOCOL_VERSION = Inr x" by (simp add: encode_frame_def PROTOCOL_VERSION_def MAX_FRAME_PAYLOAD_def)
  let ?st = "deliver 0 x st2" and ?f = "\<lparr>fr_message_type = PING, fr_payload = []\<rparr>"
  have c2: "conn ?st 0 = (conn st1 0)\<lparr>pc_reader := \<lparr>ps_data = x, ps_closed = False\<rparr>, pc_hello := Some h,
      pc_score := dict_get (pn_scores st1) (he_node_id h) 0, pc_handshake_complete := True, pc_phase := Serving\<rparr>" "length (pn_objects ?st) = 1"
    using c1 by (simp_all add: deliver_def st2(1) handshake_state_def new_connection_def)
  have rd: "pc_reader (conn ?st 0) = \<lparr>ps_data = x, ps_closed = False\<rparr>" by (simp add: c2)
  show thesis
  proof (rule that [of ?st ?f "\<lparr>ps_data = [], ps_closed = False\<rparr>"])
    show "p2p_reachable ?P sample_ip (0, ?st)"
      by (rule deliver_reachable [OF r2]) (use c1 in \<open>simp add: st2(1) handshake_state_def new_connection_def\<close>)
    show "read_frame ?P (pc_reader (conn ?st 0)) = (Inr ?f, \<lparr>ps_data = [], ps_closed = False\<rparr>)"
      unfolding rd using P x encode_frame_iff [of ?P ?f x] by (simp add: read_frame_iff)
    show "\<not> fst (allow (int (FRAME_PREFIX_SIZE + length (fr_payload ?f))) 0 (pc_rate_limiter (conn ?st 0)))"
      by (simp add: c2 c1 new_connection_def new_rate_limiter_def allow_def Let_def strict_limits_def default_limits_def FRAME_PREFIX_SIZE_def)
  qed (simp_all add: c2, simp add: c1 new_connection_def)
qed

subsection \<open>Properties\<close>

text \<open>C7. \<open>peer_tables_consistent\<close>: at any moment of any run the tables of a peer node fit together. The open
  connections are exactly the connection objects not closed, listed once, within the limit for all peers
  and for each host; the node-ID table leads from every greeted open peer back to its connection, so two
  open connections never share a node ID, and every greeted peer is on the node's chain and is not the
  node itself; a host whose score has reached the threshold has been banned.\<close>

theorem peer_tables_consistent:
  assumes "platform_ok P" and "p2p_reachable P ip (t, st)"
  shows "distinct (pn_connections st) \<and>
    (\<forall>i. i \<in> set (pn_connections st) \<longleftrightarrow> i < length (pn_objects st) \<and> \<not> pc_closed (conn st i)) \<and>
    int (length (pn_connections st)) \<le> li_max_peers (pn_limits st) \<and>
    (\<forall>host. host_connection_count host st \<le> li_max_peers_per_ip (pn_limits st)) \<and>
    (\<forall>i h. i \<in> set (pn_connections st) \<and> pc_hello (conn st i) = Some h \<longrightarrow>
       map_of (pn_by_node_id st) (he_node_id h) = Some i \<and> he_node_id h \<noteq> pn_node_id st \<and>
       he_chain_id h = net_chain_id TESTNET \<and> he_genesis_hash h = genesis_id P) \<and>
    (\<forall>host. li_score_disconnect_threshold (pn_limits st) \<le> dict_get (pn_host_scores st) host 0 \<longrightarrow>
       map_of (pn_banned_until st) host \<noteq> None)"
proof -
  let ?ks = "map peer_key_of (pn_objects st)"
  have ok: "p2p_ok P st" by (rule p2p_reachable_ok [OF assms])
  then have t: "tables_ok P (pn_node_id st) (pn_limits st) ?ks (pn_connections st) (pn_by_node_id st)"
    by (simp add: p2p_ok_def)
  note d = tables_okD [OF t]
  have lt: "\<forall>i \<in> set (pn_connections st). i < length (pn_objects st)" using d(2) by auto
  have o: "i \<in> set (pn_connections st) \<longleftrightarrow> i < length (pn_objects st) \<and> \<not> pc_closed (conn st i)" for i
    using d(2) [of i] by (auto simp: peer_key_of_def)
  have c: "host_connection_count host st \<le> li_max_peers_per_ip (pn_limits st)" for host
    using d(7) [of host] lt unfolding host_connection_count_def by (simp add: peer_key_of_def cong: filter_cong)
  have h: "map_of (pn_by_node_id st) (he_node_id h) = Some i \<and> he_node_id h \<noteq> pn_node_id st \<and>
       he_chain_id h = net_chain_id TESTNET \<and> he_genesis_hash h = genesis_id P"
    if i: "i \<in> set (pn_connections st)" "pc_hello (conn st i) = Some h" for i h
  proof -
    have "i < length ?ks" using i lt by simp
    then have k: "?ks ! i \<in> set ?ks" by (rule nth_mem)
    have p: "pk_peer (?ks ! i) = Some (he_node_id h, he_chain_id h, he_genesis_hash h)"
      using i lt by (simp add: peer_key_of_def)
    show ?thesis using d(8) [OF i(1) p] d(5) [OF k p] by blast
  qed
  have b: "\<forall>host. li_score_disconnect_threshold (pn_limits st) \<le> dict_get (pn_host_scores st) host 0 \<longrightarrow>
      map_of (pn_banned_until st) host \<noteq> None"
    using ok by (simp add: p2p_ok_def bans_ok_def)
  show ?thesis by (intro conjI d(1,6) b allI impI o c) (use h in blast)+
qed

lemma peer_tables_consistent_witness:
  "pn_connections (sample_connected 1) = [0] \<and> host_connection_count (str ''127.0.0.1'') (sample_connected 1) \<le> 4"
  using peer_tables_consistent [OF sample_platform_ok sample_connected_reachable [of 1]]
  by (simp add: sample_connected_fields default_limits_def)

text \<open>C6. \<open>blocks_outlive_peers\<close>: along any run, whatever peers send and however tasks, sockets and the caller
  interleave, a block the node knows stays known as the same block, and the work of its tip never falls.\<close>

theorem blocks_outlive_peers:
  assumes "platform_ok P" and "p2p_reachable P ip (t, st)" and "(p2p_step P ip)\<^sup>*\<^sup>* (t, st) (t', st')"
  shows "(\<forall>h b. get_block h (nd_chain (pn_local_node st)) = Inr b \<longrightarrow> get_block h (nd_chain (pn_local_node st')) = Inr b) \<and>
    (\<exists>w w'. chain_cumulative_work (nd_chain (pn_local_node st)) = Inr w \<and>
       chain_cumulative_work (nd_chain (pn_local_node st')) = Inr w' \<and> w \<le> w')"
proof -
  have ok: "p2p_ok P st" by (rule p2p_reachable_ok [OF assms(1,2)])
  then have ok': "p2p_ok P st'" using p2p_run_ok [OF assms(1,3)] by simp
  have g: "chain_grows (nd_chain (pn_local_node st)) (nd_chain (pn_local_node st'))"
    using p2p_run_grows [OF assms(1,3)] ok by simp
  have w: "chain_cumulative_work (nd_chain (pn_local_node st)) = Inr (tip_work (nd_chain (pn_local_node st)))" if "p2p_ok P st" for st
    using tip_facts(9) [OF p2p_chain_ok [OF assms(1) that]]
    by (simp add: chain_cumulative_work_def dict_index_def tip_work_def)
  show ?thesis
    using g w [OF ok] w [OF ok']
    by (auto simp: chain_grows_def get_block_def known_entry_iff bindE_eq_Inr map_le_def dom_def)
qed

lemma blocks_outlive_peers_witness:
  "\<exists>w'. chain_cumulative_work (nd_chain (pn_local_node (close_connections (pn_connections (sample_connected 1)) (sample_connected 1)))) = Inr w' \<and> projr (chain_cumulative_work sample_chain) \<le> w'"
proof -
  have "(p2p_step sample_platform sample_ip)\<^sup>*\<^sup>* (0, sample_connected 1) (0, close_connections (pn_connections (sample_connected 1)) (sample_connected 1))"
    by (rule r_into_rtranclp) (rule step_close, simp)
  from blocks_outlive_peers [OF sample_platform_ok sample_connected_reachable this] show ?thesis
    by (auto simp: sample_connected_fields sample_node_def)
qed
text \<open>C8. \<open>bans_hold\<close>: from the moment a host is banned until the time of its ban is over, no run of the node
  opens a connection to it or accepts one from it, and the host stays refused.\<close>

theorem bans_hold:
  assumes "platform_ok P" and "p2p_reachable P ip (t, st)" and "map_of (pn_banned_until st) host = Some v"
    and "(p2p_step P ip)\<^sup>*\<^sup>* (t, st) (t', st')" and "t' < v"
  shows "open_on host st' \<subseteq> open_on host st \<and> \<not> fst (can_accept host t' st')"
proof -
  have ok: "p2p_ok P st" by (rule p2p_reachable_ok [OF assms(1,2)])
  have b: "ban_kept host v (open_on host st) st" using assms(3) by (simp add: ban_kept_def)
  have "v \<le> t + BAN_SECONDS" using p2p_reachable_timely [OF assms(1,2)] assms(3) by (simp add: limits_time_def)
  then have k: "ban_kept host v (open_on host st) st'"
    using p2p_run_ban [OF assms(1,4), of host v "open_on host st"] ok b assms(5) by simp
  then show ?thesis
    using can_accept_banned [OF k assms(5), of host "fst (can_accept host t' st')" "snd (can_accept host t' st')"]
    by (auto simp: ban_kept_def)
qed

lemma bans_hold_witness:
  "map_of (pn_banned_until sample_banned) (str ''127.0.0.1'') = Some 60 \<and> \<not> fst (can_accept (str ''127.0.0.1'') 0 sample_banned)"
proof -
  obtain e s where r: "read_frame sample_platform (pc_reader (conn sample_garbled 0)) = (Inl e, s)"
    "exn_kind e \<in> {ProtocolError, UnsupportedProtocolVersionError}" "exn_kind e \<noteq> ProtocolError" using sample_garbled_read by auto
  have "\<forall>host. dict_get (pn_host_scores sample_garbled) host 0 = 0"
    using sample_greeted by (auto simp: sample_garbled_def deliver_def wrote_def sample_connected_def accept_def sample_ip_def
      is_loopback_address_def can_accept_def Let_def sample_peer_def dict_get_def default_limits_def host_connection_count_def add_connection_def set_conn_def)
  then have b: "map_of (pn_banned_until sample_banned) (str ''127.0.0.1'') = Some 60"
    using bad_bytes_facts [OF sample_platform_ok sample_garbled_reachable _ _ r(1,2), of 0 "[]"] sample_garbled_conn r(3)
    by (auto simp: sample_banned_def BAN_SECONDS_def)
  from bans_hold [OF sample_platform_ok sample_banned_reachable b rtranclp.rtrancl_refl] show ?thesis using b by simp
qed
text \<open>C9. \<open>bad_bytes_are_punished\<close>: bytes that are no frame of the protocol end the connection that brought them. Its
  task finishes without an exception, the connection leaves the table, the score of its host goes up by 20,
  or by the whole threshold when the frame has another protocol version, and a host whose score reaches the
  threshold is banned for a minute from now; the local node is not touched.\<close>

theorem bad_bytes_are_punished:
  assumes "platform_ok P" and "p2p_reachable P ip (t, st)" and "i < length (pn_objects st)"
    and "pc_phase (conn st i) = Awaiting_Hello \<or> pc_phase (conn st i) = Serving \<and> \<not> pc_closed (conn st i)"
    and "read_frame P (pc_reader (conn st i)) = (Inl e, s)" and "exn_kind e \<in> {ProtocolError, UnsupportedProtocolVersionError}"
  shows "\<exists>st' points. run_task P i now drawn st = (Inr (), st') \<and> i \<notin> set (pn_connections st') \<and> pc_phase (conn st' i) = Finished \<and>
    points = (if exn_kind e = ProtocolError then 20 else li_score_disconnect_threshold (pn_limits st)) \<and>
    dict_get (pn_host_scores st') (pc_host (conn st i)) 0 = dict_get (pn_host_scores st) (pc_host (conn st i)) 0 + points \<and>
    (li_score_disconnect_threshold (pn_limits st) \<le> dict_get (pn_host_scores st) (pc_host (conn st i)) 0 + points \<longrightarrow>
      map_of (pn_banned_until st') (pc_host (conn st i)) = Some (now + BAN_SECONDS)) \<and>
    pn_local_node st' = pn_local_node st"
  by (rule bad_bytes_facts [OF assms])

lemma bad_bytes_are_punished_witness:
  "\<exists>st'. run_task sample_platform 0 0 [] sample_garbled = (Inr (), st') \<and> 0 \<notin> set (pn_connections st') \<and> pc_phase (conn st' 0) = Finished"
proof -
  obtain e s where r: "read_frame sample_platform (pc_reader (conn sample_garbled 0)) = (Inl e, s)"
    "exn_kind e \<in> {ProtocolError, UnsupportedProtocolVersionError}" using sample_garbled_read by auto
  have "0 < length (pn_objects sample_garbled)"
    "pc_phase (conn sample_garbled 0) = Awaiting_Hello \<or> pc_phase (conn sample_garbled 0) = Serving \<and> \<not> pc_closed (conn sample_garbled 0)"
    using sample_garbled_conn by simp_all
  from bad_bytes_are_punished [OF sample_platform_ok sample_garbled_reachable this r, of 0 "[]"] show ?thesis by blast
qed

text \<open>C10. \<open>over_limit_peer_is_banned\<close>: a serving task that reads a well-formed frame beyond the limits of its last minute handles
  nothing of it: it bans the peer's host, closes the connection and ends, with the local node as it was. This
  holds whatever the frame is and whatever the node has asked for, so the blocks of a requested synchronisation
  count against the limit of messages like all others.\<close>

theorem over_limit_peer_is_banned:
  assumes "platform_ok P" and "p2p_reachable P ip (t, st)" and "i < length (pn_objects st)"
    and "pc_phase (conn st i) = Serving" and "\<not> pc_closed (conn st i)"
    and "read_frame P (pc_reader (conn st i)) = (Inr f, s)"
    and "\<not> fst (allow (int (FRAME_PREFIX_SIZE + length (fr_payload f))) now (pc_rate_limiter (conn st i)))"
  shows "\<exists>st'. run_task P i now drawn st = (Inr (), st') \<and> i \<notin> set (pn_connections st') \<and> pc_phase (conn st' i) = Finished \<and>
    map_of (pn_banned_until st') (pc_host (conn st i)) = Some (now + BAN_SECONDS) \<and> pn_local_node st' = pn_local_node st"
  by (rule over_limit_facts [OF assms])

lemma over_limit_peer_is_banned_witness:
  "\<exists>st f s st'. read_frame sample_platform (pc_reader (conn st 0)) = (Inr f, s) \<and> run_task sample_platform 0 0 [] st = (Inr (), st') \<and>
     map_of (pn_banned_until st') (pc_host (conn st 0)) = Some BAN_SECONDS"
proof -
  obtain st f s where st: "p2p_reachable sample_platform sample_ip (0, st)" "0 < length (pn_objects st)" "pc_phase (conn st 0) = Serving"
      "\<not> pc_closed (conn st 0)" "read_frame sample_platform (pc_reader (conn st 0)) = (Inr f, s)"
      "\<not> fst (allow (int (FRAME_PREFIX_SIZE + length (fr_payload f))) 0 (pc_rate_limiter (conn st 0)))"
    by (rule sample_flooded)
  from over_limit_peer_is_banned [OF sample_platform_ok st, of "[]"] st(5) show ?thesis by auto
qed

text \<open>C11. \<open>honest_nodes_connect\<close>: two nodes of the program with different node IDs always get through their greetings.
  Each writes one frame; when these have arrived both tasks are serving, each side has the other's greeting and
  finds its connection under the other's node ID, and the side with less work has asked for blocks.\<close>

theorem honest_nodes_connect:
  assumes "platform_ok P" and "p2p_reachable P ip (t, a)" and "p2p_reachable P ip' (t', b)" and "pn_node_id a \<noteq> pn_node_id b"
    and "0 \<le> pn_port a" and "pn_port a \<le> 65535" and "0 \<le> pn_port b" and "pn_port b \<le> 65535"
    and "can_send a i" and "pc_phase (conn a i) = Starting" and "ps_data (pc_reader (conn a i)) = []"
    and "can_send b j" and "pc_phase (conn b j) = Starting" and "ps_data (pc_reader (conn b j)) = []"
    and "\<forall>k h. k \<in> set (pn_connections a) \<and> pc_hello (conn a k) = Some h \<longrightarrow> he_node_id h \<noteq> pn_node_id b"
    and "\<forall>k h. k \<in> set (pn_connections b) \<and> pc_hello (conn b k) = Some h \<longrightarrow> he_node_id h \<noteq> pn_node_id a"
  shows "\<exists>a1 b1 wa wb a2 b2 ha hb.
    run_task P i now drawn a = (Inr (), a1) \<and> pc_written (conn a1 i) = pc_written (conn a i) @ [wa] \<and>
    run_task P j now drawn b = (Inr (), b1) \<and> pc_written (conn b1 j) = pc_written (conn b j) @ [wb] \<and>
    run_task P i now drawn (deliver i wb a1) = (Inr (), a2) \<and> run_task P j now drawn (deliver j wa b1) = (Inr (), b2) \<and>
    own_hello P a = Inr ha \<and> pc_phase (conn b2 j) = Serving \<and> pc_hello (conn b2 j) = Some ha \<and> map_of (pn_by_node_id b2) (pn_node_id a) = Some j \<and>
    own_hello P b = Inr hb \<and> pc_phase (conn a2 i) = Serving \<and> pc_hello (conn a2 i) = Some hb \<and> map_of (pn_by_node_id a2) (pn_node_id b) = Some i \<and>
    (tip_work (nd_chain (pn_local_node a)) < tip_work (nd_chain (pn_local_node b)) \<longrightarrow> pc_block_request_outstanding (conn a2 i)) \<and>
    (tip_work (nd_chain (pn_local_node b)) < tip_work (nd_chain (pn_local_node a)) \<longrightarrow> pc_block_request_outstanding (conn b2 j))"
proof -
  note P = assms(1)
  have a: "p2p_ok P a" "length (pn_node_id a) = 16"
    using p2p_reachable_ok [OF P assms(2)] p2p_reachable_timely [OF P assms(2)] by (simp_all add: limits_time_def)
  have b: "p2p_ok P b" "length (pn_node_id b) = 16"
    using p2p_reachable_ok [OF P assms(3)] p2p_reachable_timely [OF P assms(3)] by (simp_all add: limits_time_def)
  obtain ha xa wa where ha: "own_hello P a = Inr ha" "hello_from_bytes P xa = Inr ha" "encode_frame P HELLO xa PROTOCOL_VERSION = Inr wa"
      "run_task P i now drawn a = (Inr (), set_conn i (pc_phase_update (\<lambda>_. Awaiting_Hello)) (wrote i [wa] a))"
    using greeting_written [OF P a assms(5,6,9,10)] by blast
  obtain hb xb wb where hb: "own_hello P b = Inr hb" "hello_from_bytes P xb = Inr hb" "encode_frame P HELLO xb PROTOCOL_VERSION = Inr wb"
      "run_task P j now drawn b = (Inr (), set_conn j (pc_phase_update (\<lambda>_. Awaiting_Hello)) (wrote j [wb] b))"
    using greeting_written [OF P b assms(7,8,12,13)] by blast
  have w: "pc_written (conn (set_conn k (pc_phase_update (\<lambda>_. Awaiting_Hello)) (wrote k [x] st)) k) = pc_written (conn st k) @ [x]"
    if "can_send st k" for k x st
    using that by (simp add: can_send_def wrote_def)
  obtain a2 where a2: "run_task P i now drawn (deliver i wb (set_conn i (pc_phase_update (\<lambda>_. Awaiting_Hello)) (wrote i [wa] a))) = (Inr (), a2)"
      "pc_phase (conn a2 i) = Serving" "pc_hello (conn a2 i) = Some hb" "map_of (pn_by_node_id a2) (pn_node_id b) = Some i"
      "tip_work (nd_chain (pn_local_node a)) < tip_work (nd_chain (pn_local_node b)) \<longrightarrow> pc_block_request_outstanding (conn a2 i)"
    using one_side [OF P a(1) b(1) assms(4) [symmetric] assms(9-11,15) hb(1-3) refl] by blast
  obtain b2 where b2: "run_task P j now drawn (deliver j wa (set_conn j (pc_phase_update (\<lambda>_. Awaiting_Hello)) (wrote j [wb] b))) = (Inr (), b2)"
      "pc_phase (conn b2 j) = Serving" "pc_hello (conn b2 j) = Some ha" "map_of (pn_by_node_id b2) (pn_node_id a) = Some j"
      "tip_work (nd_chain (pn_local_node b)) < tip_work (nd_chain (pn_local_node a)) \<longrightarrow> pc_block_request_outstanding (conn b2 j)"
    using one_side [OF P b(1) a(1) assms(4) assms(12-14,16) ha(1-3) refl] by blast
  show ?thesis
    using ha(1,4) hb(1,4) w [OF assms(9)] w [OF assms(12)] a2 b2 by blast
qed

lemma honest_nodes_connect_witness:
  "\<exists>a1 wb a2 hb. run_task sample_platform 0 0 [] (sample_connected 1) = (Inr (), a1) \<and>
     run_task sample_platform 0 0 [] (deliver 0 wb a1) = (Inr (), a2) \<and> own_hello sample_platform (sample_connected 2) = Inr hb \<and>
     pc_hello (conn a2 0) = Some hb"
proof -
  have p: "pn_node_id (sample_connected 1) \<noteq> pn_node_id (sample_connected 2)"
    "0 \<le> pn_port (sample_connected n)" "pn_port (sample_connected n) \<le> 65535" for n
    by (simp_all add: sample_connected_fields DEFAULT_TESTNET_PORT_def)
  have n: "\<forall>k h. k \<in> set (pn_connections (sample_connected m)) \<and> pc_hello (conn (sample_connected m) k) = Some h \<longrightarrow> he_node_id h \<noteq> x" for m x
    by (simp add: sample_connected_fields new_connection_def)
  from honest_nodes_connect [OF sample_platform_ok sample_connected_reachable sample_connected_reachable p(1) p(2,3) p(2,3)
      sample_can_send sample_fresh(1,2) sample_can_send sample_fresh(1,2) n n, of 0 "[]"]
  show ?thesis by blast
qed

text \<open>C30. \<open>block_locator_shape\<close>: the locator of a node is a list of 1 to 64 hashes of its active chain at falling
  heights, from the tip down to the genesis block, and has an encoding its peer reads back.\<close>

theorem block_locator_shape:
  assumes "platform_ok P" and "p2p_reachable P ip (t, st)"
  shows "\<exists>blocks hashes heights. active_chain (nd_chain (pn_local_node st)) = Inr blocks \<and> mapE (block_hash P) blocks = Inr hashes \<and>
    block_locator P st = Inr (map ((!) hashes) heights) \<and> sorted_wrt (>) heights \<and> 1 \<le> length heights \<and> length heights \<le> 64 \<and>
    hd heights = length hashes - 1 \<and> last heights = 0 \<and> (\<forall>k \<in> set heights. k < length hashes) \<and>
    (\<exists>bs. locator_to_bytes (map ((!) hashes) heights) = Inr bs \<and> locator_from_bytes bs = Inr (map ((!) hashes) heights))"
proof -
  let ?c = "nd_chain (pn_local_node st)"
  have ok: "p2p_ok P st" by (rule p2p_reachable_ok [OF assms])
  note c = p2p_chain_ok [OF assms(1) ok]
  obtain bs where bs: "branch ?c (ch_tip ?c) bs" "active_chain ?c = Inr (map (block_at ?c) (rev bs))"
      "mapE (block_hash P) (map (block_at ?c) (rev bs)) = Inr (rev bs)" by (rule active_hashes [OF c]) blast
  obtain ks where l: "block_locator P st = Inr (map ((!) (rev bs)) ks)" "sorted_wrt (>) ks" "ks \<noteq> []" "hd ks = length bs - 1"
      "last ks = 0" "length ks \<le> 64" "\<forall>k \<in> set ks. k < length bs"
    using block_locator_spec [OF assms(1) ok bs(1)] by blast
  have "length h = 32" if "h \<in> set (map ((!) (rev bs)) ks)" for h
  proof -
    have "h \<in> set bs" using that l(7) nth_mem [of _ "rev bs"] by auto
    then obtain e where "map_of (ch_entries ?c) h = Some e" using branch_known [OF chain_okD(1) [OF c] bs(1)] by blast
    then show ?thesis by (rule entry_header_bytes(3) [OF chain_okD(1) [OF c]])
  qed
  then obtain q where q: "locator_to_bytes (map ((!) (rev bs)) ks) = Inr q"
    using locator_encodes [of "map ((!) (rev bs)) ks"] l(3,6) by auto
  show ?thesis
    by (rule exI [of _ "map (block_at ?c) (rev bs)"], rule exI [of _ "rev bs"], rule exI [of _ ks])
       (use l bs(2,3) q in \<open>simp add: locator_from_bytes_iff Suc_le_eq\<close>)
qed

lemma block_locator_shape_witness: "\<exists>locator. block_locator sample_platform (sample_connected 1) = Inr locator \<and> length locator \<le> 64"
  using block_locator_shape [OF sample_platform_ok sample_connected_reachable [of 1]] by auto

text \<open>C4. \<open>sync_round\<close>: one round of block synchronisation between two nodes of the program whose chains hold no two
  blocks of the same hash. The node \<open>sv\<close> answers the other's locator with block frames and then its summary; the
  other handles these frames without an error and without touching a score or a ban, and knows every block
  that was sent. When fewer than 128 blocks were sent, it has the sender's tip and at least its work.\<close>

theorem sync_round:
  assumes "platform_ok P" and "p2p_reachable P ip (t, st)" and "i < length (pn_objects st)"
    and "p2p_reachable P ip' (t', sv)" and "can_send sv j"
    and "same_blocks (nd_chain (pn_local_node sv)) (nd_chain (pn_local_node st))"
  shows "\<exists>locator segment ws w frames st'. block_locator P st = Inr locator \<and>
     (let c = nd_chain (pn_local_node sv); c' = nd_chain (pn_local_node st') in
     send_blocks P j locator now' sv = (Inr (), wrote j (ws @ [w]) sv) \<and>
     list_all2 (block_frame P) (map (block_at c) segment) ws \<and> mapE (decode_frame P) ws = Inr frames \<and>
     bindE (decode_frame P w) (\<lambda>f. summary_from_bytes (fr_payload f)) = own_summary sv \<and>
     handle_frames P i frames now st = (Inr (), st') \<and> same_books st st' \<and>
     (\<forall>h \<in> set segment. chain_contains h c' \<and> chain_contains h c) \<and> length ws = length segment \<and> length ws \<le> 128 \<and>
     (length ws < 128 \<longrightarrow> chain_contains (ch_tip c) c' \<and> tip_work c \<le> tip_work c'))"
proof -
  have "p2p_ok_at P i st" using p2p_reachable_ok [OF assms(1,2)] assms(3) by (simp add: p2p_ok_at_def)
  then show ?thesis using p2p_reachable_ok [OF assms(1,4)] assms(5,6) by (rule sync_round_facts [OF assms(1)])
qed

text \<open>A node whose chain has one block more than the sample chain.\<close>

definition sample_ahead :: p2p_node where
  "sample_ahead = (sample_connected 2)\<lparr>pn_local_node := snd (submit_block sample_platform sample_next sample_node)\<rparr>"

lemma sample_ahead_local: "pn_local_node sample_ahead = snd (submit_block sample_platform sample_next sample_node)"
  by (simp add: sample_ahead_def)

lemma sample_ahead_reachable: "p2p_reachable sample_platform sample_ip (0, sample_ahead)"
proof -
  have "node_step sample_platform (pn_local_node (sample_connected 2)) (snd (submit_block sample_platform sample_next sample_node))"
    unfolding sample_connected_fields by (rule step_submit_block)
  then have "p2p_step sample_platform sample_ip (0, sample_connected 2) (0, sample_ahead)"
    unfolding sample_ahead_def by (rule step_local)
  with sample_connected_reachable [of 2] show ?thesis unfolding p2p_reachable_def by (rule reach_step)
qed

lemma sample_ahead_blocks: "same_blocks (nd_chain (pn_local_node sample_ahead)) (nd_chain (pn_local_node (sample_connected 1)))"
proof -
  have "chain_grows (nd_chain sample_node) (nd_chain (pn_local_node sample_ahead))"
    unfolding sample_ahead_local
    by (rule submit_block_grows [OF sample_platform_ok node_reachable_ok [OF sample_platform_ok sample_node_reachable]])
  then have "map_of (ch_entries (nd_chain (pn_local_node sample_ahead))) h = Some e"
    if "map_of (ch_entries (nd_chain sample_node)) h = Some e" for h e
    using that unfolding chain_grows_def map_le_def by (metis domI)
  then show ?thesis unfolding same_blocks_def sample_connected_fields by (metis option.inject)
qed

lemma sync_round_witness:
  "\<exists>locator ws w. block_locator sample_platform (sample_connected 1) = Inr locator \<and>
     send_blocks sample_platform 0 locator 0 sample_ahead = (Inr (), wrote 0 (ws @ [w]) sample_ahead)"
proof -
  have "0 < length (pn_objects (sample_connected 1))" by (simp add: sample_connected_fields)
  moreover have "can_send sample_ahead 0"
    using sample_can_send [of 2] by (simp add: sample_ahead_def can_send_def)
  ultimately show ?thesis
    using sync_round [OF sample_platform_ok sample_connected_reachable _ sample_ahead_reachable _ sample_ahead_blocks, of 0 0 0 0]
    by (auto simp: Let_def)
qed

end
