(* ===== verification/P2p_Catch_Up.thy ===== *)
theory P2p_Catch_Up
  imports P2p_Properties
begin

text \<open>
  Synchronisation to the end: a node whose chain is a prefix of its peer's asks, and the tasks of the two
  nodes, each reading, counting and handling what the other has written, go on until the chains are the same.
\<close>

subsection \<open>Conversations\<close>

text \<open>
  What was written to connection \<open>i\<close> between two states, and what the task of a connection makes of bytes that
  arrive on it: one round of the task for every frame, with the rate limiter that it asks before each.
\<close>

definition said :: "nat \<Rightarrow> p2p_node \<Rightarrow> p2p_node \<Rightarrow> bytes list" where
  "said i before after = drop (length (pc_written (conn before i))) (pc_written (conn after i))"

fun rounds :: "platform \<Rightarrow> nat \<Rightarrow> rat \<Rightarrow> bytes \<Rightarrow> nat \<Rightarrow> (unit, p2p_node) operation" where
  "rounds P i now drawn 0 = ret ()"
| "rounds P i now drawn (Suc k) = and_then (run_task P i now drawn) (\<lambda>_. rounds P i now drawn k)"

definition hear :: "platform \<Rightarrow> nat \<Rightarrow> rat \<Rightarrow> bytes \<Rightarrow> bytes list \<Rightarrow> (unit, p2p_node) operation" where
  "hear P i now drawn ws st = rounds P i now drawn (length ws) (deliver i (concat ws) st)"

text \<open>
  \<open>n\<close> times: the server hears what the asking node has said, and then the asking node hears the answer. The clock
  gives the time of each exchange, counted down to the last.
\<close>

fun converse :: "platform \<Rightarrow> nat \<Rightarrow> nat \<Rightarrow> (nat \<Rightarrow> rat) \<Rightarrow> bytes \<Rightarrow> nat \<Rightarrow> bytes list \<Rightarrow> p2p_node \<Rightarrow> p2p_node \<Rightarrow>
    (bytes list \<times> p2p_node \<times> p2p_node) res" where
  "converse P i j clock drawn 0 ws st sv = Inr (ws, st, sv)"
| "converse P i j clock drawn (Suc n) ws st sv =
     (case hear P j (clock n) drawn ws sv of
        (Inl e, _) \<Rightarrow> Inl e
      | (Inr _, sv') \<Rightarrow>
        (case hear P i (clock n) drawn (said j sv sv') st of
           (Inl e, _) \<Rightarrow> Inl e
         | (Inr _, st') \<Rightarrow> converse P i j clock drawn n (said i st st') st' sv'))"

subsection \<open>The budget of a limiter\<close>

text \<open>At most \<open>k\<close> frames and \<open>B\<close> bytes have been let through so far.\<close>

definition spent :: "peer_limits \<Rightarrow> nat \<Rightarrow> int \<Rightarrow> rate_limiter \<Rightarrow> bool" where
  "spent l k B r \<longleftrightarrow> rl_limits r = l \<and> length (rl_events r) \<le> k \<and> rl_bytes r \<le> B \<and> (\<forall>e \<in> set (rl_events r). 0 \<le> snd e)"

lemma spent_new: "spent l 0 0 (new_rate_limiter l)"
  by (simp add: spent_def new_rate_limiter_def)

lemma expire_events_less:
  "expire_events cutoff events used = (events', used') \<Longrightarrow> \<forall>e \<in> set events. 0 \<le> snd e \<Longrightarrow>
     length events' \<le> length events \<and> used' \<le> used \<and> (\<forall>e \<in> set events'. 0 \<le> snd e)"
  by (induction cutoff events used rule: expire_events.induct) (auto split: if_splits)

text \<open>Within the limits a frame passes, whatever the time.\<close>

lemma allow_within:
  assumes r: "spent l k B r" and n: "0 \<le> n" "int k + 1 \<le> li_max_messages_per_minute l" "B + n \<le> li_max_bytes_per_minute l"
  shows "\<exists>r'. allow n now r = (True, r') \<and> spent l (Suc k) (B + n) r'"
proof -
  obtain events used where e: "expire_events (now - 60) (rl_events r) (rl_bytes r) = (events, used)" by fastforce
  have l: "length events \<le> length (rl_events r) \<and> used \<le> rl_bytes r \<and> (\<forall>e \<in> set events. 0 \<le> snd e)"
    by (rule expire_events_less [OF e]) (use r in \<open>simp add: spent_def\<close>)
  then have "length events \<le> k" "used \<le> B" using r by (simp_all add: spent_def)
  then show ?thesis using r n l by (auto simp: allow_def e Let_def spent_def)
qed

subsection \<open>One round\<close>

text \<open>The connection after a frame was read and counted.\<close>

definition heard :: "bytes \<Rightarrow> rate_limiter \<Rightarrow> connection \<Rightarrow> connection" where
  "heard rest limiter c = c\<lparr>pc_reader := (pc_reader c)\<lparr>ps_data := rest\<rparr>, pc_rate_limiter := limiter\<rparr>"

lemma heard_fields [simp]:
  "pc_closed (heard rest l c) = pc_closed c" "pc_writer (heard rest l c) = pc_writer c" "pc_pending_sends (heard rest l c) = pc_pending_sends c"
  "pc_written (heard rest l c) = pc_written c" "pc_block_request_outstanding (heard rest l c) = pc_block_request_outstanding c"
  "pc_accepted_blocks_in_request (heard rest l c) = pc_accepted_blocks_in_request c" "pc_phase (heard rest l c) = pc_phase c"
  "pc_hello (heard rest l c) = pc_hello c" "pc_rate_limiter (heard rest l c) = l" "ps_data (pc_reader (heard rest l c)) = rest"
  "peer_key_of (heard rest l c) = peer_key_of c" "heard rest l (heard rest' l' c) = heard rest l c"
  by (simp_all add: heard_def peer_key_of_def)

lemma heard_note: "heard rest l (note_accepted_block c) = note_accepted_block (heard rest l c)"
  by (simp add: heard_def note_accepted_block_def)

lemma read_next:
  assumes P: "hash_ok P" and w: "decode_frame P w = Inr f" and d: "ps_data s = w @ rest"
  shows "read_frame P s = (Inr f, s\<lparr>ps_data := rest\<rparr>)" and "length w = FRAME_PREFIX_SIZE + length (fr_payload f)"
proof -
  have e: "int (length (fr_payload f)) \<le> MAX_FRAME_PAYLOAD" "w = prefix_bytes (prefix_of P f) @ fr_payload f"
    using w decode_frame_iff [OF P] encode_frame_iff by blast+
  then show "length w = FRAME_PREFIX_SIZE + length (fr_payload f)" by (simp add: length_prefix_bytes [OF P] FRAME_PREFIX_SIZE_def)
  show "read_frame P s = (Inr f, s\<lparr>ps_data := rest\<rparr>)"
    using e d read_frame_iff [OF P, of s f "s\<lparr>ps_data := rest\<rparr>"] by (cases s) simp
qed

text \<open>A task that serves reads the next frame, and lets it through while the budget lasts; then it is the handler's turn.\<close>

lemma task_hears:
  assumes P: "platform_ok P" and c: "can_send st i" and ph: "pc_phase (conn st i) = Serving"
    and d: "ps_data (pc_reader (conn st i)) = w @ rest" and w: "decode_frame P w = Inr f"
    and l: "spent (pn_limits st) k B (pc_rate_limiter (conn st i))"
    and n: "int k + 1 \<le> li_max_messages_per_minute (pn_limits st)" "B + int (length w) \<le> li_max_bytes_per_minute (pn_limits st)"
  obtains limiter where "spent (pn_limits st) (Suc k) (B + int (length w)) limiter"
    and "\<And>st'. handle_frame P i f now (set_conn i (heard rest limiter) st) = (Inr (), st') \<Longrightarrow> run_task P i now drawn st = (Inr (), st')"
proof -
  have h: "hash_ok P" using P by simp
  note r = read_next [OF h w d]
  have i: "i < length (pn_objects st)" "\<not> pc_closed (conn st i)" using c by (simp_all add: can_send_def)
  obtain limiter where a: "allow (int (length w)) now (pc_rate_limiter (conn st i)) = (True, limiter)"
      "spent (pn_limits st) (Suc k) (B + int (length w)) limiter"
    using allow_within [OF l _ n] by auto
  define st1 where "st1 = set_conn i (pc_reader_update (\<lambda>_. (pc_reader (conn st i))\<lparr>ps_data := rest\<rparr>)) st"
  have m: "read_message P i st = (Inr f, st1)" unfolding read_message_def r(1) prod.case st1_def by (rule refl)
  have "pc_rate_limiter (conn st1 i) = pc_rate_limiter (conn st i)" using i by (simp add: st1_def)
  moreover have "set_conn i (pc_rate_limiter_update (\<lambda>_. limiter)) st1 = set_conn i (heard rest limiter) st"
    using i by (simp add: st1_def set_conn_def heard_def)
  ultimately have "run_round P i now drawn st = handle_frame P i f now (set_conn i (heard rest limiter) st)"
    using m a(1) r(2) by (simp add: run_round_def and_then_def change_def ret_def)
  then show thesis using that [OF a(2)] ph i(2) by (simp add: run_task_def run_guarded_def)
qed

subsection \<open>Blocks on top of the tip\<close>

lemma work_rises:
  assumes t: "tree_ok P c" and e: "map_of (ch_entries c) h = Some e" "br_parent_hash (en_record e) = Some p"
  obtains pe where "map_of (ch_entries c) p = Some pe" and "br_cumulative_work (en_record pe) < br_cumulative_work (en_record e)"
proof -
  note eo = tree_entry [OF t e(1)]
  obtain pe where pe: "map_of (ch_entries c) p = Some pe" "child_ok P c e pe" using eo e(2) by (auto simp: entry_ok_def)
  have "1 \<le> block_work (bh_difficulty_target (bl_header (en_block e)))"
    using block_work_bounds [OF entry_okD(8,9) [OF eo]] by simp
  then have "br_cumulative_work (en_record pe) < br_cumulative_work (en_record e)" using pe(2) by (simp add: child_ok_def)
  with pe(1) show thesis by (rule that)
qed

lemma branch_work:
  assumes t: "tree_ok P c"
  shows "rises c p hs \<Longrightarrow> hs \<noteq> [] \<Longrightarrow> map_of (ch_entries c) p = Some pe \<Longrightarrow>
     \<exists>e. map_of (ch_entries c) (last hs) = Some e \<and> br_cumulative_work (en_record pe) < br_cumulative_work (en_record e)"
proof (induction hs arbitrary: p pe)
  case (Cons h hs)
  obtain e where e: "map_of (ch_entries c) h = Some e" "br_parent_hash (en_record e) = Some p" "rises c h hs" using Cons.prems(1) by auto
  have w: "br_cumulative_work (en_record pe) < br_cumulative_work (en_record e)"
    by (rule work_rises [OF t e(1,2)]) (use Cons.prems(3) in simp)
  show ?case
  proof (cases "hs = []")
    case False
    with Cons.IH [OF e(3) False e(1)] w show ?thesis by force
  qed (use e(1) w in simp)
qed simp

text \<open>A child of the tip, from a chain that agrees, is new and becomes the tip.\<close>

lemma submit_block_child:
  assumes P: "platform_ok P" and nd: "node_ok P nd" and t: "tree_ok P c" and s: "same_blocks c (nd_chain nd)"
    and e: "map_of (ch_entries c) h = Some e" "br_parent_hash (en_record e) = Some (ch_tip (nd_chain nd))"
  shows "\<not> chain_contains h (nd_chain nd) \<and> (\<exists>u nd'. submit_block P (en_block e) nd = (Inr u, nd') \<and> same_blocks c (nd_chain nd')
     \<and> ch_tip (nd_chain nd') = h)"
proof -
  let ?c = "nd_chain nd"
  note c = node_chain_ok [OF P nd] and tf = tip_facts [OF node_chain_ok [OF P nd]]
  have n: "\<not> chain_contains h ?c"
  proof
    assume "chain_contains h ?c"
    then obtain x where x: "map_of (ch_entries ?c) h = Some x" by (auto simp: chain_contains_def)
    have "x = e" by (rule entries_agree [OF t chain_okD(1) [OF c] s e(1) x, symmetric])
    then obtain pe where "map_of (ch_entries ?c) (ch_tip ?c) = Some pe" "br_cumulative_work (en_record pe) < br_cumulative_work (en_record x)"
      using work_rises [OF chain_okD(1) [OF c] x] e(2) by blast
    then show False using heaviest_work [OF c x] tf(9) by (simp add: tip_work_def)
  qed
  have p: "chain_contains (ch_tip ?c) ?c" using tf(9) by (simp add: chain_contains_def)
  obtain u nd' where b: "submit_block P (en_block e) nd = (Inr u, nd')" "same_blocks c (nd_chain nd')"
    using submit_block_agree [OF P nd t s e p n] by blast
  then have a: "add_block P (en_block e) ?c = (Inr u, nd_chain nd')" and nd': "node_ok P nd'"
    using submit_block_spec [OF P nd, of "en_block e"] by auto
  have "bh_previous_block_hash (bl_header (en_block e)) = ch_tip ?c" using entry_fields(4) [OF t e(1)] e(2) by (auto split: if_splits)
  then have "chain_tip (nd_chain nd') = Inr (en_block e)" by (rule child_of_tip_active(2) [OF c a])
  moreover note tf' = tip_facts [OF node_chain_ok [OF P nd']]
  ultimately have "en_block (tip_entry (nd_chain nd')) = en_block e" by simp
  then have "block_hash P (en_block e) = Inr (ch_tip (nd_chain nd'))"
    using entry_okD(1) [OF tree_entry [OF chain_okD(1) [OF node_chain_ok [OF P nd']] tf'(9)]] by simp
  moreover have "block_hash P (en_block e) = Inr h" by (rule entry_okD(1) [OF tree_entry [OF t e(1)]])
  ultimately show ?thesis using n b by auto
qed

text \<open>A connection that is left alone by an operation: the object, the limits, the number of objects.\<close>

definition spares :: "nat \<Rightarrow> p2p_node \<Rightarrow> p2p_node \<Rightarrow> bool" where
  "spares i st st' \<longleftrightarrow> conn st' i = conn st i \<and> pn_limits st' = pn_limits st \<and> length (pn_objects st') = length (pn_objects st)"

lemma spares_trans: "spares i a b \<Longrightarrow> spares i b c \<Longrightarrow> spares i a c"
  by (simp add: spares_def)

lemma spares_changes [simp]:
  "k \<noteq> i \<Longrightarrow> spares i st (set_conn k f st)" "spares i st st" "spares i st (st\<lparr>pn_local_node := nd\<rparr>)"
  by (simp_all add: spares_def)

lemma close_spares: "k \<noteq> i \<Longrightarrow> spares i st (close_connection k st)"
  by (simp add: spares_def close_connection_def remove_connection_def Let_def split: option.splits)

lemma send_spares: "k \<noteq> i \<Longrightarrow> send_message P k mt payload st = (r, st') \<Longrightarrow> spares i st st'"
  by (auto simp: send_message_def and_then_def compute_def fail_def ret_def split: sum.splits writer_state.splits if_splits)

lemma send_all_spares:
  "i \<notin> set ks \<Longrightarrow> send_all P mt payload ks st = (failed, st') \<Longrightarrow> spares i st st' \<and> set failed \<subseteq> set ks"
proof (induction ks arbitrary: st failed)
  case (Cons k ks)
  obtain r st1 where s: "send_message P k mt payload st = (r, st1)" by fastforce
  obtain failed1 where f: "send_all P mt payload ks st1 = (failed1, st')" "failed = (case r of Inl _ \<Rightarrow> k # failed1 | Inr _ \<Rightarrow> failed1)"
    using Cons.prems(2) s by (auto split: prod.splits)
  have k: "k \<noteq> i" "i \<notin> set ks" using Cons.prems(1) by auto
  have "spares i st st'" by (rule spares_trans [OF send_spares [OF k(1) s]]) (use Cons.IH [OF k(2) f(1)] in blast)
  then show ?case using Cons.IH [OF k(2) f(1)] f(2) by (cases r) auto
qed simp

lemma broadcast_spares: "spares i st (broadcast P mt payload (Some i) st)"
proof -
  obtain failed st' where s: "send_all P mt payload (broadcast_targets (Some i) st) st = (failed, st')" by fastforce
  have i: "i \<notin> set (broadcast_targets (Some i) st)" by (simp add: broadcast_targets_def)
  note f = send_all_spares [OF i s]
  have c: "i \<notin> set ks \<Longrightarrow> spares i st (fold close_connection ks st)" for ks st
  proof (induction ks arbitrary: st)
    case (Cons k ks)
    then show ?case using spares_trans [OF close_spares [of k i st], of "fold close_connection ks (close_connection k st)"] by auto
  qed simp
  have "i \<notin> set failed" using f i by blast
  then have "spares i st (fold close_connection failed st')" using f c spares_trans by blast
  then show ?thesis using s by (simp add: broadcast_def)
qed

lemma handle_block_child:
  assumes P: "platform_ok P" and ok: "p2p_ok_at P i st" and t: "tree_ok P c" and s: "same_blocks c (nd_chain (pn_local_node st))"
    and e: "map_of (ch_entries c) h = Some e" "br_parent_hash (en_record e) = Some (ch_tip (nd_chain (pn_local_node st)))"
  shows "\<exists>st'. handle_block P i (en_block e) now st = (Inr (), st') \<and> same_blocks c (nd_chain (pn_local_node st'))
     \<and> ch_tip (nd_chain (pn_local_node st')) = h \<and> same_books st st' \<and> spares i (set_conn i note_accepted_block st) st'"
proof -
  let ?nd = "pn_local_node st"
  have h: "block_hash P (en_block e) = Inr h" by (rule entry_okD(1) [OF tree_entry [OF t e(1)]])
  have nd: "node_ok P ?nd" using p2p_node_ok [OF P] ok by (simp add: p2p_ok_at_def)
  obtain u nd' where b: "\<not> chain_contains h (nd_chain ?nd)" "submit_block P (en_block e) ?nd = (Inr u, nd')" "same_blocks c (nd_chain nd')"
      "ch_tip (nd_chain nd') = h"
    using submit_block_child [OF P nd t s e] by blast
  obtain q where q: "encode_block P (en_block e) = Inr q" using entry_travels [OF t e(1)] by blast
  let ?st = "set_conn i note_accepted_block (st\<lparr>pn_local_node := nd'\<rparr>)"
  have "handle_block P i (en_block e) now st = (Inr (), broadcast P BLOCK q (Some i) ?st)"
    using h b(1,2) q by (simp add: handle_block_def and_then_def compute_def on_local_node_def broadcast_block_def change_def)
  moreover have "same_books st (broadcast P BLOCK q (Some i) ?st)"
    using broadcast_kept [of ?st P BLOCK q "Some i"] same_books_trans [of st ?st] by simp
  moreover have "spares i (set_conn i note_accepted_block st) ?st" by (simp add: spares_def set_conn_def)
  then have "spares i (set_conn i note_accepted_block st) (broadcast P BLOCK q (Some i) ?st)" by (rule spares_trans [OF _ broadcast_spares])
  moreover have "pn_local_node (broadcast P BLOCK q (Some i) ?st) = nd'" using broadcast_kept [of ?st P BLOCK q "Some i"] by simp
  ultimately show ?thesis using b(3,4) by metis
qed

lemma note_accepted_power:
  "pc_block_request_outstanding c \<Longrightarrow>
     (note_accepted_block ^^ n) c = c\<lparr>pc_accepted_blocks_in_request := pc_accepted_blocks_in_request c + int n\<rparr>"
  by (induction n) (simp_all add: note_accepted_block_def)

text \<open>What a task needs to hear the frames \<open>ws\<close>: it serves, they have arrived, and they are within its budget.\<close>

definition will_hear :: "nat \<Rightarrow> nat \<Rightarrow> int \<Rightarrow> bytes list \<Rightarrow> bytes \<Rightarrow> p2p_node \<Rightarrow> bool" where
  "will_hear i k B ws rest st \<longleftrightarrow> can_send st i \<and> pc_phase (conn st i) = Serving \<and> ps_data (pc_reader (conn st i)) = concat ws @ rest
     \<and> spent (pn_limits st) k B (pc_rate_limiter (conn st i))
     \<and> int (k + length ws) \<le> li_max_messages_per_minute (pn_limits st)
     \<and> B + int (length (concat ws)) \<le> li_max_bytes_per_minute (pn_limits st)"

lemma rounds_child:
  assumes P: "platform_ok P" and t: "tree_ok P c"
  shows "rises c (ch_tip (nd_chain (pn_local_node st))) hs \<Longrightarrow> list_all2 (block_frame P) (map (block_at c) hs) ws \<Longrightarrow> p2p_ok_at P i st \<Longrightarrow>
     same_blocks c (nd_chain (pn_local_node st)) \<Longrightarrow> will_hear i k B ws rest st \<Longrightarrow>
     \<exists>st' limiter. rounds P i now drawn (length ws) st = (Inr (), st') \<and> same_books st st'
       \<and> p2p_ok_at P i st' \<and> same_blocks c (nd_chain (pn_local_node st'))
       \<and> ch_tip (nd_chain (pn_local_node st')) = last (ch_tip (nd_chain (pn_local_node st)) # hs)
       \<and> spent (pn_limits st) (k + length ws) (B + int (length (concat ws))) limiter
       \<and> spares i (set_conn i (\<lambda>c. heard rest limiter ((note_accepted_block ^^ length hs) c)) st) st'"
proof (induction hs arbitrary: ws st k B)
  case Nil
  then have "spares i (set_conn i (heard rest (pc_rate_limiter (conn st i))) st) st"
    by (cases "conn st i") (auto simp: spares_def will_hear_def can_send_def heard_def)
  then show ?case using Nil by (intro exI [of _ st] exI [of _ "pc_rate_limiter (conn st i)"]) (auto simp: ret_def will_hear_def)
next
  case (Cons h hs)
  let ?p = "ch_tip (nd_chain (pn_local_node st))"
  obtain e where e: "map_of (ch_entries c) h = Some e" "br_parent_hash (en_record e) = Some ?p" and r: "rises c h hs"
    using Cons.prems(1) by auto
  have b: "block_at c h = en_block e" using e(1) by (simp add: block_at_def)
  obtain w ws' where w: "ws = w # ws'" "block_frame P (en_block e) w" "list_all2 (block_frame P) (map (block_at c) hs) ws'"
    using Cons.prems(2) b by (auto simp: list_all2_Cons1)
  then obtain q where q: "decode_frame P w = Inr \<lparr>fr_message_type = BLOCK, fr_payload = q\<rparr>" "decode_block P q = Inr (en_block e)"
    by (auto simp: block_frame_def)
  have wh: "can_send st i" "pc_phase (conn st i) = Serving" "ps_data (pc_reader (conn st i)) = w @ (concat ws' @ rest)"
      "spent (pn_limits st) k B (pc_rate_limiter (conn st i))" "int k + 1 \<le> li_max_messages_per_minute (pn_limits st)"
      "B + int (length w) \<le> li_max_bytes_per_minute (pn_limits st)"
      "int (Suc k + length ws') \<le> li_max_messages_per_minute (pn_limits st)"
      "(B + int (length w)) + int (length (concat ws')) \<le> li_max_bytes_per_minute (pn_limits st)"
    using Cons.prems(5) w(1) by (simp_all add: will_hear_def)
  obtain lim where lim: "spent (pn_limits st) (Suc k) (B + int (length w)) lim"
      "\<And>st'. handle_frame P i \<lparr>fr_message_type = BLOCK, fr_payload = q\<rparr> now (set_conn i (heard (concat ws' @ rest) lim) st) = (Inr (), st') \<Longrightarrow>
         run_task P i now drawn st = (Inr (), st')"
    using task_hears [OF P wh(1-3) q(1) wh(4-6)] by blast
  let ?st = "set_conn i (heard (concat ws' @ rest) lim) st"
  have i: "i < length (pn_objects st)" using wh(1) by (simp add: can_send_def)
  have ok: "p2p_ok_at P i ?st" by (rule p2p_ok_at_set_conn [OF Cons.prems(3)]) simp
  obtain st1 where s1: "handle_block P i (en_block e) now ?st = (Inr (), st1)" "same_blocks c (nd_chain (pn_local_node st1))"
      "ch_tip (nd_chain (pn_local_node st1)) = h" "same_books ?st st1" "spares i (set_conn i note_accepted_block ?st) st1"
    using handle_block_child [where now = now, OF P ok t, of h e] Cons.prems(4) e unfolding set_conn_fields by blast
  have run: "run_task P i now drawn st = (Inr (), st1)"
    by (rule lim(2)) (use q(2) s1(1) in \<open>simp add: handle_frame_def and_then_def compute_def\<close>)
  have ok1: "p2p_ok_at P i st1"
    using keepsD [OF task_tables.keeps_handle_block [of P i], of ?st "en_block e" now] P ok s1(1) by auto
  have c1: "conn st1 i = note_accepted_block (heard (concat ws' @ rest) lim (conn st i))" "pn_limits st1 = pn_limits st"
      "length (pn_objects st1) = length (pn_objects st)"
    using s1(5) i by (simp_all add: spares_def)
  have "will_hear i (Suc k) (B + int (length w)) ws' rest st1"
    using wh lim(1) c1 by (simp add: will_hear_def can_send_def note_accepted_block_def)
  then obtain st' lim' where f: "rounds P i now drawn (length ws') st1 = (Inr (), st')" "same_books st1 st'" "p2p_ok_at P i st'"
      "same_blocks c (nd_chain (pn_local_node st'))" "ch_tip (nd_chain (pn_local_node st')) = last (h # hs)"
      "spent (pn_limits st) (Suc k + length ws') ((B + int (length w)) + int (length (concat ws'))) lim'"
      "spares i (set_conn i (\<lambda>c. heard rest lim' ((note_accepted_block ^^ length hs) c)) st1) st'"
    using Cons.IH [of st1 ws' "Suc k" "B + int (length w)"] r w(3) ok1 s1(2,3) c1(2) by auto
  have "heard rest lim' ((note_accepted_block ^^ n) (heard x y z)) = heard rest lim' ((note_accepted_block ^^ n) z)" for n x y z
    by (induction n) (simp_all add: heard_note)
  then have "spares i (set_conn i (\<lambda>c. heard rest lim' ((note_accepted_block ^^ length (h # hs)) c)) st) st'"
    using f(7) c1 i by (simp add: spares_def heard_note [symmetric] funpow_Suc_right del: funpow.simps)
  moreover have "same_books st ?st" by (simp add: same_books_def)
  then have "same_books st st'" using same_books_trans s1(4) f(2) by blast
  moreover have "rounds P i now drawn (length ws) st = (Inr (), st')" using run f(1) w(1) by (simp add: and_then_def)
  ultimately show ?case using f(3-6) w(1) by (intro exI [of _ st'] exI [of _ lim']) (simp add: algebra_simps)
qed

subsection \<open>One exchange\<close>

text \<open>The server finds the asking node's tip on its branch and answers with the blocks after it.\<close>

lemma find_common_first: "pos h = Some k \<Longrightarrow> find_common pos (h # hs) = Some k"
  by (simp add: find_common_def)

text \<open>How many bytes the frames take: a block, a summary, a request with a locator of at most 64 hashes.\<close>

definition frame_bytes :: "platform \<Rightarrow> block \<Rightarrow> int" where
  "frame_bytes P b = (case encode_block P b of Inl e \<Rightarrow> 0 | Inr p \<Rightarrow> int (FRAME_PREFIX_SIZE + length p))"

definition SUMMARY_BYTES :: int where "SUMMARY_BYTES = 160"

definition REQUEST_BYTES :: int where "REQUEST_BYTES = 2400"

lemma block_frames_size:
  assumes "hash_ok P"
  shows "list_all2 (block_frame P) bs ws \<Longrightarrow> int (length (concat ws)) = sum_list (map (frame_bytes P) bs)"
proof (induction bs ws rule: list_all2_induct)
  case (Cons b bs w ws)
  then obtain p where "encode_block P b = Inr p" "decode_frame P w = Inr \<lparr>fr_message_type = BLOCK, fr_payload = p\<rparr>"
    by (auto simp: block_frame_def)
  then show ?case using Cons.IH read_next(2) [OF assms, of w _ "\<lparr>ps_data = w @ [], ps_closed = True\<rparr>" "[]"]
    by (simp add: frame_bytes_def)
qed simp

lemma summary_size: "summary_to_bytes s = Inr p \<Longrightarrow> length p \<le> 140"
proof -
  assume p: "summary_to_bytes s = Inr p"
  have d: "length SUMMARY_DOMAIN \<le> 32" by (simp add: SUMMARY_DOMAIN_def byte_literal_def)
  have h: "size_within 36 (bindE (exact_bytes (su_tip_hash s) WIRE_HASH_LENGTH ''tip hash'') encode_bytes)"
    using encode_bytes_size [of "su_tip_hash s" 32]
    by (auto simp: exact_bytes_def WIRE_HASH_LENGTH_def size_within_def bindE_def split: sum.splits)
  have u: "size_within 8 (encode_u64 (su_height s))"
    by (auto simp: size_within_def encode_u64_def encode_unsigned_def split: if_splits)
  have w: "size_within 52 (bindE (wire_encode_work (su_cumulative_work s)) encode_bytes)"
    using encode_bytes_size [of "to_bytes_be 40 (su_cumulative_work s)" 48]
    by (auto simp: wire_encode_work_def WORK_LENGTH_def size_within_def bindE_def split: sum.splits if_splits)
  have "size_within (sum_list [36, 36, 8, 52]) (summary_to_bytes s)"
    unfolding summary_to_bytes_def using encode_bytes_size [OF d] h u w by (intro join_fields_size) simp
  then show ?thesis using p by (simp add: size_within_def)
qed

lemma locator_size:
  assumes "locator_to_bytes hs = Inr q"
  shows "length q \<le> 2344"
proof -
  have n: "length hs \<le> 64" and m: "mapE (\<lambda>v. exact_bytes v WIRE_HASH_LENGTH ''locator hash'') hs = Inr hs"
    and l: "locator_to_bytes hs = join_fields [encode_bytes LOCATOR_DOMAIN, encode_sequence hs]"
  proof -
    obtain hs' where h: "mapE (\<lambda>v. exact_bytes v WIRE_HASH_LENGTH ''locator hash'') hs = Inr hs'"
      using assms by (auto simp: locator_to_bytes_def bindE_eq_Inr split: if_splits)
    moreover have "mapE (\<lambda>v. exact_bytes v WIRE_HASH_LENGTH ''locator hash'') xs = Inr ys \<Longrightarrow> ys = xs" for xs ys
      by (induction xs arbitrary: ys) (auto simp: bindE_eq_Inr exact_bytes_def split: if_splits)
    ultimately show "mapE (\<lambda>v. exact_bytes v WIRE_HASH_LENGTH ''locator hash'') hs = Inr hs" by blast
    then show "locator_to_bytes hs = join_fields [encode_bytes LOCATOR_DOMAIN, encode_sequence hs]"
      using assms by (auto simp: locator_to_bytes_def split: if_splits)
    show "length hs \<le> 64" using assms by (auto simp: locator_to_bytes_def MAX_BLOCK_LOCATOR_HASHES_def split: if_splits)
  qed
  have "mapE (\<lambda>v. exact_bytes v WIRE_HASH_LENGTH ''locator hash'') xs = Inr ys \<Longrightarrow> \<forall>h \<in> set xs. length h = 32" for xs ys
    by (induction xs arbitrary: ys) (auto simp: bindE_eq_Inr exact_bytes_def WIRE_HASH_LENGTH_def split: if_splits)
  then have "\<forall>h \<in> set hs. length h = 32" using m by blast
  moreover have d: "length LOCATOR_DOMAIN \<le> 32" by (simp add: LOCATOR_DOMAIN_def byte_literal_def)
  ultimately have "size_within (sum_list [36, 4 + length hs * 36]) (locator_to_bytes hs)"
    unfolding l using encode_bytes_size [OF d] encode_sequence_size [of hs 32] by (intro join_fields_size) simp
  then show ?thesis using assms n by (simp add: size_within_def)
qed

lemma frame_size: "hash_ok P \<Longrightarrow> encode_frame P mt q PROTOCOL_VERSION = Inr x \<Longrightarrow> length x = 15 + length q"
  using encode_frame_iff [of P "\<lparr>fr_message_type = mt, fr_payload = q\<rparr>" x] by (simp add: length_prefix_bytes)

lemma asks_size: "hash_ok P \<Longrightarrow> asks P st x \<Longrightarrow> int (length x) \<le> REQUEST_BYTES"
  using locator_size frame_size by (fastforce simp: asks_def REQUEST_BYTES_def)

text \<open>A task between two frames, with what its limiter has let through.\<close>

definition listens :: "nat \<Rightarrow> nat \<Rightarrow> int \<Rightarrow> p2p_node \<Rightarrow> bool" where
  "listens i k B st \<longleftrightarrow> can_send st i \<and> pc_phase (conn st i) = Serving \<and> ps_data (pc_reader (conn st i)) = []
     \<and> spent (pn_limits st) k B (pc_rate_limiter (conn st i))"

lemma listens_more: "listens i k B st \<Longrightarrow> k \<le> k' \<Longrightarrow> B \<le> B' \<Longrightarrow> listens i k' B' st"
  by (auto simp: listens_def spent_def)

lemma deliver_heard: "i < length (pn_objects st) \<Longrightarrow> set_conn i (heard rest l) (deliver i bs st) = set_conn i (heard rest l) st"
  by (simp add: deliver_def set_conn_def heard_def)

lemma delivered:
  assumes "listens i k B st"
  shows "can_send (deliver i bs st) i" "pc_phase (conn (deliver i bs st) i) = Serving" "ps_data (pc_reader (conn (deliver i bs st) i)) = bs"
    "spent (pn_limits (deliver i bs st)) k B (pc_rate_limiter (conn (deliver i bs st) i))"
  using assms by (simp_all add: listens_def deliver_def can_send_def)

lemma hear_request:
  assumes P: "platform_ok P" and ok: "p2p_ok P st" and sv: "p2p_ok P sv" and j: "listens j k B sv" and x: "asks P st x"
    and bs: "branch (nd_chain (pn_local_node sv)) (ch_tip (nd_chain (pn_local_node sv))) bs"
    and m: "m < length bs" "ch_tip (nd_chain (pn_local_node st)) = rev bs ! m"
    and n: "int k + 1 \<le> li_max_messages_per_minute (pn_limits sv)" "B + REQUEST_BYTES \<le> li_max_bytes_per_minute (pn_limits sv)"
  shows "\<exists>ws w p s l. hear P j now drawn [x] sv = (Inr (), wrote j (ws @ [w]) (set_conn j (heard [] l) sv))
     \<and> spent (pn_limits sv) (Suc k) (B + REQUEST_BYTES) l
     \<and> list_all2 (block_frame P) (map (block_at (nd_chain (pn_local_node sv))) (take 128 (drop (m + 1) (rev bs)))) ws
     \<and> decode_frame P w = Inr \<lparr>fr_message_type = SYNC_COMPLETE, fr_payload = p\<rparr> \<and> summary_from_bytes p = Inr s
     \<and> s = \<lparr>su_tip_hash = ch_tip (nd_chain (pn_local_node sv)), su_height = br_height (en_record (tip_entry (nd_chain (pn_local_node sv)))),
           su_cumulative_work = tip_work (nd_chain (pn_local_node sv))\<rparr> \<and> int (length w) \<le> SUMMARY_BYTES"
proof -
  let ?c = "nd_chain (pn_local_node sv)" and ?b = "nd_chain (pn_local_node st)"
  note c = p2p_chain_ok [OF P sv]
  note t = chain_okD(1) [OF c]
  have h: "hash_ok P" using P by simp
  have i: "j < length (pn_objects sv)" using j by (simp add: listens_def can_send_def)
  obtain as where as: "branch ?b (ch_tip ?b) as" "as \<noteq> []" "hd as = ch_tip ?b" by (rule active_hash_branch [OF p2p_chain_ok [OF P ok]])
  obtain "is" where l: "block_locator P st = Inr (map ((!) (rev as)) is)" "is \<noteq> []" "hd is = length as - 1" "length is \<le> 64"
    using block_locator_spec [OF P ok as(1)] by blast
  obtain bs' where d: "branch ?c (ch_tip ?c) bs'" "distinct bs'" by (rule active_hash_branch [OF c])
  have "distinct bs" using d branch_fun [OF d(1) bs] by simp
  then have "positions (rev bs) (rev bs ! m) = Some m" using positions_iff [of "rev bs"] m(1) by simp
  moreover have "rev as ! (length as - 1) = rev bs ! m" using as(2,3) m(2) by (simp add: rev_nth hd_conv_nth)
  ultimately have pos: "find_common (positions (rev bs)) (map ((!) (rev as)) is) = Some m"
    using l(2,3) by (cases "is") (simp_all add: find_common_first)
  let ?seg = "take MAX_BLOCKS_PER_RESPONSE (drop (m + 1) (rev bs))"
  have "set ?seg \<subseteq> set bs" using set_take_subset [of _ "drop (m + 1) (rev bs)"] set_drop_subset [of "m + 1" "rev bs"] by force
  then have e: "\<forall>h \<in> set ?seg. \<exists>e. map_of (ch_entries ?c) h = Some e" using branch_known [OF t bs] by blast
  obtain ws where ws: "list_all2 (block_frame P) (map (block_at ?c) ?seg) ws" using frames_of_blocks [OF t e] by blast
  obtain q where q: "locator_to_bytes (map ((!) (rev as)) is) = Inr q" "encode_frame P GET_BLOCKS q PROTOCOL_VERSION = Inr x"
    using x l(1) by (auto simp: asks_def)
  have dx: "decode_frame P x = Inr \<lparr>fr_message_type = GET_BLOCKS, fr_payload = q\<rparr>" using q(2) decode_frame_iff [OF h] by simp
  have dq: "locator_from_bytes q = Inr (map ((!) (rev as)) is)" using q(1) by (simp add: locator_from_bytes_iff)
  note dl = delivered [OF j, of x]
  have B: "B + int (length x) \<le> li_max_bytes_per_minute (pn_limits (deliver j x sv))"
    using n(2) asks_size [OF h x] by (simp add: deliver_def)
  have K: "int k + 1 \<le> li_max_messages_per_minute (pn_limits (deliver j x sv))" using n(1) by (simp add: deliver_def)
  obtain lim where lim: "spent (pn_limits (deliver j x sv)) (Suc k) (B + int (length x)) lim"
      "\<And>st'. handle_frame P j \<lparr>fr_message_type = GET_BLOCKS, fr_payload = q\<rparr> now (set_conn j (heard [] lim) (deliver j x sv)) = (Inr (), st') \<Longrightarrow>
         run_task P j now drawn (deliver j x sv) = (Inr (), st')"
    by (rule task_hears [OF P dl(1,2) _ dx dl(4) K B, where rest = "[]" and now = now and drawn = drawn]) (use dl(3) in simp, rule that)
  let ?sv = "set_conn j (heard [] lim) sv"
  have js: "can_send ?sv j" using j i by (simp add: listens_def can_send_def)
  obtain p w where w: "own_summary ?sv = Inr \<lparr>su_tip_hash = ch_tip ?c, su_height = br_height (en_record (tip_entry ?c)), su_cumulative_work = tip_work ?c\<rparr>"
      "bindE (own_summary ?sv) summary_to_bytes = Inr p" "encode_frame P SYNC_COMPLETE p PROTOCOL_VERSION = Inr w"
      "send_blocks P j (map ((!) (rev as)) is) now ?sv = (Inr (), wrote j (ws @ [w]) ?sv)"
    using send_blocks_writes [of P ?sv j bs "map ((!) (rev as)) is" m ws now] c js bs pos ws by auto
  have "run_task P j now drawn (deliver j x sv) = (Inr (), wrote j (ws @ [w]) ?sv)"
    by (rule lim(2)) (use w(4) dq in \<open>simp add: deliver_heard [OF i] handle_frame_def and_then_def compute_def\<close>)
  then have "hear P j now drawn [x] sv = (Inr (), wrote j (ws @ [w]) ?sv)"
    by (simp add: hear_def and_then_def ret_def)
  moreover have "decode_frame P w = Inr \<lparr>fr_message_type = SYNC_COMPLETE, fr_payload = p\<rparr>" using w(3) decode_frame_iff [OF h] by simp
  moreover have "summary_from_bytes p = Inr \<lparr>su_tip_hash = ch_tip ?c, su_height = br_height (en_record (tip_entry ?c)), su_cumulative_work = tip_work ?c\<rparr>"
    using w(1,2) by (simp add: summary_from_bytes_iff)
  moreover have "int (length w) \<le> SUMMARY_BYTES"
    using summary_size w(1,2) frame_size [OF h w(3)] by (fastforce simp: SUMMARY_BYTES_def)
  moreover have "spent (pn_limits sv) (Suc k) (B + REQUEST_BYTES) lim"
    using lim(1) asks_size [OF h x] by (simp add: spent_def deliver_def)
  ultimately show ?thesis using ws by (auto simp: MAX_BLOCKS_PER_RESPONSE_def)
qed

text \<open>The asking node takes in the server's summary: it is done, or it asks for the next blocks.\<close>

definition told :: "chain_summary \<Rightarrow> connection \<Rightarrow> connection" where
  "told s c = cancel_block_request (c\<lparr>pc_hello := map_option (\<lambda>h. h\<lparr>he_tip_hash := su_tip_hash s, he_height := su_height s,
     he_cumulative_work := su_cumulative_work s\<rparr>) (pc_hello c)\<rparr>)"

lemma told_fields [simp]:
  "pc_closed (told s c) = pc_closed c" "pc_writer (told s c) = pc_writer c" "pc_pending_sends (told s c) = pc_pending_sends c"
  "pc_written (told s c) = pc_written c" "pc_block_request_outstanding (told s c) = False"
  "pc_hello (told s c) = map_option (\<lambda>h. h\<lparr>he_tip_hash := su_tip_hash s, he_height := su_height s,
     he_cumulative_work := su_cumulative_work s\<rparr>) (pc_hello c)" "peer_key_of (told s c) = peer_key_of c"
  "pc_phase (told s c) = pc_phase c" "pc_reader (told s c) = pc_reader c" "pc_rate_limiter (told s c) = pc_rate_limiter c"
  by (simp_all add: told_def cancel_block_request_def peer_key_of_def map_option_case split: option.split)

lemma handle_summary:
  assumes P: "platform_ok P" and ok: "p2p_ok_at P i st" and sv: "p2p_ok P sv" and c: "can_send st i"
    and sb: "same_blocks (nd_chain (pn_local_node sv)) (nd_chain (pn_local_node st))"
    and s: "s = \<lparr>su_tip_hash = ch_tip (nd_chain (pn_local_node sv)), su_height = br_height (en_record (tip_entry (nd_chain (pn_local_node sv)))),
           su_cumulative_work = tip_work (nd_chain (pn_local_node sv))\<rparr>"
    and h: "pc_hello (conn st i) = Some h" "he_cumulative_work h \<le> tip_work (nd_chain (pn_local_node sv))"
    and r: "pc_block_request_outstanding (conn st i)" "0 < pc_accepted_blocks_in_request (conn st i)"
  shows "if tip_work (nd_chain (pn_local_node sv)) \<le> tip_work (nd_chain (pn_local_node st)) then
      handle_sync_complete P i s now st = (Inr (), set_conn i (told s) st)
    else \<exists>x. asks P st x \<and> handle_sync_complete P i s now st
      = (Inr (), set_conn i (\<lambda>c. asked (tip_work (nd_chain (pn_local_node st))) x (told s c)) st)"
proof -
  let ?c = "nd_chain (pn_local_node sv)" and ?b = "nd_chain (pn_local_node st)" and ?st = "set_conn i (told s) st"
  have i: "i < length (pn_objects st)" and okst: "p2p_ok P st" using ok by (simp_all add: p2p_ok_at_def)
  note cc = p2p_chain_ok [OF P sv] and cb = p2p_chain_ok [OF P okst]
  have "check_summary s st = Inr ()"
  proof (cases "chain_contains (ch_tip ?c) ?b")
    case True
    then obtain e where e: "map_of (ch_entries ?b) (ch_tip ?c) = Some e" by (auto simp: chain_contains_def)
    have "tip_entry ?c = e" by (rule entries_agree [OF chain_okD(1) [OF cc] chain_okD(1) [OF cb] sb tip_facts(9) [OF cc] e])
    then show ?thesis using e
      by (simp add: check_summary_def Let_def s chain_contains_def get_record_def known_entry_def dict_index_def tip_work_def)
  qed (simp add: check_summary_def Let_def s)
  moreover have "update_advertised_summary s (conn st i) = Inr ((conn st i)\<lparr>pc_hello := Some (h\<lparr>he_tip_hash := su_tip_hash s,
      he_height := su_height s, he_cumulative_work := su_cumulative_work s\<rparr>)\<rparr>)"
    using h by (simp add: update_advertised_summary_def s)
  moreover have "finish_block_request ((conn st i)\<lparr>pc_hello := Some (h\<lparr>he_tip_hash := su_tip_hash s, he_height := su_height s,
      he_cumulative_work := su_cumulative_work s\<rparr>)\<rparr>) = (Some (pc_accepted_blocks_in_request (conn st i), pc_block_request_start_work (conn st i)), told s (conn st i))"
    using r(1) h(1) by (simp add: finish_block_request_def told_def)
  moreover have w: "chain_cumulative_work ?b = Inr (tip_work ?b)"
    using tip_facts(9) [OF cb] by (simp add: chain_cumulative_work_def dict_index_def tip_work_def)
  moreover have st: "set_conn i (\<lambda>_. told s (conn st i)) (set_conn i (\<lambda>_. y) st) = ?st" for y using i by (simp add: set_conn_def)
  ultimately have run: "handle_sync_complete P i s now st = (if tip_work ?c \<le> tip_work ?b then ret () ?st else and_then (request_blocks P i) (\<lambda>_. ret ()) ?st)"
    using r(2) i by (simp add: handle_sync_complete_def and_then_def reads_state_def change_def s)
  have okt: "p2p_ok P ?st" by (rule p2p_ok_set_conn [OF okst]) simp
  have ct: "can_send ?st i" using c i by (simp add: can_send_def)
  obtain x where x: "asks P ?st x" "request_blocks P i ?st = (Inr True, set_conn i (asked (tip_work ?b) x) ?st)"
    using request_blocks_asks [OF P okt ct] i by auto
  have "asks P st x" using x(1) by (simp add: asks_def block_locator_def)
  moreover have "set_conn i (asked (tip_work ?b) x) ?st = set_conn i (\<lambda>c. asked (tip_work ?b) x (told s c)) st" using i by (simp add: set_conn_def)
  ultimately show ?thesis using run x(2) by (auto simp: and_then_def ret_def)
qed

lemma rounds_add: "rounds P i now drawn (k + n) = and_then (rounds P i now drawn k) (\<lambda>_. rounds P i now drawn n)"
  by (induction k) (auto simp: and_then_def ret_def fun_eq_iff split: prod.split sum.split)

text \<open>A node in the middle of a request, \<open>m\<close> blocks up the server's branch.\<close>

definition lagging :: "platform \<Rightarrow> nat \<Rightarrow> p2p_node \<Rightarrow> p2p_node \<Rightarrow> bytes list \<Rightarrow> nat \<Rightarrow> bool" where
  "lagging P i st sv a m \<longleftrightarrow> p2p_ok_at P i st \<and> can_send st i
     \<and> same_blocks (nd_chain (pn_local_node sv)) (nd_chain (pn_local_node st))
     \<and> m < length a \<and> ch_tip (nd_chain (pn_local_node st)) = a ! m
     \<and> (\<exists>h. pc_hello (conn st i) = Some h \<and> he_cumulative_work h \<le> tip_work (nd_chain (pn_local_node sv)))"

definition waiting :: "platform \<Rightarrow> nat \<Rightarrow> p2p_node \<Rightarrow> bytes list \<Rightarrow> bool" where
  "waiting P i st ws \<longleftrightarrow> (\<exists>x. ws = [x] \<and> asks P st x) \<and> pc_block_request_outstanding (conn st i)
     \<and> pc_accepted_blocks_in_request (conn st i) = 0"

lemma tip_on_branch:
  assumes c: "chain_ok P c" and b: "chain_ok P b" and s: "same_blocks c b" and bs: "branch c (ch_tip c) bs"
    and m: "m < length bs" "ch_tip b = rev bs ! m"
  shows "tip_work c \<le> tip_work b \<longleftrightarrow> m = length bs - 1"
proof -
  note t = chain_okD(1) [OF c] and tb = chain_okD(1) [OF b] and tf = tip_facts(9) [OF c] and tfb = tip_facts(9) [OF b]
  obtain bs' where d: "branch c (ch_tip c) bs'" "bs' \<noteq> []" "hd bs' = ch_tip c" by (rule active_hash_branch [OF c])
  have hd: "bs \<noteq> []" "last (rev bs) = ch_tip c" using d branch_fun [OF d(1) bs] by (simp_all add: last_rev)
  show ?thesis
  proof (cases "m = length bs - 1")
    case True
    then have "ch_tip b = ch_tip c" using m hd by (simp add: last_conv_nth)
    then have "tip_entry c = tip_entry b" using entries_agree [OF t tb s tf] tfb by simp
    then show ?thesis using True by (simp add: tip_work_def)
  next
    case False
    have r: "rises c (rev bs ! m) (drop (m + 1) (rev bs))"
      using branch_rises [OF bs, of "take m (rev bs)" "rev bs ! m" "drop (m + 1) (rev bs)"] id_take_nth_drop [of m "rev bs"] m(1) by simp
    have n: "drop (m + 1) (rev bs) \<noteq> []" using False m(1) by simp
    have "rev bs ! m \<in> set bs" using m(1) nth_mem [of m "rev bs"] by simp
    then obtain pe where pe: "map_of (ch_entries c) (rev bs ! m) = Some pe" using branch_known [OF t bs] by blast
    have "last (drop (m + 1) (rev bs)) = ch_tip c" using n hd(2) by simp
    then have "br_cumulative_work (en_record pe) < tip_work c"
      using branch_work [OF t r n pe] tf by (auto simp: tip_work_def)
    moreover have "pe = tip_entry b" by (rule entries_agree [OF t tb s pe]) (use tfb m(2) in simp)
    ultimately show ?thesis using False by (simp add: tip_work_def)
  qed
qed

lemma last_of_segment:
  assumes "Suc m < length a"
  shows "last (x # take 128 (drop (m + 1) a)) = a ! min (m + 128) (length a - 1)"
proof -
  let ?seg = "take 128 (drop (m + 1) a)"
  have n: "?seg \<noteq> []" using assms by simp
  then have "last (x # ?seg) = ?seg ! (length ?seg - 1)" by (simp add: last_conv_nth)
  also have "\<dots> = a ! (m + 1 + (length ?seg - 1))" using n by (simp add: nth_drop)
  also have "m + 1 + (length ?seg - 1) = min (m + 128) (length a - 1)" using assms by (simp add: min_def, arith)
  finally show ?thesis .
qed

text \<open>The asking node takes in the blocks of the answer and is left with the summary.\<close>

lemma answer_heard:
  assumes P: "platform_ok P" and sv: "p2p_ok P sv"
    and bs: "branch (nd_chain (pn_local_node sv)) (ch_tip (nd_chain (pn_local_node sv))) bs"
    and l: "lagging P i st sv (rev bs) m" and m: "Suc m < length bs" and w: "waiting P i st ws" and li: "listens i k B st"
    and a: "list_all2 (block_frame P) (map (block_at (nd_chain (pn_local_node sv))) (take 128 (drop (m + 1) (rev bs)))) ws'"
      "decode_frame P w = Inr \<lparr>fr_message_type = SYNC_COMPLETE, fr_payload = p\<rparr>" "summary_from_bytes p = Inr s"
    and n: "int (k + length ws') + 1 \<le> li_max_messages_per_minute (pn_limits st)"
      "B + int (length (concat ws')) + int (length w) \<le> li_max_bytes_per_minute (pn_limits st)"
  shows "\<exists>st1 lim. (\<forall>st2. handle_sync_complete P i s now st1 = (Inr (), st2) \<longrightarrow> hear P i now drawn (ws' @ [w]) st = (Inr (), st2))
     \<and> same_books st st1 \<and> p2p_ok_at P i st1 \<and> can_send st1 i \<and> pn_limits st1 = pn_limits st
     \<and> same_blocks (nd_chain (pn_local_node sv)) (nd_chain (pn_local_node st1))
     \<and> ch_tip (nd_chain (pn_local_node st1)) = rev bs ! min (m + 128) (length bs - 1)
     \<and> 0 < pc_accepted_blocks_in_request (conn st1 i)
     \<and> spent (pn_limits st) (Suc (k + length ws')) (B + int (length (concat ws')) + int (length w)) lim
     \<and> conn st1 i = (heard [] lim (conn st i))\<lparr>pc_accepted_blocks_in_request := pc_accepted_blocks_in_request (conn st1 i)\<rparr>"
proof -
  let ?c = "nd_chain (pn_local_node sv)" and ?b = "nd_chain (pn_local_node st)" and ?a = "rev bs" and ?m = "min (m + 128) (length bs - 1)"
  let ?seg = "take 128 (drop (m + 1) ?a)" and ?d = "deliver i (concat (ws' @ [w])) st"
  note t = chain_okD(1) [OF p2p_chain_ok [OF P sv]]
  have ok: "p2p_ok_at P i st" "can_send st i" "same_blocks ?c ?b" "ch_tip ?b = ?a ! m" using l by (simp_all add: lagging_def)
  have x: "pc_block_request_outstanding (conn st i)" "pc_accepted_blocks_in_request (conn st i) = 0" using w by (simp_all add: waiting_def)
  have i: "i < length (pn_objects st)" using ok(1) by (simp add: p2p_ok_at_def)
  have ml: "m < length bs" using m by simp
  have d: "p2p_ok_at P i ?d" "pn_local_node ?d = pn_local_node st" "pn_limits ?d = pn_limits st" "same_books st ?d"
    unfolding deliver_def using p2p_ok_at_set_conn [OF ok(1)] by (simp_all add: peer_key_of_def same_books_def)
  have "rises ?c (?a ! m) (drop (m + 1) ?a)"
    using branch_rises [OF bs, of "take m ?a" "?a ! m" "drop (m + 1) ?a"] id_take_nth_drop [of m ?a] ml by simp
  then have r: "rises ?c (ch_tip (nd_chain (pn_local_node ?d))) ?seg" unfolding d(2) ok(4) by (rule rises_segment)
  have wh: "will_hear i k B ws' w ?d" using delivered [OF li, of "concat (ws' @ [w])"] n d(3) by (simp add: will_hear_def)
  obtain st0 lim0 where f: "rounds P i now drawn (length ws') ?d = (Inr (), st0)" "same_books ?d st0" "p2p_ok_at P i st0"
      "same_blocks ?c (nd_chain (pn_local_node st0))" "ch_tip (nd_chain (pn_local_node st0)) = last (ch_tip ?b # ?seg)"
      "spent (pn_limits st) (k + length ws') (B + int (length (concat ws'))) lim0"
      "spares i (set_conn i (\<lambda>c. heard w lim0 ((note_accepted_block ^^ length ?seg) c)) ?d) st0"
    using rounds_child [where now = now and drawn = drawn, OF P t r a(1) d(1) _ wh] ok(3) unfolding d(2,3) by blast
  have c0: "conn st0 i = (heard w lim0 (conn st i))\<lparr>pc_accepted_blocks_in_request := int (length ?seg)\<rparr>" "pn_limits st0 = pn_limits st"
      "length (pn_objects st0) = length (pn_objects st)"
    using f(7) i x by (simp_all add: spares_def deliver_def note_accepted_power heard_def)
  have "can_send st0 i" using ok(2) c0 by (simp add: can_send_def)
  moreover have "pc_phase (conn st0 i) = Serving" using li c0(1) by (simp add: listens_def)
  moreover have "ps_data (pc_reader (conn st0 i)) = w @ []" unfolding c0(1) by (simp add: heard_def)
  moreover have "spent (pn_limits st0) (k + length ws') (B + int (length (concat ws'))) (pc_rate_limiter (conn st0 i))"
    using f(6) unfolding c0(1,2) by (simp add: heard_def)
  ultimately obtain lim where lim: "spent (pn_limits st0) (Suc (k + length ws')) (B + int (length (concat ws')) + int (length w)) lim"
      "\<And>st'. handle_frame P i \<lparr>fr_message_type = SYNC_COMPLETE, fr_payload = p\<rparr> now (set_conn i (heard [] lim) st0) = (Inr (), st') \<Longrightarrow>
         run_task P i now drawn st0 = (Inr (), st')"
    by (rule task_hears [OF P _ _ _ a(2), where now = now and drawn = drawn]) (use n c0(2) in \<open>simp_all add: that\<close>)
  let ?st1 = "set_conn i (heard [] lim) st0"
  have heard: "hear P i now drawn (ws' @ [w]) st = (Inr (), st2)" if "handle_sync_complete P i s now ?st1 = (Inr (), st2)" for st2
  proof -
    have "run_task P i now drawn st0 = (Inr (), st2)"
      by (rule lim(2)) (use that a(3) in \<open>simp add: handle_frame_def and_then_def compute_def\<close>)
    then have "rounds P i now drawn (Suc 0) st0 = (Inr (), st2)" by (simp add: and_then_def ret_def)
    then show ?thesis
      using f(1) rounds_add [of P i now drawn "length ws'" "Suc 0"] by (simp add: hear_def and_then_def)
  qed
  have n: "?seg \<noteq> []" using m by simp
  have tip: "ch_tip (nd_chain (pn_local_node st0)) = ?a ! ?m" using f(5) last_of_segment [of m ?a] m by simp
  have c1: "conn ?st1 i = (heard [] lim (conn st i))\<lparr>pc_accepted_blocks_in_request := int (length ?seg)\<rparr>"
    using c0 i by (simp add: heard_def)
  have "p2p_ok_at P i ?st1" by (rule p2p_ok_at_set_conn [OF f(3)]) simp
  moreover have "same_books st ?st1" using same_books_trans [OF d(4) f(2)] by (simp add: same_books_def)
  moreover have "can_send ?st1 i" using ok(2) c0 i by (simp add: can_send_def)
  moreover have "0 < pc_accepted_blocks_in_request (conn ?st1 i)" unfolding c1 using n by simp
  moreover have "conn ?st1 i = (heard [] lim (conn st i))\<lparr>pc_accepted_blocks_in_request := pc_accepted_blocks_in_request (conn ?st1 i)\<rparr>"
    unfolding c1 by simp
  ultimately show ?thesis using heard f(4) tip c0(2) lim(1) by (intro exI [of _ ?st1] exI [of _ lim]) simp
qed

text \<open>Once the summary is taken in, with or without a new request, the task is again between two frames.\<close>

lemma after_summary:
  assumes ok: "p2p_ok_at P i st" and c: "can_send st i" and sb: "same_blocks (nd_chain (pn_local_node sv)) (nd_chain (pn_local_node st))"
    and tip: "ch_tip (nd_chain (pn_local_node st)) = a ! m" and m: "m < length a" and h: "pc_hello (conn st i) = Some h"
    and s: "s = \<lparr>su_tip_hash = ch_tip (nd_chain (pn_local_node sv)), su_height = br_height (en_record (tip_entry (nd_chain (pn_local_node sv)))),
           su_cumulative_work = tip_work (nd_chain (pn_local_node sv))\<rparr>"
    and r: "pc_phase (conn st i) = Serving" "ps_data (pc_reader (conn st i)) = []" "spent (pn_limits st) k B (pc_rate_limiter (conn st i))"
    and g: "g (conn st i) = told s (conn st i) \<or> (\<exists>w y. g (conn st i) = asked w y (told s (conn st i)))"
  shows "lagging P i (set_conn i g st) sv a m" and "listens i k B (set_conn i g st)"
proof -
  have i: "i < length (pn_objects st)" using ok by (simp add: p2p_ok_at_def)
  have q: "peer_key_of (g (conn st i)) = peer_key_of (conn st i)" using g by auto
  have hs: "pc_hello (g (conn st i)) = Some (h\<lparr>he_tip_hash := su_tip_hash s, he_height := su_height s, he_cumulative_work := su_cumulative_work s\<rparr>)"
    using g h by auto
  have cs: "can_send (set_conn i g st) i" using g c i by (auto simp: can_send_def)
  have "pc_phase (g (conn st i)) = Serving" "ps_data (pc_reader (g (conn st i))) = []"
    "pc_rate_limiter (g (conn st i)) = pc_rate_limiter (conn st i)" using g r(1,2) by auto
  then show "listens i k B (set_conn i g st)" using cs r(3) i by (simp add: listens_def)
  show "lagging P i (set_conn i g st) sv a m"
    using p2p_ok_at_set_conn [where f = g and j = i, OF ok q] sb tip hs i m cs by (simp add: lagging_def s)
qed

text \<open>The blocks of one answer, and what its frames take.\<close>

definition answer_blocks :: "p2p_node \<Rightarrow> bytes list \<Rightarrow> nat \<Rightarrow> block list" where
  "answer_blocks sv a m = map (block_at (nd_chain (pn_local_node sv))) (take 128 (drop (m + 1) a))"

lemma exchange:
  assumes P: "platform_ok P" and sv: "p2p_ok P sv" and j: "listens j k' B' sv"
    and bs: "branch (nd_chain (pn_local_node sv)) (ch_tip (nd_chain (pn_local_node sv))) bs"
    and l: "lagging P i st sv (rev bs) m" and m: "Suc m < length bs" and w: "waiting P i st ws" and li: "listens i k B st"
    and n: "int (k + length (answer_blocks sv (rev bs) m)) + 1 \<le> li_max_messages_per_minute (pn_limits st)"
      "B + sum_list (map (frame_bytes P) (answer_blocks sv (rev bs) m)) + SUMMARY_BYTES \<le> li_max_bytes_per_minute (pn_limits st)"
      "int k' + 1 \<le> li_max_messages_per_minute (pn_limits sv)" "B' + REQUEST_BYTES \<le> li_max_bytes_per_minute (pn_limits sv)"
  shows "\<exists>sv' st'. hear P j now drawn ws sv = (Inr (), sv') \<and> hear P i now drawn (said j sv sv') st = (Inr (), st')
     \<and> p2p_ok P sv' \<and> listens j (Suc k') (B' + REQUEST_BYTES) sv' \<and> pn_local_node sv' = pn_local_node sv \<and> same_books sv sv' \<and> same_books st st'
     \<and> pn_limits sv' = pn_limits sv \<and> pn_limits st' = pn_limits st
     \<and> lagging P i st' sv (rev bs) (min (m + 128) (length bs - 1))
     \<and> listens i (Suc (k + length (answer_blocks sv (rev bs) m)))
         (B + sum_list (map (frame_bytes P) (answer_blocks sv (rev bs) m)) + SUMMARY_BYTES) st'
     \<and> (if length bs - 1 \<le> m + 128 then said i st st' = [] else waiting P i st' (said i st st'))"
proof -
  let ?c = "nd_chain (pn_local_node sv)" and ?a = "rev bs" and ?m = "min (m + 128) (length bs - 1)"
  have hP: "hash_ok P" using P by simp
  obtain h where h: "pc_hello (conn st i) = Some h" "he_cumulative_work h \<le> tip_work ?c" using l by (auto simp: lagging_def)
  obtain x where x: "ws = [x]" "asks P st x" "pc_block_request_outstanding (conn st i)" using w by (auto simp: waiting_def)
  have okst: "p2p_ok P st" and ml: "m < length bs" "ch_tip (nd_chain (pn_local_node st)) = ?a ! m"
    using l m by (simp_all add: lagging_def p2p_ok_at_def)
  obtain ws' w' p s lj where a: "hear P j now drawn [x] sv = (Inr (), wrote j (ws' @ [w']) (set_conn j (heard [] lj) sv))"
      "spent (pn_limits sv) (Suc k') (B' + REQUEST_BYTES) lj"
      "list_all2 (block_frame P) (map (block_at ?c) (take 128 (drop (m + 1) ?a))) ws'"
      "decode_frame P w' = Inr \<lparr>fr_message_type = SYNC_COMPLETE, fr_payload = p\<rparr>" "summary_from_bytes p = Inr s"
      and s: "s = \<lparr>su_tip_hash = ch_tip ?c, su_height = br_height (en_record (tip_entry ?c)), su_cumulative_work = tip_work ?c\<rparr>"
      and sz: "int (length w') \<le> SUMMARY_BYTES"
    using hear_request [where now = now and drawn = drawn, OF P okst sv j x(2) bs ml n(3,4)] by blast
  let ?sv = "wrote j (ws' @ [w']) (set_conn j (heard [] lj) sv)"
  have jl: "j < length (pn_objects sv)" using j by (simp add: listens_def can_send_def)
  have said: "said j sv ?sv = ws' @ [w']" using jl by (simp add: said_def wrote_def)
  have svok: "p2p_ok P ?sv" "same_books sv ?sv"
    unfolding wrote_def by (intro p2p_ok_set_conn sv) (simp_all add: peer_key_of_def heard_def same_books_def)
  have svl: "listens j (Suc k') (B' + REQUEST_BYTES) ?sv" using j a(2) jl by (simp add: listens_def wrote_def can_send_def)
  have lw: "length ws' = length (answer_blocks sv ?a m)"
      "int (length (concat ws')) = sum_list (map (frame_bytes P) (answer_blocks sv ?a m))"
    using list_all2_lengthD [OF a(3)] block_frames_size [OF hP a(3)] by (simp_all add: answer_blocks_def)
  obtain st1 lim where f: "\<forall>st2. handle_sync_complete P i s now st1 = (Inr (), st2) \<longrightarrow> hear P i now drawn (ws' @ [w']) st = (Inr (), st2)"
      "same_books st st1" "p2p_ok_at P i st1" "can_send st1 i" "pn_limits st1 = pn_limits st"
      "same_blocks ?c (nd_chain (pn_local_node st1))" "ch_tip (nd_chain (pn_local_node st1)) = ?a ! ?m"
      "0 < pc_accepted_blocks_in_request (conn st1 i)"
      "spent (pn_limits st) (Suc (k + length ws')) (B + int (length (concat ws')) + int (length w')) lim"
      "conn st1 i = (heard [] lim (conn st i))\<lparr>pc_accepted_blocks_in_request := pc_accepted_blocks_in_request (conn st1 i)\<rparr>"
    using answer_heard [where now = now and drawn = drawn, OF P sv bs l m w li a(3-5)] n(1,2) sz unfolding lw by fastforce
  let ?k = "tip_work (nd_chain (pn_local_node st1))"
  have ok1: "p2p_ok P st1" and i1: "i < length (pn_objects st1)" using f(3) by (simp_all add: p2p_ok_at_def)
  have hs: "pc_hello (conn st1 i) = Some h" "pc_block_request_outstanding (conn st1 i)" "pc_written (conn st1 i) = pc_written (conn st i)"
    using h(1) x(3) by (subst f(10), simp)+
  note hsum = handle_summary [OF P f(3) sv f(4,6) s hs(1) h(2) hs(2) f(8), of now]
  have all_heard: "tip_work ?c \<le> ?k \<longleftrightarrow> ?m = length bs - 1"
    by (rule tip_on_branch [OF p2p_chain_ok [OF P sv] p2p_chain_ok [OF P ok1] f(6) bs _ f(7)]) (use m in simp)
  have ready: "pc_phase (conn st1 i) = Serving" "ps_data (pc_reader (conn st1 i)) = []" "pc_rate_limiter (conn st1 i) = lim"
    using li by (subst f(10), simp add: listens_def)+
  have spent: "spent (pn_limits st1) (Suc (k + length ws')) (B + int (length (concat ws')) + SUMMARY_BYTES) (pc_rate_limiter (conn st1 i))"
    using f(5,9) sz ready(3) by (simp add: spent_def)
  have mm: "?m < length ?a" using m by simp
  note lag = after_summary [OF f(3,4,6,7) mm hs(1) s ready(1,2) spent]
  show ?thesis
  proof (cases "length bs - 1 \<le> m + 128")
    case True
    let ?st = "set_conn i (told s) st1"
    have o: "hear P i now drawn (ws' @ [w']) st = (Inr (), ?st)" "said i st ?st = []" "same_books st ?st"
      using f(1,2) hsum all_heard True hs(3) i1 by (simp_all add: said_def same_books_def)
    have "lagging P i ?st sv ?a ?m" "listens i (Suc (k + length ws')) (B + int (length (concat ws')) + SUMMARY_BYTES) ?st"
      by (rule lag, simp)+
    note o = o this [unfolded lw]
    show ?thesis
      by (rule exI [of _ ?sv], rule exI [of _ ?st]) (use a(1) x(1) said svok svl f(5) True o in simp)
  next
    case False
    then obtain y where y: "asks P st1 y" "handle_sync_complete P i s now st1 = (Inr (), set_conn i (\<lambda>c. asked ?k y (told s c)) st1)"
      using hsum all_heard by auto
    let ?st = "set_conn i (\<lambda>c. asked ?k y (told s c)) st1"
    have o: "waiting P i ?st (said i st ?st)" "hear P i now drawn (ws' @ [w']) st = (Inr (), ?st)" "same_books st ?st"
      using y hs(3) i1 f(1,2) by (simp_all add: waiting_def said_def asks_def block_locator_def same_books_def)
    have "lagging P i ?st sv ?a ?m" "listens i (Suc (k + length ws')) (B + int (length (concat ws')) + SUMMARY_BYTES) ?st"
      by (rule lag, blast)+
    note o = o this [unfolded lw]
    show ?thesis
      by (rule exI [of _ ?sv], rule exI [of _ ?st]) (use a(1) x(1) said svok svl f(5) False o in simp)
  qed
qed

subsection \<open>Until the chains are the same\<close>

text \<open>The budgets for the blocks that are missing from position \<open>m\<close> on.\<close>

definition budget :: "platform \<Rightarrow> p2p_node \<Rightarrow> p2p_node \<Rightarrow> block list \<Rightarrow> nat \<Rightarrow> nat \<Rightarrow> int \<Rightarrow> nat \<Rightarrow> int \<Rightarrow> bool" where
  "budget P st sv missing n k B k' B' \<longleftrightarrow>
     int (k + length missing + n) \<le> li_max_messages_per_minute (pn_limits st)
   \<and> B + sum_list (map (frame_bytes P) missing) + int n * SUMMARY_BYTES \<le> li_max_bytes_per_minute (pn_limits st)
   \<and> int (k' + n) \<le> li_max_messages_per_minute (pn_limits sv)
   \<and> B' + int n * REQUEST_BYTES \<le> li_max_bytes_per_minute (pn_limits sv)"

lemma frame_bytes_nonneg: "0 \<le> sum_list (map (frame_bytes P) bs)"
  by (induction bs) (auto simp: frame_bytes_def split: sum.split)

lemma budget_split:
  assumes "budget P st sv (as @ bs) (Suc n) k B k' B'"
  shows "int (k + length as) + 1 \<le> li_max_messages_per_minute (pn_limits st)"
    and "B + sum_list (map (frame_bytes P) as) + SUMMARY_BYTES \<le> li_max_bytes_per_minute (pn_limits st)"
    and "int k' + 1 \<le> li_max_messages_per_minute (pn_limits sv)" and "B' + REQUEST_BYTES \<le> li_max_bytes_per_minute (pn_limits sv)"
    and "budget P st sv bs n (Suc (k + length as)) (B + sum_list (map (frame_bytes P) as) + SUMMARY_BYTES) (Suc k') (B' + REQUEST_BYTES)"
  using assms frame_bytes_nonneg [of P bs]
  by (simp_all add: budget_def SUMMARY_BYTES_def REQUEST_BYTES_def algebra_simps)

lemma budget_cong: "pn_limits st' = pn_limits st \<Longrightarrow> pn_limits sv' = pn_limits sv \<Longrightarrow>
    budget P st sv bs n k B k' B' \<Longrightarrow> budget P st' sv' bs n k B k' B'"
  by (simp add: budget_def)

lemma converse_catches_up:
  assumes P: "platform_ok P"
  shows "p2p_ok P sv \<Longrightarrow> listens j k' B' sv \<Longrightarrow> branch (nd_chain (pn_local_node sv)) (ch_tip (nd_chain (pn_local_node sv))) bs \<Longrightarrow>
     lagging P i st sv (rev bs) m \<Longrightarrow> Suc m < length bs \<Longrightarrow> waiting P i st ws \<Longrightarrow> n = (length bs - Suc m + 127) div 128 \<Longrightarrow>
     listens i k B st \<Longrightarrow> budget P st sv (map (block_at (nd_chain (pn_local_node sv))) (drop (m + 1) (rev bs))) n k B k' B' \<Longrightarrow>
     \<exists>st' sv' kl Bl kl' Bl'. converse P i j clock drawn n ws st sv = Inr ([], st', sv') \<and> lagging P i st' sv' (rev bs) (length bs - 1)
       \<and> same_books st st' \<and> same_books sv sv' \<and> pn_local_node sv' = pn_local_node sv \<and> listens i kl Bl st' \<and> listens j kl' Bl' sv'"
proof (induction n arbitrary: m st sv ws k B k' B')
  case (Suc n)
  let ?ab = "answer_blocks sv (rev bs) m" and ?rest = "map (block_at (nd_chain (pn_local_node sv))) (drop (m + 128 + 1) (rev bs))"
  have "128 + (m + 1) = m + 128 + 1" by simp
  then have "take 128 (drop (m + 1) (rev bs)) @ drop (m + 128 + 1) (rev bs) = drop (m + 1) (rev bs)"
    using append_take_drop_id [of 128 "drop (m + 1) (rev bs)"] unfolding drop_drop by (simp only:)
  then have "map (block_at (nd_chain (pn_local_node sv))) (drop (m + 1) (rev bs)) = ?ab @ ?rest"
    unfolding answer_blocks_def map_append [symmetric] by (simp only:)
  note bg = budget_split [OF Suc.prems(9) [unfolded this]]
  obtain sv' st' where x: "hear P j (clock n) drawn ws sv = (Inr (), sv')" "hear P i (clock n) drawn (said j sv sv') st = (Inr (), st')" "p2p_ok P sv'"
      "listens j (Suc k') (B' + REQUEST_BYTES) sv'" "pn_local_node sv' = pn_local_node sv" "same_books sv sv'" "same_books st st'"
      "pn_limits sv' = pn_limits sv" "pn_limits st' = pn_limits st"
      "lagging P i st' sv (rev bs) (min (m + 128) (length bs - 1))"
      "listens i (Suc (k + length ?ab)) (B + sum_list (map (frame_bytes P) ?ab) + SUMMARY_BYTES) st'"
      "if length bs - 1 \<le> m + 128 then said i st st' = [] else waiting P i st' (said i st st')"
    using exchange [where now = "clock n" and drawn = drawn, OF P Suc.prems(1-6,8) bg(1-4)] by blast
  have l: "lagging P i st' sv' (rev bs) (min (m + 128) (length bs - 1))" using x(5,10) by (simp add: lagging_def)
  show ?case
  proof (cases "length bs - 1 \<le> m + 128")
    case True
    then have "Suc n = 1" using Suc.prems(5,7) by (simp add: div_eq_dividend_iff)
    then have "converse P i j clock drawn (Suc n) ws st sv = Inr ([], st', sv')" using x(1,2,12) True by simp
    moreover have "lagging P i st' sv' (rev bs) (length bs - 1)" using l True by (simp add: min_absorb2)
    ultimately show ?thesis using x(4-7,11) by blast
  next
    case False
    have "n = (length bs - Suc (m + 128) + 127) div 128" using Suc.prems(7) False by simp
    moreover have "branch (nd_chain (pn_local_node sv')) (ch_tip (nd_chain (pn_local_node sv'))) bs" using Suc.prems(3) x(5) by simp
    moreover have "lagging P i st' sv' (rev bs) (m + 128)" using l False by (simp add: min_absorb1)
    moreover have "Suc (m + 128) < length bs" "waiting P i st' (said i st st')" using False x(12) by simp_all
    moreover have "budget P st' sv' (map (block_at (nd_chain (pn_local_node sv'))) (drop (m + 128 + 1) (rev bs))) n
        (Suc (k + length ?ab)) (B + sum_list (map (frame_bytes P) ?ab) + SUMMARY_BYTES) (Suc k') (B' + REQUEST_BYTES)"
      using budget_cong [OF x(9,8) bg(5)] unfolding x(5) .
    ultimately have "\<exists>st'' sv'' kl Bl kl' Bl'. converse P i j clock drawn n (said i st st') st' sv' = Inr ([], st'', sv'')
       \<and> lagging P i st'' sv'' (rev bs) (length bs - 1)
       \<and> same_books st' st'' \<and> same_books sv' sv'' \<and> pn_local_node sv'' = pn_local_node sv' \<and> listens i kl Bl st'' \<and> listens j kl' Bl' sv''"
      using Suc.IH [OF x(3,4) _ _ _ _ _ x(11)] by blast
    then obtain st'' sv'' kl Bl kl' Bl' where y:
        "converse P i j clock drawn n (said i st st') st' sv' = Inr ([], st'', sv'')" "lagging P i st'' sv'' (rev bs) (length bs - 1)"
        "same_books st' st''" "same_books sv' sv''" "pn_local_node sv'' = pn_local_node sv'" "listens i kl Bl st''" "listens j kl' Bl' sv''" by blast
    have "converse P i j clock drawn (Suc n) ws st sv = Inr ([], st'', sv'')" using x(1,2) y(1) by simp
    moreover have "pn_local_node sv'' = pn_local_node sv" using y(5) x(5) by simp
    ultimately show ?thesis using y(2,6,7) same_books_trans [OF x(7) y(3)] same_books_trans [OF x(6) y(4)] by blast
  qed
qed simp

text \<open>A node that has the tip of an agreeing chain has its whole branch.\<close>

lemma branch_agrees:
  assumes t: "tree_ok P c" and tb: "tree_ok P b" and s: "same_blocks c b"
  shows "branch c h bs \<Longrightarrow> map_of (ch_entries b) h = Some e' \<Longrightarrow> branch b h bs \<and> map (block_at b) bs = map (block_at c) bs"
proof (induction arbitrary: e' rule: branch.induct)
  case (branch_root h e)
  have "e = e'" by (rule entries_agree [OF t tb s branch_root(1,3)])
  then show ?case using branch_root by (auto simp: block_at_def intro: branch.branch_root)
next
  case (branch_child h e p bs)
  have e: "e = e'" by (rule entries_agree [OF t tb s branch_child(1) branch_child.prems])
  obtain pe where "map_of (ch_entries b) p = Some pe" by (rule work_rises [OF tb branch_child.prems]) (use branch_child(2) e in auto)
  from branch_child.IH [OF this] show ?case
    using branch_child(1,2) branch_child.prems e by (auto simp: block_at_def intro: branch.branch_child)
qed

lemma same_tip_same_chain:
  assumes c: "chain_ok P c" and b: "chain_ok P b" and s: "same_blocks c b" and tip: "ch_tip b = ch_tip c"
  shows "active_chain b = active_chain c"
proof -
  obtain bs where bs: "branch c (ch_tip c) bs" "active_chain c = Inr (map (block_at c) (rev bs))" by (rule active_hashes [OF c]) blast
  obtain as where as: "branch b (ch_tip b) as" "active_chain b = Inr (map (block_at b) (rev as))" by (rule active_hashes [OF b]) blast
  have "map_of (ch_entries b) (ch_tip c) = Some (tip_entry b)" using tip_facts(9) [OF b] tip by simp
  from branch_agrees [OF chain_okD(1) [OF c] chain_okD(1) [OF b] s bs(1) this]
  have x: "branch b (ch_tip b) bs" "map (block_at b) bs = map (block_at c) bs" unfolding tip by blast+
  then show ?thesis using branch_fun [OF as(1) x(1)] bs(2) as(2) by (simp add: rev_map [symmetric])
qed

lemma mapE_take: "mapE f xs = Inr ys \<Longrightarrow> mapE f (take n xs) = Inr (take n ys)"
proof (induction xs arbitrary: ys n)
  case (Cons x xs)
  then show ?case by (cases n) (auto simp: bindE_eq_Inr)
qed simp

text \<open>A node whose active chain is a proper prefix of an agreeing chain has its tip on that branch and less work.\<close>

lemma prefix_lags:
  assumes c: "chain_ok P c" and b: "chain_ok P b" and s: "same_blocks c b"
    and a: "active_chain c = Inr blocks" "active_chain b = Inr (take (Suc m) blocks)" and m: "Suc m < length blocks"
  obtains bs where "branch c (ch_tip c) bs" "length bs = length blocks" "ch_tip b = rev bs ! m" "rev bs ! (length bs - 1) = ch_tip c"
    "tip_work b < tip_work c" "blocks = map (block_at c) (rev bs)"
proof -
  obtain bs where bs: "branch c (ch_tip c) bs" "active_chain c = Inr (map (block_at c) (rev bs))"
      "mapE (block_hash P) (map (block_at c) (rev bs)) = Inr (rev bs)" "bs \<noteq> []" "hd bs = ch_tip c" by (rule active_hashes [OF c]) blast
  obtain as where as: "active_chain b = Inr (map (block_at b) (rev as))"
      "mapE (block_hash P) (map (block_at b) (rev as)) = Inr (rev as)" "as \<noteq> []" "hd as = ch_tip b" by (rule active_hashes [OF b]) blast
  have "blocks = map (block_at c) (rev bs)" using a(1) bs(2) by simp
  then have bl: "blocks = map (block_at c) (rev bs)" "length bs = length blocks" by simp_all
  have "rev as = take (Suc m) (rev bs)"
    using as(1,2) a(2) mapE_take [OF bs(3), of "Suc m"] unfolding bl(1) by simp
  then have "last (rev as) = rev bs ! m" using m bl(2) by (simp add: take_Suc_conv_app_nth)
  then have tip: "ch_tip b = rev bs ! m" using as(3,4) by (simp add: last_rev)
  have "\<not> tip_work c \<le> tip_work b" using tip_on_branch [OF c b s bs(1) _ tip] m bl(2) by simp
  moreover have "rev bs ! (length bs - 1) = ch_tip c" using bs(4,5) by (simp add: rev_nth hd_conv_nth)
  ultimately show thesis using that [OF bs(1) bl(2) tip] bl(1) by simp
qed

lemma catches_up:
  assumes P: "platform_ok P" and st: "p2p_ok P st" and sv: "p2p_ok P sv" and i: "listens i k B st" and j: "listens j k' B' sv"
    and s: "same_blocks (nd_chain (pn_local_node sv)) (nd_chain (pn_local_node st))"
    and a: "active_chain (nd_chain (pn_local_node sv)) = Inr blocks" "active_chain (nd_chain (pn_local_node st)) = Inr (take (Suc m) blocks)"
    and m: "Suc m < length blocks"
    and h: "pc_hello (conn st i) = Some h" "he_cumulative_work h \<le> tip_work (nd_chain (pn_local_node sv))"
    and w: "waiting P i st ws"
    and bg: "budget P st sv (drop (Suc m) blocks) ((length blocks - Suc m + 127) div 128) k B k' B'"
  shows "\<exists>st' sv' kl Bl kl' Bl'. converse P i j clock drawn ((length blocks - Suc m + 127) div 128) ws st sv = Inr ([], st', sv')
     \<and> active_chain (nd_chain (pn_local_node st')) = Inr blocks \<and> same_books st st' \<and> same_books sv sv' \<and> pn_local_node sv' = pn_local_node sv
     \<and> listens i kl Bl st' \<and> listens j kl' Bl' sv'"
proof -
  let ?c = "nd_chain (pn_local_node sv)" and ?b = "nd_chain (pn_local_node st)"
  note c = p2p_chain_ok [OF P sv]
  obtain bs where bs: "branch ?c (ch_tip ?c) bs" "length bs = length blocks" "ch_tip ?b = rev bs ! m" "rev bs ! (length bs - 1) = ch_tip ?c"
    and bl: "blocks = map (block_at ?c) (rev bs)"
    by (rule prefix_lags [OF c p2p_chain_ok [OF P st] s a m])
  have cs: "can_send st i" using i by (simp add: listens_def)
  have l: "lagging P i st sv (rev bs) m"
    using st cs s bs(2,3) m h by (simp add: lagging_def p2p_ok_at_def can_send_def)
  have m': "Suc m < length bs" using m bs(2) by simp
  have bg': "budget P st sv (map (block_at ?c) (drop (m + 1) (rev bs))) ((length bs - Suc m + 127) div 128) k B k' B'"
    using bg unfolding bs(2) bl by (simp add: drop_map)
  obtain st' sv' kl Bl kl' Bl' where y: "converse P i j clock drawn ((length bs - Suc m + 127) div 128) ws st sv = Inr ([], st', sv')"
      "lagging P i st' sv' (rev bs) (length bs - 1)" "same_books st st'" "same_books sv sv'" "pn_local_node sv' = pn_local_node sv"
      "listens i kl Bl st'" "listens j kl' Bl' sv'"
    using converse_catches_up [OF P sv j bs(1) l m' w refl i bg'] by blast
  then have "ch_tip (nd_chain (pn_local_node st')) = ch_tip ?c" and s': "same_blocks ?c (nd_chain (pn_local_node st'))"
    and ok': "p2p_ok P st'" using bs(4) by (simp_all add: lagging_def p2p_ok_at_def)
  then have "active_chain (nd_chain (pn_local_node st')) = Inr blocks"
    using same_tip_same_chain [OF c p2p_chain_ok [OF P ok'] s'] a(1) by simp
  then show ?thesis using y unfolding bs(2) by blast
qed

subsection \<open>The chains of the sample nodes\<close>

text \<open>A block on the tip is appended to the active chain.\<close>

lemma child_of_tip_chain:
  assumes ok: "chain_ok P c" and a: "add_block P b c = (Inr u, c')" and p: "bh_previous_block_hash (bl_header b) = ch_tip c"
    and ac: "active_chain c = Inr bs"
  shows "active_chain c' = Inr (bs @ [b])"
proof -
  obtain h e where u: "update_ok c h e c' u" and ok': "chain_ok P c'" and e: "map_of (ch_entries c') h = Some e"
    and b: "en_block e = b" and pe: "br_parent_hash (en_record e) = Some (bh_previous_block_hash (bl_header b))"
    and x: "extends c c'"
    by (rule added_entry [OF ok a])
  obtain hs where hs: "branch c (ch_tip c) hs" "active_chain c = Inr (map (block_at c) (rev hs))" by (rule active_hashes [OF ok]) blast
  have "map (block_at c') hs = map (block_at c) hs"
    using branch_known [OF chain_okD(1) [OF ok] hs(1)] extends_lookup [OF x] by (force simp: block_at_def)
  moreover have "branch c' h (h # hs)" by (rule branch_child [OF e]) (use pe p branch_extends [OF hs(1) x] in simp_all)
  moreover have "ch_tip c' = h" using child_of_tip_active(1) [OF ok a p] u by (simp add: update_ok_def)
  moreover obtain hs' where "branch c' (ch_tip c') hs'" "active_chain c' = Inr (map (block_at c') (rev hs'))"
    by (rule active_hashes [OF ok']) blast
  ultimately show ?thesis using hs(2) ac e b branch_fun by (fastforce simp: rev_map [symmetric] block_at_def)
qed

lemma sample_active_chains:
  "active_chain sample_chain = Inr [sample_genesis]" "active_chain sample_chain_2 = Inr [sample_genesis, sample_next]"
proof -
  note c = sample_chain_ok
  obtain e where e: "ch_entries sample_chain = [(ch_tip sample_chain, e)]" "en_block e = sample_genesis" "br_parent_hash (en_record e) = None"
    using new_chain_entries [OF sample_platform_ok sample_chain_new] sample_genesis_ok(1) by auto
  obtain hs where hs: "branch sample_chain (ch_tip sample_chain) hs" "active_chain sample_chain = Inr (map (block_at sample_chain) (rev hs))"
    by (rule active_hashes [OF c]) blast
  have "branch sample_chain (ch_tip sample_chain) [ch_tip sample_chain]" by (rule branch_root) (use e in simp_all)
  from branch_fun [OF hs(1) this] show g: "active_chain sample_chain = Inr [sample_genesis]" using hs(2) e by (simp add: block_at_def)
  obtain u where u: "add_block sample_platform sample_next sample_chain = (Inr u, sample_chain_2)" using sample_next_added(2) by blast
  have "map_of (ch_entries sample_chain) (bh_previous_block_hash (bl_header sample_next)) \<noteq> None" by (rule added_entry [OF c u])
  then have p: "bh_previous_block_hash (bl_header sample_next) = ch_tip sample_chain" by (simp add: e(1) split: if_splits)
  show "active_chain sample_chain_2 = Inr [sample_genesis, sample_next]" using child_of_tip_chain [OF c u p g] by simp
qed

subsection \<open>Property\<close>

text \<open>C3. \<open>lagging_node_catches_up\<close>: two nodes of the program with different node IDs have a fresh connection between them,
  the chain of \<open>a\<close> is a prefix of the chain of \<open>b\<close>, and what is missing is within the limits of one minute: the
  missing blocks and one summary for every 128 of them, in number and in bytes, within the limits of \<open>a\<close>, and the requests
  within those of \<open>b\<close>. Then both tasks get through their greetings and \<open>a\<close> asks for blocks; and when each task runs on what
  the other has written, reading, counting and handling one frame in each round, the conversation ends by itself after one
  exchange for every 128 missing blocks, or part of them, however fast or slow the exchanges follow each other. Then \<open>a\<close> has the
  chain of \<open>b\<close>, \<open>b\<close> has kept its own, both connections are open and serve, and no score or ban was touched on either side. (The
  limits are needed: \<open>over_limit_peer_is_banned\<close>.)\<close>

theorem lagging_node_catches_up:
  assumes "platform_ok P" and "p2p_reachable P ip (t, a)" and "p2p_reachable P ip' (t', b)" and "pn_node_id a \<noteq> pn_node_id b"
    and "0 \<le> pn_port a" and "pn_port a \<le> 65535" and "0 \<le> pn_port b" and "pn_port b \<le> 65535"
    and "can_send a i" and "pc_phase (conn a i) = Starting" and "ps_data (pc_reader (conn a i)) = []"
    and "\<not> pc_block_request_outstanding (conn a i)"
    and "can_send b j" and "pc_phase (conn b j) = Starting" and "ps_data (pc_reader (conn b j)) = []"
    and "\<forall>k h. k \<in> set (pn_connections a) \<and> pc_hello (conn a k) = Some h \<longrightarrow> he_node_id h \<noteq> pn_node_id b"
    and "\<forall>k h. k \<in> set (pn_connections b) \<and> pc_hello (conn b k) = Some h \<longrightarrow> he_node_id h \<noteq> pn_node_id a"
    and "same_blocks (nd_chain (pn_local_node b)) (nd_chain (pn_local_node a))"
    and "active_chain (nd_chain (pn_local_node b)) = Inr blocks"
    and "active_chain (nd_chain (pn_local_node a)) = Inr (take (Suc m) blocks)" and "Suc m < length blocks"
    and "pc_rate_limiter (conn a i) = new_rate_limiter (pn_limits a)" and "pc_rate_limiter (conn b j) = new_rate_limiter (pn_limits b)"
    and "n = (length blocks - Suc m + 127) div 128"
    and "int (length blocks - Suc m + n) \<le> li_max_messages_per_minute (pn_limits a)"
    and "sum_list (map (frame_bytes P) (drop (Suc m) blocks)) + int n * SUMMARY_BYTES \<le> li_max_bytes_per_minute (pn_limits a)"
    and "int n \<le> li_max_messages_per_minute (pn_limits b)" and "int n * REQUEST_BYTES \<le> li_max_bytes_per_minute (pn_limits b)"
  shows "\<exists>a1 b1 wa wb a2 b2 a3 b3.
    run_task P i now drawn a = (Inr (), a1) \<and> said i a a1 = [wa] \<and> run_task P j now drawn b = (Inr (), b1) \<and> said j b b1 = [wb] \<and>
    run_task P i now drawn (deliver i wb a1) = (Inr (), a2) \<and> run_task P j now drawn (deliver j wa b1) = (Inr (), b2) \<and>
    converse P i j clock drawn n (said i a1 a2) a2 b2 = Inr ([], a3, b3) \<and>
    active_chain (nd_chain (pn_local_node a3)) = Inr blocks \<and> same_books a2 a3 \<and> pn_local_node b3 = pn_local_node b \<and> same_books b2 b3 \<and>
    pc_phase (conn a3 i) = Serving \<and> \<not> pc_closed (conn a3 i) \<and> pc_phase (conn b3 j) = Serving \<and> \<not> pc_closed (conn b3 j)"
proof -
  note P = assms(1)
  have a: "p2p_ok P a" "length (pn_node_id a) = 16"
    using p2p_reachable_ok [OF P assms(2)] p2p_reachable_timely [OF P assms(2)] by (simp_all add: limits_time_def)
  have b: "p2p_ok P b" "length (pn_node_id b) = 16"
    using p2p_reachable_ok [OF P assms(3)] p2p_reachable_timely [OF P assms(3)] by (simp_all add: limits_time_def)
  let ?a1 = "\<lambda>w. set_conn i (pc_phase_update (\<lambda>_. Awaiting_Hello)) (wrote i [w] a)"
  let ?b1 = "\<lambda>w. set_conn j (pc_phase_update (\<lambda>_. Awaiting_Hello)) (wrote j [w] b)"
  obtain ha xa wa where ha: "own_hello P a = Inr ha" "hello_from_bytes P xa = Inr ha" "encode_frame P HELLO xa PROTOCOL_VERSION = Inr wa"
      "run_task P i now drawn a = (Inr (), ?a1 wa)"
    using greeting_written [OF P a assms(5,6,9,10)] by blast
  obtain hb xb wb where hb: "own_hello P b = Inr hb" "hello_from_bytes P xb = Inr hb" "encode_frame P HELLO xb PROTOCOL_VERSION = Inr wb"
      "run_task P j now drawn b = (Inr (), ?b1 wb)"
    using greeting_written [OF P b assms(7,8,13,14)] by blast
  have len: "i < length (pn_objects a)" "j < length (pn_objects b)" using assms(9,13) by (simp_all add: can_send_def)
  have s1: "said i a (?a1 wa) = [wa]" "said j b (?b1 wb) = [wb]" using len by (simp_all add: said_def wrote_def)
  have less: "tip_work (nd_chain (pn_local_node a)) < tip_work (nd_chain (pn_local_node b))"
    by (rule prefix_lags [OF p2p_chain_ok [OF P b(1)] p2p_chain_ok [OF P a(1)] assms(18-21)])
  obtain b2 where b2: "run_task P j now drawn (deliver j wa (?b1 wb)) = (Inr (), b2)" "p2p_ok P b2" "can_send b2 j"
      "pn_local_node b2 = pn_local_node b" "pc_phase (conn b2 j) = Serving" "ps_data (pc_reader (conn b2 j)) = []"
      "pc_rate_limiter (conn b2 j) = pc_rate_limiter (conn b j)" "pn_limits b2 = pn_limits b"
    using one_side [OF P b(1) a(1) assms(4,13-15,17) ha(1-3) refl] by blast
  obtain a2 x where a2: "run_task P i now drawn (deliver i wb (?a1 wa)) = (Inr (), a2)" "pc_hello (conn a2 i) = Some hb" "p2p_ok P a2"
      "can_send a2 i" "pn_local_node a2 = pn_local_node a" "pc_block_request_outstanding (conn a2 i)"
      "pc_accepted_blocks_in_request (conn a2 i) = 0" "asks P a2 x" "pc_written (conn a2 i) = pc_written (conn (?a1 wa) i) @ [x]"
      "pc_phase (conn a2 i) = Serving" "ps_data (pc_reader (conn a2 i)) = []"
      "pc_rate_limiter (conn a2 i) = pc_rate_limiter (conn a i)" "pn_limits a2 = pn_limits a"
    using one_side [OF P a(1) b(1) assms(4) [symmetric] assms(9-11,16) hb(1-3) refl] less assms(12) by blast
  have w: "waiting P i a2 (said i (?a1 wa) a2)" using a2(6-9) by (simp add: waiting_def said_def)
  have work: "he_cumulative_work hb \<le> tip_work (nd_chain (pn_local_node b2))"
    using own_hello_spec [OF P b(1)] hb(1) b2(4) by (auto simp: tip_work_def)
  have l: "listens i 0 0 a2" "listens j 0 0 b2" using a2 b2 assms(22,23) spent_new by (simp_all add: listens_def)
  have bg: "budget P a2 b2 (drop (Suc m) blocks) ((length blocks - Suc m + 127) div 128) 0 0 0 0"
    using assms(25-28) a2(13) b2(8) unfolding assms(24) by (simp add: budget_def)
  obtain a3 b3 kl Bl kl' Bl' where y: "converse P i j clock drawn n (said i (?a1 wa) a2) a2 b2 = Inr ([], a3, b3)"
      "active_chain (nd_chain (pn_local_node a3)) = Inr blocks" "same_books a2 a3" "pn_local_node b3 = pn_local_node b" "same_books b2 b3"
      "listens i kl Bl a3" "listens j kl' Bl' b3"
    using catches_up [OF P a2(3) b2(2) l _ _ _ assms(21) a2(2) work w bg] assms(18-20) unfolding a2(5) b2(4) assms(24) by blast
  have o: "pc_phase (conn a3 i) = Serving" "\<not> pc_closed (conn a3 i)" "pc_phase (conn b3 j) = Serving" "\<not> pc_closed (conn b3 j)"
    using y(6,7) by (simp_all add: listens_def can_send_def)
  show ?thesis
    by (rule exI [of _ "?a1 wa"], rule exI [of _ "?b1 wb"], rule exI [of _ wa], rule exI [of _ wb], rule exI [of _ a2], rule exI [of _ b2],
        rule exI [of _ a3], rule exI [of _ b3]) (intro conjI ha(4) hb(4) s1 a2(1) b2(1) y(1-5) o)
qed

text \<open>The frame of the sample block is within the limits.\<close>

lemma sample_frame_bytes: "frame_bytes sample_platform sample_next \<le> 15 + MAX_FRAME_PAYLOAD"
proof -
  obtain u where u: "add_block sample_platform sample_next sample_chain = (Inr u, sample_chain_2)" using sample_next_added(2) by blast
  obtain h e where e: "map_of (ch_entries sample_chain_2) h = Some e" "en_block e = sample_next" by (rule added_entry [OF sample_chain_ok u])
  have "chain_ok sample_platform sample_chain_2" by (rule reachable_ok [OF sample_platform_ok sample_chain_2_reachable])
  then obtain p where "encode_block sample_platform sample_next = Inr p" "int (length p) \<le> MAX_FRAME_PAYLOAD"
    using entry_travels [OF chain_okD(1) e(1)] e(2) by auto
  then show ?thesis by (simp add: frame_bytes_def FRAME_PREFIX_SIZE_def)
qed

lemma lagging_node_catches_up_witness:
  "\<exists>ws a2 b2 a3 b3. converse sample_platform 0 0 (\<lambda>_. 0) [] 1 ws a2 b2 = Inr ([], a3, b3) \<and>
     active_chain (nd_chain (pn_local_node (sample_connected 1))) = Inr [sample_genesis] \<and>
     active_chain (nd_chain (pn_local_node a3)) = Inr [sample_genesis, sample_next]"
proof -
  have ids: "pn_node_id (sample_connected 1) \<noteq> pn_node_id sample_ahead"
    by (simp add: sample_ahead_def sample_connected_fields)
  have ports: "0 \<le> pn_port (sample_connected n)" "pn_port (sample_connected n) \<le> 65535" "0 \<le> pn_port sample_ahead" "pn_port sample_ahead \<le> 65535" for n
    by (simp_all add: sample_ahead_def sample_connected_fields DEFAULT_TESTNET_PORT_def)
  have fresh: "can_send sample_ahead 0" "pc_phase (conn sample_ahead 0) = Starting" "ps_data (pc_reader (conn sample_ahead 0)) = []"
      "\<not> pc_block_request_outstanding (conn (sample_connected n) 0)" for n
    using sample_can_send [of 2] sample_fresh [of 2]
    by (simp_all add: sample_ahead_def can_send_def sample_connected_fields new_connection_def)
  have n: "\<forall>k h. k \<in> set (pn_connections (sample_connected m)) \<and> pc_hello (conn (sample_connected m) k) = Some h \<longrightarrow> he_node_id h \<noteq> x"
      "\<forall>k h. k \<in> set (pn_connections sample_ahead) \<and> pc_hello (conn sample_ahead k) = Some h \<longrightarrow> he_node_id h \<noteq> x" for m x
    by (simp_all add: sample_ahead_def sample_connected_fields new_connection_def)
  have c: "active_chain (nd_chain (pn_local_node sample_ahead)) = Inr [sample_genesis, sample_next]"
    using submit_block_spec [OF sample_platform_ok node_reachable_ok [OF sample_platform_ok sample_node_reachable], of sample_next]
      sample_next_added(2) sample_active_chains(2)
    by (cases "submit_block sample_platform sample_next sample_node") (auto simp: sample_ahead_local sample_node_def)
  have d: "active_chain (nd_chain (pn_local_node (sample_connected 1))) = Inr (take (Suc 0) [sample_genesis, sample_next])"
    by (simp add: sample_connected_fields sample_node_def sample_active_chains)
  have l: "Suc 0 < length [sample_genesis, sample_next]" by simp
  have r: "pc_rate_limiter (conn (sample_connected 1) 0) = new_rate_limiter (pn_limits (sample_connected 1))"
      "pc_rate_limiter (conn sample_ahead 0) = new_rate_limiter (pn_limits sample_ahead)"
    by (simp_all add: sample_ahead_def sample_connected_fields new_connection_def)
  have b: "int (length [sample_genesis, sample_next] - Suc 0 + 1) \<le> li_max_messages_per_minute (pn_limits (sample_connected 1))"
      "sum_list (map (frame_bytes sample_platform) (drop (Suc 0) [sample_genesis, sample_next])) + int 1 * SUMMARY_BYTES
        \<le> li_max_bytes_per_minute (pn_limits (sample_connected 1))"
      "int 1 \<le> li_max_messages_per_minute (pn_limits sample_ahead)" "int 1 * REQUEST_BYTES \<le> li_max_bytes_per_minute (pn_limits sample_ahead)"
    using sample_frame_bytes
    by (simp_all add: sample_ahead_def sample_connected_fields default_limits_def SUMMARY_BYTES_def REQUEST_BYTES_def MAX_FRAME_PAYLOAD_def)
  from lagging_node_catches_up [OF sample_platform_ok sample_connected_reachable sample_ahead_reachable ids ports(1-4)
      sample_can_send sample_fresh(1,2) fresh(4) fresh(1-3) n sample_ahead_blocks c d l r _ b, of 0 "[]" "\<lambda>_. 0"]
  show ?thesis using d by fastforce
qed

end
