(* ===== verification/Cli.thy ===== *)
theory Cli
  imports P2p_Session
begin

text \<open>
  \<open>cli.py\<close>: amounts, the shell over a local node, the commands on a database and on wallet files, the start
  of a network node. \<open>shlex.split\<close>, \<open>argparse\<close>, JSON text, passwords typed and keys drawn are arguments.
  Printed text is part of the result.
\<close>

subsection \<open>Amounts\<close>

definition DEFAULT_FEE_ATOMS :: int where "DEFAULT_FEE_ATOMS = ATOMS_PER_OUR div 100"

text \<open>The characters \<open>str.strip\<close> removes, the three parts of \<open>str.partition\<close> and \<open>str.rpartition\<close>.\<close>

definition py_space :: "nat \<Rightarrow> bool" where
  "py_space c \<longleftrightarrow> 9 \<le> c \<and> c \<le> 13 \<or> 28 \<le> c \<and> c \<le> 32 \<or> c \<in> {0x85, 0xA0, 0x1680, 0x2028, 0x2029, 0x202F, 0x205F, 0x3000}
     \<or> 0x2000 \<le> c \<and> c \<le> 0x200A"

definition partition_at :: "nat \<Rightarrow> pystr \<Rightarrow> pystr \<times> bool \<times> pystr" where
  "partition_at sep v = (takeWhile (\<lambda>c. c \<noteq> sep) v, sep \<in> set v, tl (dropWhile (\<lambda>c. c \<noteq> sep) v))"

definition rpartition_at :: "nat \<Rightarrow> pystr \<Rightarrow> pystr \<times> bool \<times> pystr" where
  "rpartition_at sep v = (case partition_at sep (rev v) of (after, found, before) \<Rightarrow> (rev before, found, rev after))"

definition ascii_decimal :: "pystr \<Rightarrow> bool" where
  "ascii_decimal s \<longleftrightarrow> s \<noteq> [] \<and> list_all (\<lambda>c. 48 \<le> c \<and> c \<le> 57) s"

definition decimal_value :: "pystr \<Rightarrow> int" where
  "decimal_value s = foldl (\<lambda>a c. a * 10 + (int c - 48)) 0 s"

text \<open>\<open>int\<close> of a digit string; the interpreter refuses more than 4300 digits.\<close>

definition int_of_decimal :: "pystr \<Rightarrow> int res" where
  "int_of_decimal s =
     (if length s > 4300 then raise ValueError ''Exceeds the limit (4300 digits) for integer string conversion''
      else Inr (decimal_value s))"

definition parse_our_amount :: "pystr \<Rightarrow> bool \<Rightarrow> int res" where
  "parse_our_amount v allow_zero =
     (if v = [] \<or> py_space (hd v) \<or> py_space (last v) then raise CliError ''amount must be plain decimal text''
      else case partition_at 46 v of (whole, separator, fraction) \<Rightarrow>
        if \<not> ascii_decimal whole then raise CliError ''amount must be a non-negative plain decimal''
        else if separator \<and> \<not> ascii_decimal fraction then raise CliError ''amount fraction must contain decimal digits''
        else if length fraction > 8 then raise CliError ''amount supports at most 8 decimal places''
        else
        bindE (int_of_decimal whole) (\<lambda>w.
        let atoms = w * ATOMS_PER_OUR + decimal_value (fraction @ replicate (8 - length fraction) 48) in
        if atoms > U64_MAX then raise CliError ''amount exceeds the uint64 range''
        else if atoms = 0 \<and> \<not> allow_zero then raise CliError ''amount must be positive''
        else Inr atoms))"

definition zero_padded :: "nat \<Rightarrow> pystr \<Rightarrow> pystr" where
  "zero_padded width s = replicate (width - length s) 48 @ s"

definition format_atoms :: "int \<Rightarrow> pystr res" where
  "format_atoms atoms =
     (if \<not> (0 \<le> atoms \<and> atoms \<le> U64_MAX) then raise CliError ''atoms must be an unsigned 64-bit integer''
      else Inr (str (int_str (atoms div ATOMS_PER_OUR)) @ [46] @ zero_padded 8 (str (int_str (atoms mod ATOMS_PER_OUR)))))"

subsection \<open>What the amount functions compute\<close>

lemma digit_fold:
  "foldl (\<lambda>a c. a * 10 + (int c - 48)) x s = x * 10 ^ length s + foldl (\<lambda>a c. a * 10 + (int c - 48)) 0 s"
proof (induction s arbitrary: x)
  case (Cons c s)
  show ?case using Cons [of "x * 10 + (int c - 48)"] Cons [of "int c - 48"] by (simp add: algebra_simps)
qed simp

lemma decimal_value_append: "decimal_value (s @ t) = decimal_value s * 10 ^ length t + decimal_value t"
  unfolding decimal_value_def foldl_append by (rule digit_fold)

lemma decimal_value_simps [simp]: "decimal_value [] = 0" "decimal_value [c] = int c - 48"
  by (simp_all add: decimal_value_def)

lemma decimal_value_zeros [simp]: "decimal_value (replicate n 48) = 0"
  by (induction n) (simp_all add: decimal_value_def foldl_conv_fold)

lemma decimal_value_bounds: "list_all (\<lambda>c. 48 \<le> c \<and> c \<le> 57) s \<Longrightarrow> 0 \<le> decimal_value s \<and> decimal_value s < 10 ^ length s"
proof (induction s rule: rev_induct)
  case (snoc c s)
  then have "0 \<le> decimal_value s" "decimal_value s + 1 \<le> 10 ^ length s" "48 \<le> c" "c \<le> 57" by auto
  then show ?case by (simp add: decimal_value_append)
qed simp

lemma digits_of_nat:
  "list_all (\<lambda>c. 48 \<le> c \<and> c \<le> 57) (str (nat_digits n)) \<and> nat_digits n \<noteq> [] \<and> decimal_value (str (nat_digits n)) = int n"
proof (induction n rule: nat_digits.induct)
  case (1 n)
  have d: "of_char (digit_char k) = 48 + k" if "k < 10" for k
    using that by (simp add: digit_char_def)
  show ?case
  proof (cases "n < 10")
    case True
    then show ?thesis by (subst (1 2 3) nat_digits.simps) (simp add: str_def d)
  next
    case False
    then have "nat_digits n = nat_digits (n div 10) @ [digit_char (n mod 10)]" by (subst nat_digits.simps) simp
    moreover have "n mod 10 < 10" "int (n div 10) * 10 + int (n mod 10) = int n" by (simp, presburger)
    ultimately show ?thesis using 1 [OF False] by (simp add: str_def d decimal_value_append del: of_nat_add)
  qed
qed

lemma nat_digits_length: "n < 10 ^ Suc k \<Longrightarrow> length (nat_digits n) \<le> Suc k"
proof (induction k arbitrary: n)
  case 0
  then show ?case by (subst nat_digits.simps) simp
next
  case (Suc k)
  then have "n div 10 < 10 ^ Suc k" by (simp add: less_mult_imp_div_less)
  then have "length (nat_digits (n div 10)) \<le> Suc k" by (rule Suc.IH)
  then show ?case by (subst nat_digits.simps) simp
qed

text \<open>The grammar of amounts: digits, or digits, a point and 1 to 8 digits.\<close>

definition amount_parts :: "pystr \<Rightarrow> pystr \<Rightarrow> pystr \<Rightarrow> bool" where
  "amount_parts v whole fraction \<longleftrightarrow> ascii_decimal whole \<and> length whole \<le> 4300 \<and>
     (v = whole \<and> fraction = [] \<or> v = whole @ [46] @ fraction \<and> ascii_decimal fraction \<and> length fraction \<le> 8)"

lemma digit_no_space: "48 \<le> c \<Longrightarrow> c \<le> 57 \<Longrightarrow> \<not> py_space c \<and> c \<noteq> 46 \<and> c \<noteq> 58"
  by (auto simp: py_space_def)

lemma partition_digits:
  assumes "ascii_decimal w"
  shows "partition_at 46 w = (w, False, [])" and "partition_at 46 (w @ 46 # f) = (w, True, f)"
proof -
  have p: "\<And>x. x \<in> set w \<Longrightarrow> x \<noteq> 46" using assms by (auto simp: ascii_decimal_def list_all_iff)
  then have n: "46 \<notin> set w" by blast
  have t: "takeWhile (\<lambda>c. c \<noteq> 46) w = w" using p by (simp add: takeWhile_eq_all_conv)
  have d: "dropWhile (\<lambda>c. c \<noteq> 46) w = []" using p by (simp add: dropWhile_eq_Nil_conv)
  show "partition_at 46 w = (w, False, [])" unfolding partition_at_def t d using n by simp
  show "partition_at 46 (w @ 46 # f) = (w, True, f)" using p by (simp add: partition_at_def takeWhile_append2 dropWhile_append2)
qed

lemma partition_join: "partition_at sep v = (w, found, f) \<Longrightarrow> v = (if found then w @ sep # f else w) \<and> (\<not> found \<longrightarrow> f = [])"
  by (induction v arbitrary: w) (auto simp: partition_at_def)

lemma parse_our_amount_iff:
  "parse_our_amount v z = Inr n \<longleftrightarrow> (\<exists>w f. amount_parts v w f \<and> n = decimal_value (w @ f) * 10 ^ (8 - length f)
     \<and> n \<le> U64_MAX \<and> (n = 0 \<longrightarrow> z))"
proof
  assume p: "parse_our_amount v z = Inr n"
  obtain w s f where w: "partition_at 46 v = (w, s, f)" by (cases "partition_at 46 v") auto
  note j = partition_join [OF w]
  have "ascii_decimal w" "length w \<le> 4300" "s \<Longrightarrow> ascii_decimal f" "length f \<le> 8" "n \<le> U64_MAX" "n = 0 \<longrightarrow> z"
    and n: "n = decimal_value w * ATOMS_PER_OUR + decimal_value (f @ replicate (8 - length f) 48)"
    using p w by (auto simp: parse_our_amount_def int_of_decimal_def Let_def bindE_eq_Inr split: if_splits)
  moreover have "n = decimal_value (w @ f) * 10 ^ (8 - length f)"
  proof -
    have "(10::int) ^ length f * 10 ^ (8 - length f) = 10 ^ 8" using \<open>length f \<le> 8\<close> by (simp flip: power_add)
    then show ?thesis by (simp add: n decimal_value_append ATOMS_PER_OUR_def algebra_simps)
  qed
  ultimately show "\<exists>w f. amount_parts v w f \<and> n = decimal_value (w @ f) * 10 ^ (8 - length f) \<and> n \<le> U64_MAX \<and> (n = 0 \<longrightarrow> z)"
    using j by (intro exI [of _ w] exI [of _ f]) (cases s, auto simp: amount_parts_def)
next
  assume "\<exists>w f. amount_parts v w f \<and> n = decimal_value (w @ f) * 10 ^ (8 - length f) \<and> n \<le> U64_MAX \<and> (n = 0 \<longrightarrow> z)"
  then obtain w f where a: "amount_parts v w f" and n: "n = decimal_value (w @ f) * 10 ^ (8 - length f)" "n \<le> U64_MAX" "n = 0 \<longrightarrow> z"
    by blast
  have d: "ascii_decimal w" "length w \<le> 4300" "length f \<le> 8" using a by (auto simp: amount_parts_def)
  have p: "partition_at 46 v = (w, v \<noteq> w, f)" "v \<noteq> w \<longrightarrow> ascii_decimal f"
    using a partition_digits [OF d(1)] by (auto simp: amount_parts_def)
  have "\<forall>c \<in> set w \<union> set f. 48 \<le> c \<and> c \<le> 57" using a by (auto simp: amount_parts_def ascii_decimal_def list_all_iff)
  moreover have "v \<noteq> []" "hd v = hd w" "last v = last w \<or> last v = last f \<and> f \<noteq> []" "w \<noteq> []"
    using a by (auto simp: amount_parts_def ascii_decimal_def)
  ultimately have "\<not> py_space (hd v)" "\<not> py_space (last v)" using digit_no_space by fastforce+
  moreover have "decimal_value w * ATOMS_PER_OUR + decimal_value (f @ replicate (8 - length f) 48) = n"
  proof -
    have "(10::int) ^ length f * 10 ^ (8 - length f) = 10 ^ 8" using d(3) by (simp flip: power_add)
    then show ?thesis by (simp add: n decimal_value_append ATOMS_PER_OUR_def algebra_simps)
  qed
  ultimately show "parse_our_amount v z = Inr n"
    using p d n(2,3) \<open>v \<noteq> []\<close> by (auto simp: parse_our_amount_def int_of_decimal_def Let_def)
qed

lemma int_str_digits: "0 \<le> n \<Longrightarrow> ascii_decimal (str (int_str n)) \<and> decimal_value (str (int_str n)) = n"
  using digits_of_nat [of "nat n"] by (simp add: ascii_decimal_def int_str_def str_def)

lemma int_str_length: "0 \<le> n \<Longrightarrow> n < 10 ^ Suc k \<Longrightarrow> length (str (int_str n)) \<le> Suc k"
  using nat_digits_length [of "nat n" k] by (simp add: int_str_def str_def nat_less_iff)

lemma format_atoms_parses:
  assumes "0 \<le> n" and "n \<le> U64_MAX"
  shows "\<exists>s. format_atoms n = Inr s \<and> parse_our_amount s True = Inr n \<and> (0 < n \<longrightarrow> parse_our_amount s False = Inr n)"
proof -
  let ?w = "str (int_str (n div ATOMS_PER_OUR))" and ?r = "str (int_str (n mod ATOMS_PER_OUR))"
  let ?f = "zero_padded 8 ?r"
  have r: "0 \<le> n mod ATOMS_PER_OUR" "n mod ATOMS_PER_OUR < 10 ^ Suc 7" by (simp_all add: ATOMS_PER_OUR_def)
  have q: "0 \<le> n div ATOMS_PER_OUR" using assms(1) by (simp add: ATOMS_PER_OUR_def pos_imp_zdiv_nonneg_iff)
  have "n div ATOMS_PER_OUR < 10 ^ Suc 19" using assms by (simp add: ATOMS_PER_OUR_def U64_MAX_def)
  then have "length ?w \<le> Suc 19" by (rule int_str_length [OF q])
  then have l: "length ?w \<le> 4300" by simp
  have lf: "length ?f = 8" using int_str_length [OF r] by (simp add: zero_padded_def)
  have z: "ascii_decimal ?f" using int_str_digits [OF r(1)] by (auto simp: ascii_decimal_def zero_padded_def list_all_iff)
  have "amount_parts (?w @ [46] @ ?f) ?w ?f" using int_str_digits [OF q] l lf z by (simp add: amount_parts_def)
  moreover have "n = decimal_value (?w @ ?f) * 10 ^ (8 - length ?f)"
  proof -
    have "decimal_value ?f = n mod ATOMS_PER_OUR" using int_str_digits [OF r(1)] by (simp add: zero_padded_def decimal_value_append)
    then show ?thesis
      using int_str_digits [OF q] lf div_mult_mod_eq [of n ATOMS_PER_OUR] by (simp add: decimal_value_append ATOMS_PER_OUR_def)
  qed
  ultimately show ?thesis
    using assms unfolding parse_our_amount_iff by (auto simp: format_atoms_def)
qed

subsection \<open>The shell\<close>

record shell =
  sh_node :: node
  sh_wallets :: "(pystr, wallet) dict"

definition resolve_address :: "pystr \<Rightarrow> (pystr, wallet) dict \<Rightarrow> pystr" where
  "resolve_address v wallets = (case map_of wallets v of None \<Rightarrow> v | Some w \<Rightarrow> wa_address w)"

definition shell_help :: pystr where
  "shell_help = str (''commands: wallet NAME | address NAME | balance NAME_OR_ADDRESS | mine NAME | ''
     @ ''send FROM TO AMOUNT [FEE] | chain | help | quit'')"

text \<open>What a line leads to: lines printed, or the end of the session.\<close>

datatype shell_reply = Printed "pystr list" | Leave

definition on_node :: "(node \<Rightarrow> 'a res \<times> node) \<Rightarrow> ('a, shell) operation" where
  "on_node m s = (case m (sh_node s) of (r, nd) \<Rightarrow> (r, s\<lparr>sh_node := nd\<rparr>))"

definition session_wallet :: "pystr \<Rightarrow> (wallet, shell) operation" where
  "session_wallet name = reads_state (\<lambda>s. dict_index (sh_wallets s) name)"

definition shell_wallet :: "platform \<Rightarrow> bytes \<Rightarrow> pystr \<Rightarrow> (shell_reply, shell) operation" where
  "shell_wallet P drawn name s =
     (if map_of (sh_wallets s) name \<noteq> None then fail CliError ''wallet name already exists in this session'' s
      else
      and_then (compute (create_wallet P name drawn TESTNET)) (\<lambda>w.
      and_then (change (sh_wallets_update (AList.update name w))) (\<lambda>_. ret (Printed [wa_address w]))) s)"

definition shell_balance :: "platform \<Rightarrow> pystr \<Rightarrow> (shell_reply, shell) operation" where
  "shell_balance P name =
     and_then (reads_state (\<lambda>s. node_account P (resolve_address name (sh_wallets s)) (sh_node s))) (\<lambda>a.
     and_then (compute (format_atoms (acc_balance a))) (\<lambda>text. ret (Printed [text])))"

definition shell_mine :: "platform \<Rightarrow> pystr \<Rightarrow> (shell_reply, shell) operation" where
  "shell_mine P name =
     and_then (session_wallet name) (\<lambda>w.
     and_then (on_node (mine P (wa_address w) None MAX_BLOCK_TRANSACTIONS 1000000)) (\<lambda>result.
     and_then (reads_state (\<lambda>s. chain_height (nd_chain (sh_node s)))) (\<lambda>height.
     and_then (compute (block_hash P (fst result))) (\<lambda>h.
     ret (Printed [str (''height='' @ int_str height @ '' block='') @ bytes_hex h])))))"

definition shell_send :: "platform \<Rightarrow> pystr \<Rightarrow> pystr \<Rightarrow> pystr \<Rightarrow> pystr option \<Rightarrow> (shell_reply, shell) operation" where
  "shell_send P sender_name recipient_name amount_text fee_text =
     and_then (session_wallet sender_name) (\<lambda>w.
     and_then (reads_state (\<lambda>s. Inr (resolve_address recipient_name (sh_wallets s)))) (\<lambda>recipient.
     and_then (compute (parse_our_amount amount_text False)) (\<lambda>amount.
     and_then (compute (case fee_text of Some fee \<Rightarrow> parse_our_amount fee True | None \<Rightarrow> Inr DEFAULT_FEE_ATOMS)) (\<lambda>fee.
     and_then (on_node (send P w recipient amount fee DEFAULT_TRANSACTION_LIFETIME_BLOCKS)) (\<lambda>t.
     and_then (compute (txid P t)) (\<lambda>tid. ret (Printed [bytes_hex tid])))))))"

definition shell_chain :: "(shell_reply, shell) operation" where
  "shell_chain =
     and_then (reads_state (\<lambda>s. chain_height (nd_chain (sh_node s)))) (\<lambda>height.
     and_then (reads_state (\<lambda>s. Inr (mempool_length (nd_mempool (sh_node s))))) (\<lambda>size.
     and_then (reads_state (\<lambda>s. chain_total_supply (nd_chain (sh_node s)))) (\<lambda>supply.
     and_then (compute (format_atoms supply)) (\<lambda>text.
     ret (Printed [str (''height='' @ int_str height @ '' mempool='' @ int_str (int size) @ '' supply='') @ text])))))"

definition run_command :: "platform \<Rightarrow> bytes \<Rightarrow> pystr \<Rightarrow> pystr list \<Rightarrow> (shell_reply, shell) operation" where
  "run_command P drawn command arguments =
     (if command = str ''quit'' \<or> command = str ''exit'' then ret Leave
      else if command = str ''help'' then ret (Printed [shell_help])
      else if command = str ''wallet'' \<and> length arguments = 1 then shell_wallet P drawn (arguments ! 0)
      else if command = str ''address'' \<and> length arguments = 1 then
        and_then (session_wallet (arguments ! 0)) (\<lambda>w. ret (Printed [wa_address w]))
      else if command = str ''balance'' \<and> length arguments = 1 then shell_balance P (arguments ! 0)
      else if command = str ''mine'' \<and> length arguments = 1 then shell_mine P (arguments ! 0)
      else if command = str ''send'' \<and> length arguments \<in> {3, 4} then
        shell_send P (arguments ! 0) (arguments ! 1) (arguments ! 2) (if length arguments = 4 then Some (arguments ! 3) else None)
      else if command = str ''chain'' \<and> arguments = [] then shell_chain
      else fail CliError ''unknown command or wrong number of arguments'')"

definition shell_line :: "platform \<Rightarrow> (pystr \<Rightarrow> pystr list res) \<Rightarrow> bytes \<Rightarrow> pystr \<Rightarrow> (shell_reply, shell) operation" where
  "shell_line P shlex_split drawn line =
     on_error
       (and_then (compute (shlex_split line)) (\<lambda>parts.
        case parts of [] \<Rightarrow> ret (Printed []) | command # arguments \<Rightarrow> run_command P drawn command arguments))
       (\<lambda>e s. if exn_kind e = KeyError then ret (Printed [str ''error: wallet does not exist'']) s
              else if is_value_error (exn_kind e) then ret (Printed [str (''error: '' @ exn_message e)]) s
              else (Inl e, s))"

text \<open>The loop over the lines typed, each with the key a \<open>wallet\<close> command would draw, until \<open>quit\<close> or the end of input.\<close>

fun shell_loop :: "platform \<Rightarrow> (pystr \<Rightarrow> pystr list res) \<Rightarrow> (pystr \<times> bytes) list \<Rightarrow> (pystr list, shell) operation" where
  "shell_loop P shlex_split [] s = ret [[]] s"
| "shell_loop P shlex_split ((line, drawn) # inputs) s =
     (case shell_line P shlex_split drawn line s of
        (Inl e, s) \<Rightarrow> (Inl e, s)
      | (Inr Leave, s) \<Rightarrow> ret [] s
      | (Inr (Printed text), s) \<Rightarrow> and_then (shell_loop P shlex_split inputs) (\<lambda>rest. ret (text @ rest)) s)"

definition run_shell_session :: "platform \<Rightarrow> (pystr \<Rightarrow> pystr list res) \<Rightarrow> (pystr \<times> bytes) list \<Rightarrow> node \<Rightarrow> pystr list res \<times> node" where
  "run_shell_session P shlex_split inputs nd =
     (case shell_loop P shlex_split inputs \<lparr>sh_node = nd, sh_wallets = []\<rparr> of (r, s) \<Rightarrow>
        (bindE r (\<lambda>text. Inr ([str ''OurCoin M6 local shell (blockchain state is persistent; wallets are in-memory)'', shell_help] @ text)),
         sh_node s))"

text \<open>The tables of a node's database, back in the files of the data directory.\<close>

definition write_back :: "node \<Rightarrow> (pystr list, database) dict \<Rightarrow> (pystr list, database) dict" where
  "write_back nd files = (case nd_storage nd of None \<Rightarrow> files | Some st \<Rightarrow> AList.update (sg_database_path st) (sg_database st) files)"

definition run_shell :: "platform \<Rightarrow> (pystr \<Rightarrow> pystr list res) \<Rightarrow> (pystr \<times> bytes) list \<Rightarrow> pystr list \<Rightarrow>
    (pystr list, database) dict \<Rightarrow> pystr list res \<times> node option \<times> (pystr list, database) dict" where
  "run_shell P shlex_split inputs data_dir files =
     (case open_persistent P data_dir TESTNET True files of
        (Inl e, files) \<Rightarrow> (Inl e, None, files)
      | (Inr nd, files) \<Rightarrow>
        (case run_shell_session P shlex_split inputs nd of (r, nd) \<Rightarrow> (r, Some (close_node nd), write_back nd files)))"

subsection \<open>A network node\<close>

text \<open>
  \<open>int\<close> of a string: \<open>digit\<close> gives the value of a decimal digit outside ASCII, which the Unicode database
  knows; the other characters become ASCII or a question mark before they are read.
\<close>

definition ascii_form :: "(nat \<Rightarrow> nat option) \<Rightarrow> nat \<Rightarrow> nat" where
  "ascii_form digit c =
     (if c < 127 then c else if py_space c then 32 else case digit c of Some d \<Rightarrow> 48 + d | None \<Rightarrow> 63)"

definition ascii_space :: "nat \<Rightarrow> bool" where
  "ascii_space c \<longleftrightarrow> c = 32 \<or> 9 \<le> c \<and> c \<le> 13"

definition strip_spaces :: "pystr \<Rightarrow> pystr" where
  "strip_spaces s = rev (dropWhile ascii_space (rev (dropWhile ascii_space s)))"

text \<open>Digits with single underscores between them.\<close>

fun grouped_digits :: "pystr \<Rightarrow> bool" where
  "grouped_digits [] \<longleftrightarrow> False"
| "grouped_digits [c] \<longleftrightarrow> 48 \<le> c \<and> c \<le> 57"
| "grouped_digits (c # d # s) \<longleftrightarrow> 48 \<le> c \<and> c \<le> 57 \<and> (if d = 95 then grouped_digits s else grouped_digits (d # s))"

definition python_int :: "(nat \<Rightarrow> nat option) \<Rightarrow> pystr \<Rightarrow> int res" where
  "python_int digit v =
     (let t = strip_spaces (map (ascii_form digit) v);
          signed = (t \<noteq> [] \<and> hd t \<in> {43, 45});
          body = (if signed then tl t else t)
      in if \<not> grouped_digits body then raise ValueError ''invalid literal for int() with base 10''
         else bindE (int_of_decimal (filter (\<lambda>c. c \<noteq> 95) body)) (\<lambda>n. Inr (if signed \<and> hd t = 45 then - n else n)))"

definition parse_peer_endpoint :: "(nat \<Rightarrow> nat option) \<Rightarrow> pystr \<Rightarrow> (pystr \<times> int) res" where
  "parse_peer_endpoint digit v =
     (case rpartition_at 58 v of (host, separator, port_text) \<Rightarrow>
      if \<not> separator \<or> host \<notin> set LOOPBACK_HOSTS then raise CliError ''peer must use localhost as HOST:PORT''
      else
      bindE (rethrow is_value_error (\<lambda>_. Exn CliError ''peer port must be a decimal integer'') (python_int digit port_text)) (\<lambda>port.
      if \<not> (1 \<le> port \<and> port \<le> 0xFFFF) then raise CliError ''peer port must be between 1 and 65535''
      else Inr (host, port)))"

text \<open>
  The network around a node: the addresses of texts, the listening sockets that asyncio makes, what a dial
  reaches, and what the tasks of the peer node do while the main task waits for the server, for a dial, for
  a handshake, to be stopped, or for one of the three ends that closing waits for. A wait may be cancelled (an
  interrupt from the keyboard cancels the main task) or raise; one that never ends raises \<open>Diverges\<close>. A
  state of the peer node comes with the time.
\<close>

datatype wait_point = Binding | Dialling nat | Shaking_Hands nat | Until_Stopped | Closing close_wait

record network =
  nw_address :: "pystr \<Rightarrow> ip option"
  nw_digit :: "nat \<Rightarrow> nat option"
  nw_node_id :: bytes
  nw_sockets :: "(pystr \<times> int) list res"
  nw_dial :: "pystr \<Rightarrow> int \<Rightarrow> (pystr \<times> int) option res"
  nw_wait :: "wait_point \<Rightarrow> (unit, rat \<times> p2p_node) operation"

definition close_server :: "network \<Rightarrow> (unit, rat \<times> p2p_node) operation" where
  "close_server w = close_p2p (\<lambda>c. nw_wait w (Closing c))"

definition start_server :: "network \<Rightarrow> (unit, rat \<times> p2p_node) operation" where
  "start_server w =
     and_then (nw_wait w Binding) (\<lambda>_.
     and_then (compute (nw_sockets w)) (\<lambda>sockets.
     and_then (at_time (\<lambda>_. start_p2p (nw_address w) sockets)) (\<lambda>failure.
     case failure of None \<Rightarrow> ret () | Some e \<Rightarrow> and_then (close_server w) (\<lambda>_. compute (Inl e)))))"

definition connect_peer :: "network \<Rightarrow> nat \<Rightarrow> pystr \<Rightarrow> int \<Rightarrow> (peer_info, rat \<times> p2p_node) operation" where
  "connect_peer w k host port =
     and_then (at_time (connect_check host port)) (\<lambda>_.
     and_then (nw_wait w (Dialling k)) (\<lambda>_.
     and_then (compute (nw_dial w host port)) (\<lambda>peername.
     and_then (at_time (connect_opened (nw_address w) peername)) (\<lambda>i.
     and_then (nw_wait w (Shaking_Hands k)) (\<lambda>_.
     at_time (\<lambda>_. connect_finish i))))))"

fun connect_peers :: "network \<Rightarrow> nat \<Rightarrow> pystr list \<Rightarrow> (json list, rat \<times> p2p_node) operation" where
  "connect_peers w k [] = ret []"
| "connect_peers w k (v # vs) =
     and_then (compute (parse_peer_endpoint (nw_digit w) v)) (\<lambda>(host, port).
     and_then (connect_peer w k host port) (\<lambda>info.
     and_then (connect_peers w (Suc k) vs) (\<lambda>rest.
     ret (JObject [(str ''node_id'', JStr (pi_node_id info)), (str ''host'', JStr (pi_host info)),
                   (str ''port'', JInt (pi_port info))] # rest))))"

definition node_document :: "json list \<Rightarrow> p2p_node \<Rightarrow> json res" where
  "node_document peers_found st =
     (let c = nd_chain (pn_local_node st) in
      bindE (chain_height c) (\<lambda>height.
      Inr (JObject [(str ''chain_id'', JStr (net_chain_id (ch_network c))), (str ''height'', JInt height),
        (str ''host'', JStr (pn_host st)), (str ''node_id'', JStr (bytes_hex (pn_node_id st))),
        (str ''peers'', JList peers_found), (str ''port'', JInt (pn_port st)), (str ''tip_hash'', JStr (bytes_hex (ch_tip c)))])))"

text \<open>
  The body of the \<open>try\<close>, up to the document that is printed and after it: how the body ends, what it has
  printed, and the state then.
\<close>

definition announce :: "network \<Rightarrow> pystr list \<Rightarrow> (json, rat \<times> p2p_node) operation" where
  "announce w peer_endpoints =
     and_then (start_server w) (\<lambda>_.
     and_then (connect_peers w 0 peer_endpoints) (\<lambda>peers_found.
     reads_state (\<lambda>x. node_document peers_found (snd x))))"

definition serve :: "network \<Rightarrow> pystr list \<Rightarrow> rat \<times> p2p_node \<Rightarrow> unit res \<times> json option \<times> (rat \<times> p2p_node)" where
  "serve w peer_endpoints x =
     (case announce w peer_endpoints x of
        (Inl e, x) \<Rightarrow> (Inl e, None, x)
      | (Inr document, x) \<Rightarrow> (case nw_wait w Until_Stopped x of (r, x) \<Rightarrow> (r, Some document, x)))"

text \<open>The \<open>finally\<close> clause, which a body that never ends does not reach; an exception in it replaces the body's.\<close>

definition shut_down :: "network \<Rightarrow> unit res \<Rightarrow> rat \<times> p2p_node \<Rightarrow> unit res \<times> p2p_node" where
  "shut_down w r x =
     (if (case r of Inl e \<Rightarrow> exn_kind e = Diverges | Inr _ \<Rightarrow> False) then (r, snd x)
      else (case close_server w x of
          (Inl e, x) \<Rightarrow> (Inl e, snd x)
        | (Inr _, x) \<Rightarrow> (r, pn_local_node_update close_node (snd x))))"

text \<open>How it ends, what it has printed, the peer node at the end, if there was one, and the files.\<close>

definition run_network_node :: "platform \<Rightarrow> network \<Rightarrow> rat \<Rightarrow> pystr list \<Rightarrow> pystr \<Rightarrow> int \<Rightarrow> pystr list \<Rightarrow>
    (pystr list, database) dict \<Rightarrow> unit res \<times> json option \<times> p2p_node option \<times> (pystr list, database) dict" where
  "run_network_node P w now data_dir host port peer_endpoints files =
     (case open_persistent P data_dir TESTNET True files of
        (Inl e, files) \<Rightarrow> (Inl e, None, None, files)
      | (Inr local_node, files) \<Rightarrow>
     (case new_p2p_node local_node host port None None (nw_node_id w) of
        Inl e \<Rightarrow> (Inl e, None, None, files)
      | Inr peer_node \<Rightarrow>
     (case serve w peer_endpoints (now, peer_node) of
        (r, printed, x) \<Rightarrow>
     (case shut_down w r x of
        (r, peer_node) \<Rightarrow> (r, printed, Some peer_node, write_back (pn_local_node peer_node) files)))))"

subsection \<open>Commands\<close>

text \<open>\<open>_storage_info_document\<close>: \<open>resolve\<close> gives the absolute path as text.\<close>

definition storage_info_document :: "(pystr list \<Rightarrow> pystr) \<Rightarrow> storage_info \<Rightarrow> json res" where
  "storage_info_document resolve info =
     bindE (format_atoms (si_issued_supply info)) (\<lambda>issued_supply_our.
     Inr (JObject [(str ''schema_version'', JInt (si_schema_version info)), (str ''chain_id'', JStr (si_chain_id info)),
       (str ''genesis_hash'', JStr (bytes_hex (si_genesis_hash info))),
       (str ''database_path'', JStr (resolve (si_database_path info))), (str ''height'', JInt (si_height info)),
       (str ''tip_hash'', JStr (bytes_hex (si_tip_hash info))),
       (str ''cumulative_work'', JStr (str (int_str (si_cumulative_work info)))),
       (str ''issued_supply_atoms'', JInt (si_issued_supply info)), (str ''issued_supply_our'', JStr issued_supply_our),
       (str ''block_count'', JInt (int (si_block_count info))), (str ''account_count'', JInt (int (si_account_count info)))]))"

datatype chain_command = Info | Validate | Reindex

definition report_document :: "string \<Rightarrow> validation_report \<Rightarrow> json" where
  "report_document flag r =
     JObject [(str flag, JBool True), (str ''block_count'', JInt (int (vr_block_count r))),
       (str ''account_count'', JInt (int (vr_account_count r))), (str ''height'', JInt (vr_height r)),
       (str ''tip_hash'', JStr (bytes_hex (vr_tip_hash r)))]"

definition chain_document :: "platform \<Rightarrow> (pystr list \<Rightarrow> pystr) \<Rightarrow> chain_command \<Rightarrow> (json, storage) operation" where
  "chain_document P resolve command =
     (case command of
        Info \<Rightarrow> reads_state (\<lambda>st. bindE (storage_report st) (storage_info_document resolve))
      | Validate \<Rightarrow> reads_state (\<lambda>st. bindE (validate_storage P st) (\<lambda>r. Inr (report_document ''valid'' r)))
      | Reindex \<Rightarrow> and_then (reindex P) (\<lambda>r. ret (report_document ''reindexed'' r)))"

definition run_chain_command :: "platform \<Rightarrow> (pystr list \<Rightarrow> pystr) \<Rightarrow> chain_command \<Rightarrow> pystr list \<Rightarrow>
    (pystr list, database) dict \<Rightarrow> json res \<times> (pystr list, database) dict" where
  "run_chain_command P resolve command data_dir files =
     (case open_storage P data_dir TESTNET (command = Info) files of
        (Inl e, files) \<Rightarrow> (Inl e, files)
      | (Inr st, files) \<Rightarrow>
        (case chain_document P resolve command st of
           (r, st) \<Rightarrow> (r, AList.update (sg_database_path st) (sg_database st) files)))"

text \<open>The two passwords are those typed at the prompts; the key, the salt and the nonce are those drawn.\<close>

definition wallet_create :: "platform \<Rightarrow> (json \<Rightarrow> pystr) \<Rightarrow> pystr \<Rightarrow> 'p \<Rightarrow> pystr \<Rightarrow> pystr \<Rightarrow> bytes \<Rightarrow> bytes \<Rightarrow> bytes \<Rightarrow>
    (json, ('p, bytes) dict) operation" where
  "wallet_create P json_dumps name printout password confirmation drawn salt nonce files =
     (if password \<noteq> confirmation then fail CliError ''password confirmation does not match'' files
      else
      and_then (compute (create_wallet P name drawn TESTNET)) (\<lambda>w.
      and_then (save_encrypted P json_dumps printout password False salt nonce w) (\<lambda>_.
      ret (JObject [(str ''name'', JStr (wa_name w)), (str ''address'', JStr (wa_address w))]))) files)"

definition wallet_show :: "platform \<Rightarrow> (pystr \<Rightarrow> json res) \<Rightarrow> 'p \<Rightarrow> pystr \<Rightarrow> (json, ('p, bytes) dict) operation" where
  "wallet_show P json_loads file password =
     and_then (reads_state (load_encrypted P json_loads file password TESTNET)) (\<lambda>w.
     ret (JObject [(str ''name'', JStr (wa_name w)), (str ''address'', JStr (wa_address w)),
                   (str ''network'', JStr (net_chain_id (wa_network w)))]))"

text \<open>\<open>demo_summary\<close>, with the two keys drawn.\<close>

definition demo_summary :: "platform \<Rightarrow> bytes \<Rightarrow> bytes \<Rightarrow> json res" where
  "demo_summary P alice_key bob_key =
     bindE (new_node P TESTNET None) (\<lambda>nd.
     bindE (create_wallet P (str ''alice'') alice_key TESTNET) (\<lambda>alice.
     bindE (create_wallet P (str ''bob'') bob_key TESTNET) (\<lambda>bob.
     fst (and_then (mine P (wa_address alice) None MAX_BLOCK_TRANSACTIONS 1000000) (\<lambda>_.
          and_then (compute (parse_our_amount (str ''12.5'') False)) (\<lambda>amount.
          and_then (compute (parse_our_amount (str ''0.01'') True)) (\<lambda>fee.
          and_then (send P alice (wa_address bob) amount fee DEFAULT_TRANSACTION_LIFETIME_BLOCKS) (\<lambda>t.
          and_then (mine P (wa_address bob) None MAX_BLOCK_TRANSACTIONS 1000000) (\<lambda>(mined, _).
          reads_state (\<lambda>nd.
            bindE (chain_height (nd_chain nd)) (\<lambda>height.
            bindE (block_hash P mined) (\<lambda>h.
            bindE (txid P t) (\<lambda>tid.
            bindE (chain_total_supply (nd_chain nd)) (\<lambda>supply.
            bindE (format_atoms supply) (\<lambda>total_supply_our.
            bindE (node_account P (wa_address alice) nd) (\<lambda>a.
            bindE (format_atoms (acc_balance a)) (\<lambda>alice_balance.
            bindE (node_account P (wa_address bob) nd) (\<lambda>b.
            bindE (format_atoms (acc_balance b)) (\<lambda>bob_balance.
            Inr (JObject [(str ''network'', JStr (net_chain_id (ch_network (nd_chain nd)))), (str ''height'', JInt height),
              (str ''block_hash'', JStr (bytes_hex h)), (str ''transaction_id'', JStr (bytes_hex tid)),
              (str ''mempool_size'', JInt (int (mempool_length (nd_mempool nd)))),
              (str ''total_supply_our'', JStr total_supply_our),
              (str ''alice'', JObject [(str ''address'', JStr (wa_address alice)), (str ''balance_our'', JStr alice_balance)]),
              (str ''bob'', JObject [(str ''address'', JStr (wa_address bob)), (str ''balance_our'', JStr bob_balance)])])))))))))))))))) nd))))"

text \<open>The errors \<open>main\<close> turns into exit status 2; another exception ends the process.\<close>

definition reported_error :: "exn_class \<Rightarrow> bool" where
  "reported_error c \<longleftrightarrow> c \<in> {CliError, NodeError, WalletError, P2PError, LocalTestnetOnlyError, PeerLimitError, HandshakeError, ConnectionError}
     \<or> is_storage_error c"

datatype cli_command =
    Demo | Shell "pystr list" | On_Chain chain_command "pystr list"
  | Node_Start "pystr list" pystr int "pystr list" | Wallet_Create pystr "pystr list" | Wallet_Show "pystr list"

text \<open>What the process meets: the lines, passwords and random bytes, the clock, the network, JSON text.\<close>

record surroundings =
  ev_shlex_split :: "pystr \<Rightarrow> pystr list res"
  ev_lines :: "(pystr \<times> bytes) list"
  ev_passwords :: "pystr \<times> pystr"
  ev_keys :: "bytes \<times> bytes"
  ev_salt :: bytes
  ev_nonce :: bytes
  ev_now :: rat
  ev_network :: network
  ev_json_dumps :: "json \<Rightarrow> pystr"
  ev_json_loads :: "pystr \<Rightarrow> json res"
  ev_resolve :: "pystr list \<Rightarrow> pystr"

record filesystem =
  fs_databases :: "(pystr list, database) dict"
  fs_wallets :: "(pystr list, bytes) dict"

datatype printout = Document json | Text "pystr list"

text \<open>An interrupt from the keyboard cancels \<open>run_network_node\<close>; the command then ends as a stopped one does.\<close>

definition run_cli_command :: "platform \<Rightarrow> surroundings \<Rightarrow> cli_command \<Rightarrow> (printout, filesystem) operation" where
  "run_cli_command P ev command fs =
     (case command of
        Demo \<Rightarrow> (bindE (demo_summary P (fst (ev_keys ev)) (snd (ev_keys ev))) (\<lambda>d. Inr (Document d)), fs)
      | Shell data_dir \<Rightarrow>
          (case run_shell P (ev_shlex_split ev) (ev_lines ev) data_dir (fs_databases fs) of
             (r, _, files) \<Rightarrow> (bindE r (\<lambda>text. Inr (Text text)), fs\<lparr>fs_databases := files\<rparr>))
      | On_Chain c data_dir \<Rightarrow>
          (case run_chain_command P (ev_resolve ev) c data_dir (fs_databases fs) of
             (r, files) \<Rightarrow> (bindE r (\<lambda>d. Inr (Document d)), fs\<lparr>fs_databases := files\<rparr>))
      | Node_Start data_dir host port peer_endpoints \<Rightarrow>
          (case run_network_node P (ev_network ev) (ev_now ev) data_dir host port peer_endpoints (fs_databases fs) of
             (r, printed, _, files) \<Rightarrow>
               (if (case r of Inl e \<Rightarrow> exn_kind e \<noteq> CancelledError | Inr _ \<Rightarrow> False) then bindE r (\<lambda>_. Inr (Text []))
                else Inr (case printed of None \<Rightarrow> Text [] | Some d \<Rightarrow> Document d), fs\<lparr>fs_databases := files\<rparr>))
      | Wallet_Create name file \<Rightarrow>
          (case wallet_create P (ev_json_dumps ev) name file (fst (ev_passwords ev)) (snd (ev_passwords ev)) (fst (ev_keys ev))
                  (ev_salt ev) (ev_nonce ev) (fs_wallets fs) of
             (r, files) \<Rightarrow> (bindE r (\<lambda>d. Inr (Document d)), fs\<lparr>fs_wallets := files\<rparr>))
      | Wallet_Show file \<Rightarrow>
          (case wallet_show P (ev_json_loads ev) file (fst (ev_passwords ev)) (fs_wallets fs) of
             (r, files) \<Rightarrow> (bindE r (\<lambda>d. Inr (Document d)), fs)))"

text \<open>\<open>main\<close>, after \<open>argparse\<close>: the exit status, what is printed, and the files.\<close>

definition cli_main :: "platform \<Rightarrow> surroundings \<Rightarrow> cli_command \<Rightarrow> filesystem \<Rightarrow> (int \<times> printout option) res \<times> filesystem" where
  "cli_main P ev command fs =
     (case run_cli_command P ev command fs of
        (Inr out, fs) \<Rightarrow> (Inr (0, Some out), fs)
      | (Inl e, fs) \<Rightarrow> (if reported_error (exn_kind e) then Inr (2, None) else Inl e, fs))"

end
