(* ===== verification/Cli_Properties.thy ===== *)
theory Cli_Properties
  imports Cli P2p_Properties
begin

text \<open>
  What the commands of \<open>cli.py\<close> guarantee: amounts and endpoints are read exactly, a shell session or a
  network node leaves the database with the tables of a chain that has only grown, whatever was typed or
  received and however it ended, and the reports on a database describe its chain.
\<close>

subsection \<open>The database file of a node\<close>

definition storage_path :: "node \<Rightarrow> pystr list option" where
  "storage_path nd = map_option sg_database_path (nd_storage nd)"

lemma persist_path: "sg_database_path (snd (persist_chain_update P c u st)) = sg_database_path st"
  by (simp add: persist_chain_update_def split: sum.splits prod.splits)

lemma extend_chain_path: "storage_path (snd (extend_chain P b nd)) = storage_path nd"
proof (cases "nd_storage nd")
  case (Some st)
  have "storage_path (snd (case m of Inl e \<Rightarrow> (Inl e, nd) | Inr (u, c) \<Rightarrow>
      (case persist_chain_update P c u st of (Inl e, st) \<Rightarrow> (Inl e, nd\<lparr>nd_storage := Some st\<rparr>)
        | (Inr _, st) \<Rightarrow> (Inr u, nd\<lparr>nd_chain := c, nd_storage := Some st\<rparr>)))) = storage_path nd" for m :: "(chain_update \<times> chain) res"
    using Some persist_path [of P _ _ st] by (auto simp: storage_path_def split: sum.splits prod.splits) (metis snd_conv)+
  then show ?thesis unfolding extend_chain_def Some option.case .
qed (simp add: extend_chain_def storage_path_def split: prod.splits)

lemma submit_block_path: "storage_path (snd (submit_block P b nd)) = storage_path nd"
proof -
  have r: "storage_path (snd (reconcile_mempool P u nd)) = storage_path nd" for u nd
    by (simp add: reconcile_mempool_def storage_path_def split: sum.splits prod.splits)
  obtain x nd1 where x: "extend_chain P b nd = (x, nd1)" by (cases "extend_chain P b nd")
  have 1: "storage_path nd1 = storage_path nd" using extend_chain_path [of P b nd] x by simp
  show ?thesis
  proof (cases x)
    case (Inr u)
    obtain y nd2 where y: "reconcile_mempool P u nd1 = (y, nd2)" by (cases "reconcile_mempool P u nd1")
    have "storage_path nd2 = storage_path nd1" using r [of u nd1] y by simp
    then show ?thesis using x y 1 Inr by (cases y) (simp_all add: submit_block_def)
  qed (use x 1 in \<open>simp add: submit_block_def\<close>)
qed

lemma submit_transaction_path: "storage_path (snd (submit_transaction P t nd)) = storage_path nd"
  by (simp add: submit_transaction_def storage_path_def split: sum.splits prod.splits)

lemma send_path: "storage_path (snd (send P w recipient amount fee blocks nd)) = storage_path nd"
proof -
  have "storage_path (snd (case m of Inl e \<Rightarrow> (Inl e, nd) | Inr t \<Rightarrow> (case submit_transaction P t nd of
      (Inl e, nd) \<Rightarrow> (Inl e, nd) | (Inr _, nd) \<Rightarrow> (Inr t, nd)))) = storage_path nd" for m :: "transaction res"
  proof (cases m)
    case (Inr t)
    obtain x nd1 where x: "submit_transaction P t nd = (x, nd1)" by (cases "submit_transaction P t nd")
    then have "storage_path nd1 = storage_path nd" using submit_transaction_path [of P t nd] by simp
    then show ?thesis using Inr x by (cases x) simp_all
  qed simp
  then show ?thesis unfolding send_def .
qed

lemma node_step_path: "node_step P nd nd' \<Longrightarrow> storage_path nd' = storage_path nd"
proof (erule node_stepE)
  fix miner timestamp mx attempts assume "nd' = snd (mine P miner timestamp mx attempts nd)"
  then show "storage_path nd' = storage_path nd"
    using mine_steps [of P miner timestamp mx attempts nd] submit_block_path by metis
qed (simp_all add: submit_transaction_path send_path submit_block_path)

text \<open>A run of a persistent node, from one that was opened on the chain \<open>c0\<close>.\<close>

definition session_ok :: "platform \<Rightarrow> pystr list \<Rightarrow> chain \<Rightarrow> node \<Rightarrow> bool" where
  "session_ok P path c0 nd \<longleftrightarrow> node_reachable P nd \<and> storage_path nd = Some path \<and> chain_grows c0 (nd_chain nd)"

lemma session_step:
  assumes P: "platform_ok P" and n: "session_ok P path c0 nd" and s: "node_step P nd nd'"
  shows "session_ok P path c0 nd'"
proof -
  have "node_reachable P nd'" using n s by (auto simp: session_ok_def node_reachable_def intro: reach_step)
  moreover have "chain_grows (nd_chain nd) (nd_chain nd')"
    using node_step_grows [OF P _ s] node_reachable_ok [OF P] n by (simp add: session_ok_def)
  ultimately show ?thesis using n node_step_path [OF s] chain_grows_trans unfolding session_ok_def by metis
qed

lemma session_run: "platform_ok P \<Longrightarrow> (node_step P)\<^sup>*\<^sup>* nd nd' \<Longrightarrow> session_ok P path c0 nd \<Longrightarrow> session_ok P path c0 nd'"
  by (rotate_tac 1, induction rule: rtranclp_induct) (auto intro: session_step)

text \<open>The files that hold a chain in the data directory \<open>dir\<close>, or nothing yet for the chain of the genesis block.\<close>

definition stored_chain :: "platform \<Rightarrow> pystr list \<Rightarrow> (pystr list, database) dict \<Rightarrow> chain \<Rightarrow> bool" where
  "stored_chain P dir files c \<longleftrightarrow> chain_reachable P c
     \<and> (map_of files (database_file P dir) = Some (database_of P c)
        \<or> map_of files (database_file P dir) = None \<and> new_chain P TESTNET = Inr c)"

lemma open_session:
  assumes P: "platform_ok P" and c: "stored_chain P dir files c"
  obtains nd where "open_persistent P dir TESTNET True files = (Inr nd, AList.update (database_file P dir) (database_of P c) files)"
    and "session_ok P (database_file P dir) c nd" and "nd_chain nd = c"
proof -
  let ?st = "\<lparr>sg_database = database_of P c, sg_network = TESTNET, sg_genesis_hash = genesis_hash_of P,
     sg_database_path = database_file P dir, sg_closed = False\<rparr>"
  let ?nd = "\<lparr>nd_chain = c, nd_storage = Some ?st, nd_mempool = new_mempool\<rparr>"
  have r: "chain_reachable P c" using c by (simp add: stored_chain_def)
  have s: "store_of P c ?st" by (simp add: store_of_def)
  have new: "new_node P TESTNET (Some ?st) = Inr ?nd" using load_spec [OF P r s] by (simp add: new_node_def)
  then have "node_start P ?nd" unfolding node_start_def using r s by blast
  then have "node_reachable P ?nd" unfolding node_reachable_def by (rule reach_start)
  then have "session_ok P (database_file P dir) c ?nd" by (simp add: session_ok_def storage_path_def)
  moreover have "open_persistent P dir TESTNET True files = (Inr ?nd, AList.update (database_file P dir) (database_of P c) files)"
    using open_spec [OF P r] c new by (simp add: open_persistent_def stored_chain_def)
  ultimately show thesis using that by simp
qed

text \<open>What a session leaves behind: the chain has grown from \<open>c\<close>, its tables are the file, the other files are as before.\<close>

definition saved :: "platform \<Rightarrow> pystr list \<Rightarrow> (pystr list, database) dict \<Rightarrow> chain \<Rightarrow> node \<Rightarrow> (pystr list, database) dict \<Rightarrow> bool" where
  "saved P dir files c nd files' \<longleftrightarrow> chain_grows c (nd_chain nd) \<and> stored_chain P dir files' (nd_chain nd)
     \<and> map_of files' (database_file P dir) = Some (database_of P (nd_chain nd))
     \<and> (\<forall>path. path \<noteq> database_file P dir \<longrightarrow> map_of files' path = map_of files path)"

lemma session_saved:
  assumes P: "platform_ok P" and n: "session_ok P (database_file P dir) c nd"
  shows "saved P dir files c nd (write_back nd (AList.update (database_file P dir) db files))"
proof -
  have ok: "node_ok P nd" using n node_reachable_ok [OF P] by (simp add: session_ok_def)
  obtain st where st: "nd_storage nd = Some st" "sg_database_path st = database_file P dir"
    using n by (auto simp: session_ok_def storage_path_def)
  have "sg_database st = database_of P (nd_chain nd)" "chain_reachable P (nd_chain nd)"
    using ok st(1) by (simp_all add: node_ok_def stored_with_def store_of_def)
  then show ?thesis using n st by (simp add: saved_def write_back_def stored_chain_def session_ok_def)
qed

subsection \<open>The shell\<close>

definition shell_ok :: "platform \<Rightarrow> pystr list \<Rightarrow> chain \<Rightarrow> shell \<Rightarrow> bool" where
  "shell_ok P path c0 s \<longleftrightarrow> session_ok P path c0 (sh_node s)
     \<and> (\<forall>name w. map_of (sh_wallets s) name = Some w \<longrightarrow> (\<exists>k. new_wallet P name k TESTNET = Inr w))"

lemma keeps_on_node:
  "(\<And>nd. session_ok P path c0 nd \<Longrightarrow> session_ok P path c0 (snd (m nd))) \<Longrightarrow> keeps (shell_ok P path c0) (on_node m)"
  by (auto simp: keeps_def shell_ok_def on_node_def prod.case_eq_if)

text \<open>The wallet a session finds under a name is one of its own, on the test network.\<close>

lemma keeps_session_wallet:
  assumes "\<And>w k. new_wallet P name k TESTNET = Inr w \<Longrightarrow> keeps (shell_ok P path c0) (f w)"
  shows "keeps (shell_ok P path c0) (and_then (session_wallet name) f)"
  unfolding keeps_def
proof (intro allI impI)
  fix s assume s: "shell_ok P path c0 s"
  show "shell_ok P path c0 (snd (and_then (session_wallet name) f s))"
  proof (cases "map_of (sh_wallets s) name")
    case (Some w)
    then obtain k where "new_wallet P name k TESTNET = Inr w" using s by (auto simp: shell_ok_def)
    from keepsD [OF assms [OF this] s] show ?thesis
      using Some by (simp add: and_then_def session_wallet_def reads_state_def dict_index_def)
  qed (use s in \<open>simp add: and_then_def session_wallet_def reads_state_def dict_index_def\<close>)
qed

lemma keeps_compute:
  "(\<And>x. r = Inr x \<Longrightarrow> keeps I (f x)) \<Longrightarrow> keeps I (and_then (compute r) f)"
  by (cases r) (auto simp: keeps_def and_then_def compute_def)

lemma keeps_shell_wallet: "keeps (shell_ok P path c0) (shell_wallet P drawn name)"
  unfolding shell_wallet_def
  by (intro keeps_if_state keeps_compute keeps_and_then keeps_change keeps_pure) (auto simp: shell_ok_def)

lemma keeps_run_command:
  assumes P: "platform_ok P" shows "keeps (shell_ok P path c0) (run_command P drawn command arguments)"
proof -
  have mine: "keeps (shell_ok P path c0) (on_node (mine P a None MAX_BLOCK_TRANSACTIONS 1000000))" for a
    by (rule keeps_on_node) (rule session_step [OF P _ step_mine])
  have send: "keeps (shell_ok P path c0) (on_node (send P w r a fee blocks))" if "new_wallet P name k TESTNET = Inr w" for name k w r a fee blocks
    by (rule keeps_on_node) (rule session_step [OF P _ step_send [OF that]])
  show ?thesis
    unfolding run_command_def shell_mine_def shell_send_def shell_balance_def shell_chain_def
    by (intro keeps_if keeps_shell_wallet keeps_session_wallet mine send keeps_and_then keeps_pure)
qed

lemma keeps_shell_line:
  assumes P: "platform_ok P" shows "keeps (shell_ok P path c0) (shell_line P shlex_split drawn line)"
proof -
  have c: "keeps (shell_ok P path c0) (case parts of [] \<Rightarrow> ret (Printed []) | command # arguments \<Rightarrow> run_command P drawn command arguments)"
    for parts by (cases parts) (simp_all add: keeps_pure keeps_run_command [OF P])
  have h: "keeps (shell_ok P path c0) (\<lambda>s. if exn_kind e = KeyError then ret (Printed [str ''error: wallet does not exist'']) s
        else if is_value_error (exn_kind e) then ret (Printed [str (''error: '' @ exn_message e)]) s else (Inl e, s))" for e
    by (auto simp: keeps_def ret_def)
  show ?thesis unfolding shell_line_def by (intro keeps_on_error keeps_compute c h)
qed

lemma keeps_shell_loop:
  assumes P: "platform_ok P" shows "keeps (shell_ok P path c0) (shell_loop P shlex_split inputs)"
proof -
  have "shell_ok P path c0 s \<Longrightarrow> shell_ok P path c0 (snd (shell_loop P shlex_split inputs s))" for s
  proof (induction inputs arbitrary: s)
    case (Cons input inputs)
    obtain line drawn where i: "input = (line, drawn)" by (cases input)
    obtain r s' where l: "shell_line P shlex_split drawn line s = (r, s')" by (cases "shell_line P shlex_split drawn line s")
    have s': "shell_ok P path c0 s'" using keepsD [OF keeps_shell_line [OF P] Cons.prems] l by (metis snd_conv)
    from Cons.IH [OF this] show ?case
      using i l s' by (auto simp: and_then_def ret_def split: sum.split shell_reply.split prod.split)
  qed (simp add: ret_def)
  then show ?thesis by (simp add: keeps_def)
qed

lemma shell_saves:
  assumes P: "platform_ok P" and c: "stored_chain P dir files c"
  obtains r nd where "run_shell P shlex_split inputs dir files
      = (r, Some (close_node nd), write_back nd (AList.update (database_file P dir) (database_of P c) files))"
    and "session_ok P (database_file P dir) c nd"
proof -
  obtain nd0 where nd0: "open_persistent P dir TESTNET True files = (Inr nd0, AList.update (database_file P dir) (database_of P c) files)"
      "session_ok P (database_file P dir) c nd0" by (rule open_session [OF P c])
  obtain r nd where s: "run_shell_session P shlex_split inputs nd0 = (r, nd)" by (cases "run_shell_session P shlex_split inputs nd0")
  have "shell_ok P (database_file P dir) c \<lparr>sh_node = nd0, sh_wallets = []\<rparr>" using nd0(2) by (simp add: shell_ok_def)
  from keepsD [OF keeps_shell_loop [OF P] this] have "session_ok P (database_file P dir) c nd"
    using s by (auto simp: run_shell_session_def shell_ok_def prod.case_eq_if)
  then show thesis using that nd0(1) s by (simp add: run_shell_def)
qed

subsection \<open>Endpoints\<close>

lemma grouped_plain: "ascii_decimal s \<Longrightarrow> grouped_digits s"
  by (induction s rule: grouped_digits.induct) (auto simp: ascii_decimal_def)

lemma python_int_decimal:
  assumes s: "ascii_decimal s" and l: "length s \<le> 4300"
  shows "python_int digit s = Inr (decimal_value s)"
proof -
  have d: "\<forall>c \<in> set s. 48 \<le> c \<and> c \<le> 57" and n: "s \<noteq> []" using s by (auto simp: ascii_decimal_def list_all_iff)
  have "map (ascii_form digit) s = s" using d by (auto simp: ascii_form_def intro!: map_idI)
  moreover have "dropWhile ascii_space s = s" using d n by (cases s) (auto simp: ascii_space_def)
  moreover have "dropWhile ascii_space (rev s) = rev s" using d n by (cases s rule: rev_cases) (auto simp: ascii_space_def)
  moreover have "hd s \<notin> {43, 45}" using d n by (cases s) auto
  moreover have "filter (\<lambda>c. c \<noteq> 95) s = s" using d by (auto simp: filter_id_conv)
  ultimately show ?thesis
    using grouped_plain [OF s] l by (simp add: python_int_def strip_spaces_def int_of_decimal_def Let_def)
qed

lemma rpartition_last: "sep \<notin> set t \<Longrightarrow> rpartition_at sep (h @ sep # t) = (h, True, t)"
proof -
  assume a: "sep \<notin> set t"
  then have p: "\<And>x. x \<in> set (rev t) \<Longrightarrow> x \<noteq> sep" by auto
  have "takeWhile (\<lambda>c. c \<noteq> sep) (rev t @ sep # rev h) = rev t" "dropWhile (\<lambda>c. c \<noteq> sep) (rev t @ sep # rev h) = sep # rev h"
    using p by (subst takeWhile_append2 dropWhile_append2; simp)+
  then show ?thesis by (simp add: rpartition_at_def partition_at_def)
qed

lemma endpoint_written:
  assumes h: "host \<in> set LOOPBACK_HOSTS" and p: "1 \<le> port" "port \<le> 0xFFFF"
  shows "parse_peer_endpoint digit (host @ [58] @ str (int_str port)) = Inr (host, port)"
proof -
  have p0: "0 \<le> port" "port < 10 ^ Suc 4" using p by simp_all
  note d = int_str_digits [OF p0(1)]
  have "58 \<notin> set (str (int_str port))" using d by (auto simp: ascii_decimal_def list_all_iff)
  moreover have "python_int digit (str (int_str port)) = Inr port"
    using python_int_decimal [of "str (int_str port)" digit] d int_str_length [OF p0] by simp
  ultimately show ?thesis using h p rpartition_last [of 58 "str (int_str port)" host] by (simp add: parse_peer_endpoint_def rethrow_def)
qed

lemma endpoint_read:
  "case parse_peer_endpoint digit v of
     Inl e \<Rightarrow> exn_kind e = CliError
   | Inr (host, port) \<Rightarrow> host \<in> set LOOPBACK_HOSTS \<and> 1 \<le> port \<and> port \<le> 0xFFFF \<and> (\<exists>text. v = host @ [58] @ text)"
proof -
  obtain host found rest where p: "rpartition_at 58 v = (host, found, rest)" by (cases "rpartition_at 58 v") auto
  have v: "v = host @ [58] @ rest" if found
  proof -
    have "partition_at 58 (rev v) = (rev rest, True, rev host)" using p that by (auto simp: rpartition_at_def split: prod.splits)
    from partition_join [OF this] have "rev v = rev (host @ [58] @ rest)" by simp
    then show ?thesis unfolding rev_is_rev_conv .
  qed
  have r: "is_value_error (exn_kind e)" if "python_int digit rest = Inl e" for e
    using that by (auto simp: python_int_def int_of_decimal_def Let_def bindE_def split: if_splits)
  show ?thesis
  proof (cases "python_int digit rest")
    case (Inl e)
    then show ?thesis using r [OF Inl] p by (simp add: parse_peer_endpoint_def rethrow_def bindE_def)
  next
    case (Inr port)
    then show ?thesis using p v by (auto simp: parse_peer_endpoint_def rethrow_def)
  qed
qed

subsection \<open>The network node\<close>

text \<open>No step of the peer node forgets a connection object.\<close>

lemma length_kept [simp]:
  "length (pn_objects (handshake_state j h st)) = length (pn_objects st)"
  "length (pn_objects (run_finally j st)) = length (pn_objects st)"
  "length (pn_objects (stop_server st)) = length (pn_objects st)"
  "length (pn_objects (close_connections is st)) = length (pn_objects st)"
  "length (pn_objects (cancel_tasks is st)) = length (pn_objects st)"
  "length (pn_objects (snd (connect_finish j st))) = length (pn_objects st)"
  "length (pn_objects (snd (start_p2p ip sockets st))) = length (pn_objects st)"
proof -
  show "length (pn_objects (handshake_state j h st)) = length (pn_objects st)" "length (pn_objects (run_finally j st)) = length (pn_objects st)"
    by (simp_all add: handshake_state_def run_finally_def)
  have f: "(\<And>i st. length (pn_objects (f i st)) = length (pn_objects st)) \<Longrightarrow> length (pn_objects (fold f is st)) = length (pn_objects st)"
    for f "is" st by (induction "is" arbitrary: st) auto
  show "length (pn_objects (stop_server st)) = length (pn_objects st)"
    "length (pn_objects (close_connections is st)) = length (pn_objects st)"
    "length (pn_objects (cancel_tasks is st)) = length (pn_objects st)"
    by (simp_all add: stop_server_def close_connections_def cancel_tasks_def f)
  show "length (pn_objects (snd (connect_finish j st))) = length (pn_objects st)"
    by (simp add: connect_finish_def fail_def ret_def split: option.splits)
  show "length (pn_objects (snd (start_p2p ip sockets st))) = length (pn_objects st)"
    by (simp add: start_p2p_def Let_def fail_def ret_def split: list.splits prod.splits)
qed

lemma length_admission:
  "length (pn_objects st) \<le> length (pn_objects (accept ip peername now st))"
  "length (pn_objects (snd (connect_check host port now st))) = length (pn_objects st)"
  "length (pn_objects st) \<le> length (pn_objects (snd (connect_opened ip peername now st)))"
  "connect_opened ip peername now st = (Inr i, st') \<Longrightarrow> i < length (pn_objects st')"
proof -
  have c: "pn_objects (snd (can_accept host now st)) = pn_objects st" for host by (simp add: can_accept_def Let_def)
  have a: "pn_objects st'' = pn_objects st" if "can_accept host now st = (b, st'')" for host b st'' using c [of host] that by simp
  show "length (pn_objects st) \<le> length (pn_objects (accept ip peername now st))"
    by (auto simp: accept_def add_connection_def dest!: a split: option.splits prod.splits bool.splits)
  show "length (pn_objects (snd (connect_check host port now st))) = length (pn_objects st)"
    by (auto simp: connect_check_def fail_def ret_def dest!: a split: prod.splits bool.splits)
  show "length (pn_objects st) \<le> length (pn_objects (snd (connect_opened ip peername now st)))"
    by (auto simp: connect_opened_def fail_def ret_def add_connection_def dest!: a split: option.splits prod.splits bool.splits)
  show "connect_opened ip peername now st = (Inr i, st') \<Longrightarrow> i < length (pn_objects st')"
    by (auto simp: connect_opened_def fail_def ret_def add_connection_def split: option.splits prod.splits bool.splits if_splits)
qed

interpretation objects_kept: node_keeps P "\<lambda>st. (platform_ok P \<and> p2p_ok P st) \<and> n \<le> length (pn_objects st)" for P n
  by (rule node_keeps_conj [OF tables.node_keeps_axioms]) simp_all

interpretation task_objects_kept: task_keeps P "\<lambda>st. (platform_ok P \<and> p2p_ok_at P i st) \<and> n \<le> length (pn_objects st)" i now
  for P i now n
  by (rule task_keeps_conj [OF task_tables.task_keeps_axioms], rule node_keeps_conj [OF task_tables.node_keeps_axioms]) simp_all

lemma p2p_step_objects:
  assumes P: "platform_ok P" and s: "p2p_step P ip (t, st) (t', st')" and ok: "p2p_ok P st"
  shows "length (pn_objects st) \<le> length (pn_objects st')"
proof -
  let ?n = "length (pn_objects st)"
  have k: "?n \<le> length (pn_objects (snd (m st)))"
    if "keeps (\<lambda>st. (platform_ok P \<and> p2p_ok P st) \<and> ?n \<le> length (pn_objects st)) m" for m :: "('a, p2p_node) operation"
    using keepsD [OF that] P ok by simp
  have "?n \<le> length (pn_objects (snd (run_task P i now drawn st))) \<and> ?n \<le> length (pn_objects (snd (run_waiting P i now drawn st)))"
    if "i < length (pn_objects st)" for i now drawn
    using task_objects_kept.run_task_ok [of P i st ?n now drawn] task_objects_kept.run_waiting_ok [of P i st ?n now drawn] P ok that
    by (simp add: p2p_ok_at_def)
  then show ?thesis using s
    by (cases rule: p2p_stepE)
       (auto simp: objects_kept.keeps_mine [THEN k] objects_kept.keeps_broadcast [THEN k] length_admission)
qed

lemma p2p_run_objects:
  assumes P: "platform_ok P" and "(p2p_step P ip)\<^sup>*\<^sup>* x y" and "p2p_ok P (snd x)"
  shows "length (pn_objects (snd x)) \<le> length (pn_objects (snd y))"
  using assms(2,3)
proof (induction rule: rtranclp_induct)
  case (step y z)
  have "p2p_ok P (snd y)" using p2p_run_ok [OF P step(1,4)] by blast
  then show ?case
    using step p2p_step_objects [OF P, of ip "fst y" "snd y" "fst z" "snd z"] by simp
qed simp

text \<open>The body of \<open>run_network_node\<close> is a run of the peer node, if the waits are.\<close>

definition waits_run :: "platform \<Rightarrow> network \<Rightarrow> bool" where
  "waits_run P w \<longleftrightarrow> (\<forall>p x. (p2p_step P (nw_address w))\<^sup>*\<^sup>* x (snd (nw_wait w p x)))"

text \<open>No wait starts the server, and once it is stopped and drained no connection is opened.\<close>

definition waits_quiet :: "platform \<Rightarrow> network \<Rightarrow> bool" where
  "waits_quiet P w \<longleftrightarrow> (\<forall>p x. p2p_ok P (snd x) \<longrightarrow> \<not> pn_running (snd x) \<longrightarrow> \<not> pn_running (snd (snd (nw_wait w p x)))
      \<and> (p \<in> {Closing Flushing, Closing Ending} \<longrightarrow> set (pn_connections (snd (snd (nw_wait w p x)))) \<subseteq> set (pn_connections (snd x))))"

definition run_from :: "platform \<Rightarrow> network \<Rightarrow> rat \<times> p2p_node \<Rightarrow> rat \<times> p2p_node \<Rightarrow> bool" where
  "run_from P w x0 x \<longleftrightarrow> p2p_ok P (snd x0) \<and> (p2p_step P (nw_address w))\<^sup>*\<^sup>* x0 x"

lemma run_from_step: "run_from P w x0 (t, st) \<Longrightarrow> p2p_step P (nw_address w) (t, st) y \<Longrightarrow> run_from P w x0 y"
  by (auto simp: run_from_def intro: rtranclp.rtrancl_into_rtrancl)

lemma run_from_ok: "platform_ok P \<Longrightarrow> run_from P w x0 x \<Longrightarrow> p2p_ok P (snd x)"
  using p2p_run_ok unfolding run_from_def by blast

lemma keeps_wait: "waits_run P w \<Longrightarrow> keeps (run_from P w x0) (nw_wait w p)"
  unfolding keeps_def run_from_def waits_run_def by (metis rtranclp_trans)

lemma keeps_at_time:
  assumes "\<And>t st. p2p_step P (nw_address w) (t, st) (t, snd (m t st))" shows "keeps (run_from P w x0) (at_time m)"
  unfolding keeps_def
proof (intro allI impI)
  fix x assume x: "run_from P w x0 x"
  have "run_from P w x0 (fst x, snd (m (fst x) (snd x)))" using run_from_step [of P w x0 "fst x" "snd x", OF _ assms] x by simp
  then show "run_from P w x0 (snd (at_time m x))" by (simp add: at_time_def prod.case_eq_if)
qed

lemma keeps_connected:
  assumes P: "platform_ok P" and w: "waits_run P w"
  shows "keeps (run_from P w x0) (and_then (at_time (connect_opened (nw_address w) peername))
     (\<lambda>i. and_then (nw_wait w p) (\<lambda>_. at_time (\<lambda>_. connect_finish i))))"
  unfolding keeps_def
proof (intro allI impI)
  fix x assume x: "run_from P w x0 x"
  obtain r st where o: "connect_opened (nw_address w) peername (fst x) (snd x) = (r, st)"
    by (cases "connect_opened (nw_address w) peername (fst x) (snd x)")
  have y: "run_from P w x0 (fst x, st)"
    by (rule run_from_step [of _ _ _ "fst x" "snd x"]) (use x o step_connect_opened [of "fst x" "fst x" P "nw_address w" "snd x" peername] in simp_all)
  obtain q t2 st2 where z: "nw_wait w p (fst x, st) = (q, (t2, st2))" by (metis prod.collapse)
  have z2: "run_from P w x0 (t2, st2)" using keepsD [OF keeps_wait [OF w] y, of p] unfolding z by simp
  have "run_from P w x0 (t2, snd (connect_finish i st2))" if i: "r = Inr i" for i
  proof -
    have "(p2p_step P (nw_address w))\<^sup>*\<^sup>* (fst x, st) (t2, st2)" using w z unfolding waits_run_def by (metis snd_conv)
    from p2p_run_objects [OF P this] have "length (pn_objects st) \<le> length (pn_objects st2)" using run_from_ok [OF P y] by simp
    moreover have "i < length (pn_objects st)" using length_admission(4) o i by blast
    ultimately show ?thesis by (intro run_from_step [OF z2] step_connect_finish) simp
  qed
  then show "run_from P w x0 (snd (and_then (at_time (connect_opened (nw_address w) peername))
     (\<lambda>i. and_then (nw_wait w p) (\<lambda>_. at_time (\<lambda>_. connect_finish i))) x))"
    using o y z z2 by (cases r; cases q) (simp_all add: and_then_def at_time_def prod.case_eq_if)
qed

text \<open>Closing the server is a run of the peer node too.\<close>

lemma keeps_close:
  assumes w: "waits_run P w"
  shows "keeps (run_from P w x0) (close_server w)"
proof -
  have s: "keeps (run_from P w x0) (at_time (\<lambda>_. change stop_server))"
    by (rule keeps_at_time) (simp add: change_def step_stop)
  have c: "keeps (run_from P w x0) (and_then (nw_wait w (Closing Flushing)) (\<lambda>_.
     and_then (at_time (\<lambda>_. change (cancel_tasks is))) (\<lambda>_. nw_wait w (Closing Ending))))" for "is"
    by (intro keeps_and_then keeps_wait [OF w] keeps_at_time) (simp add: change_def step_cancel)
  have b: "keeps (run_from P w x0) (and_then (reads_state (\<lambda>x. Inr (pn_connections (snd x)))) (\<lambda>is.
     and_then (at_time (\<lambda>_. change (close_connections is))) (\<lambda>_. and_then (nw_wait w (Closing Flushing)) (\<lambda>_.
     and_then (at_time (\<lambda>_. change (cancel_tasks is))) (\<lambda>_. nw_wait w (Closing Ending))))))"
    unfolding keeps_def
  proof (intro allI impI)
    fix x assume "run_from P w x0 x"
    then have "run_from P w x0 (fst x, snd x)" by simp
    then have "run_from P w x0 (fst x, close_connections (pn_connections (snd x)) (snd x))"
      by (rule run_from_step) (rule step_close, simp)
    from keepsD [OF c this, of "pn_connections (snd x)"]
    show "run_from P w x0 (snd (and_then (reads_state (\<lambda>x. Inr (pn_connections (snd x)))) (\<lambda>is.
     and_then (at_time (\<lambda>_. change (close_connections is))) (\<lambda>_. and_then (nw_wait w (Closing Flushing)) (\<lambda>_.
     and_then (at_time (\<lambda>_. change (cancel_tasks is))) (\<lambda>_. nw_wait w (Closing Ending))))) x))"
      by (simp add: and_then_def [of "reads_state _"] and_then_def [of "at_time (\<lambda>_. change (close_connections _))"]
          reads_state_def at_time_def change_def)
  qed
  show ?thesis
    unfolding close_server_def close_p2p_def
    by (intro keeps_and_then [OF keeps_if_state] keeps_and_then s keeps_wait [OF w] keeps_pure b)
qed

lemma keeps_connect_peers:
  assumes P: "platform_ok P" and w: "waits_run P w"
  shows "keeps (run_from P w x0) (connect_peers w k vs)"
proof (induction vs arbitrary: k)
  case (Cons v vs)
  have "keeps (run_from P w x0) (connect_peer w k host port)" for host port
    unfolding connect_peer_def
    by (intro keeps_and_then keeps_pure keeps_wait [OF w] keeps_connected [OF P w] keeps_at_time) (simp add: step_connect_check)
  then show ?case
    by (auto intro!: keeps_compute keeps_and_then keeps_pure Cons.IH split: prod.split)
qed (simp add: keeps_pure)

lemma keeps_announce:
  assumes P: "platform_ok P" and w: "waits_run P w"
  shows "keeps (run_from P w x0) (announce w endpoints)"
proof -
  have s: "keeps (run_from P w x0) (at_time (\<lambda>_. start_p2p (nw_address w) sockets))" for sockets
    by (rule keeps_at_time) (rule step_start)
  have "keeps (run_from P w x0) (start_server w)"
    unfolding start_server_def
    by (intro keeps_and_then keeps_wait [OF w] keeps_option keeps_close [OF w] keeps_pure s)
  then show ?thesis
    unfolding announce_def by (intro keeps_and_then keeps_connect_peers [OF P w] keeps_pure)
qed

text \<open>Closing the server leaves no connection open.\<close>

lemma close_removes:
  assumes ok: "p2p_ok P st" and i: "i < length (pn_objects st)"
  shows "pn_connections (close_connection i st) = filter (\<lambda>j. j \<noteq> i) (pn_connections st)"
proof (cases "pc_closed (conn st i)")
  case True
  have "tables_ok P (pn_node_id st) (pn_limits st) (map peer_key_of (pn_objects st)) (pn_connections st) (pn_by_node_id st)"
    using ok by (simp add: p2p_ok_def)
  then have "i \<notin> set (pn_connections st)" using tables_okD(2) True i by (fastforce simp: peer_key_of_def)
  then have "filter (\<lambda>j. j \<noteq> i) (pn_connections st) = pn_connections st" by (auto simp: filter_id_conv)
  then show ?thesis using True by (simp add: close_connection_def)
qed (simp add: close_connection_def remove_connection_def Let_def split: option.splits)

lemma running_kept [simp]:
  "pn_running (close_connection i st) = pn_running st" "pn_running (close_connections is st) = pn_running st"
  "pn_running (cancel_tasks is st) = pn_running st"
proof -
  show c: "pn_running (close_connection i st) = pn_running st" for i st
    by (simp add: close_connection_def remove_connection_def Let_def split: option.splits)
  show "pn_running (close_connections is st) = pn_running st" "pn_running (cancel_tasks is st) = pn_running st"
    unfolding close_connections_def cancel_tasks_def by (induction "is" arbitrary: st) (simp_all add: c)
qed

lemma cancel_tasks_connections [simp]: "pn_connections (cancel_tasks is st) = pn_connections st"
  unfolding cancel_tasks_def by (induction "is" arbitrary: st) simp_all

lemma close_all_removes:
  assumes "p2p_ok P st" shows "pn_connections (close_connections (pn_connections st) st) = []"
proof -
  have "pn_connections (close_connections is st) = filter (\<lambda>j. j \<notin> set is) (pn_connections st)"
    if "p2p_ok P st" "\<forall>i \<in> set is. i < length (pn_objects st)" for "is" st
    using that unfolding close_connections_def
  proof (induction "is" arbitrary: st)
    case (Cons i "is")
    then show ?case using close_ok [of P st i] close_removes [of P st i] by (auto intro: filter_cong)
  qed simp
  then show ?thesis using assms open_in_range [OF assms] by simp
qed

lemma and_then_Inr: "and_then m f s = (Inr y, s') \<longleftrightarrow> (\<exists>x s1. m s = (Inr x, s1) \<and> f x s1 = (Inr y, s'))"
  by (auto simp: and_then_def split: prod.splits sum.splits)

text \<open>When \<open>close\<close> returns, the server is stopped and nothing is open.\<close>

lemma close_server_closes:
  assumes P: "platform_ok P" and w: "waits_run P w" "waits_quiet P w" and x: "run_from P w x0 x"
    and c: "close_server w x = (Inr u, y)"
  shows "\<not> pn_running (snd y) \<and> pn_connections (snd y) = []"
proof -
  define drain where "drain = (\<lambda>x. if pn_running (snd x) then
      and_then (at_time (\<lambda>_. change stop_server)) (\<lambda>_. nw_wait w (Closing Draining)) x else ret () x)"
  obtain d f where d: "drain x = (Inr (), d)"
    and f: "nw_wait w (Closing Flushing) (fst d, close_connections (pn_connections (snd d)) (snd d)) = (Inr (), f)"
    and y: "nw_wait w (Closing Ending) (fst f, cancel_tasks (pn_connections (snd d)) (snd f)) = (Inr (), y)"
    using c unfolding close_server_def close_p2p_def drain_def
    by (auto simp: and_then_Inr at_time_def change_def reads_state_def split: if_splits)
  have s: "keeps (run_from P w x0) (at_time (\<lambda>_. change stop_server))"
    by (rule keeps_at_time) (simp add: change_def step_stop)
  have r: "\<not> pn_running (snd d)"
  proof (cases "pn_running (snd x)")
    case True
    then have "nw_wait w (Closing Draining) (fst x, stop_server (snd x)) = (Inr (), d)"
      using d by (auto simp: drain_def and_then_Inr at_time_def change_def)
    moreover have "p2p_ok P (snd (fst x, stop_server (snd x)))"
      using stop_server_ok run_from_ok [OF P x] by simp
    moreover have "\<not> pn_running (snd (fst x, stop_server (snd x)))" by (simp add: stop_server_def)
    ultimately show ?thesis using w(2) unfolding waits_quiet_def by (metis snd_conv)
  qed (use d in \<open>simp add: drain_def ret_def\<close>)
  have "keeps (run_from P w x0) drain"
    unfolding drain_def by (intro keeps_if_state keeps_and_then keeps_wait [OF w(1)] keeps_pure s)
  from keepsD [OF this x] d have dr: "run_from P w x0 (fst d, snd d)" by simp
  then have ok: "p2p_ok P (snd d)" using run_from_ok [OF P] by fastforce
  have cr: "run_from P w x0 (fst d, close_connections (pn_connections (snd d)) (snd d))"
    by (rule run_from_step [OF dr]) (rule step_close, simp)
  have f1: "\<not> pn_running (snd f) \<and> pn_connections (snd f) = []"
    using w(2) f r close_all_removes [OF ok] run_from_ok [OF P cr] unfolding waits_quiet_def
    by (metis empty_set insertI1 running_kept(2) set_empty snd_conv subset_empty)
  have "p2p_ok P (cancel_tasks (pn_connections (snd d)) (snd f))"
    using cancel_tasks_ok run_from_ok [OF P keepsD [OF keeps_wait [OF w(1)] cr, of "Closing Flushing"]] f by simp
  then show ?thesis
    using w(2) y f1 unfolding waits_quiet_def
    by (metis cancel_tasks_connections empty_set insertCI running_kept(3) set_empty snd_conv subset_empty)
qed

text \<open>Errors of an operation that satisfy a condition.\<close>

definition fails_only :: "(py_error \<Rightarrow> bool) \<Rightarrow> ('a, 's) operation \<Rightarrow> bool" where
  "fails_only E m \<longleftrightarrow> (\<forall>s e. fst (m s) = Inl e \<longrightarrow> E e)"

named_theorems fails_intros \<open>rules that bound the errors of an operation\<close>

lemma fails_onlyD: "fails_only E m \<Longrightarrow> m s = (Inl e, s') \<Longrightarrow> E e"
  by (metis fails_only_def fst_conv)

lemma fails_and_then [fails_intros]: "fails_only E m \<Longrightarrow> (\<And>x. fails_only E (f x)) \<Longrightarrow> fails_only E (and_then m f)"
  unfolding fails_only_def by (auto simp: and_then_def split: prod.splits sum.splits) (metis fst_conv)+

lemma fails_pure [fails_intros]:
  "fails_only E (ret v)" "fails_only E (change g)" "(\<And>e. r = Inl e \<Longrightarrow> E e) \<Longrightarrow> fails_only E (compute r)"
  "(\<And>s e. h s = Inl e \<Longrightarrow> E e) \<Longrightarrow> fails_only E (reads_state h)"
  by (auto simp: fails_only_def ret_def change_def compute_def reads_state_def)

lemma fails_if_state [fails_intros]: "fails_only E m \<Longrightarrow> fails_only E n \<Longrightarrow> fails_only E (\<lambda>s. if b s then m s else n s)"
  by (simp add: fails_only_def)

lemma fails_option [fails_intros]:
  "(v = None \<Longrightarrow> fails_only E m) \<Longrightarrow> (\<And>x. v = Some x \<Longrightarrow> fails_only E (f x)) \<Longrightarrow> fails_only E (case v of None \<Rightarrow> m | Some x \<Rightarrow> f x)"
  by (cases v) auto

lemma fails_at_time [fails_intros]: "(\<And>t. fails_only E (m t)) \<Longrightarrow> fails_only E (at_time m)"
  unfolding fails_only_def at_time_def by (auto split: prod.splits) (metis fst_conv)

text \<open>Closing fails only where one of its waits does.\<close>

definition closing_fails :: "network \<Rightarrow> py_error \<Rightarrow> bool" where
  "closing_fails w e \<longleftrightarrow> (\<exists>c x. fst (nw_wait w (Closing c) x) = Inl e)"

lemma close_server_fails: "fails_only (closing_fails w) (close_server w)"
proof -
  have "fails_only (closing_fails w) (nw_wait w (Closing c))" for c by (auto simp: fails_only_def closing_fails_def)
  then show ?thesis
    unfolding close_server_def close_p2p_def
    by (intro fails_and_then [OF fails_if_state] fails_intros) simp_all
qed

text \<open>The body never ends only where a wait, the listening sockets or a dial do not.\<close>

definition surroundings_fail :: "network \<Rightarrow> py_error \<Rightarrow> bool" where
  "surroundings_fail w e \<longleftrightarrow> (\<exists>p x. fst (nw_wait w p x) = Inl e) \<or> nw_sockets w = Inl e \<or> (\<exists>host port. nw_dial w host port = Inl e)"

definition ends :: "network \<Rightarrow> py_error \<Rightarrow> bool" where
  "ends w e \<longleftrightarrow> exn_kind e = Diverges \<longrightarrow> surroundings_fail w e"

lemma ends_intros [fails_intros]:
  "fails_only (ends w) (nw_wait w p)" "fails_only (ends w) (compute (nw_sockets w))" "fails_only (ends w) (compute (nw_dial w host port))"
  "fails_only (ends w) (close_server w)"
proof -
  show "fails_only (ends w) (close_server w)"
    using close_server_fails [of w] unfolding fails_only_def ends_def surroundings_fail_def closing_fails_def by blast
qed (auto simp: fails_only_def ends_def surroundings_fail_def compute_def)

lemma connection_calls_end [fails_intros]:
  "fails_only (ends w) (connect_check host port now)" "fails_only (ends w) (connect_opened ip peername now)"
  "fails_only (ends w) (connect_finish i)"
  by (auto simp: fails_only_def ends_def connect_check_def connect_opened_def connect_finish_def fail_def ret_def
      split: prod.splits bool.splits option.splits if_splits)

lemma start_ends: "fails_only (ends w) (start_p2p ip sockets)"
  by (auto simp: fails_only_def ends_def start_p2p_def Let_def fail_def ret_def split: list.splits prod.splits if_splits)

lemma start_failure_kind: "start_p2p ip sockets st = (Inr (Some e), st') \<Longrightarrow> exn_kind e \<noteq> Diverges"
  by (auto simp: start_p2p_def Let_def fail_def ret_def split: list.splits prod.splits if_splits)

lemma start_server_ends: "fails_only (ends w) (start_server w)"
proof -
  have b: "fails_only (ends w) (and_then (at_time (\<lambda>_. start_p2p (nw_address w) sockets)) (\<lambda>failure.
     case failure of None \<Rightarrow> ret () | Some e \<Rightarrow> and_then (close_server w) (\<lambda>_. compute (Inl e))))" for sockets
    unfolding fails_only_def
  proof (intro allI impI)
    fix x e assume f: "fst (and_then (at_time (\<lambda>_. start_p2p (nw_address w) sockets)) (\<lambda>failure.
     case failure of None \<Rightarrow> ret () | Some e \<Rightarrow> and_then (close_server w) (\<lambda>_. compute (Inl e))) x) = Inl e"
    obtain r st where s: "start_p2p (nw_address w) sockets (snd x) = (r, st)" by fastforce
    show "ends w e"
    proof (cases r)
      case (Inl e')
      then show ?thesis using f s fails_onlyD [OF start_ends] by (auto simp: and_then_def at_time_def)
    next
      case (Inr failure)
      show ?thesis
      proof (cases failure)
        case (Some e')
        then have "fst (and_then (close_server w) (\<lambda>_. compute (Inl e') :: (unit, _) operation) (fst x, st)) = Inl e"
          using f s Inr by (subst (asm) and_then_def) (simp add: at_time_def)
        moreover have "ends w e'" using start_failure_kind s Inr Some by (simp add: ends_def)
        then have "fails_only (ends w) (and_then (close_server w) (\<lambda>_. compute (Inl e') :: (unit, _) operation))"
          by (intro fails_and_then ends_intros fails_pure(3)) simp
        ultimately show ?thesis unfolding fails_only_def by blast
      qed (use f s Inr in \<open>simp add: and_then_def at_time_def ret_def\<close>)
    qed
  qed
  show ?thesis
    unfolding start_server_def by (rule fails_and_then [OF ends_intros(1)], rule fails_and_then [OF ends_intros(2)], rule b)
qed

lemma endpoint_ends: "parse_peer_endpoint digit v = Inl e \<Longrightarrow> exn_kind e = CliError"
  using endpoint_read [where digit = digit and v = v] by simp

lemma announce_ends: "fails_only (ends w) (announce w endpoints)"
proof -
  have "fails_only (ends w) (connect_peers w k vs)" for k vs
  proof (induction vs arbitrary: k)
    case (Cons v vs)
    have c: "fails_only (ends w) (compute (parse_peer_endpoint (nw_digit w) v))"
      by (rule fails_pure(3)) (drule endpoint_ends, simp add: ends_def)
    moreover have "fails_only (ends w) (connect_peer w k host port)" for host port
      unfolding connect_peer_def by (intro fails_intros)
    ultimately show ?case
      unfolding connect_peers.simps
      by (intro fails_and_then [OF c]) (auto intro!: fails_and_then fails_pure(1) Cons.IH split: prod.split)
  qed (simp add: fails_pure)
  moreover have "fails_only (ends w) (reads_state (\<lambda>x. node_document found (snd x)))" for found
    by (rule fails_pure(4))
       (auto simp: ends_def node_document_def chain_height_def dict_index_def Let_def bindE_def split: option.splits sum.splits)
  ultimately show ?thesis unfolding announce_def by (intro fails_and_then start_server_ends)
qed

lemma serve_ends: "serve w endpoints x = (Inl e, q) \<Longrightarrow> exn_kind e = Diverges \<Longrightarrow> surroundings_fail w e"
proof -
  assume s: "serve w endpoints x = (Inl e, q)" and d: "exn_kind e = Diverges"
  obtain a y where a: "announce w endpoints x = (a, y)" by (rule prod.exhaust)
  have "ends w e"
  proof (cases a)
    case (Inl e')
    then show ?thesis using s a fails_onlyD [OF announce_ends, of w endpoints x e'] by (simp add: serve_def)
  next
    case (Inr document)
    obtain r z where "nw_wait w Until_Stopped y = (r, z)" by (rule prod.exhaust)
    then show ?thesis using s a Inr fails_onlyD [OF ends_intros(1), of w Until_Stopped y e] by (simp add: serve_def)
  qed
  then show ?thesis using d by (simp add: ends_def)
qed

text \<open>The state a run of the body leaves, and what the \<open>finally\<close> clause makes of it.\<close>

lemma new_node_start:
  assumes "node_reachable P nd" and n: "new_p2p_node nd host port None None drawn = Inr st"
  shows "p2p_ok P st \<and> pn_local_node st = nd"
proof -
  have l: "pn_limits st = default_limits" and nd: "pn_local_node st = nd"
    using n by (auto simp: new_p2p_node_def Let_def split: if_splits)
  have "new_peer_limits default_limits = Inr default_limits"
    by (simp add: new_peer_limits_def default_limits_def MAX_PENDING_SENDS_PER_PEER_def SCORE_DISCONNECT_THRESHOLD_def
        WRITE_TIMEOUT_SECONDS_def)
  then have "new_peer_limits (case None of None \<Rightarrow> default_limits | Some l \<Rightarrow> l) = Inr (pn_limits st)" using l by simp
  then have "p2p_start P (0, st)" using assms unfolding p2p_start_def by blast
  then show ?thesis using p2p_start_ok nd by blast
qed

lemma serve_run:
  assumes P: "platform_ok P" and w: "waits_run P w" and x: "run_from P w x0 x" and s: "serve w endpoints x = (r, printed, y)"
  shows "run_from P w x0 y"
proof -
  obtain q z where a: "announce w endpoints x = (q, z)" by (rule prod.exhaust)
  have z: "run_from P w x0 z" using keepsD [OF keeps_announce [OF P w] x, of endpoints] a by simp
  show ?thesis
    using s a z keepsD [OF keeps_wait [OF w] z, of Until_Stopped] by (auto simp: serve_def split: prod.splits sum.splits)
qed

definition closed_down :: "p2p_node \<Rightarrow> bool" where
  "closed_down st \<longleftrightarrow> \<not> pn_running st \<and> pn_connections st = [] \<and> (\<exists>s. nd_storage (pn_local_node st) = Some s \<and> sg_closed s)"

lemma shut_down_spec:
  assumes P: "platform_ok P" and w: "waits_run P w" "waits_quiet P w" and x: "run_from P w x0 x"
    and d: "shut_down w r x = (r', st)"
  obtains y where "run_from P w x0 y" and "st = pn_local_node_update close_node (snd y)" and "r' = r"
      and "\<not> pn_running st" and "pn_connections st = []"
  | y e where "run_from P w x0 y" and "st = snd y" and "r' = Inl e"
      and "closing_fails w e \<or> r = Inl e \<and> exn_kind e = Diverges"
proof (cases "case r of Inl e \<Rightarrow> exn_kind e = Diverges | Inr _ \<Rightarrow> False")
  case True
  then obtain e where e: "r = Inl e" "exn_kind e = Diverges" by (cases r) auto
  then have "st = snd x" "r' = Inl e" using d by (simp_all add: shut_down_def)
  then show ?thesis using that(2) [OF x] e by blast
next
  case False
  obtain q y where c: "close_server w x = (q, y)" by (rule prod.exhaust)
  have y: "run_from P w x0 y" using keepsD [OF keeps_close [OF w(1)] x] c by simp
  show ?thesis
  proof (cases q)
    case (Inl e)
    then have "closing_fails w e" using fails_onlyD [OF close_server_fails] c by blast
    moreover have "st = snd y" "r' = Inl e" using d c False Inl by (simp_all add: shut_down_def)
    ultimately show ?thesis using that(2) [OF y] by blast
  next
    case (Inr u)
    then show ?thesis using that(1) [OF y] close_server_closes [OF P w x] d c False by (auto simp: shut_down_def)
  qed
qed

lemma network_node_saves:
  assumes P: "platform_ok P" and c: "stored_chain P dir files c" and w: "waits_run P w" "waits_quiet P w"
    and run: "run_network_node P w now dir host port endpoints files = (r, printed, peer, files')"
  shows "case peer of
      None \<Rightarrow> \<not> (host \<in> set LOOPBACK_HOSTS \<and> 0 \<le> port \<and> port \<le> 0xFFFF \<and> length (nw_node_id w) = 16) \<and> (\<exists>e. r = Inl e)
        \<and> stored_chain P dir files' c
    | Some st \<Rightarrow> saved P dir files c (pn_local_node st) files'
        \<and> (closed_down st \<or> (\<exists>e. r = Inl e \<and> (closing_fails w e \<or> exn_kind e = Diverges \<and> surroundings_fail w e)))"
proof -
  let ?files = "AList.update (database_file P dir) (database_of P c) files"
  obtain nd where nd: "open_persistent P dir TESTNET True files = (Inr nd, ?files)"
      "session_ok P (database_file P dir) c nd" by (rule open_session [OF P c])
  show ?thesis
  proof (cases "new_p2p_node nd host port None None (nw_node_id w)")
    case (Inl e)
    then have "\<not> (host \<in> set LOOPBACK_HOSTS \<and> 0 \<le> port \<and> port \<le> 0xFFFF \<and> length (nw_node_id w) = 16)"
      by (auto simp: new_p2p_node_def split: if_splits)
    moreover have "r = Inl e" "peer = None" "files' = ?files"
      using run nd(1) Inl by (simp_all add: run_network_node_def)
    ultimately show ?thesis using c by (simp add: stored_chain_def)
  next
    case (Inr st0)
    obtain r0 x where s: "serve w endpoints (now, st0) = (r0, printed, x)" and d: "\<exists>st. shut_down w r0 x = (r, st) \<and> peer = Some st
        \<and> files' = write_back (pn_local_node st) ?files"
      using run nd(1) Inr by (auto simp: run_network_node_def split: prod.splits)
    then obtain st where st: "shut_down w r0 x = (r, st)" "peer = Some st" "files' = write_back (pn_local_node st) ?files" by blast
    have "p2p_ok P st0" and nd0: "pn_local_node st0 = nd" using new_node_start [OF _ Inr] nd(2) by (auto simp: session_ok_def)
    then have x0: "run_from P w (now, st0) (now, st0)" by (simp add: run_from_def)
    note f = serve_run [OF P w(1) x0 s]
    have n: "session_ok P (database_file P dir) c (pn_local_node (snd y))" if "run_from P w (now, st0) y" for y
      using p2p_run_local [OF P, of "nw_address w" "(now, st0)" y] that nd0 session_run [OF P _ nd(2)] by (simp add: run_from_def)
    have sv: "saved P dir files c (pn_local_node (snd y)) (write_back (pn_local_node (snd y)) ?files)" if "run_from P w (now, st0) y" for y
      by (rule session_saved [OF P n [OF that]])
    from P w f st(1) show ?thesis
    proof (cases rule: shut_down_spec)
      case (1 y)
      obtain s' where "nd_storage (pn_local_node (snd y)) = Some s'" using n [OF 1(1)] by (auto simp: session_ok_def storage_path_def)
      then show ?thesis using sv [OF 1(1)] 1 st
        by (simp add: closed_down_def saved_def write_back_def close_node_def close_storage_def)
    next
      case (2 y e)
      moreover have "surroundings_fail w e" if "r0 = Inl e" "exn_kind e = Diverges"
        using serve_ends [OF s [unfolded that(1)] that(2)] .
      ultimately show ?thesis using sv [OF 2(1)] st by auto
    qed
  qed
qed

subsection \<open>Reports on a database\<close>

text \<open>Opening a file whose blocks and identity are those of the chain, whatever its other tables hold.\<close>

lemma open_existing:
  assumes P: "platform_ok P" and c: "chain_reachable P c" and b: "blocks_of_chain P c db"
    and f: "map_of files (database_file P dir) = Some db"
  shows "open_storage P dir TESTNET create files = (Inr \<lparr>sg_database = db, sg_network = TESTNET,
     sg_genesis_hash = genesis_hash_of P, sg_database_path = database_file P dir, sg_closed = False\<rparr>, AList.update (database_file P dir) db files)"
proof -
  obtain c0 where c0: "new_chain P TESTNET = Inr c0" using chain_start [OF c] by blast
  then have g: "ch_tip c0 = genesis_hash_of P" by (simp add: genesis_hash_of_def)
  note gl = genesis_hash_length [OF P c0]
  have "safe_chain_id (net_chain_id TESTNET)" by (simp add: TESTNET_def safe_chain_id_def str_def)
  then have path: "database_path_for_identity dir (net_chain_id TESTNET) (genesis_hash_of P) = Inr (database_file P dir)"
    by (simp add: database_path_for_identity_def database_file_def gl)
  let ?st = "\<lparr>sg_database = db, sg_network = TESTNET, sg_genesis_hash = genesis_hash_of P, sg_database_path = database_file P dir, sg_closed = False\<rparr>"
  have "validate_identity ?st = Inr ()"
    using b gl by (auto simp: validate_identity_def storage_metadata_def blocks_of_chain_def exact_blob_def ensure_open_def)
  then have "open_or_initialize P True create ?st = (Inr (), ?st)"
    using b by (simp add: open_or_initialize_def blocks_of_chain_def) (simp add: SCHEMA_VERSION_def validate_schema_tables_def)
  then show ?thesis using f by (simp add: open_storage_def require_supported_network_def c0 g path)
qed

lemma database_of_blocks: "blocks_of_chain P c (database_of P c)"
  by (simp add: blocks_of_chain_def) (simp add: database_of_def row_like_def list_all2_refl)

definition chain_report :: "chain \<Rightarrow> validation_report" where
  "chain_report c = \<lparr>vr_block_count = length (ch_entries c), vr_account_count = length (snap_accounts (en_snapshot (tip_entry c))),
     vr_height = br_height (en_record (tip_entry c)), vr_tip_hash = ch_tip c\<rparr>"

text \<open>\<open>reindex\<close> on a damaged file, and then \<open>info\<close> and \<open>validate\<close> on the file it leaves.\<close>

lemma reindex_command:
  assumes P: "platform_ok P" and c: "chain_reachable P c" and b: "blocks_of_chain P c db"
    and f: "map_of files (database_file P dir) = Some db"
  obtains files' where "run_chain_command P resolve Reindex dir files = (Inr (report_document ''reindexed'' (chain_report c)), files')"
    and "map_of files' = (map_of files)(database_file P dir \<mapsto> database_of P c)"
proof -
  let ?st = "\<lparr>sg_database = db, sg_network = TESTNET, sg_genesis_hash = genesis_hash_of P,
     sg_database_path = database_file P dir, sg_closed = False\<rparr>"
  have "reindex P ?st = (Inr (chain_report c), ?st\<lparr>sg_database := database_of P c\<rparr>)"
    using reindex_spec [OF P c, of ?st] b by (simp add: chain_report_def)
  then show thesis
    using that open_existing [OF P c b f] by (simp add: run_chain_command_def chain_document_def and_then_def ret_def)
qed

lemma read_commands:
  assumes P: "platform_ok P" and c: "chain_reachable P c"
    and f: "map_of files (database_file P dir) = Some (database_of P c)"
  obtains files' shown where "run_chain_command P resolve Validate dir files = (Inr (report_document ''valid'' (chain_report c)), files')"
    and "run_chain_command P resolve Info dir files = (storage_info_document resolve \<lparr>si_schema_version = SCHEMA_VERSION,
       si_chain_id = net_chain_id TESTNET, si_genesis_hash = genesis_hash_of P, si_database_path = database_file P dir,
       si_height = br_height (en_record (tip_entry c)), si_tip_hash = ch_tip c,
       si_cumulative_work = br_cumulative_work (en_record (tip_entry c)),
       si_issued_supply = br_total_supply (en_record (tip_entry c)), si_block_count = length (ch_entries c),
       si_account_count = length (snap_accounts (en_snapshot (tip_entry c)))\<rparr>, files')"
    and "map_of files' = map_of files" and "format_atoms (br_total_supply (en_record (tip_entry c))) = Inr shown"
    and "parse_our_amount shown True = Inr (br_total_supply (en_record (tip_entry c)))"
proof -
  let ?st = "\<lparr>sg_database = database_of P c, sg_network = TESTNET, sg_genesis_hash = genesis_hash_of P,
     sg_database_path = database_file P dir, sg_closed = False\<rparr>"
  note ok = reachable_ok [OF P c] and o = open_existing [OF P c database_of_blocks f]
  have s: "store_of P c ?st" by (simp add: store_of_def)
  note t = chain_okD(1) [OF ok] and tf = tip_facts(9) [OF ok]
  have "validate_storage P ?st = Inr (chain_report c)"
    using load_spec [OF P c s] report_spec [OF ok s] tip_facts(2) [OF ok] by (simp add: validate_storage_def chain_report_def)
  then have v: "run_chain_command P resolve Validate dir files
      = (Inr (report_document ''valid'' (chain_report c)), AList.update (database_file P dir) (database_of P c) (AList.update (database_file P dir) (database_of P c) files))"
    using o by (simp add: run_chain_command_def chain_document_def reads_state_def)
  have "0 \<le> br_total_supply (en_record (tip_entry c))" "br_total_supply (en_record (tip_entry c)) \<le> U64_MAX"
    using u64_range [OF entry_ranges(2) [OF t tf]] by (simp_all add: U64_MAX_def)
  then obtain shown where "format_atoms (br_total_supply (en_record (tip_entry c))) = Inr shown"
      "parse_our_amount shown True = Inr (br_total_supply (en_record (tip_entry c)))" using format_atoms_parses by blast
  moreover have "map_of (AList.update (database_file P dir) (database_of P c) (AList.update (database_file P dir) (database_of P c) files)) = map_of files"
    using f by auto
  ultimately show thesis
    using that [OF v] o report_spec [OF ok s] by (simp add: run_chain_command_def chain_document_def reads_state_def)
qed

text \<open>The identifier of the network is the hash of the block \<open>genesis_block\<close> builds.\<close>

lemma genesis_hash_block:
  assumes P: "platform_ok P" and c: "chain_reachable P c"
  shows "bindE (genesis_block P TESTNET) (block_hash P) = Inr (genesis_hash_of P)"
proof -
  obtain c0 where c0: "new_chain P TESTNET = Inr c0" using chain_start [OF c] by blast
  obtain e where e: "ch_entries c0 = [(ch_tip c0, e)]" "genesis_block P TESTNET = Inr (en_block e)"
    using new_chain_entries [OF P c0] by blast
  have "map_of (ch_entries c0) (ch_tip c0) = Some e" by (simp add: e)
  then have "block_hash P (en_block e) = Inr (ch_tip c0)"
    using entry_okD(1) [OF tree_entry [OF chain_okD(1) [OF new_chain_ok [OF P c0]]]] by blast
  then show ?thesis by (simp add: e genesis_hash_of_def c0)
qed

subsection \<open>Properties\<close>

text \<open>C5. \<open>shell_session_is_durable\<close>: whatever is typed into a shell on the chain of a data directory, and
  whether it ends by \<open>quit\<close>, by the end of input or by an exception, the node is closed, its chain has kept
  every block and has at least the work it had, the database file holds exactly this chain, so that opening
  it again gives the same chain, and no other file has changed.\<close>

theorem shell_session_is_durable:
  assumes "platform_ok P" and "stored_chain P dir files c"
  shows "\<exists>r nd files' st nd' files''. run_shell P shlex_split inputs dir files = (r, Some nd, files')
     \<and> nd_storage nd = Some st \<and> sg_closed st
     \<and> chain_grows c (nd_chain nd) \<and> map_of files' (database_file P dir) = Some (database_of P (nd_chain nd))
     \<and> (\<forall>path. path \<noteq> database_file P dir \<longrightarrow> map_of files' path = map_of files path)
     \<and> open_persistent P dir TESTNET True files' = (Inr nd', files'') \<and> nd_chain nd' = nd_chain nd"
proof -
  obtain r nd where r: "run_shell P shlex_split inputs dir files
      = (r, Some (close_node nd), write_back nd (AList.update (database_file P dir) (database_of P c) files))"
    and n: "session_ok P (database_file P dir) c nd" by (rule shell_saves [OF assms])
  obtain st where st: "nd_storage nd = Some st" using n by (auto simp: session_ok_def storage_path_def)
  have s: "saved P dir files c nd (write_back nd (AList.update (database_file P dir) (database_of P c) files))"
    by (rule session_saved [OF assms(1) n])
  then obtain nd' where nd': "open_persistent P dir TESTNET True (write_back nd (AList.update (database_file P dir) (database_of P c) files))
      = (Inr nd', AList.update (database_file P dir) (database_of P (nd_chain nd)) (write_back nd (AList.update (database_file P dir) (database_of P c) files)))"
      "nd_chain nd' = nd_chain nd"
    using open_session [OF assms(1), of dir _ "nd_chain nd"] unfolding saved_def by metis
  have "nd_storage (close_node nd) = Some (close_storage st)" "sg_closed (close_storage st)" "nd_chain (close_node nd) = nd_chain nd"
    using st by (simp_all add: close_node_def close_storage_def)
  then show ?thesis using r s nd' unfolding saved_def by metis
qed

lemma sample_stored: "stored_chain sample_platform [] [] sample_chain"
  using sample_chain_new sample_chain_reachable by (simp add: stored_chain_def)

lemma shell_session_is_durable_witness:
  "\<exists>nd. fst (snd (run_shell sample_platform (\<lambda>line. Inr [line, str ''x'']) [(str ''wallet'', replicate 32 7), (str ''mine'', [])] [] [])) = Some nd
     \<and> chain_grows sample_chain (nd_chain nd)"
  using shell_session_is_durable [OF sample_platform_ok sample_stored, of "\<lambda>line. Inr [line, str ''x'']"
      "[(str ''wallet'', replicate 32 7), (str ''mine'', [])]"] by auto

text \<open>C16. \<open>network_node_shuts_down\<close>: whatever the tasks of a network node do while it waits, and whether it is
  told to stop, is interrupted, or fails to start or to connect, the database file at the end holds its chain, which
  has only grown; and the server is stopped, no connection is open and the database is closed, unless the body
  never ends because its surroundings do not, or one of the three waits of closing is interrupted, raises or never
  ends. A node that could not be constructed, which happens exactly for a bad host, port or node ID, leaves
  the file alone.\<close>

theorem network_node_shuts_down:
  assumes "platform_ok P" and "stored_chain P dir files c"
    and "\<And>p x. (p2p_step P (nw_address w))\<^sup>*\<^sup>* x (snd (nw_wait w p x))"
    and "\<And>p x. p2p_ok P (snd x) \<Longrightarrow> \<not> pn_running (snd x) \<Longrightarrow> \<not> pn_running (snd (snd (nw_wait w p x)))
      \<and> (p \<in> {Closing Flushing, Closing Ending} \<longrightarrow> set (pn_connections (snd (snd (nw_wait w p x)))) \<subseteq> set (pn_connections (snd x)))"
  shows "case run_network_node P w now dir host port endpoints files of
      (r, printed, None, files') \<Rightarrow> \<not> (host \<in> set LOOPBACK_HOSTS \<and> 0 \<le> port \<and> port \<le> 0xFFFF \<and> length (nw_node_id w) = 16)
        \<and> (\<exists>e. r = Inl e) \<and> stored_chain P dir files' c
    | (r, printed, Some st, files') \<Rightarrow> chain_grows c (nd_chain (pn_local_node st))
        \<and> map_of files' (database_file P dir) = Some (database_of P (nd_chain (pn_local_node st)))
        \<and> (\<not> pn_running st \<and> pn_connections st = [] \<and> (\<exists>s. nd_storage (pn_local_node st) = Some s \<and> sg_closed s)
         \<or> (\<exists>e. r = Inl e \<and> (closing_fails w e \<or> exn_kind e = Diverges \<and> surroundings_fail w e)))"
proof -
  obtain r printed peer files' where run: "run_network_node P w now dir host port endpoints files = (r, printed, peer, files')"
    by (cases "run_network_node P w now dir host port endpoints files") auto
  have "waits_run P w" "waits_quiet P w" using assms(3,4) unfolding waits_run_def waits_quiet_def by blast+
  from network_node_saves [OF assms(1,2) this run] show ?thesis
    unfolding run by (cases peer) (simp_all add: saved_def closed_down_def)
qed

text \<open>
  A network on which a peer dials in and is greeted while the node waits to be stopped; it hangs up while the
  server is waited for, which ends the task of its connection.
\<close>

definition sample_visit :: "rat \<times> p2p_node \<Rightarrow> rat \<times> p2p_node" where
  "sample_visit x =
     (let st = accept sample_ip (Some (str ''127.0.0.1'', 5000)) (fst x) (snd x)
      in (fst x, if pn_objects st = [] then st else snd (run_task sample_platform 0 (fst x) [] st)))"

definition sample_parting :: "rat \<times> p2p_node \<Rightarrow> rat \<times> p2p_node" where
  "sample_parting x =
     (let st = set_conn 0 (pc_reader_update (\<lambda>s. s\<lparr>ps_closed := True\<rparr>)) (snd x)
      in (fst x, if pn_objects st = [] then st else snd (run_task sample_platform 0 (fst x) [] st)))"

definition sample_network :: network where
  "sample_network = \<lparr>nw_address = sample_ip, nw_digit = (\<lambda>_. None), nw_node_id = replicate 16 9,
     nw_sockets = Inr [(str ''127.0.0.1'', 4000)], nw_dial = (\<lambda>_ _. Inr None),
     nw_wait = (\<lambda>p. change (case p of Until_Stopped \<Rightarrow> sample_visit | Closing Draining \<Rightarrow> sample_parting | _ \<Rightarrow> id))\<rparr>"

interpretation task_running: task_keeps P "\<lambda>st. (platform_ok P \<and> p2p_ok_at P i st) \<and> pn_running st = b" i now for P i now b
  by (rule task_keeps_conj [OF task_tables.task_keeps_axioms], rule node_keeps_conj [OF task_tables.node_keeps_axioms])
     (simp_all add: penalize_def handshake_state_def run_finally_def Let_def fail_def ret_def split: option.splits)

lemma sample_network_waits:
  "(p2p_step sample_platform (nw_address sample_network))\<^sup>*\<^sup>* x (snd (nw_wait sample_network p x))"
  "p2p_ok sample_platform (snd x) \<Longrightarrow> \<not> pn_running (snd x) \<Longrightarrow> \<not> pn_running (snd (snd (nw_wait sample_network p x)))
     \<and> (p \<in> {Closing Flushing, Closing Ending} \<longrightarrow>
         set (pn_connections (snd (snd (nw_wait sample_network p x)))) \<subseteq> set (pn_connections (snd x)))"
proof -
  let ?step = "p2p_step sample_platform sample_ip"
  have t: "?step\<^sup>*\<^sup>* (t, st) (t, if pn_objects st = [] then st else snd (run_task sample_platform 0 t [] st))" for t st
    by (auto intro!: r_into_rtranclp step_task)
  have v: "?step\<^sup>*\<^sup>* x (sample_visit x)" "?step\<^sup>*\<^sup>* x (sample_parting x)" for x
    unfolding sample_visit_def sample_parting_def Let_def
    by (rule converse_rtranclp_into_rtranclp [OF _ t], cases x, simp add: step_accept step_hang_up)+
  then show "(p2p_step sample_platform (nw_address sample_network))\<^sup>*\<^sup>* x (snd (nw_wait sample_network p x))"
    by (simp add: sample_network_def change_def split: wait_point.split close_wait.split)
  have k: "\<not> pn_running (if pn_objects st = [] then st else snd (run_task sample_platform 0 t [] st))"
    if "p2p_ok sample_platform st" "\<not> pn_running st" for t st
    using task_running.run_task_ok [of sample_platform 0 st False t "[]"] that sample_platform_ok by (simp add: p2p_ok_at_def)
  have a: "pn_running (accept sample_ip peername now st) = pn_running st" for peername now st
    by (auto simp: accept_def can_accept_def add_connection_def Let_def split: option.split bool.split)
  show "p2p_ok sample_platform (snd x) \<Longrightarrow> \<not> pn_running (snd x) \<Longrightarrow> \<not> pn_running (snd (snd (nw_wait sample_network p x)))
     \<and> (p \<in> {Closing Flushing, Closing Ending} \<longrightarrow>
         set (pn_connections (snd (snd (nw_wait sample_network p x)))) \<subseteq> set (pn_connections (snd x)))"
    using k accept_ok a p2p_ok_set_conn [of sample_platform "snd x" "pc_reader_update (\<lambda>s. s\<lparr>ps_closed := True\<rparr>)" 0]
    by (auto simp: sample_network_def change_def sample_visit_def sample_parting_def Let_def peer_key_of_def
        split: wait_point.split close_wait.split)
qed

text \<open>The node starts, announces itself, meets the peer, is told to stop and closes: no wait fails.\<close>

lemma sample_waits_end: "nw_wait sample_network p x = (Inr (), snd (nw_wait sample_network p x))"
  by (simp add: sample_network_def change_def)

lemma sample_close_ends: "\<exists>y. close_server sample_network x = (Inr (), y)"
proof -
  obtain q y where c: "close_server sample_network x = (q, y)" by (rule prod.exhaust)
  have "\<not> closing_fails sample_network e" for e
    unfolding closing_fails_def using sample_waits_end by (metis fst_conv Inl_Inr_False)
  then have "\<exists>u. q = Inr u" using fails_onlyD [OF close_server_fails [of sample_network], of x _ y] c by (cases q) auto
  then show ?thesis using c by auto
qed

lemma sample_announced:
  assumes "\<not> pn_running st" and "chain_height (nd_chain (pn_local_node st)) = Inr h"
  shows "\<exists>d. announce sample_network [] (t, st) = (Inr d, (t, st\<lparr>pn_running := True, pn_port := 4000\<rparr>))"
  using assms
  by (simp add: announce_def start_server_def and_then_def compute_def at_time_def start_p2p_def ret_def reads_state_def
      node_document_def change_def is_loopback_address_def sample_ip_def sample_network_def Let_def)

lemma network_node_shuts_down_witness:
  "\<exists>d st files'. run_network_node sample_platform sample_network 0 [] (str ''localhost'') 4000 [] [] = (Inr (), Some d, Some st, files')
     \<and> pn_objects st \<noteq> [] \<and> \<not> pn_running st \<and> pn_connections st = []"
proof -
  obtain nd where nd: "open_persistent sample_platform [] TESTNET True []
      = (Inr nd, AList.update (database_file sample_platform []) (database_of sample_platform sample_chain) [])"
    "session_ok sample_platform (database_file sample_platform []) sample_chain nd" "nd_chain nd = sample_chain"
    by (rule open_session [OF sample_platform_ok sample_stored])
  define st0 where "st0 = \<lparr>pn_local_node = nd, pn_host = str ''localhost'', pn_port = 4000, pn_node_id = replicate 16 9,
     pn_limits = default_limits, pn_running = False, pn_objects = [], pn_connections = [],
     pn_by_node_id = [], pn_scores = [], pn_host_scores = [], pn_banned_until = []\<rparr>"
  have n: "new_p2p_node nd (str ''localhost'') 4000 None None (nw_node_id sample_network) = Inr st0"
    by (simp add: new_p2p_node_def st0_def sample_network_def LOOPBACK_HOSTS_def)
  let ?st1 = "st0\<lparr>pn_running := True, pn_port := 4000\<rparr>"
  let ?peer = "Some (str ''127.0.0.1'', 5000)"
  have "node_reachable sample_platform nd" using nd(2) by (simp add: session_ok_def)
  then have ok0: "p2p_ok sample_platform st0" and l0: "pn_local_node st0 = nd" using new_node_start [OF _ n] by blast+
  have "\<exists>h. chain_height (nd_chain (pn_local_node st0)) = Inr h"
    using tip_facts(2) [OF sample_chain_ok] nd(3) l0 by auto
  then obtain d where d: "announce sample_network [] (0, st0) = (Inr d, (0, ?st1))"
    using sample_announced [of st0] by (auto simp: st0_def)
  define x where "x = sample_visit (0, ?st1)"
  have s: "serve sample_network [] (0, st0) = (Inr (), Some d, x)"
    using d by (simp add: serve_def x_def) (simp add: sample_network_def change_def)
  obtain y where y: "close_server sample_network x = (Inr (), y)" using sample_close_ends by blast
  have w: "waits_run sample_platform sample_network" using sample_network_waits(1) by (simp add: waits_run_def)
  have ok1: "p2p_ok sample_platform ?st1" using ok0 by (simp add: p2p_ok_def)
  have a: "accept sample_ip ?peer 0 ?st1 = add_connection (str ''127.0.0.1'') 5000 False ?st1"
    by (simp add: accept_def is_loopback_address_def sample_ip_def can_accept_def st0_def dict_get_def Let_def
        host_connection_count_def default_limits_def)
  define z where "z = (0 :: rat, accept sample_ip ?peer 0 ?st1)"
  have zo: "pn_objects (snd z) \<noteq> []" unfolding z_def a by (simp add: add_connection_def)
  have "p2p_step sample_platform sample_ip z x"
  proof -
    have x: "x = (0, snd (run_task sample_platform 0 0 [] (snd z)))"
      using zo by (simp add: x_def sample_visit_def Let_def z_def)
    show ?thesis unfolding x using step_task [of 0 0 0 "snd z" sample_platform sample_ip "[]"] zo by (simp add: z_def)
  qed
  then have run: "run_from sample_platform sample_network z x"
    using accept_ok [OF ok1] by (simp add: run_from_def sample_network_def r_into_rtranclp z_def)
  have "run_from sample_platform sample_network z (snd (close_server sample_network x))"
    by (rule keepsD [OF keeps_close [OF w] run])
  then have "run_from sample_platform sample_network z y" using y by simp
  then have o: "pn_objects (snd y) \<noteq> []"
    using p2p_run_objects [OF sample_platform_ok, of sample_ip z y] zo by (auto simp: run_from_def sample_network_def)
  let ?st = "pn_local_node_update close_node (snd y)"
  obtain files' where r: "run_network_node sample_platform sample_network 0 [] (str ''localhost'') 4000 [] []
      = (Inr (), Some d, Some ?st, files')"
    using nd(1) n s y by (simp add: run_network_node_def shut_down_def)
  have "\<not> pn_running ?st \<and> pn_connections ?st = []"
    using network_node_shuts_down [OF sample_platform_ok sample_stored sample_network_waits,
        where now = 0 and host = "str ''localhost''" and port = 4000 and endpoints = "[]"] unfolding r by simp
  then show ?thesis using r o by auto
qed

text \<open>C18. \<open>chain_commands_report\<close>: on a file with the blocks and the identity of a chain but any other tables,
  \<open>chain reindex\<close> rebuilds the tables of the chain and reports it; on the file it leaves, \<open>chain validate\<close>
  succeeds with the same numbers, \<open>chain info\<close> prints those and the chain's work and supply, with the supply once
  in atoms and once as the amount that reads back as it, and neither changes anything.\<close>

theorem chain_commands_report:
  assumes "platform_ok P" and "chain_reachable P c" and "blocks_of_chain P c db" and "map_of files (database_file P dir) = Some db"
  shows "\<exists>height work supply shown s genesis report files' files''.
       chain_height c = Inr height \<and> chain_cumulative_work c = Inr work \<and> chain_total_supply c = Inr supply
     \<and> parse_our_amount shown True = Inr supply \<and> chain_state P c = Inr s
     \<and> bindE (genesis_block P TESTNET) (block_hash P) = Inr genesis
     \<and> report = \<lparr>vr_block_count = length (ch_entries c), vr_account_count = length (st_accounts s), vr_height = height,
                 vr_tip_hash = ch_tip c\<rparr>
     \<and> run_chain_command P resolve Reindex dir files = (Inr (report_document ''reindexed'' report), files')
     \<and> map_of files' = (map_of files)(database_file P dir \<mapsto> database_of P c)
     \<and> run_chain_command P resolve Validate dir files' = (Inr (report_document ''valid'' report), files'')
     \<and> run_chain_command P resolve Info dir files' = (Inr (JObject
         [(str ''schema_version'', JInt SCHEMA_VERSION), (str ''chain_id'', JStr (net_chain_id TESTNET)),
          (str ''genesis_hash'', JStr (bytes_hex genesis)), (str ''database_path'', JStr (resolve (database_file P dir))),
          (str ''height'', JInt height), (str ''tip_hash'', JStr (bytes_hex (ch_tip c))),
          (str ''cumulative_work'', JStr (str (int_str work))), (str ''issued_supply_atoms'', JInt supply),
          (str ''issued_supply_our'', JStr shown), (str ''block_count'', JInt (int (length (ch_entries c)))),
          (str ''account_count'', JInt (int (length (st_accounts s))))]), files'')
     \<and> map_of files'' = map_of files'"
proof -
  note tf = tip_facts [OF reachable_ok [OF assms(1,2)]]
  let ?e = "tip_entry c"
  obtain files' where f: "run_chain_command P resolve Reindex dir files = (Inr (report_document ''reindexed'' (chain_report c)), files')"
    "map_of files' = (map_of files)(database_file P dir \<mapsto> database_of P c)" by (rule reindex_command [OF assms])
  have f2: "map_of files' (database_file P dir) = Some (database_of P c)" using f(2) by simp
  have "chain_height c = Inr (br_height (en_record ?e))" "chain_cumulative_work c = Inr (br_cumulative_work (en_record ?e))"
    "chain_total_supply c = Inr (br_total_supply (en_record ?e))"
    using tf(2,9) by (simp_all add: chain_cumulative_work_def chain_total_supply_def dict_index_def)
  moreover have "chain_report c = \<lparr>vr_block_count = length (ch_entries c), vr_account_count = length (st_accounts (tip_state c)),
      vr_height = br_height (en_record ?e), vr_tip_hash = ch_tip c\<rparr>"
    by (simp add: chain_report_def tip_state_def entry_state_def state_of_snapshot_def)
  moreover obtain files'' shown where
      "run_chain_command P resolve Validate dir files' = (Inr (report_document ''valid'' (chain_report c)), files'')"
      "run_chain_command P resolve Info dir files' = (storage_info_document resolve \<lparr>si_schema_version = SCHEMA_VERSION,
         si_chain_id = net_chain_id TESTNET, si_genesis_hash = genesis_hash_of P, si_database_path = database_file P dir,
         si_height = br_height (en_record ?e), si_tip_hash = ch_tip c, si_cumulative_work = br_cumulative_work (en_record ?e),
         si_issued_supply = br_total_supply (en_record ?e), si_block_count = length (ch_entries c),
         si_account_count = length (snap_accounts (en_snapshot ?e))\<rparr>, files'')"
      "map_of files'' = map_of files'" "format_atoms (br_total_supply (en_record ?e)) = Inr shown"
      "parse_our_amount shown True = Inr (br_total_supply (en_record ?e))"
    by (rule read_commands [OF assms(1,2) f2])
  moreover have "snap_accounts (en_snapshot ?e) = st_accounts (tip_state c)"
    by (simp add: tip_state_def entry_state_def state_of_snapshot_def)
  ultimately show ?thesis
    using f tf(1) genesis_hash_block [OF assms(1,2)]
    by (intro exI [of _ "br_height (en_record ?e)"] exI [of _ "br_cumulative_work (en_record ?e)"]
        exI [of _ "br_total_supply (en_record ?e)"] exI [of _ shown] exI [of _ "tip_state c"] exI [of _ "genesis_hash_of P"]
        exI [of _ "chain_report c"] exI [of _ files'] exI [of _ files'']) (simp add: storage_info_document_def)
qed

lemma chain_commands_report_witness:
  "\<exists>r files'. run_chain_command sample_platform concat Reindex []
       [(database_file sample_platform [], (database_of sample_platform sample_chain_2)\<lparr>db_canonical := [], db_accounts := []\<rparr>)]
     = (Inr (report_document ''reindexed'' r), files') \<and> vr_tip_hash r = ch_tip sample_chain_2"
proof -
  let ?db = "(database_of sample_platform sample_chain_2)\<lparr>db_canonical := [], db_accounts := []\<rparr>"
  have "blocks_of_chain sample_platform sample_chain_2 ?db"
    using database_of_blocks [of sample_platform sample_chain_2] by (simp add: blocks_of_chain_def)
  from chain_commands_report [OF sample_platform_ok sample_chain_2_reachable this,
      of "[(database_file sample_platform [], ?db)]" "[]" concat]
  show ?thesis by auto
qed

text \<open>C36. \<open>amounts_round_trip\<close>: an amount in the range of atoms is printed, and the text reads as the same
  amount, which is refused as a payment only when it is zero; and the texts that read as an amount are
  exactly the plain decimals with at most eight decimal places that denote it.\<close>

theorem amounts_round_trip:
  assumes "0 \<le> n" and "n \<le> U64_MAX"
  shows "(\<exists>s. format_atoms n = Inr s \<and> parse_our_amount s True = Inr n \<and> (parse_our_amount s False = Inr n \<longleftrightarrow> 0 < n))
     \<and> (\<forall>v. parse_our_amount v True = Inr n \<longleftrightarrow> (\<exists>whole fraction. amount_parts v whole fraction
           \<and> n = decimal_value (whole @ fraction) * 10 ^ (8 - length fraction)))"
proof (intro conjI allI)
  obtain s where s: "format_atoms n = Inr s" "parse_our_amount s True = Inr n" "0 < n \<Longrightarrow> parse_our_amount s False = Inr n"
    using format_atoms_parses [OF assms] by blast
  have "n \<noteq> 0" if "parse_our_amount s False = Inr n" using that unfolding parse_our_amount_iff by blast
  then have "0 < n" if "parse_our_amount s False = Inr n" using that assms(1) by fastforce
  with s show "\<exists>s. format_atoms n = Inr s \<and> parse_our_amount s True = Inr n \<and> (parse_our_amount s False = Inr n \<longleftrightarrow> 0 < n)"
    by blast
  show "parse_our_amount v True = Inr n \<longleftrightarrow> (\<exists>whole fraction. amount_parts v whole fraction
           \<and> n = decimal_value (whole @ fraction) * 10 ^ (8 - length fraction))" for v
    unfolding parse_our_amount_iff using assms(2) by simp
qed

lemma amounts_round_trip_witness: "parse_our_amount (str ''12.5'') True = Inr 1250000000"
proof -
  have "str ''12.5'' = [49, 50, 46, 53]" by (simp add: str_def)
  then have "amount_parts (str ''12.5'') [49, 50] [53]" by (simp add: amount_parts_def ascii_decimal_def)
  moreover have "1250000000 = decimal_value ([49, 50] @ [53]) * 10 ^ (8 - length [53 :: nat])" by (simp add: decimal_value_def)
  moreover have "0 \<le> (1250000000::int)" "(1250000000::int) \<le> U64_MAX" by (simp_all add: U64_MAX_def)
  ultimately show ?thesis using amounts_round_trip [of 1250000000] by blast
qed

text \<open>\<open>peer_endpoints\<close>: a \<open>--peer\<close> argument either is refused with \<open>CliError\<close> or names a loopback host and a
  port in range; every such host and port, written \<open>HOST:PORT\<close>, is read back, also the IPv6 host that has
  colons of its own.\<close>

theorem peer_endpoints:
  "(case parse_peer_endpoint digit v of
      Inl e \<Rightarrow> exn_kind e = CliError
    | Inr (host, port) \<Rightarrow> host \<in> set LOOPBACK_HOSTS \<and> 1 \<le> port \<and> port \<le> 0xFFFF \<and> (\<exists>text. v = host @ [58] @ text))
   \<and> (\<forall>host \<in> set LOOPBACK_HOSTS. \<forall>port \<in> {1..0xFFFF}.
        parse_peer_endpoint digit (host @ [58] @ str (int_str port)) = Inr (host, port))"
  using endpoint_read endpoint_written by simp

lemma peer_endpoints_witness:
  "parse_peer_endpoint (\<lambda>_. None) (str ''::1'' @ [58] @ str (int_str 19733)) = Inr (str ''::1'', 19733)"
proof -
  have "str ''::1'' \<in> set LOOPBACK_HOSTS" "(19733::int) \<in> {1..0xFFFF}" by (simp_all add: LOOPBACK_HOSTS_def)
  then show ?thesis using conjunct2 [OF peer_endpoints] by blast
qed

end
