(* ===== verification/Spec2Isabelle.thy ===== *)
theory Spec2Isabelle
  imports Local_Node Wallet_File P2p_Catch_Up Cli_Properties
begin

text \<open>
  Verification library of OurCoin, a proof-of-work coin in Python (\<open>src/src/ourcoin\<close>).

  \<^bold>\<open>The program.\<close> Values become bytes through one canonical encoding (\<open>encoding.py\<close>); keys, hashes and
  signatures come from libraries behind \<open>crypto.py\<close>; addresses (\<open>address.py\<close>) name public-key hashes.
  Signed transactions (\<open>transaction.py\<close>) change an account state (\<open>account.py\<close>, \<open>state.py\<close>). Blocks
  (\<open>block.py\<close>, \<open>merkle.py\<close>) are mined (\<open>miner.py\<close>) and checked by the rules of \<open>consensus.py\<close>; the tree of
  blocks and its heaviest branch are \<open>chain.py\<close>; unconfirmed transactions wait in \<open>mempool.py\<close>; tables of
  the chain are kept by \<open>storage.py\<close>, keys by \<open>wallet.py\<close>. \<open>node.py\<close> joins chain, storage and pool,
  \<open>p2p_protocol.py\<close> frames messages between nodes, \<open>p2p.py\<close> runs the peers around a local node, and
  \<open>cli.py\<close> is the command line over all of it.

  \<^bold>\<open>How code is modelled.\<close> A function that may raise returns \<open>'a res = py_error + 'a\<close>, with the class and
  the message of the exception; \<open>bindE\<close> sequences such functions and \<open>rethrow\<close> is \<open>except ... raise ... from\<close>. A method
  that changes its object is a function from the state to a result and the new state (\<open>operation\<close> in
  Peer_Connection where many calls are threaded), so what has been changed before an exception stays
  changed. Integers are unbounded as in Python, with the range checks of the code; bytes are lists of
  8-bit words, texts are lists of code points, dictionaries are association lists in insertion order.
  Type checks of dynamically typed arguments are discharged by the types of the model.

  \<^bold>\<open>Theories and code.\<close>
  \<^item> Prelude: exceptions, results, dictionaries, the contracts of batch loops (\<open>batch_loop\<close>,
    \<open>simulating_loop\<close>) and of machines with an invariant (\<open>machine\<close>). Platform: the functions of hashing, signing,
    encryption and Unicode the code calls, a record \<open>platform\<close> with their documented behaviour as \<open>platform_ok\<close>;
    Sample_Platform is an instance that satisfies it and carries the witnesses.
  \<^item> Python_Codecs, Base32, Base64: \<open>int.to_bytes\<close>, UTF-8, hexadecimal and the two base encodings of the
    standard library. Encoding, Crypto (with \<open>config.py\<close>), Address, Merkle, Transaction, Block, Miner: the files of
    these names, with round trips and exact domains of the parsers.
  \<^item> Account_State: \<open>account.py\<close> and \<open>state.py\<close>; batches refine an abstract ledger of balances and nonces.
    Consensus: subsidy, candidates, validation and execution of blocks. Chain: the tree, retargeting, reorganisation,
    \<open>add_block\<close>; every run keeps the invariant \<open>chain_ok\<close>. Mempool: the pool, its fit to a state, and \<open>select\<close> as
    a greedy specification that needs no state.
  \<^item> Storage: the tables with the constraints the schema declares and every operation on them. Stored_Chain: the
    operations refine a database that is a function of the chain (\<open>database_of\<close>): persisting, replaying,
    validating, reindexing and opening it. Wallet and Wallet_File: \<open>wallet.py\<close>; a save is one step in Wallet, which the
    protocol of its temporary file refines in Wallet_File, where every call may fail and other processes write before each. Local_Node: \<open>node.py\<close>; \<open>node_ok\<close> ties chain, database
    and pool together and every run from \<open>node_start\<close> keeps it.
  \<^item> P2p_Protocol: \<open>p2p_protocol.py\<close>, a stream being the bytes that have arrived and whether the peer hung up.
    Peer_Connection and P2p_Node: \<open>p2p.py\<close>, one state \<open>p2p_node\<close> with the connection objects in it, a task of a
    connection being a program counter with one step function per phase.
  \<^item> Handler_Invariants: what every handler keeps, proved once in the locales \<open>node_keeps\<close> and \<open>task_keeps\<close>.
    P2p_Session: the step relation \<open>p2p_step\<close>, in which tasks, sockets, the clock and the caller act in any order, with
    the locales interpreted for the tables, for the runs of the local node and for bans. Block_Relay and P2p_Sync:
    every block fits a frame, nodes agree on blocks, one round of synchronisation between two nodes.
    P2p_Properties: the properties of the peer node over all runs. P2p_Catch_Up: two nodes from their greetings to the
    same chain, each task reading, counting and handling what the other wrote, for as many blocks as the limits of one
    minute let through.
  \<^item> Cli and Cli_Properties: \<open>cli.py\<close>, and what a shell session, a network node and the commands on databases
    leave behind. The waits of a network node (\<open>wait_point\<close>), those inside \<open>P2PNode.close\<close> included, are an
    argument: any run of \<open>p2p_step\<close> that may be interrupted, raise, or not end.

  \<^bold>\<open>What the lemmas show.\<close> Each component has exact characterisations of its operations (\<open>_iff\<close>, \<open>_spec\<close>),
  the exceptions they can raise (\<open>_raises\<close>), and preservation of its invariant; properties are the last section of a
  theory, each with a witness at concrete values. Across components: a block that was accepted conserves the
  supply, is stored, is restored, and travels to peers; whatever is typed into a shell or sent by peers, the chain
  only grows and the database file holds exactly its tables.

  \<^bold>\<open>Loops.\<close> All loops are recursion that ends: on lists, on the attempts left (\<open>mine_loop\<close>), on a measure
  (\<open>locator_loop\<close>, \<open>merkle_loop\<close>), or on a height that falls by one per step (\<open>collect_branch\<close>, \<open>climb\<close>,
  \<open>ancestor_loop\<close>), where the fuel is the height of the block plus one and the tree invariant makes it enough, as the
  lemmas \<open>collect_branch_spec\<close>, \<open>climb_spec\<close> and \<open>ancestor_loop_spec\<close> show; an exhausted fuel is the exception \<open>Diverges\<close>,
  which no theorem of success allows. In Cli the same exception stands for a wait that never ends, and
  \<open>CancelledError\<close> for one that is interrupted.

  \<^bold>\<open>Atomicity.\<close> A handler of the peer node is one step. Where the program waits inside a handler for the
  sends of a broadcast or for a socket to close, other tasks could run; such a switch has no counterpart here, and its
  effects on a connection are steps of their own: \<open>step_sends\<close> sets the number of sends in flight to any value, so
  that the limit on them is met, and \<open>step_woken\<close> runs the rest of a round whose connection was closed while it waited
  (\<open>run_waiting\<close>). The stages of \<open>P2PNode.close\<close> are separate steps, with the waits between them.

  \<^bold>\<open>Not modelled.\<close> Sockets, timers and the scheduling of asyncio, beyond the steps of \<open>p2p_step\<close>; JSON text
  (\<open>json.dumps\<close> and \<open>json.loads\<close> are arguments); the disk, locking and PRAGMA configuration of SQLite; file modes
  and a process killed in the middle of a save; drawing keys and nonces (arguments); \<open>argparse\<close>, the terminal and \<open>shlex\<close>
  (arguments); \<open>__init__.py\<close>, which holds the version.
\<close>

end
